(* ===== verification/Ets_Prelude.thy ===== *)
theory Ets_Prelude
  imports Main "HOL-Library.Word" "HOL-Library.List_Lexorder" "HOL-Library.Char_ord"
    "HOL-Library.Product_Lexorder" "HOL-Library.Multiset"
begin

text \<open>
  Shared vocabulary of the ETS development.

  \<^item> Python exceptions are values of \<open>exn\<close>, one constructor per exception class the sources
    raise; a fallible operation returns \<open>'a result\<close>, that is \<open>exn + 'a\<close>, with \<open>Inl\<close> for a raise.
    \<open>rbind\<close> runs the rest of a body only when no exception was raised, \<open>rcheck\<close> is an
    \<^verbatim>\<open>if not ...: raise\<close> guard, \<open>rmap\<close> a list comprehension whose element expression may raise.
  \<^item> Python \<open>str\<close> is \<open>string\<close>: a list of code points below 256, ordered by code point as Python
    orders strings. \<open>bytes\<close> is a list of 8-bit words.
  \<^item> \<open>fromhex\<close> and \<open>hexlify\<close> model \<^verbatim>\<open>bytes.fromhex\<close> and \<^verbatim>\<open>bytes.hex\<close>, \<open>utf8\<close> models
    \<^verbatim>\<open>str.encode("utf-8")\<close>, \<open>show_int\<close> models \<^verbatim>\<open>str(int)\<close>.
\<close>

section \<open>Exceptions and results\<close>

datatype exn =
    ValueError string
  | TypeError string
  | KeyError string
  | IndexError string
  | RuntimeError string
  | AssertionError string
  | UnicodeError string
  | ValidationError string
  | CanonicalJSONError string
  | DuplicateEventError string
  | EventNotFoundError string
  | StorageValidationError string
  | ArtifactRegistryError string
  | UnknownProfileError string
  | VerificationOnlyProfileError string
  | VaultPolicyError string
  | VaultProductionReadinessError string
  | VaultObjectAlreadyExists string
  | VaultObjectNotFound string
  | VaultStorageError string
  | VaultCatalogError string
  | DuplicatePacketError string
  | ChainContinuityError string
  | PacketNotFoundError string
  | EnrollmentValidationError string string
  | QueueCapacityError string
  | SyncConflictError string
  | ScopedSyncQueueStatusError string
  | BlackBoxValidationError string
  | BlackBoxProductionReadinessError string
  | BlackBoxStateConflict string
  | BlackBoxSegmentAlreadyExists string
  | BlackBoxSegmentNotFound string
  | SyslogFramingError string
  | SyslogParseError string
  | AzureTableConflictError string
  | RangerExternalPublicationError string
  | RangerPublicationArchiveError string
  | RangerPublicationArchiveConflict string
  | RangerPublicationArchiveIntegrityError string
  | RangerPublicationKeyLifecycleError string
  | RangerPublicationKeyLifecycleConflict string
  | RangerPublicationKeyLifecycleIntegrityError string
  | TenantScopeError string

type_synonym 'a result = "exn + 'a"

named_theorems ets_defs \<open>definitions a component's proofs unfold\<close>
named_theorems ets_inv \<open>preservation facts of invariants\<close>

definition rbind :: "'a result \<Rightarrow> ('a \<Rightarrow> 'b result) \<Rightarrow> 'b result" where
  "rbind m f = (case m of Inl e \<Rightarrow> Inl e | Inr x \<Rightarrow> f x)"

definition rcheck :: "bool \<Rightarrow> exn \<Rightarrow> unit result" where
  "rcheck ok e = (if ok then Inr () else Inl e)"

definition rget :: "exn \<Rightarrow> 'a option \<Rightarrow> 'a result" where
  "rget e x = (case x of None \<Rightarrow> Inl e | Some v \<Rightarrow> Inr v)"

primrec rmap :: "('a \<Rightarrow> 'b result) \<Rightarrow> 'a list \<Rightarrow> 'b list result" where
  "rmap f [] = Inr []"
| "rmap f (x # xs) = rbind (f x) (\<lambda>y. rbind (rmap f xs) (\<lambda>ys. Inr (y # ys)))"

primrec rfold :: "('s \<Rightarrow> 'a \<Rightarrow> 's result) \<Rightarrow> 's \<Rightarrow> 'a list \<Rightarrow> 's result" where
  "rfold f s [] = Inr s"
| "rfold f s (x # xs) = rbind (f s x) (\<lambda>s'. rfold f s' xs)"

text \<open>The first of a sequence of checks to fail gives the reason.\<close>

primrec first_some :: "'a option list \<Rightarrow> 'a option" where
  "first_some [] = None"
| "first_some (x # xs) = (case x of None \<Rightarrow> first_some xs | Some y \<Rightarrow> Some y)"

definition fail_if :: "bool \<Rightarrow> 'a \<Rightarrow> 'a option" where
  "fail_if c m = (if c then Some m else None)"

lemma first_some_None [simp]: "first_some xs = None \<longleftrightarrow> (\<forall>x \<in> set xs. x = None)"
  by (induction xs) (auto split: option.split)

declare first_some.simps [simp del]

lemma fail_if_None [simp]: "fail_if c m = None \<longleftrightarrow> \<not> c"
  by (simp add: fail_if_def)

text \<open>A loop that checks every element against those accepted before it and stops at the first failure.\<close>

primrec first_failure :: "('a list \<Rightarrow> 'a \<Rightarrow> string option) \<Rightarrow> 'a list \<Rightarrow> 'a list \<Rightarrow> (nat \<times> string) option" where
  "first_failure check seen [] = None"
| "first_failure check seen (x # xs) =
     (case check seen x of Some reason \<Rightarrow> Some (length seen, reason) | None \<Rightarrow> first_failure check (seen @ [x]) xs)"

lemma first_failure_append:
  "first_failure check seen (xs @ ys) =
    (case first_failure check seen xs of None \<Rightarrow> first_failure check (seen @ xs) ys | Some f \<Rightarrow> Some f)"
  by (induction xs arbitrary: seen) (auto split: option.split)

lemma first_failure_None:
  "first_failure check seen xs = None \<longleftrightarrow> (\<forall>i < length xs. check (seen @ take i xs) (xs ! i) = None)"
  by (induction xs arbitrary: seen) (auto simp: All_less_Suc2 split: option.split)

lemma rbind_Inl [simp]: "rbind (Inl e) f = Inl e"
  by (simp add: rbind_def)

lemma rbind_Inr [simp]: "rbind (Inr x) f = f x"
  by (simp add: rbind_def)

lemma rbind_eq_Inr [simp]: "rbind m f = Inr y \<longleftrightarrow> (\<exists>x. m = Inr x \<and> f x = Inr y)"
  by (cases m) auto

lemma rbind_eq_Inl: "rbind m f = Inl e \<longleftrightarrow> m = Inl e \<or> (\<exists>x. m = Inr x \<and> f x = Inl e)"
  by (cases m) auto

lemma rcheck_eq_Inr [simp]: "rcheck ok e = Inr u \<longleftrightarrow> ok"
  by (simp add: rcheck_def)

lemma rcheck_eq_Inl [simp]: "rcheck ok e = Inl e' \<longleftrightarrow> \<not> ok \<and> e' = e"
  by (auto simp: rcheck_def)

lemma rcheck_True [simp]: "rcheck True e = Inr ()"
  by (simp add: rcheck_def)

lemma rcheck_False [simp]: "rcheck False e = Inl e"
  by (simp add: rcheck_def)

lemma rget_Some [simp]: "rget e (Some x) = Inr x"
  by (simp add: rget_def)

lemma rget_None [simp]: "rget e None = Inl e"
  by (simp add: rget_def)

lemma rget_eq_Inr [simp]: "rget e m = Inr x \<longleftrightarrow> m = Some x"
  by (cases m) auto

lemma rbind_cong [fundef_cong]:
  assumes "m = m'" and "\<And>x. m' = Inr x \<Longrightarrow> f x = g x"
  shows "rbind m f = rbind m' g"
  using assms by (cases m') auto

lemma rmap_cong [fundef_cong]:
  assumes "xs = ys" and "\<And>x. x \<in> set ys \<Longrightarrow> f x = g x"
  shows "rmap f xs = rmap g ys"
proof -
  have "(\<And>x. x \<in> set ys \<Longrightarrow> f x = g x) \<Longrightarrow> rmap f ys = rmap g ys"
    by (induction ys) auto
  with assms show ?thesis by simp
qed

lemma rmap_eq_Inr: "rmap f xs = Inr ys \<longleftrightarrow> list_all2 (\<lambda>x y. f x = Inr y) xs ys"
proof (induction xs arbitrary: ys)
  case Nil
  then show ?case by auto
next
  case (Cons x xs)
  show ?case
    by (cases ys) (auto simp: Cons.IH)
qed

lemma rmap_all_Inr:
  assumes "\<And>x. x \<in> set xs \<Longrightarrow> f x = Inr (g x)"
  shows "rmap f xs = Inr (map g xs)"
  using assms by (induction xs) auto

lemma rmap_map_id:
  assumes "\<And>x. x \<in> set xs \<Longrightarrow> g (h x) = Inr x"
  shows "rmap g (map h xs) = Inr xs"
  using assms by (induction xs) auto

lemma rmap_Inr_iff: "(\<exists>ys. rmap f xs = Inr ys) \<longleftrightarrow> (\<forall>x \<in> set xs. \<exists>y. f x = Inr y)"
  by (induction xs) auto

lemma rmap_eq_InlD: "rmap f xs = Inl e \<Longrightarrow> \<exists>x \<in> set xs. f x = Inl e"
  by (induction xs) (auto simp: rbind_eq_Inl)

lemma rmap_Inr_length: "rmap f xs = Inr ys \<Longrightarrow> length ys = length xs"
  by (auto simp: rmap_eq_Inr dest: list_all2_lengthD)

lemma rmap_append:
  "rmap f (xs @ ys) = rbind (rmap f xs) (\<lambda>us. rbind (rmap f ys) (\<lambda>vs. Inr (us @ vs)))"
proof (induction xs)
  case Nil
  then show ?case by (cases "rmap f ys") auto
next
  case (Cons x xs)
  then show ?case
    by (cases "f x"; cases "rmap f xs"; cases "rmap f ys") auto
qed

section \<open>Bytes, hexadecimal text and UTF-8\<close>

type_synonym byte = "8 word"

abbreviation code :: "char \<Rightarrow> nat" where
  "code c \<equiv> of_char c"

text \<open>The characters \<^verbatim>\<open>bytes.fromhex\<close> skips between two bytes: ASCII white space.\<close>

definition hex_space :: "char \<Rightarrow> bool" where
  "hex_space c \<longleftrightarrow> (9 \<le> code c \<and> code c \<le> 13) \<or> code c = 32"

definition hex_val :: "char \<Rightarrow> nat option" where
  "hex_val c =
     (if 48 \<le> code c \<and> code c \<le> 57 then Some (code c - 48)
      else if 97 \<le> code c \<and> code c \<le> 102 then Some (code c - 87)
      else if 65 \<le> code c \<and> code c \<le> 70 then Some (code c - 55)
      else None)"

definition hex_digit :: "nat \<Rightarrow> char" where
  "hex_digit n = (if n < 10 then char_of (48 + n) else char_of (87 + n))"

definition fromhex_error :: exn where
  "fromhex_error = ValueError ''non-hexadecimal number found in fromhex() arg''"

fun fromhex_opt :: "string \<Rightarrow> byte list option" where
  "fromhex_opt [] = Some []"
| "fromhex_opt (c # cs) =
     (if hex_space c then fromhex_opt cs
      else case cs of
        [] \<Rightarrow> None
      | d # ds \<Rightarrow>
          (case (hex_val c, hex_val d) of
             (Some h, Some l) \<Rightarrow> map_option ((#) (of_nat (16 * h + l))) (fromhex_opt ds)
           | _ \<Rightarrow> None))"

definition fromhex :: "string \<Rightarrow> byte list result" where
  "fromhex s = rget fromhex_error (fromhex_opt s)"

definition hex_byte :: "byte \<Rightarrow> string" where
  "hex_byte b = [hex_digit (unat b div 16), hex_digit (unat b mod 16)]"

definition hexlify :: "byte list \<Rightarrow> string" where
  "hexlify bs = concat (map hex_byte bs)"

lemma hexlify_Nil [simp]: "hexlify [] = []"
  by (simp add: hexlify_def)

lemma hexlify_Cons: "hexlify (b # bs) = hex_digit (unat b div 16) # hex_digit (unat b mod 16) # hexlify bs"
  by (simp add: hexlify_def hex_byte_def)

lemma length_hexlify [simp]: "length (hexlify bs) = 2 * length bs"
  by (induction bs) (auto simp: hexlify_Cons)

lemma code_hex_digit: "n < 16 \<Longrightarrow> code (hex_digit n) = (if n < 10 then 48 + n else 87 + n)"
  by (simp add: hex_digit_def)

lemma hex_val_digit [simp]: "n < 16 \<Longrightarrow> hex_val (hex_digit n) = Some n"
  by (simp add: hex_val_def code_hex_digit)

lemma hex_space_digit [simp]: "n < 16 \<Longrightarrow> \<not> hex_space (hex_digit n)"
  by (simp add: hex_space_def code_hex_digit)

lemma unat_byte_less: "unat (b :: byte) < 256"
  using unsigned_less [of b] by simp

lemma nibbles_less [simp]: "unat (b :: byte) div 16 < 16" "unat (b :: byte) mod 16 < 16"
  using unat_byte_less [of b] by (simp_all add: less_mult_imp_div_less)

lemma nibbles_join [simp]: "(of_nat (16 * (unat (b :: byte) div 16) + unat b mod 16) :: byte) = b"
proof -
  have "16 * (unat b div 16) + unat b mod 16 = unat b"
    by (simp add: mult.commute)
  then show ?thesis by simp
qed

lemma fromhex_opt_hexlify [simp]: "fromhex_opt (hexlify bs) = Some bs"
proof (induction bs)
  case Nil
  then show ?case by simp
next
  case (Cons b bs)
  then show ?case
    by (simp add: hexlify_Cons del: of_nat_add of_nat_mult of_nat_numeral)
qed

lemma fromhex_hexlify [simp]: "fromhex (hexlify bs) = Inr bs"
  by (simp add: fromhex_def)

lemma hexlify_inject [simp]: "hexlify bs = hexlify cs \<longleftrightarrow> bs = cs"
  by (metis fromhex_opt_hexlify option.inject)

text \<open>Every decoded byte consumes two characters, so white space only ever shortens the result.\<close>

lemma fromhex_opt_length: "fromhex_opt s = Some bs \<Longrightarrow> 2 * length bs \<le> length s"
proof (induction s arbitrary: bs rule: fromhex_opt.induct)
  case (2 c cs)
  show ?case
  proof (cases "hex_space c")
    case True
    then show ?thesis using "2.IH"(1) "2.prems" by fastforce
  next
    case False
    then show ?thesis
      using "2.IH"(2) "2.prems" by (fastforce split: list.splits option.splits)
  qed
qed simp

lemma fromhex_length: "fromhex s = Inr bs \<Longrightarrow> 2 * length bs \<le> length s"
  by (simp add: fromhex_def fromhex_opt_length)

definition utf8_char :: "char \<Rightarrow> byte list" where
  "utf8_char c =
     (if code c < 128 then [of_nat (code c)]
      else [of_nat (192 + code c div 64), of_nat (128 + code c mod 64)])"

definition utf8 :: "string \<Rightarrow> byte list" where
  "utf8 s = concat (map utf8_char s)"


lemma utf8_Nil [simp]: "utf8 [] = []"
  by (simp add: utf8_def)

lemma utf8_Cons: "utf8 (c # cs) = utf8_char c @ utf8 cs"
  by (simp add: utf8_def)

lemma utf8_append [simp]: "utf8 (s @ t) = utf8 s @ utf8 t"
  by (simp add: utf8_def)

lemma code_less: "code c < 256"
  by simp

lemma of_nat_byte_eq: "m < 256 \<Longrightarrow> n < 256 \<Longrightarrow> (of_nat m :: byte) = of_nat n \<longleftrightarrow> m = n"
  by (simp add: word_of_nat_eq_iff take_bit_nat_def)

lemma utf8_char_prefix:
  assumes "utf8_char c @ xs = utf8_char d @ ys"
  shows "c = d \<and> xs = ys"
proof -
  have c: "code c < 256" and d: "code d < 256" by (rule code_less)+
  have "code c div 64 < 4" "code d div 64 < 4"
    by (simp_all add: div_less_iff_less_mult)
  then have hi: "192 + code c div 64 < 256" "192 + code d div 64 < 256"
    "128 + code c mod 64 < 256" "128 + code d mod 64 < 256"
    using mod_less_divisor [of 64 "code c"] mod_less_divisor [of 64 "code d"] by linarith+
  have "code c = code d \<and> xs = ys"
  proof (cases "code c < 128"; cases "code d < 128")
    assume "code c < 128" "code d < 128"
    with assms c d show ?thesis by (simp add: utf8_char_def of_nat_byte_eq del: of_nat_of_char)
  next
    assume lo: "code c < 128" "\<not> code d < 128"
    with assms have "(of_nat (code c) :: byte) = of_nat (192 + code d div 64)"
      by (simp add: utf8_char_def del: of_nat_add of_nat_numeral)
    with c hi lo show ?thesis by (simp add: of_nat_byte_eq del: of_nat_add of_nat_numeral)
  next
    assume lo: "\<not> code c < 128" "code d < 128"
    with assms have "(of_nat (code d) :: byte) = of_nat (192 + code c div 64)"
      by (simp add: utf8_char_def del: of_nat_add of_nat_numeral)
    with d hi lo show ?thesis by (simp add: of_nat_byte_eq del: of_nat_add of_nat_numeral)
  next
    assume "\<not> code c < 128" "\<not> code d < 128"
    with assms have *: "(of_nat (192 + code c div 64) :: byte) = of_nat (192 + code d div 64)"
      "(of_nat (128 + code c mod 64) :: byte) = of_nat (128 + code d mod 64)" "xs = ys"
      by (simp_all add: utf8_char_def del: of_nat_add of_nat_numeral)
    from * hi have "code c div 64 = code d div 64" "code c mod 64 = code d mod 64"
      by (simp_all add: of_nat_byte_eq del: of_nat_add of_nat_numeral)
    then have "code c = code d" by (metis div_mult_mod_eq)
    with * show ?thesis by simp
  qed
  then show ?thesis by simp
qed

lemma utf8_char_nonempty [simp]: "utf8_char c \<noteq> []"
  by (simp add: utf8_char_def)

lemma utf8_inject [simp]: "utf8 s = utf8 t \<longleftrightarrow> s = t"
proof
  show "utf8 s = utf8 t \<Longrightarrow> s = t"
  proof (induction s arbitrary: t)
    case Nil
    then show ?case by (cases t) (auto simp: utf8_Cons)
  next
    case (Cons c s)
    then show ?case
      by (cases t) (auto simp: utf8_Cons dest!: utf8_char_prefix)
  qed
qed simp

section \<open>Decimal text\<close>

fun show_nat :: "nat \<Rightarrow> string" where
  "show_nat n =
     (if n < 10 then [char_of (48 + n)]
      else show_nat (n div 10) @ [char_of (48 + n mod 10)])"

declare show_nat.simps [simp del]

definition show_int :: "int \<Rightarrow> string" where
  "show_int i = (if i < 0 then CHR ''-'' # show_nat (nat (- i)) else show_nat (nat i))"

definition is_digit :: "char \<Rightarrow> bool" where
  "is_digit c \<longleftrightarrow> 48 \<le> code c \<and> code c \<le> 57"

definition nat_of_digits :: "string \<Rightarrow> nat" where
  "nat_of_digits s = foldl (\<lambda>n c. 10 * n + (code c - 48)) 0 s"

lemma show_nat_nonempty [simp]: "show_nat n \<noteq> []"
  by (subst show_nat.simps) simp

lemma show_nat_digits: "c \<in> set (show_nat n) \<Longrightarrow> is_digit c"
proof (induction n rule: show_nat.induct)
  case (1 n)
  show ?case
  proof (cases "n < 10")
    case True
    with "1.prems" show ?thesis by (subst (asm) show_nat.simps) (auto simp: is_digit_def)
  next
    case False
    have "n mod 10 < 10" by simp
    with "1.prems" False "1.IH" show ?thesis
      by (subst (asm) show_nat.simps) (auto simp: is_digit_def)
  qed
qed

lemma nat_of_show_nat [simp]: "nat_of_digits (show_nat n) = n"
proof (induction n rule: show_nat.induct)
  case (1 n)
  show ?case
  proof (cases "n < 10")
    case True
    then show ?thesis by (subst show_nat.simps) (simp add: nat_of_digits_def)
  next
    case False
    have "48 + n mod 10 < (256::nat)" using mod_less_divisor [of 10 n] by linarith
    with False "1.IH" show ?thesis
      by (subst show_nat.simps) (simp add: nat_of_digits_def)
  qed
qed

lemma show_nat_inject [simp]: "show_nat m = show_nat n \<longleftrightarrow> m = n"
  by (metis nat_of_show_nat)

lemma minus_not_digit: "\<not> is_digit CHR ''-''"
  by (simp add: is_digit_def)

lemma show_int_inject [simp]: "show_int i = show_int j \<longleftrightarrow> i = j"
proof
  assume eq: "show_int i = show_int j"
  have no: "show_nat n \<noteq> CHR ''-'' # s" for n s
    using show_nat_digits [of "CHR ''-''" n] minus_not_digit by auto
  show "i = j"
  proof (cases "i < 0"; cases "j < 0")
    assume "i < 0" "j < 0"
    with eq show ?thesis by (simp add: show_int_def)
  next
    assume "\<not> i < 0" "\<not> j < 0"
    with eq show ?thesis by (simp add: show_int_def)
  qed (use eq no no [symmetric] in \<open>auto simp: show_int_def\<close>)
qed simp

end
