(* ===== verification/Ets_Sha256.thy ===== *)
theory Ets_Sha256
  imports Ets_Prelude
begin

text \<open>
  SHA-256 (FIPS 180-4), the digest of \<^verbatim>\<open>hashlib.sha256\<close>, on byte lists and 32-bit words.
  The components use two facts of it only: a digest has 32 bytes (\<open>length_sha256\<close>), and
  equal digests of different messages are a collision that a theorem names explicitly
  (\<open>sha256_collision\<close>). No collision resistance is assumed anywhere.
\<close>

unbundle bit_operations_syntax

type_synonym word32 = "32 word"

text \<open>The logical functions of section 4.1.2 of the standard.\<close>

definition rotr32 :: "nat \<Rightarrow> word32 \<Rightarrow> word32" where
  "rotr32 n x = drop_bit n x OR push_bit (32 - n) x"
definition sha_ch :: "word32 \<Rightarrow> word32 \<Rightarrow> word32 \<Rightarrow> word32" where
  "sha_ch x y z = (x AND y) XOR (NOT x AND z)"
definition sha_maj :: "word32 \<Rightarrow> word32 \<Rightarrow> word32 \<Rightarrow> word32" where
  "sha_maj x y z = (x AND y) XOR (x AND z) XOR (y AND z)"
definition big_sigma0 :: "word32 \<Rightarrow> word32" where "big_sigma0 x = rotr32 2 x XOR rotr32 13 x XOR rotr32 22 x"
definition big_sigma1 :: "word32 \<Rightarrow> word32" where "big_sigma1 x = rotr32 6 x XOR rotr32 11 x XOR rotr32 25 x"
definition small_sigma0 :: "word32 \<Rightarrow> word32" where "small_sigma0 x = rotr32 7 x XOR rotr32 18 x XOR drop_bit 3 x"
definition small_sigma1 :: "word32 \<Rightarrow> word32" where "small_sigma1 x = rotr32 17 x XOR rotr32 19 x XOR drop_bit 10 x"

text \<open>
  The constants, computed as the standard derives them: the first thirty-two bits of the fractional
  parts of the cube roots of the first sixty-four primes (round constants) and of the square roots
  of the first eight (initial hash value). \<open>int_root e n\<close> is the integer part of the \<open>e\<close>-th root,
  bit by bit; scaling by \<open>2 ^ (32 * e)\<close> keeps thirty-two binary places, and the conversion to a
  word drops the integer part.
\<close>

definition int_root :: "nat \<Rightarrow> int \<Rightarrow> int" where
  "int_root e n = foldl (\<lambda>r i. if (r + 2 ^ i) ^ e \<le> n then r + 2 ^ i else r) 0 (rev [0..<37])"

definition frac_bits :: "nat \<Rightarrow> int \<Rightarrow> word32" where
  "frac_bits e p = of_int (int_root e (p * 2 ^ (32 * e)))"

definition small_primes :: "int list" where
  "small_primes = filter (\<lambda>p. list_all (\<lambda>d. p = d \<or> p mod d \<noteq> 0) [2, 3, 5, 7, 11, 13, 17]) [2..311]"

definition sha_k :: "word32 list" where
  "sha_k = map (frac_bits 3) small_primes"

type_synonym sha_state = "word32 \<times> word32 \<times> word32 \<times> word32 \<times> word32 \<times> word32 \<times> word32 \<times> word32"

definition sha_h0 :: sha_state where
  "sha_h0 = (frac_bits 2 2, frac_bits 2 3, frac_bits 2 5, frac_bits 2 7,
             frac_bits 2 11, frac_bits 2 13, frac_bits 2 17, frac_bits 2 19)"

text \<open>Padding to whole 64-byte blocks: a one bit, zeroes, the bit length as a 64-bit number.\<close>

definition len_bytes :: "64 word \<Rightarrow> byte list" where
  "len_bytes x = map (\<lambda>s. ucast (drop_bit s x)) [56, 48, 40, 32, 24, 16, 8, 0]"

definition sha_pad :: "byte list \<Rightarrow> byte list" where
  "sha_pad m = m @ [0x80] @ replicate ((119 - length m mod 64) mod 64) 0 @ len_bytes (of_int (8 * int (length m)))"

fun be_words :: "byte list \<Rightarrow> word32 list" where
  "be_words (a # b # c # d # xs) =
     (push_bit 24 (ucast a) OR push_bit 16 (ucast b) OR push_bit 8 (ucast c) OR ucast d) # be_words xs"
| "be_words _ = []"

text \<open>
  The message schedule: the sixteen words of the block, extended to sixty-four. The list is
  kept newest first, so \<open>ws ! 1\<close> is the word two positions back, \<open>ws ! 15\<close> the one sixteen back.
\<close>

fun sched_ext :: "nat \<Rightarrow> word32 list \<Rightarrow> word32 list" where
  "sched_ext 0 ws = ws"
| "sched_ext (Suc n) ws =
     sched_ext n ((small_sigma1 (ws ! 1) + ws ! 6 + small_sigma0 (ws ! 14) + ws ! 15) # ws)"

definition sha_schedule :: "byte list \<Rightarrow> word32 list" where
  "sha_schedule blk = rev (sched_ext 48 (rev (be_words blk)))"

fun sha_round :: "sha_state \<Rightarrow> word32 \<times> word32 \<Rightarrow> sha_state" where
  "sha_round (a, b, c, d, e, f, g, h) (k, w) =
     (let t1 = h + big_sigma1 e + sha_ch e f g + k + w;
          t2 = big_sigma0 a + sha_maj a b c
      in (t1 + t2, a, b, c, d + t1, e, f, g))"

fun sha_add :: "sha_state \<Rightarrow> sha_state \<Rightarrow> sha_state" where
  "sha_add (a, b, c, d, e, f, g, h) (a', b', c', d', e', f', g', h') =
     (a + a', b + b', c + c', d + d', e + e', f + f', g + g', h + h')"

definition sha_compress :: "sha_state \<Rightarrow> byte list \<Rightarrow> sha_state" where
  "sha_compress st blk = sha_add st (foldl sha_round st (zip sha_k (sha_schedule blk)))"

function sha_blocks :: "sha_state \<Rightarrow> byte list \<Rightarrow> sha_state" where
  "sha_blocks st xs = (if length xs < 64 then st else sha_blocks (sha_compress st (take 64 xs)) (drop 64 xs))"
  by pat_completeness auto
termination by (relation "measure (\<lambda>(st, xs). length xs)") auto

definition word_bytes :: "word32 \<Rightarrow> byte list" where
  "word_bytes w = [ucast (drop_bit 24 w), ucast (drop_bit 16 w), ucast (drop_bit 8 w), ucast w]"

fun state_bytes :: "sha_state \<Rightarrow> byte list" where
  "state_bytes (a, b, c, d, e, f, g, h) = concat (map word_bytes [a, b, c, d, e, f, g, h])"

definition sha256 :: "byte list \<Rightarrow> byte list" where
  "sha256 m = state_bytes (sha_blocks sha_h0 (sha_pad m))"

definition sha256_hex :: "byte list \<Rightarrow> string" where
  "sha256_hex m = hexlify (sha256 m)"

declare sha_blocks.simps [simp del]

lemma length_state_bytes [simp]: "length (state_bytes st) = 32"
  by (cases st rule: state_bytes.cases) (simp add: word_bytes_def)

lemma length_sha256 [simp]: "length (sha256 m) = 32"
  by (simp add: sha256_def)

lemma length_sha256_hex [simp]: "length (sha256_hex m) = 64"
  by (simp add: sha256_hex_def)

lemma fromhex_sha256_hex [simp]: "fromhex (sha256_hex m) = Inr (sha256 m)"
  by (simp add: sha256_hex_def)

lemma fromhex_opt_sha256_hex [simp]: "fromhex_opt (sha256_hex m) = Some (sha256 m)"
  by (simp add: sha256_hex_def)

text \<open>Two different messages with one digest.\<close>

definition sha256_collision :: "byte list \<times> byte list \<Rightarrow> bool" where
  "sha256_collision p \<longleftrightarrow> fst p \<noteq> snd p \<and> sha256 (fst p) = sha256 (snd p)"

lemma sha256_hex_eq: "sha256_hex a = sha256_hex b \<longleftrightarrow> a = b \<or> sha256_collision (a, b)"
  by (auto simp: sha256_hex_def sha256_collision_def)

end
