(* ===== verification/Ets_Json.thy ===== *)
theory Ets_Json
  imports Ets_Sha256
begin

text \<open>
  Canonical JSON (\<^verbatim>\<open>ets/core/canonical_json.py\<close>), the bytes every ETS digest is taken of.

  A Python object is a \<open>pyval\<close>; the sources' \<^verbatim>\<open>_normalize_json_value\<close> rejects what is not
  JSON-native and yields a \<open>json\<close>. A finite float is represented by its \<^verbatim>\<open>repr\<close> text, which is
  what \<^verbatim>\<open>json.dumps\<close> prints and which determines the float; a dictionary is its item list in
  insertion order. \<open>dumps\<close> is \<^verbatim>\<open>json.dumps(..., ensure_ascii=False, sort_keys=True,
  separators=(",", ":"))\<close>.

  The main facts: normalisation is the identity on JSON-native data (\<open>normalize_py_of_json\<close>), so
  payloads the code builds itself are hashed by the total function \<open>canon_sha256\<close>; and printing is
  injective up to the order of dictionary keys (\<open>dumps_eq_iff\<close>).
\<close>

section \<open>Values\<close>

datatype pyfloat = Finite string | PosInf | NegInf | NaN

datatype pyval =
    PyNone
  | PyBool bool
  | PyInt int
  | PyFloat pyfloat
  | PyStr string
  | PyList "pyval list"
  | PyDict "(pyval \<times> pyval) list"
  | PyObj string

datatype json =
    JNull
  | JBool bool
  | JInt int
  | JFloat string
  | JStr string
  | JList "json list"
  | JObj "(string \<times> json) list"

definition json_key :: "pyval \<Rightarrow> string result" where
  "json_key k =
     (case k of PyStr s \<Rightarrow> Inr s
      | _ \<Rightarrow> Inl (CanonicalJSONError ''canonical JSON object keys must be strings''))"

fun normalize_json_value :: "pyval \<Rightarrow> json result" where
  "normalize_json_value PyNone = Inr JNull"
| "normalize_json_value (PyStr s) = Inr (JStr s)"
| "normalize_json_value (PyBool b) = Inr (JBool b)"
| "normalize_json_value (PyInt i) = Inr (JInt i)"
| "normalize_json_value (PyFloat f) =
     (case f of Finite r \<Rightarrow> Inr (JFloat r)
      | _ \<Rightarrow> Inl (CanonicalJSONError ''non-finite numbers are not valid canonical JSON''))"
| "normalize_json_value (PyList xs) =
     rbind (rmap normalize_json_value xs) (\<lambda>js. Inr (JList js))"
| "normalize_json_value (PyDict kvs) =
     rbind (rmap (\<lambda>(k, v). rbind (json_key k) (\<lambda>s.
              rbind (normalize_json_value v) (\<lambda>j. Inr (s, j)))) kvs)
       (\<lambda>items. Inr (JObj items))"
| "normalize_json_value (PyObj ty) = Inl (CanonicalJSONError (ty @ '' is not JSON-native''))"

section \<open>Printing\<close>

definition esc_char :: "char \<Rightarrow> string" where
  "esc_char c =
     (if c = CHR 0x22 then [CHR 0x5C, CHR 0x22]
      else if c = CHR 0x5C then [CHR 0x5C, CHR 0x5C]
      else if c = CHR 0x0A then [CHR 0x5C, CHR ''n'']
      else if c = CHR 0x0D then [CHR 0x5C, CHR ''r'']
      else if c = CHR 0x09 then [CHR 0x5C, CHR ''t'']
      else if c = CHR 0x0C then [CHR 0x5C, CHR ''f'']
      else if c = CHR 0x08 then [CHR 0x5C, CHR ''b'']
      else if code c < 32
        then [CHR 0x5C, CHR ''u'', CHR ''0'', CHR ''0'', hex_digit (code c div 16), hex_digit (code c mod 16)]
      else [c])"

definition json_str :: "string \<Rightarrow> string" where
  "json_str s = CHR 0x22 # concat (map esc_char s) @ [CHR 0x22]"

fun join_comma :: "string list \<Rightarrow> string" where
  "join_comma [] = []"
| "join_comma [s] = s"
| "join_comma (s # t # ss) = s @ CHR '','' # join_comma (t # ss)"

definition json_item :: "string \<times> string \<Rightarrow> string" where
  "json_item kv = json_str (fst kv) @ CHR '':'' # snd kv"

fun dumps :: "json \<Rightarrow> string" where
  "dumps JNull = ''null''"
| "dumps (JBool b) = (if b then ''true'' else ''false'')"
| "dumps (JInt i) = show_int i"
| "dumps (JFloat r) = r"
| "dumps (JStr s) = json_str s"
| "dumps (JList xs) = CHR ''['' # join_comma (map dumps xs) @ '']''"
| "dumps (JObj kvs) =
     CHR ''{'' # join_comma (map json_item (sort_key fst (map (\<lambda>(k, v). (k, dumps v)) kvs))) @ ''}''"

definition canon :: "json \<Rightarrow> byte list" where
  "canon j = utf8 (dumps j)"

definition canonicalize :: "pyval \<Rightarrow> byte list result" where
  "canonicalize obj = rbind (normalize_json_value obj) (\<lambda>j. Inr (canon j))"

definition canonical_sha256 :: "pyval \<Rightarrow> string result" where
  "canonical_sha256 obj = rbind (canonicalize obj) (\<lambda>b. Inr (sha256_hex b))"

text \<open>\<^verbatim>\<open>canonical_sha256\<close> on JSON-native data, where it cannot raise (\<open>canonical_sha256_native\<close>).\<close>

definition canon_sha256 :: "json \<Rightarrow> string" where
  "canon_sha256 j = sha256_hex (canon j)"

fun py_of_json :: "json \<Rightarrow> pyval" where
  "py_of_json JNull = PyNone"
| "py_of_json (JBool b) = PyBool b"
| "py_of_json (JInt i) = PyInt i"
| "py_of_json (JFloat r) = PyFloat (Finite r)"
| "py_of_json (JStr s) = PyStr s"
| "py_of_json (JList xs) = PyList (map py_of_json xs)"
| "py_of_json (JObj kvs) = PyDict (map (\<lambda>(k, v). (PyStr k, py_of_json v)) kvs)"

text \<open>Key order is not part of a dictionary: \<open>jnorm\<close> sorts the keys at every level.\<close>

fun jnorm :: "json \<Rightarrow> json" where
  "jnorm (JList xs) = JList (map jnorm xs)"
| "jnorm (JObj kvs) = JObj (sort_key fst (map (\<lambda>(k, v). (k, jnorm v)) kvs))"
| "jnorm j = j"

text \<open>
  The texts \<^verbatim>\<open>repr\<close> gives finite floats are digits, signs, a point and an exponent, start with a
  digit or a minus sign, and have a point or an exponent, so that no float prints like an integer.
\<close>

definition num_char :: "char \<Rightarrow> bool" where
  "num_char c \<longleftrightarrow> is_digit c \<or> c \<in> set ''+-.e''"

definition float_text :: "string \<Rightarrow> bool" where
  "float_text r \<longleftrightarrow> r \<noteq> [] \<and> (is_digit (hd r) \<or> hd r = CHR ''-'') \<and> list_all num_char r \<and>
     (CHR ''.'' \<in> set r \<or> CHR ''e'' \<in> set r)"

fun json_ok :: "json \<Rightarrow> bool" where
  "json_ok (JFloat r) = float_text r"
| "json_ok (JList xs) = list_all json_ok xs"
| "json_ok (JObj kvs) = (distinct (map fst kvs) \<and> list_all (\<lambda>(k, v). json_ok v) kvs)"
| "json_ok j = True"

section \<open>Normalisation\<close>

lemma json_induct [case_names JNull JBool JInt JFloat JStr JList JObj]:
  assumes "P JNull" and "\<And>b. P (JBool b)" and "\<And>i. P (JInt i)" and "\<And>r. P (JFloat r)"
    and "\<And>s. P (JStr s)" and "\<And>xs. (\<And>x. x \<in> set xs \<Longrightarrow> P x) \<Longrightarrow> P (JList xs)"
    and "\<And>kvs. (\<And>k v. (k, v) \<in> set kvs \<Longrightarrow> P v) \<Longrightarrow> P (JObj kvs)"
  shows "P j"
  by (induction j rule: py_of_json.induct) (use assms in auto)

lemma normalize_py_of_json: "normalize_json_value (py_of_json j) = Inr j"
  by (induction j rule: json_induct) (auto simp: json_key_def intro!: rmap_map_id)

lemma canonicalize_native: "canonicalize (py_of_json j) = Inr (canon j)"
  by (simp add: canonicalize_def normalize_py_of_json)

lemma canonical_sha256_native: "canonical_sha256 (py_of_json j) = Inr (canon_sha256 j)"
  by (simp add: canonical_sha256_def canonicalize_native canon_sha256_def)

lemma length_canon_sha256 [simp]: "length (canon_sha256 j) = 64"
  by (simp add: canon_sha256_def)

lemma fromhex_canon_sha256 [simp]: "fromhex (canon_sha256 j) = Inr (sha256 (canon j))"
  by (simp add: canon_sha256_def)

section \<open>Printing is injective\<close>

text \<open>Reading one character back from its escape.\<close>

definition unesc :: "string \<Rightarrow> (char \<times> string) option" where
  "unesc s = (case s of
     [] \<Rightarrow> None
   | c # r \<Rightarrow>
       if c \<noteq> CHR 0x5C then Some (c, r)
       else (case r of
         [] \<Rightarrow> None
       | d # t \<Rightarrow>
           if d = CHR ''n'' then Some (CHR 0x0A, t)
           else if d = CHR ''r'' then Some (CHR 0x0D, t)
           else if d = CHR ''t'' then Some (CHR 0x09, t)
           else if d = CHR ''f'' then Some (CHR 0x0C, t)
           else if d = CHR ''b'' then Some (CHR 0x08, t)
           else if d = CHR ''u'' then
             Some (char_of (16 * the (hex_val (t ! 2)) + the (hex_val (t ! 3))), drop 4 t)
           else Some (d, t)))"

lemma unesc_esc_char: "unesc (esc_char c @ r) = Some (c, r)"
proof (cases "c \<in> {CHR 0x22, CHR 0x5C, CHR 0x0A, CHR 0x0D, CHR 0x09, CHR 0x0C, CHR 0x08}")
  case True
  then show ?thesis
    by (elim insertE emptyE) (simp_all add: esc_char_def unesc_def)
next
  case False
  then have esc: "esc_char c = (if code c < 32 then [CHR 0x5C, CHR ''u'', CHR ''0'', CHR ''0'',
      hex_digit (code c div 16), hex_digit (code c mod 16)] else [c])"
    by (simp add: esc_char_def)
  show ?thesis
  proof (cases "code c < 32")
    case True
    then have "code c div 16 < 16" "code c mod 16 < 16"
      by (auto simp: less_mult_imp_div_less)
    moreover have "16 * (code c div 16) + code c mod 16 = code c"
      by (simp add: mult.commute)
    ultimately show ?thesis
      using True by (simp add: esc unesc_def)
  next
    case lo: False
    from False have "c \<noteq> CHR 0x5C" by blast
    with lo show ?thesis by (simp only: esc if_False) (simp add: unesc_def)
  qed
qed

lemma esc_char_prefix: "esc_char c @ r = esc_char d @ r' \<Longrightarrow> c = d \<and> r = r'"
  by (metis unesc_esc_char option.inject prod.inject)

lemma esc_char_not_quote: "esc_char c @ r \<noteq> CHR 0x22 # r'"
  by (simp add: esc_char_def)

lemma json_str_prefix: "json_str s @ r = json_str t @ r' \<Longrightarrow> s = t \<and> r = r'"
proof -
  have "concat (map esc_char s) @ CHR 0x22 # r = concat (map esc_char t) @ CHR 0x22 # r'
    \<Longrightarrow> s = t \<and> r = r'"
  proof (induction s arbitrary: t)
    case Nil
    then show ?case
      using esc_char_not_quote [symmetric] by (cases t) auto
  next
    case (Cons c s)
    then show ?case
      using esc_char_not_quote by (cases t) (auto dest!: esc_char_prefix)
  qed
  then show "json_str s @ r = json_str t @ r' \<Longrightarrow> s = t \<and> r = r'"
    by (simp add: json_str_def)
qed

text \<open>
  What may follow a printed value inside a document: nothing, or a separator. A number ends at
  the first such character.
\<close>

definition delim :: "string \<Rightarrow> bool" where
  "delim r \<longleftrightarrow> r = [] \<or> hd r \<in> set '',]}''"

lemma delim_simps [simp]: "delim []" "delim (CHR '','' # r)" "delim (CHR '']'' # r)" "delim (CHR ''}'' # r)"
  by (simp_all add: delim_def)

lemma num_prefix:
  assumes "list_all num_char s" "list_all num_char t" "delim r" "delim r'" "s @ r = t @ r'"
  shows "s = t \<and> r = r'"
proof -
  have "takeWhile num_char (s @ r) = s" if "list_all num_char s" "delim r" for s r
    using that by (cases r) (auto simp: takeWhile_append delim_def num_char_def is_digit_def list_all_iff)
  with assms show ?thesis by (metis append_same_eq same_append_eq)
qed

text \<open>The printer without sorting, which \<open>dumps\<close> is on normalised values.\<close>

fun dump_raw :: "json \<Rightarrow> string" where
  "dump_raw (JList xs) = CHR ''['' # join_comma (map dump_raw xs) @ '']''"
| "dump_raw (JObj kvs) = CHR ''{'' # join_comma (map (\<lambda>(k, v). json_item (k, dump_raw v)) kvs) @ ''}''"
| "dump_raw j = dumps j"

lemma insort_key_map_snd:
  "insort_key fst (k, f v) (map (\<lambda>(k, v). (k, f v)) kvs) = map (\<lambda>(k, v). (k, f v)) (insort_key fst (k, v) kvs)"
  by (induction kvs) auto

lemma sort_key_map_snd:
  "sort_key fst (map (\<lambda>(k, v). (k, f v)) kvs) = map (\<lambda>(k, v). (k, f v)) (sort_key fst kvs)"
  by (induction kvs) (auto simp: insort_key_map_snd)

lemma dumps_dump_raw: "dumps j = dump_raw (jnorm j)"
proof (induction j rule: json_induct)
  case (JList xs)
  then show ?case by (simp cong: map_cong)
next
  case (JObj kvs)
  then have "map (\<lambda>(k, v). (k, dumps v)) kvs = map (\<lambda>(k, v). (k, dump_raw (jnorm v))) kvs"
    by auto
  also have "sort_key fst \<dots> = map (\<lambda>(k, v). (k, dump_raw v)) (sort_key fst (map (\<lambda>(k, v). (k, jnorm v)) kvs))"
    by (auto simp: sort_key_map_snd)
  finally show ?case
    by (simp add: comp_def case_prod_unfold)
qed simp_all

text \<open>The first character of a printed value tells its kind, numbers sharing theirs.\<close>

lemma show_int_num: "list_all num_char (show_int i)"
  using show_nat_digits by (auto simp: show_int_def list_all_iff num_char_def)

lemma show_int_hd: "show_int i \<noteq> [] \<and> (is_digit (hd (show_int i)) \<or> hd (show_int i) = CHR ''-'')"
  using show_nat_digits [of "hd (show_nat (nat i))" "nat i"] by (simp add: show_int_def)

lemma show_int_no_float: "float_text r \<Longrightarrow> show_int i \<noteq> r"
proof
  assume r: "float_text r" and eq: "show_int i = r"
  have "is_digit c \<or> c = CHR ''-''" if "c \<in> set (show_int i)" for c
    using that show_nat_digits by (auto simp: show_int_def split: if_splits)
  then have "CHR ''.'' \<notin> set r" "CHR ''e'' \<notin> set r"
    unfolding eq [symmetric] by (fastforce simp: is_digit_def)+
  with r show False by (simp add: float_text_def)
qed

fun jkind :: "json \<Rightarrow> nat" where
  "jkind JNull = 0"
| "jkind (JBool b) = (if b then 1 else 2)"
| "jkind (JInt i) = 3"
| "jkind (JFloat r) = 3"
| "jkind (JStr s) = 4"
| "jkind (JList xs) = 5"
| "jkind (JObj kvs) = 6"

definition kind_of_char :: "char \<Rightarrow> nat" where
  "kind_of_char c =
     (if c = CHR ''n'' then 0 else if c = CHR ''t'' then 1 else if c = CHR ''f'' then 2
      else if is_digit c \<or> c = CHR ''-'' then 3 else if c = CHR 0x22 then 4
      else if c = CHR ''['' then 5 else if c = CHR ''{'' then 6 else 7)"

lemma kind_of_num: "is_digit c \<or> c = CHR ''-'' \<Longrightarrow> kind_of_char c = 3"
  by (auto simp: kind_of_char_def is_digit_def)

lemma dump_raw_kind:
  assumes "json_ok j"
  shows "dump_raw j \<noteq> [] \<and> kind_of_char (hd (dump_raw j)) = jkind j"
  using assms kind_of_num [OF conjunct2 [OF show_int_hd]] show_int_hd
  by (cases j) (auto simp: json_str_def float_text_def kind_of_num kind_of_char_def is_digit_def)

lemma jkind_less: "jkind j < 7"
  by (cases j) auto

lemma dump_raw_hd_not_delim:
  assumes "json_ok j"
  shows "hd (dump_raw j) \<notin> set '',]}:''"
proof
  assume "hd (dump_raw j) \<in> set '',]}:''"
  then have "kind_of_char (hd (dump_raw j)) = 7"
    by (auto simp: kind_of_char_def is_digit_def)
  with dump_raw_kind [OF assms] jkind_less [of j] show False by simp
qed

lemma dump_raw_same_kind:
  assumes "json_ok j" "json_ok k" "dump_raw j @ r = dump_raw k @ r'"
  shows "jkind j = jkind k"
  using dump_raw_kind [OF assms(1)] dump_raw_kind [OF assms(2)] assms(3) by (metis hd_append2)

text \<open>
  Comma-separated sequences: if each element's text determines the element wherever a separator
  follows, then a bracketed sequence's text determines the sequence.
\<close>

lemma join_comma_prefix:
  assumes "\<And>x y r r'. x \<in> set xs \<Longrightarrow> y \<in> set ys \<Longrightarrow> delim r \<Longrightarrow> delim r' \<Longrightarrow>
      p x @ r = p y @ r' \<Longrightarrow> x = y \<and> r = r'"
    and "\<And>x. x \<in> set xs \<union> set ys \<Longrightarrow> p x \<noteq> [] \<and> hd (p x) \<noteq> c"
    and "c \<in> set '']}''"
    and "join_comma (map p xs) @ c # r = join_comma (map p ys) @ c # r'"
  shows "xs = ys \<and> r = r'"
  using assms
proof (induction xs arbitrary: ys)
  case Nil
  show ?case
  proof (cases ys)
    case Nil
    with Nil.prems show ?thesis by simp
  next
    case (Cons y zs)
    with Nil.prems(2) [of y] obtain d w where "p y = d # w" "d \<noteq> c"
      by (cases "p y") auto
    with Nil.prems(4) Cons show ?thesis by (cases zs) auto
  qed
next
  case (Cons x xs)
  from Cons.prems(2) [of x] obtain d w where px: "p x = d # w" "d \<noteq> c"
    by (cases "p x") auto
  have split: "join_comma (map p (z # zs)) @ c # s =
      p z @ (if zs = [] then c # s else CHR '','' # join_comma (map p zs) @ c # s)" for z zs s
    by (cases zs) auto
  show ?case
  proof (cases ys)
    case Nil
    with Cons.prems(4) px show ?thesis by (cases xs) auto
  next
    case (Cons y zs)
    let ?rest = "\<lambda>zs s. if zs = [] then c # s else CHR '','' # join_comma (map p zs) @ c # s"
    have "delim (?rest xs r)" "delim (?rest zs r')"
      using Cons.prems(3) by (auto simp: delim_def)
    then have "x = y \<and> ?rest xs r = ?rest zs r'"
      using Cons.prems(1) [of x y "?rest xs r" "?rest zs r'"] Cons.prems(4)
      unfolding Cons split by simp
    moreover have "c \<noteq> CHR '',''" using Cons.prems(3) by auto
    ultimately have "x = y" "xs = [] \<longleftrightarrow> zs = []" "xs = [] \<Longrightarrow> r = r'"
      "join_comma (map p xs) @ c # r = join_comma (map p zs) @ c # r'"
      by (auto split: if_splits)
    moreover have "xs = zs \<and> r = r'"
      by (rule Cons.IH) (use Cons.prems \<open>ys = y # zs\<close> calculation in auto)
    ultimately show ?thesis using Cons by simp
  qed
qed

lemma num_value_prefix:
  assumes ok: "json_ok j" "json_ok k" and kind: "jkind j = 3"
    and d: "delim r" "delim r'" and eq: "dump_raw j @ r = dump_raw k @ r'"
  shows "j = k \<and> r = r'"
proof -
  have num: "(\<exists>i. j = JInt i) \<or> (\<exists>s. j = JFloat s)" if "jkind j = 3" for j
    using that by (cases j) (auto split: if_splits)
  have k: "jkind k = 3" using dump_raw_same_kind [OF ok eq] kind by simp
  have n: "list_all num_char (dump_raw j)" "list_all num_char (dump_raw k)"
    using num [OF kind] num [OF k] ok show_int_num by (auto simp: float_text_def)
  have "dump_raw j = dump_raw k \<and> r = r'"
    by (rule num_prefix [OF n d eq])
  with num [OF kind] num [OF k] ok show ?thesis
    using show_int_no_float show_int_no_float [symmetric] by auto
qed

lemma json_item_prefix:
  assumes "json_item (k, dump_raw v) @ r = json_item (k', dump_raw v') @ r'"
  shows "k = k' \<and> dump_raw v @ r = dump_raw v' @ r'"
  using assms json_str_prefix [of k "CHR '':'' # dump_raw v @ r" k' "CHR '':'' # dump_raw v' @ r'"]
  by (simp add: json_item_def)

lemma dump_raw_prefix:
  assumes "json_ok j" "json_ok k" "delim r" "delim r'" "dump_raw j @ r = dump_raw k @ r'"
  shows "j = k \<and> r = r'"
  using assms
proof (induction j arbitrary: k r r' rule: json_induct)
  case (JInt i)
  then show ?case by (intro num_value_prefix) auto
next
  case (JFloat s)
  then show ?case by (intro num_value_prefix) auto
next
  case JNull
  from dump_raw_same_kind [OF JNull(1,2,5)] JNull show ?case
    by (cases k) (auto split: if_splits)
next
  case (JBool b)
  from dump_raw_same_kind [OF JBool(1,2,5)] JBool show ?case
    by (cases k) (auto split: if_splits)
next
  case (JStr s)
  from dump_raw_same_kind [OF JStr(1,2,5)] JStr show ?case
    by (cases k) (auto split: if_splits dest: json_str_prefix)
next
  case (JList xs)
  from dump_raw_same_kind [OF JList.prems(1,2,5)] obtain ys where k: "k = JList ys"
    by (cases k) (auto split: if_splits)
  have ok: "json_ok z" if "z \<in> set xs \<union> set ys" for z
    using that JList.prems(1,2) k by (auto simp: list_all_iff)
  have "xs = ys \<and> r = r'"
  proof (rule join_comma_prefix [where p = dump_raw and c = "CHR '']''"])
    show "join_comma (map dump_raw xs) @ CHR '']'' # r = join_comma (map dump_raw ys) @ CHR '']'' # r'"
      using JList.prems(5) k by simp
    show "x = y \<and> t = t'" if "x \<in> set xs" "y \<in> set ys" "delim t" "delim t'"
      "dump_raw x @ t = dump_raw y @ t'" for x y t t'
      using that by (intro JList.IH ok) auto
    show "dump_raw z \<noteq> [] \<and> hd (dump_raw z) \<noteq> CHR '']''" if "z \<in> set xs \<union> set ys" for z
      using dump_raw_kind [OF ok [OF that]] dump_raw_hd_not_delim [OF ok [OF that]] by auto
  qed simp
  with k show ?case by simp
next
  case (JObj kvs)
  from dump_raw_same_kind [OF JObj.prems(1,2,5)] obtain ls where k: "k = JObj ls"
    by (cases k) (auto split: if_splits)
  let ?p = "\<lambda>(k, v). json_item (k, dump_raw v)"
  have ok: "json_ok v" if "(s, v) \<in> set kvs \<union> set ls" for s v
    using that JObj.prems(1,2) k by (auto simp: list_all_iff)
  have "kvs = ls \<and> r = r'"
  proof (rule join_comma_prefix [where p = ?p and c = "CHR ''}''"])
    show "join_comma (map ?p kvs) @ CHR ''}'' # r = join_comma (map ?p ls) @ CHR ''}'' # r'"
      using JObj.prems(5) k by simp
    show "x = y \<and> t = t'" if "x \<in> set kvs" "y \<in> set ls" "delim t" "delim t'" "?p x @ t = ?p y @ t'" for x y t t'
    proof -
      obtain s v s' v' where xy: "x = (s, v)" "y = (s', v')"
        by (cases x; cases y)
      with that have "s = s'" "dump_raw v @ t = dump_raw v' @ t'"
        by (auto dest: json_item_prefix)
      moreover have "v = v' \<and> t = t'"
        by (rule JObj.IH) (use that xy ok calculation in auto)
      ultimately show ?thesis using xy by simp
    qed
  qed (auto simp: json_item_def json_str_def)
  with k show ?case by simp
qed

lemma dump_raw_inject: "json_ok j \<Longrightarrow> json_ok k \<Longrightarrow> dump_raw j = dump_raw k \<longleftrightarrow> j = k"
  using dump_raw_prefix [of j k "[]" "[]"] by auto

lemma jnorm_ok: "json_ok j \<Longrightarrow> json_ok (jnorm j)"
proof (induction j rule: json_induct)
  case (JList xs)
  then show ?case by (auto simp: list_all_iff)
next
  case (JObj kvs)
  have "mset (map fst (sort_key fst (map (\<lambda>(k, v). (k, jnorm v)) kvs))) = mset (map fst kvs)"
    by (simp add: image_mset.compositionality comp_def case_prod_unfold)
  then have "distinct (map fst (sort_key fst (map (\<lambda>(k, v). (k, jnorm v)) kvs)))"
    using JObj.prems by (metis json_ok.simps(3) mset_eq_imp_distinct_iff)
  with JObj show ?case by (fastforce simp: list_all_iff)
qed simp_all

lemma dumps_eq_iff: "json_ok j \<Longrightarrow> json_ok k \<Longrightarrow> dumps j = dumps k \<longleftrightarrow> jnorm j = jnorm k"
  by (simp add: dumps_dump_raw dump_raw_inject jnorm_ok)

lemma canon_eq_iff: "json_ok j \<Longrightarrow> json_ok k \<Longrightarrow> canon j = canon k \<longleftrightarrow> jnorm j = jnorm k"
  by (simp add: canon_def dumps_eq_iff)

lemma jnorm_perm:
  assumes "mset kvs = mset ls" "distinct (map fst kvs)"
  shows "jnorm (JObj kvs) = jnorm (JObj ls)"
proof -
  let ?f = "\<lambda>(k, v). (k, jnorm v)"
  have "inj_on fst (set (map ?f kvs))"
    using assms(2) by (auto simp: inj_on_def distinct_map) (metis fst_conv snd_conv)
  moreover have "mset (map ?f kvs) = mset (sort_key fst (map ?f ls))"
    using assms(1) by simp
  ultimately have "sort_key fst (map ?f kvs) = sort_key fst (map ?f ls)"
    by (intro sort_key_inj_key_eq) auto
  then show ?thesis by simp
qed

lemma canon_sha256_eq_iff:
  assumes "json_ok j" "json_ok k"
  shows "canon_sha256 j = canon_sha256 k \<longleftrightarrow> jnorm j = jnorm k \<or> sha256_collision (canon j, canon k)"
  using canon_eq_iff [OF assms] by (simp add: canon_sha256_def sha256_hex_eq)

text \<open>Objects the code builds with one fixed list of keys determine the values under them.\<close>

lemma jnorm_JObj_values:
  assumes "jnorm (JObj kvs) = jnorm (JObj ls)" "map fst kvs = map fst ls" "distinct (map fst kvs)"
  shows "map (jnorm \<circ> snd) kvs = map (jnorm \<circ> snd) ls"
proof -
  let ?f = "\<lambda>(k, v). (k, jnorm v)"
  from assms(1) have "sort_key fst (map ?f kvs) = sort_key fst (map ?f ls)"
    by simp
  then have "mset (map ?f kvs) = mset (map ?f ls)"
    using mset_sort [of fst "map ?f kvs"] mset_sort [of fst "map ?f ls"] by simp
  then have same: "set (map ?f kvs) = set (map ?f ls)"
    by (rule mset_eq_setD)
  have len: "length kvs = length ls"
    using assms(2) by (metis length_map)
  show ?thesis
  proof (rule nth_equalityI)
    fix i assume i: "i < length (map (jnorm \<circ> snd) kvs)"
    then have "?f (kvs ! i) \<in> set (map ?f ls)"
      unfolding same [symmetric] by simp
    then obtain j where j: "j < length ls" "?f (ls ! j) = ?f (kvs ! i)"
      by (auto simp: in_set_conv_nth)
    have "map fst kvs ! j = fst (ls ! j)"
      unfolding assms(2) using j by simp
    also have "\<dots> = map fst kvs ! i"
      using j i by (simp add: case_prod_unfold)
    finally have "j = i"
      using assms(3) i j(1) len by (simp add: nth_eq_iff_index_eq del: nth_map)
    with j i len show "map (jnorm \<circ> snd) kvs ! i = map (jnorm \<circ> snd) ls ! i"
      by (simp add: case_prod_unfold)
  qed (simp add: len)
qed

section \<open>Which objects are JSON-native\<close>

fun json_native :: "pyval \<Rightarrow> bool" where
  "json_native (PyFloat f) = (\<exists>r. f = Finite r)"
| "json_native (PyList xs) = list_all json_native xs"
| "json_native (PyDict kvs) = list_all (\<lambda>(k, v). (\<exists>s. k = PyStr s) \<and> json_native v) kvs"
| "json_native (PyObj ty) = False"
| "json_native v = True"

abbreviation normalize_item :: "pyval \<times> pyval \<Rightarrow> (string \<times> json) result" where
  "normalize_item \<equiv> \<lambda>(k, v). rbind (json_key k) (\<lambda>s. rbind (normalize_json_value v) (\<lambda>j. Inr (s, j)))"

lemma json_key_eq_Inr: "json_key k = Inr s \<longleftrightarrow> k = PyStr s"
  by (cases k) (auto simp: json_key_def)

lemma json_key_raises: "json_key k = Inl e \<Longrightarrow> \<exists>msg. e = CanonicalJSONError msg"
  by (cases k) (auto simp: json_key_def)

lemma normalize_item_native:
  "(\<exists>p. normalize_item kv = Inr p) \<longleftrightarrow>
   (\<exists>s. fst kv = PyStr s) \<and> (\<exists>j. normalize_json_value (snd kv) = Inr j)"
  by (cases kv) (auto simp: json_key_eq_Inr)

lemma normalize_native: "(\<exists>j. normalize_json_value v = Inr j) \<longleftrightarrow> json_native v"
proof (induction v rule: normalize_json_value.induct)
  case (5 f)
  then show ?case by (cases f) auto
next
  case (6 xs)
  have "(\<exists>j. normalize_json_value (PyList xs) = Inr j) \<longleftrightarrow> (\<exists>ys. rmap normalize_json_value xs = Inr ys)"
    by simp
  also have "\<dots> \<longleftrightarrow> (\<forall>x \<in> set xs. json_native x)"
    using "6" by (simp add: rmap_Inr_iff)
  finally show ?case by (simp add: list_all_iff)
next
  case (7 kvs)
  have "(\<exists>j. normalize_json_value (PyDict kvs) = Inr j) \<longleftrightarrow> (\<exists>ys. rmap normalize_item kvs = Inr ys)"
    by (simp only: normalize_json_value.simps rbind_eq_Inr) auto
  also have "\<dots> \<longleftrightarrow> (\<forall>kv \<in> set kvs. (\<exists>s. fst kv = PyStr s) \<and> (\<exists>j. normalize_json_value (snd kv) = Inr j))"
    by (simp only: rmap_Inr_iff normalize_item_native)
  also have "\<dots> \<longleftrightarrow> (\<forall>kv \<in> set kvs. (\<exists>s. fst kv = PyStr s) \<and> json_native (snd kv))"
    using "7" by (metis prod.collapse json_key_eq_Inr)
  finally show ?case by (simp add: list_all_iff case_prod_unfold)
qed simp_all

lemma normalize_raises: "normalize_json_value v = Inl e \<Longrightarrow> \<exists>msg. e = CanonicalJSONError msg"
proof (induction v arbitrary: e rule: normalize_json_value.induct)
  case (6 xs)
  then show ?case by (auto simp: rbind_eq_Inl dest!: rmap_eq_InlD)
next
  case (7 kvs)
  then have "rmap normalize_item kvs = Inl e"
    by (simp add: rbind_eq_Inl)
  then obtain k v where "(k, v) \<in> set kvs" "normalize_item (k, v) = Inl e"
    by (auto dest!: rmap_eq_InlD simp del: split_paired_Ex)
  then show ?case
    using "7.IH" by (auto simp: rbind_eq_Inl json_key_raises)
qed (auto split: pyfloat.splits)

lemma json_native_py_of_json: "json_native (py_of_json j)"
  using normalize_native [of "py_of_json j"] by (simp add: normalize_py_of_json)

section \<open>Properties\<close>

text \<open>
  \<^verbatim>\<open>canonicalize\<close> accepts exactly the JSON-native objects (no non-finite float, no non-string key,
  no foreign object at any depth), and every rejection is a \<^verbatim>\<open>CanonicalJSONError\<close>.
\<close>

theorem canonicalize_accepts_native:
  "case canonicalize v of
     Inr b \<Rightarrow> json_native v
   | Inl e \<Rightarrow> \<not> json_native v \<and> (\<exists>msg. e = CanonicalJSONError msg)"
  using normalize_native [of v] normalize_raises [of v]
  by (cases "normalize_json_value v") (auto simp: canonicalize_def)

text \<open>
  C8. The canonical digest commits to the value: two JSON-native values have the same
  \<^verbatim>\<open>canonical_sha256\<close> exactly when they are equal up to the order of dictionary keys, or their
  canonical bytes are a SHA-256 collision.
\<close>

theorem canonical_sha256_binding:
  assumes "json_ok j" "json_ok k"
  shows "canonical_sha256 (py_of_json j) = canonical_sha256 (py_of_json k) \<longleftrightarrow>
    jnorm j = jnorm k \<or> sha256_collision (canon j, canon k)"
  using canon_sha256_eq_iff [OF assms] by (simp add: canonical_sha256_native)

theorem canonical_sha256_binding_witness:
  "canonical_sha256 (PyDict [(PyStr ''b'', PyInt 1), (PyStr ''a'', PyList [PyNone, PyStr ''x'', PyFloat (Finite ''1.5'')])]) =
   canonical_sha256 (PyDict [(PyStr ''a'', PyList [PyNone, PyStr ''x'', PyFloat (Finite ''1.5'')]), (PyStr ''b'', PyInt 1)])"
proof -
  let ?l = "JList [JNull, JStr ''x'', JFloat ''1.5'']"
  have "json_ok (JObj [(''b'', JInt 1), (''a'', ?l)])" "json_ok (JObj [(''a'', ?l), (''b'', JInt 1)])"
    by (simp_all add: float_text_def num_char_def is_digit_def)
  moreover have "jnorm (JObj [(''b'', JInt 1), (''a'', ?l)]) = jnorm (JObj [(''a'', ?l), (''b'', JInt 1)])"
    by (rule jnorm_perm) auto
  ultimately show ?thesis
    using canonical_sha256_binding [of "JObj [(''b'', JInt 1), (''a'', ?l)]" "JObj [(''a'', ?l), (''b'', JInt 1)]"]
    by simp
qed

end
