(* ===== verification/Ets_Merkle.thy ===== *)
theory Ets_Merkle
  imports Ets_Json "HOL-Library.While_Combinator"
begin

text \<open>
  The Merkle tree of the log (\<^verbatim>\<open>ets/core/merkle.py\<close>): leaf hashes, the RFC 6962 tree hash, audit
  paths and the reconstruction of a root from one.

  Hashes are hexadecimal text, as in the code, so every operation may raise on malformed text.
  The reference definition the theorems compare with is \<open>mth\<close>, the RFC 6962 tree hash on digests
  as byte lists. \<open>node_inputs\<close> lists the messages SHA-256 is applied to while a root is computed;
  the binding theorems conclude that two computations agree, or that two messages of these lists
  collide (\<open>collides\<close>).
\<close>

section \<open>Leaf and node hashes\<close>

definition leaf_hash_prefix :: "byte list" where
  "leaf_hash_prefix = [0]"

definition node_hash_prefix :: "byte list" where
  "node_hash_prefix = [1]"

definition empty_tree_root :: string where
  "empty_tree_root = sha256_hex []"

definition require_sha256_hex :: "string \<Rightarrow> string \<Rightarrow> unit result" where
  "require_sha256_hex value field_name =
     (if length value \<noteq> 64 then Inl (ValueError (field_name @ '' must be a SHA-256 hex digest''))
      else case fromhex value of
        Inl _ \<Rightarrow> Inl (ValueError (field_name @ '' must be hex encoded''))
      | Inr _ \<Rightarrow> Inr ())"

definition leaf_hash_for_event_hash :: "string \<Rightarrow> string result" where
  "leaf_hash_for_event_hash event_hash =
     rbind (require_sha256_hex event_hash ''event_hash'') (\<lambda>_.
     rbind (fromhex event_hash) (\<lambda>b. Inr (sha256_hex (leaf_hash_prefix @ b))))"

definition hash_pair :: "string \<Rightarrow> string \<Rightarrow> string result" where
  "hash_pair left_hex right_hex =
     rbind (fromhex left_hex) (\<lambda>l.
     rbind (fromhex right_hex) (\<lambda>r. Inr (sha256_hex (node_hash_prefix @ l @ r))))"

section \<open>The tree\<close>

definition split_loop :: "int \<Rightarrow> int" where
  "split_loop tree_size = while (\<lambda>k. k * 2 < tree_size) (\<lambda>k. k * 2) 1"

definition split_point :: "int \<Rightarrow> int result" where
  "split_point tree_size =
     (if tree_size < 2 then Inl (ValueError ''split_point requires tree_size >= 2'')
      else Inr (split_loop tree_size))"

lemma split_loop_spec:
  assumes "2 \<le> n"
  shows "(\<exists>i. split_loop n = 2 ^ i) \<and> split_loop n < n \<and> n \<le> 2 * split_loop n"
proof -
  have "(\<exists>i. split_loop n = 2 ^ i) \<and> 1 \<le> split_loop n \<and> split_loop n < n \<and> \<not> split_loop n * 2 < n"
    unfolding split_loop_def
  proof (rule while_rule [where P = "\<lambda>k. (\<exists>i. k = 2 ^ i) \<and> 1 \<le> k \<and> k < n" and r = "measure (\<lambda>k. nat (n - k))"])
    show "(\<exists>i. (1 :: int) = 2 ^ i) \<and> 1 \<le> (1 :: int) \<and> 1 < n"
      using assms by (auto intro: exI [of _ 0])
    show "(\<exists>i. k * 2 = 2 ^ i) \<and> 1 \<le> k * 2 \<and> k * 2 < n"
      if "(\<exists>i. k = 2 ^ i) \<and> 1 \<le> k \<and> k < n" "k * 2 < n" for k :: int
      using that by (metis power_Suc2 dual_order.trans linorder_not_less mult.commute mult_2 add_increasing zero_le_one)
  qed auto
  then show ?thesis by auto
qed

lemma split_point_bounds: "split_point n = Inr k \<Longrightarrow> 0 < k \<and> k < n \<and> n \<le> 2 * k \<and> 2 \<le> n"
  using split_loop_spec [of n] by (auto simp: split_point_def split: if_splits)

function subtree_hash :: "string list \<Rightarrow> string result" where
  "subtree_hash leaves =
     (if length leaves = 1 then Inr (leaves ! 0)
      else rbind (split_point (int (length leaves))) (\<lambda>k.
           rbind (subtree_hash (take (nat k) leaves)) (\<lambda>left.
           rbind (subtree_hash (drop (nat k) leaves)) (\<lambda>right.
           hash_pair left right))))"
  by pat_completeness auto
termination
  by (relation "measure length") (auto dest!: split_point_bounds)

definition merkle_root :: "string list \<Rightarrow> string result" where
  "merkle_root leaf_hashes =
     rbind (rmap (\<lambda>h. require_sha256_hex h ''leaf_hash'') leaf_hashes) (\<lambda>_.
     if leaf_hashes = [] then Inr empty_tree_root else subtree_hash leaf_hashes)"

section \<open>Audit paths\<close>

text \<open>A step of an audit path is a dictionary with the keys \<^verbatim>\<open>position\<close> and \<^verbatim>\<open>hash\<close>.\<close>

type_synonym path_step = "(string \<times> string) list"

definition path_step :: "string \<Rightarrow> string \<Rightarrow> path_step" where
  "path_step position hash = [(''position'', position), (''hash'', hash)]"

function subtree_path :: "string list \<Rightarrow> int \<Rightarrow> path_step list result" where
  "subtree_path leaves index =
     (if length leaves = 1 then Inr []
      else rbind (split_point (int (length leaves))) (\<lambda>k.
        if index < k then
          rbind (subtree_path (take (nat k) leaves) index) (\<lambda>path.
          rbind (subtree_hash (drop (nat k) leaves)) (\<lambda>h.
          Inr (path @ [path_step ''right'' h])))
        else
          rbind (subtree_path (drop (nat k) leaves) (index - k)) (\<lambda>path.
          rbind (subtree_hash (take (nat k) leaves)) (\<lambda>h.
          Inr (path @ [path_step ''left'' h])))))"
  by pat_completeness auto
termination
  by (relation "measure (\<lambda>(leaves, index). length leaves)") (auto dest!: split_point_bounds)

definition audit_path_for_leaf :: "string list \<Rightarrow> int \<Rightarrow> path_step list result" where
  "audit_path_for_leaf leaf_hashes leaf_index =
     (if leaf_index < 0 \<or> int (length leaf_hashes) \<le> leaf_index
      then Inl (IndexError ''leaf_index is outside the tree'')
      else rbind (rmap (\<lambda>h. require_sha256_hex h ''leaf_hash'') leaf_hashes) (\<lambda>_.
           subtree_path leaf_hashes leaf_index))"

definition audit_step :: "string \<Rightarrow> path_step \<Rightarrow> string result" where
  "audit_step current step =
     rbind (rget (ValueError ''audit path step is missing hash'') (map_of step ''hash'')) (\<lambda>sibling_hash.
     rbind (require_sha256_hex sibling_hash ''audit_path.hash'') (\<lambda>_.
     if map_of step ''position'' = Some ''left'' then hash_pair sibling_hash current
     else if map_of step ''position'' = Some ''right'' then hash_pair current sibling_hash
     else Inl (ValueError ''audit path position must be left or right'')))"

definition compute_root_from_audit_path :: "string \<Rightarrow> path_step list \<Rightarrow> string result" where
  "compute_root_from_audit_path leaf_hash audit_path =
     rbind (require_sha256_hex leaf_hash ''leaf_hash'') (\<lambda>_. rfold audit_step leaf_hash audit_path)"

declare subtree_hash.simps [simp del] subtree_path.simps [simp del]

section \<open>Reference: the tree hash on digests\<close>

definition split_nat :: "nat \<Rightarrow> nat" where
  "split_nat n = nat (split_loop (int n))"

lemma split_point_nat: "2 \<le> n \<Longrightarrow> split_point (int n) = Inr (int (split_nat n))"
  using split_loop_spec [of "int n"] by (simp add: split_point_def split_nat_def)

lemma split_nat_bounds: "2 \<le> n \<Longrightarrow> 0 < split_nat n \<and> split_nat n < n"
  using split_point_bounds [OF split_point_nat] by auto

definition node_hash :: "byte list \<Rightarrow> byte list \<Rightarrow> byte list" where
  "node_hash l r = sha256 (node_hash_prefix @ l @ r)"

lemma length_node_hash [simp]: "length (node_hash l r) = 32"
  by (simp add: node_hash_def)

function mth :: "byte list list \<Rightarrow> byte list" where
  "mth ds =
     (if length ds < 2 then (if ds = [] then sha256 [] else ds ! 0)
      else node_hash (mth (take (split_nat (length ds)) ds)) (mth (drop (split_nat (length ds)) ds)))"
  by pat_completeness auto
termination
proof (relation "measure length")
  fix ds :: "byte list list"
  assume "\<not> length ds < 2"
  with split_nat_bounds [of "length ds"] show "(take (split_nat (length ds)) ds, ds) \<in> measure length"
    and "(drop (split_nat (length ds)) ds, ds) \<in> measure length" by auto
qed simp

function node_inputs :: "byte list list \<Rightarrow> byte list list" where
  "node_inputs ds =
     (if length ds < 2 then []
      else let l = take (split_nat (length ds)) ds; r = drop (split_nat (length ds)) ds
           in (node_hash_prefix @ mth l @ mth r) # node_inputs l @ node_inputs r)"
  by pat_completeness auto
termination
proof (relation "measure length")
  fix ds l r :: "byte list list"
  assume "\<not> length ds < 2" "l = take (split_nat (length ds)) ds" "r = drop (split_nat (length ds)) ds"
  with split_nat_bounds [of "length ds"] show "(l, ds) \<in> measure length" "(r, ds) \<in> measure length"
    by auto
qed auto

declare mth.simps [simp del] node_inputs.simps [simp del]

definition collides :: "byte list list \<Rightarrow> byte list list \<Rightarrow> bool" where
  "collides ms ns \<longleftrightarrow> (\<exists>m \<in> set ms. \<exists>n \<in> set ns. sha256_collision (m, n))"

lemma collides_mono: "collides ms ns \<Longrightarrow> set ms \<subseteq> set ms' \<Longrightarrow> set ns \<subseteq> set ns' \<Longrightarrow> collides ms' ns'"
  by (auto simp: collides_def)

lemma sha256_eq: "sha256 m = sha256 n \<Longrightarrow> m = n \<or> collides (m # ms) (n # ns)"
  by (auto simp: collides_def sha256_collision_def)

lemma mth_Nil [simp]: "mth [] = sha256 []"
  by (subst mth.simps) simp

lemma mth_singleton [simp]: "mth [d] = d"
  by (subst mth.simps) simp

lemma node_inputs_singleton [simp]: "node_inputs [d] = []"
  by (subst node_inputs.simps) simp

lemma mth_split:
  assumes "2 \<le> length ds"
  shows "mth ds = node_hash (mth (take (split_nat (length ds)) ds)) (mth (drop (split_nat (length ds)) ds))"
  using assms by (subst mth.simps) (simp only: not_less [symmetric] if_False)

lemma node_inputs_split:
  assumes "2 \<le> length ds"
  shows "node_inputs ds = (node_hash_prefix @ mth (take (split_nat (length ds)) ds) @ mth (drop (split_nat (length ds)) ds))
    # node_inputs (take (split_nat (length ds)) ds) @ node_inputs (drop (split_nat (length ds)) ds)"
  using assms by (subst node_inputs.simps) (simp only: not_less [symmetric] if_False Let_def)

text \<open>Induction over the shape of the tree: a single leaf, or two non-empty subtrees.\<close>

lemma tree_induct [consumes 1, case_names leaf node]:
  assumes ne: "xs \<noteq> []"
    and leaf: "\<And>x. P [x]"
    and node: "\<And>xs. 2 \<le> length xs \<Longrightarrow> P (take (split_nat (length xs)) xs) \<Longrightarrow>
       P (drop (split_nat (length xs)) xs) \<Longrightarrow> P xs"
  shows "P xs"
  using ne
proof (induction xs rule: length_induct)
  case (1 xs)
  show ?case
  proof (cases "2 \<le> length xs")
    case True
    show ?thesis
      by (rule node [OF True]; intro "1.IH" [rule_format]) (use split_nat_bounds [OF True] in auto)
  next
    case False
    with "1.prems" have "length xs = 1" by (cases xs) (auto simp: not_le)
    with leaf show ?thesis by (auto simp: length_Suc_conv)
  qed
qed

lemma split_parts_nonempty:
  assumes "2 \<le> length xs"
  shows "take (split_nat (length xs)) xs \<noteq> []" "drop (split_nat (length xs)) xs \<noteq> []"
  using split_nat_bounds [OF assms] assms by auto

lemma length_mth: "ds \<noteq> [] \<Longrightarrow> \<forall>d \<in> set ds. length d = 32 \<Longrightarrow> length (mth ds) = 32"
  by (cases "2 \<le> length ds") (auto simp: mth_split not_le less_2_cases_iff length_Suc_conv)

section \<open>The code computes the reference tree hash\<close>

definition hex64 :: "string \<Rightarrow> bool" where
  "hex64 s \<longleftrightarrow> length s = 64 \<and> (\<exists>b. fromhex s = Inr b)"

definition unhex :: "string \<Rightarrow> byte list" where
  "unhex s = (case fromhex s of Inl _ \<Rightarrow> [] | Inr b \<Rightarrow> b)"

lemma require_sha256_hex_ok: "require_sha256_hex s f = Inr u \<longleftrightarrow> hex64 s"
  by (auto simp: require_sha256_hex_def hex64_def split: sum.splits)

lemma require_sha256_hex_hex64 [simp]: "hex64 s \<Longrightarrow> require_sha256_hex s f = Inr ()"
  by (auto simp: require_sha256_hex_def hex64_def)

lemma require_all_hex64: "rmap (\<lambda>h. require_sha256_hex h f) ls = Inr us \<Longrightarrow> \<forall>h \<in> set ls. hex64 h"
  by (auto simp: rmap_eq_Inr require_sha256_hex_ok list_all2_conv_all_nth in_set_conv_nth)

lemma require_all_ok [simp]: "\<forall>h \<in> set ls. hex64 h \<Longrightarrow> rmap (\<lambda>h. require_sha256_hex h f) ls = Inr (map (\<lambda>_. ()) ls)"
  by (intro rmap_all_Inr) simp

lemma fromhex_hex64: "hex64 s \<Longrightarrow> fromhex s = Inr (unhex s)"
  by (auto simp: hex64_def unhex_def)

lemma hex64_sha256_hex [simp]: "hex64 (sha256_hex m)" "hex64 (canon_sha256 j)"
  by (simp_all add: hex64_def)

lemma unhex_sha256_hex [simp]: "unhex (sha256_hex m) = sha256 m" "unhex (canon_sha256 j) = sha256 (canon j)"
  by (simp_all add: unhex_def)

lemma length_unhex_le: "hex64 s \<Longrightarrow> length (unhex s) \<le> 32"
  using fromhex_length [of s] by (auto simp: hex64_def unhex_def)

lemma hash_pair_hex64: "hex64 a \<Longrightarrow> hex64 b \<Longrightarrow> hash_pair a b = Inr (hexlify (node_hash (unhex a) (unhex b)))"
  by (simp add: hash_pair_def fromhex_hex64 node_hash_def sha256_hex_def)

lemma hex64_hexlify [simp]: "length d = 32 \<Longrightarrow> hex64 (hexlify d)"
  by (simp add: hex64_def)

lemma unhex_hexlify [simp]: "unhex (hexlify d) = d"
  by (simp add: unhex_def)

lemma subtree_hash_singleton [simp]: "subtree_hash [h] = Inr h"
  by (subst subtree_hash.simps) simp

lemma subtree_hash_split:
  assumes "2 \<le> length ls"
  shows "subtree_hash ls = rbind (subtree_hash (take (split_nat (length ls)) ls)) (\<lambda>l.
      rbind (subtree_hash (drop (split_nat (length ls)) ls)) (\<lambda>r. hash_pair l r))"
  using assms split_point_nat [OF assms] by (subst subtree_hash.simps) simp

lemma subtree_hash_mth:
  assumes "ls \<noteq> []" "\<forall>h \<in> set ls. hex64 h"
  shows "\<exists>r. subtree_hash ls = Inr r \<and> hex64 r \<and> unhex r = mth (map unhex ls) \<and>
    (2 \<le> length ls \<longrightarrow> r = hexlify (mth (map unhex ls)))"
  using assms
proof (induction ls rule: tree_induct)
  case (leaf h)
  then show ?case by simp
next
  case (node ls)
  let ?k = "split_nat (length ls)"
  have hex: "\<forall>h \<in> set (take ?k ls). hex64 h" "\<forall>h \<in> set (drop ?k ls). hex64 h"
    using node.prems by (auto dest: in_set_takeD in_set_dropD)
  from node.IH(1) [OF hex(1)] obtain l where
    "subtree_hash (take ?k ls) = Inr l" "hex64 l" "unhex l = mth (map unhex (take ?k ls))" by blast
  moreover from node.IH(2) [OF hex(2)] obtain r where
    "subtree_hash (drop ?k ls) = Inr r" "hex64 r" "unhex r = mth (map unhex (drop ?k ls))" by blast
  ultimately show ?case
    using node(1) by (simp add: subtree_hash_split hash_pair_hex64 mth_split take_map drop_map)
qed

lemma merkle_root_mth:
  assumes "\<forall>h \<in> set ls. hex64 h"
  shows "\<exists>r. merkle_root ls = Inr r \<and> hex64 r \<and> unhex r = mth (map unhex ls) \<and>
    (length ls \<noteq> 1 \<longrightarrow> r = hexlify (mth (map unhex ls)))"
proof (cases "ls = []")
  case True
  then show ?thesis by (simp add: merkle_root_def empty_tree_root_def) (simp add: sha256_hex_def)
next
  case False
  from subtree_hash_mth [OF False assms] False assms show ?thesis
    by (cases ls) (auto simp: merkle_root_def Suc_le_eq)
qed

lemma merkle_root_hex64: "merkle_root ls = Inr r \<Longrightarrow> \<forall>h \<in> set ls. hex64 h"
  by (auto simp: merkle_root_def dest!: require_all_hex64)

section \<open>A root determines the leaves\<close>

definition leaf_digest :: "byte list \<Rightarrow> byte list" where
  "leaf_digest b = sha256 (leaf_hash_prefix @ b)"

definition leaf_inputs :: "byte list list \<Rightarrow> byte list list" where
  "leaf_inputs bs = map ((@) leaf_hash_prefix) bs"

text \<open>Every message hashed on the way from the event hashes to the root.\<close>

definition tree_inputs :: "byte list list \<Rightarrow> byte list list" where
  "tree_inputs bs = (if bs = [] then [[]] else leaf_inputs bs @ node_inputs (map leaf_digest bs))"

text \<open>The last message hashed; its first byte tells a leaf from an inner node.\<close>

definition root_input :: "byte list list \<Rightarrow> byte list" where
  "root_input bs = (let ds = map leaf_digest bs; k = split_nat (length bs) in
     if bs = [] then [] else if length bs < 2 then leaf_hash_prefix @ hd bs
     else node_hash_prefix @ mth (take k ds) @ mth (drop k ds))"

lemma length_leaf_digest [simp]: "length (leaf_digest b) = 32"
  by (simp add: leaf_digest_def)

lemma mth_root_input: "mth (map leaf_digest bs) = sha256 (root_input bs)"
proof (cases "length bs < 2")
  case True
  then show ?thesis by (cases bs) (auto simp: root_input_def leaf_digest_def)
next
  case False
  then show ?thesis by (auto simp: root_input_def mth_split node_hash_def Let_def not_less)
qed

lemma root_input_in: "root_input bs \<in> set (tree_inputs bs)"
proof (cases "length bs < 2")
  case True
  then show ?thesis by (cases bs) (auto simp: root_input_def tree_inputs_def leaf_inputs_def)
next
  case False
  then show ?thesis
    by (auto simp: root_input_def tree_inputs_def node_inputs_split Let_def not_less)
qed

lemma tree_inputs_parts:
  assumes "2 \<le> length bs"
  shows "set (tree_inputs (take (split_nat (length bs)) bs)) \<subseteq> set (tree_inputs bs)"
    "set (tree_inputs (drop (split_nat (length bs)) bs)) \<subseteq> set (tree_inputs bs)"
  using assms split_parts_nonempty [OF assms]
  by (auto simp: tree_inputs_def node_inputs_split leaf_inputs_def take_map drop_map
      dest: in_set_takeD in_set_dropD)

lemma root_input_collides:
  assumes "mth (map leaf_digest xs) = mth (map leaf_digest ys)"
  shows "root_input xs = root_input ys \<or> collides (tree_inputs xs) (tree_inputs ys)"
  using assms root_input_in [of xs] root_input_in [of ys]
  by (auto simp: mth_root_input collides_def sha256_collision_def)

lemma length_mth_leaves: "bs \<noteq> [] \<Longrightarrow> length (mth (map leaf_digest bs)) = 32"
  by (simp add: mth_root_input)

lemma root_input_eq_node:
  assumes "2 \<le> length xs" "root_input xs = root_input ys"
  shows "2 \<le> length ys \<and>
    mth (map leaf_digest (take (split_nat (length xs)) xs)) = mth (map leaf_digest (take (split_nat (length ys)) ys)) \<and>
    mth (map leaf_digest (drop (split_nat (length xs)) xs)) = mth (map leaf_digest (drop (split_nat (length ys)) ys))"
proof (cases "2 \<le> length ys")
  case False
  with assms show ?thesis
    by (auto simp: root_input_def leaf_hash_prefix_def node_hash_prefix_def Let_def not_le split: if_splits)
next
  case True
  with assms have "mth (map leaf_digest (take (split_nat (length xs)) xs)) @ mth (map leaf_digest (drop (split_nat (length xs)) xs)) =
      mth (map leaf_digest (take (split_nat (length ys)) ys)) @ mth (map leaf_digest (drop (split_nat (length ys)) ys))"
    by (auto simp: root_input_def Let_def take_map drop_map split: if_splits)
  with True show ?thesis
    using split_parts_nonempty [OF assms(1)] split_parts_nonempty [OF True] by (simp add: length_mth_leaves)
qed

lemma tree_binding:
  assumes "mth (map leaf_digest xs) = mth (map leaf_digest ys)"
  shows "xs = ys \<or> collides (tree_inputs xs) (tree_inputs ys)"
proof (cases "xs = []")
  case True
  with root_input_collides [OF assms] show ?thesis
    by (auto simp: root_input_def leaf_hash_prefix_def node_hash_prefix_def Let_def split: if_splits)
next
  case False
  then show ?thesis
    using assms
  proof (induction xs arbitrary: ys rule: tree_induct)
    case (leaf x)
    then show ?case
      using root_input_collides [OF leaf]
      by (cases ys) (auto simp: root_input_def leaf_hash_prefix_def node_hash_prefix_def Let_def split: if_splits)
  next
    case (node xs)
    show ?case
    proof (cases "root_input xs = root_input ys")
      case True
      note parts = root_input_eq_node [OF node(1) True]
      from node.IH(1) node.IH(2) parts have
        "take (split_nat (length xs)) xs = take (split_nat (length ys)) ys \<and>
         drop (split_nat (length xs)) xs = drop (split_nat (length ys)) ys \<or>
         collides (tree_inputs (take (split_nat (length xs)) xs)) (tree_inputs (take (split_nat (length ys)) ys)) \<or>
         collides (tree_inputs (drop (split_nat (length xs)) xs)) (tree_inputs (drop (split_nat (length ys)) ys))"
        by blast
      then show ?thesis
        using tree_inputs_parts [OF node(1)] tree_inputs_parts [of ys] parts
        by (metis append_take_drop_id collides_mono)
    next
      case False
      with root_input_collides [OF node.prems] show ?thesis by blast
    qed
  qed
qed

section \<open>Audit paths on digests\<close>

text \<open>A step on digests: whether the sibling stands to the left, and its digest.\<close>

fun root_from :: "byte list \<Rightarrow> (bool \<times> byte list) list \<Rightarrow> byte list" where
  "root_from c [] = c"
| "root_from c ((left, d) # path) = root_from (if left then node_hash d c else node_hash c d) path"

fun path_inputs :: "byte list \<Rightarrow> (bool \<times> byte list) list \<Rightarrow> byte list list" where
  "path_inputs c [] = []"
| "path_inputs c ((left, d) # path) =
     (node_hash_prefix @ (if left then d @ c else c @ d)) #
     path_inputs (if left then node_hash d c else node_hash c d) path"

function mpath :: "byte list list \<Rightarrow> nat \<Rightarrow> (bool \<times> byte list) list" where
  "mpath ds i =
     (if length ds < 2 then []
      else let k = split_nat (length ds) in
        if i < k then mpath (take k ds) i @ [(False, mth (drop k ds))]
        else mpath (drop k ds) (i - k) @ [(True, mth (take k ds))])"
  by pat_completeness auto
termination
proof (relation "measure (length \<circ> fst)")
  fix ds :: "byte list list" and i k :: nat
  assume "\<not> length ds < 2" "k = split_nat (length ds)"
  with split_nat_bounds [of "length ds"]
  show "((take k ds, i), ds, i) \<in> measure (length \<circ> fst)" "((drop k ds, i - k), ds, i) \<in> measure (length \<circ> fst)"
    by auto
qed simp

declare mpath.simps [simp del]

lemma mpath_singleton [simp]: "mpath [d] i = []"
  by (subst mpath.simps) simp

lemma mpath_split:
  assumes "2 \<le> length ds"
  shows "mpath ds i = (let k = split_nat (length ds) in
     if i < k then mpath (take k ds) i @ [(False, mth (drop k ds))]
     else mpath (drop k ds) (i - k) @ [(True, mth (take k ds))])"
  using assms by (subst mpath.simps) (simp only: not_less [symmetric] if_False)

lemma root_from_snoc:
  "root_from c (path @ [(left, d)]) =
     (if left then node_hash d (root_from c path) else node_hash (root_from c path) d)"
  by (induction c path rule: root_from.induct) auto

lemma path_inputs_snoc:
  "path_inputs c (path @ [(left, d)]) = path_inputs c path @
     [node_hash_prefix @ (if left then d @ root_from c path else root_from c path @ d)]"
  by (induction c path rule: root_from.induct) auto

lemma length_root_from: "length c \<le> 32 \<Longrightarrow> length (root_from c path) \<le> 32"
  by (induction c path rule: root_from.induct) auto

text \<open>The path of a leaf leads from the leaf to the root.\<close>

lemma root_from_mpath:
  assumes "ds \<noteq> []" "i < length ds"
  shows "root_from (ds ! i) (mpath ds i) = mth ds"
  using assms
proof (induction ds arbitrary: i rule: tree_induct)
  case (node ds)
  let ?k = "split_nat (length ds)"
  show ?case
  proof (cases "i < ?k")
    case True
    with node.IH(1) [of i] node(1) node.prems show ?thesis
      by (simp add: mpath_split Let_def root_from_snoc mth_split)
  next
    case False
    with node.IH(2) [of "i - ?k"] node(1) node.prems show ?thesis
      by (simp add: mpath_split Let_def root_from_snoc mth_split)
  qed
qed simp

lemma append_short_eq:
  assumes "a @ b = l @ r" "length a \<le> n" "length b \<le> n" "length l = n" "length r = n"
  shows "a = l \<and> b = r"
proof -
  from assms have "length a + length b = 2 * n" by (metis length_append mult_2)
  with assms have "length a = length l" by linarith
  with assms(1) show ?thesis by simp
qed

text \<open>
  A path with the sides of leaf \<open>i\<close> that leads to the root starts at leaf \<open>i\<close>, or a message hashed
  along the path collides with one hashed in the tree.
\<close>

lemma mpath_binding:
  assumes "ds \<noteq> []" "i < length ds" "\<forall>d \<in> set ds. length d = 32" "length c \<le> 32"
    "\<forall>(left, d) \<in> set path. length d \<le> 32"
    "map fst path = map fst (mpath ds i)" "root_from c path = mth ds"
  shows "(c = ds ! i \<and> path = mpath ds i) \<or> collides (path_inputs c path) (node_inputs ds)"
  using assms
proof (induction ds arbitrary: i path rule: tree_induct)
  case (leaf d)
  then show ?case by simp
next
  case (node ds)
  let ?k = "split_nat (length ds)" and ?l = "take (split_nat (length ds)) ds" and ?r = "drop (split_nat (length ds)) ds"
  note ne = split_parts_nonempty [OF node(1)]
  have digests: "\<forall>d \<in> set ?l. length d = 32" "\<forall>d \<in> set ?r. length d = 32"
    using node.prems(2) by (auto dest: in_set_takeD in_set_dropD)
  have len: "length (mth ?l) = 32" "length (mth ?r) = 32"
    using length_mth [OF ne(1) digests(1)] length_mth [OF ne(2) digests(2)] by auto
  from node.prems(5) node(1) obtain init left d where path: "path = init @ [(left, d)]"
    by (cases path rule: rev_cases) (auto simp: mpath_split Let_def split: if_splits)
  let ?c = "root_from c init"
  have short: "length ?c \<le> 32" "length d \<le> 32"
    using length_root_from [OF node.prems(3)] node.prems(4) by (auto simp: path)
  from node.prems(6) have "sha256 (node_hash_prefix @ (if left then d @ ?c else ?c @ d)) =
      sha256 (node_hash_prefix @ mth ?l @ mth ?r)"
    by (simp add: path root_from_snoc mth_split [OF node(1)] node_hash_def split: if_splits)
  then consider (same) "(if left then d @ ?c else ?c @ d) = mth ?l @ mth ?r"
    | (coll) "collides (path_inputs c path) (node_inputs ds)"
    by (auto simp: path path_inputs_snoc node_inputs_split [OF node(1)] collides_def sha256_collision_def)
  then show ?case
  proof cases
    case same
    then have parts: "if left then d = mth ?l \<and> ?c = mth ?r else ?c = mth ?l \<and> d = mth ?r"
      using append_short_eq [OF _ short(2) short(1) len] append_short_eq [OF _ short len] by (auto split: if_splits)
    have sub: "collides (path_inputs c init) (node_inputs ?l) \<or> collides (path_inputs c init) (node_inputs ?r)
        \<Longrightarrow> collides (path_inputs c path) (node_inputs ds)"
      by (auto simp: path path_inputs_snoc node_inputs_split [OF node(1)] collides_def)
    show ?thesis
    proof (cases "i < ?k")
      case True
      with node.prems(5) parts have "\<not> left" "map fst init = map fst (mpath ?l i)"
        by (auto simp: path mpath_split [OF node(1)] Let_def)
      with node.IH(1) [of i init] parts node.prems True digests sub show ?thesis
        by (auto simp: path mpath_split [OF node(1)] Let_def)
    next
      case False
      with node.prems(5) parts have "left" "map fst init = map fst (mpath ?r (i - ?k))"
        by (auto simp: path mpath_split [OF node(1)] Let_def)
      moreover have "i - ?k < length ?r"
        using node.prems(1) False by simp
      ultimately show ?thesis
        using node.IH(2) [of "i - ?k" init] parts node.prems(2-4) False digests sub
        by (auto simp: path mpath_split [OF node(1)] Let_def)
    qed
  qed blast
qed

section \<open>Audit paths of the code\<close>

definition wf_step :: "path_step \<Rightarrow> bool" where
  "wf_step st \<longleftrightarrow> (\<exists>position hash. (position = ''left'' \<or> position = ''right'') \<and> hex64 hash \<and> st = path_step position hash)"

definition dec_step :: "path_step \<Rightarrow> bool \<times> byte list" where
  "dec_step st = (map_of st ''position'' = Some ''left'', unhex (the (map_of st ''hash'')))"

lemma path_step_lookup [simp]:
  "map_of (path_step position hash) ''position'' = Some position"
  "map_of (path_step position hash) ''hash'' = Some hash"
  by (simp_all add: path_step_def)

lemma dec_step_path_step [simp]: "dec_step (path_step position hash) = (position = ''left'', unhex hash)"
  by (simp add: dec_step_def)

lemma wf_step_path_step [simp]:
  "wf_step (path_step position hash) \<longleftrightarrow> (position = ''left'' \<or> position = ''right'') \<and> hex64 hash"
  by (auto simp: wf_step_def path_step_def)

lemma audit_step_wf:
  assumes "wf_step st" "hex64 c"
  shows "audit_step c st = Inr (hexlify (root_from (unhex c) [dec_step st]))"
  using assms by (auto simp: wf_step_def audit_step_def hash_pair_hex64)

lemma rfold_audit_step:
  assumes "\<forall>st \<in> set path. wf_step st" "hex64 c"
  shows "rfold audit_step c path =
    Inr (if path = [] then c else hexlify (root_from (unhex c) (map dec_step path)))"
  using assms
proof (induction path arbitrary: c)
  case (Cons st path)
  let ?c = "root_from (unhex c) [dec_step st]"
  have "length ?c = 32" by (cases "dec_step st") simp
  then have "rfold audit_step c (st # path) =
      Inr (hexlify (root_from ?c (map dec_step path)))"
    using Cons by (auto simp: audit_step_wf)
  then show ?case by (cases "dec_step st") simp
qed simp

lemma compute_root_wf:
  assumes "\<forall>st \<in> set path. wf_step st" "hex64 c"
  shows "compute_root_from_audit_path c path =
    Inr (if path = [] then c else hexlify (root_from (unhex c) (map dec_step path)))"
  using assms by (simp add: compute_root_from_audit_path_def rfold_audit_step)

lemma subtree_path_split:
  assumes "2 \<le> length ls"
  shows "subtree_path ls i = (let k = split_nat (length ls) in
      if i < int k then rbind (subtree_path (take k ls) i) (\<lambda>path.
        rbind (subtree_hash (drop k ls)) (\<lambda>h. Inr (path @ [path_step ''right'' h])))
      else rbind (subtree_path (drop k ls) (i - int k)) (\<lambda>path.
        rbind (subtree_hash (take k ls)) (\<lambda>h. Inr (path @ [path_step ''left'' h]))))"
  using assms split_point_nat [OF assms] by (subst subtree_path.simps) (simp add: Let_def)

lemma subtree_path_singleton [simp]: "subtree_path [h] i = Inr []"
  by (subst subtree_path.simps) simp

lemma subtree_path_mpath:
  assumes "ls \<noteq> []" "\<forall>h \<in> set ls. hex64 h" "0 \<le> i" "i < int (length ls)"
  shows "\<exists>path. subtree_path ls i = Inr path \<and> map dec_step path = mpath (map unhex ls) (nat i) \<and>
    (\<forall>st \<in> set path. wf_step st)"
  using assms
proof (induction ls arbitrary: i rule: tree_induct)
  case (node ls)
  let ?k = "split_nat (length ls)" and ?l = "take (split_nat (length ls)) ls" and ?r = "drop (split_nat (length ls)) ls"
  note ne = split_parts_nonempty [OF node(1)]
  have hex: "\<forall>h \<in> set ?l. hex64 h" "\<forall>h \<in> set ?r. hex64 h"
    using node.prems by (auto dest: in_set_takeD in_set_dropD)
  obtain lh where lh: "subtree_hash ?l = Inr lh" "hex64 lh" "unhex lh = mth (map unhex ?l)"
    using subtree_hash_mth [OF ne(1) hex(1)] by blast
  obtain rh where rh: "subtree_hash ?r = Inr rh" "hex64 rh" "unhex rh = mth (map unhex ?r)"
    using subtree_hash_mth [OF ne(2) hex(2)] by blast
  show ?case
  proof (cases "i < int ?k")
    case True
    with node.IH(1) [OF hex(1), of i] node.prems obtain path where
      "subtree_path ?l i = Inr path" "map dec_step path = mpath (map unhex ?l) (nat i)" "\<forall>st \<in> set path. wf_step st"
      by (auto simp: min_absorb2 less_imp_le split_nat_bounds [OF node(1)])
    with True rh node(1) node.prems show ?thesis
      by (simp add: subtree_path_split mpath_split Let_def take_map drop_map nat_less_iff)
  next
    case False
    with node.IH(2) [OF hex(2), of "i - int ?k"] node.prems obtain path where
      "subtree_path ?r (i - int ?k) = Inr path" "map dec_step path = mpath (map unhex ?r) (nat (i - int ?k))"
      "\<forall>st \<in> set path. wf_step st"
      by (auto simp: of_nat_diff split_nat_bounds [OF node(1)] less_imp_le)
    with False lh node(1) node.prems show ?thesis
      by (simp add: subtree_path_split mpath_split Let_def take_map drop_map nat_less_iff nat_diff_distrib)
  qed
qed simp

lemma audit_path_mpath:
  assumes "\<forall>h \<in> set ls. hex64 h" "0 \<le> i" "i < int (length ls)"
  obtains path where "audit_path_for_leaf ls i = Inr path" "map dec_step path = mpath (map unhex ls) (nat i)"
    "\<forall>st \<in> set path. wf_step st"
proof -
  have "ls \<noteq> []" using assms by auto
  with subtree_path_mpath [OF _ assms] obtain path where "subtree_path ls i = Inr path"
    "map dec_step path = mpath (map unhex ls) (nat i)" "\<forall>st \<in> set path. wf_step st" by blast
  with assms that show thesis by (simp add: audit_path_for_leaf_def)
qed

lemma mpath_Nil_iff: "mpath ds i = [] \<longleftrightarrow> length ds < 2"
proof (cases "length ds < 2")
  case True
  then show ?thesis by (simp only: mpath.simps [of ds i] if_True simp_thms)
next
  case False
  then show ?thesis by (simp add: mpath_split [of ds i] Let_def)
qed

lemma leaf_hash_for_event_hash_eq_Inr:
  "leaf_hash_for_event_hash e = Inr l \<longleftrightarrow> hex64 e \<and> l = hexlify (leaf_digest (unhex e))"
proof (cases "hex64 e")
  case True
  with fromhex_hex64 [OF True] show ?thesis
    by (auto simp: leaf_hash_for_event_hash_def leaf_digest_def sha256_hex_def)
next
  case False
  then show ?thesis
    by (auto simp: leaf_hash_for_event_hash_def require_sha256_hex_ok)
qed

lemma hex64_rmap_leaf_hash:
  assumes "rmap leaf_hash_for_event_hash es = Inr ls"
  shows "(\<forall>h \<in> set ls. hex64 h) \<and> map unhex ls = map leaf_digest (map unhex es)"
  using assms
proof (induction es arbitrary: ls)
  case (Cons e es)
  then show ?case
    by (auto simp: leaf_hash_for_event_hash_eq_Inr)
qed simp

lemma audit_path_computes_root:
  assumes "list_all hex64 ls" "0 \<le> i" "i < int (length ls)"
  shows "\<exists>path. audit_path_for_leaf ls i = Inr path \<and>
    compute_root_from_audit_path (ls ! nat i) path = merkle_root ls"
proof -
  have hex: "\<forall>h \<in> set ls. hex64 h" using assms(1) by (simp add: list_all_iff)
  obtain path where path: "audit_path_for_leaf ls i = Inr path"
    "map dec_step path = mpath (map unhex ls) (nat i)" "\<forall>st \<in> set path. wf_step st"
    using audit_path_mpath [OF hex assms(2,3)] by blast
  have i: "nat i < length ls" using assms by auto
  then have "hex64 (ls ! nat i)" using hex by simp
  note root = compute_root_wf [OF path(3) this]
  have "path = [] \<longleftrightarrow> length ls < 2"
    using path(2) mpath_Nil_iff [of "map unhex ls" "nat i"] by (metis length_map map_is_Nil_conv)
  moreover have "root_from (unhex (ls ! nat i)) (map dec_step path) = mth (map unhex ls)"
    using root_from_mpath [of "map unhex ls" "nat i"] i path(2) by (cases "ls = []") auto
  moreover obtain r where "merkle_root ls = Inr r" "length ls \<noteq> 1 \<longrightarrow> r = hexlify (mth (map unhex ls))"
    using merkle_root_mth [OF hex] by blast
  moreover have "length ls < 2 \<longleftrightarrow> length ls = 1" using i by auto
  moreover have "length ls = 1 \<Longrightarrow> merkle_root ls = Inr (ls ! nat i)"
    using hex i by (auto simp: length_Suc_conv merkle_root_def)
  ultimately show ?thesis using path(1) root by auto
qed

text \<open>
  The 64-character check does not force 32 bytes: \<^verbatim>\<open>bytes.fromhex\<close> skips ASCII white space, so 64
  blanks pass the check and decode to no byte at all.
\<close>

lemma blanks_pass_as_digest:
  "require_sha256_hex (replicate 64 (CHR '' '')) f = Inr () \<and> unhex (replicate 64 (CHR '' '')) = []"
proof -
  have "fromhex_opt (replicate n (CHR '' '')) = Some []" for n
    by (induction n) (simp_all add: hex_space_def)
  then show ?thesis by (simp add: require_sha256_hex_def unhex_def fromhex_def)
qed

section \<open>Properties\<close>

text \<open>
  C7. The doubling loop of \<^verbatim>\<open>split_point\<close> terminates and returns the largest power of two strictly
  smaller than the tree size; a tree size below two is rejected.
\<close>

theorem split_point_largest_power:
  "split_point n = Inr k \<longleftrightarrow> (2 \<le> n \<and> (\<exists>e. k = 2 ^ e) \<and> k < n \<and> n \<le> 2 * k)"
  (is "?l \<longleftrightarrow> ?r")
proof
  assume ?l
  then show ?r using split_loop_spec [of n] by (auto simp: split_point_def split: if_splits)
next
  assume r: ?r
  then have spec: "(\<exists>i. split_loop n = 2 ^ i) \<and> split_loop n < n \<and> n \<le> 2 * split_loop n"
    using split_loop_spec by blast
  have uniq: "\<not> (2 ^ a < (2 :: int) ^ b \<and> n \<le> 2 * 2 ^ a \<and> 2 ^ b < n)" for a b
  proof
    assume ab: "(2 :: int) ^ a < 2 ^ b \<and> n \<le> 2 * 2 ^ a \<and> 2 ^ b < n"
    then have "Suc a \<le> b" by (simp add: Suc_le_eq)
    then have "(2 :: int) ^ Suc a \<le> 2 ^ b" by (intro power_increasing) auto
    with ab show False by simp
  qed
  from r spec uniq have "k = split_loop n" by (metis linorder_neqE)
  with r show ?l by (simp add: split_point_def)
qed


text \<open>
  C3. The root commits to the event hashes: two logs whose event hashes give the same Merkle root
  have the same event-hash bytes, in the same order and number, unless two of the messages hashed
  while the roots were computed are a SHA-256 collision.
\<close>

theorem merkle_root_binds_events:
  assumes "rmap leaf_hash_for_event_hash es = Inr ls" "rmap leaf_hash_for_event_hash fs = Inr ms"
    and "merkle_root ls = merkle_root ms"
  shows "map unhex es = map unhex fs \<or> collides (tree_inputs (map unhex es)) (tree_inputs (map unhex fs))"
proof -
  note ls = hex64_rmap_leaf_hash [OF assms(1)] and ms = hex64_rmap_leaf_hash [OF assms(2)]
  from assms(3) merkle_root_mth [of ls] merkle_root_mth [of ms] ls ms
  have "mth (map unhex ls) = mth (map unhex ms)" by auto
  with ls ms show ?thesis by (intro tree_binding) simp
qed

theorem merkle_root_binds_events_witness:
  "rmap leaf_hash_for_event_hash [sha256_hex [1], sha256_hex [2]] = Inr (map (\<lambda>b. sha256_hex (leaf_hash_prefix @ b)) [sha256 [1], sha256 [2]]) \<and>
   (map unhex [sha256_hex [1], sha256_hex [2]] = map unhex [sha256_hex [1], sha256_hex [2]] \<or>
    collides (tree_inputs (map unhex [sha256_hex [1], sha256_hex [2]])) (tree_inputs (map unhex [sha256_hex [1], sha256_hex [2]])))"
proof -
  have "rmap leaf_hash_for_event_hash [sha256_hex [1], sha256_hex [2]] = Inr (map (\<lambda>b. sha256_hex (leaf_hash_prefix @ b)) [sha256 [1], sha256 [2]])"
    by (simp add: leaf_hash_for_event_hash_def)
  with merkle_root_binds_events [OF this this refl] show ?thesis by simp
qed

text \<open>
  Every leaf has an audit path, and the path leads back to the root: for well-formed leaf
  hashes and an index inside the tree, \<^verbatim>\<open>audit_path_for_leaf\<close> returns a path from which
  \<^verbatim>\<open>compute_root_from_audit_path\<close> recomputes exactly \<^verbatim>\<open>merkle_root\<close>.
\<close>

theorem audit_path_round_trip:
  assumes "list_all hex64 ls" "0 \<le> i" "i < int (length ls)"
  shows "\<exists>path. audit_path_for_leaf ls i = Inr path \<and>
    compute_root_from_audit_path (ls ! nat i) path = merkle_root ls"
  using assms by (rule audit_path_computes_root)

theorem audit_path_round_trip_witness:
  "\<exists>path. audit_path_for_leaf (map (\<lambda>b. sha256_hex [b]) [1, 2, 3, 4, 5]) 3 = Inr path \<and>
    compute_root_from_audit_path (sha256_hex [4]) path = merkle_root (map (\<lambda>b. sha256_hex [b]) [1, 2, 3, 4, 5])"
  using audit_path_round_trip [of "map (\<lambda>b. sha256_hex [b]) [1, 2, 3, 4, 5]" 3] by simp

end
