(* ===== verification/Ets_Pytime.thy ===== *)
theory Ets_Pytime
  imports Ets_Prelude
begin

text \<open>
  \<^verbatim>\<open>datetime\<close> values. A datetime is a wall-clock reading in microseconds since
  \<^verbatim>\<open>0001-01-01T00:00:00\<close>, naive or with a UTC offset (microseconds east). The sources accept a
  timestamp through one guard, \<^verbatim>\<open>if value.tzinfo is None or value.utcoffset() is None: raise\<close>,
  followed by \<^verbatim>\<open>value.astimezone(UTC)\<close>: this is \<open>utc_or_raise\<close>, and what it returns, an instant of
  type \<open>utc\<close>, is what every validated model holds. Comparison and \<^verbatim>\<open>timedelta\<close> arithmetic on
  instants are those of the integers. \<open>isoformat_utc\<close> models \<^verbatim>\<open>datetime.isoformat()\<close> at offset zero.
\<close>

datatype datetime = Naive int | Aware int int

type_synonym utc = int

definition utc_or_raise :: "exn \<Rightarrow> datetime \<Rightarrow> utc result" where
  "utc_or_raise e d = (case d of Naive _ \<Rightarrow> Inl e | Aware t off \<Rightarrow> Inr (t - off))"

abbreviation seconds :: "int \<Rightarrow> int" where
  "seconds n \<equiv> n * 1000000"

abbreviation micros_per_day :: int where
  "micros_per_day \<equiv> 86400000000"

text \<open>The proleptic Gregorian date of a day number (day 0 is 1 January of year 1).\<close>

fun month_and_day :: "int list \<Rightarrow> int \<Rightarrow> int \<Rightarrow> int \<times> int" where
  "month_and_day [] m d = (m, d + 1)"
| "month_and_day (l # ls) m d = (if d < l then (m, d + 1) else month_and_day ls (m + 1) (d - l))"

definition month_lengths :: "bool \<Rightarrow> int list" where
  "month_lengths leap = [31, if leap then 29 else 28, 31, 30, 31, 30, 31, 31, 30, 31, 30, 31]"

definition date_of_days :: "int \<Rightarrow> int \<times> int \<times> int" where
  "date_of_days n =
     (let n400 = n div 146097; r400 = n mod 146097;
          n100 = r400 div 36524; r100 = r400 mod 36524;
          n4 = r100 div 1461; r4 = r100 mod 1461;
          n1 = r4 div 365; r1 = r4 mod 365;
          year = n400 * 400 + n100 * 100 + n4 * 4 + n1 + 1
      in if n1 = 4 \<or> n100 = 4 then (year - 1, 12, 31)
         else (year, month_and_day (month_lengths (n1 = 3 \<and> (n4 \<noteq> 24 \<or> n100 = 3))) 1 r1))"

definition zero_pad :: "nat \<Rightarrow> int \<Rightarrow> string" where
  "zero_pad w i = (let s = show_int i in replicate (w - length s) (CHR ''0'') @ s)"

definition isoformat_utc :: "utc \<Rightarrow> string" where
  "isoformat_utc t =
     (let (y, m, d) = date_of_days (t div micros_per_day);
          us = t mod micros_per_day;
          s = us div 1000000;
          f = us mod 1000000
      in zero_pad 4 y @ ''-'' @ zero_pad 2 m @ ''-'' @ zero_pad 2 d @ ''T'' @
         zero_pad 2 (s div 3600) @ '':'' @ zero_pad 2 (s div 60 mod 60) @ '':'' @ zero_pad 2 (s mod 60) @
         (if f = 0 then [] else ''.'' @ zero_pad 6 f) @ ''+00:00'')"

text \<open>\<^verbatim>\<open>isoformat().replace("+00:00", "Z")\<close>: the offset is the only place where the text occurs.\<close>

definition isoformat_z :: "utc \<Rightarrow> string" where
  "isoformat_z t = (let s = isoformat_utc t in take (length s - 6) s @ ''Z'')"

lemma utc_or_raise_eq_Inr: "utc_or_raise e d = Inr u \<longleftrightarrow> (\<exists>t off. d = Aware t off \<and> u = t - off)"
  by (cases d) (auto simp: utc_or_raise_def)

lemma utc_or_raise_Naive [simp]: "utc_or_raise e (Naive t) = Inl e"
  by (simp add: utc_or_raise_def)

lemma utc_or_raise_Aware [simp]: "utc_or_raise e (Aware t off) = Inr (t - off)"
  by (simp add: utc_or_raise_def)

text \<open>Two printed dates: the day of the Unix epoch, and a leap day.\<close>

lemma isoformat_examples:
  "isoformat_utc (719162 * micros_per_day) = ''1970-01-01T00:00:00+00:00''"
  "isoformat_z (738944 * micros_per_day + seconds 3661 + 5) = ''2024-02-29T01:01:01.000005Z''"
  by code_simp+

section \<open>The text of an instant\<close>

lemma split_at_nondigit:
  assumes "list_all is_digit a" "list_all is_digit b" "\<not> is_digit c" "\<not> is_digit c'"
  shows "a @ c # x = b @ c' # y \<longleftrightarrow> a = b \<and> c = c' \<and> x = y"
proof
  assume eq: "a @ c # x = b @ c' # y"
  have "takeWhile is_digit (a @ c # x) = a" "takeWhile is_digit (b @ c' # y) = b"
    using assms by (auto simp: list_all_iff takeWhile_append2 takeWhile_eq_all_conv)
  with eq have "a = b" by metis
  with eq show "a = b \<and> c = c' \<and> x = y" by simp
qed simp

lemma month_and_day_inject:
  assumes "month_and_day ls m d = month_and_day ls m e" "0 \<le> d" "0 \<le> e"
  shows "d = e"
proof -
  have first: "m \<le> fst (month_and_day ls m d)" for ls m d
  proof (induction ls arbitrary: m d)
    case (Cons l ls)
    have "m + 1 \<le> fst (month_and_day ls (m + 1) (d - l))" by (rule Cons.IH)
    then show ?case by simp
  qed simp
  show ?thesis using assms
  proof (induction ls arbitrary: m d e)
    case (Cons l ls)
    have "m + 1 \<le> fst (month_and_day ls (m + 1) x)" for x by (rule first)
    then have "month_and_day ls (m + 1) x \<noteq> (m, y)" for x y by (metis add_le_same_cancel1 fst_conv not_one_le_zero)
    with Cons.prems Cons.IH [of "m + 1" "d - l" "e - l"] show ?case
      by (auto split: if_split_asm) (metis+)
  qed simp
qed

lemma date_form:
  obtains a b c d doy where "0 \<le> b" "b \<le> 3" "0 \<le> c" "c \<le> 24" "0 \<le> d" "d \<le> 3" "0 \<le> doy" "doy \<le> 365"
    "n = 146097 * a + 36524 * b + 1461 * c + 365 * d + doy"
    "date_of_days n = (400 * a + 100 * b + 4 * c + d + 1, month_and_day (month_lengths (d = 3 \<and> (c \<noteq> 24 \<or> b = 3))) 1 doy)"
proof -
  define n400 r400 where "n400 = n div 146097" and "r400 = n mod 146097"
  define n100 r100 where "n100 = r400 div 36524" and "r100 = r400 mod 36524"
  define n4 r4 where "n4 = r100 div 1461" and "r4 = r100 mod 1461"
  define n1 r1 where "n1 = r4 div 365" and "r1 = r4 mod 365"
  have eqs: "n = 146097 * n400 + r400" "r400 = 36524 * n100 + r100" "r100 = 1461 * n4 + r4" "r4 = 365 * n1 + r1"
    by (simp_all add: n400_def r400_def n100_def r100_def n4_def r4_def n1_def r1_def)
  have bounds: "0 \<le> r400" "r400 < 146097" "0 \<le> r100" "r100 < 36524" "0 \<le> r4" "r4 < 1461" "0 \<le> r1" "r1 < 365"
    by (simp_all add: r400_def r100_def r4_def r1_def)
  have digits: "0 \<le> n100" "n100 \<le> 4" "0 \<le> n4" "n4 \<le> 24" "0 \<le> n1" "n1 \<le> 4" using eqs bounds by linarith+
  have date: "date_of_days n = (let year = n400 * 400 + n100 * 100 + n4 * 4 + n1 + 1 in
      if n1 = 4 \<or> n100 = 4 then (year - 1, 12, 31) else (year, month_and_day (month_lengths (n1 = 3 \<and> (n4 \<noteq> 24 \<or> n100 = 3))) 1 r1))"
    by (simp add: date_of_days_def n400_def r400_def n100_def r100_def n4_def r4_def n1_def r1_def Let_def)
  have last_day: "month_and_day (month_lengths True) 1 365 = (12, 31)" by (simp add: month_lengths_def)
  consider "n100 = 4" | "n100 \<noteq> 4" "n1 = 4" | "n100 \<noteq> 4" "n1 \<noteq> 4" by blast
  then show thesis
  proof cases
    case 1
    then have "r100 = 0" "n4 = 0" "n1 = 0" using eqs bounds digits by linarith+
    with 1 show thesis by (intro that [of 3 24 3 365 n400]) (use eqs date last_day in auto)
  next
    case 2
    then have "r1 = 0" "n4 \<noteq> 24 \<or> n100 = 3" using eqs bounds digits by linarith+
    with 2 show thesis by (intro that [of n100 n4 3 365 n400]) (use eqs date last_day digits in auto)
  next
    case 3
    then show thesis by (intro that [of n100 n4 n1 r1 n400]) (use eqs date digits bounds in auto)
  qed
qed

lemma date_of_days_inject: "date_of_days m = date_of_days n \<longleftrightarrow> m = n"
proof
  assume eq: "date_of_days m = date_of_days n"
  from date_form [of m] obtain a b c d x where m: "0 \<le> b" "b \<le> 3" "0 \<le> c" "c \<le> 24" "0 \<le> d" "d \<le> 3" "0 \<le> x" "x \<le> 365"
    "m = 146097 * a + 36524 * b + 1461 * c + 365 * d + x"
    "date_of_days m = (400 * a + 100 * b + 4 * c + d + 1, month_and_day (month_lengths (d = 3 \<and> (c \<noteq> 24 \<or> b = 3))) 1 x)" .
  from date_form [of n] obtain a' b' c' d' y where n: "0 \<le> b'" "b' \<le> 3" "0 \<le> c'" "c' \<le> 24" "0 \<le> d'" "d' \<le> 3" "0 \<le> y" "y \<le> 365"
    "n = 146097 * a' + 36524 * b' + 1461 * c' + 365 * d' + y"
    "date_of_days n = (400 * a' + 100 * b' + 4 * c' + d' + 1, month_and_day (month_lengths (d' = 3 \<and> (c' \<noteq> 24 \<or> b' = 3))) 1 y)" .
  have year: "400 * a + 100 * b + 4 * c + d = 400 * a' + 100 * b' + 4 * c' + d'" using eq m(10) n(10) by simp
  have "a \<le> a'" "a' \<le> a" using year m(1-6) n(1-6) by linarith+
  then have a: "a = a'" by simp
  have "b \<le> b'" "b' \<le> b" using year a m(1-6) n(1-6) by linarith+
  then have b: "b = b'" by simp
  have "c \<le> c'" "c' \<le> c" using year a b m(1-6) n(1-6) by linarith+
  then have same: "a = a'" "b = b'" "c = c'" "d = d'" using year a b by simp_all
  with eq m(10) n(10) have "month_and_day (month_lengths (d = 3 \<and> (c \<noteq> 24 \<or> b = 3))) 1 x = month_and_day (month_lengths (d = 3 \<and> (c \<noteq> 24 \<or> b = 3))) 1 y" by simp
  then have "x = y" using m(7) n(7) by (rule month_and_day_inject)
  with same show "m = n" using m(9) n(9) by simp
qed simp

lemma zero_pad_digits: "0 \<le> i \<Longrightarrow> list_all is_digit (zero_pad w i)"
proof -
  have "is_digit (CHR ''0'')" by (simp add: is_digit_def)
  then show "list_all is_digit (zero_pad w i)" if "0 \<le> i"
    using that by (auto simp: zero_pad_def Let_def show_int_def list_all_iff show_nat_digits)
qed

lemma nat_of_padded: "nat_of_digits (replicate k (CHR ''0'') @ s) = nat_of_digits s"
  by (induction k) (simp_all add: nat_of_digits_def)

lemma zero_pad_inject: "0 \<le> i \<Longrightarrow> 0 \<le> j \<Longrightarrow> zero_pad w i = zero_pad w j \<longleftrightarrow> i = j"
proof
  assume "0 \<le> i" "0 \<le> j" "zero_pad w i = zero_pad w j"
  then have "nat_of_digits (zero_pad w i) = nat_of_digits (zero_pad w j)" by simp
  then show "i = j" using \<open>0 \<le> i\<close> \<open>0 \<le> j\<close> by (simp add: zero_pad_def Let_def show_int_def nat_of_padded)
qed simp

lemma month_and_day_bounds: "m \<le> fst (month_and_day ls m d)" "0 \<le> d \<Longrightarrow> 0 \<le> snd (month_and_day ls m d)"
proof (induction ls arbitrary: m d)
  case (Cons l ls)
  { case 1 show ?case using Cons(1) [of "m + 1" "d - l"] by simp }
  { case 2 then show ?case using Cons(2) [of "d - l" "m + 1"] by simp }
qed simp_all

lemma date_nonneg:
  assumes "0 \<le> n"
  shows "0 \<le> fst (date_of_days n)" "0 \<le> fst (snd (date_of_days n))" "0 \<le> snd (snd (date_of_days n))"
proof -
  from date_form [of n] obtain a b c d x where m: "0 \<le> b" "b \<le> 3" "0 \<le> c" "c \<le> 24" "0 \<le> d" "d \<le> 3" "0 \<le> x" "x \<le> 365"
    "n = 146097 * a + 36524 * b + 1461 * c + 365 * d + x"
    "date_of_days n = (400 * a + 100 * b + 4 * c + d + 1, month_and_day (month_lengths (d = 3 \<and> (c \<noteq> 24 \<or> b = 3))) 1 x)" .
  have "0 \<le> a" using assms m(1-9) by linarith
  with m month_and_day_bounds [where ls = "month_lengths (d = 3 \<and> (c \<noteq> 24 \<or> b = 3))" and m = 1 and d = x]
  show "0 \<le> fst (date_of_days n)" "0 \<le> fst (snd (date_of_days n))" "0 \<le> snd (snd (date_of_days n))" by auto
qed

text \<open>The text of an instant determines it.\<close>

lemma isoformat_utc_inject:
  assumes "0 \<le> t" "0 \<le> u"
  shows "isoformat_utc t = isoformat_utc u \<longleftrightarrow> t = u"
proof
  assume eq: "isoformat_utc t = isoformat_utc u"
  define us s f where "us = (\<lambda>t :: int. t mod micros_per_day)" and "s = (\<lambda>t. us t div 1000000)" and "f = (\<lambda>t. us t mod 1000000)"
  have nonneg: "0 \<le> us t" "0 \<le> s t" "0 \<le> f t" for t
    by (simp_all add: us_def s_def f_def pos_imp_zdiv_nonneg_iff)
  obtain y m d where date: "date_of_days (t div micros_per_day) = (y, m, d)" by (cases "date_of_days (t div micros_per_day)")
  obtain y' m' d' where date': "date_of_days (u div micros_per_day) = (y', m', d')" by (cases "date_of_days (u div micros_per_day)")
  have pos: "0 \<le> y" "0 \<le> m" "0 \<le> d" "0 \<le> y'" "0 \<le> m'" "0 \<le> d'"
    using date_nonneg [of "t div micros_per_day"] date_nonneg [of "u div micros_per_day"] assms date date' by (auto simp: pos_imp_zdiv_nonneg_iff)
  have parts: "0 \<le> s t div 3600" "0 \<le> s t div 60 mod 60" "0 \<le> s t mod 60" for t using nonneg [of t] by (simp_all add: pos_imp_zdiv_nonneg_iff)
  have sep: "\<not> is_digit (CHR ''-'')" "\<not> is_digit (CHR ''T'')" "\<not> is_digit (CHR '':'')" "\<not> is_digit (CHR ''.'')" "\<not> is_digit (CHR ''+'')"
    by (simp_all add: is_digit_def)
  have iso_t: "isoformat_utc t = zero_pad 4 y @ CHR ''-'' # zero_pad 2 m @ CHR ''-'' # zero_pad 2 d @ CHR ''T'' # zero_pad 2 (s t div 3600) @ CHR '':'' #
      zero_pad 2 (s t div 60 mod 60) @ CHR '':'' # zero_pad 2 (s t mod 60) @ (if f t = 0 then CHR ''+'' # ''00:00'' else CHR ''.'' # zero_pad 6 (f t) @ CHR ''+'' # ''00:00'')"
    by (simp add: isoformat_utc_def date us_def s_def f_def Let_def)
  have iso_u: "isoformat_utc u = zero_pad 4 y' @ CHR ''-'' # zero_pad 2 m' @ CHR ''-'' # zero_pad 2 d' @ CHR ''T'' # zero_pad 2 (s u div 3600) @ CHR '':'' #
      zero_pad 2 (s u div 60 mod 60) @ CHR '':'' # zero_pad 2 (s u mod 60) @ (if f u = 0 then CHR ''+'' # ''00:00'' else CHR ''.'' # zero_pad 6 (f u) @ CHR ''+'' # ''00:00'')"
    by (simp add: isoformat_utc_def date' us_def s_def f_def Let_def)
  note cut = split_at_nondigit [OF zero_pad_digits zero_pad_digits] zero_pad_inject
  have same: "y = y'" "m = m'" "d = d'" "s t div 3600 = s u div 3600" "s t div 60 mod 60 = s u div 60 mod 60" "s t mod 60 = s u mod 60" "f t = f u"
    using eq unfolding iso_t iso_u by (auto simp: cut pos parts sep nonneg split: if_split_asm)
  have days: "t div micros_per_day = u div micros_per_day" using date date' same(1-3) date_of_days_inject by metis
  have hms: "s v = 3600 * (s v div 3600) + 60 * (s v div 60 mod 60) + s v mod 60" for v
  proof -
    have "s v div 60 div 60 = s v div 3600" by (simp add: zdiv_zmult2_eq [symmetric])
    then have "s v div 60 = 60 * (s v div 3600) + s v div 60 mod 60" by (metis mult_div_mod_eq)
    moreover have "s v = 60 * (s v div 60) + s v mod 60" by simp
    ultimately show ?thesis by linarith
  qed
  have "s t = s u" using hms [of t] hms [of u] same(4-6) by linarith
  moreover have "us v = 1000000 * s v + f v" for v by (simp add: s_def f_def)
  ultimately have "us t = us u" using same(7) by simp
  then show "t = u" using days by (metis us_def mult_div_mod_eq)
qed simp

lemma isoformat_z_inject:
  assumes "0 \<le> t" "0 \<le> u"
  shows "isoformat_z t = isoformat_z u \<longleftrightarrow> t = u"
proof
  assume eq: "isoformat_z t = isoformat_z u"
  have "\<exists>p. isoformat_utc v = p @ ''+00:00''" for v
  proof -
    obtain y m d where date: "date_of_days (v div micros_per_day) = (y, m, d)" by (cases "date_of_days (v div micros_per_day)")
    show ?thesis unfolding isoformat_utc_def date Let_def prod.case append_assoc [symmetric] by (intro exI) (rule refl)
  qed
  then obtain p q where "isoformat_utc t = p @ ''+00:00''" "isoformat_utc u = q @ ''+00:00''" by metis
  with eq have "isoformat_utc t = isoformat_utc u" by (simp add: isoformat_z_def)
  then show "t = u" using isoformat_utc_inject [OF assms] by simp
qed simp

end
