(* ===== verification/Ets_Events.thy ===== *)
theory Ets_Events
  imports Ets_Merkle Ets_Pytime Ets_Text
begin

text \<open>
  Evidence events (\<^verbatim>\<open>ets/core/models.py\<close>) and the redaction profiles (\<^verbatim>\<open>ets/core/redaction.py\<close>).

  \<open>evidence_event_args\<close> is what a caller passes to the \<^verbatim>\<open>EvidenceEvent\<close> constructor, \<open>evidence_event\<close>
  the validated, frozen model. A \<^verbatim>\<open>ValueError\<close> of a field validator is collected by pydantic into a
  \<^verbatim>\<open>ValidationError\<close>; \<^verbatim>\<open>CanonicalJSONError\<close> is a \<^verbatim>\<open>TypeError\<close> and leaves the constructor as it is.
  The text pydantic prints for a datetime in \<^verbatim>\<open>model_dump(mode="json")\<close> is the parameter \<open>dt\<close> of the
  operations that dump a model.
\<close>

section \<open>The event model\<close>

record evidence_event_args =
  arg_event_id :: string
  arg_tenant_id :: string
  arg_workspace_id :: string
  arg_evidence_id :: string
  arg_event_type :: string
  arg_subject_ref :: "string option"
  arg_content_hash :: string
  arg_content_hash_alg :: string
  arg_metadata :: "(string \<times> pyval) list"
  arg_created_at_utc :: datetime
  arg_schema_version :: string
  arg_source_system :: "string option"
  arg_actor_id :: "string option"
  arg_correlation_id :: "string option"
  arg_external_refs :: "(string \<times> pyval) list option"
  arg_redaction_profile :: "string option"

record evidence_event =
  ev_event_id :: string
  ev_tenant_id :: string
  ev_workspace_id :: string
  ev_evidence_id :: string
  ev_event_type :: string
  ev_subject_ref :: "string option"
  ev_content_hash :: string
  ev_content_hash_alg :: string
  ev_metadata :: "(string \<times> json) list"
  ev_created_at_utc :: utc
  ev_schema_version :: string
  ev_source_system :: "string option"
  ev_actor_id :: "string option"
  ev_correlation_id :: "string option"
  ev_external_refs :: "(string \<times> json) list option"
  ev_redaction_profile :: "string option"

text \<open>\<^verbatim>\<open>Field(min_length=lo, max_length=hi)\<close>.\<close>

definition field_length :: "nat \<Rightarrow> nat \<Rightarrow> string \<Rightarrow> bool" where
  "field_length lo hi s \<longleftrightarrow> lo \<le> length s \<and> length s \<le> hi"

definition event_invalid :: exn where
  "event_invalid = ValidationError ''EvidenceEvent''"

text \<open>
  \<^verbatim>\<open>require_json_native_mapping\<close>: the encoding must exist, and whether it fits in 64 KB. The
  items are returned in the form the later dumps give them.
\<close>

definition require_json_native_mapping :: "(string \<times> pyval) list \<Rightarrow> ((string \<times> json) list \<times> bool) result" where
  "require_json_native_mapping value =
     rbind (rmap (\<lambda>(k, v). rbind (normalize_json_value v) (\<lambda>j. Inr (k, j))) value) (\<lambda>items.
     rbind (canonicalize (PyDict (map (\<lambda>(k, v). (PyStr k, v)) value))) (\<lambda>encoded.
     Inr (items, length encoded \<le> 64 * 1024)))"

definition require_optional_mapping ::
  "(string \<times> pyval) list option \<Rightarrow> ((string \<times> json) list option \<times> bool) result" where
  "require_optional_mapping value =
     (case value of None \<Rightarrow> Inr (None, True)
      | Some v \<Rightarrow> rbind (require_json_native_mapping v) (\<lambda>(items, fits). Inr (Some items, fits)))"

definition EvidenceEvent :: "evidence_event_args \<Rightarrow> evidence_event result" where
  "EvidenceEvent a =
     rbind (require_json_native_mapping (arg_metadata a)) (\<lambda>(metadata, metadata_fits).
     rbind (require_optional_mapping (arg_external_refs a)) (\<lambda>(external_refs, refs_fit).
     rbind (rcheck (list_all (field_length 1 128)
         [arg_event_id a, arg_tenant_id a, arg_workspace_id a, arg_evidence_id a, arg_event_type a]) event_invalid) (\<lambda>_.
     rbind (rcheck (field_length 64 64 (arg_content_hash a)) event_invalid) (\<lambda>_.
     rbind (rcheck (fromhex_opt (arg_content_hash a) \<noteq> None) event_invalid) (\<lambda>_.
     rbind (rcheck (arg_content_hash_alg a = ''sha256'') event_invalid) (\<lambda>_.
     rbind (rcheck (metadata_fits \<and> refs_fit) event_invalid) (\<lambda>_.
     rbind (utc_or_raise event_invalid (arg_created_at_utc a)) (\<lambda>created_at_utc.
     Inr \<lparr> ev_event_id = arg_event_id a, ev_tenant_id = arg_tenant_id a,
       ev_workspace_id = arg_workspace_id a, ev_evidence_id = arg_evidence_id a,
       ev_event_type = arg_event_type a, ev_subject_ref = arg_subject_ref a,
       ev_content_hash = arg_content_hash a, ev_content_hash_alg = arg_content_hash_alg a,
       ev_metadata = metadata, ev_created_at_utc = created_at_utc,
       ev_schema_version = arg_schema_version a, ev_source_system = arg_source_system a,
       ev_actor_id = arg_actor_id a, ev_correlation_id = arg_correlation_id a,
       ev_external_refs = external_refs, ev_redaction_profile = arg_redaction_profile a \<rparr>))))))))"

definition JOpt :: "string option \<Rightarrow> json" where
  "JOpt x = (case x of None \<Rightarrow> JNull | Some s \<Rightarrow> JStr s)"

definition hashable_payload :: "(utc \<Rightarrow> string) \<Rightarrow> evidence_event \<Rightarrow> json" where
  "hashable_payload dt e = JObj
     [(''event_id'', JStr (ev_event_id e)),
      (''tenant_id'', JStr (ev_tenant_id e)),
      (''workspace_id'', JStr (ev_workspace_id e)),
      (''evidence_id'', JStr (ev_evidence_id e)),
      (''event_type'', JStr (ev_event_type e)),
      (''subject_ref'', JOpt (ev_subject_ref e)),
      (''content_hash'', JStr (ev_content_hash e)),
      (''content_hash_alg'', JStr (ev_content_hash_alg e)),
      (''metadata'', JObj (ev_metadata e)),
      (''created_at_utc'', JStr (dt (ev_created_at_utc e))),
      (''schema_version'', JStr (ev_schema_version e)),
      (''source_system'', JOpt (ev_source_system e)),
      (''actor_id'', JOpt (ev_actor_id e)),
      (''correlation_id'', JOpt (ev_correlation_id e)),
      (''external_refs'', (case ev_external_refs e of None \<Rightarrow> JNull | Some r \<Rightarrow> JObj r)),
      (''redaction_profile'', JOpt (ev_redaction_profile e))]"

text \<open>What the constructor guarantees of every event.\<close>

definition event_ok :: "evidence_event \<Rightarrow> bool" where
  "event_ok e \<longleftrightarrow>
     list_all (field_length 1 128) [ev_event_id e, ev_tenant_id e, ev_workspace_id e, ev_evidence_id e, ev_event_type e] \<and>
     hex64 (ev_content_hash e) \<and> ev_content_hash_alg e = ''sha256'' \<and>
     length (canon (JObj (ev_metadata e))) \<le> 64 * 1024 \<and>
     (case ev_external_refs e of None \<Rightarrow> True | Some r \<Rightarrow> length (canon (JObj r)) \<le> 64 * 1024)"

section \<open>Redaction\<close>

definition redaction_marker :: string where
  "redaction_marker = ''[REDACTED]''"

definition supported_redaction_profiles :: "string list" where
  "supported_redaction_profiles = [''none'', ''basic_pii'', ''strict'']"

definition connector_passthrough_redaction_bindings :: "(string \<times> string) list" where
  "connector_passthrough_redaction_bindings =
     [(''microsoft.sharepoint.onedrive_delta'', ''microsoft_sharepoint_metadata_v1''),
      (''microsoft.entra.directory_delta'', ''microsoft_entra_directory_metadata_v1''),
      (''microsoft.purview.activity'', ''microsoft_purview_common_schema_v1'')]"

definition basic_pii_keys :: "string list" where
  "basic_pii_keys = [''access_token'', ''api_key'', ''email'', ''password'', ''phone'',
     ''refresh_token'', ''secret'', ''ssn'', ''token'']"

definition is_sensitive_key :: "string \<Rightarrow> string \<Rightarrow> bool" where
  "is_sensitive_key key profile =
     (let normalized = lower key in
      if profile = ''basic_pii'' then normalized \<in> set basic_pii_keys
      else normalized \<in> set basic_pii_keys \<or> list_ex (\<lambda>part. contains part normalized) basic_pii_keys)"

fun redact_value :: "json \<Rightarrow> string \<Rightarrow> json" where
  "redact_value (JObj kvs) profile =
     JObj (map (\<lambda>(key, item). (key, if is_sensitive_key key profile then JStr redaction_marker
                                   else redact_value item profile)) kvs)"
| "redact_value (JList xs) profile = JList (map (\<lambda>x. redact_value x profile) xs)"
| "redact_value v profile = v"

definition redact_metadata :: "(string \<times> json) list \<Rightarrow> string \<Rightarrow> (string \<times> json) list" where
  "redact_metadata metadata profile =
     map (\<lambda>(key, item). (key, if is_sensitive_key key profile then JStr redaction_marker
                             else redact_value item profile)) metadata"

definition effective_profile :: "evidence_event \<Rightarrow> string \<Rightarrow> string" where
  "effective_profile e default_profile =
     (case ev_redaction_profile e of None \<Rightarrow> default_profile
      | Some p \<Rightarrow> if p = [] then default_profile else p)"

definition passthrough :: "string option \<Rightarrow> string \<Rightarrow> bool" where
  "passthrough source_system profile =
     (case source_system of None \<Rightarrow> False
      | Some s \<Rightarrow> (s, profile) \<in> set connector_passthrough_redaction_bindings)"

definition apply_redaction_profile :: "evidence_event \<Rightarrow> string \<Rightarrow> evidence_event result" where
  "apply_redaction_profile e default_profile =
     (let profile = effective_profile e default_profile in
      if passthrough (ev_source_system e) profile then Inr e
      else if profile \<notin> set supported_redaction_profiles
      then Inl (ValueError (''unsupported redaction profile: '' @ profile))
      else if profile = ''none'' then
        (if ev_redaction_profile e = Some ''none'' then Inr e
         else Inr (e \<lparr> ev_redaction_profile := Some ''none'' \<rparr>))
      else Inr (e \<lparr> ev_metadata := redact_metadata (ev_metadata e) profile,
                    ev_redaction_profile := Some profile \<rparr>))"

text \<open>No sensitive key, at any depth, holds anything but the marker.\<close>

fun redacted :: "string \<Rightarrow> json \<Rightarrow> bool" where
  "redacted profile (JObj kvs) \<longleftrightarrow>
     list_all (\<lambda>(key, item). if is_sensitive_key key profile then item = JStr redaction_marker
                             else redacted profile item) kvs"
| "redacted profile (JList xs) \<longleftrightarrow> list_all (redacted profile) xs"
| "redacted profile v \<longleftrightarrow> True"

section \<open>Lemmas\<close>

lemma canonicalize_mapping:
  assumes "rmap (\<lambda>(k, v). rbind (normalize_json_value v) (\<lambda>j. Inr (k, j))) kvs = Inr items"
  shows "canonicalize (PyDict (map (\<lambda>(k, v). (PyStr k, v)) kvs)) = Inr (canon (JObj items))"
proof -
  have "rmap normalize_item (map (\<lambda>(k, v). (PyStr k, v)) kvs) = Inr items"
    using assms by (induction kvs arbitrary: items) (auto simp: json_key_def case_prod_unfold)
  then show ?thesis by (simp add: canonicalize_def)
qed

lemma require_json_native_mapping_ok:
  "require_json_native_mapping value = Inr (items, fits) \<Longrightarrow> fits \<longleftrightarrow> length (canon (JObj items)) \<le> 64 * 1024"
  by (auto simp: require_json_native_mapping_def canonicalize_mapping)

lemma EvidenceEvent_ok: "EvidenceEvent a = Inr e \<Longrightarrow> event_ok e"
  by (auto simp: EvidenceEvent_def event_ok_def require_optional_mapping_def field_length_def hex64_def
      fromhex_def split: option.splits dest: require_json_native_mapping_ok)

lemma hashable_payload_ok:
  assumes "json_ok (JObj (ev_metadata e))" "\<And>r. ev_external_refs e = Some r \<Longrightarrow> json_ok (JObj r)"
  shows "json_ok (hashable_payload dt e)"
  using assms by (auto simp: hashable_payload_def JOpt_def split: option.splits)

lemma redact_value_redacted: "redacted profile (redact_value v profile)"
  by (induction v rule: json_induct) (auto simp: list_all_iff)

lemma redact_value_id: "redacted profile v \<Longrightarrow> redact_value v profile = v"
proof (induction v rule: json_induct)
  case (JList xs)
  then show ?case by (auto simp: list_all_iff intro: map_idI)
next
  case (JObj kvs)
  then show ?case by (fastforce simp: list_all_iff intro!: map_idI split: if_splits)
qed simp_all

lemma redact_metadata_value: "JObj (redact_metadata kvs profile) = redact_value (JObj kvs) profile"
  by (simp add: redact_metadata_def)

lemma redact_metadata_keys [simp]: "map fst (redact_metadata kvs profile) = map fst kvs"
  by (auto simp: redact_metadata_def)

lemma redact_metadata_idem: "redact_metadata (redact_metadata kvs profile) profile = redact_metadata kvs profile"
  using redact_value_id [OF redact_value_redacted, of "JObj kvs" profile]
  by (metis json.inject(6) redact_metadata_value)

lemma json_ok_redact_value: "json_ok v \<Longrightarrow> json_ok (redact_value v profile)"
  by (induction v rule: json_induct) (auto simp: list_all_iff comp_def case_prod_unfold)

lemma EvidenceEvent_raises:
  assumes "EvidenceEvent a = Inl err"
  shows "err = event_invalid \<or> (\<exists>msg. err = CanonicalJSONError msg)"
proof -
  have map: "require_json_native_mapping v = Inl err \<Longrightarrow> \<exists>msg. err = CanonicalJSONError msg" for v
    by (auto simp: require_json_native_mapping_def rbind_eq_Inl canonicalize_mapping normalize_raises dest!: rmap_eq_InlD)
  have opt: "require_optional_mapping v = Inl err \<Longrightarrow> \<exists>msg. err = CanonicalJSONError msg" for v
    using map by (auto simp: require_optional_mapping_def rbind_eq_Inl split: option.splits)
  from assms show ?thesis
    by (auto simp: EvidenceEvent_def rbind_eq_Inl utc_or_raise_def split: datetime.splits prod.splits dest: map opt)
qed

lemma JOpt_inject [simp]: "JOpt a = JOpt b \<longleftrightarrow> a = b" "jnorm (JOpt a) = JOpt a"
  by (auto simp: JOpt_def split: option.splits)

text \<open>Two events with the same content, as far as the dumped payload shows it.\<close>

definition same_content :: "(utc \<Rightarrow> string) \<Rightarrow> evidence_event \<Rightarrow> evidence_event \<Rightarrow> bool" where
  "same_content dt e f \<longleftrightarrow>
     f = e \<lparr> ev_metadata := ev_metadata f, ev_external_refs := ev_external_refs f,
             ev_created_at_utc := ev_created_at_utc f \<rparr> \<and>
     dt (ev_created_at_utc e) = dt (ev_created_at_utc f) \<and>
     jnorm (JObj (ev_metadata e)) = jnorm (JObj (ev_metadata f)) \<and>
     map_option (jnorm \<circ> JObj) (ev_external_refs e) = map_option (jnorm \<circ> JObj) (ev_external_refs f)"

lemma jnorm_JObj_not_null: "jnorm (JObj kvs) \<noteq> JNull"
  by simp

lemma hashable_payload_inject:
  assumes "jnorm (hashable_payload dt e) = jnorm (hashable_payload dt f)"
  shows "same_content dt e f"
proof -
  have "map (jnorm \<circ> snd) (case hashable_payload dt e of JObj kvs \<Rightarrow> kvs) =
        map (jnorm \<circ> snd) (case hashable_payload dt f of JObj kvs \<Rightarrow> kvs)"
    using assms unfolding hashable_payload_def
    by (simp only: json.case) (rule jnorm_JObj_values, simp_all)
  then show ?thesis
    by (simp add: hashable_payload_def same_content_def del: jnorm.simps(2) split: option.splits)
      (auto simp: jnorm_JObj_not_null jnorm_JObj_not_null [symmetric] simp del: jnorm.simps(2))
qed

section \<open>Properties\<close>


text \<open>
  C4. The event hash commits to the event: two events with equal canonical digests of their
  hashable payloads agree on every field (metadata and references up to key order, the timestamp
  as printed), or the canonical bytes are a SHA-256 collision.
\<close>

theorem event_hash_binds_event:
  assumes "json_ok (hashable_payload dt e)" "json_ok (hashable_payload dt f)"
    and "canonical_sha256 (py_of_json (hashable_payload dt e)) = canonical_sha256 (py_of_json (hashable_payload dt f))"
  shows "same_content dt e f \<or> sha256_collision (canon (hashable_payload dt e), canon (hashable_payload dt f))"
proof -
  from assms(3) have "canon_sha256 (hashable_payload dt e) = canon_sha256 (hashable_payload dt f)"
    by (simp add: canonical_sha256_native)
  with canon_sha256_eq_iff [OF assms(1,2)] hashable_payload_inject show ?thesis by blast
qed

definition sample_event :: evidence_event where
  "sample_event = \<lparr> ev_event_id = ''e-1'', ev_tenant_id = ''t'', ev_workspace_id = ''w'', ev_evidence_id = ''x'',
     ev_event_type = ''created'', ev_subject_ref = None, ev_content_hash = sha256_hex [], ev_content_hash_alg = ''sha256'',
     ev_metadata = [(''a'', JObj [(''Email'', JStr ''u@x''), (''n'', JInt 1)]), (''user_password_hint'', JStr ''cat'')],
     ev_created_at_utc = 0, ev_schema_version = ''ets.event.v1'', ev_source_system = Some ''crm'', ev_actor_id = None,
     ev_correlation_id = None, ev_external_refs = None, ev_redaction_profile = Some ''basic_pii'' \<rparr>"

theorem event_hash_binds_event_witness:
  "same_content isoformat_z sample_event (sample_event \<lparr> ev_metadata := rev (ev_metadata sample_event) \<rparr>) \<or>
   sha256_collision (canon (hashable_payload isoformat_z sample_event),
     canon (hashable_payload isoformat_z (sample_event \<lparr> ev_metadata := rev (ev_metadata sample_event) \<rparr>)))"
proof (rule event_hash_binds_event)
  let ?f = "sample_event \<lparr> ev_metadata := rev (ev_metadata sample_event) \<rparr>"
  show e: "json_ok (hashable_payload isoformat_z sample_event)"
    and f: "json_ok (hashable_payload isoformat_z ?f)"
    by (simp_all add: hashable_payload_def sample_event_def JOpt_def)
  have "jnorm (JObj (ev_metadata sample_event)) = jnorm (JObj (ev_metadata ?f))"
    by (rule jnorm_perm) (simp_all add: sample_event_def)
  then have "jnorm (hashable_payload isoformat_z sample_event) = jnorm (hashable_payload isoformat_z ?f)"
    unfolding hashable_payload_def by (simp only: jnorm.simps(2) list.map prod.case) (simp add: sample_event_def)
  then show "canonical_sha256 (py_of_json (hashable_payload isoformat_z sample_event)) =
      canonical_sha256 (py_of_json (hashable_payload isoformat_z ?f))"
    using canon_sha256_eq_iff [OF e f] by (simp add: canonical_sha256_native del: jnorm.simps)
qed



text \<open>
  Redaction is idempotent, so replaying an ingested event through the same gateway does not
  change its bytes: applying the profile to an already processed event returns that event.
\<close>

theorem redaction_idempotent:
  "case apply_redaction_profile e d of
     Inr e' \<Rightarrow> apply_redaction_profile e' d = Inr e'
   | Inl err \<Rightarrow> err = ValueError (''unsupported redaction profile: '' @ effective_profile e d)"
proof (cases "passthrough (ev_source_system e) (effective_profile e d)")
  case True
  then show ?thesis by (simp add: apply_redaction_profile_def Let_def)
next
  case False
  show ?thesis
  proof (cases "effective_profile e d \<in> set supported_redaction_profiles")
    case sup: True
    then have "effective_profile e d \<noteq> []" by (auto simp: supported_redaction_profiles_def)
    then have eff: "effective_profile (e \<lparr> ev_metadata := m, ev_redaction_profile := Some (effective_profile e d) \<rparr>) d
        = effective_profile e d" for m
      by (simp add: effective_profile_def)
    have none: "effective_profile (e \<lparr> ev_redaction_profile := Some ''none'' \<rparr>) d = ''none''"
      by (simp add: effective_profile_def)
    have "''none'' \<in> set supported_redaction_profiles"
      by (simp add: supported_redaction_profiles_def)
    with False sup eff none show ?thesis
      by (simp add: apply_redaction_profile_def Let_def redact_metadata_idem)
  qed (use False in \<open>simp add: apply_redaction_profile_def Let_def\<close>)
qed

end
