(* ===== verification/Ets_Log.thy ===== *)
theory Ets_Log
  imports Ets_Events
begin

text \<open>
  The append-only log: the contract of \<^verbatim>\<open>AppendOnlyLog\<close> (\<^verbatim>\<open>ets/core/log.py\<close>) and \<^verbatim>\<open>EventStore\<close>
  (\<^verbatim>\<open>ets/core/storage.py\<close>) as the locale \<open>event_store\<close>, and the in-memory provider
  \<^verbatim>\<open>InMemoryAppendOnlyLog\<close> as its first interpretation (\<open>mem\<close>).

  A provider is a state type with \<open>append\<close>, \<open>get_by_index\<close>, \<open>get_by_event_id\<close> and \<open>list_entries\<close>; an operation that
  raises leaves the state as it was. What a client may rely on is proved once inside the locale:
  entries are dense, hashed and unique, histories only grow, and a lookup that has succeeded keeps
  returning the same entry.
\<close>

section \<open>Entries\<close>

record log_entry =
  le_log_index :: int
  le_event :: evidence_event
  le_event_hash :: string
  le_leaf_hash :: string

definition event_hash_of :: "(utc \<Rightarrow> string) \<Rightarrow> evidence_event \<Rightarrow> string" where
  "event_hash_of dt e = canon_sha256 (hashable_payload dt e)"

definition leaf_hash_of :: "(utc \<Rightarrow> string) \<Rightarrow> evidence_event \<Rightarrow> string" where
  "leaf_hash_of dt e = hexlify (leaf_digest (unhex (event_hash_of dt e)))"

definition entry_for :: "(utc \<Rightarrow> string) \<Rightarrow> nat \<Rightarrow> evidence_event \<Rightarrow> log_entry" where
  "entry_for dt n e =
     \<lparr> le_log_index = int n, le_event = e, le_event_hash = event_hash_of dt e, le_leaf_hash = leaf_hash_of dt e \<rparr>"

abbreviation le_event_id :: "log_entry \<Rightarrow> string" where
  "le_event_id en \<equiv> ev_event_id (le_event en)"

text \<open>The abstract content of a log: the events in the order of their appends.\<close>

definition entries_of :: "(utc \<Rightarrow> string) \<Rightarrow> evidence_event list \<Rightarrow> log_entry list" where
  "entries_of dt es = map (\<lambda>(n, e). entry_for dt n e) (enumerate 0 es)"

lemma hex64_event_hash_of [simp]: "hex64 (event_hash_of dt e)" "hex64 (leaf_hash_of dt e)"
  by (simp_all add: event_hash_of_def leaf_hash_of_def)

lemma leaf_hash_for_event_hash_of [simp]:
  "leaf_hash_for_event_hash (event_hash_of dt e) = Inr (leaf_hash_of dt e)"
  by (simp add: leaf_hash_for_event_hash_eq_Inr leaf_hash_of_def)

lemma entry_for_simps [simp]:
  "le_log_index (entry_for dt n e) = int n" "le_event (entry_for dt n e) = e"
  "le_event_hash (entry_for dt n e) = event_hash_of dt e" "le_leaf_hash (entry_for dt n e) = leaf_hash_of dt e"
  by (simp_all add: entry_for_def)

lemma entries_of_Nil [simp]: "entries_of dt [] = []"
  by (simp add: entries_of_def)

lemma length_entries_of [simp]: "length (entries_of dt es) = length es"
  by (simp add: entries_of_def)

lemma nth_entries_of [simp]: "i < length es \<Longrightarrow> entries_of dt es ! i = entry_for dt i (es ! i)"
  by (simp add: entries_of_def nth_enumerate_eq)

lemma entries_of_snoc: "entries_of dt (es @ [e]) = entries_of dt es @ [entry_for dt (length es) e]"
  by (simp add: entries_of_def enumerate_append_eq)

lemma entries_of_append: "\<exists>ys. entries_of dt (xs @ zs) = entries_of dt xs @ ys \<and> length ys = length zs"
  by (simp add: entries_of_def enumerate_append_eq)

lemma map_event_entries_of [simp]: "map le_event (entries_of dt es) = es"
  by (intro nth_equalityI) auto

lemma map_leaf_hash_entries_of: "map le_leaf_hash (entries_of dt es) = map (leaf_hash_of dt) es"
  by (intro nth_equalityI) auto

lemma map_event_hash_entries_of: "map le_event_hash (entries_of dt es) = map (event_hash_of dt) es"
  by (intro nth_equalityI) auto

section \<open>The contract of a provider\<close>

definition duplicate_error :: "string \<Rightarrow> exn" where
  "duplicate_error event_id = DuplicateEventError (''event_id already exists: '' @ event_id)"

definition id_not_found :: "string \<Rightarrow> exn" where
  "id_not_found event_id = EventNotFoundError (''event_id not found: '' @ event_id)"

definition index_not_found :: "int \<Rightarrow> exn" where
  "index_not_found index = EventNotFoundError (''log index not found: '' @ show_int index)"

text \<open>
  A client that submits events one after the other and goes on after a rejected one; and what the
  submissions come to: the first event of every identifier.
\<close>

definition submit :: "('s \<Rightarrow> evidence_event \<Rightarrow> (log_entry \<times> 's) result) \<Rightarrow> 's \<Rightarrow> evidence_event \<Rightarrow> 's" where
  "submit append_op s e = (case append_op s e of Inl _ \<Rightarrow> s | Inr (_, s') \<Rightarrow> s')"

definition submit_all :: "('s \<Rightarrow> evidence_event \<Rightarrow> (log_entry \<times> 's) result) \<Rightarrow> 's \<Rightarrow> evidence_event list \<Rightarrow> 's" where
  "submit_all append_op s es = foldl (submit append_op) s es"

definition accept :: "evidence_event list \<Rightarrow> evidence_event \<Rightarrow> evidence_event list" where
  "accept h e = (if ev_event_id e \<in> ev_event_id ` set h then h else h @ [e])"

definition accepted :: "evidence_event list \<Rightarrow> evidence_event list" where
  "accepted es = foldl accept [] es"

lemma accept_prefix: "\<exists>zs. foldl accept h es = h @ zs"
proof (induction es arbitrary: h)
  case (Cons e es)
  from Cons [of "accept h e"] show ?case by (auto simp: accept_def)
qed simp

lemma accept_distinct: "distinct (map ev_event_id h) \<Longrightarrow> distinct (map ev_event_id (foldl accept h es))"
  by (induction es arbitrary: h) (auto simp: accept_def)

lemma accept_ids: "ev_event_id ` set (foldl accept h es) = ev_event_id ` set h \<union> ev_event_id ` set es"
  by (induction es arbitrary: h) (auto simp: accept_def)

lemma accepted_distinct: "distinct (map ev_event_id (accepted es))"
  by (simp add: accepted_def accept_distinct)

lemma accepted_ids: "ev_event_id ` set (accepted es) = ev_event_id ` set es"
  by (simp add: accepted_def accept_ids)

lemma accepted_append: "\<exists>zs. accepted (es @ fs) = accepted es @ zs"
  using accept_prefix [of "accepted es" fs] by (simp add: accepted_def)

text \<open>
  \<open>history\<close> is the abstraction function of a provider: the events its state stands for. \<open>inv\<close> is
  the provider's invariant.
\<close>

locale event_store =
  fixes dt :: "utc \<Rightarrow> string"
    and append_op :: "'s \<Rightarrow> evidence_event \<Rightarrow> (log_entry \<times> 's) result"
    and by_index :: "'s \<Rightarrow> int \<Rightarrow> log_entry result"
    and by_id :: "'s \<Rightarrow> string \<Rightarrow> log_entry result"
    and listing :: "'s \<Rightarrow> log_entry list result"
    and start :: 's
    and inv :: "'s \<Rightarrow> bool"
    and admissible :: "evidence_event \<Rightarrow> bool"
    and history :: "'s \<Rightarrow> evidence_event list"
  assumes inv_start: "inv start" and history_start: "history start = []"
    and append_fresh: "\<lbrakk>inv s; admissible e; ev_event_id e \<notin> ev_event_id ` set (history s)\<rbrakk> \<Longrightarrow>
      \<exists>s'. append_op s e = Inr (entry_for dt (length (history s)) e, s') \<and> inv s' \<and> history s' = history s @ [e]"
    and append_duplicate: "\<lbrakk>inv s; admissible e; ev_event_id e \<in> ev_event_id ` set (history s)\<rbrakk> \<Longrightarrow>
      append_op s e = Inl (duplicate_error (ev_event_id e))"
    and listing_history: "inv s \<Longrightarrow> listing s = Inr (entries_of dt (history s))"
    and by_index_found: "\<lbrakk>inv s; n < length (history s)\<rbrakk> \<Longrightarrow> by_index s (int n) = Inr (entry_for dt n (history s ! n))"
    and by_index_missing: "\<lbrakk>inv s; length (history s) \<le> n\<rbrakk> \<Longrightarrow> by_index s (int n) = Inl (index_not_found (int n))"
    and by_id_found: "\<lbrakk>inv s; n < length (history s)\<rbrakk> \<Longrightarrow>
      by_id s (ev_event_id (history s ! n)) = Inr (entry_for dt n (history s ! n))"
    and by_id_missing: "\<lbrakk>inv s; i \<notin> ev_event_id ` set (history s)\<rbrakk> \<Longrightarrow> by_id s i = Inl (id_not_found i)"
begin

lemma submit_accept:
  assumes "inv s" "admissible e"
  shows "inv (submit append_op s e) \<and> history (submit append_op s e) = accept (history s) e"
proof (cases "ev_event_id e \<in> ev_event_id ` set (history s)")
  case True
  with append_duplicate [OF assms True] assms show ?thesis by (simp add: submit_def accept_def)
next
  case False
  with append_fresh [OF assms False] show ?thesis by (auto simp: submit_def accept_def)
qed

lemma submit_all_accept:
  assumes "inv s" "\<forall>e \<in> set es. admissible e"
  shows "inv (submit_all append_op s es) \<and> history (submit_all append_op s es) = foldl accept (history s) es"
  using assms
proof (induction es arbitrary: s)
  case (Cons e es)
  with submit_accept [of s e] Cons.IH [of "submit append_op s e"] show ?case
    by (auto simp: submit_all_def)
qed (simp add: submit_all_def)

lemma lookup_stable:
  assumes "inv s" "\<forall>e \<in> set es. admissible e" "by_id s i = Inr en"
  shows "by_id (submit_all append_op s es) i = Inr en"
proof -
  from by_id_missing [OF assms(1)] assms(3) have "i \<in> ev_event_id ` set (history s)"
    by fastforce
  then obtain n where n: "n < length (history s)" "i = ev_event_id (history s ! n)"
    by (auto simp: in_set_conv_nth)
  from submit_all_accept [OF assms(1,2)] accept_prefix obtain zs where
    s': "inv (submit_all append_op s es)" "history (submit_all append_op s es) = history s @ zs" by metis
  with n by_id_found [OF s'(1), of n] by_id_found [OF assms(1) n(1)] assms(3) show ?thesis
    by (simp add: nth_append)
qed

lemma from_start:
  assumes "\<forall>e \<in> set es. admissible e"
  shows "inv (submit_all append_op start es) \<and> history (submit_all append_op start es) = accepted es \<and>
    listing (submit_all append_op start es) = Inr (entries_of dt (accepted es))"
  using submit_all_accept [OF inv_start assms]
  by (simp add: listing_history history_start accepted_def)

lemma lookup_agrees:
  assumes "inv s" "by_id s i = Inr en"
  shows "by_index s (le_log_index en) = Inr en \<and> le_event_id en = i \<and>
    (\<exists>n. n < length (history s) \<and> en = entry_for dt n (history s ! n))"
proof -
  from by_id_missing [OF assms(1)] assms(2) have "i \<in> ev_event_id ` set (history s)"
    by fastforce
  then obtain n where n: "n < length (history s)" "i = ev_event_id (history s ! n)"
    by (auto simp: in_set_conv_nth)
  with by_id_found [OF assms(1) n(1)] assms(2) have "en = entry_for dt n (history s ! n)"
    by simp
  with n by_index_found [OF assms(1) n(1)] show ?thesis by auto
qed

end

section \<open>The in-memory provider\<close>

record in_memory_log =
  iml_entries :: "log_entry list"
  iml_event_id_index :: "string \<rightharpoonup> log_entry"

definition iml_init :: in_memory_log where
  "iml_init = \<lparr> iml_entries = [], iml_event_id_index = Map.empty \<rparr>"

definition iml_append :: "(utc \<Rightarrow> string) \<Rightarrow> in_memory_log \<Rightarrow> evidence_event \<Rightarrow> (log_entry \<times> in_memory_log) result" where
  "iml_append dt self event =
     (if iml_event_id_index self (ev_event_id event) \<noteq> None
      then Inl (DuplicateEventError (''event_id already exists: '' @ ev_event_id event))
      else
        rbind (canonical_sha256 (py_of_json (hashable_payload dt event))) (\<lambda>event_hash.
        rbind (leaf_hash_for_event_hash event_hash) (\<lambda>leaf_hash.
        let entry = \<lparr> le_log_index = int (length (iml_entries self)), le_event = event,
                      le_event_hash = event_hash, le_leaf_hash = leaf_hash \<rparr>
        in Inr (entry, \<lparr> iml_entries = iml_entries self @ [entry],
                         iml_event_id_index = (iml_event_id_index self)(ev_event_id event \<mapsto> entry) \<rparr>))))"

text \<open>Python list indexing counts a negative index from the end.\<close>

definition py_index :: "'a list \<Rightarrow> int \<Rightarrow> 'a option" where
  "py_index xs i =
     (let n = int (length xs); j = (if i < 0 then i + n else i)
      in if 0 \<le> j \<and> j < n then Some (xs ! nat j) else None)"

definition iml_get_by_index :: "in_memory_log \<Rightarrow> int \<Rightarrow> log_entry result" where
  "iml_get_by_index self index =
     rget (EventNotFoundError (''log index not found: '' @ show_int index)) (py_index (iml_entries self) index)"

definition iml_get_by_event_id :: "in_memory_log \<Rightarrow> string \<Rightarrow> log_entry result" where
  "iml_get_by_event_id self event_id =
     rget (EventNotFoundError (''event_id not found: '' @ event_id)) (iml_event_id_index self event_id)"

definition iml_list_entries :: "in_memory_log \<Rightarrow> log_entry list" where
  "iml_list_entries self = iml_entries self"

definition iml_history :: "in_memory_log \<Rightarrow> evidence_event list" where
  "iml_history self = map le_event (iml_entries self)"

definition iml_inv :: "(utc \<Rightarrow> string) \<Rightarrow> in_memory_log \<Rightarrow> bool" where
  "iml_inv dt self \<longleftrightarrow>
     iml_entries self = entries_of dt (iml_history self) \<and>
     distinct (map ev_event_id (iml_history self)) \<and>
     iml_event_id_index self = map_of (map (\<lambda>en. (le_event_id en, en)) (iml_entries self))"

lemma iml_index_lookup:
  assumes "iml_inv dt s"
  shows "iml_event_id_index s i = None \<longleftrightarrow> i \<notin> ev_event_id ` set (iml_history s)"
  using assms by (auto simp: iml_inv_def iml_history_def map_of_eq_None_iff image_image)

lemma iml_index_nth:
  assumes "iml_inv dt s" "n < length (iml_history s)"
  shows "iml_event_id_index s (ev_event_id (iml_history s ! n)) = Some (entry_for dt n (iml_history s ! n))"
proof -
  let ?es = "map (\<lambda>en. (le_event_id en, en)) (iml_entries s)"
  have ids: "map fst ?es = map ev_event_id (iml_history s)"
    by (simp add: iml_history_def)
  have "distinct (map fst ?es)"
    using assms(1) unfolding ids iml_inv_def by simp
  moreover have en: "iml_entries s ! n = entry_for dt n (iml_history s ! n)" "n < length (iml_entries s)"
    using assms by (simp_all add: iml_inv_def iml_history_def) (metis nth_entries_of length_map assms(2) iml_history_def nth_map)
  then have "(ev_event_id (iml_history s ! n), entry_for dt n (iml_history s ! n)) \<in> set ?es"
    unfolding in_set_conv_nth by (intro exI [of _ n]) simp
  ultimately have "map_of ?es (ev_event_id (iml_history s ! n)) = Some (entry_for dt n (iml_history s ! n))"
    by (rule map_of_is_SomeI)
  then show ?thesis using assms(1) by (simp add: iml_inv_def)
qed

lemma iml_append_fresh:
  assumes "iml_inv dt s" "ev_event_id e \<notin> ev_event_id ` set (iml_history s)"
  shows "\<exists>s'. iml_append dt s e = Inr (entry_for dt (length (iml_history s)) e, s') \<and> iml_inv dt s' \<and>
    iml_history s' = iml_history s @ [e]"
proof -
  let ?en = "entry_for dt (length (iml_entries s)) e"
  let ?s = "\<lparr> iml_entries = iml_entries s @ [?en], iml_event_id_index = (iml_event_id_index s)(ev_event_id e \<mapsto> ?en) \<rparr>"
  have "iml_append dt s e = Inr (?en, ?s)"
    using assms iml_index_lookup [OF assms(1), of "ev_event_id e"]
    by (simp add: iml_append_def canonical_sha256_native flip: event_hash_of_def) (simp add: entry_for_def Let_def)
  moreover have hist: "iml_history ?s = iml_history s @ [e]" "length (iml_entries s) = length (iml_history s)"
    by (simp_all add: iml_history_def)
  moreover have "iml_inv dt ?s"
  proof -
    have "map_of (map (\<lambda>en. (le_event_id en, en)) (iml_entries s @ [?en])) =
        (map_of (map (\<lambda>en. (le_event_id en, en)) (iml_entries s)))(ev_event_id e \<mapsto> ?en)"
      using iml_index_lookup [OF assms(1), of "ev_event_id e"] assms
      by (auto simp: map_add_def fun_eq_iff iml_inv_def split: option.splits)
    then show ?thesis
      using assms unfolding iml_inv_def hist(1) entries_of_snoc by (simp add: hist(2))
  qed
  ultimately show ?thesis by (metis)
qed

interpretation mem: event_store dt "iml_append dt" iml_get_by_index iml_get_by_event_id
  "\<lambda>s. Inr (iml_list_entries s)" iml_init "iml_inv dt" "\<lambda>_. True" iml_history
proof
  show "iml_inv dt iml_init" "iml_history iml_init = []"
    by (simp_all add: iml_inv_def iml_init_def iml_history_def)
  show "\<exists>s'. iml_append dt s e = Inr (entry_for dt (length (iml_history s)) e, s') \<and> iml_inv dt s' \<and> iml_history s' = iml_history s @ [e]"
    if "iml_inv dt s" "ev_event_id e \<notin> ev_event_id ` set (iml_history s)" for s e
    using that by (rule iml_append_fresh)
  show "iml_append dt s e = Inl (duplicate_error (ev_event_id e))"
    if "iml_inv dt s" "ev_event_id e \<in> ev_event_id ` set (iml_history s)" for s e
    using that iml_index_lookup [OF that(1), of "ev_event_id e"] by (auto simp: iml_append_def duplicate_error_def)
  show "Inr (iml_list_entries s) = Inr (entries_of dt (iml_history s))" if "iml_inv dt s" for s
    using that by (simp add: iml_inv_def iml_list_entries_def)
  show "iml_get_by_index s (int n) = Inr (entry_for dt n (iml_history s ! n))"
    if "iml_inv dt s" "n < length (iml_history s)" for s n
    using that by (simp add: iml_get_by_index_def py_index_def Let_def iml_inv_def)
  show "iml_get_by_index s (int n) = Inl (index_not_found (int n))"
    if "iml_inv dt s" "length (iml_history s) \<le> n" for s n
    using that by (simp add: iml_get_by_index_def py_index_def Let_def iml_history_def index_not_found_def)
  show "iml_get_by_event_id s (ev_event_id (iml_history s ! n)) = Inr (entry_for dt n (iml_history s ! n))"
    if "iml_inv dt s" "n < length (iml_history s)" for s n
    using iml_index_nth [OF that] by (simp add: iml_get_by_event_id_def)
  show "iml_get_by_event_id s i = Inl (id_not_found i)"
    if "iml_inv dt s" "i \<notin> ev_event_id ` set (iml_history s)" for s i
    using that iml_index_lookup [OF that(1), of i] by (simp add: iml_get_by_event_id_def id_not_found_def)
qed

section \<open>Properties\<close>

text \<open>
  C9. Whatever is submitted to the in-memory log, it holds exactly the first event of every
  identifier, in submission order, with dense zero-based indexes, the canonical event hash and the
  leaf hash of each; later submissions only extend the list.
\<close>

theorem in_memory_log_append_only:
  "iml_list_entries (submit_all (iml_append dt) iml_init es) = entries_of dt (accepted es) \<and>
   distinct (map le_event_id (entries_of dt (accepted es))) \<and>
   le_event_id ` set (entries_of dt (accepted es)) = ev_event_id ` set es \<and>
   (\<exists>new. iml_list_entries (submit_all (iml_append dt) iml_init (es @ fs)) = entries_of dt (accepted es) @ new)"
proof -
  have ids: "map le_event_id (entries_of dt (accepted es)) = map ev_event_id (accepted es)"
    by (intro nth_equalityI) auto
  then have "le_event_id ` set (entries_of dt (accepted es)) = ev_event_id ` set (accepted es)"
    by (metis set_map)
  moreover obtain zs where "accepted (es @ fs) = accepted es @ zs"
    using accepted_append by blast
  ultimately show ?thesis
    using mem.from_start [of es dt] mem.from_start [of "es @ fs" dt] accepted_distinct [of es] accepted_ids [of es]
      entries_of_append [of dt "accepted es" zs]
    unfolding ids by auto
qed

text \<open>
  A lookup by event identifier that has succeeded returns the same entry after any further
  submissions, and the entry is also the one stored under its index.
\<close>

theorem in_memory_log_lookup_stable:
  assumes "iml_get_by_event_id (submit_all (iml_append dt) iml_init es) i = Inr en"
  shows "iml_get_by_event_id (submit_all (iml_append dt) iml_init (es @ fs)) i = Inr en \<and>
    iml_get_by_index (submit_all (iml_append dt) iml_init es) (le_log_index en) = Inr en \<and> le_event_id en = i"
proof -
  have "iml_inv dt (submit_all (iml_append dt) iml_init es)"
    using mem.from_start [of es dt] by simp
  moreover have "submit_all (iml_append dt) iml_init (es @ fs) =
      submit_all (iml_append dt) (submit_all (iml_append dt) iml_init es) fs"
    by (simp add: submit_all_def)
  ultimately show ?thesis
    using assms mem.lookup_stable [of dt _ fs i en] mem.lookup_agrees [of dt _ i en] by auto
qed

theorem in_memory_log_lookup_stable_witness:
  "iml_get_by_event_id (submit_all (iml_append isoformat_z) iml_init ([sample_event] @ [sample_event \<lparr> ev_event_id := ''e-2'' \<rparr>])) ''e-1'' =
     Inr (entry_for isoformat_z 0 sample_event)"
proof -
  have "iml_get_by_event_id (submit_all (iml_append isoformat_z) iml_init [sample_event]) ''e-1'' =
      Inr (entry_for isoformat_z 0 sample_event)"
    using mem.from_start [of "[sample_event]" isoformat_z]
      mem.by_id_found [of isoformat_z "submit_all (iml_append isoformat_z) iml_init [sample_event]" 0]
    by (simp add: accepted_def accept_def sample_event_def)
  from in_memory_log_lookup_stable [OF this, of "[sample_event \<lparr> ev_event_id := ''e-2'' \<rparr>]"] show ?thesis by blast
qed

text \<open>
  \<^verbatim>\<open>get_by_index\<close> of the in-memory log accepts negative indexes: on a log with \<open>n\<close> entries the
  index \<open>- k\<close> with \<open>1 \<le> k \<le> n\<close> returns entry \<open>n - k\<close> instead of raising \<^verbatim>\<open>EventNotFoundError\<close>,
  although the contract speaks of a zero-based index.
\<close>

theorem in_memory_log_negative_index:
  assumes "1 \<le> k" "k \<le> length (iml_list_entries self)"
  shows "iml_get_by_index self (- int k) = Inr (iml_list_entries self ! (length (iml_list_entries self) - k))"
  using assms by (simp add: iml_get_by_index_def iml_list_entries_def py_index_def Let_def nat_diff_distrib of_nat_diff flip: nat_int)
    (simp add: nat_minus_as_int)

theorem in_memory_log_negative_index_witness:
  "iml_get_by_index (submit_all (iml_append isoformat_z) iml_init [sample_event]) (- 1) =
     Inr (entry_for isoformat_z 0 sample_event)"
proof -
  have "iml_list_entries (submit_all (iml_append isoformat_z) iml_init [sample_event]) = [entry_for isoformat_z 0 sample_event]"
    using mem.from_start [of "[sample_event]" isoformat_z] by (simp add: accepted_def accept_def entries_of_def)
  with in_memory_log_negative_index [of 1 "submit_all (iml_append isoformat_z) iml_init [sample_event]"] show ?thesis
    by simp
qed

end
