(* ===== verification/Ets_Proofs.thy ===== *)
theory Ets_Proofs
  imports Ets_Log
begin

text \<open>
  Inclusion and consistency proofs (\<^verbatim>\<open>ets/core/proofs.py\<close>).

  The records are the pydantic models; \<open>inclusion_proof_ok\<close> and \<open>consistency_proof_ok\<close> are the field
  constraints and validators of the constructors, so every instance the code handles satisfies
  them. \<open>now\<close> is the clock reading of \<^verbatim>\<open>datetime.now(UTC)\<close>.

  The theorems: proofs generated from a log verify; a verified inclusion proof against the root of
  a log names the leaf the log has at that index; a verified consistency proof shows that the older
  log is a prefix of the newer one (both up to an explicit SHA-256 collision).
\<close>

section \<open>Models\<close>

record audit_path_step =
  aps_position :: string
  aps_hash :: string

record inclusion_proof =
  ip_schema_version :: string
  ip_tree_size :: int
  ip_leaf_index :: int
  ip_leaf_hash :: string
  ip_root_hash :: string
  ip_audit_path :: "audit_path_step list"
  ip_hash_alg :: string
  ip_generated_at_utc :: utc

record verification_result =
  vr_valid :: bool
  vr_reason :: string
  vr_root_hash :: "string option"
  vr_leaf_hash :: "string option"
  vr_tree_size :: "int option"
  vr_verified_at_utc :: utc

record consistency_proof =
  cp_schema_version :: string
  cp_previous_tree_size :: int
  cp_latest_tree_size :: int
  cp_previous_root_hash :: string
  cp_latest_root_hash :: string
  cp_leaf_hashes :: "string list"
  cp_hash_alg :: string
  cp_generated_at_utc :: utc

text \<open>A string of 64 characters that \<^verbatim>\<open>bytes.fromhex\<close> accepts.\<close>

definition hash_field :: "string \<Rightarrow> bool" where
  "hash_field s \<longleftrightarrow> length s = 64 \<and> fromhex_opt s \<noteq> None"

lemma hash_field_hex64: "hash_field s \<longleftrightarrow> hex64 s"
  by (auto simp: hash_field_def hex64_def fromhex_def)

definition audit_path_step_ok :: "audit_path_step \<Rightarrow> bool" where
  "audit_path_step_ok st \<longleftrightarrow> (aps_position st = ''left'' \<or> aps_position st = ''right'') \<and> hash_field (aps_hash st)"

definition inclusion_proof_ok :: "inclusion_proof \<Rightarrow> bool" where
  "inclusion_proof_ok p \<longleftrightarrow> 1 \<le> ip_tree_size p \<and> 0 \<le> ip_leaf_index p \<and> hash_field (ip_leaf_hash p) \<and>
     hash_field (ip_root_hash p) \<and> list_all audit_path_step_ok (ip_audit_path p)"

definition consistency_proof_ok :: "consistency_proof \<Rightarrow> bool" where
  "consistency_proof_ok p \<longleftrightarrow> 0 \<le> cp_previous_tree_size p \<and> 0 \<le> cp_latest_tree_size p \<and>
     hash_field (cp_previous_root_hash p) \<and> hash_field (cp_latest_root_hash p) \<and>
     list_all (\<lambda>h. fromhex_opt h \<noteq> None) (cp_leaf_hashes p)"

text \<open>\<^verbatim>\<open>AuditPathStep.model_validate\<close> and \<^verbatim>\<open>step.model_dump()\<close>.\<close>

definition validate_audit_path_step :: "path_step \<Rightarrow> audit_path_step result" where
  "validate_audit_path_step step =
     (case (map_of step ''position'', map_of step ''hash'') of
        (Some position, Some hash) \<Rightarrow>
          let st = \<lparr> aps_position = position, aps_hash = hash \<rparr>
          in if list_all (\<lambda>(k, _). k = ''position'' \<or> k = ''hash'') step \<and> audit_path_step_ok st then Inr st
             else Inl (ValidationError ''AuditPathStep'')
      | _ \<Rightarrow> Inl (ValidationError ''AuditPathStep''))"

definition dump_audit_path_step :: "audit_path_step \<Rightarrow> path_step" where
  "dump_audit_path_step st = path_step (aps_position st) (aps_hash st)"

section \<open>Generation\<close>

text \<open>\<^verbatim>\<open>generated_at_utc or datetime.now(UTC)\<close>, then the timezone validator of the model.\<close>

definition generated_at :: "string \<Rightarrow> utc \<Rightarrow> datetime option \<Rightarrow> utc result" where
  "generated_at model now given =
     (case given of None \<Rightarrow> Inr now | Some d \<Rightarrow> utc_or_raise (ValidationError model) d)"

text \<open>The generator reads only the leaf hashes of its entries.\<close>

definition inclusion_proof_for :: "utc \<Rightarrow> string list \<Rightarrow> int \<Rightarrow> datetime option \<Rightarrow> inclusion_proof result" where
  "inclusion_proof_for now leaf_hashes leaf_index generated_at_utc =
     (if leaf_index < 0 \<or> int (length leaf_hashes) \<le> leaf_index
      then Inl (IndexError ''leaf_index is outside the tree'')
      else
        rbind (merkle_root leaf_hashes) (\<lambda>root_hash.
        rbind (audit_path_for_leaf leaf_hashes leaf_index) (\<lambda>steps.
        rbind (rmap validate_audit_path_step steps) (\<lambda>audit_path.
        rbind (generated_at ''InclusionProof'' now generated_at_utc) (\<lambda>at.
        let p = \<lparr> ip_schema_version = ''ets.inclusion_proof.v1'', ip_tree_size = int (length leaf_hashes),
                  ip_leaf_index = leaf_index, ip_leaf_hash = leaf_hashes ! nat leaf_index,
                  ip_root_hash = root_hash, ip_audit_path = audit_path, ip_hash_alg = ''sha256'',
                  ip_generated_at_utc = at \<rparr>
        in if inclusion_proof_ok p then Inr p else Inl (ValidationError ''InclusionProof''))))))"

definition generate_inclusion_proof :: "utc \<Rightarrow> log_entry list \<Rightarrow> int \<Rightarrow> datetime option \<Rightarrow> inclusion_proof result" where
  "generate_inclusion_proof now entries leaf_index generated_at_utc =
     inclusion_proof_for now (map le_leaf_hash entries) leaf_index generated_at_utc"

definition generate_consistency_proof :: "utc \<Rightarrow> log_entry list \<Rightarrow> int \<Rightarrow> datetime option \<Rightarrow> consistency_proof result" where
  "generate_consistency_proof now entries previous_tree_size generated_at_utc =
     (let latest_size = int (length entries) in
      if previous_tree_size < 0 \<or> latest_size < previous_tree_size
      then Inl (ValueError ''previous_tree_size must be between 0 and latest tree size'')
      else
        let leaf_hashes = map le_leaf_hash entries in
        rbind (merkle_root (take (nat previous_tree_size) leaf_hashes)) (\<lambda>previous_root.
        rbind (merkle_root leaf_hashes) (\<lambda>latest_root.
        rbind (generated_at ''ConsistencyProof'' now generated_at_utc) (\<lambda>at.
        let p = \<lparr> cp_schema_version = ''ets.consistency_proof.v1'', cp_previous_tree_size = previous_tree_size,
                  cp_latest_tree_size = latest_size, cp_previous_root_hash = previous_root,
                  cp_latest_root_hash = latest_root, cp_leaf_hashes = leaf_hashes, cp_hash_alg = ''sha256'',
                  cp_generated_at_utc = at \<rparr>
        in if consistency_proof_ok p then Inr p else Inl (ValidationError ''ConsistencyProof'')))))"

section \<open>Verification\<close>

definition invalid :: "inclusion_proof \<Rightarrow> utc \<Rightarrow> string \<Rightarrow> verification_result" where
  "invalid proof verified_at_utc reason =
     \<lparr> vr_valid = False, vr_reason = reason, vr_root_hash = Some (ip_root_hash proof),
       vr_leaf_hash = Some (ip_leaf_hash proof), vr_tree_size = Some (ip_tree_size proof),
       vr_verified_at_utc = verified_at_utc \<rparr>"

definition invalid_consistency :: "consistency_proof \<Rightarrow> utc \<Rightarrow> string \<Rightarrow> verification_result" where
  "invalid_consistency proof verified_at_utc reason =
     \<lparr> vr_valid = False, vr_reason = reason, vr_root_hash = Some (cp_latest_root_hash proof),
       vr_leaf_hash = None, vr_tree_size = Some (cp_latest_tree_size proof),
       vr_verified_at_utc = verified_at_utc \<rparr>"

function expected_audit_path_positions :: "int \<Rightarrow> int \<Rightarrow> string list result" where
  "expected_audit_path_positions tree_size leaf_index =
     (if tree_size \<le> 1 then Inr []
      else rbind (split_point tree_size) (\<lambda>k.
        if leaf_index < k then
          rbind (expected_audit_path_positions k leaf_index) (\<lambda>ps. Inr (ps @ [''right'']))
        else
          rbind (expected_audit_path_positions (tree_size - k) (leaf_index - k)) (\<lambda>ps. Inr (ps @ [''left'']))))"
  by pat_completeness auto
termination
  by (relation "measure (\<lambda>(n, i). nat n)") (auto dest!: split_point_bounds)

declare expected_audit_path_positions.simps [simp del]

definition verify_inclusion_proof :: "utc \<Rightarrow> inclusion_proof \<Rightarrow> verification_result result" where
  "verify_inclusion_proof verified_at proof =
     (if ip_hash_alg proof \<noteq> ''sha256'' then Inr (invalid proof verified_at ''unsupported hash algorithm'')
      else if ip_tree_size proof \<le> ip_leaf_index proof
      then Inr (invalid proof verified_at ''leaf index is outside tree size'')
      else if ip_tree_size proof = 1 \<and> ip_audit_path proof \<noteq> []
      then Inr (invalid proof verified_at ''single-leaf tree must not have an audit path'')
      else
        rbind (expected_audit_path_positions (ip_tree_size proof) (ip_leaf_index proof)) (\<lambda>expected_positions.
        if map aps_position (ip_audit_path proof) \<noteq> expected_positions
        then Inr (invalid proof verified_at ''audit path does not match leaf index'')
        else
          case compute_root_from_audit_path (ip_leaf_hash proof) (map dump_audit_path_step (ip_audit_path proof)) of
            Inl (ValueError msg) \<Rightarrow> Inr (invalid proof verified_at msg)
          | Inl ex \<Rightarrow> Inl ex
          | Inr computed_root \<Rightarrow>
              if computed_root \<noteq> ip_root_hash proof
              then Inr (invalid proof verified_at ''computed root does not match proof root'')
              else Inr \<lparr> vr_valid = True, vr_reason = ''ok'', vr_root_hash = Some (ip_root_hash proof),
                         vr_leaf_hash = Some (ip_leaf_hash proof), vr_tree_size = Some (ip_tree_size proof),
                         vr_verified_at_utc = verified_at \<rparr>))"

definition verify_consistency_proof :: "utc \<Rightarrow> consistency_proof \<Rightarrow> verification_result result" where
  "verify_consistency_proof verified_at proof =
     (if cp_hash_alg proof \<noteq> ''sha256''
      then Inr \<lparr> vr_valid = False, vr_reason = ''unsupported hash algorithm'',
                 vr_root_hash = Some (cp_latest_root_hash proof), vr_leaf_hash = None,
                 vr_tree_size = Some (cp_latest_tree_size proof), vr_verified_at_utc = verified_at \<rparr>
      else if cp_latest_tree_size proof < cp_previous_tree_size proof
      then Inr (invalid_consistency proof verified_at ''tree size regressed'')
      else if int (length (cp_leaf_hashes proof)) \<noteq> cp_latest_tree_size proof
      then Inr (invalid_consistency proof verified_at ''leaf hash count does not match latest size'')
      else
        rbind (merkle_root (take (nat (cp_previous_tree_size proof)) (cp_leaf_hashes proof))) (\<lambda>previous_root.
        if previous_root \<noteq> cp_previous_root_hash proof
        then Inr (invalid_consistency proof verified_at ''previous root does not match leaves'')
        else
          rbind (merkle_root (cp_leaf_hashes proof)) (\<lambda>latest_root.
          if latest_root \<noteq> cp_latest_root_hash proof
          then Inr (invalid_consistency proof verified_at ''latest root does not match leaves'')
          else Inr \<lparr> vr_valid = True, vr_reason = ''ok'', vr_root_hash = Some (cp_latest_root_hash proof),
                     vr_leaf_hash = None, vr_tree_size = Some (cp_latest_tree_size proof),
                     vr_verified_at_utc = verified_at \<rparr>)))"

section \<open>Audit path positions\<close>

definition side :: "bool \<Rightarrow> string" where
  "side left = (if left then ''left'' else ''right'')"

lemma side_inject [simp]: "side a = side b \<longleftrightarrow> a = b"
  by (simp add: side_def)

lemma expected_positions_total: "\<exists>ps. expected_audit_path_positions n i = Inr ps"
proof (induction n i rule: expected_audit_path_positions.induct)
  case (1 n i)
  show ?case
  proof (cases "n \<le> 1")
    case True
    then show ?thesis by (simp add: expected_audit_path_positions.simps)
  next
    case False
    then obtain k where k: "split_point n = Inr k" by (simp add: split_point_def)
    with False 1 [OF False k] show ?thesis
      by (cases "i < k") (auto simp: expected_audit_path_positions.simps [of n i])
  qed
qed

lemma expected_positions_mpath:
  assumes "ds \<noteq> []" "i < length ds"
  shows "expected_audit_path_positions (int (length ds)) (int i) = Inr (map (side \<circ> fst) (mpath ds i))"
  using assms
proof (induction ds arbitrary: i rule: tree_induct)
  case (leaf d)
  then show ?case by (simp add: expected_audit_path_positions.simps)
next
  case (node ds)
  let ?k = "split_nat (length ds)"
  note k = split_nat_bounds [OF node(1)]
  have step: "expected_audit_path_positions (int (length ds)) (int i) =
      (if int i < int ?k then rbind (expected_audit_path_positions (int ?k) (int i)) (\<lambda>ps. Inr (ps @ [''right'']))
       else rbind (expected_audit_path_positions (int (length ds) - int ?k) (int i - int ?k)) (\<lambda>ps. Inr (ps @ [''left''])))"
    using node(1) split_point_nat [OF node(1)] by (subst expected_audit_path_positions.simps) simp
  show ?case
  proof (cases "i < ?k")
    case True
    with node.IH(1) [of i] k step show ?thesis
      by (simp add: mpath_split [OF node(1)] Let_def side_def min_absorb2)
  next
    case False
    with node.IH(2) [of "i - ?k"] node.prems k step show ?thesis
      by (simp add: mpath_split [OF node(1)] Let_def side_def of_nat_diff)
  qed
qed

lemma validate_path_step:
  "wf_step st \<Longrightarrow> validate_audit_path_step st = Inr \<lparr> aps_position = side (fst (dec_step st)), aps_hash = the (map_of st ''hash'') \<rparr>"
  by (auto simp: wf_step_def validate_audit_path_step_def audit_path_step_ok_def hash_field_hex64 side_def Let_def)
    (auto simp: path_step_def)

lemma dump_validated:
  "wf_step st \<Longrightarrow> dump_audit_path_step \<lparr> aps_position = side (fst (dec_step st)), aps_hash = the (map_of st ''hash'') \<rparr> = st"
  by (auto simp: wf_step_def dump_audit_path_step_def side_def)

lemma audit_step_ok_wf: "audit_path_step_ok st \<Longrightarrow> wf_step (dump_audit_path_step st) \<and> side (fst (dec_step (dump_audit_path_step st))) = aps_position st"
  by (auto simp: audit_path_step_ok_def dump_audit_path_step_def hash_field_hex64 side_def)

lemma compute_root_raises: "compute_root_from_audit_path h path = Inl e \<Longrightarrow> \<exists>msg. e = ValueError msg"
proof -
  have req: "require_sha256_hex s f = Inl e \<Longrightarrow> \<exists>msg. e = ValueError msg" for s f e
    by (auto simp: require_sha256_hex_def split: if_splits sum.splits)
  have hexerr: "fromhex s = Inl e \<Longrightarrow> \<exists>msg. e = ValueError msg" for s e
    by (auto simp: fromhex_def rget_def fromhex_error_def split: option.splits)
  have pair: "hash_pair a b = Inl e \<Longrightarrow> \<exists>msg. e = ValueError msg" for a b e
    by (auto simp: hash_pair_def rbind_eq_Inl dest: hexerr)
  have step: "audit_step c st = Inl e \<Longrightarrow> \<exists>msg. e = ValueError msg" for c st e
    by (auto simp: audit_step_def rbind_eq_Inl rget_def split: option.splits if_splits dest: req pair)
  have "rfold audit_step c path = Inl e \<Longrightarrow> \<exists>msg. e = ValueError msg" for c
    by (induction path arbitrary: c) (auto simp: rbind_eq_Inl dest: step)
  then show "compute_root_from_audit_path h path = Inl e \<Longrightarrow> \<exists>msg. e = ValueError msg"
    by (auto simp: compute_root_from_audit_path_def rbind_eq_Inl dest: req)
qed

section \<open>Trees of equal size\<close>

text \<open>
  Without knowing that leaves are hashes of something, a root still determines the leaves among
  trees of one size.
\<close>

lemma mth_binding_same_size:
  assumes "ys \<noteq> []" "length xs = length ys" "\<forall>y \<in> set ys. length y = 32" "\<forall>x \<in> set xs. length x \<le> 32" "mth xs = mth ys"
  shows "xs = ys \<or> collides (node_inputs xs) (node_inputs ys)"
  using assms
proof (induction ys arbitrary: xs rule: tree_induct)
  case (leaf y)
  then show ?case by (auto simp: length_Suc_conv)
next
  case (node ys)
  let ?k = "split_nat (length ys)"
  let ?xl = "take ?k xs" and ?xr = "drop ?k xs" and ?yl = "take ?k ys" and ?yr = "drop ?k ys"
  have x2: "2 \<le> length xs" using node(1) node.prems(1) by simp
  have k: "split_nat (length xs) = ?k" using node.prems(1) by simp
  note ne = split_parts_nonempty [OF node(1)]
  have short: "\<forall>x \<in> set zs. length x \<le> 32 \<Longrightarrow> zs \<noteq> [] \<Longrightarrow> length (mth zs) \<le> 32" for zs
    by (cases "2 \<le> length zs") (auto simp: mth_split not_le less_2_cases_iff length_Suc_conv)
  have len: "\<forall>y \<in> set ?yl. length y = 32" "\<forall>y \<in> set ?yr. length y = 32"
    "\<forall>x \<in> set ?xl. length x \<le> 32" "\<forall>x \<in> set ?xr. length x \<le> 32"
    using node.prems by (auto dest: in_set_takeD in_set_dropD)
  have lens: "length (mth ?xl) \<le> 32" "length (mth ?xr) \<le> 32" "length (mth ?yl) = 32" "length (mth ?yr) = 32"
    using short [OF len(3)] short [OF len(4)] length_mth [OF ne(1) len(1)] length_mth [OF ne(2) len(2)]
      split_parts_nonempty [OF x2] k by auto
  from node.prems(4) have "sha256 (node_hash_prefix @ mth ?xl @ mth ?xr) = sha256 (node_hash_prefix @ mth ?yl @ mth ?yr)"
    by (simp add: mth_split [OF x2] mth_split [OF node(1)] k node_hash_def)
  then consider (same) "mth ?xl @ mth ?xr = mth ?yl @ mth ?yr" | (coll) "collides (node_inputs xs) (node_inputs ys)"
    by (auto simp: node_inputs_split [OF x2] node_inputs_split [OF node(1)] k collides_def sha256_collision_def)
  then show ?case
  proof cases
    case same
    from append_short_eq [OF same lens] have "mth ?xl = mth ?yl" "mth ?xr = mth ?yr" by auto
    with node.IH(1) [of ?xl] node.IH(2) [of ?xr] len node.prems(1)
    have "?xl = ?yl \<and> ?xr = ?yr \<or> collides (node_inputs ?xl) (node_inputs ?yl) \<or> collides (node_inputs ?xr) (node_inputs ?yr)"
      by auto
    then show ?thesis
      by (auto simp: node_inputs_split [OF x2] node_inputs_split [OF node(1)] k collides_def)
        (metis append_take_drop_id)
  qed blast
qed

lemma mth_binding_sized:
  assumes "length xs = length ys" "\<forall>y \<in> set ys. length y = 32" "\<forall>x \<in> set xs. length x \<le> 32" "mth xs = mth ys"
  shows "xs = ys \<or> collides (node_inputs xs) (node_inputs ys)"
  using mth_binding_same_size [OF _ assms] assms(1) by (cases "ys = []") auto

section \<open>Roots of logs\<close>

abbreviation log_leaves :: "(utc \<Rightarrow> string) \<Rightarrow> evidence_event list \<Rightarrow> string list" where
  "log_leaves dt es \<equiv> map le_leaf_hash (entries_of dt es)"

text \<open>The event hashes of a log, as bytes, and the leaf digests its tree is built from.\<close>

definition event_digests :: "(utc \<Rightarrow> string) \<Rightarrow> evidence_event list \<Rightarrow> byte list list" where
  "event_digests dt es = map (\<lambda>e. unhex (event_hash_of dt e)) es"

lemma log_leaves_hex64: "\<forall>h \<in> set (log_leaves dt es). hex64 h"
  unfolding map_leaf_hash_entries_of by simp

lemma unhex_log_leaves: "map unhex (log_leaves dt es) = map leaf_digest (event_digests dt es)"
  by (simp add: map_leaf_hash_entries_of event_digests_def leaf_hash_of_def)

lemma merkle_root_log: "merkle_root (log_leaves dt es) = Inr r \<Longrightarrow> unhex r = mth (map leaf_digest (event_digests dt es))"
  using merkle_root_mth [OF log_leaves_hex64, of dt es] unfolding unhex_log_leaves by auto

lemma length_event_digests [simp]: "length (event_digests dt es) = length es"
  by (simp add: event_digests_def)

lemma leaf_digest_eq:
  assumes "map leaf_digest xs = map leaf_digest ys"
  shows "xs = ys \<or> collides (leaf_inputs xs) (leaf_inputs ys)"
proof (cases "\<exists>i < length xs. xs ! i \<noteq> ys ! i")
  case True
  then obtain i where i: "i < length xs" "xs ! i \<noteq> ys ! i" by blast
  have len: "length xs = length ys" using assms by (metis length_map)
  have "leaf_digest (xs ! i) = leaf_digest (ys ! i)"
    using assms i(1) len by (metis nth_map)
  with i len have "sha256_collision (leaf_hash_prefix @ xs ! i, leaf_hash_prefix @ ys ! i)"
    by (simp add: leaf_digest_def sha256_collision_def)
  with i(1) len show ?thesis by (auto simp: collides_def leaf_inputs_def)
next
  case False
  with assms show ?thesis by (metis length_map nth_equalityI)
qed

lemma verify_inclusion_valid:
  assumes "verify_inclusion_proof now p = Inr r" "vr_valid r"
  shows "ip_leaf_index p < ip_tree_size p \<and>
    expected_audit_path_positions (ip_tree_size p) (ip_leaf_index p) = Inr (map aps_position (ip_audit_path p)) \<and>
    compute_root_from_audit_path (ip_leaf_hash p) (map dump_audit_path_step (ip_audit_path p)) = Inr (ip_root_hash p)"
  using assms
  by (auto simp: verify_inclusion_proof_def invalid_def split: if_splits sum.splits exn.splits)

lemma verify_consistency_valid:
  assumes "verify_consistency_proof now p = Inr r" "vr_valid r"
  shows "cp_previous_tree_size p \<le> cp_latest_tree_size p \<and> int (length (cp_leaf_hashes p)) = cp_latest_tree_size p \<and>
    merkle_root (take (nat (cp_previous_tree_size p)) (cp_leaf_hashes p)) = Inr (cp_previous_root_hash p) \<and>
    merkle_root (cp_leaf_hashes p) = Inr (cp_latest_root_hash p)"
  using assms
  by (auto simp: verify_consistency_proof_def invalid_consistency_def split: if_splits)

text \<open>The decoded steps of a proof's audit path.\<close>

definition proof_steps :: "inclusion_proof \<Rightarrow> (bool \<times> byte list) list" where
  "proof_steps p = map (\<lambda>st. (aps_position st = ''left'', unhex (aps_hash st))) (ip_audit_path p)"

lemma proof_steps_dec: "proof_steps p = map dec_step (map dump_audit_path_step (ip_audit_path p))"
  by (simp add: proof_steps_def dump_audit_path_step_def)

lemma inclusion_proof_for_leaves:
  assumes hex: "\<forall>h \<in> set ls. hex64 h" and n: "n < length ls" and at: "generated_at ''InclusionProof'' now time = Inr at"
  shows "\<exists>p r. inclusion_proof_for now ls (int n) time = Inr p \<and> inclusion_proof_ok p \<and>
    merkle_root ls = Inr (ip_root_hash p) \<and> ip_leaf_hash p = ls ! n \<and> ip_leaf_index p = int n \<and>
    ip_tree_size p = int (length ls) \<and> verify_inclusion_proof later p = Inr r \<and> vr_valid r"
proof -
  obtain steps where steps: "audit_path_for_leaf ls (int n) = Inr steps"
    "map dec_step steps = mpath (map unhex ls) n" "\<forall>st \<in> set steps. wf_step st"
    using audit_path_mpath [OF hex, of "int n"] n by auto
  let ?step = "\<lambda>st. \<lparr> aps_position = side (fst (dec_step st)), aps_hash = the (map_of st ''hash'') \<rparr>"
  have val: "rmap validate_audit_path_step steps = Inr (map ?step steps)"
    using steps(3) by (intro rmap_all_Inr) (simp add: validate_path_step)
  obtain root where root: "merkle_root ls = Inr root" "hex64 root"
    using merkle_root_mth [OF hex] by blast
  have "compute_root_from_audit_path (ls ! n) steps = Inr root"
  proof -
    have "\<exists>path. audit_path_for_leaf ls (int n) = Inr path \<and> compute_root_from_audit_path (ls ! n) path = merkle_root ls"
      using audit_path_computes_root [of ls "int n"] hex n by (simp add: list_all_iff)
    with steps(1) root show ?thesis by simp
  qed
  moreover have "map dump_audit_path_step (map ?step steps) = steps"
    using steps(3) by (auto simp: dump_validated intro!: map_idI)
  moreover have "list_all audit_path_step_ok (map ?step steps)"
    using steps(3) by (auto simp: list_all_iff wf_step_def audit_path_step_ok_def hash_field_hex64 side_def)
  moreover have "expected_audit_path_positions (int (length ls)) (int n) = Inr (map aps_position (map ?step steps))"
  proof -
    have "map unhex ls \<noteq> []" using n by auto
    with expected_positions_mpath [of "map unhex ls" n] n show ?thesis
      unfolding steps(2) [symmetric] by (simp add: comp_def)
  qed
  moreover have "steps = [] \<longleftrightarrow> length ls < 2"
    using steps(2) mpath_Nil_iff [of "map unhex ls" n] by (metis length_map map_is_Nil_conv)
  ultimately show ?thesis
    using n steps(1) val root hex at
    by (auto simp: inclusion_proof_for_def Let_def inclusion_proof_ok_def hash_field_hex64
        verify_inclusion_proof_def)
qed

lemma inclusion_proof_generated:
  assumes "n < length es"
  shows "\<exists>p r. generate_inclusion_proof now (entries_of dt es) (int n) None = Inr p \<and>
    merkle_root (log_leaves dt es) = Inr (ip_root_hash p) \<and> ip_leaf_hash p = leaf_hash_of dt (es ! n) \<and>
    ip_tree_size p = int (length es) \<and> verify_inclusion_proof later p = Inr r \<and> vr_valid r"
proof -
  have "n < length (log_leaves dt es)" "generated_at ''InclusionProof'' now None = Inr now"
    using assms by (simp_all add: generated_at_def)
  from inclusion_proof_for_leaves [OF log_leaves_hex64 this, of later] assms show ?thesis
    by (auto simp: generate_inclusion_proof_def leaf_hash_of_def)
qed

lemma inclusion_binding_digests:
  assumes "inclusion_proof_ok p" "verify_inclusion_proof now p = Inr r" "vr_valid r"
    and size: "ip_tree_size p = int (length ds)" and mth: "unhex (ip_root_hash p) = mth (map leaf_digest ds)"
  shows "(unhex (ip_leaf_hash p) = leaf_digest (ds ! nat (ip_leaf_index p)) \<and> nat (ip_leaf_index p) < length ds) \<or>
    collides (path_inputs (unhex (ip_leaf_hash p)) (proof_steps p)) (node_inputs (map leaf_digest ds))"
proof -
  let ?ds = "map leaf_digest ds" and ?i = "nat (ip_leaf_index p)"
  note v = verify_inclusion_valid [OF assms(2,3)]
  have i: "?i < length ds" "int ?i = ip_leaf_index p"
    using v assms(1) size by (auto simp: inclusion_proof_ok_def)
  then have ne: "?ds \<noteq> []" by auto
  have steps: "\<forall>st \<in> set (map dump_audit_path_step (ip_audit_path p)). wf_step st"
    and sides: "map aps_position (ip_audit_path p) = map (side \<circ> fst) (proof_steps p)"
    and leaf: "hex64 (ip_leaf_hash p)"
    using assms(1) audit_step_ok_wf
    by (auto simp: inclusion_proof_ok_def list_all_iff proof_steps_dec hash_field_hex64)
  have "unhex (ip_root_hash p) = root_from (unhex (ip_leaf_hash p)) (proof_steps p)"
    using v compute_root_wf [OF steps leaf] unfolding proof_steps_dec [symmetric]
    by (auto simp: proof_steps_def split: if_splits dest: arg_cong [of _ _ unhex])
  then have root: "root_from (unhex (ip_leaf_hash p)) (proof_steps p) = mth ?ds"
    using mth by simp
  have "map (side \<circ> fst) (proof_steps p) = map (side \<circ> fst) (mpath ?ds ?i)"
    using v expected_positions_mpath [OF ne, of ?i] i size sides by simp
  then have fsts: "map fst (proof_steps p) = map fst (mpath ?ds ?i)"
    by (simp add: map_equality_iff)
  have sib: "\<forall>(left, d) \<in> set (proof_steps p). length d \<le> 32"
    using assms(1) length_unhex_le
    by (auto simp: proof_steps_def inclusion_proof_ok_def list_all_iff audit_path_step_ok_def hash_field_hex64)
  from mpath_binding [OF ne _ _ length_unhex_le [OF leaf] sib fsts root] i show ?thesis by auto
qed

lemma inclusion_proof_binding:
  assumes "inclusion_proof_ok p" "verify_inclusion_proof now p = Inr r" "vr_valid r"
    and "merkle_root (log_leaves dt es) = Inr (ip_root_hash p)" "ip_tree_size p = int (length es)"
  shows "(unhex (ip_leaf_hash p) = unhex (leaf_hash_of dt (es ! nat (ip_leaf_index p))) \<and> nat (ip_leaf_index p) < length es) \<or>
    collides (path_inputs (unhex (ip_leaf_hash p)) (proof_steps p)) (node_inputs (map leaf_digest (event_digests dt es)))"
  using inclusion_binding_digests [OF assms(1-3), of "event_digests dt es"] merkle_root_log [OF assms(4)] assms(5)
  by (auto simp: event_digests_def leaf_hash_of_def)

lemma consistency_proof_binding:
  assumes "verify_consistency_proof now p = Inr r" "vr_valid r" "consistency_proof_ok p"
    and "merkle_root (log_leaves dt old) = Inr (cp_previous_root_hash p)" "cp_previous_tree_size p = int (length old)"
    and "merkle_root (log_leaves dt new) = Inr (cp_latest_root_hash p)" "cp_latest_tree_size p = int (length new)"
  shows "event_digests dt old = take (length old) (event_digests dt new) \<or>
    (let ls = map unhex (cp_leaf_hashes p); os = event_digests dt old; ns = event_digests dt new in
       collides (node_inputs (take (length old) ls)) (node_inputs (map leaf_digest os)) \<or>
       collides (node_inputs ls) (node_inputs (map leaf_digest ns)) \<or>
       collides (leaf_inputs os) (leaf_inputs (take (length old) ns)))"
proof -
  let ?ls = "map unhex (cp_leaf_hashes p)" and ?os = "event_digests dt old" and ?ns = "event_digests dt new"
  note v = verify_consistency_valid [OF assms(1,2)]
  have len: "length ?ls = length new" "length old \<le> length new"
    using v assms(5,7) by auto
  have hex: "\<forall>h \<in> set (cp_leaf_hashes p). hex64 h"
    using v merkle_root_hex64 by blast
  then have hexo: "\<forall>h \<in> set (take (length old) (cp_leaf_hashes p)). hex64 h"
    and short: "\<forall>x \<in> set ?ls. length x \<le> 32" using length_unhex_le by (auto dest: in_set_takeD)
  have roots: "mth ?ls = mth (map leaf_digest ?ns)" "mth (take (length old) ?ls) = mth (map leaf_digest ?os)"
    using merkle_root_mth [OF hex] merkle_root_mth [OF hexo] v assms(5)
      merkle_root_log [OF assms(4)] merkle_root_log [OF assms(6)]
    by (auto simp: take_map)
  have new: "?ls = map leaf_digest ?ns \<or> collides (node_inputs ?ls) (node_inputs (map leaf_digest ?ns))"
    using mth_binding_sized [OF _ _ short roots(1)] len by simp
  have old: "take (length old) ?ls = map leaf_digest ?os \<or>
      collides (node_inputs (take (length old) ?ls)) (node_inputs (map leaf_digest ?os))"
  proof (rule mth_binding_sized [OF _ _ _ roots(2)])
    show "\<forall>x \<in> set (take (length old) ?ls). length x \<le> 32" using short by (blast dest: in_set_takeD)
  qed (use len in auto)
  have "?ls = map leaf_digest ?ns \<Longrightarrow> take (length old) ?ls = map leaf_digest ?os \<Longrightarrow>
      ?os = take (length old) ?ns \<or> collides (leaf_inputs ?os) (leaf_inputs (take (length old) ?ns))"
    by (intro leaf_digest_eq) (metis take_map)
  with new old show ?thesis unfolding Let_def by blast
qed

section \<open>Properties\<close>

text \<open>
  C5. Every entry of a log has an inclusion proof, and it verifies: for any index inside the log
  \<^verbatim>\<open>generate_inclusion_proof\<close> returns a proof for the log's root and that entry's leaf hash, and
  \<^verbatim>\<open>verify_inclusion_proof\<close> accepts it.
\<close>

theorem inclusion_proof_round_trip:
  assumes "n < length es"
  shows "\<exists>p r. generate_inclusion_proof now (entries_of dt es) (int n) None = Inr p \<and>
    merkle_root (log_leaves dt es) = Inr (ip_root_hash p) \<and> ip_leaf_hash p = leaf_hash_of dt (es ! n) \<and>
    ip_tree_size p = int (length es) \<and> verify_inclusion_proof later p = Inr r \<and> vr_valid r"
  using assms by (rule inclusion_proof_generated)

theorem inclusion_proof_round_trip_witness:
  "\<exists>p r. generate_inclusion_proof 0 (entries_of isoformat_z [sample_event, sample_event]) (int 1) None = Inr p \<and>
    merkle_root (log_leaves isoformat_z [sample_event, sample_event]) = Inr (ip_root_hash p) \<and>
    ip_leaf_hash p = leaf_hash_of isoformat_z ([sample_event, sample_event] ! 1) \<and>
    ip_tree_size p = int (length [sample_event, sample_event]) \<and> verify_inclusion_proof 1 p = Inr r \<and> vr_valid r"
  by (rule inclusion_proof_round_trip) simp

text \<open>
  C1. A verified inclusion proof is sound: if \<^verbatim>\<open>verify_inclusion_proof\<close> accepts a proof whose root and
  tree size are those of a log, the proof's leaf hash has the bytes of the log's leaf at the
  proof's index and its audit path is the one of that leaf, unless a message hashed along the path
  collides with one hashed in the log's tree.
\<close>

theorem inclusion_proof_sound:
  assumes "inclusion_proof_ok p" "verify_inclusion_proof now p = Inr r" "vr_valid r"
    and "merkle_root (log_leaves dt es) = Inr (ip_root_hash p)" "ip_tree_size p = int (length es)"
  shows "(unhex (ip_leaf_hash p) = unhex (leaf_hash_of dt (es ! nat (ip_leaf_index p))) \<and> nat (ip_leaf_index p) < length es) \<or>
    collides (path_inputs (unhex (ip_leaf_hash p)) (proof_steps p)) (node_inputs (map leaf_digest (event_digests dt es)))"
  using assms by (rule inclusion_proof_binding)

theorem inclusion_proof_sound_witness:
  "\<exists>p r. verify_inclusion_proof 1 p = Inr r \<and> vr_valid r \<and>
    (unhex (ip_leaf_hash p) = unhex (leaf_hash_of isoformat_z ([sample_event, sample_event] ! nat (ip_leaf_index p))) \<and>
      nat (ip_leaf_index p) < length [sample_event, sample_event] \<or>
     collides (path_inputs (unhex (ip_leaf_hash p)) (proof_steps p))
      (node_inputs (map leaf_digest (event_digests isoformat_z [sample_event, sample_event]))))"
proof -
  obtain p r where p: "generate_inclusion_proof 0 (entries_of isoformat_z [sample_event, sample_event]) (int 1) None = Inr p"
    "merkle_root (log_leaves isoformat_z [sample_event, sample_event]) = Inr (ip_root_hash p)"
    "ip_tree_size p = int (length [sample_event, sample_event])" "verify_inclusion_proof 1 p = Inr r" "vr_valid r"
    using inclusion_proof_generated [of 1 "[sample_event, sample_event]" 0 isoformat_z 1] by auto
  from p(1) have "inclusion_proof_ok p"
    by (auto simp: generate_inclusion_proof_def inclusion_proof_for_def Let_def split: if_splits)
  from inclusion_proof_sound [OF this p(4,5,2,3)] p(4,5) show ?thesis by blast
qed

text \<open>
  Verifying an inclusion proof never raises: whatever the fields of the proof, the outcome is a
  verification result for the proof's root hash. It is valid exactly when the algorithm is SHA-256,
  the index lies inside the tree, the sides of the audit path are those of the index, and the path
  recomputes the root.
\<close>

theorem verify_inclusion_proof_total:
  "\<exists>r. verify_inclusion_proof now p = Inr r \<and> vr_root_hash r = Some (ip_root_hash p) \<and> vr_verified_at_utc r = now \<and>
     (vr_valid r \<longleftrightarrow> ip_hash_alg p = ''sha256'' \<and> ip_leaf_index p < ip_tree_size p \<and>
        expected_audit_path_positions (ip_tree_size p) (ip_leaf_index p) = Inr (map aps_position (ip_audit_path p)) \<and>
        compute_root_from_audit_path (ip_leaf_hash p) (map dump_audit_path_step (ip_audit_path p)) = Inr (ip_root_hash p))"
proof -
  obtain ps where ps: "expected_audit_path_positions (ip_tree_size p) (ip_leaf_index p) = Inr ps"
    using expected_positions_total by blast
  moreover have "ip_tree_size p = 1 \<Longrightarrow> ps = []"
    using ps by (simp add: expected_audit_path_positions.simps)
  ultimately show ?thesis
    using compute_root_raises [of "ip_leaf_hash p" "map dump_audit_path_step (ip_audit_path p)"]
    by (cases "compute_root_from_audit_path (ip_leaf_hash p) (map dump_audit_path_step (ip_audit_path p))")
      (auto simp: verify_inclusion_proof_def invalid_def split: exn.splits)
qed

text \<open>
  A consistency proof generated from a log, for any earlier size of it, verifies and carries
  the roots of the two sizes.
\<close>

theorem consistency_proof_round_trip:
  assumes "m \<le> length es"
  shows "\<exists>p r. generate_consistency_proof now (entries_of dt es) (int m) None = Inr p \<and>
    merkle_root (take m (log_leaves dt es)) = Inr (cp_previous_root_hash p) \<and>
    merkle_root (log_leaves dt es) = Inr (cp_latest_root_hash p) \<and>
    verify_consistency_proof later p = Inr r \<and> vr_valid r"
proof -
  have hex: "\<forall>h \<in> set (log_leaves dt es). hex64 h" by (rule log_leaves_hex64)
  then have hexm: "\<forall>h \<in> set (take m (log_leaves dt es)). hex64 h" by (blast dest: in_set_takeD)
  obtain a where a: "merkle_root (take m (log_leaves dt es)) = Inr a" "hex64 a"
    using merkle_root_mth [OF hexm] by blast
  obtain b where b: "merkle_root (log_leaves dt es) = Inr b" "hex64 b"
    using merkle_root_mth [OF hex] by blast
  have "list_all (\<lambda>h. fromhex_opt h \<noteq> None) (log_leaves dt es)"
    using hex unfolding list_all_iff by (metis hash_field_def hash_field_hex64)
  with a b assms show ?thesis
    by (auto simp: generate_consistency_proof_def Let_def generated_at_def consistency_proof_ok_def hash_field_hex64
        verify_consistency_proof_def)
qed

theorem consistency_proof_round_trip_witness:
  "\<exists>p r. generate_consistency_proof 0 (entries_of isoformat_z [sample_event, sample_event]) (int 1) None = Inr p \<and>
    merkle_root (take 1 (log_leaves isoformat_z [sample_event, sample_event])) = Inr (cp_previous_root_hash p) \<and>
    merkle_root (log_leaves isoformat_z [sample_event, sample_event]) = Inr (cp_latest_root_hash p) \<and>
    verify_consistency_proof 1 p = Inr r \<and> vr_valid r"
  by (rule consistency_proof_round_trip) simp

text \<open>
  C2. A verified consistency proof shows append-only growth: if its two roots and sizes are those of
  two logs, the event hashes of the older log are a prefix of those of the newer one, unless two
  messages hashed in the trees, or in the proof, are a SHA-256 collision.
\<close>

theorem consistency_proof_sound:
  assumes "verify_consistency_proof now p = Inr r" "vr_valid r" "consistency_proof_ok p"
    and "merkle_root (log_leaves dt old) = Inr (cp_previous_root_hash p)" "cp_previous_tree_size p = int (length old)"
    and "merkle_root (log_leaves dt new) = Inr (cp_latest_root_hash p)" "cp_latest_tree_size p = int (length new)"
  shows "event_digests dt old = take (length old) (event_digests dt new) \<or>
    (let ls = map unhex (cp_leaf_hashes p); os = event_digests dt old; ns = event_digests dt new in
       collides (node_inputs (take (length old) ls)) (node_inputs (map leaf_digest os)) \<or>
       collides (node_inputs ls) (node_inputs (map leaf_digest ns)) \<or>
       collides (leaf_inputs os) (leaf_inputs (take (length old) ns)))"
  using assms by (rule consistency_proof_binding)

theorem consistency_proof_sound_witness:
  "\<exists>p r. verify_consistency_proof 1 p = Inr r \<and> vr_valid r \<and>
    (event_digests isoformat_z [] = take (length ([] :: evidence_event list)) (event_digests isoformat_z [sample_event]) \<or>
     (let ls = map unhex (cp_leaf_hashes p); os = event_digests isoformat_z []; ns = event_digests isoformat_z [sample_event] in
       collides (node_inputs (take (length ([] :: evidence_event list)) ls)) (node_inputs (map leaf_digest os)) \<or>
       collides (node_inputs ls) (node_inputs (map leaf_digest ns)) \<or>
       collides (leaf_inputs os) (leaf_inputs (take (length ([] :: evidence_event list)) ns))))"
proof -
  let ?root = "leaf_hash_of isoformat_z sample_event"
  let ?p = "\<lparr> cp_schema_version = ''ets.consistency_proof.v1'', cp_previous_tree_size = 0, cp_latest_tree_size = 1,
    cp_previous_root_hash = empty_tree_root, cp_latest_root_hash = ?root, cp_leaf_hashes = [?root],
    cp_hash_alg = ''sha256'', cp_generated_at_utc = 0 \<rparr>"
  have roots: "merkle_root [] = Inr empty_tree_root" "merkle_root [?root] = Inr ?root"
    by (simp_all add: merkle_root_def)
  have ok: "consistency_proof_ok ?p"
    using hex64_event_hash_of(2) [of isoformat_z sample_event, folded hash_field_hex64]
    by (simp add: consistency_proof_ok_def hash_field_def empty_tree_root_def)
  obtain r where r: "verify_consistency_proof 1 ?p = Inr r" "vr_valid r"
    by (simp add: verify_consistency_proof_def roots)
  have leaves: "log_leaves isoformat_z [sample_event] = [?root]" "log_leaves isoformat_z [] = []"
    by (simp_all add: map_leaf_hash_entries_of)
  from consistency_proof_sound [OF r ok, of isoformat_z "[]" "[sample_event]"] r show ?thesis
    unfolding leaves using roots by (intro exI [of _ ?p] exI [of _ r]) simp
qed

definition short_leaf_proof :: consistency_proof where
  "short_leaf_proof = \<lparr> cp_schema_version = ''ets.consistency_proof.v1'', cp_previous_tree_size = 0,
     cp_latest_tree_size = 1, cp_previous_root_hash = empty_tree_root, cp_latest_root_hash = empty_tree_root,
     cp_leaf_hashes = [''ab''], cp_hash_alg = ''sha256'', cp_generated_at_utc = 0 \<rparr>"

text \<open>
  \<^verbatim>\<open>verify_consistency_proof\<close> does not always return a result: a model-valid proof whose only leaf
  hash is short hexadecimal text makes it raise \<^verbatim>\<open>ValueError\<close>, because the model checks the leaf
  hashes for hexadecimal text but not for their length.
\<close>

theorem verify_consistency_proof_may_raise:
  "consistency_proof_ok short_leaf_proof \<and>
   verify_consistency_proof now short_leaf_proof = Inl (ValueError ''leaf_hash must be a SHA-256 hex digest'')"
  by (simp add: short_leaf_proof_def consistency_proof_ok_def verify_consistency_proof_def merkle_root_def
      hash_field_hex64 empty_tree_root_def hex_space_def hex_val_def require_sha256_hex_def)

end
