(* ===== verification/Ets_Linked.thy ===== *)
theory Ets_Linked
  imports Ets_Merkle Ets_Pytime
begin

text \<open>
  Hash-linked sequences and actions with effects, shared by several components.

  Blocks of the hash chain, entries of the vault journal and ballots of the election ledger are all
  numbered, carry the digest of their predecessor, and carry the canonical digest of their own
  payload. \<open>linked\<close> states this linkage; the locale \<open>hash_linked\<close> proves once that the last
  digest determines the whole sequence, given that a payload determines the content of an element.

  \<open>action\<close> is a computation on a mutable state that may raise: unlike a \<open>result\<close> alone it returns
  the state reached also when it raises, so that effects before an exception are kept.
\<close>

section \<open>Linked sequences\<close>

fun linked :: "('b \<Rightarrow> bool) \<Rightarrow> ('b \<Rightarrow> int) \<Rightarrow> ('b \<Rightarrow> string) \<Rightarrow> ('b \<Rightarrow> string) \<Rightarrow> ('b \<Rightarrow> json) \<Rightarrow>
    int \<Rightarrow> string \<Rightarrow> 'b list \<Rightarrow> bool" where
  "linked okb number previous digest payload n h [] \<longleftrightarrow> True"
| "linked okb number previous digest payload n h (b # bs) \<longleftrightarrow>
     okb b \<and> number b = n \<and> previous b = h \<and> digest b = canon_sha256 (payload b) \<and>
     linked okb number previous digest payload (n + 1) (digest b) bs"

definition last_digest :: "('b \<Rightarrow> string) \<Rightarrow> string \<Rightarrow> 'b list \<Rightarrow> string" where
  "last_digest digest h bs = (if bs = [] then h else digest (last bs))"

definition payload_inputs :: "('b \<Rightarrow> json) \<Rightarrow> 'b list \<Rightarrow> byte list list" where
  "payload_inputs payload bs = map (\<lambda>b. canon (payload b)) bs"

lemma linked_append:
  "linked okb number previous digest payload n h (bs @ cs) \<longleftrightarrow>
   linked okb number previous digest payload n h bs \<and>
   linked okb number previous digest payload (n + int (length bs)) (last_digest digest h bs) cs"
  by (induction bs arbitrary: n h) (auto simp: algebra_simps last_digest_def)

locale hash_linked =
  fixes okb :: "'b \<Rightarrow> bool" and number :: "'b \<Rightarrow> int" and previous :: "'b \<Rightarrow> string"
    and digest :: "'b \<Rightarrow> string" and payload :: "'b \<Rightarrow> json" and content :: "'b \<Rightarrow> 'c"
  assumes payload_ok: "okb b \<Longrightarrow> json_ok (payload b)"
    and payload_content: "\<lbrakk>okb a; okb b; jnorm (payload a) = jnorm (payload b)\<rbrakk> \<Longrightarrow> content a = content b"
    and content_link: "content a = content b \<Longrightarrow> number a = number b \<and> previous a = previous b"
begin

lemma digest_binding:
  assumes "okb a" "okb b" "canon_sha256 (payload a) = canon_sha256 (payload b)"
  shows "content a = content b \<or> sha256_collision (canon (payload a), canon (payload b))"
  using canon_sha256_eq_iff [OF payload_ok payload_ok] assms payload_content by blast

lemma chain_binding:
  assumes "linked okb number previous digest payload k h bs" "linked okb number previous digest payload k h cs" "bs \<noteq> []" "cs \<noteq> []" "digest (last bs) = digest (last cs)"
  shows "map content bs = map content cs \<or> collides (payload_inputs payload bs) (payload_inputs payload cs)"
  using assms
proof (induction bs arbitrary: cs rule: rev_induct)
  case (snoc b bs)
  from snoc.prems(4) obtain c cs' where cs: "cs = cs' @ [c]" by (cases cs rule: rev_cases) auto
  have b: "okb b" "digest b = canon_sha256 (payload b)" "number b = k + int (length bs)" "linked okb number previous digest payload k h bs" "previous b = last_digest digest h bs"
    using snoc.prems(1) by (auto simp: linked_append)
  have c: "okb c" "digest c = canon_sha256 (payload c)" "number c = k + int (length cs')" "linked okb number previous digest payload k h cs'" "previous c = last_digest digest h cs'"
    using snoc.prems(2) by (auto simp: linked_append cs)
  from digest_binding [OF b(1) c(1)] b(2) c(2) snoc.prems(5)
  consider (same) "content b = content c" | (coll) "collides (payload_inputs payload (bs @ [b])) (payload_inputs payload cs)"
    by (auto simp: cs collides_def payload_inputs_def)
  then show ?case
  proof cases
    case same
    then have eq: "length bs = length cs'" "previous b = previous c"
      using b(3) c(3) content_link [OF same] by auto
    show ?thesis
    proof (cases "bs = []")
      case True
      with eq same show ?thesis by (simp add: cs)
    next
      case False
      with eq have "cs' \<noteq> []" by auto
      with snoc.IH [OF b(4) c(4) False] False eq b(5) c(5) same show ?thesis
        by (auto simp: cs collides_def payload_inputs_def last_digest_def)
    qed
  qed blast
qed simp

end

text \<open>
  The same for sequences whose elements do not hash their number: the first has no predecessor digest, every
  later one has.
\<close>

fun glinked :: "('b \<Rightarrow> bool) \<Rightarrow> ('b \<Rightarrow> string option) \<Rightarrow> ('b \<Rightarrow> string) \<Rightarrow> ('b \<Rightarrow> json) \<Rightarrow> string option \<Rightarrow> 'b list \<Rightarrow> bool" where
  "glinked okb previous digest payload h [] \<longleftrightarrow> True"
| "glinked okb previous digest payload h (b # bs) \<longleftrightarrow>
     okb b \<and> previous b = h \<and> digest b = canon_sha256 (payload b) \<and> glinked okb previous digest payload (Some (digest b)) bs"

definition tip_digest :: "('b \<Rightarrow> string) \<Rightarrow> string option \<Rightarrow> 'b list \<Rightarrow> string option" where
  "tip_digest digest h bs = (if bs = [] then h else Some (digest (last bs)))"

lemma glinked_append:
  "glinked okb previous digest payload h (bs @ cs) \<longleftrightarrow>
   glinked okb previous digest payload h bs \<and> glinked okb previous digest payload (tip_digest digest h bs) cs"
  by (induction bs arbitrary: h) (auto simp: tip_digest_def)

locale genesis_linked =
  fixes okb :: "'b \<Rightarrow> bool" and previous :: "'b \<Rightarrow> string option"
    and digest :: "'b \<Rightarrow> string" and payload :: "'b \<Rightarrow> json" and content :: "'b \<Rightarrow> 'c"
  assumes payload_ok: "okb b \<Longrightarrow> json_ok (payload b)"
    and payload_content: "\<lbrakk>okb a; okb b; jnorm (payload a) = jnorm (payload b)\<rbrakk> \<Longrightarrow> content a = content b"
    and content_link: "content a = content b \<Longrightarrow> previous a = previous b"
begin

lemma digest_binding:
  assumes "okb a" "okb b" "canon_sha256 (payload a) = canon_sha256 (payload b)"
  shows "content a = content b \<or> sha256_collision (canon (payload a), canon (payload b))"
  using canon_sha256_eq_iff [OF payload_ok payload_ok] assms payload_content by blast

lemma chain_binding:
  assumes "glinked okb previous digest payload None bs" "glinked okb previous digest payload None cs" "bs \<noteq> []" "cs \<noteq> []" "digest (last bs) = digest (last cs)"
  shows "map content bs = map content cs \<or> collides (payload_inputs payload bs) (payload_inputs payload cs)"
  using assms
proof (induction bs arbitrary: cs rule: rev_induct)
  case (snoc b bs)
  from snoc.prems(4) obtain c cs' where cs: "cs = cs' @ [c]" by (cases cs rule: rev_cases) auto
  have b: "okb b" "digest b = canon_sha256 (payload b)" "glinked okb previous digest payload None bs" "previous b = tip_digest digest None bs"
    using snoc.prems(1) by (auto simp: glinked_append)
  have c: "okb c" "digest c = canon_sha256 (payload c)" "glinked okb previous digest payload None cs'" "previous c = tip_digest digest None cs'"
    using snoc.prems(2) by (auto simp: glinked_append cs)
  from digest_binding [OF b(1) c(1)] b(2) c(2) snoc.prems(5)
  consider (same) "content b = content c" | (coll) "collides (payload_inputs payload (bs @ [b])) (payload_inputs payload cs)"
    by (auto simp: cs collides_def payload_inputs_def)
  then show ?case
  proof cases
    case same
    then have tips: "tip_digest digest None bs = tip_digest digest None cs'"
      using b(4) c(4) content_link [OF same] by simp
    show ?thesis
    proof (cases "bs = []")
      case True
      with tips same show ?thesis by (auto simp: cs tip_digest_def split: if_split_asm)
    next
      case False
      with tips have "cs' \<noteq> []" "digest (last bs) = digest (last cs')" by (auto simp: tip_digest_def split: if_split_asm)
      with snoc.IH [OF b(3) c(3) False] same show ?thesis
        by (auto simp: cs collides_def payload_inputs_def)
    qed
  qed blast
qed simp

end

section \<open>Actions\<close>

type_synonym ('s, 'a) action = "'s \<Rightarrow> 'a result \<times> 's"

definition abind :: "('s, 'a) action \<Rightarrow> ('a \<Rightarrow> ('s, 'b) action) \<Rightarrow> ('s, 'b) action" where
  "abind m f s = (case m s of (Inl e, s') \<Rightarrow> (Inl e, s') | (Inr x, s') \<Rightarrow> f x s')"

definition alift :: "'a result \<Rightarrow> ('s, 'a) action" where
  "alift r s = (r, s)"

definition acheck :: "bool \<Rightarrow> exn \<Rightarrow> ('s, unit) action" where
  "acheck ok e s = (rcheck ok e, s)"

definition aread :: "('s \<Rightarrow> 'a result) \<Rightarrow> ('s, 'a) action" where
  "aread f s = (f s, s)"

definition awrite :: "('s \<Rightarrow> 's) \<Rightarrow> ('s, unit) action" where
  "awrite g s = (Inr (), g s)"

lemma abind_Inl [simp]: "m s = (Inl e, s') \<Longrightarrow> abind m f s = (Inl e, s')"
  by (simp add: abind_def)

lemma abind_Inr [simp]: "m s = (Inr x, s') \<Longrightarrow> abind m f s = f x s'"
  by (simp add: abind_def)

lemma abind_alift: "abind (alift r) f s = (case r of Inl e \<Rightarrow> (Inl e, s) | Inr x \<Rightarrow> f x s)"
  by (simp add: abind_def alift_def)

lemma abind_acheck: "abind (acheck ok e) f s = (if ok then f () s else (Inl e, s))"
  by (simp add: abind_def acheck_def rcheck_def)

lemma abind_aread: "abind (aread g) f s = (case g s of Inl e \<Rightarrow> (Inl e, s) | Inr x \<Rightarrow> f x s)"
  by (simp add: abind_def aread_def)

lemma abind_awrite: "abind (awrite g) f s = f () (g s)"
  by (simp add: abind_def awrite_def)

lemmas action_simps = abind_alift abind_acheck abind_aread abind_awrite alift_def acheck_def aread_def awrite_def

text \<open>Steps that only read leave the state to what follows them.\<close>

lemma snd_bind_alift: "R s \<Longrightarrow> (\<And>x. r = Inr x \<Longrightarrow> R (snd (f x s))) \<Longrightarrow> R (snd (abind (alift r) f s))"
  by (cases r) (simp_all add: action_simps)

lemma snd_bind_acheck: "R s \<Longrightarrow> (ok \<Longrightarrow> R (snd (f () s))) \<Longrightarrow> R (snd (abind (acheck ok e) f s))"
  by (simp add: action_simps)

text \<open>What holds of the value and the state when an action returns.\<close>

definition returns :: "('a \<Rightarrow> 's \<Rightarrow> bool) \<Rightarrow> 'a result \<times> 's \<Rightarrow> bool" where
  "returns Q x \<longleftrightarrow> (\<forall>y. fst x = Inr y \<longrightarrow> Q y (snd x))"

lemma returnsD: "returns Q x \<Longrightarrow> fst x = Inr y \<Longrightarrow> Q y (snd x)"
  by (simp add: returns_def)

lemma returns_alift: "(\<And>x. r = Inr x \<Longrightarrow> returns Q (f x s)) \<Longrightarrow> returns Q (abind (alift r) f s)"
  by (cases r) (simp_all add: action_simps returns_def)

lemma returns_acheck: "(ok \<Longrightarrow> returns Q (f () s)) \<Longrightarrow> returns Q (abind (acheck ok e) f s)"
  by (simp add: action_simps returns_def)

lemmas returns_reads = returns_alift returns_acheck

text \<open>An operation that raises leaves the state as it found it; one that returns satisfies its postcondition.\<close>

definition atomically :: "'s \<Rightarrow> ('a \<Rightarrow> 's \<Rightarrow> bool) \<Rightarrow> 'a result \<times> 's \<Rightarrow> bool" where
  "atomically s Q x \<longleftrightarrow> (case fst x of Inl _ \<Rightarrow> snd x = s | Inr y \<Rightarrow> Q y (snd x))"

lemma atomically_alift: "(\<And>x. r = Inr x \<Longrightarrow> atomically s Q (f x s)) \<Longrightarrow> atomically s Q (abind (alift r) f s)"
  by (cases r) (simp_all add: action_simps atomically_def)

lemma atomically_acheck: "(ok \<Longrightarrow> atomically s Q (f () s)) \<Longrightarrow> atomically s Q (abind (acheck ok e) f s)"
  by (simp add: action_simps atomically_def)

lemma atomically_aread: "(\<And>x. g s = Inr x \<Longrightarrow> atomically s Q (f x s)) \<Longrightarrow> atomically s Q (abind (aread g) f s)"
  by (cases "g s") (simp_all add: action_simps atomically_def)

lemma atomically_returns: "Q y s' \<Longrightarrow> atomically s Q (Inr y, s')"
  by (simp add: atomically_def)

lemma atomicallyE:
  assumes "atomically s Q x"
  obtains e where "x = (Inl e, s)" | y s' where "x = (Inr y, s')" "Q y s'"
  using assms by (cases x; cases "fst x") (auto simp: atomically_def)

lemmas atomically_reads = atomically_alift atomically_acheck atomically_aread

section \<open>Signatures\<close>

text \<open>
  Ed25519, a parameter of the components that sign: signing, the public key of a private key, and whether a signature is
  accepted. \<open>ed25519_ok\<close> is what is relied on.
\<close>

record ed25519 =
  ed_sign :: "byte list \<Rightarrow> byte list \<Rightarrow> byte list"
  ed_public :: "byte list \<Rightarrow> byte list"
  ed_accepts :: "byte list \<Rightarrow> byte list \<Rightarrow> byte list \<Rightarrow> bool"

definition ed25519_ok :: "ed25519 \<Rightarrow> bool" where
  "ed25519_ok ed \<longleftrightarrow> (\<forall>k m. length k = 32 \<longrightarrow> length (ed_sign ed k m) = 64 \<and> ed_accepts ed (ed_public ed k) (ed_sign ed k m) m)"

definition signature_accepted :: "ed25519 \<Rightarrow> string \<Rightarrow> string \<Rightarrow> json \<Rightarrow> bool" where
  "signature_accepted ed public_key_hex signature_hex payload =
     (case (fromhex_opt public_key_hex, fromhex_opt signature_hex) of
        (Some key, Some signature) \<Rightarrow> length key = 32 \<and> ed_accepts ed key signature (canon payload)
      | _ \<Rightarrow> False)"

definition opt_ok :: "('a \<Rightarrow> bool) \<Rightarrow> 'a option \<Rightarrow> bool" where
  "opt_ok p x = (case x of None \<Rightarrow> True | Some v \<Rightarrow> p v)"

end
