(* ===== verification/Ets_Hash_Chain.thy ===== *)
theory Ets_Hash_Chain
  imports Ets_Proofs Ets_Linked
begin

text \<open>
  Hash-chain blocks over log entries (\<^verbatim>\<open>ets/core/hash_chain.py\<close>): building a block, recomputing its
  hash, verifying a chain, exporting a block. A block is an unvalidated dataclass, so its creation
  time is a raw \<open>datetime\<close> and recomputing the hash may raise.

  The theorems: chains built by \<^verbatim>\<open>build_block\<close> verify, and the hash of the last block of a verified
  chain determines every block before it.
\<close>

section \<open>Model\<close>

definition genesis_block_hash :: string where
  "genesis_block_hash = replicate 64 (CHR ''0'')"

record hash_chain_block =
  hb_block_number :: int
  hb_previous_block_hash :: string
  hb_block_hash :: string
  hb_events :: "log_entry list"
  hb_created_at_utc :: datetime

record chain_verification_result =
  cv_valid :: bool
  cv_reason :: string
  cv_failed_block_number :: "int option"

definition naive_created_at :: exn where
  "naive_created_at = ValueError ''created_at_utc must be timezone-aware''"

definition entry_payload :: "log_entry \<Rightarrow> json" where
  "entry_payload entry = JObj
     [(''log_index'', JInt (le_log_index entry)), (''event_id'', JStr (le_event_id entry)),
      (''event_hash'', JStr (le_event_hash entry)), (''leaf_hash'', JStr (le_leaf_hash entry))]"

definition block_payload :: "int \<Rightarrow> string \<Rightarrow> log_entry list \<Rightarrow> utc \<Rightarrow> json" where
  "block_payload block_number previous_block_hash events created_at_utc = JObj
     [(''block_number'', JInt block_number), (''previous_block_hash'', JStr previous_block_hash),
      (''events'', JList (map entry_payload events)),
      (''created_at_utc'', JStr (isoformat_utc created_at_utc))]"

definition build_block :: "int \<Rightarrow> string \<Rightarrow> log_entry list \<Rightarrow> datetime \<Rightarrow> hash_chain_block result" where
  "build_block block_number previous_block_hash entries created_at_utc =
     rbind (rcheck (0 \<le> block_number) (ValueError ''block_number must be non-negative'')) (\<lambda>_.
     rbind (require_sha256_hex previous_block_hash ''previous_block_hash'') (\<lambda>_.
     rbind (utc_or_raise naive_created_at created_at_utc) (\<lambda>at.
     rbind (canonical_sha256 (py_of_json (block_payload block_number previous_block_hash entries at))) (\<lambda>block_hash.
     Inr \<lparr> hb_block_number = block_number, hb_previous_block_hash = previous_block_hash,
           hb_block_hash = block_hash, hb_events = entries, hb_created_at_utc = Aware at 0 \<rparr>))))"

definition recompute_block_hash :: "hash_chain_block \<Rightarrow> string result" where
  "recompute_block_hash block =
     rbind (utc_or_raise naive_created_at (hb_created_at_utc block)) (\<lambda>at.
     canonical_sha256 (py_of_json
       (block_payload (hb_block_number block) (hb_previous_block_hash block) (hb_events block) at)))"

definition chain_failure :: "hash_chain_block \<Rightarrow> string \<Rightarrow> chain_verification_result" where
  "chain_failure block reason =
     \<lparr> cv_valid = False, cv_reason = reason, cv_failed_block_number = Some (hb_block_number block) \<rparr>"

fun verify_blocks :: "int \<Rightarrow> string \<Rightarrow> hash_chain_block list \<Rightarrow> chain_verification_result result" where
  "verify_blocks expected_number expected_previous_hash [] =
     Inr \<lparr> cv_valid = True, cv_reason = ''ok'', cv_failed_block_number = None \<rparr>"
| "verify_blocks expected_number expected_previous_hash (block # blocks) =
     (if hb_block_number block \<noteq> expected_number
      then Inr (chain_failure block ''block number is not monotonic'')
      else if hb_previous_block_hash block \<noteq> expected_previous_hash
      then Inr (chain_failure block ''previous block hash does not match'')
      else rbind (recompute_block_hash block) (\<lambda>recomputed.
        if recomputed \<noteq> hb_block_hash block
        then Inr (chain_failure block ''block hash does not match block contents'')
        else verify_blocks (expected_number + 1) (hb_block_hash block) blocks))"

definition verify_chain :: "hash_chain_block list \<Rightarrow> chain_verification_result result" where
  "verify_chain blocks = verify_blocks 0 genesis_block_hash blocks"

definition export_block :: "hash_chain_block \<Rightarrow> json result" where
  "export_block block =
     rbind (utc_or_raise naive_created_at (hb_created_at_utc block)) (\<lambda>at.
     Inr (JObj
       [(''block_number'', JInt (hb_block_number block)),
        (''previous_block_hash'', JStr (hb_previous_block_hash block)),
        (''block_hash'', JStr (hb_block_hash block)),
        (''created_at_utc'', JStr (isoformat_utc at)),
        (''events'', JList (map entry_payload (hb_events block)))]))"

text \<open>A chain built block after block from the entries and creation times of its blocks.\<close>

fun build_blocks :: "int \<Rightarrow> string \<Rightarrow> (log_entry list \<times> datetime) list \<Rightarrow> hash_chain_block list result" where
  "build_blocks block_number previous_block_hash [] = Inr []"
| "build_blocks block_number previous_block_hash ((entries, at) # items) =
     rbind (build_block block_number previous_block_hash entries at) (\<lambda>block.
     rbind (build_blocks (block_number + 1) (hb_block_hash block) items) (\<lambda>blocks. Inr (block # blocks)))"

section \<open>What a block hash commits to\<close>

definition entry_summary :: "log_entry \<Rightarrow> int \<times> string \<times> string \<times> string" where
  "entry_summary en = (le_log_index en, le_event_id en, le_event_hash en, le_leaf_hash en)"

definition created_text :: "hash_chain_block \<Rightarrow> string" where
  "created_text b = (case hb_created_at_utc b of Naive _ \<Rightarrow> [] | Aware t off \<Rightarrow> isoformat_utc (t - off))"

definition block_content :: "hash_chain_block \<Rightarrow> int \<times> string \<times> (int \<times> string \<times> string \<times> string) list \<times> string" where
  "block_content b = (hb_block_number b, hb_previous_block_hash b, map entry_summary (hb_events b), created_text b)"

definition block_json :: "hash_chain_block \<Rightarrow> json" where
  "block_json b = (case hb_created_at_utc b of
     Naive _ \<Rightarrow> JNull
   | Aware t off \<Rightarrow> block_payload (hb_block_number b) (hb_previous_block_hash b) (hb_events b) (t - off))"

lemma block_payload_ok [simp]: "json_ok (block_payload n h es t)"
  by (simp add: block_payload_def entry_payload_def list_all_iff)

lemma entry_payload_inject: "jnorm (entry_payload a) = jnorm (entry_payload b) \<longleftrightarrow> entry_summary a = entry_summary b"
proof
  assume eq: "jnorm (entry_payload a) = jnorm (entry_payload b)"
  have "map (jnorm \<circ> snd) (case entry_payload a of JObj kvs \<Rightarrow> kvs) = map (jnorm \<circ> snd) (case entry_payload b of JObj kvs \<Rightarrow> kvs)"
    using eq unfolding entry_payload_def by (simp only: json.case) (rule jnorm_JObj_values, simp_all)
  then show "entry_summary a = entry_summary b" by (simp add: entry_payload_def entry_summary_def)
qed (simp add: entry_payload_def entry_summary_def)

lemma block_payload_inject:
  assumes "jnorm (block_payload n h es t) = jnorm (block_payload m k fs u)"
  shows "n = m \<and> h = k \<and> map entry_summary es = map entry_summary fs \<and> isoformat_utc t = isoformat_utc u"
proof -
  have "map (jnorm \<circ> snd) (case block_payload n h es t of JObj kvs \<Rightarrow> kvs) =
      map (jnorm \<circ> snd) (case block_payload m k fs u of JObj kvs \<Rightarrow> kvs)"
    using assms unfolding block_payload_def by (simp only: json.case) (rule jnorm_JObj_values, simp_all)
  then have "map (jnorm \<circ> entry_payload) es = map (jnorm \<circ> entry_payload) fs"
    and rest: "n = m \<and> h = k \<and> isoformat_utc t = isoformat_utc u"
    by (simp_all add: block_payload_def)
  then have "map entry_summary es = map entry_summary fs"
    by (simp add: map_equality_iff entry_payload_inject)
  with rest show ?thesis by simp
qed

definition has_created_at :: "hash_chain_block \<Rightarrow> bool" where
  "has_created_at b \<longleftrightarrow> (\<exists>t off. hb_created_at_utc b = Aware t off)"

lemma block_json_content:
  assumes "has_created_at a" "has_created_at b" "jnorm (block_json a) = jnorm (block_json b)"
  shows "block_content a = block_content b"
proof -
  obtain t off where a: "hb_created_at_utc a = Aware t off" using assms(1) by (auto simp: has_created_at_def)
  obtain u off' where b: "hb_created_at_utc b = Aware u off'" using assms(2) by (auto simp: has_created_at_def)
  from block_payload_inject [OF assms(3) [unfolded block_json_def a b datetime.case]] show ?thesis
    by (simp add: block_content_def created_text_def a b)
qed

interpretation blocks: hash_linked has_created_at hb_block_number hb_previous_block_hash hb_block_hash block_json block_content
proof
  show "has_created_at b \<Longrightarrow> json_ok (block_json b)" for b
    by (auto simp: has_created_at_def block_json_def)
  show "block_content a = block_content b \<Longrightarrow> hb_block_number a = hb_block_number b \<and>
      hb_previous_block_hash a = hb_previous_block_hash b" for a b
    by (simp add: block_content_def)
qed (rule block_json_content)

abbreviation linked_blocks :: "int \<Rightarrow> string \<Rightarrow> hash_chain_block list \<Rightarrow> bool" where
  "linked_blocks \<equiv> linked has_created_at hb_block_number hb_previous_block_hash hb_block_hash block_json"

section \<open>Verified chains\<close>

lemma recompute_eq:
  "recompute_block_hash b = Inr h \<longleftrightarrow> has_created_at b \<and> h = canon_sha256 (block_json b)"
  by (auto simp: recompute_block_hash_def block_json_def utc_or_raise_eq_Inr canonical_sha256_native has_created_at_def)

lemma verify_blocks_linked: "(\<exists>r. verify_blocks n h bs = Inr r \<and> cv_valid r) \<longleftrightarrow> linked_blocks n h bs"
proof (induction bs arbitrary: n h)
  case (Cons b bs)
  have "(\<exists>r. verify_blocks n h (b # bs) = Inr r \<and> cv_valid r) \<longleftrightarrow> hb_block_number b = n \<and> hb_previous_block_hash b = h \<and>
      recompute_block_hash b = Inr (hb_block_hash b) \<and> (\<exists>r. verify_blocks (n + 1) (hb_block_hash b) bs = Inr r \<and> cv_valid r)"
    by (cases "recompute_block_hash b") (auto simp: chain_failure_def)
  also have "\<dots> \<longleftrightarrow> linked_blocks n h (b # bs)"
    unfolding Cons recompute_eq by auto
  finally show ?case .
qed simp

lemma build_blocks_linked:
  assumes "build_blocks n h items = Inr bs"
  shows "linked_blocks n h bs \<and> map hb_events bs = map fst items"
  using assms
proof (induction items arbitrary: n h bs)
  case (Cons item items)
  obtain es at where item: "item = (es, at)" by (cases item)
  from Cons.prems obtain b rest where b: "build_block n h es at = Inr b"
    "build_blocks (n + 1) (hb_block_hash b) items = Inr rest" "bs = b # rest"
    by (auto simp: item)
  from b(1) have "has_created_at b \<and> hb_block_hash b = canon_sha256 (block_json b) \<and> hb_block_number b = n \<and>
      hb_previous_block_hash b = h \<and> hb_events b = es"
    by (auto simp: build_block_def has_created_at_def block_json_def canonical_sha256_native)
  with Cons.IH [OF b(2)] b(3) show ?case by (simp add: item)
qed simp

lemma build_blocks_total:
  assumes "0 \<le> n" "hex64 h" "\<forall>(es, at) \<in> set items. \<exists>t off. at = Aware t off"
  shows "\<exists>bs. build_blocks n h items = Inr bs"
  using assms
proof (induction items arbitrary: n h)
  case (Cons item items)
  obtain es t off where item: "item = (es, Aware t off)" using Cons.prems(3) by (cases item) auto
  obtain b where "build_block n h es (Aware t off) = Inr b" "hex64 (hb_block_hash b)"
    using Cons.prems by (auto simp: build_block_def canonical_sha256_native)
  with Cons.IH [of "n + 1" "hb_block_hash b"] Cons.prems show ?case by (auto simp: item)
qed simp

lemma hex64_genesis: "hex64 genesis_block_hash"
proof -
  have "\<exists>b. fromhex_opt (replicate (2 * n) (CHR ''0'')) = Some b" for n
    by (induction n) (auto simp: hex_space_def hex_val_def numeral_2_eq_2)
  from this [of 32] show ?thesis by (auto simp: hex64_def genesis_block_hash_def fromhex_def)
qed

section \<open>Properties\<close>

text \<open>
  A chain built block after block from the genesis hash, over any entries and timezone-aware
  creation times, exists, holds the given entries and is accepted by \<^verbatim>\<open>verify_chain\<close>.
\<close>

theorem built_chain_verifies:
  assumes "\<forall>(es, at) \<in> set items. \<exists>t off. at = Aware t off"
  shows "\<exists>bs r. build_blocks 0 genesis_block_hash items = Inr bs \<and> map hb_events bs = map fst items \<and>
    verify_chain bs = Inr r \<and> cv_valid r"
  using build_blocks_total [OF _ hex64_genesis assms, of 0] build_blocks_linked [of 0 genesis_block_hash items]
    verify_blocks_linked [of 0 genesis_block_hash]
  by (fastforce simp: verify_chain_def)

theorem built_chain_verifies_witness:
  "\<exists>bs r. build_blocks 0 genesis_block_hash [(entries_of isoformat_z [sample_event], Aware 5 0), ([], Aware 9 3)] = Inr bs \<and>
    map hb_events bs = map fst [(entries_of isoformat_z [sample_event], Aware 5 0), ([], Aware 9 3)] \<and>
    verify_chain bs = Inr r \<and> cv_valid r"
  by (rule built_chain_verifies) simp

text \<open>
  The chain is tamper-evident: two chains that both verify and end in the same block hash have
  the same length and, block by block, the same number, linkage, entries (index, identifier, hashes)
  and printed creation time, unless two hashed block payloads are a SHA-256 collision.
\<close>

theorem verified_chain_binds_history:
  assumes "verify_chain bs = Inr r" "cv_valid r" "verify_chain cs = Inr q" "cv_valid q"
    and "bs \<noteq> []" "cs \<noteq> []" "hb_block_hash (last bs) = hb_block_hash (last cs)"
  shows "map block_content bs = map block_content cs \<or> collides (payload_inputs block_json bs) (payload_inputs block_json cs)"
  using assms verify_blocks_linked [of 0 genesis_block_hash bs] verify_blocks_linked [of 0 genesis_block_hash cs]
  by (intro blocks.chain_binding [of 0 genesis_block_hash]) (auto simp: verify_chain_def)

theorem verified_chain_binds_history_witness:
  "\<exists>bs r. verify_chain bs = Inr r \<and> cv_valid r \<and> bs \<noteq> [] \<and>
    (map block_content bs = map block_content bs \<or> collides (payload_inputs block_json bs) (payload_inputs block_json bs))"
proof -
  obtain bs r where bs: "map hb_events bs = map fst [(entries_of isoformat_z [sample_event], Aware 5 0)]"
    "verify_chain bs = Inr r" "cv_valid r"
    using build_blocks_total [OF _ hex64_genesis, of 0 "[(entries_of isoformat_z [sample_event], Aware 5 0)]"]
      build_blocks_linked [of 0 genesis_block_hash] verify_blocks_linked [of 0 genesis_block_hash]
    by (fastforce simp: verify_chain_def simp del: build_blocks.simps)
  then have "bs \<noteq> []" by auto
  with verified_chain_binds_history [OF bs(2,3) bs(2,3) this this refl] bs show ?thesis by blast
qed

end
