(* ===== verification/Ets_Tree_Head.thy ===== *)
theory Ets_Tree_Head
  imports Ets_Proofs
begin

text \<open>
  Tree heads, their signatures and anchor exports (\<^verbatim>\<open>ets/core/tree_head.py\<close>, \<^verbatim>\<open>ets/core/signing.py\<close>,
  \<^verbatim>\<open>ets/core/anchors.py\<close>).

  The signature schemes belong to the \<^verbatim>\<open>cryptography\<close> package and enter as the parameters
  \<open>ed_load\<close>, \<open>ed_sign\<close>, \<open>ed_verify\<close> and \<open>ps_verify\<close>; \<open>Inr False\<close> of a verifier stands for the exceptions the
  code catches and turns into \<^verbatim>\<open>False\<close>, \<open>Inl\<close> for any other. A signer is a function on tree heads; the contract of
  the \<^verbatim>\<open>TreeHeadSigner\<close> protocol, that only the signing envelope changes, is the locale \<open>tree_head_signer\<close>, interpreted for the three
  signers of the code.
\<close>

section \<open>Tree heads\<close>

record signed_tree_head =
  th_tree_size :: int
  th_root_hash :: string
  th_created_at_utc :: utc
  th_log_id :: string
  th_signature_alg :: "string option"
  th_signature :: "string option"
  th_public_key_id :: "string option"

definition signed_tree_head_ok :: "signed_tree_head \<Rightarrow> bool" where
  "signed_tree_head_ok th \<longleftrightarrow> 0 \<le> th_tree_size th \<and> hash_field (th_root_hash th) \<and> th_log_id th \<noteq> []"

definition SignedTreeHead :: "int \<Rightarrow> string \<Rightarrow> datetime \<Rightarrow> string \<Rightarrow> signed_tree_head result" where
  "SignedTreeHead tree_size root_hash created_at_utc log_id =
     rbind (utc_or_raise (ValidationError ''SignedTreeHead'') created_at_utc) (\<lambda>at.
     let th = \<lparr> th_tree_size = tree_size, th_root_hash = root_hash, th_created_at_utc = at, th_log_id = log_id,
                th_signature_alg = None, th_signature = None, th_public_key_id = None \<rparr>
     in if signed_tree_head_ok th then Inr th else Inl (ValidationError ''SignedTreeHead''))"

definition dump_tree_head :: "(utc \<Rightarrow> string) \<Rightarrow> signed_tree_head \<Rightarrow> json" where
  "dump_tree_head dt th = JObj
     [(''tree_size'', JInt (th_tree_size th)), (''root_hash'', JStr (th_root_hash th)),
      (''created_at_utc'', JStr (dt (th_created_at_utc th))), (''log_id'', JStr (th_log_id th)),
      (''signature_alg'', JOpt (th_signature_alg th)), (''signature'', JOpt (th_signature th)),
      (''public_key_id'', JOpt (th_public_key_id th))]"

section \<open>Signing\<close>

definition tree_head_signature_payload :: "(utc \<Rightarrow> string) \<Rightarrow> signed_tree_head \<Rightarrow> byte list" where
  "tree_head_signature_payload dt th =
     canon (dump_tree_head dt (th \<lparr> th_signature_alg := None, th_signature := None, th_public_key_id := None \<rparr>))"

definition no_op_sign :: "signed_tree_head \<Rightarrow> signed_tree_head result" where
  "no_op_sign th = Inr (th \<lparr> th_signature_alg := None, th_signature := None, th_public_key_id := None \<rparr>)"

record ed25519_signer =
  es_private_key :: "byte list"
  es_public_key_id :: string

definition Ed25519TreeHeadSigner :: "(byte list \<Rightarrow> unit result) \<Rightarrow> string \<Rightarrow> string \<Rightarrow> ed25519_signer result" where
  "Ed25519TreeHeadSigner ed_load private_key_hex public_key_id =
     rbind (rcheck (public_key_id \<noteq> []) (RuntimeError ''public_key_id is required for Ed25519 signing'')) (\<lambda>_.
     rbind (fromhex private_key_hex) (\<lambda>key.
     rbind (ed_load key) (\<lambda>_. Inr \<lparr> es_private_key = key, es_public_key_id = public_key_id \<rparr>)))"

definition ed25519_sign ::
  "(byte list \<Rightarrow> byte list \<Rightarrow> byte list) \<Rightarrow> (utc \<Rightarrow> string) \<Rightarrow> ed25519_signer \<Rightarrow> signed_tree_head \<Rightarrow> signed_tree_head result" where
  "ed25519_sign ed_sign dt self th =
     (let payload = tree_head_signature_payload dt th;
          signature = hexlify (ed_sign (es_private_key self) payload)
      in Inr (th \<lparr> th_signature_alg := Some ''ed25519'', th_signature := Some signature,
                   th_public_key_id := Some (es_public_key_id self) \<rparr>))"

record azure_signer =
  az_vault_url :: string
  az_key_name :: string
  az_key_version :: string
  az_sign_digest :: "byte list \<Rightarrow> byte list"

definition azure_public_key_id :: "azure_signer \<Rightarrow> string" where
  "azure_public_key_id self = az_vault_url self @ ''/keys/'' @ az_key_name self @ ''/'' @ az_key_version self"

definition azure_sign :: "(utc \<Rightarrow> string) \<Rightarrow> azure_signer \<Rightarrow> signed_tree_head \<Rightarrow> signed_tree_head result" where
  "azure_sign dt self th =
     (let payload = tree_head_signature_payload dt th;
          digest = sha256 payload;
          signature = hexlify (az_sign_digest self digest)
      in if signature = [] then Inl (RuntimeError ''Azure signer returned an empty signature'')
         else Inr (th \<lparr> th_signature_alg := Some ''ps256'', th_signature := Some signature,
                        th_public_key_id := Some (azure_public_key_id self) \<rparr>))"

definition verify_ed25519_tree_head_signature ::
  "(byte list \<Rightarrow> byte list \<Rightarrow> byte list \<Rightarrow> bool result) \<Rightarrow> (utc \<Rightarrow> string) \<Rightarrow> signed_tree_head \<Rightarrow> string \<Rightarrow> bool result" where
  "verify_ed25519_tree_head_signature ed_verify dt th public_key_hex =
     (case (fromhex_opt public_key_hex, fromhex_opt (case th_signature th of None \<Rightarrow> [] | Some s \<Rightarrow> s)) of
        (Some key, Some signature) \<Rightarrow> ed_verify key signature (tree_head_signature_payload dt th)
      | _ \<Rightarrow> Inr False)"

definition verify_ps256_tree_head_signature ::
  "(byte list \<Rightarrow> byte list \<Rightarrow> byte list \<Rightarrow> bool result) \<Rightarrow> (utc \<Rightarrow> string) \<Rightarrow> signed_tree_head \<Rightarrow> string \<Rightarrow> bool result" where
  "verify_ps256_tree_head_signature ps_verify dt th public_key_hex =
     (case (fromhex_opt public_key_hex, fromhex_opt (case th_signature th of None \<Rightarrow> [] | Some s \<Rightarrow> s)) of
        (Some key, Some signature) \<Rightarrow> ps_verify key signature (sha256 (tree_head_signature_payload dt th))
      | _ \<Rightarrow> Inr False)"

definition verify_tree_head_signature ::
  "(byte list \<Rightarrow> byte list \<Rightarrow> byte list \<Rightarrow> bool result) \<Rightarrow> (byte list \<Rightarrow> byte list \<Rightarrow> byte list \<Rightarrow> bool result) \<Rightarrow>
   (utc \<Rightarrow> string) \<Rightarrow> signed_tree_head \<Rightarrow> string \<Rightarrow> bool result" where
  "verify_tree_head_signature ed_verify ps_verify dt th public_key_hex =
     (if th_signature th = None then Inr False
      else if th_signature_alg th = Some ''ed25519''
      then verify_ed25519_tree_head_signature ed_verify dt th public_key_hex
      else if th_signature_alg th = Some ''ps256''
      then verify_ps256_tree_head_signature ps_verify dt th public_key_hex
      else Inr False)"

section \<open>Anchor exports\<close>

record anchor_export =
  ax_schema_version :: string
  ax_anchor_id :: string
  ax_anchor_hash :: string
  ax_target :: string
  ax_source_log_id :: string
  ax_tree_size :: int
  ax_merkle_root :: string
  ax_latest_block_hash :: string
  ax_signed_tree_head :: signed_tree_head
  ax_exported_at_utc :: utc
  ax_notes :: "string list"

record anchor_verification_result =
  av_valid :: bool
  av_reason :: string
  av_anchor_id :: string
  av_anchor_hash :: string
  av_source_log_id :: string
  av_tree_size :: int
  av_merkle_root :: string

definition anchor_targets :: "string list" where
  "anchor_targets = [''github_release'', ''azure_immutable_storage'', ''local_file'']"

definition anchor_export_ok :: "anchor_export \<Rightarrow> bool" where
  "anchor_export_ok a \<longleftrightarrow> ax_anchor_id a \<noteq> [] \<and> hash_field (ax_anchor_hash a) \<and> ax_target a \<in> set anchor_targets \<and>
     ax_source_log_id a \<noteq> [] \<and> 0 \<le> ax_tree_size a \<and> hash_field (ax_merkle_root a) \<and> hash_field (ax_latest_block_hash a)"

definition anchor_export_payload :: "(utc \<Rightarrow> string) \<Rightarrow> anchor_export \<Rightarrow> json" where
  "anchor_export_payload dt a = JObj
     [(''schema_version'', JStr (ax_schema_version a)), (''target'', JStr (ax_target a)),
      (''source_log_id'', JStr (ax_source_log_id a)), (''tree_size'', JInt (ax_tree_size a)),
      (''merkle_root'', JStr (ax_merkle_root a)), (''latest_block_hash'', JStr (ax_latest_block_hash a)),
      (''signed_tree_head'', dump_tree_head dt (ax_signed_tree_head a)),
      (''exported_at_utc'', JStr (isoformat_utc (ax_exported_at_utc a))),
      (''notes'', JList (map JStr (ax_notes a)))]"

definition make_anchor_id :: "string \<Rightarrow> string \<Rightarrow> int \<Rightarrow> string \<Rightarrow> string" where
  "make_anchor_id target source_log_id tree_size anchor_hash =
     ''ets-anchor:'' @ target @ '':'' @ source_log_id @ '':'' @ show_int tree_size @ '':'' @ take 16 anchor_hash"

definition build_anchor_export ::
  "(utc \<Rightarrow> string) \<Rightarrow> string \<Rightarrow> signed_tree_head \<Rightarrow> string \<Rightarrow> datetime \<Rightarrow> string list \<Rightarrow> anchor_export result" where
  "build_anchor_export dt target tree_head latest_block_hash exported_at_utc notes =
     rbind (utc_or_raise (ValueError ''exported_at_utc must be timezone-aware'') exported_at_utc) (\<lambda>exported_at.
     rbind (require_sha256_hex latest_block_hash ''latest_block_hash'') (\<lambda>_.
     let partial = \<lparr> ax_schema_version = ''ets.anchor_export.v1'', ax_anchor_id = ''pending'',
           ax_anchor_hash = replicate 64 (CHR ''0''), ax_target = target, ax_source_log_id = th_log_id tree_head,
           ax_tree_size = th_tree_size tree_head, ax_merkle_root = th_root_hash tree_head,
           ax_latest_block_hash = latest_block_hash, ax_signed_tree_head = tree_head,
           ax_exported_at_utc = exported_at, ax_notes = notes \<rparr> in
     rbind (rcheck (anchor_export_ok partial) (ValidationError ''AnchorExport'')) (\<lambda>_.
     let anchor_hash = canon_sha256 (anchor_export_payload dt partial);
         anchor_id = make_anchor_id target (th_log_id tree_head) (th_tree_size tree_head) anchor_hash
     in Inr (partial \<lparr> ax_anchor_id := anchor_id, ax_anchor_hash := anchor_hash \<rparr>))))"

definition anchor_result :: "anchor_export \<Rightarrow> bool \<Rightarrow> string \<Rightarrow> anchor_verification_result" where
  "anchor_result a valid reason =
     \<lparr> av_valid = valid, av_reason = reason, av_anchor_id = ax_anchor_id a, av_anchor_hash = ax_anchor_hash a,
       av_source_log_id = ax_source_log_id a, av_tree_size = ax_tree_size a, av_merkle_root = ax_merkle_root a \<rparr>"

definition verify_anchor_export :: "(utc \<Rightarrow> string) \<Rightarrow> anchor_export \<Rightarrow> anchor_verification_result" where
  "verify_anchor_export dt a =
     (if ax_source_log_id a \<noteq> th_log_id (ax_signed_tree_head a)
      then anchor_result a False ''source log id does not match tree head''
      else if ax_tree_size a \<noteq> th_tree_size (ax_signed_tree_head a)
      then anchor_result a False ''tree size does not match tree head''
      else if ax_merkle_root a \<noteq> th_root_hash (ax_signed_tree_head a)
      then anchor_result a False ''merkle root does not match tree head''
      else let expected_hash = canon_sha256 (anchor_export_payload dt a) in
        if ax_anchor_hash a \<noteq> expected_hash then anchor_result a False ''anchor hash does not match contents''
        else let expected_id = make_anchor_id (ax_target a) (ax_source_log_id a) (ax_tree_size a) expected_hash in
          if ax_anchor_id a \<noteq> expected_id then anchor_result a False ''anchor id does not match contents''
          else anchor_result a True ''ok'')"

section \<open>Lemmas\<close>

lemma json_ok_JOpt [simp]: "json_ok (JOpt x)"
  by (simp add: JOpt_def split: option.splits)

lemma dump_tree_head_ok [simp]: "json_ok (dump_tree_head dt th)"
  by (simp add: dump_tree_head_def)

lemma dump_tree_head_inject:
  assumes "jnorm (dump_tree_head dt a) = jnorm (dump_tree_head dt b)"
  shows "b = a \<lparr> th_created_at_utc := th_created_at_utc b \<rparr> \<and> dt (th_created_at_utc a) = dt (th_created_at_utc b)"
proof -
  have "map (jnorm \<circ> snd) (case dump_tree_head dt a of JObj kvs \<Rightarrow> kvs) =
      map (jnorm \<circ> snd) (case dump_tree_head dt b of JObj kvs \<Rightarrow> kvs)"
    using assms unfolding dump_tree_head_def by (simp only: json.case) (rule jnorm_JObj_values, simp_all)
  then show ?thesis by (simp add: dump_tree_head_def)
qed

lemma anchor_payload_ok [simp]: "json_ok (anchor_export_payload dt a)"
  by (simp add: anchor_export_payload_def list_all_iff)

lemma anchor_payload_inject:
  assumes "jnorm (anchor_export_payload dt a) = jnorm (anchor_export_payload dt b)"
  shows "ax_schema_version a = ax_schema_version b \<and> ax_target a = ax_target b \<and> ax_source_log_id a = ax_source_log_id b \<and>
    ax_tree_size a = ax_tree_size b \<and> ax_merkle_root a = ax_merkle_root b \<and> ax_latest_block_hash a = ax_latest_block_hash b \<and>
    jnorm (dump_tree_head dt (ax_signed_tree_head a)) = jnorm (dump_tree_head dt (ax_signed_tree_head b)) \<and>
    isoformat_utc (ax_exported_at_utc a) = isoformat_utc (ax_exported_at_utc b) \<and> ax_notes a = ax_notes b"
proof -
  have "map (jnorm \<circ> snd) (case anchor_export_payload dt a of JObj kvs \<Rightarrow> kvs) =
      map (jnorm \<circ> snd) (case anchor_export_payload dt b of JObj kvs \<Rightarrow> kvs)"
    using assms unfolding anchor_export_payload_def by (simp only: json.case) (rule jnorm_JObj_values, simp_all)
  moreover have "inj JStr" by (simp add: inj_def)
  ultimately show ?thesis by (simp add: anchor_export_payload_def comp_def inj_map_eq_map)
qed

section \<open>The contract of a signer\<close>

locale tree_head_signer =
  fixes dt :: "utc \<Rightarrow> string" and sign :: "signed_tree_head \<Rightarrow> signed_tree_head result"
  assumes only_envelope: "sign th = Inr th' \<Longrightarrow> \<exists>alg sig key. th' = th \<lparr> th_signature_alg := alg, th_signature := sig, th_public_key_id := key \<rparr>"
begin

lemma signed_payload: "sign th = Inr th' \<Longrightarrow> tree_head_signature_payload dt th' = tree_head_signature_payload dt th"
  by (auto simp: tree_head_signature_payload_def dest: only_envelope)

lemma signed_fields:
  "sign th = Inr th' \<Longrightarrow> th_tree_size th' = th_tree_size th \<and> th_root_hash th' = th_root_hash th \<and>
     th_log_id th' = th_log_id th \<and> th_created_at_utc th' = th_created_at_utc th"
  by (auto dest: only_envelope)

lemma signed_ok: "sign th = Inr th' \<Longrightarrow> signed_tree_head_ok th' = signed_tree_head_ok th"
  by (auto simp: signed_tree_head_ok_def dest: only_envelope)

end

interpretation no_op: tree_head_signer dt no_op_sign for dt
  by unfold_locales (auto simp: no_op_sign_def)

interpretation ed: tree_head_signer dt "ed25519_sign ed_sign dt self" for dt ed_sign self
  by unfold_locales (auto simp: ed25519_sign_def Let_def)

interpretation azure: tree_head_signer dt "azure_sign dt self" for dt self
  by unfold_locales (auto simp: azure_sign_def Let_def split: if_splits)

section \<open>Properties\<close>

text \<open>
  The signed bytes determine the tree head: two tree heads have the same signature payload
  exactly when they agree on size, root, log and printed time, whatever their signing envelopes.
\<close>

theorem signature_payload_binds_tree_head:
  "tree_head_signature_payload dt a = tree_head_signature_payload dt b \<longleftrightarrow>
   th_tree_size a = th_tree_size b \<and> th_root_hash a = th_root_hash b \<and> th_log_id a = th_log_id b \<and>
   dt (th_created_at_utc a) = dt (th_created_at_utc b)"
proof -
  let ?strip = "\<lambda>th :: signed_tree_head. th \<lparr> th_signature_alg := None, th_signature := None, th_public_key_id := None \<rparr>"
  have "tree_head_signature_payload dt a = tree_head_signature_payload dt b \<longleftrightarrow>
      jnorm (dump_tree_head dt (?strip a)) = jnorm (dump_tree_head dt (?strip b))"
    by (simp add: tree_head_signature_payload_def canon_eq_iff del: jnorm.simps)
  also have "\<dots> \<longleftrightarrow> th_tree_size a = th_tree_size b \<and> th_root_hash a = th_root_hash b \<and> th_log_id a = th_log_id b \<and>
      dt (th_created_at_utc a) = dt (th_created_at_utc b)"
    using dump_tree_head_inject [of dt "?strip a" "?strip b"]
    by (cases a; cases b) (auto simp: dump_tree_head_def)
  finally show ?thesis .
qed

text \<open>
  A head signed with an Ed25519 key verifies under that key, given that the scheme verifies its
  own signatures; and because only the envelope changes, the signature also verifies for no head
  with other bytes unless the scheme itself accepts it for them.
\<close>

theorem ed25519_sign_verifies:
  assumes correct: "\<And>m. ed_verify (pub (es_private_key self)) (ed_sign (es_private_key self) m) m = Inr True"
    and signed: "ed25519_sign ed_sign dt self th = Inr th'"
  shows "verify_tree_head_signature ed_verify ps_verify dt th' (hexlify (pub (es_private_key self))) = Inr True \<and>
    verify_tree_head_signature ed_verify ps_verify dt (th' \<lparr> th_tree_size := n, th_root_hash := r \<rparr>) (hexlify (pub (es_private_key self))) =
      ed_verify (pub (es_private_key self)) (ed_sign (es_private_key self) (tree_head_signature_payload dt th))
        (tree_head_signature_payload dt (th \<lparr> th_tree_size := n, th_root_hash := r \<rparr>)) \<and>
    th_tree_size th' = th_tree_size th \<and> th_root_hash th' = th_root_hash th \<and> th_log_id th' = th_log_id th"
  using signed correct ed.signed_payload [OF signed] ed.signed_fields [OF signed]
  by (auto simp: ed25519_sign_def verify_tree_head_signature_def verify_ed25519_tree_head_signature_def Let_def
      tree_head_signature_payload_def)

definition sample_tree_head :: signed_tree_head where
  "sample_tree_head = \<lparr> th_tree_size = 1, th_root_hash = sha256_hex [], th_created_at_utc = 0, th_log_id = ''log'',
     th_signature_alg = None, th_signature = None, th_public_key_id = None \<rparr>"

theorem ed25519_sign_verifies_witness:
  "\<exists>th'. ed25519_sign (\<lambda>k m. k @ m) isoformat_z \<lparr> es_private_key = [7], es_public_key_id = ''k'' \<rparr> sample_tree_head = Inr th' \<and>
    verify_tree_head_signature (\<lambda>k s m. Inr (s = k @ m)) (\<lambda>_ _ _. Inr False) isoformat_z th' (hexlify [7]) = Inr True"
proof -
  obtain th' where th': "ed25519_sign (\<lambda>k m. k @ m) isoformat_z \<lparr> es_private_key = [7], es_public_key_id = ''k'' \<rparr> sample_tree_head = Inr th'"
    by (simp add: ed25519_sign_def Let_def)
  with ed25519_sign_verifies [where pub = id and ed_verify = "\<lambda>k s m. Inr (s = k @ m)", OF _ th'] show ?thesis by auto
qed

text \<open>
  Nothing unsigned verifies: when \<^verbatim>\<open>verify_tree_head_signature\<close> returns true, the head carries a
  hexadecimal signature under one of the two supported algorithms and the scheme has accepted it
  over the canonical bytes of the head (their SHA-256 digest for PS256).
\<close>

theorem verified_head_is_signed:
  assumes "verify_tree_head_signature ed_verify ps_verify dt th key = Inr True"
  shows "\<exists>sig k s. th_signature th = Some sig \<and> fromhex sig = Inr s \<and> fromhex key = Inr k \<and>
    (th_signature_alg th = Some ''ed25519'' \<and> ed_verify k s (tree_head_signature_payload dt th) = Inr True \<or>
     th_signature_alg th = Some ''ps256'' \<and> ps_verify k s (sha256 (tree_head_signature_payload dt th)) = Inr True)"
  using assms
  by (auto simp: verify_tree_head_signature_def verify_ed25519_tree_head_signature_def
      verify_ps256_tree_head_signature_def fromhex_def split: if_splits option.splits)

theorem verified_head_is_signed_witness:
  "\<exists>sig k s. th_signature (sample_tree_head \<lparr> th_signature_alg := Some ''ps256'', th_signature := Some ''0a'' \<rparr>) = Some sig \<and>
    fromhex sig = Inr s \<and> fromhex ''0b'' = Inr k \<and>
    (th_signature_alg (sample_tree_head \<lparr> th_signature_alg := Some ''ps256'', th_signature := Some ''0a'' \<rparr>) = Some ''ed25519'' \<and>
       (\<lambda>_ _ _. Inr False :: bool result) k s
         (tree_head_signature_payload isoformat_z (sample_tree_head \<lparr> th_signature_alg := Some ''ps256'', th_signature := Some ''0a'' \<rparr>)) = Inr True \<or>
     th_signature_alg (sample_tree_head \<lparr> th_signature_alg := Some ''ps256'', th_signature := Some ''0a'' \<rparr>) = Some ''ps256'' \<and>
       (\<lambda>_ _ _. Inr True :: bool result) k s
         (sha256 (tree_head_signature_payload isoformat_z (sample_tree_head \<lparr> th_signature_alg := Some ''ps256'', th_signature := Some ''0a'' \<rparr>))) = Inr True)"
  by (rule verified_head_is_signed)
    (simp add: verify_tree_head_signature_def verify_ps256_tree_head_signature_def hex_space_def hex_val_def)

text \<open>
  An anchor built from a valid tree head, a well-formed block hash and an aware export time
  verifies, and carries the size and root of the tree head.
\<close>

theorem built_anchor_verifies:
  assumes "signed_tree_head_ok th" "hex64 block_hash" "target \<in> set anchor_targets"
  shows "\<exists>a. build_anchor_export dt target th block_hash (Aware t off) notes = Inr a \<and>
    av_valid (verify_anchor_export dt a) \<and> ax_tree_size a = th_tree_size th \<and> ax_merkle_root a = th_root_hash th"
proof -
  have "\<exists>b. fromhex_opt (replicate (2 * n) (CHR ''0'')) = Some b" for n
    by (induction n) (auto simp: hex_space_def hex_val_def numeral_2_eq_2)
  from this [of 32] have "hash_field (replicate 64 (CHR ''0''))" by (auto simp: hash_field_def)
  with assms show ?thesis
    by (simp add: build_anchor_export_def Let_def anchor_export_ok_def signed_tree_head_ok_def hash_field_hex64
        verify_anchor_export_def anchor_export_payload_def anchor_result_def)
qed

theorem built_anchor_verifies_witness:
  "\<exists>a. build_anchor_export isoformat_z ''local_file'' sample_tree_head (sha256_hex [1]) (Aware 10 2) [''note''] = Inr a \<and>
    av_valid (verify_anchor_export isoformat_z a) \<and> ax_tree_size a = th_tree_size sample_tree_head \<and>
    ax_merkle_root a = th_root_hash sample_tree_head"
  by (rule built_anchor_verifies)
    (simp_all add: signed_tree_head_ok_def sample_tree_head_def hash_field_hex64 anchor_targets_def)

text \<open>
  Two anchors that both verify and have the same anchor hash agree on target, log, size, root,
  block hash, notes, printed export time and on the embedded tree head with its signature, unless
  their payloads are a SHA-256 collision.
\<close>

theorem anchor_hash_binds_checkpoint:
  assumes "av_valid (verify_anchor_export dt a)" "av_valid (verify_anchor_export dt b)" "ax_anchor_hash a = ax_anchor_hash b"
  shows "(ax_target a = ax_target b \<and> ax_source_log_id a = ax_source_log_id b \<and> ax_tree_size a = ax_tree_size b \<and>
      ax_merkle_root a = ax_merkle_root b \<and> ax_latest_block_hash a = ax_latest_block_hash b \<and> ax_notes a = ax_notes b \<and>
      th_signature (ax_signed_tree_head a) = th_signature (ax_signed_tree_head b) \<and>
      isoformat_utc (ax_exported_at_utc a) = isoformat_utc (ax_exported_at_utc b) \<and> ax_anchor_id a = ax_anchor_id b) \<or>
    sha256_collision (canon (anchor_export_payload dt a), canon (anchor_export_payload dt b))"
proof -
  have v: "ax_anchor_hash x = canon_sha256 (anchor_export_payload dt x) \<and>
      ax_anchor_id x = make_anchor_id (ax_target x) (ax_source_log_id x) (ax_tree_size x) (ax_anchor_hash x)"
    if "av_valid (verify_anchor_export dt x)" for x
    using that by (auto simp: verify_anchor_export_def anchor_result_def Let_def split: if_splits)
  have "canon_sha256 (anchor_export_payload dt a) = canon_sha256 (anchor_export_payload dt b)"
    using v [OF assms(1)] v [OF assms(2)] assms(3) by simp
  then consider "jnorm (anchor_export_payload dt a) = jnorm (anchor_export_payload dt b)"
    | "sha256_collision (canon (anchor_export_payload dt a), canon (anchor_export_payload dt b))"
    using canon_sha256_eq_iff [of "anchor_export_payload dt a" "anchor_export_payload dt b"] by auto
  then show ?thesis
  proof cases
    case 1
    note p = anchor_payload_inject [OF 1]
    then have "th_signature (ax_signed_tree_head a) = th_signature (ax_signed_tree_head b)"
      using dump_tree_head_inject [of dt "ax_signed_tree_head a" "ax_signed_tree_head b"]
      by (metis signed_tree_head.select_convs(6) signed_tree_head.surjective signed_tree_head.update_convs(3))
    with p v [OF assms(1)] v [OF assms(2)] assms(3) show ?thesis by simp
  qed blast
qed

theorem anchor_hash_binds_checkpoint_witness:
  "\<exists>a. av_valid (verify_anchor_export isoformat_z a) \<and>
    ((ax_target a = ax_target a \<and> ax_source_log_id a = ax_source_log_id a \<and> ax_tree_size a = ax_tree_size a \<and>
      ax_merkle_root a = ax_merkle_root a \<and> ax_latest_block_hash a = ax_latest_block_hash a \<and> ax_notes a = ax_notes a \<and>
      th_signature (ax_signed_tree_head a) = th_signature (ax_signed_tree_head a) \<and>
      isoformat_utc (ax_exported_at_utc a) = isoformat_utc (ax_exported_at_utc a) \<and> ax_anchor_id a = ax_anchor_id a) \<or>
     sha256_collision (canon (anchor_export_payload isoformat_z a), canon (anchor_export_payload isoformat_z a)))"
proof -
  let ?a = "\<lparr> ax_schema_version = ''ets.anchor_export.v1'', ax_anchor_id = [], ax_anchor_hash = [], ax_target = ''local_file'',
    ax_source_log_id = ''log'', ax_tree_size = 1, ax_merkle_root = sha256_hex [], ax_latest_block_hash = sha256_hex [1],
    ax_signed_tree_head = sample_tree_head, ax_exported_at_utc = 0, ax_notes = [] \<rparr>"
  let ?h = "canon_sha256 (anchor_export_payload isoformat_z ?a)"
  let ?b = "?a \<lparr> ax_anchor_hash := ?h, ax_anchor_id := make_anchor_id ''local_file'' ''log'' 1 ?h \<rparr>"
  have "av_valid (verify_anchor_export isoformat_z ?b)"
    by (simp add: verify_anchor_export_def anchor_result_def Let_def sample_tree_head_def anchor_export_payload_def)
  from anchor_hash_binds_checkpoint [OF this this refl] this show ?thesis by blast
qed

end
