(* ===== verification/Ets_Federation.thy ===== *)
theory Ets_Federation
  imports Ets_Tree_Head
begin

text \<open>
  Verifier quorum and federation assessment (\<^verbatim>\<open>ets/core/quorum.py\<close>, \<^verbatim>\<open>ets/core/federation.py\<close>).

  The dictionaries the assessment builds are association lists in insertion order; \<open>group_add\<close> is
  \<^verbatim>\<open>d.setdefault(key, []).append(value)\<close>. The main theorem gives the assessment's meaning in terms of
  the observations alone.
\<close>

section \<open>Quorum\<close>

record verifier_vote =
  vv_verifier_id :: string
  vv_valid :: bool
  vv_reason :: string

record quorum_decision =
  qd_accepted :: bool
  qd_valid_votes :: int
  qd_total_votes :: int
  qd_threshold :: int
  qd_reasons :: "string list"

definition decide_quorum :: "verifier_vote list \<Rightarrow> int \<Rightarrow> quorum_decision result" where
  "decide_quorum votes threshold =
     (if threshold < 1 then Inl (ValueError ''threshold must be at least 1'')
      else let valid_votes = int (length (filter vv_valid votes)) in
        Inr \<lparr> qd_accepted = (threshold \<le> valid_votes), qd_valid_votes = valid_votes,
              qd_total_votes = int (length votes), qd_threshold = threshold,
              qd_reasons = map vv_reason (filter (\<lambda>v. \<not> vv_valid v) votes) \<rparr>)"

section \<open>Federation\<close>

record federation_observation =
  fo_verifier_id :: string
  fo_tree_head :: signed_tree_head

record federation_conflict =
  fc_log_id :: string
  fc_tree_size :: int
  fc_root_hashes :: "string list"
  fc_verifier_ids_by_root :: "(string \<times> string list) list"

record federation_assessment =
  fa_accepted :: bool
  fa_threshold :: int
  fa_observation_count :: int
  fa_quorum_met :: bool
  fa_quorum_log_id :: "string option"
  fa_quorum_tree_size :: "int option"
  fa_quorum_root_hash :: "string option"
  fa_conflicts :: "federation_conflict list"
  fa_reasons :: "string list"

type_synonym root_key = "string \<times> int \<times> string"
type_synonym view_key = "string \<times> int"

fun dict_upd :: "'k \<Rightarrow> 'v \<Rightarrow> ('v \<Rightarrow> 'v) \<Rightarrow> ('k \<times> 'v) list \<Rightarrow> ('k \<times> 'v) list" where
  "dict_upd k new f [] = [(k, f new)]"
| "dict_upd k new f ((k', v) # d) = (if k' = k then (k', f v) # d else (k', v) # dict_upd k new f d)"

definition group_add :: "'k \<Rightarrow> 'v \<Rightarrow> ('k \<times> 'v list) list \<Rightarrow> ('k \<times> 'v list) list" where
  "group_add k v d = dict_upd k [] (\<lambda>vs. vs @ [v]) d"

definition root_key_of :: "federation_observation \<Rightarrow> root_key" where
  "root_key_of ob = (th_log_id (fo_tree_head ob), th_tree_size (fo_tree_head ob), th_root_hash (fo_tree_head ob))"

definition view_key_of :: "federation_observation \<Rightarrow> view_key" where
  "view_key_of ob = (th_log_id (fo_tree_head ob), th_tree_size (fo_tree_head ob))"

definition root_groups :: "federation_observation list \<Rightarrow> (root_key \<times> string list) list" where
  "root_groups observations = fold (\<lambda>ob. group_add (root_key_of ob) (fo_verifier_id ob)) observations []"

definition view_groups :: "federation_observation list \<Rightarrow> (view_key \<times> (string \<times> string list) list) list" where
  "view_groups observations =
     fold (\<lambda>ob. dict_upd (view_key_of ob) [] (group_add (th_root_hash (fo_tree_head ob)) (fo_verifier_id ob))) observations []"

definition federation_conflicts :: "federation_observation list \<Rightarrow> federation_conflict list" where
  "federation_conflicts observations =
     map (\<lambda>((log_id, tree_size), roots).
        \<lparr> fc_log_id = log_id, fc_tree_size = tree_size, fc_root_hashes = sort (map fst roots),
          fc_verifier_ids_by_root = map (\<lambda>(root, ids). (root, sort ids)) (sort_key fst roots) \<rparr>)
       (filter (\<lambda>(_, roots). 1 < length roots) (sort_key fst (view_groups observations)))"

definition quorum_candidates :: "federation_observation list \<Rightarrow> int \<Rightarrow> (string \<times> int \<times> string \<times> string list) list" where
  "quorum_candidates observations threshold =
     sort_key (\<lambda>(log_id, tree_size, root_hash, ids). (- int (length ids), log_id, tree_size, root_hash))
       (map (\<lambda>((log_id, tree_size, root_hash), ids). (log_id, tree_size, root_hash, sort ids))
         (filter (\<lambda>(_, ids). threshold \<le> int (length ids)) (root_groups observations)))"

definition conflict_reason :: "federation_conflict \<Rightarrow> string" where
  "conflict_reason c = ''conflicting roots for log_id='' @ fc_log_id c @ '' tree_size='' @ show_int (fc_tree_size c)"

definition assess_federation :: "federation_observation list \<Rightarrow> int \<Rightarrow> federation_assessment result" where
  "assess_federation observations threshold =
     (if threshold < 1 then Inl (ValueError ''threshold must be at least 1'')
      else if \<not> distinct (map fo_verifier_id observations)
      then Inl (ValueError ''verifier_id values must be unique per assessment'')
      else
        let conflicts = federation_conflicts observations;
            candidates = quorum_candidates observations threshold;
            quorum = (case candidates of [] \<Rightarrow> None | c # _ \<Rightarrow> Some c);
            reasons = (if observations = [] then [''no observations supplied''] else []) @
                      (if quorum = None then [''quorum threshold not met''] else []) @
                      map conflict_reason conflicts
        in Inr \<lparr> fa_accepted = (quorum \<noteq> None \<and> conflicts = []), fa_threshold = threshold,
                 fa_observation_count = int (length observations), fa_quorum_met = (quorum \<noteq> None),
                 fa_quorum_log_id = map_option fst quorum, fa_quorum_tree_size = map_option (fst \<circ> snd) quorum,
                 fa_quorum_root_hash = map_option (fst \<circ> snd \<circ> snd) quorum, fa_conflicts = conflicts,
                 fa_reasons = (if reasons = [] then [''ok''] else reasons) \<rparr>)"

section \<open>Grouping\<close>

lemma dict_upd_lookup: "map_of (dict_upd k new f d) = (map_of d)(k \<mapsto> f (case map_of d k of None \<Rightarrow> new | Some v \<Rightarrow> v))"
  by (induction d) (auto simp: fun_eq_iff)

lemma dict_upd_keys: "fst ` set (dict_upd k new f d) = insert k (fst ` set d)"
proof (induction d)
  case (Cons p d)
  then show ?case by (cases p) (simp add: insert_commute)
qed simp

lemma dict_upd_distinct: "distinct (map fst d) \<Longrightarrow> distinct (map fst (dict_upd k new f d))"
  by (induction d) (auto simp: dict_upd_keys simp flip: image_iff)

text \<open>The members of a group, from the observations.\<close>

definition members :: "('a \<Rightarrow> 'k) \<Rightarrow> 'a list \<Rightarrow> 'k \<Rightarrow> 'a list" where
  "members key obs k = filter (\<lambda>x. key x = k) obs"

lemma members_snoc: "members key (obs @ [x]) k = (if key x = k then members key obs k @ [x] else members key obs k)"
  by (simp add: members_def)

lemma members_Nil_iff: "members key obs k = [] \<longleftrightarrow> k \<notin> key ` set obs"
  by (auto simp: members_def filter_empty_conv)

lemma fold_dict:
  "distinct (map fst (fold (\<lambda>x. dict_upd (key x) new (f x)) obs [])) \<and>
   map_of (fold (\<lambda>x. dict_upd (key x) new (f x)) obs []) =
     (\<lambda>k. if members key obs k = [] then None else Some (fold f (members key obs k) new))"
proof (induction obs rule: rev_induct)
  case (snoc x obs)
  then show ?case
    by (auto simp: dict_upd_distinct dict_upd_lookup members_snoc intro!: ext)
qed (simp add: members_def)

lemma fold_snoc_map: "fold (\<lambda>x vs. vs @ [val x]) xs ys = ys @ map val xs"
  by (induction xs arbitrary: ys) auto

lemma group_add_dict: "group_add k v = dict_upd k [] (\<lambda>vs. vs @ [v])"
  by (simp add: fun_eq_iff group_add_def)

lemma fold_group:
  "distinct (map fst (fold (\<lambda>x. group_add (key x) (val x)) obs [])) \<and>
   map_of (fold (\<lambda>x. group_add (key x) (val x)) obs []) =
     (\<lambda>k. if members key obs k = [] then None else Some (map val (members key obs k)))"
  using fold_dict [of key "[]" "\<lambda>x vs. vs @ [val x]" obs] by (simp add: group_add_dict fold_snoc_map cong: if_cong)

lemma fold_dict_mem:
  "(k, v) \<in> set (fold (\<lambda>x. dict_upd (key x) new (f x)) obs []) \<longleftrightarrow>
   members key obs k \<noteq> [] \<and> v = fold f (members key obs k) new"
  using map_of_eq_Some_iff [of "fold (\<lambda>x. dict_upd (key x) new (f x)) obs []" k v] fold_dict [of key new f obs]
  by (auto split: if_splits)

lemma root_groups_mem:
  "(k, ids) \<in> set (root_groups obs) \<longleftrightarrow> members root_key_of obs k \<noteq> [] \<and> ids = map fo_verifier_id (members root_key_of obs k)"
  using fold_dict_mem [of k ids root_key_of "[]" "\<lambda>x vs. vs @ [fo_verifier_id x]" obs]
  by (simp add: root_groups_def group_add_dict fold_snoc_map)

lemma view_groups_mem:
  "(k, roots) \<in> set (view_groups obs) \<longleftrightarrow> members view_key_of obs k \<noteq> [] \<and>
   roots = fold (\<lambda>ob. group_add (th_root_hash (fo_tree_head ob)) (fo_verifier_id ob)) (members view_key_of obs k) []"
  unfolding view_groups_def by (rule fold_dict_mem)

lemma view_roots_length:
  fixes obs :: "federation_observation list"
  defines "g \<equiv> fold (\<lambda>ob. group_add (th_root_hash (fo_tree_head ob)) (fo_verifier_id ob)) obs []"
  shows "1 < length g \<longleftrightarrow> (\<exists>a \<in> set obs. \<exists>b \<in> set obs. th_root_hash (fo_tree_head a) \<noteq> th_root_hash (fo_tree_head b))"
proof -
  let ?root = "\<lambda>ob. th_root_hash (fo_tree_head ob)"
  have dist: "distinct (map fst g)" and lookup: "map_of g = (\<lambda>k. if members ?root obs k = [] then None
      else Some (map fo_verifier_id (members ?root obs k)))"
    using fold_group [of ?root fo_verifier_id obs] by (simp_all add: g_def)
  have "fst ` set g = ?root ` set obs"
    using lookup by (auto simp: dom_map_of_conv_image_fst [symmetric] dom_def members_Nil_iff split: if_splits)
  then have card: "length g = card (?root ` set obs)"
    using dist by (metis distinct_card length_map set_map)
  have "1 < card S \<longleftrightarrow> (\<exists>a \<in> S. \<exists>b \<in> S. a \<noteq> b)" if "finite S" for S :: "string set"
    using that by (metis One_nat_def card_le_Suc0_iff_eq not_less)
  from this [of "?root ` set obs"] card show ?thesis by auto
qed

lemma conflicts_Nil_iff:
  "federation_conflicts obs = [] \<longleftrightarrow>
   (\<forall>a \<in> set obs. \<forall>b \<in> set obs. view_key_of a = view_key_of b \<longrightarrow> th_root_hash (fo_tree_head a) = th_root_hash (fo_tree_head b))"
proof -
  let ?grp = "\<lambda>k. fold (\<lambda>ob. group_add (th_root_hash (fo_tree_head ob)) (fo_verifier_id ob)) (members view_key_of obs k) []"
  have mem: "kr \<in> set (view_groups obs) \<longleftrightarrow> members view_key_of obs (fst kr) \<noteq> [] \<and> snd kr = ?grp (fst kr)" for kr
    using view_groups_mem [of "fst kr" "snd kr" obs] by (simp only: prod.collapse)
  have "federation_conflicts obs = [] \<longleftrightarrow> (\<forall>kr \<in> set (view_groups obs). \<not> 1 < length (snd kr))"
    by (auto simp: federation_conflicts_def filter_empty_conv)
  also have "\<dots> \<longleftrightarrow> (\<forall>k. members view_key_of obs k \<noteq> [] \<longrightarrow> \<not> 1 < length (?grp k))"
  proof (intro iffI allI impI ballI)
    fix k assume *: "\<forall>kr \<in> set (view_groups obs). \<not> 1 < length (snd kr)" and "members view_key_of obs k \<noteq> []"
    then have "(k, ?grp k) \<in> set (view_groups obs)" unfolding mem fst_conv snd_conv by blast
    from bspec [OF * this] show "\<not> 1 < length (?grp k)" by simp
  next
    fix kr assume *: "\<forall>k. members view_key_of obs k \<noteq> [] \<longrightarrow> \<not> 1 < length (?grp k)" and "kr \<in> set (view_groups obs)"
    then show "\<not> 1 < length (snd kr)" unfolding mem by (metis (no_types, lifting))
  qed
  also have "\<dots> \<longleftrightarrow> (\<forall>k. \<not> 1 < length (?grp k))"
  proof (intro iffI allI)
    fix k assume *: "\<forall>k. members view_key_of obs k \<noteq> [] \<longrightarrow> \<not> 1 < length (?grp k)"
    show "\<not> 1 < length (?grp k)"
    proof (cases "members view_key_of obs k = []")
      case False
      then show ?thesis using spec [OF *, of k] by (rule rev_mp)
    qed simp
  qed blast
  also have "\<dots> \<longleftrightarrow> (\<forall>k. \<not> (\<exists>a \<in> set (members view_key_of obs k). \<exists>b \<in> set (members view_key_of obs k).
      th_root_hash (fo_tree_head a) \<noteq> th_root_hash (fo_tree_head b)))"
    unfolding view_roots_length ..
  also have "\<dots> \<longleftrightarrow> (\<forall>a \<in> set obs. \<forall>b \<in> set obs. view_key_of a = view_key_of b \<longrightarrow>
      th_root_hash (fo_tree_head a) = th_root_hash (fo_tree_head b))"
  proof (intro iffI ballI impI allI)
    fix a b assume *: "\<forall>k. \<not> (\<exists>a \<in> set (members view_key_of obs k). \<exists>b \<in> set (members view_key_of obs k).
      th_root_hash (fo_tree_head a) \<noteq> th_root_hash (fo_tree_head b))" and "a \<in> set obs" "b \<in> set obs" "view_key_of a = view_key_of b"
    then have "a \<in> set (members view_key_of obs (view_key_of a))" "b \<in> set (members view_key_of obs (view_key_of a))"
      by (simp_all add: members_def)
    with spec [OF *, of "view_key_of a"] show "th_root_hash (fo_tree_head a) = th_root_hash (fo_tree_head b)" by blast
  next
    fix k assume "\<forall>a \<in> set obs. \<forall>b \<in> set obs. view_key_of a = view_key_of b \<longrightarrow> th_root_hash (fo_tree_head a) = th_root_hash (fo_tree_head b)"
    then show "\<not> (\<exists>a \<in> set (members view_key_of obs k). \<exists>b \<in> set (members view_key_of obs k).
      th_root_hash (fo_tree_head a) \<noteq> th_root_hash (fo_tree_head b))"
      unfolding members_def set_filter by (metis (mono_tags, lifting) mem_Collect_eq)
  qed
  finally show ?thesis .
qed

lemma candidates_mem:
  assumes "1 \<le> t"
  shows "(l, n, r, ids) \<in> set (quorum_candidates obs t) \<longleftrightarrow>
   (let ms = members root_key_of obs (l, n, r) in t \<le> int (length ms) \<and> ids = sort (map fo_verifier_id ms))"
proof -
  have "(l, n, r, ids) \<in> set (quorum_candidates obs t) \<longleftrightarrow>
     (let ms = members root_key_of obs (l, n, r) in ms \<noteq> [] \<and> t \<le> int (length ms) \<and> ids = sort (map fo_verifier_id ms))"
    by (force simp: quorum_candidates_def root_groups_mem Let_def image_iff)
  with assms show ?thesis by (cases "members root_key_of obs (l, n, r) = []") (auto simp: Let_def)
qed

lemma candidates_sorted:
  "quorum_candidates obs t = (l, n, r, ids) # rest \<Longrightarrow> (l', n', r', ids') \<in> set (quorum_candidates obs t) \<Longrightarrow>
   length ids' \<le> length ids"
proof -
  assume eq: "quorum_candidates obs t = (l, n, r, ids) # rest" and mem: "(l', n', r', ids') \<in> set (quorum_candidates obs t)"
  let ?key = "\<lambda>(log_id :: string, tree_size :: int, root_hash :: string, ids :: string list). (- int (length ids), log_id, tree_size, root_hash)"
  have "sorted (map ?key (quorum_candidates obs t))"
    unfolding quorum_candidates_def by (rule sorted_sort_key)
  then have "?key (l, n, r, ids) \<le> ?key (l', n', r', ids')"
    using mem unfolding eq by auto
  then show ?thesis by (auto simp: less_eq_prod_def split: if_splits)
qed

section \<open>Properties\<close>

text \<open>
  C23. The federation assessment means what it says. With a positive threshold and distinct
  verifiers it returns an assessment that is accepted exactly when some log, size and root is
  reported by at least threshold verifiers and no two observations of one log and size disagree
  on the root; the quorum it names is reported by at least threshold verifiers and by no fewer than
  any other root.
\<close>

theorem assess_federation_correct:
  "case assess_federation obs t of
     Inl e \<Rightarrow> \<not> (1 \<le> t \<and> distinct (map fo_verifier_id obs)) \<and> (\<exists>msg. e = ValueError msg)
   | Inr a \<Rightarrow> 1 \<le> t \<and> distinct (map fo_verifier_id obs) \<and>
      (fa_accepted a \<longleftrightarrow> (\<exists>k. t \<le> int (length (members root_key_of obs k))) \<and>
        \<not> (\<exists>x \<in> set obs. \<exists>y \<in> set obs. view_key_of x = view_key_of y \<and> th_root_hash (fo_tree_head x) \<noteq> th_root_hash (fo_tree_head y))) \<and>
      (case (fa_quorum_log_id a, fa_quorum_tree_size a, fa_quorum_root_hash a) of
         (Some l, Some n, Some r) \<Rightarrow> t \<le> int (length (members root_key_of obs (l, n, r))) \<and>
           (\<forall>k. length (members root_key_of obs k) \<le> length (members root_key_of obs (l, n, r)))
       | _ \<Rightarrow> \<not> (\<exists>k. t \<le> int (length (members root_key_of obs k))))"
proof (cases "t < 1 \<or> \<not> distinct (map fo_verifier_id obs)")
  case True
  then show ?thesis by (auto simp: assess_federation_def)
next
  case False
  then have t: "1 \<le> t" by simp
  have none: "quorum_candidates obs t = [] \<longleftrightarrow> \<not> (\<exists>k. t \<le> int (length (members root_key_of obs k)))"
  proof -
    have "quorum_candidates obs t = [] \<longleftrightarrow> (\<forall>l n r ids. (l, n, r, ids) \<notin> set (quorum_candidates obs t))"
      by (metis list.set_intros(1) neq_Nil_conv prod_cases4 empty_iff list.set(1))
    also have "\<dots> \<longleftrightarrow> (\<forall>l n r. \<not> t \<le> int (length (members root_key_of obs (l, n, r))))"
      using False by (auto simp: candidates_mem [OF t] Let_def)
    finally show ?thesis by (metis prod_cases3)
  qed
  show ?thesis
  proof (cases "quorum_candidates obs t")
    case Nil
    with False none conflicts_Nil_iff [of obs] show ?thesis by (simp add: assess_federation_def Let_def)
  next
    case (Cons c rest)
    obtain l n r ids where c: "c = (l, n, r, ids)" by (cases c)
    have mem: "(l, n, r, ids) \<in> set (quorum_candidates obs t)" by (simp add: Cons c)
    then have top: "t \<le> int (length (members root_key_of obs (l, n, r)))" "length ids = length (members root_key_of obs (l, n, r))"
      by (auto simp: candidates_mem [OF t] Let_def)
    have "length (members root_key_of obs k) \<le> length (members root_key_of obs (l, n, r))" for k
    proof (cases "t \<le> int (length (members root_key_of obs k))")
      case True
      obtain l' n' r' where k: "k = (l', n', r')" by (cases k)
      from True False have "(l', n', r', sort (map fo_verifier_id (members root_key_of obs k))) \<in> set (quorum_candidates obs t)"
        by (auto simp: candidates_mem [OF t] Let_def k)
      from candidates_sorted [OF Cons [unfolded c] this] top show ?thesis by simp
    next
      case False
      with top show ?thesis by linarith
    qed
    with False none Cons c top conflicts_Nil_iff [of obs] show ?thesis
      by (auto simp: assess_federation_def Let_def)
  qed
qed

text \<open>
  \<^verbatim>\<open>decide_quorum\<close> counts votes, not verifiers: a single verifier that votes valid \<open>t\<close> times reaches
  the threshold \<open>t\<close>, whereas \<^verbatim>\<open>assess_federation\<close> refuses repeated verifier identifiers.
\<close>

theorem decide_quorum_counts_repeated_votes:
  assumes "1 \<le> t" "vv_valid v"
  shows "\<exists>d. decide_quorum (replicate t v) (int t) = Inr d \<and> qd_accepted d"
  using assms by (auto simp: decide_quorum_def Let_def)

theorem decide_quorum_counts_repeated_votes_witness:
  "\<exists>d. decide_quorum (replicate 3 \<lparr> vv_verifier_id = ''only'', vv_valid = True, vv_reason = ''ok'' \<rparr>) (int 3) = Inr d \<and> qd_accepted d"
  by (rule decide_quorum_counts_repeated_votes) simp_all

end
