(* ===== verification/Ets_Sqlite_Store.thy ===== *)
theory Ets_Sqlite_Store
  imports Ets_Log
begin

text \<open>
  The SQLite provider of the event store (\<^verbatim>\<open>ets/core/sqlite_store.py\<close>): schema, appends and reads of
  the \<^verbatim>\<open>events\<close> table.

  The database is the content of its tables, with the \<^verbatim>\<open>AUTOINCREMENT\<close> counter of \<^verbatim>\<open>events\<close>; a rejected
  \<^verbatim>\<open>INSERT\<close> changes nothing, as SQLite rolls the statement back. pydantic's \<^verbatim>\<open>model_dump_json\<close> and
  \<^verbatim>\<open>model_validate_json\<close> are the parameters \<open>to_json\<close> and \<open>of_json\<close>; that the second reads back what the
  first wrote is the condition \<open>json_codec_ok\<close> on the events a client stores. \<open>now\<close> is the clock.

  The provider satisfies the contract \<open>event_store\<close> (interpretation \<open>sql\<close>), and reads fail closed on
  any tampered row.
\<close>

section \<open>Database\<close>

record event_row =
  er_log_index :: int
  er_event_id :: string
  er_event_json :: string
  er_event_hash :: string
  er_leaf_hash :: string
  er_created_at_utc :: string

text \<open>A row of \<^verbatim>\<open>artifact_records\<close>, the table \<open>Ets_Sqlite_Artifacts\<close> works on.\<close>

record artifact_row =
  ax_artifact_id :: string
  ax_artifact_hash :: string
  ax_reference_uri :: string
  ax_content_type :: string
  ax_byte_size :: int
  ax_metadata_json :: string
  ax_timestamp :: string
  ax_event_id :: string
  ax_log_index :: int

record sqlite_db =
  db_schema_version :: "int option"
  db_events :: "event_row list"
  db_events_seq :: int
  db_artifacts :: "artifact_row list"

definition sqlite_schema_version :: int where
  "sqlite_schema_version = 2"

definition empty_db :: sqlite_db where
  "empty_db = \<lparr> db_schema_version = None, db_events = [], db_events_seq = 0, db_artifacts = [] \<rparr>"

definition sqlite_initialize :: "sqlite_db \<Rightarrow> sqlite_db" where
  "sqlite_initialize db = db \<lparr> db_schema_version := Some sqlite_schema_version \<rparr>"

definition read_schema_version :: "sqlite_db \<Rightarrow> int result" where
  "read_schema_version db = rget (StorageValidationError ''schema version is missing'') (db_schema_version db)"

text \<open>
  \<^verbatim>\<open>INSERT INTO events\<close>: the \<^verbatim>\<open>UNIQUE\<close> constraint on \<^verbatim>\<open>event_id\<close>, and a row identifier above every one used so far.
\<close>

definition insert_event :: "sqlite_db \<Rightarrow> string \<Rightarrow> string \<Rightarrow> string \<Rightarrow> string \<Rightarrow> string \<Rightarrow> (int \<times> sqlite_db) option" where
  "insert_event db event_id event_json event_hash leaf_hash created_at =
     (if event_id \<in> er_event_id ` set (db_events db) then None
      else let row_id = max (db_events_seq db) (Max (insert 0 (er_log_index ` set (db_events db)))) + 1;
               row = \<lparr> er_log_index = row_id, er_event_id = event_id, er_event_json = event_json,
                       er_event_hash = event_hash, er_leaf_hash = leaf_hash, er_created_at_utc = created_at \<rparr>
           in Some (row_id, db \<lparr> db_events := db_events db @ [row], db_events_seq := row_id \<rparr>))"

section \<open>Operations\<close>

definition sqlite_append ::
  "(utc \<Rightarrow> string) \<Rightarrow> (evidence_event \<Rightarrow> string) \<Rightarrow> utc \<Rightarrow> sqlite_db \<Rightarrow> evidence_event \<Rightarrow> (log_entry \<times> sqlite_db) result" where
  "sqlite_append dt to_json now db event =
     rbind (canonical_sha256 (py_of_json (hashable_payload dt event))) (\<lambda>event_hash.
     rbind (leaf_hash_for_event_hash event_hash) (\<lambda>leaf_hash.
     case insert_event db (ev_event_id event) (to_json event) event_hash leaf_hash (isoformat_z now) of
       None \<Rightarrow> Inl (DuplicateEventError (''event_id already exists: '' @ ev_event_id event))
     | Some (row_id, db') \<Rightarrow>
         Inr (\<lparr> le_log_index = row_id - 1, le_event = event, le_event_hash = event_hash, le_leaf_hash = leaf_hash \<rparr>, db')))"

definition row_to_entry ::
  "(utc \<Rightarrow> string) \<Rightarrow> (string \<Rightarrow> evidence_event result) \<Rightarrow> event_row \<Rightarrow> log_entry result" where
  "row_to_entry dt of_json row =
     rbind (case of_json (er_event_json row) of
              Inl (ValidationError _) \<Rightarrow> Inl (StorageValidationError ''stored event JSON failed validation'')
            | r \<Rightarrow> r) (\<lambda>event.
     rbind (canonical_sha256 (py_of_json (hashable_payload dt event))) (\<lambda>event_hash.
     rbind (leaf_hash_for_event_hash event_hash) (\<lambda>leaf_hash.
     if event_hash \<noteq> er_event_hash row \<or> leaf_hash \<noteq> er_leaf_hash row
     then Inl (StorageValidationError ''stored event hashes do not match event JSON'')
     else Inr \<lparr> le_log_index = er_log_index row - 1, le_event = event,
                le_event_hash = er_event_hash row, le_leaf_hash = er_leaf_hash row \<rparr>)))"

definition sqlite_get_by_index ::
  "(utc \<Rightarrow> string) \<Rightarrow> (string \<Rightarrow> evidence_event result) \<Rightarrow> sqlite_db \<Rightarrow> int \<Rightarrow> log_entry result" where
  "sqlite_get_by_index dt of_json db index =
     (case find (\<lambda>row. er_log_index row = index + 1) (db_events db) of
        None \<Rightarrow> Inl (EventNotFoundError (''log index not found: '' @ show_int index))
      | Some row \<Rightarrow> row_to_entry dt of_json row)"

definition sqlite_get_by_event_id ::
  "(utc \<Rightarrow> string) \<Rightarrow> (string \<Rightarrow> evidence_event result) \<Rightarrow> sqlite_db \<Rightarrow> string \<Rightarrow> log_entry result" where
  "sqlite_get_by_event_id dt of_json db event_id =
     (case find (\<lambda>row. er_event_id row = event_id) (db_events db) of
        None \<Rightarrow> Inl (EventNotFoundError (''event_id not found: '' @ event_id))
      | Some row \<Rightarrow> row_to_entry dt of_json row)"

definition sqlite_list_entries ::
  "(utc \<Rightarrow> string) \<Rightarrow> (string \<Rightarrow> evidence_event result) \<Rightarrow> sqlite_db \<Rightarrow> log_entry list result" where
  "sqlite_list_entries dt of_json db =
     rmap (row_to_entry dt of_json) (sort_key er_log_index (db_events db))"

section \<open>Invariant\<close>

definition json_codec_ok :: "(evidence_event \<Rightarrow> string) \<Rightarrow> (string \<Rightarrow> evidence_event result) \<Rightarrow> evidence_event \<Rightarrow> bool" where
  "json_codec_ok to_json of_json e \<longleftrightarrow> of_json (to_json e) = Inr e"

text \<open>The rows a history of appends leaves behind, whatever the times of the appends.\<close>

definition row_for :: "(utc \<Rightarrow> string) \<Rightarrow> (evidence_event \<Rightarrow> string) \<Rightarrow> nat \<Rightarrow> evidence_event \<Rightarrow> event_row \<Rightarrow> bool" where
  "row_for dt to_json n e row \<longleftrightarrow> er_log_index row = int n + 1 \<and> er_event_id row = ev_event_id e \<and>
     er_event_json row = to_json e \<and> er_event_hash row = event_hash_of dt e \<and> er_leaf_hash row = leaf_hash_of dt e"

definition sqlite_history :: "(string \<Rightarrow> evidence_event result) \<Rightarrow> sqlite_db \<Rightarrow> evidence_event list" where
  "sqlite_history of_json db =
     concat (map (\<lambda>row. case of_json (er_event_json row) of Inl _ \<Rightarrow> [] | Inr e \<Rightarrow> [e]) (db_events db))"

definition sqlite_inv ::
  "(utc \<Rightarrow> string) \<Rightarrow> (evidence_event \<Rightarrow> string) \<Rightarrow> (string \<Rightarrow> evidence_event result) \<Rightarrow> sqlite_db \<Rightarrow> bool" where
  "sqlite_inv dt to_json of_json db \<longleftrightarrow>
     (let es = sqlite_history of_json db in
        length (db_events db) = length es \<and> db_events_seq db = int (length es) \<and>
        distinct (map ev_event_id es) \<and> (\<forall>e \<in> set es. json_codec_ok to_json of_json e) \<and>
        (\<forall>n < length es. row_for dt to_json n (es ! n) (db_events db ! n)))"

lemma row_to_entry_decoded:
  assumes "of_json (er_event_json row) = Inr e"
  shows "row_to_entry dt of_json row =
    (if event_hash_of dt e \<noteq> er_event_hash row \<or> leaf_hash_of dt e \<noteq> er_leaf_hash row
     then Inl (StorageValidationError ''stored event hashes do not match event JSON'')
     else Inr \<lparr> le_log_index = er_log_index row - 1, le_event = e,
                le_event_hash = event_hash_of dt e, le_leaf_hash = leaf_hash_of dt e \<rparr>)"
  using assms by (simp add: row_to_entry_def canonical_sha256_native flip: event_hash_of_def)

lemma row_to_entry_undecoded:
  assumes "of_json (er_event_json row) = Inl e"
  shows "\<exists>e'. row_to_entry dt of_json row = Inl e' \<and> (e' = e \<or> (\<exists>msg. e' = StorageValidationError msg))"
  using assms by (auto simp: row_to_entry_def split: exn.splits)

lemma row_to_entry_row_for:
  assumes "row_for dt to_json n e row" "json_codec_ok to_json of_json e"
  shows "row_to_entry dt of_json row = Inr (entry_for dt n e)"
  using assms by (simp add: row_for_def json_codec_ok_def row_to_entry_decoded entry_for_def)

lemma sqlite_invD:
  assumes "sqlite_inv dt to_json of_json db"
  shows "length (db_events db) = length (sqlite_history of_json db)"
    "db_events_seq db = int (length (sqlite_history of_json db))"
    "distinct (map ev_event_id (sqlite_history of_json db))"
    "\<And>n. n < length (sqlite_history of_json db) \<Longrightarrow> row_for dt to_json n (sqlite_history of_json db ! n) (db_events db ! n)"
    "\<And>n. n < length (sqlite_history of_json db) \<Longrightarrow> json_codec_ok to_json of_json (sqlite_history of_json db ! n)"
  using assms by (auto simp: sqlite_inv_def Let_def)

lemma sqlite_row_at:
  assumes "sqlite_inv dt to_json of_json db" "n < length (sqlite_history of_json db)"
  shows "row_to_entry dt of_json (db_events db ! n) = Inr (entry_for dt n (sqlite_history of_json db ! n))"
  using row_to_entry_row_for [OF sqlite_invD(4) [OF assms] sqlite_invD(5) [OF assms]] .

lemma map_log_index:
  assumes "sqlite_inv dt to_json of_json db"
  shows "map er_log_index (db_events db) = map (\<lambda>n. int n + 1) [0..<length (db_events db)]"
  using sqlite_invD(1,4) [OF assms] by (intro nth_equalityI) (auto simp: row_for_def)

lemma map_event_id:
  assumes "sqlite_inv dt to_json of_json db"
  shows "map er_event_id (db_events db) = map ev_event_id (sqlite_history of_json db)"
  using sqlite_invD(1,4) [OF assms] by (intro nth_equalityI) (auto simp: row_for_def)

lemma find_distinct:
  assumes "distinct (map f xs)" "n < length xs"
  shows "find (\<lambda>x. f x = f (xs ! n)) xs = Some (xs ! n)"
  using assms
proof (induction xs arbitrary: n)
  case (Cons x xs)
  show ?case
  proof (cases n)
    case (Suc m)
    with Cons.prems have "f (xs ! m) \<in> f ` set xs" by simp
    with Cons.prems have "f x \<noteq> f (xs ! m)" by auto
    with Cons Suc show ?thesis by simp
  qed simp
qed simp

lemma find_absent: "k \<notin> f ` set xs \<Longrightarrow> find (\<lambda>x. f x = k) xs = None"
  by (induction xs) auto

lemma sqlite_append_fresh:
  assumes inv: "sqlite_inv dt to_json of_json db" and codec: "json_codec_ok to_json of_json e"
    and fresh: "ev_event_id e \<notin> ev_event_id ` set (sqlite_history of_json db)"
  shows "\<exists>db'. sqlite_append dt to_json now db e = Inr (entry_for dt (length (sqlite_history of_json db)) e, db') \<and>
    sqlite_inv dt to_json of_json db' \<and> sqlite_history of_json db' = sqlite_history of_json db @ [e]"
proof -
  let ?n = "length (sqlite_history of_json db)"
  have ids: "er_event_id ` set (db_events db) = ev_event_id ` set (sqlite_history of_json db)"
    using map_event_id [OF inv] by (metis set_map)
  have "er_log_index ` set (db_events db) \<subseteq> {1..int ?n}"
  proof
    fix i assume "i \<in> er_log_index ` set (db_events db)"
    then have "i \<in> set (map er_log_index (db_events db))" by simp
    then show "i \<in> {1..int ?n}"
      unfolding map_log_index [OF inv] sqlite_invD(1) [OF inv] by auto
  qed
  then have "Max (insert 0 (er_log_index ` set (db_events db))) \<le> int ?n"
    by (intro Max.boundedI) auto
  then have max: "max (db_events_seq db) (Max (insert 0 (er_log_index ` set (db_events db)))) = int ?n"
    using sqlite_invD(2) [OF inv] by simp
  let ?row = "\<lparr> er_log_index = int ?n + 1, er_event_id = ev_event_id e, er_event_json = to_json e,
    er_event_hash = event_hash_of dt e, er_leaf_hash = leaf_hash_of dt e, er_created_at_utc = isoformat_z now \<rparr>"
  let ?db = "db \<lparr> db_events := db_events db @ [?row], db_events_seq := int ?n + 1 \<rparr>"
  have "insert_event db (ev_event_id e) (to_json e) (event_hash_of dt e) (leaf_hash_of dt e) (isoformat_z now) = Some (int ?n + 1, ?db)"
    using fresh unfolding insert_event_def Let_def max ids by simp
  then have app: "sqlite_append dt to_json now db e = Inr (entry_for dt ?n e, ?db)"
    by (simp add: sqlite_append_def canonical_sha256_native entry_for_def flip: event_hash_of_def)
  have hist: "sqlite_history of_json ?db = sqlite_history of_json db @ [e]"
    using codec by (simp add: sqlite_history_def json_codec_ok_def)
  have "sqlite_inv dt to_json of_json ?db"
    unfolding sqlite_inv_def hist Let_def
    using sqlite_invD [OF inv] codec fresh
    by (auto simp: nth_append row_for_def less_Suc_eq in_set_conv_nth)
  with app hist show ?thesis by blast
qed

interpretation sql: event_store dt "sqlite_append dt to_json now" "sqlite_get_by_index dt of_json"
  "sqlite_get_by_event_id dt of_json" "sqlite_list_entries dt of_json" "sqlite_initialize empty_db"
  "sqlite_inv dt to_json of_json" "json_codec_ok to_json of_json" "sqlite_history of_json" for dt to_json of_json now
proof
  show "sqlite_inv dt to_json of_json (sqlite_initialize empty_db)" "sqlite_history of_json (sqlite_initialize empty_db) = []"
    by (simp_all add: sqlite_inv_def sqlite_history_def sqlite_initialize_def empty_db_def)
next
  fix db e assume inv: "sqlite_inv dt to_json of_json db" and codec: "json_codec_ok to_json of_json e"
  show "ev_event_id e \<notin> ev_event_id ` set (sqlite_history of_json db) \<Longrightarrow>
    \<exists>db'. sqlite_append dt to_json now db e = Inr (entry_for dt (length (sqlite_history of_json db)) e, db') \<and>
      sqlite_inv dt to_json of_json db' \<and> sqlite_history of_json db' = sqlite_history of_json db @ [e]"
    by (rule sqlite_append_fresh [OF inv codec])
  assume "ev_event_id e \<in> ev_event_id ` set (sqlite_history of_json db)"
  then have "ev_event_id e \<in> er_event_id ` set (db_events db)"
    using map_event_id [OF inv] by (metis set_map)
  then show "sqlite_append dt to_json now db e = Inl (duplicate_error (ev_event_id e))"
    by (simp add: sqlite_append_def insert_event_def canonical_sha256_native duplicate_error_def flip: event_hash_of_def)
next
  fix db assume inv: "sqlite_inv dt to_json of_json db"
  have "sorted (map er_log_index (db_events db))"
    unfolding map_log_index [OF inv] by (simp add: sorted_iff_nth_mono)
  then have "sort_key er_log_index (db_events db) = db_events db" by (rule sort_key_id_if_sorted)
  moreover have "rmap (row_to_entry dt of_json) (db_events db) = Inr (entries_of dt (sqlite_history of_json db))"
    unfolding rmap_eq_Inr list_all2_conv_all_nth using sqlite_row_at [OF inv] sqlite_invD(1) [OF inv] by simp
  ultimately show "sqlite_list_entries dt of_json db = Inr (entries_of dt (sqlite_history of_json db))"
    by (simp add: sqlite_list_entries_def)
next
  fix db n assume inv: "sqlite_inv dt to_json of_json db" and n: "n < length (sqlite_history of_json db)"
  have len: "n < length (db_events db)" using n sqlite_invD(1) [OF inv] by simp
  have "distinct (map er_log_index (db_events db))"
    unfolding map_log_index [OF inv] by (simp add: distinct_map inj_on_def)
  moreover have "er_log_index (db_events db ! n) = int n + 1"
    using sqlite_invD(4) [OF inv n] by (simp add: row_for_def)
  ultimately have "find (\<lambda>row. er_log_index row = int n + 1) (db_events db) = Some (db_events db ! n)"
    using find_distinct [OF _ len, of er_log_index] by simp
  then show "sqlite_get_by_index dt of_json db (int n) = Inr (entry_for dt n (sqlite_history of_json db ! n))"
    using sqlite_row_at [OF inv n] by (simp add: sqlite_get_by_index_def)
  have "distinct (map er_event_id (db_events db))"
    unfolding map_event_id [OF inv] by (rule sqlite_invD(3) [OF inv])
  moreover have "er_event_id (db_events db ! n) = ev_event_id (sqlite_history of_json db ! n)"
    using sqlite_invD(4) [OF inv n] by (simp add: row_for_def)
  ultimately have "find (\<lambda>row. er_event_id row = ev_event_id (sqlite_history of_json db ! n)) (db_events db) = Some (db_events db ! n)"
    using find_distinct [OF _ len, of er_event_id] by simp
  then show "sqlite_get_by_event_id dt of_json db (ev_event_id (sqlite_history of_json db ! n)) =
      Inr (entry_for dt n (sqlite_history of_json db ! n))"
    using sqlite_row_at [OF inv n] by (simp add: sqlite_get_by_event_id_def)
next
  fix db n assume inv: "sqlite_inv dt to_json of_json db" and n: "length (sqlite_history of_json db) \<le> n"
  have "int n + 1 \<notin> er_log_index ` set (db_events db)"
  proof
    assume "int n + 1 \<in> er_log_index ` set (db_events db)"
    then have "int n + 1 \<in> set (map er_log_index (db_events db))" by simp
    with n show False unfolding map_log_index [OF inv] sqlite_invD(1) [OF inv] by auto
  qed
  then have "find (\<lambda>row. er_log_index row = int n + 1) (db_events db) = None"
    by (rule find_absent)
  then show "sqlite_get_by_index dt of_json db (int n) = Inl (index_not_found (int n))"
    by (simp add: sqlite_get_by_index_def index_not_found_def)
next
  fix db i assume inv: "sqlite_inv dt to_json of_json db" and i: "i \<notin> ev_event_id ` set (sqlite_history of_json db)"
  have "i \<notin> er_event_id ` set (db_events db)"
    using i map_event_id [OF inv] by (metis set_map)
  then have "find (\<lambda>row. er_event_id row = i) (db_events db) = None"
    by (rule find_absent)
  then show "sqlite_get_by_event_id dt of_json db i = Inl (id_not_found i)"
    by (simp add: sqlite_get_by_event_id_def id_not_found_def)
qed

section \<open>Properties\<close>



text \<open>
  Reads fail closed: whatever rows a damaged or tampered database holds, every entry that
  \<^verbatim>\<open>list_entries\<close> returns carries the canonical event hash and the leaf hash of the event it returns,
  and every rejected row raises \<^verbatim>\<open>StorageValidationError\<close> or an error of the JSON decoder.
\<close>

theorem sqlite_reads_fail_closed:
  "case sqlite_list_entries dt of_json db of
     Inr entries \<Rightarrow> length entries = length (db_events db) \<and>
       list_all (\<lambda>en. le_event_hash en = event_hash_of dt (le_event en) \<and> le_leaf_hash en = leaf_hash_of dt (le_event en)) entries
   | Inl e \<Rightarrow> (\<exists>msg. e = StorageValidationError msg) \<or> (\<exists>row \<in> set (db_events db). of_json (er_event_json row) = Inl e)"
proof (cases "sqlite_list_entries dt of_json db")
  case (Inr entries)
  have row: "row_to_entry dt of_json row = Inr en \<Longrightarrow>
      le_event_hash en = event_hash_of dt (le_event en) \<and> le_leaf_hash en = leaf_hash_of dt (le_event en)" for row en
    using row_to_entry_decoded [of of_json row _ dt] row_to_entry_undecoded [of of_json row _ dt]
    by (cases "of_json (er_event_json row)") (auto split: if_splits)
  from Inr have "list_all2 (\<lambda>row en. row_to_entry dt of_json row = Inr en) (sort_key er_log_index (db_events db)) entries"
    by (simp add: sqlite_list_entries_def rmap_eq_Inr)
  then have "length entries = length (db_events db)"
    "list_all (\<lambda>en. le_event_hash en = event_hash_of dt (le_event en) \<and> le_leaf_hash en = leaf_hash_of dt (le_event en)) entries"
    using row by (auto simp: list_all_length list_all2_conv_all_nth)
  with Inr show ?thesis by simp
next
  case (Inl e)
  then obtain r where "r \<in> set (db_events db)" "row_to_entry dt of_json r = Inl e"
    unfolding sqlite_list_entries_def by (auto dest!: rmap_eq_InlD)
  then show ?thesis
    using Inl row_to_entry_decoded [of of_json r _ dt] row_to_entry_undecoded [of of_json r _ dt]
    by (cases "of_json (er_event_json r)") (fastforce split: if_splits)+
qed

end
