(* ===== verification/Ets_Verifier.thy ===== *)
theory Ets_Verifier
  imports Ets_Tree_Head Complex_Main
begin

text \<open>
  The verifier (\<^verbatim>\<open>ets/verifier/service.py\<close>) and the proof bundle it checks (\<^verbatim>\<open>ets/core/bundle.py\<close>).

  \<open>verifier_env\<close> collects what the verifier takes from outside the sources: the datetime text of
  pydantic dumps, the two signature schemes, the clock, the URL parser, the transport's
  \<^verbatim>\<open>get_json\<close>, and pydantic's \<^verbatim>\<open>model_validate\<close> and \<^verbatim>\<open>model_validate_json\<close> on decoded payloads.

  The theorems: a valid offline outcome against the root of a log means the bundle's event is in
  that log; a required signature was made by a trusted, unrevoked key over exactly this head; a
  valid online outcome means in addition that the log has only grown since the checkpoint.
\<close>

section \<open>Models\<close>

record evidence_proof_bundle =
  bu_schema_version :: string
  bu_event :: evidence_event
  bu_event_hash :: string
  bu_leaf_hash :: string
  bu_tree_head :: signed_tree_head
  bu_inclusion_proof :: inclusion_proof
  bu_verification_result :: verification_result

definition bundle_ok :: "evidence_proof_bundle \<Rightarrow> bool" where
  "bundle_ok b \<longleftrightarrow> field_length 64 64 (bu_event_hash b) \<and> field_length 64 64 (bu_leaf_hash b) \<and>
     signed_tree_head_ok (bu_tree_head b) \<and> inclusion_proof_ok (bu_inclusion_proof b)"

record verification_check =
  vc_code :: string
  vc_passed :: bool
  vc_reason :: string

record trusted_tree_head_key =
  tk_key_id :: string
  tk_signature_alg :: string
  tk_public_key_hex :: string
  tk_not_before_utc :: "utc option"
  tk_not_after_utc :: "utc option"
  tk_revoked_at_utc :: "utc option"

definition trusted_key_ok :: "trusted_tree_head_key \<Rightarrow> bool" where
  "trusted_key_ok k \<longleftrightarrow> tk_key_id k \<noteq> [] \<and> (tk_signature_alg k = ''ed25519'' \<or> tk_signature_alg k = ''ps256'') \<and>
     2 \<le> length (tk_public_key_hex k) \<and> fromhex_opt (tk_public_key_hex k) \<noteq> None \<and>
     \<not> (tk_signature_alg k = ''ed25519'' \<and> length (tk_public_key_hex k) \<noteq> 64) \<and>
     (case (tk_not_before_utc k, tk_not_after_utc k) of (Some nb, Some na) \<Rightarrow> nb \<le> na | _ \<Rightarrow> True)"

record tree_head_trust_store =
  ts_schema_version :: string
  ts_keys :: "trusted_tree_head_key list"

definition trust_store_ok :: "tree_head_trust_store \<Rightarrow> bool" where
  "trust_store_ok ts \<longleftrightarrow> ts_schema_version ts = ''ets.verifier_trust.v1'' \<and> list_all trusted_key_ok (ts_keys ts) \<and>
     distinct (map tk_key_id (ts_keys ts))"

definition trust_store_get :: "tree_head_trust_store \<Rightarrow> string \<Rightarrow> trusted_tree_head_key option" where
  "trust_store_get ts key_id = find (\<lambda>key. tk_key_id key = key_id) (ts_keys ts)"

record verifier_policy =
  vp_require_tree_head_signature :: bool
  vp_expected_log_id :: "string option"
  vp_max_future_skew_seconds :: int

record verifier_outcome =
  vo_valid :: bool
  vo_mode :: string
  vo_reason :: string
  vo_event_id :: string
  vo_log_id :: string
  vo_event_hash :: string
  vo_leaf_hash :: string
  vo_checkpoint_root_hash :: string
  vo_checkpoint_tree_size :: int
  vo_latest_root_hash :: "string option"
  vo_latest_tree_size :: "int option"
  vo_signature_verified :: bool
  vo_continuity_verified :: bool
  vo_standing_status :: string
  vo_checks :: "verification_check list"
  vo_verified_at_utc :: utc

record split_result =
  us_scheme :: string
  us_netloc :: string
  us_path :: string
  us_query :: string
  us_fragment :: string
  us_hostname :: "string option"
  us_username :: "string option"
  us_password :: "string option"

record verifier_env =
  env_dt :: "utc \<Rightarrow> string"
  env_ed_verify :: "byte list \<Rightarrow> byte list \<Rightarrow> byte list \<Rightarrow> bool result"
  env_ps_verify :: "byte list \<Rightarrow> byte list \<Rightarrow> byte list \<Rightarrow> bool result"
  env_now :: utc
  env_urlsplit :: "string \<Rightarrow> split_result result"
  env_get_json :: "string \<Rightarrow> json result"
  env_bundle_validate :: "json \<Rightarrow> evidence_proof_bundle result"
  env_bundle_validate_json :: "json \<Rightarrow> evidence_proof_bundle result"
  env_head_validate :: "json \<Rightarrow> signed_tree_head result"
  env_head_validate_json :: "json \<Rightarrow> signed_tree_head result"
  env_consistency_validate :: "json \<Rightarrow> consistency_proof result"
  env_consistency_validate_json :: "json \<Rightarrow> consistency_proof result"

section \<open>Helpers of the verifier\<close>

definition check :: "string \<Rightarrow> bool \<Rightarrow> string \<Rightarrow> string \<Rightarrow> verification_check" where
  "check label passed ok_reason failed_reason =
     \<lparr> vc_code = label, vc_passed = passed, vc_reason = (if passed then ok_reason else failed_reason) \<rparr>"

definition normalize_verification_time :: "verifier_env \<Rightarrow> datetime option \<Rightarrow> utc result" where
  "normalize_verification_time env value =
     (case value of None \<Rightarrow> Inr (env_now env)
      | Some d \<Rightarrow> utc_or_raise (ValueError ''verified_at_utc must be timezone-aware'') d)"

definition has_any_signature_field :: "signed_tree_head \<Rightarrow> bool" where
  "has_any_signature_field th \<longleftrightarrow> th_signature_alg th \<noteq> None \<or> th_signature th \<noteq> None \<or> th_public_key_id th \<noteq> None"

definition verify_tree_head_trust ::
  "verifier_env \<Rightarrow> signed_tree_head \<Rightarrow> tree_head_trust_store \<Rightarrow> (bool \<times> string) result" where
  "verify_tree_head_trust env th trust_store =
     (if th_signature_alg th = None \<and> th_signature th = None \<and> th_public_key_id th = None
      then Inr (False, ''tree head is unsigned'')
      else if th_signature_alg th = None \<or> th_signature th = None \<or> th_public_key_id th = None
      then Inr (False, ''tree head signing envelope is incomplete'')
      else case th_public_key_id th of
        None \<Rightarrow> Inr (False, ''tree head public_key_id is missing'')
      | Some key_id \<Rightarrow> (case trust_store_get trust_store key_id of
          None \<Rightarrow> Inr (False, ''tree head signing key is not in the verifier trust store'')
        | Some key \<Rightarrow>
            let signed_at = th_created_at_utc th in
            if th_signature_alg th \<noteq> Some (tk_signature_alg key)
            then Inr (False, ''tree head signature algorithm does not match trusted key policy'')
            else if (case tk_not_before_utc key of None \<Rightarrow> False | Some nb \<Rightarrow> signed_at < nb)
            then Inr (False, ''tree head predates trusted key validity'')
            else if (case tk_not_after_utc key of None \<Rightarrow> False | Some na \<Rightarrow> na < signed_at)
            then Inr (False, ''tree head was signed after trusted key validity ended'')
            else if (case tk_revoked_at_utc key of None \<Rightarrow> False | Some rv \<Rightarrow> rv \<le> signed_at)
            then Inr (False, ''tree head was signed at or after trusted key revocation'')
            else rbind (verify_tree_head_signature (env_ed_verify env) (env_ps_verify env) (env_dt env) th (tk_public_key_hex key)) (\<lambda>valid.
              Inr (valid, if valid then ''tree head signature is trusted'' else ''tree head signature is invalid''))))"

definition signature_check :: "string \<Rightarrow> string \<Rightarrow> verifier_policy \<Rightarrow> signed_tree_head \<Rightarrow> bool \<Rightarrow> string \<Rightarrow> verification_check" where
  "signature_check label unsigned_reason policy th verified reason =
     (if vp_require_tree_head_signature policy \<or> has_any_signature_field th
      then \<lparr> vc_code = label, vc_passed = verified, vc_reason = reason \<rparr>
      else \<lparr> vc_code = label, vc_passed = True, vc_reason = unsigned_reason \<rparr>)"

definition outcome ::
  "string \<Rightarrow> evidence_proof_bundle \<Rightarrow> verification_check list \<Rightarrow> utc \<Rightarrow> bool \<Rightarrow> bool \<Rightarrow> string \<Rightarrow> signed_tree_head option \<Rightarrow> verifier_outcome result" where
  "outcome mode bundle checks verified_at signature_verified continuity_verified standing_status latest_head =
     (let valid = list_all vc_passed checks;
          reason = (case filter (\<lambda>c. \<not> vc_passed c) checks of [] \<Rightarrow> ''ok'' | c # _ \<Rightarrow> vc_reason c)
      in if th_tree_size (bu_tree_head bundle) < 1 then Inl (ValidationError ''VerifierOutcome'')
         else Inr \<lparr> vo_valid = valid, vo_mode = mode, vo_reason = reason,
           vo_event_id = ev_event_id (bu_event bundle), vo_log_id = th_log_id (bu_tree_head bundle),
           vo_event_hash = bu_event_hash bundle, vo_leaf_hash = bu_leaf_hash bundle,
           vo_checkpoint_root_hash = th_root_hash (bu_tree_head bundle),
           vo_checkpoint_tree_size = th_tree_size (bu_tree_head bundle),
           vo_latest_root_hash = map_option th_root_hash latest_head,
           vo_latest_tree_size = map_option th_tree_size latest_head,
           vo_signature_verified = signature_verified, vo_continuity_verified = continuity_verified,
           vo_standing_status = standing_status, vo_checks = checks, vo_verified_at_utc = verified_at \<rparr>)"

section \<open>Offline verification\<close>

definition bundle_checks ::
  "verifier_env \<Rightarrow> evidence_proof_bundle \<Rightarrow> tree_head_trust_store \<Rightarrow> verifier_policy \<Rightarrow> utc \<Rightarrow> (verification_check list \<times> bool) result" where
  "bundle_checks env bundle trust_store policy verified_at =
     (let head = bu_tree_head bundle; proof = bu_inclusion_proof bundle in
      rbind (canonical_sha256 (py_of_json (hashable_payload (env_dt env) (bu_event bundle)))) (\<lambda>event_hash.
      rbind (leaf_hash_for_event_hash event_hash) (\<lambda>expected_leaf_hash.
      rbind (verify_inclusion_proof (env_now env) proof) (\<lambda>proof_result.
      rbind (verify_tree_head_trust env head trust_store) (\<lambda>(signature_verified, signature_reason).
      Inr ([check ''event_hash'' (event_hash = bu_event_hash bundle)
              ''event hash matches canonical event'' ''bundle event hash does not match canonical event'',
            check ''leaf_binding'' (expected_leaf_hash = bu_leaf_hash bundle)
              ''leaf hash is bound to event hash'' ''bundle leaf hash is not derived from the canonical event hash'',
            check ''proof_leaf_binding'' (ip_leaf_hash proof = bu_leaf_hash bundle)
              ''proof leaf matches bundle leaf'' ''inclusion proof leaf does not match bundle leaf'',
            \<lparr> vc_code = ''inclusion_proof'', vc_passed = vr_valid proof_result, vc_reason = vr_reason proof_result \<rparr>,
            check ''checkpoint_root_binding'' (th_root_hash head = ip_root_hash proof)
              ''tree head root matches inclusion proof'' ''tree head root does not match inclusion proof root'',
            check ''checkpoint_size_binding'' (th_tree_size head = ip_tree_size proof)
              ''tree head size matches inclusion proof'' ''tree head size does not match inclusion proof size'',
            check ''log_identity'' (vp_expected_log_id policy = None \<or> vp_expected_log_id policy = Some (th_log_id head))
              ''log identity accepted'' ''tree head log_id is not trusted'',
            check ''checkpoint_time'' (th_created_at_utc head \<le> verified_at + seconds (vp_max_future_skew_seconds policy))
              ''checkpoint time is plausible'' ''checkpoint timestamp is too far in the future'',
            signature_check ''tree_head_signature''
              ''unsigned checkpoint accepted only because policy explicitly allows it''
              policy head signature_verified signature_reason], signature_verified))))))"

definition verify_offline_bundle ::
  "verifier_env \<Rightarrow> evidence_proof_bundle \<Rightarrow> tree_head_trust_store \<Rightarrow> verifier_policy \<Rightarrow> datetime option \<Rightarrow> verifier_outcome result" where
  "verify_offline_bundle env bundle trust_store policy verified_at_utc =
     rbind (normalize_verification_time env verified_at_utc) (\<lambda>verified_at.
     rbind (bundle_checks env bundle trust_store policy verified_at) (\<lambda>(checks, signature_verified).
     outcome ''offline'' bundle checks verified_at signature_verified False ''checkpoint_only'' None))"

section \<open>Online verification\<close>

definition unreserved :: "char \<Rightarrow> bool" where
  "unreserved c \<longleftrightarrow> is_digit c \<or> (65 \<le> code c \<and> code c \<le> 90) \<or> (97 \<le> code c \<and> code c \<le> 122) \<or> c \<in> set ''_.-~''"

text \<open>\<^verbatim>\<open>urllib.parse.quote(text, safe="")\<close>: other characters as percent-encoded UTF-8 bytes.\<close>

definition quote_byte :: "byte \<Rightarrow> string" where
  "quote_byte b = CHR ''%'' # map (\<lambda>c. if 97 \<le> code c then char_of (code c - 32) else c) (hex_byte b)"

definition quote :: "string \<Rightarrow> string" where
  "quote text = concat (map (\<lambda>c. if unreserved c then [c] else concat (map quote_byte (utf8_char c))) text)"

definition strip_slashes :: "string \<Rightarrow> string" where
  "strip_slashes path = rev (dropWhile (\<lambda>c. c = CHR ''/'') (rev path))"

definition validated_base_url :: "verifier_env \<Rightarrow> string \<Rightarrow> string list \<Rightarrow> bool \<Rightarrow> string result" where
  "validated_base_url env base_url allowed_hosts allow_insecure_http =
     rbind (env_urlsplit env base_url) (\<lambda>parsed.
     case us_hostname parsed of
       None \<Rightarrow> Inl (ValueError ''base_url must be an absolute HTTP or HTTPS URL'')
     | Some hostname \<Rightarrow>
         if us_scheme parsed \<notin> {''https'', ''http''}
         then Inl (ValueError ''base_url must be an absolute HTTP or HTTPS URL'')
         else if us_username parsed \<noteq> None \<or> us_password parsed \<noteq> None
         then Inl (ValueError ''base_url must not contain embedded credentials'')
         else if us_query parsed \<noteq> [] \<or> us_fragment parsed \<noteq> []
         then Inl (ValueError ''base_url must not contain a query string or fragment'')
         else if us_scheme parsed \<noteq> ''https'' \<and> \<not> allow_insecure_http
         then Inl (ValueError ''online verification requires HTTPS unless allow_insecure_http is set'')
         else if allowed_hosts \<noteq> [] \<and> lower hostname \<notin> lower ` set allowed_hosts
         then Inl (ValueError ''base_url host is not in the verifier allowlist'')
         else Inr (us_scheme parsed @ ''://'' @ us_netloc parsed @ strip_slashes (us_path parsed)))"

definition bundle_url :: "string \<Rightarrow> string \<Rightarrow> string" where
  "bundle_url endpoint event_id = endpoint @ ''/api/v1/bundles/'' @ quote event_id"

definition head_url :: "string \<Rightarrow> string" where
  "head_url endpoint = endpoint @ ''/api/v1/log/head''"

definition consistency_url :: "string \<Rightarrow> int \<Rightarrow> int \<Rightarrow> string" where
  "consistency_url endpoint from_size to_size =
     endpoint @ ''/api/v1/proofs/consistency?from_size='' @ show_int from_size @ ''&to_size='' @ show_int to_size"

definition parse_model :: "('j \<Rightarrow> 'a result) \<Rightarrow> ('j \<Rightarrow> 'a result) \<Rightarrow> 'j \<Rightarrow> 'a result" where
  "parse_model validate validate_json payload =
     (case validate payload of Inl (ValidationError _) \<Rightarrow> validate_json payload | r \<Rightarrow> r)"

definition parse_bundle :: "verifier_env \<Rightarrow> json \<Rightarrow> evidence_proof_bundle result" where
  "parse_bundle env = parse_model (env_bundle_validate env) (env_bundle_validate_json env)"

definition parse_tree_head :: "verifier_env \<Rightarrow> json \<Rightarrow> signed_tree_head result" where
  "parse_tree_head env = parse_model (env_head_validate env) (env_head_validate_json env)"

definition parse_consistency_proof :: "verifier_env \<Rightarrow> json \<Rightarrow> consistency_proof result" where
  "parse_consistency_proof env = parse_model (env_consistency_validate env) (env_consistency_validate_json env)"

definition latest_head_checks ::
  "verifier_policy \<Rightarrow> utc \<Rightarrow> signed_tree_head \<Rightarrow> signed_tree_head \<Rightarrow> bool \<Rightarrow> string \<Rightarrow> verification_check list" where
  "latest_head_checks policy verified_at previous_head latest_head signature_verified signature_reason =
     [check ''latest_log_identity'' (th_log_id latest_head = th_log_id previous_head)
        ''latest head uses the same log identity'' ''latest head log_id differs from bundle checkpoint''] @
     (case vp_expected_log_id policy of None \<Rightarrow> []
      | Some expected \<Rightarrow> [check ''latest_expected_log_identity'' (th_log_id latest_head = expected)
          ''latest head log identity accepted'' ''latest head log_id is not trusted'']) @
     [check ''latest_checkpoint_time'' (th_created_at_utc previous_head \<le> th_created_at_utc latest_head)
        ''latest checkpoint time does not regress'' ''latest checkpoint timestamp regressed'',
      check ''latest_checkpoint_future_skew''
        (th_created_at_utc latest_head \<le> verified_at + seconds (vp_max_future_skew_seconds policy))
        ''latest checkpoint time is plausible'' ''latest checkpoint timestamp is too far in the future'',
      signature_check ''latest_tree_head_signature''
        ''unsigned latest checkpoint accepted only because policy explicitly allows it''
        policy latest_head signature_verified signature_reason]"

definition continuity_check ::
  "verifier_env \<Rightarrow> string \<Rightarrow> signed_tree_head \<Rightarrow> signed_tree_head \<Rightarrow> (bool \<times> string) result" where
  "continuity_check env endpoint previous_head latest_head =
     (if th_tree_size latest_head < th_tree_size previous_head then Inr (False, ''latest tree size regressed'')
      else if th_tree_size latest_head = th_tree_size previous_head then
        (let same_root = (th_root_hash latest_head = th_root_hash previous_head)
         in Inr (same_root, if same_root then ''latest head matches bundle checkpoint'' else ''same tree size has a different root''))
      else
        rbind (env_get_json env (consistency_url endpoint (th_tree_size previous_head) (th_tree_size latest_head))) (\<lambda>payload.
        rbind (parse_consistency_proof env payload) (\<lambda>consistency.
        rbind (verify_consistency_proof (env_now env) consistency) (\<lambda>consistency_result.
        let contract_matches = (cp_previous_tree_size consistency = th_tree_size previous_head \<and>
              cp_latest_tree_size consistency = th_tree_size latest_head \<and>
              cp_previous_root_hash consistency = th_root_hash previous_head \<and>
              cp_latest_root_hash consistency = th_root_hash latest_head)
        in Inr (vr_valid consistency_result \<and> contract_matches,
                if \<not> vr_valid consistency_result then vr_reason consistency_result
                else if \<not> contract_matches then ''consistency proof does not bind the requested checkpoints''
                else ''append-only consistency from bundle checkpoint to latest head verified'')))))"

definition verify_latest_head ::
  "verifier_env \<Rightarrow> string \<Rightarrow> evidence_proof_bundle \<Rightarrow> verifier_outcome \<Rightarrow> tree_head_trust_store \<Rightarrow> verifier_policy \<Rightarrow> utc \<Rightarrow>
   verifier_outcome result" where
  "verify_latest_head env endpoint bundle offline trust_store policy verified_at =
     rbind (env_get_json env (head_url endpoint)) (\<lambda>latest_payload.
     rbind (parse_tree_head env latest_payload) (\<lambda>latest_head.
     rbind (verify_tree_head_trust env latest_head trust_store) (\<lambda>(latest_verified, latest_reason).
     rbind (continuity_check env endpoint (bu_tree_head bundle) latest_head) (\<lambda>(continuity_verified, continuity_reason).
     let checks = vo_checks offline @
           latest_head_checks policy verified_at (bu_tree_head bundle) latest_head latest_verified latest_reason @
           [\<lparr> vc_code = ''append_only_continuity'', vc_passed = continuity_verified, vc_reason = continuity_reason \<rparr>]
     in rbind (outcome ''online'' bundle checks verified_at (vo_signature_verified offline \<and> latest_verified)
                 continuity_verified ''current_log'' (Some latest_head)) (\<lambda>result.
        if \<not> continuity_verified \<and> vo_valid result
        then Inl (AssertionError ''online verifier cannot be valid without continuity verification'')
        else Inr result)))))"

definition verify_online_event ::
  "verifier_env \<Rightarrow> string \<Rightarrow> string \<Rightarrow> tree_head_trust_store \<Rightarrow> verifier_policy \<Rightarrow> string list \<Rightarrow> bool \<Rightarrow> rat \<Rightarrow> int \<Rightarrow>
   datetime option \<Rightarrow> verifier_outcome result" where
  "verify_online_event env base_url event_id trust_store policy allowed_hosts allow_insecure_http
     timeout_seconds max_response_bytes verified_at_utc =
     rbind (rcheck (event_id \<noteq> []) (ValueError ''event_id is required'')) (\<lambda>_.
     rbind (rcheck (0 < timeout_seconds \<and> timeout_seconds \<le> 60)
       (ValueError ''timeout_seconds must be greater than zero and at most 60'')) (\<lambda>_.
     rbind (rcheck (1024 \<le> max_response_bytes \<and> max_response_bytes \<le> 16 * 1024 * 1024)
       (ValueError ''max_response_bytes must be between 1 KiB and 16 MiB'')) (\<lambda>_.
     rbind (validated_base_url env base_url allowed_hosts allow_insecure_http) (\<lambda>endpoint.
     rbind (normalize_verification_time env verified_at_utc) (\<lambda>verified_at.
     rbind (env_get_json env (bundle_url endpoint event_id)) (\<lambda>bundle_payload.
     rbind (parse_bundle env bundle_payload) (\<lambda>bundle.
     rbind (verify_offline_bundle env bundle trust_store policy (Some (Aware verified_at 0))) (\<lambda>offline.
     if ev_event_id (bu_event bundle) \<noteq> event_id then
       (let mismatch = \<lparr> vc_code = ''requested_event'', vc_passed = False,
              vc_reason = ''server bundle event_id does not match requested event_id'' \<rparr>
        in Inr (offline \<lparr> vo_mode := ''online'', vo_valid := False, vo_reason := vc_reason mismatch,
                          vo_checks := vo_checks offline @ [mismatch] \<rparr>))
     else if \<not> vo_valid offline then Inr (offline \<lparr> vo_mode := ''online'' \<rparr>)
     else verify_latest_head env endpoint bundle offline trust_store policy verified_at))))))))"

section \<open>What a valid outcome gives\<close>

lemma vc_passed_check [simp]: "vc_passed (check label passed a b) = passed"
  by (simp add: check_def)

lemma vc_passed_signature_check [simp]:
  "vc_passed (signature_check label a policy th verified b) =
     (vp_require_tree_head_signature policy \<or> has_any_signature_field th \<longrightarrow> verified)"
  by (auto simp: signature_check_def)

lemma outcome_Inr:
  assumes "outcome mode b checks vat sig cont standing latest = Inr r"
  shows "(vo_valid r \<longleftrightarrow> list_all vc_passed checks) \<and> vo_mode r = mode \<and> vo_signature_verified r = sig \<and>
    vo_continuity_verified r = cont \<and> vo_standing_status r = standing \<and> vo_checks r = checks \<and>
    vo_checkpoint_root_hash r = th_root_hash (bu_tree_head b) \<and> vo_checkpoint_tree_size r = th_tree_size (bu_tree_head b) \<and>
    vo_latest_root_hash r = map_option th_root_hash latest \<and> vo_latest_tree_size r = map_option th_tree_size latest"
  using assms by (auto simp: outcome_def Let_def split: if_splits)

lemma bundle_checks_passed:
  assumes "bundle_checks env b ts policy vat = Inr (checks, sig)" "list_all vc_passed checks"
  shows "\<exists>pr reason. bu_event_hash b = event_hash_of (env_dt env) (bu_event b) \<and>
    bu_leaf_hash b = leaf_hash_of (env_dt env) (bu_event b) \<and> ip_leaf_hash (bu_inclusion_proof b) = bu_leaf_hash b \<and>
    verify_inclusion_proof (env_now env) (bu_inclusion_proof b) = Inr pr \<and> vr_valid pr \<and>
    th_root_hash (bu_tree_head b) = ip_root_hash (bu_inclusion_proof b) \<and>
    th_tree_size (bu_tree_head b) = ip_tree_size (bu_inclusion_proof b) \<and>
    verify_tree_head_trust env (bu_tree_head b) ts = Inr (sig, reason) \<and>
    (vp_require_tree_head_signature policy \<or> has_any_signature_field (bu_tree_head b) \<longrightarrow> sig)"
proof -
  obtain pr where pr: "verify_inclusion_proof (env_now env) (bu_inclusion_proof b) = Inr pr"
    using assms(1) by (auto simp: bundle_checks_def Let_def)
  obtain sig' reason where sig: "verify_tree_head_trust env (bu_tree_head b) ts = Inr (sig', reason)"
    using assms(1) by (auto simp: bundle_checks_def Let_def)
  show ?thesis
    using assms pr sig
    by (auto simp: bundle_checks_def Let_def canonical_sha256_native simp flip: event_hash_of_def)
qed

lemma offline_split:
  assumes "verify_offline_bundle env b ts policy vat = Inr r"
  obtains verified_at checks sig where "normalize_verification_time env vat = Inr verified_at"
    "bundle_checks env b ts policy verified_at = Inr (checks, sig)"
    "outcome ''offline'' b checks verified_at sig False ''checkpoint_only'' None = Inr r"
  using assms by (auto simp: verify_offline_bundle_def)

lemma offline_valid:
  assumes "verify_offline_bundle env b ts policy vat = Inr r" "vo_valid r"
  shows "\<exists>pr reason. bu_event_hash b = event_hash_of (env_dt env) (bu_event b) \<and>
    bu_leaf_hash b = leaf_hash_of (env_dt env) (bu_event b) \<and> ip_leaf_hash (bu_inclusion_proof b) = bu_leaf_hash b \<and>
    verify_inclusion_proof (env_now env) (bu_inclusion_proof b) = Inr pr \<and> vr_valid pr \<and>
    th_root_hash (bu_tree_head b) = ip_root_hash (bu_inclusion_proof b) \<and>
    th_tree_size (bu_tree_head b) = ip_tree_size (bu_inclusion_proof b) \<and>
    verify_tree_head_trust env (bu_tree_head b) ts = Inr (vo_signature_verified r, reason) \<and>
    (vp_require_tree_head_signature policy \<or> has_any_signature_field (bu_tree_head b) \<longrightarrow> vo_signature_verified r)"
proof -
  obtain verified_at checks sig where *: "bundle_checks env b ts policy verified_at = Inr (checks, sig)"
    "outcome ''offline'' b checks verified_at sig False ''checkpoint_only'' None = Inr r"
    using offline_split [OF assms(1)] by blast
  with outcome_Inr [OF *(2)] assms(2) have "list_all vc_passed checks" "vo_signature_verified r = sig" by auto
  with bundle_checks_passed [OF *(1)] show ?thesis by simp
qed

lemma offline_fixed_fields:
  assumes "verify_offline_bundle env b ts policy vat = Inr r"
  shows "vo_mode r = ''offline'' \<and> \<not> vo_continuity_verified r \<and> vo_standing_status r = ''checkpoint_only'' \<and>
    vo_latest_root_hash r = None \<and> (vo_valid r \<longleftrightarrow> list_all vc_passed (vo_checks r))"
  using offline_split [OF assms] outcome_Inr by (metis option.simps(8))

lemma trust_store_get_mem: "trust_store_get ts k = Some key \<Longrightarrow> key \<in> set (ts_keys ts) \<and> tk_key_id key = k"
  by (auto simp: trust_store_get_def find_Some_iff)

definition key_valid_at :: "trusted_tree_head_key \<Rightarrow> utc \<Rightarrow> bool" where
  "key_valid_at key t \<longleftrightarrow>
     \<not> (case tk_not_before_utc key of None \<Rightarrow> False | Some nb \<Rightarrow> t < nb) \<and>
     \<not> (case tk_not_after_utc key of None \<Rightarrow> False | Some na \<Rightarrow> na < t) \<and>
     \<not> (case tk_revoked_at_utc key of None \<Rightarrow> False | Some rv \<Rightarrow> rv \<le> t)"

lemma trust_accepted:
  assumes "verify_tree_head_trust env th ts = Inr (True, reason)"
  shows "\<exists>key. key \<in> set (ts_keys ts) \<and> th_public_key_id th = Some (tk_key_id key) \<and>
    th_signature_alg th = Some (tk_signature_alg key) \<and> key_valid_at key (th_created_at_utc th) \<and>
    verify_tree_head_signature (env_ed_verify env) (env_ps_verify env) (env_dt env) th (tk_public_key_hex key) = Inr True"
proof -
  obtain kid where kid: "th_public_key_id th = Some kid"
    using assms by (cases "th_public_key_id th") (auto simp: verify_tree_head_trust_def split: if_split_asm)
  obtain key where key: "trust_store_get ts kid = Some key"
    using assms kid by (cases "trust_store_get ts kid") (auto simp: verify_tree_head_trust_def split: if_split_asm)
  have "th_signature_alg th = Some (tk_signature_alg key) \<and> key_valid_at key (th_created_at_utc th) \<and>
      verify_tree_head_signature (env_ed_verify env) (env_ps_verify env) (env_dt env) th (tk_public_key_hex key) = Inr True"
    using assms kid key by (auto simp: verify_tree_head_trust_def key_valid_at_def Let_def split: if_split_asm)
  with trust_store_get_mem [OF key] kid show ?thesis by blast
qed

text \<open>The messages hashed on the side of a bundle, and on the side of a log.\<close>

definition bundle_messages :: "(utc \<Rightarrow> string) \<Rightarrow> evidence_proof_bundle \<Rightarrow> byte list list" where
  "bundle_messages dt b = canon (hashable_payload dt (bu_event b)) #
     (leaf_hash_prefix @ unhex (event_hash_of dt (bu_event b))) #
     path_inputs (unhex (ip_leaf_hash (bu_inclusion_proof b))) (proof_steps (bu_inclusion_proof b))"

definition log_messages :: "(utc \<Rightarrow> string) \<Rightarrow> evidence_event list \<Rightarrow> byte list list" where
  "log_messages dt es = map (\<lambda>e. canon (hashable_payload dt e)) es @ leaf_inputs (event_digests dt es) @
     node_inputs (map leaf_digest (event_digests dt es))"

lemma leaf_hash_binds_event:
  assumes "json_ok (hashable_payload dt e)" "json_ok (hashable_payload dt f)"
    and "unhex (leaf_hash_of dt e) = unhex (leaf_hash_of dt f)"
  shows "same_content dt e f \<or>
    sha256_collision (leaf_hash_prefix @ unhex (event_hash_of dt e), leaf_hash_prefix @ unhex (event_hash_of dt f)) \<or>
    sha256_collision (canon (hashable_payload dt e), canon (hashable_payload dt f))"
proof -
  from assms(3) have "unhex (event_hash_of dt e) = unhex (event_hash_of dt f) \<or>
      sha256_collision (leaf_hash_prefix @ unhex (event_hash_of dt e), leaf_hash_prefix @ unhex (event_hash_of dt f))"
    by (auto simp: leaf_hash_of_def leaf_digest_def sha256_collision_def)
  moreover have "same_content dt e f \<or> sha256_collision (canon (hashable_payload dt e), canon (hashable_payload dt f))"
    if "unhex (event_hash_of dt e) = unhex (event_hash_of dt f)"
  proof -
    from that have "canon (hashable_payload dt e) = canon (hashable_payload dt f) \<or>
        sha256_collision (canon (hashable_payload dt e), canon (hashable_payload dt f))"
      by (auto simp: event_hash_of_def sha256_collision_def)
    with canon_eq_iff [OF assms(1,2)] hashable_payload_inject show ?thesis by blast
  qed
  ultimately show ?thesis by blast
qed

lemma offline_event_in_log:
  assumes "bundle_ok b" "verify_offline_bundle env b ts policy vat = Inr r" "vo_valid r"
    and "json_ok (hashable_payload (env_dt env) (bu_event b))" "\<forall>e \<in> set es. json_ok (hashable_payload (env_dt env) e)"
    and "merkle_root (log_leaves (env_dt env) es) = Inr (th_root_hash (bu_tree_head b))"
    and "th_tree_size (bu_tree_head b) = int (length es)"
  shows "(\<exists>e \<in> set es. same_content (env_dt env) (bu_event b) e) \<or>
    collides (bundle_messages (env_dt env) b) (log_messages (env_dt env) es)"
proof -
  let ?dt = "env_dt env" and ?p = "bu_inclusion_proof b"
  obtain pr where v: "bu_leaf_hash b = leaf_hash_of ?dt (bu_event b)" "ip_leaf_hash ?p = bu_leaf_hash b"
    "verify_inclusion_proof (env_now env) ?p = Inr pr" "vr_valid pr"
    "th_root_hash (bu_tree_head b) = ip_root_hash ?p" "th_tree_size (bu_tree_head b) = ip_tree_size ?p"
    using offline_valid [OF assms(2,3)] by blast
  have "inclusion_proof_ok ?p" using assms(1) by (simp add: bundle_ok_def)
  from inclusion_proof_binding [OF this v(3,4), of ?dt es] assms(6,7) v(5,6)
  consider (leaf) "unhex (leaf_hash_of ?dt (bu_event b)) = unhex (leaf_hash_of ?dt (es ! nat (ip_leaf_index ?p)))"
      "nat (ip_leaf_index ?p) < length es"
    | (coll) "collides (path_inputs (unhex (ip_leaf_hash ?p)) (proof_steps ?p)) (node_inputs (map leaf_digest (event_digests ?dt es)))"
    using v(1,2) by auto
  then show ?thesis
  proof cases
    case leaf
    let ?e = "es ! nat (ip_leaf_index ?p)"
    have e: "?e \<in> set es" using leaf(2) by simp
    from leaf_hash_binds_event [OF assms(4) _ leaf(1)] assms(5) e
    show ?thesis
      by (auto simp: collides_def bundle_messages_def log_messages_def leaf_inputs_def event_digests_def)
  next
    case coll
    then have "collides (bundle_messages ?dt b) (log_messages ?dt es)"
      by (rule collides_mono) (auto simp: bundle_messages_def log_messages_def)
    then show ?thesis ..
  qed
qed

lemma latest_head_valid:
  assumes "verify_latest_head env endpoint b off ts policy verified_at = Inr r" "vo_valid r"
  shows "\<exists>head hpayload lv lr cr. env_get_json env (head_url endpoint) = Inr hpayload \<and>
    parse_tree_head env hpayload = Inr head \<and>
    continuity_check env endpoint (bu_tree_head b) head = Inr (True, cr) \<and> vo_continuity_verified r \<and>
    verify_tree_head_trust env head ts = Inr (lv, lr) \<and> (vp_require_tree_head_signature policy \<longrightarrow> lv) \<and>
    th_log_id head = th_log_id (bu_tree_head b) \<and> th_created_at_utc (bu_tree_head b) \<le> th_created_at_utc head \<and>
    vo_checkpoint_root_hash r = th_root_hash (bu_tree_head b) \<and> vo_checkpoint_tree_size r = th_tree_size (bu_tree_head b) \<and>
    vo_latest_root_hash r = Some (th_root_hash head) \<and> vo_latest_tree_size r = Some (th_tree_size head)"
proof -
  obtain hpayload head lv lr cv cr where 1: "env_get_json env (head_url endpoint) = Inr hpayload"
    "parse_tree_head env hpayload = Inr head" "verify_tree_head_trust env head ts = Inr (lv, lr)"
    "continuity_check env endpoint (bu_tree_head b) head = Inr (cv, cr)"
    and out: "outcome ''online'' b (vo_checks off @ latest_head_checks policy verified_at (bu_tree_head b) head lv lr @
        [\<lparr> vc_code = ''append_only_continuity'', vc_passed = cv, vc_reason = cr \<rparr>]) verified_at
        (vo_signature_verified off \<and> lv) cv ''current_log'' (Some head) = Inr r"
    using assms(1) unfolding verify_latest_head_def Let_def rbind_eq_Inr case_prod_beta
    by (auto split: if_split_asm)
  note o = outcome_Inr [OF out]
  with assms(2) have "cv" "list_all vc_passed (latest_head_checks policy verified_at (bu_tree_head b) head lv lr)" by auto
  then have "cv \<and> (vp_require_tree_head_signature policy \<longrightarrow> lv) \<and>
      th_log_id head = th_log_id (bu_tree_head b) \<and> th_created_at_utc (bu_tree_head b) \<le> th_created_at_utc head"
    by (auto simp: latest_head_checks_def)
  with 1 o show ?thesis by auto
qed

lemma online_valid:
  assumes "verify_online_event env url i ts policy hosts insecure timeout maxb vat = Inr r" "vo_valid r"
  shows "\<exists>endpoint b payload off verified_at. validated_base_url env url hosts insecure = Inr endpoint \<and>
    ev_event_id (bu_event b) = i \<and>
    env_get_json env (bundle_url endpoint i) = Inr payload \<and> parse_bundle env payload = Inr b \<and>
    verify_offline_bundle env b ts policy (Some (Aware verified_at 0)) = Inr off \<and> vo_valid off \<and>
    verify_latest_head env endpoint b off ts policy verified_at = Inr r"
  using assms unfolding verify_online_event_def Let_def rbind_eq_Inr
  by (elim exE conjE) (auto split: if_split_asm)

text \<open>The leaves of the consistency proof the log served for two checkpoints.\<close>

definition fetched_leaves :: "verifier_env \<Rightarrow> string \<Rightarrow> signed_tree_head \<Rightarrow> signed_tree_head \<Rightarrow> byte list list" where
  "fetched_leaves env endpoint old new =
     (case rbind (env_get_json env (consistency_url endpoint (th_tree_size old) (th_tree_size new))) (parse_consistency_proof env) of
        Inl _ \<Rightarrow> [] | Inr p \<Rightarrow> map unhex (cp_leaf_hashes p))"

definition continuity_messages :: "verifier_env \<Rightarrow> string \<Rightarrow> signed_tree_head \<Rightarrow> signed_tree_head \<Rightarrow> byte list list \<Rightarrow> byte list list" where
  "continuity_messages env endpoint old new digests =
     (let ls = fetched_leaves env endpoint old new
      in node_inputs ls @ node_inputs (take (length digests) ls) @ tree_inputs digests)"

lemma tree_inputs_sub:
  "set (node_inputs (map leaf_digest bs)) \<subseteq> set (tree_inputs bs)" "set (leaf_inputs bs) \<subseteq> set (tree_inputs bs)"
  "set (leaf_inputs (take n bs)) \<subseteq> set (tree_inputs bs)"
  by (auto simp: tree_inputs_def leaf_inputs_def node_inputs.simps [of "[]"] dest: in_set_takeD)

lemma continuity_sound:
  assumes "continuity_check env endpoint old new = Inr (True, reason)"
    and parsed: "\<And>payload p. parse_consistency_proof env payload = Inr p \<Longrightarrow> consistency_proof_ok p"
    and "merkle_root (log_leaves dt es) = Inr (th_root_hash old)" "th_tree_size old = int (length es)"
    and "merkle_root (log_leaves dt fs) = Inr (th_root_hash new)" "th_tree_size new = int (length fs)"
  shows "length es \<le> length fs \<and> (event_digests dt es = take (length es) (event_digests dt fs) \<or>
    collides (continuity_messages env endpoint old new (event_digests dt es))
      (tree_inputs (event_digests dt es) @ tree_inputs (event_digests dt fs)))"
proof (cases "th_tree_size new = th_tree_size old")
  case True
  with assms(1) have root: "th_root_hash new = th_root_hash old"
    by (auto simp: continuity_check_def Let_def)
  have len: "length es = length fs" using True assms(4,6) by simp
  have "mth (map leaf_digest (event_digests dt es)) = mth (map leaf_digest (event_digests dt fs))"
    using merkle_root_log [OF assms(3)] merkle_root_log [OF assms(5)] root by simp
  from tree_binding [OF this] len show ?thesis
    by (auto simp: collides_def continuity_messages_def Let_def)
next
  case False
  with assms(1) obtain payload p cr where p: "parse_consistency_proof env payload = Inr p"
    "env_get_json env (consistency_url endpoint (th_tree_size old) (th_tree_size new)) = Inr payload"
    "verify_consistency_proof (env_now env) p = Inr cr" "vr_valid cr"
    "cp_previous_tree_size p = th_tree_size old" "cp_latest_tree_size p = th_tree_size new"
    "cp_previous_root_hash p = th_root_hash old" "cp_latest_root_hash p = th_root_hash new"
    and le: "th_tree_size old < th_tree_size new"
    by (auto simp: continuity_check_def Let_def split: if_split_asm)
  have ls: "fetched_leaves env endpoint old new = map unhex (cp_leaf_hashes p)"
    by (simp add: fetched_leaves_def p)
  have len: "length es \<le> length fs" using le assms(4,6) by simp
  let ?os = "event_digests dt es" and ?ns = "event_digests dt fs"
  consider "?os = take (length es) ?ns"
    | "collides (node_inputs (take (length es) (map unhex (cp_leaf_hashes p)))) (node_inputs (map leaf_digest ?os))"
    | "collides (node_inputs (map unhex (cp_leaf_hashes p))) (node_inputs (map leaf_digest ?ns))"
    | "collides (leaf_inputs ?os) (leaf_inputs (take (length es) ?ns))"
    using consistency_proof_binding [OF p(3,4) parsed [OF p(1)], of dt es fs] assms(3-6) p(5-8) unfolding Let_def by auto
  then have "?os = take (length es) ?ns \<or>
      collides (continuity_messages env endpoint old new ?os) (tree_inputs ?os @ tree_inputs ?ns)"
  proof cases
    case 2
    then have "collides (continuity_messages env endpoint old new ?os) (tree_inputs ?os @ tree_inputs ?ns)"
      by (rule collides_mono) (use tree_inputs_sub(1) [of ?os] in \<open>auto simp: continuity_messages_def ls Let_def\<close>)
    then show ?thesis ..
  next
    case 3
    then have "collides (continuity_messages env endpoint old new ?os) (tree_inputs ?os @ tree_inputs ?ns)"
      by (rule collides_mono) (use tree_inputs_sub(1) [of ?ns] in \<open>auto simp: continuity_messages_def ls Let_def\<close>)
    then show ?thesis ..
  next
    case 4
    then have "collides (continuity_messages env endpoint old new ?os) (tree_inputs ?os @ tree_inputs ?ns)"
      by (rule collides_mono)
        (use tree_inputs_sub(2) [of ?os] tree_inputs_sub(3) [of "length es" ?ns] in \<open>auto simp: continuity_messages_def ls Let_def\<close>)
    then show ?thesis ..
  qed simp
  with len show ?thesis by blast
qed

section \<open>Properties\<close>

text \<open>
  C12. A valid offline outcome means the evidence is in the log: if the bundle's checkpoint carries
  the root and size of a log, one of the events of the log has the content of the bundle's event,
  unless a message hashed for the bundle collides with one hashed for the log.
\<close>

theorem offline_valid_means_logged:
  assumes "bundle_ok b" "verify_offline_bundle env b ts policy vat = Inr r" "vo_valid r"
    and "json_ok (hashable_payload (env_dt env) (bu_event b))" "\<forall>e \<in> set es. json_ok (hashable_payload (env_dt env) e)"
    and "merkle_root (log_leaves (env_dt env) es) = Inr (th_root_hash (bu_tree_head b))"
    and "th_tree_size (bu_tree_head b) = int (length es)"
  shows "(\<exists>e \<in> set es. same_content (env_dt env) (bu_event b) e) \<or>
    collides (bundle_messages (env_dt env) b) (log_messages (env_dt env) es)"
  using assms by (rule offline_event_in_log)

definition sample_leaf :: string where
  "sample_leaf = leaf_hash_of isoformat_z sample_event"

definition sample_bundle :: evidence_proof_bundle where
  "sample_bundle = \<lparr> bu_schema_version = ''ets.proof_bundle.v1'', bu_event = sample_event,
     bu_event_hash = event_hash_of isoformat_z sample_event, bu_leaf_hash = sample_leaf,
     bu_tree_head = sample_tree_head \<lparr> th_root_hash := sample_leaf \<rparr>,
     bu_inclusion_proof = \<lparr> ip_schema_version = ''ets.inclusion_proof.v1'', ip_tree_size = 1, ip_leaf_index = 0,
       ip_leaf_hash = sample_leaf, ip_root_hash = sample_leaf, ip_audit_path = [], ip_hash_alg = ''sha256'',
       ip_generated_at_utc = 0 \<rparr>,
     bu_verification_result = \<lparr> vr_valid = True, vr_reason = ''ok'', vr_root_hash = None, vr_leaf_hash = None,
       vr_tree_size = None, vr_verified_at_utc = 0 \<rparr> \<rparr>"

definition sample_env :: verifier_env where
  "sample_env = \<lparr> env_dt = isoformat_z, env_ed_verify = \<lambda>_ _ _. Inr False, env_ps_verify = \<lambda>_ _ _. Inr False, env_now = 5,
     env_urlsplit = \<lambda>_. Inr \<lparr> us_scheme = ''https'', us_netloc = ''log.example'', us_path = [], us_query = [], us_fragment = [],
       us_hostname = Some ''log.example'', us_username = None, us_password = None \<rparr>,
     env_get_json = \<lambda>_. Inr JNull, env_bundle_validate = \<lambda>_. Inr sample_bundle, env_bundle_validate_json = \<lambda>_. Inr sample_bundle,
     env_head_validate = \<lambda>_. Inr (bu_tree_head sample_bundle), env_head_validate_json = \<lambda>_. Inr (bu_tree_head sample_bundle),
     env_consistency_validate = \<lambda>_. Inl (ValidationError []), env_consistency_validate_json = \<lambda>_. Inl (ValidationError []) \<rparr>"

definition unsigned_policy :: verifier_policy where
  "unsigned_policy = \<lparr> vp_require_tree_head_signature = False, vp_expected_log_id = None, vp_max_future_skew_seconds = 300 \<rparr>"

definition empty_trust_store :: tree_head_trust_store where
  "empty_trust_store = \<lparr> ts_schema_version = ''ets.verifier_trust.v1'', ts_keys = [] \<rparr>"

lemma hex64_sample_leaf [simp]: "hex64 sample_leaf" "length sample_leaf = 64"
  using hex64_event_hash_of(2) [of isoformat_z sample_event] by (simp_all add: sample_leaf_def hex64_def)

lemma sample_bundle_ok: "bundle_ok sample_bundle"
  by (simp add: bundle_ok_def sample_bundle_def field_length_def signed_tree_head_ok_def inclusion_proof_ok_def
      sample_tree_head_def hash_field_hex64 event_hash_of_def)

lemma sample_offline:
  "\<exists>r. verify_offline_bundle sample_env sample_bundle empty_trust_store unsigned_policy (Some (Aware t 0)) = Inr r \<and>
    (0 \<le> t \<longrightarrow> vo_valid r) \<and> vo_checkpoint_tree_size r = 1"
  by (simp add: verify_offline_bundle_def bundle_checks_def normalize_verification_time_def sample_env_def sample_bundle_def
      canonical_sha256_native verify_inclusion_proof_def expected_audit_path_positions.simps compute_root_from_audit_path_def
      verify_tree_head_trust_def sample_tree_head_def outcome_def unsigned_policy_def has_any_signature_field_def
      sample_leaf_def Let_def flip: event_hash_of_def)

lemma sample_event_json_ok: "json_ok (hashable_payload dt sample_event)"
  by (simp add: hashable_payload_def sample_event_def JOpt_def)

lemma sample_root: "merkle_root (log_leaves isoformat_z [sample_event]) = Inr sample_leaf"
proof -
  have "log_leaves isoformat_z [sample_event] = [sample_leaf]" by (simp add: map_leaf_hash_entries_of sample_leaf_def)
  then show ?thesis by (simp add: merkle_root_def)
qed

theorem offline_valid_means_logged_witness:
  "(\<exists>e \<in> set [sample_event]. same_content isoformat_z (bu_event sample_bundle) e) \<or>
    collides (bundle_messages isoformat_z sample_bundle) (log_messages isoformat_z [sample_event])"
proof -
  obtain r where r: "verify_offline_bundle sample_env sample_bundle empty_trust_store unsigned_policy (Some (Aware 7 0)) = Inr r" "vo_valid r"
    using sample_offline [of 7] by auto
  have dt: "env_dt sample_env = isoformat_z" by (simp add: sample_env_def)
  show ?thesis
    using offline_valid_means_logged [OF sample_bundle_ok r, of "[sample_event]"] sample_root sample_event_json_ok
    unfolding dt by (simp add: sample_bundle_def sample_tree_head_def)
qed

text \<open>
  C14. When the policy requires signatures, a valid offline outcome rests on a trusted key: the
  head names a key of the verifier's own trust store, with the store's algorithm, the head's time
  lies inside the key's validity and before its revocation, and the signature scheme accepted the
  signature over the head's canonical bytes.
\<close>

theorem offline_valid_means_trusted_signature:
  assumes "verify_offline_bundle env b ts policy vat = Inr r" "vo_valid r" "vp_require_tree_head_signature policy"
  shows "vo_signature_verified r \<and> (\<exists>key \<in> set (ts_keys ts). th_public_key_id (bu_tree_head b) = Some (tk_key_id key) \<and>
    th_signature_alg (bu_tree_head b) = Some (tk_signature_alg key) \<and> key_valid_at key (th_created_at_utc (bu_tree_head b)) \<and>
    verify_tree_head_signature (env_ed_verify env) (env_ps_verify env) (env_dt env) (bu_tree_head b) (tk_public_key_hex key) = Inr True)"
proof -
  from offline_valid [OF assms(1,2)] assms(3) obtain reason where
    "verify_tree_head_trust env (bu_tree_head b) ts = Inr (True, reason)" "vo_signature_verified r" by auto
  with trust_accepted show ?thesis by blast
qed

definition signed_bundle :: evidence_proof_bundle where
  "signed_bundle = sample_bundle \<lparr> bu_tree_head := (bu_tree_head sample_bundle) \<lparr> th_signature_alg := Some ''ed25519'',
     th_signature := Some ''0a'', th_public_key_id := Some ''k1'' \<rparr> \<rparr>"

definition one_key_store :: tree_head_trust_store where
  "one_key_store = \<lparr> ts_schema_version = ''ets.verifier_trust.v1'', ts_keys = [\<lparr> tk_key_id = ''k1'', tk_signature_alg = ''ed25519'',
     tk_public_key_hex = sha256_hex [9], tk_not_before_utc = Some 0, tk_not_after_utc = None, tk_revoked_at_utc = Some 10 \<rparr>] \<rparr>"

theorem offline_valid_means_trusted_signature_witness:
  "\<exists>key \<in> set (ts_keys one_key_store). th_public_key_id (bu_tree_head signed_bundle) = Some (tk_key_id key) \<and>
     key_valid_at key (th_created_at_utc (bu_tree_head signed_bundle))"
proof -
  let ?env = "sample_env \<lparr> env_ed_verify := \<lambda>_ _ _. Inr True \<rparr>" and ?policy = "unsigned_policy \<lparr> vp_require_tree_head_signature := True \<rparr>"
  obtain r where "verify_offline_bundle ?env signed_bundle one_key_store ?policy (Some (Aware 7 0)) = Inr r" "vo_valid r"
    by (simp add: verify_offline_bundle_def bundle_checks_def normalize_verification_time_def sample_env_def sample_bundle_def
      canonical_sha256_native verify_inclusion_proof_def expected_audit_path_positions.simps compute_root_from_audit_path_def
      verify_tree_head_trust_def sample_tree_head_def outcome_def unsigned_policy_def signed_bundle_def one_key_store_def
      trust_store_get_def verify_tree_head_signature_def verify_ed25519_tree_head_signature_def hex_space_def hex_val_def
      sample_leaf_def Let_def flip: event_hash_of_def)
  from offline_valid_means_trusted_signature [OF this] show ?thesis by auto
qed

text \<open>
  An offline outcome never claims more than it checked: it is valid exactly when every recorded
  check passed, it reports the standing \<^verbatim>\<open>checkpoint_only\<close>, and it claims no continuity and no
  latest head.
\<close>

theorem offline_outcome_is_honest:
  "case verify_offline_bundle env b ts policy vat of
     Inr r \<Rightarrow> vo_mode r = ''offline'' \<and> \<not> vo_continuity_verified r \<and> vo_standing_status r = ''checkpoint_only'' \<and>
       vo_latest_root_hash r = None \<and> (vo_valid r \<longleftrightarrow> list_all vc_passed (vo_checks r)) \<and> 1 \<le> th_tree_size (bu_tree_head b)
   | Inl e \<Rightarrow> True"
proof (cases "verify_offline_bundle env b ts policy vat")
  case (Inr r)
  then have "1 \<le> th_tree_size (bu_tree_head b)"
    using offline_split [OF Inr] by (metis outcome_def Inl_Inr_False linorder_not_less)
  with Inr offline_fixed_fields [OF Inr] show ?thesis by simp
qed simp

text \<open>
  C13. A valid online outcome means the log only grew: the served bundle is for the requested event
  and its event is in the checkpointed log, and the event hashes of the checkpointed log are a
  prefix of those of the latest log, unless named messages collide. The two logs are those whose
  roots and sizes the outcome reports; the parsers return models that satisfy their constraints.
\<close>

theorem online_valid_means_append_only:
  assumes online: "verify_online_event env url i ts policy hosts insecure timeout maxb vat = Inr r" "vo_valid r"
    and models: "\<And>payload b. parse_bundle env payload = Inr b \<Longrightarrow> bundle_ok b \<and> json_ok (hashable_payload (env_dt env) (bu_event b))"
      "\<And>payload p. parse_consistency_proof env payload = Inr p \<Longrightarrow> consistency_proof_ok p"
    and json: "\<forall>e \<in> set es. json_ok (hashable_payload (env_dt env) e)"
    and checkpoint: "merkle_root (log_leaves (env_dt env) es) = Inr (vo_checkpoint_root_hash r)" "vo_checkpoint_tree_size r = int (length es)"
    and latest: "vo_latest_root_hash r = Some rh" "merkle_root (log_leaves (env_dt env) fs) = Inr rh"
      "vo_latest_tree_size r = Some (int (length fs))"
  shows "\<exists>endpoint b head. validated_base_url env url hosts insecure = Inr endpoint \<and>
    rbind (env_get_json env (bundle_url endpoint i)) (parse_bundle env) = Inr b \<and>
    rbind (env_get_json env (head_url endpoint)) (parse_tree_head env) = Inr head \<and>
    ev_event_id (bu_event b) = i \<and> length es \<le> length fs \<and>
    ((\<exists>e \<in> set es. same_content (env_dt env) (bu_event b) e) \<or>
      collides (bundle_messages (env_dt env) b) (log_messages (env_dt env) es)) \<and>
    (event_digests (env_dt env) es = take (length es) (event_digests (env_dt env) fs) \<or>
      collides (continuity_messages env endpoint (bu_tree_head b) head (event_digests (env_dt env) es))
        (tree_inputs (event_digests (env_dt env) es) @ tree_inputs (event_digests (env_dt env) fs)))"
proof -
  obtain endpoint b payload off verified_at where b: "validated_base_url env url hosts insecure = Inr endpoint"
    "ev_event_id (bu_event b) = i" "env_get_json env (bundle_url endpoint i) = Inr payload" "parse_bundle env payload = Inr b"
    "verify_offline_bundle env b ts policy (Some (Aware verified_at 0)) = Inr off" "vo_valid off"
    "verify_latest_head env endpoint b off ts policy verified_at = Inr r"
    using online_valid [OF online] by blast
  obtain head hpayload cr where h: "env_get_json env (head_url endpoint) = Inr hpayload" "parse_tree_head env hpayload = Inr head"
    "continuity_check env endpoint (bu_tree_head b) head = Inr (True, cr)"
    "vo_checkpoint_root_hash r = th_root_hash (bu_tree_head b)" "vo_checkpoint_tree_size r = th_tree_size (bu_tree_head b)"
    "vo_latest_root_hash r = Some (th_root_hash head)" "vo_latest_tree_size r = Some (th_tree_size head)"
    using latest_head_valid [OF b(7) online(2)] by blast
  have "(\<exists>e \<in> set es. same_content (env_dt env) (bu_event b) e) \<or>
      collides (bundle_messages (env_dt env) b) (log_messages (env_dt env) es)"
    using offline_event_in_log [OF _ b(5,6) _ json] models(1) [OF b(4)] checkpoint h by simp
  moreover have "length es \<le> length fs \<and> (event_digests (env_dt env) es = take (length es) (event_digests (env_dt env) fs) \<or>
      collides (continuity_messages env endpoint (bu_tree_head b) head (event_digests (env_dt env) es))
        (tree_inputs (event_digests (env_dt env) es) @ tree_inputs (event_digests (env_dt env) fs)))"
    by (rule continuity_sound [OF h(3) models(2)]) (use checkpoint latest h in auto)
  ultimately show ?thesis using b h by auto
qed

theorem online_valid_means_append_only_witness:
  "\<exists>r. verify_online_event sample_env ''u'' ''e-1'' empty_trust_store unsigned_policy [] False 5 2048 (Some (Aware 7 0)) = Inr r \<and> vo_valid r \<and>
    (\<exists>endpoint b head. validated_base_url sample_env ''u'' [] False = Inr endpoint \<and>
    rbind (env_get_json sample_env (bundle_url endpoint ''e-1'')) (parse_bundle sample_env) = Inr b \<and>
    rbind (env_get_json sample_env (head_url endpoint)) (parse_tree_head sample_env) = Inr head \<and>
    ev_event_id (bu_event b) = ''e-1'' \<and> length [sample_event] \<le> length [sample_event] \<and>
    ((\<exists>e \<in> set [sample_event]. same_content isoformat_z (bu_event b) e) \<or>
      collides (bundle_messages isoformat_z b) (log_messages isoformat_z [sample_event])) \<and>
    (event_digests isoformat_z [sample_event] = take (length [sample_event]) (event_digests isoformat_z [sample_event]) \<or>
      collides (continuity_messages sample_env endpoint (bu_tree_head b) head (event_digests isoformat_z [sample_event]))
        (tree_inputs (event_digests isoformat_z [sample_event]) @ tree_inputs (event_digests isoformat_z [sample_event]))))"
proof -
  have dt: "env_dt sample_env = isoformat_z" by (simp add: sample_env_def)
  obtain off where off: "verify_offline_bundle sample_env sample_bundle empty_trust_store unsigned_policy (Some (Aware 7 0)) = Inr off" "vo_valid off"
    using sample_offline [of 7] by auto
  have parse: "parse_bundle sample_env j = Inr sample_bundle" "parse_tree_head sample_env j = Inr (bu_tree_head sample_bundle)"
    "parse_consistency_proof sample_env j \<noteq> Inr p" for j p
    by (simp_all add: parse_bundle_def parse_tree_head_def parse_consistency_proof_def parse_model_def sample_env_def)
  obtain r where r: "verify_latest_head sample_env e sample_bundle off empty_trust_store unsigned_policy 7 = Inr r" "vo_valid r"
    "vo_checkpoint_root_hash r = sample_leaf" "vo_checkpoint_tree_size r = 1" "vo_latest_root_hash r = Some sample_leaf" "vo_latest_tree_size r = Some 1" for e
    using off(2) offline_fixed_fields [OF off(1)]
    by (auto simp: verify_latest_head_def parse verify_tree_head_trust_def continuity_check_def outcome_def latest_head_checks_def
        sample_bundle_def sample_tree_head_def unsigned_policy_def has_any_signature_field_def Let_def)
      (simp add: sample_env_def)
  have "verify_online_event sample_env ''u'' ''e-1'' empty_trust_store unsigned_policy [] False 5 2048 (Some (Aware 7 0)) = Inr r"
    using off r(1)
    by (simp add: verify_online_event_def validated_base_url_def normalize_verification_time_def parse)
      (simp add: sample_env_def sample_bundle_def sample_event_def)
  from online_valid_means_append_only [OF this r(2), of "[sample_event]" sample_leaf "[sample_event]"] this r show ?thesis
    unfolding dt using parse sample_bundle_ok sample_root sample_event_json_ok
    by (auto simp: sample_bundle_def)
qed

text \<open>
  A bundle whose tree head has size zero is not reported as invalid evidence: building the
  outcome, whose checkpoint size must be at least one, raises a validation error instead, although
  tree heads of size zero pass the bundle's own constraints.
\<close>

theorem offline_zero_size_raises:
  assumes "th_tree_size (bu_tree_head b) = 0"
  shows "\<exists>e. verify_offline_bundle env b ts policy vat = Inl e"
proof (cases "verify_offline_bundle env b ts policy vat")
  case (Inr r)
  then have "1 \<le> th_tree_size (bu_tree_head b)"
    using offline_split [OF Inr] by (metis outcome_def Inl_Inr_False linorder_not_less)
  with assms show ?thesis by simp
qed blast

theorem offline_zero_size_raises_witness:
  "bundle_ok (sample_bundle \<lparr> bu_tree_head := sample_tree_head \<lparr> th_tree_size := 0 \<rparr> \<rparr>) \<and>
   (\<exists>e. verify_offline_bundle sample_env (sample_bundle \<lparr> bu_tree_head := sample_tree_head \<lparr> th_tree_size := 0 \<rparr> \<rparr>)
     empty_trust_store unsigned_policy None = Inl e)"
  using offline_zero_size_raises [of "sample_bundle \<lparr> bu_tree_head := sample_tree_head \<lparr> th_tree_size := 0 \<rparr> \<rparr>"] sample_bundle_ok
  by (simp add: bundle_ok_def signed_tree_head_ok_def sample_tree_head_def hash_field_hex64)

end
