(* ===== verification/Ets_Vault.thy ===== *)
theory Ets_Vault
  imports Ets_Events Ets_Linked
begin

text \<open>
  The vault (\<^verbatim>\<open>ets/vault/models.py\<close>, \<^verbatim>\<open>ets/vault/store.py\<close>, \<^verbatim>\<open>ets/vault/service.py\<close>): preservation under
  retention, legal holds, purge, and the hash-chained administration journal, over the in-memory
  backend and catalog.

  The service changes the backend, then the catalog, then the journal, and any of these may raise
  after an earlier one has taken effect. Operations are therefore actions: they return the state
  reached together with the result or exception. Each operation reads the clock at most once; the
  reading and the nonce are arguments.
\<close>

section \<open>Models\<close>

record vault_retention =
  vt_mode :: string
  vt_retain_until_utc :: utc
  vt_legal_holds :: "string list"

record vault_record =
  vr_object_id :: string
  vr_content_hash :: string
  vr_byte_size :: int
  vr_media_type :: string
  vr_tenant_id :: string
  vr_workspace_id :: string
  vr_source_event_id :: "string option"
  vr_received_at_utc :: utc
  vr_retention :: vault_retention
  vr_generation :: int
  vr_purged_at_utc :: "utc option"

record vault_authorization =
  va_primary_actor_id :: string
  va_secondary_actor_id :: string
  va_reason :: string

record vault_journal_entry =
  vj_schema_version :: string
  vj_sequence :: int
  vj_operation :: string
  vj_object_id :: string
  vj_record_generation :: int
  vj_actor_id :: string
  vj_secondary_actor_id :: "string option"
  vj_reason :: string
  vj_occurred_at_utc :: utc
  vj_previous_entry_hash :: string
  vj_entry_hash :: string

record vault_receipt =
  vx_record :: vault_record
  vx_journal_head_hash :: string

record vault_integrity_result =
  vi_valid :: bool
  vi_object_id :: string
  vi_reason :: string
  vi_expected_hash :: string
  vi_actual_hash :: "string option"
  vi_expected_byte_size :: int
  vi_actual_byte_size :: "int option"

record vault_journal_verification =
  vy_valid :: bool
  vy_reason :: string
  vy_entry_count :: int
  vy_head_hash :: string

record vault_policy =
  vpo_require_production_backend :: bool
  vpo_max_object_bytes :: int
  vpo_require_dual_control_for_hold_release :: bool
  vpo_require_dual_control_for_purge :: bool

record vault_backend_capabilities =
  vb_write_once :: bool
  vb_retention_enforced :: bool
  vb_compliance_lock :: bool
  vb_legal_hold :: bool
  vb_encryption_at_rest :: bool
  vb_durable_write :: bool
  vb_audit_logging :: bool
  vb_replication :: bool
  vb_hardware_backed_keys :: bool
  vb_enforcement_boundary :: string

definition production_ready :: "vault_backend_capabilities \<Rightarrow> bool" where
  "production_ready c \<longleftrightarrow> vb_write_once c \<and> vb_retention_enforced c \<and> vb_compliance_lock c \<and> vb_legal_hold c \<and>
     vb_encryption_at_rest c \<and> vb_durable_write c \<and> vb_audit_logging c \<and> vb_replication c \<and>
     vb_hardware_backed_keys c \<and> vb_enforcement_boundary c = ''storage''"

definition normalize_legal_holds :: "string list \<Rightarrow> string list result" where
  "normalize_legal_holds value =
     (let normalized = sort (map strip value) in
      if list_ex (\<lambda>item. item = []) normalized \<or> \<not> distinct normalized then Inl (ValidationError ''VaultRetention'')
      else Inr normalized)"

definition VaultRetention :: "string \<Rightarrow> utc \<Rightarrow> string list \<Rightarrow> vault_retention result" where
  "VaultRetention mode retain_until legal_holds =
     rbind (rcheck (mode = ''governance'' \<or> mode = ''compliance'') (ValidationError ''VaultRetention'')) (\<lambda>_.
     rbind (normalize_legal_holds legal_holds) (\<lambda>holds.
     Inr \<lparr> vt_mode = mode, vt_retain_until_utc = retain_until, vt_legal_holds = holds \<rparr>))"

definition vault_record_ok :: "vault_record \<Rightarrow> bool" where
  "vault_record_ok r \<longleftrightarrow>
     length (vr_object_id r) = 70 \<and> take 6 (vr_object_id r) = ''vault:'' \<and> fromhex_opt (drop 6 (vr_object_id r)) \<noteq> None \<and>
     length (vr_content_hash r) = 64 \<and> fromhex_opt (vr_content_hash r) \<noteq> None \<and> 0 \<le> vr_byte_size r \<and>
     field_length 1 255 (vr_media_type r) \<and> field_length 1 128 (vr_tenant_id r) \<and> field_length 1 128 (vr_workspace_id r) \<and>
     (case vr_source_event_id r of None \<Rightarrow> True | Some s \<Rightarrow> length s \<le> 128) \<and> 1 \<le> vr_generation r \<and>
     (case vr_purged_at_utc r of None \<Rightarrow> True | Some p \<Rightarrow> vr_received_at_utc r \<le> p)"

definition VaultRecord :: "vault_record \<Rightarrow> vault_record result" where
  "VaultRecord r = (if vault_record_ok r then Inr r else Inl (ValidationError ''VaultRecord''))"

definition vault_authorization_ok :: "vault_authorization \<Rightarrow> bool" where
  "vault_authorization_ok a \<longleftrightarrow> field_length 1 128 (va_primary_actor_id a) \<and> field_length 1 128 (va_secondary_actor_id a) \<and>
     field_length 1 1024 (va_reason a) \<and> va_primary_actor_id a \<noteq> va_secondary_actor_id a"

definition VaultAuthorization :: "vault_authorization \<Rightarrow> vault_authorization result" where
  "VaultAuthorization a = (if vault_authorization_ok a then Inr a else Inl (ValidationError ''VaultAuthorization''))"

definition vault_operations :: "string list" where
  "vault_operations = [''preserve'', ''retention_extended'', ''legal_hold_applied'', ''legal_hold_released'', ''purged'']"

definition vault_journal_entry_ok :: "vault_journal_entry \<Rightarrow> bool" where
  "vault_journal_entry_ok e \<longleftrightarrow> vj_schema_version e = ''ets.vault_journal.v1'' \<and> 1 \<le> vj_sequence e \<and>
     vj_operation e \<in> set vault_operations \<and> length (vj_object_id e) = 70 \<and> 1 \<le> vj_record_generation e \<and>
     field_length 1 128 (vj_actor_id e) \<and> (case vj_secondary_actor_id e of None \<Rightarrow> True | Some s \<Rightarrow> length s \<le> 128) \<and>
     field_length 1 1024 (vj_reason e) \<and> length (vj_previous_entry_hash e) = 64 \<and> length (vj_entry_hash e) = 64 \<and>
     fromhex_opt (vj_previous_entry_hash e) \<noteq> None \<and> fromhex_opt (vj_entry_hash e) \<noteq> None"

section \<open>Backend and catalog\<close>

record vault_state =
  st_objects :: "string \<rightharpoonup> byte list"
  st_retention :: "string \<rightharpoonup> vault_retention"
  st_records :: "string \<rightharpoonup> vault_record"
  st_journal :: "vault_journal_entry list"

definition vault_init :: vault_state where
  "vault_init = \<lparr> st_objects = Map.empty, st_retention = Map.empty, st_records = Map.empty, st_journal = [] \<rparr>"

definition put_once :: "string \<Rightarrow> byte list \<Rightarrow> vault_retention \<Rightarrow> (vault_state, unit) action" where
  "put_once object_id payload retention =
     abind (aread (\<lambda>s. rcheck (st_objects s object_id = None) (VaultObjectAlreadyExists object_id))) (\<lambda>_.
     awrite (\<lambda>s. s \<lparr> st_objects := (st_objects s)(object_id \<mapsto> payload), st_retention := (st_retention s)(object_id \<mapsto> retention) \<rparr>))"

definition backend_get :: "string \<Rightarrow> (vault_state, byte list) action" where
  "backend_get object_id = aread (\<lambda>s. rget (VaultObjectNotFound object_id) (st_objects s object_id))"

definition require_retention :: "string \<Rightarrow> (vault_state, vault_retention) action" where
  "require_retention object_id = aread (\<lambda>s. rget (VaultObjectNotFound object_id) (st_retention s object_id))"

definition set_retention :: "string \<Rightarrow> vault_retention \<Rightarrow> (vault_state, unit) action" where
  "set_retention object_id retention = awrite (\<lambda>s. s \<lparr> st_retention := (st_retention s)(object_id \<mapsto> retention) \<rparr>)"

definition backend_extend_retention :: "string \<Rightarrow> vault_retention \<Rightarrow> (vault_state, unit) action" where
  "backend_extend_retention object_id retention =
     abind (require_retention object_id) (\<lambda>current.
     abind (acheck (vt_retain_until_utc current \<le> vt_retain_until_utc retention) (VaultStorageError ''backend refuses retention shortening'')) (\<lambda>_.
     abind (acheck (\<not> (vt_mode current = ''compliance'' \<and> vt_mode retention \<noteq> ''compliance''))
       (VaultStorageError ''backend refuses compliance-mode downgrade'')) (\<lambda>_.
     abind (acheck (vt_legal_holds retention = vt_legal_holds current)
       (VaultStorageError ''retention extension cannot change legal holds'')) (\<lambda>_.
     set_retention object_id retention))))"

definition backend_apply_legal_hold :: "string \<Rightarrow> vault_retention \<Rightarrow> (vault_state, unit) action" where
  "backend_apply_legal_hold object_id retention =
     abind (require_retention object_id) (\<lambda>current.
     abind (acheck (set (vt_legal_holds current) \<subseteq> set (vt_legal_holds retention))
       (VaultStorageError ''backend refuses removal during hold application'')) (\<lambda>_.
     set_retention object_id retention))"

definition backend_release_legal_hold :: "string \<Rightarrow> vault_retention \<Rightarrow> (vault_state, unit) action" where
  "backend_release_legal_hold object_id retention =
     abind (require_retention object_id) (\<lambda>current.
     abind (acheck (set (vt_legal_holds retention) \<subseteq> set (vt_legal_holds current))
       (VaultStorageError ''backend refuses added hold during hold release'')) (\<lambda>_.
     set_retention object_id retention))"

definition backend_delete :: "string \<Rightarrow> (vault_state, unit) action" where
  "backend_delete object_id =
     abind (require_retention object_id) (\<lambda>_.
     abind (aread (\<lambda>s. rcheck (st_objects s object_id \<noteq> None) (KeyError object_id))) (\<lambda>_.
     awrite (\<lambda>s. s \<lparr> st_objects := (st_objects s)(object_id := None), st_retention := (st_retention s)(object_id := None) \<rparr>)))"

definition backend_exists :: "string \<Rightarrow> vault_state \<Rightarrow> bool" where
  "backend_exists object_id s \<longleftrightarrow> st_objects s object_id \<noteq> None"

definition create_record :: "vault_record \<Rightarrow> (vault_state, unit) action" where
  "create_record r =
     abind (aread (\<lambda>s. rcheck (st_records s (vr_object_id r) = None) (VaultCatalogError (''record already exists: '' @ vr_object_id r)))) (\<lambda>_.
     awrite (\<lambda>s. s \<lparr> st_records := (st_records s)(vr_object_id r \<mapsto> r) \<rparr>))"

definition get_record :: "string \<Rightarrow> (vault_state, vault_record) action" where
  "get_record object_id = aread (\<lambda>s. rget (VaultObjectNotFound object_id) (st_records s object_id))"

definition update_record :: "vault_record \<Rightarrow> (vault_state, unit) action" where
  "update_record r =
     abind (get_record (vr_object_id r)) (\<lambda>current.
     abind (acheck (vr_generation r = vr_generation current + 1)
       (VaultCatalogError ''record generation must advance by exactly one'')) (\<lambda>_.
     awrite (\<lambda>s. s \<lparr> st_records := (st_records s)(vr_object_id r \<mapsto> r) \<rparr>)))"

definition catalog_append_journal :: "vault_journal_entry \<Rightarrow> (vault_state, unit) action" where
  "catalog_append_journal entry =
     abind (aread (\<lambda>s. rcheck (vj_sequence entry = int (length (st_journal s)) + 1)
       (VaultCatalogError ''journal sequence must be contiguous''))) (\<lambda>_.
     awrite (\<lambda>s. s \<lparr> st_journal := st_journal s @ [entry] \<rparr>))"

section \<open>Service\<close>

definition zero_hash :: string where
  "zero_hash = replicate 64 (CHR ''0'')"

text \<open>The constructor's check of the backend, whose capabilities and name are its own.\<close>

definition VaultService_init :: "vault_policy \<Rightarrow> vault_backend_capabilities \<Rightarrow> string \<Rightarrow> unit result" where
  "VaultService_init policy capabilities provider_name =
     rcheck (\<not> (vpo_require_production_backend policy \<and> \<not> production_ready capabilities))
       (VaultProductionReadinessError (''Vault backend '' @ [CHR 0x27] @ provider_name @ [CHR 0x27] @ '' does not satisfy the production capability floor''))"

text \<open>What the in-memory development backend claims of itself.\<close>

definition in_memory_capabilities :: vault_backend_capabilities where
  "in_memory_capabilities = \<lparr> vb_write_once = True, vb_retention_enforced = True, vb_compliance_lock = True, vb_legal_hold = True,
     vb_encryption_at_rest = False, vb_durable_write = False, vb_audit_logging = False, vb_replication = False,
     vb_hardware_backed_keys = False, vb_enforcement_boundary = ''test'' \<rparr>"

definition vault_normalize_utc :: "datetime \<Rightarrow> string \<Rightarrow> utc result" where
  "vault_normalize_utc value field_name = utc_or_raise (VaultPolicyError (field_name @ '' must be timezone-aware'')) value"

definition require_expected_sha256 :: "string \<Rightarrow> unit result" where
  "require_expected_sha256 value =
     (if length value \<noteq> 64 then Inl (VaultPolicyError ''expected_sha256 must be a 64-character SHA-256 digest'')
      else if fromhex_opt value = None then Inl (VaultPolicyError ''expected_sha256 must be hexadecimal'')
      else Inr ())"

definition require_dual_control :: "vault_authorization \<Rightarrow> unit result" where
  "require_dual_control a =
     rcheck (va_primary_actor_id a \<noteq> va_secondary_actor_id a) (VaultPolicyError ''dual-control actions require two distinct actors'')"

definition new_object_id :: "string \<Rightarrow> string \<Rightarrow> string \<Rightarrow> string \<Rightarrow> string result" where
  "new_object_id nonce tenant_id workspace_id content_hash =
     (if nonce = [] then Inl (VaultPolicyError ''Vault nonce factory returned an empty value'')
      else Inr (''vault:'' @ canon_sha256 (JObj [(''tenant_id'', JStr tenant_id), (''workspace_id'', JStr workspace_id),
             (''content_hash'', JStr content_hash), (''nonce'', JStr nonce)])))"

definition journal_payload :: "vault_journal_entry \<Rightarrow> json" where
  "journal_payload e = JObj
     [(''schema_version'', JStr (vj_schema_version e)), (''sequence'', JInt (vj_sequence e)),
      (''operation'', JStr (vj_operation e)), (''object_id'', JStr (vj_object_id e)),
      (''record_generation'', JInt (vj_record_generation e)), (''actor_id'', JStr (vj_actor_id e)),
      (''secondary_actor_id'', JOpt (vj_secondary_actor_id e)), (''reason'', JStr (vj_reason e)),
      (''occurred_at_utc'', JStr (isoformat_z (vj_occurred_at_utc e))),
      (''previous_entry_hash'', JStr (vj_previous_entry_hash e))]"

definition journal_head_hash :: "vault_journal_entry list \<Rightarrow> string" where
  "journal_head_hash entries = (if entries = [] then zero_hash else vj_entry_hash (last entries))"

definition append_journal ::
  "string \<Rightarrow> vault_record \<Rightarrow> string \<Rightarrow> string \<Rightarrow> string option \<Rightarrow> utc \<Rightarrow> (vault_state, string) action" where
  "append_journal operation r actor_id reason secondary_actor_id occurred_at =
     abind (aread (\<lambda>s. Inr (st_journal s))) (\<lambda>entries.
     let draft = \<lparr> vj_schema_version = ''ets.vault_journal.v1'', vj_sequence = int (length entries) + 1,
           vj_operation = operation, vj_object_id = vr_object_id r, vj_record_generation = vr_generation r,
           vj_actor_id = actor_id, vj_secondary_actor_id = secondary_actor_id, vj_reason = reason,
           vj_occurred_at_utc = occurred_at, vj_previous_entry_hash = journal_head_hash entries, vj_entry_hash = [] \<rparr>;
         entry = draft \<lparr> vj_entry_hash := canon_sha256 (journal_payload draft) \<rparr>
     in abind (acheck (vault_journal_entry_ok entry) (ValidationError ''VaultJournalEntry'')) (\<lambda>_.
        abind (catalog_append_journal entry) (\<lambda>_. alift (Inr (vj_entry_hash entry)))))"

definition receipt :: "vault_record \<Rightarrow> string \<Rightarrow> vault_receipt" where
  "receipt r head = \<lparr> vx_record = r, vx_journal_head_hash = head \<rparr>"

definition active_record :: "string \<Rightarrow> (vault_state, vault_record) action" where
  "active_record object_id =
     abind (get_record object_id) (\<lambda>r.
     abind (acheck (vr_purged_at_utc r = None) (VaultPolicyError ''purged Vault records cannot be modified'')) (\<lambda>_. alift (Inr r)))"

definition next_record :: "vault_record \<Rightarrow> vault_retention option \<Rightarrow> utc option \<Rightarrow> vault_record result" where
  "next_record current retention purged_at =
     VaultRecord (current \<lparr> vr_retention := (case retention of None \<Rightarrow> vr_retention current | Some x \<Rightarrow> x),
       vr_generation := vr_generation current + 1, vr_purged_at_utc := purged_at \<rparr>)"

definition preserve ::
  "vault_policy \<Rightarrow> datetime \<Rightarrow> string \<Rightarrow> byte list \<Rightarrow> string \<Rightarrow> string \<Rightarrow> string \<Rightarrow> datetime \<Rightarrow> string \<Rightarrow> string \<Rightarrow>
   string option \<Rightarrow> string list \<Rightarrow> string option \<Rightarrow> (vault_state, vault_receipt) action" where
  "preserve policy clock nonce payload tenant_id workspace_id media_type retain_until_utc actor_id retention_mode
     source_event_id legal_holds expected_sha256 =
     abind (alift (vault_normalize_utc clock ''Vault clock'')) (\<lambda>now.
     abind (alift (vault_normalize_utc retain_until_utc ''retain_until_utc'')) (\<lambda>retain_until.
     abind (acheck (now < retain_until) (VaultPolicyError ''retain_until_utc must be in the future'')) (\<lambda>_.
     abind (acheck (int (length payload) \<le> vpo_max_object_bytes policy)
       (VaultPolicyError ''payload exceeds configured Vault object limit'')) (\<lambda>_.
     let content_hash = sha256_hex payload in
     abind (alift (case expected_sha256 of None \<Rightarrow> Inr ()
        | Some expected \<Rightarrow> rbind (require_expected_sha256 expected) (\<lambda>_.
            rcheck (content_hash = expected) (VaultPolicyError ''payload hash does not match expected_sha256'')))) (\<lambda>_.
     abind (alift (new_object_id nonce tenant_id workspace_id content_hash)) (\<lambda>object_id.
     abind (alift (VaultRetention retention_mode retain_until legal_holds)) (\<lambda>retention.
     abind (alift (VaultRecord \<lparr> vr_object_id = object_id, vr_content_hash = content_hash, vr_byte_size = int (length payload),
        vr_media_type = media_type, vr_tenant_id = tenant_id, vr_workspace_id = workspace_id,
        vr_source_event_id = source_event_id, vr_received_at_utc = now, vr_retention = retention,
        vr_generation = 1, vr_purged_at_utc = None \<rparr>)) (\<lambda>r.
     abind (put_once object_id payload retention) (\<lambda>_.
     abind (create_record r) (\<lambda>_.
     abind (append_journal ''preserve'' r actor_id ''object preserved under Vault retention policy'' None now) (\<lambda>head.
     alift (Inr (receipt r head)))))))))))))"

definition get_receipt :: "string \<Rightarrow> (vault_state, vault_receipt) action" where
  "get_receipt object_id =
     abind (get_record object_id) (\<lambda>r. aread (\<lambda>s. Inr (receipt r (journal_head_hash (st_journal s)))))"

definition vault_read :: "string \<Rightarrow> (vault_state, byte list) action" where
  "vault_read object_id =
     abind (get_record object_id) (\<lambda>r.
     abind (acheck (vr_purged_at_utc r = None) (VaultObjectNotFound object_id)) (\<lambda>_. backend_get object_id))"

definition verify_integrity :: "string \<Rightarrow> (vault_state, vault_integrity_result) action" where
  "verify_integrity object_id =
     abind (get_record object_id) (\<lambda>r.
     let missing = (\<lambda>reason. \<lparr> vi_valid = False, vi_object_id = object_id, vi_reason = reason,
           vi_expected_hash = vr_content_hash r, vi_actual_hash = None, vi_expected_byte_size = vr_byte_size r,
           vi_actual_byte_size = None \<rparr>) in
     if vr_purged_at_utc r \<noteq> None then alift (Inr (missing ''object has been purged after retention expiry''))
     else aread (\<lambda>s. case st_objects s object_id of
         None \<Rightarrow> Inr (missing ''catalog record exists but preserved bytes are missing'')
       | Some payload \<Rightarrow>
           let actual_hash = sha256_hex payload;
               valid = (actual_hash = vr_content_hash r \<and> int (length payload) = vr_byte_size r)
           in Inr \<lparr> vi_valid = valid, vi_object_id = object_id,
                vi_reason = (if valid then ''content hash and size match Vault record''
                             else ''preserved content does not match Vault record''),
                vi_expected_hash = vr_content_hash r, vi_actual_hash = Some actual_hash,
                vi_expected_byte_size = vr_byte_size r, vi_actual_byte_size = Some (int (length payload)) \<rparr>))"

definition extend_retention ::
  "datetime \<Rightarrow> string \<Rightarrow> datetime \<Rightarrow> string \<Rightarrow> string option \<Rightarrow> string \<Rightarrow> (vault_state, vault_receipt) action" where
  "extend_retention clock object_id retain_until_utc actor_id retention_mode reason =
     abind (active_record object_id) (\<lambda>current.
     abind (alift (vault_normalize_utc retain_until_utc ''retain_until_utc'')) (\<lambda>retain_until.
     let target_mode = (case retention_mode of None \<Rightarrow> vt_mode (vr_retention current)
           | Some m \<Rightarrow> if m = [] then vt_mode (vr_retention current) else m) in
     abind (acheck (vt_retain_until_utc (vr_retention current) \<le> retain_until)
       (VaultPolicyError ''Vault retention may never be shortened'')) (\<lambda>_.
     abind (acheck (\<not> (vt_mode (vr_retention current) = ''compliance'' \<and> target_mode \<noteq> ''compliance''))
       (VaultPolicyError ''compliance retention may never be downgraded'')) (\<lambda>_.
     abind (acheck (\<not> (retain_until = vt_retain_until_utc (vr_retention current) \<and> target_mode = vt_mode (vr_retention current)))
       (VaultPolicyError ''retention update must extend time or strengthen mode'')) (\<lambda>_.
     abind (alift (VaultRetention target_mode retain_until (vt_legal_holds (vr_retention current)))) (\<lambda>retention.
     abind (alift (next_record current (Some retention) None)) (\<lambda>updated.
     abind (backend_extend_retention object_id retention) (\<lambda>_.
     abind (update_record updated) (\<lambda>_.
     abind (alift (vault_normalize_utc clock ''Vault clock'')) (\<lambda>now.
     abind (append_journal ''retention_extended'' updated actor_id reason None now) (\<lambda>head.
     alift (Inr (receipt updated head)))))))))))))"

definition apply_legal_hold :: "datetime \<Rightarrow> string \<Rightarrow> string \<Rightarrow> string \<Rightarrow> string \<Rightarrow> (vault_state, vault_receipt) action" where
  "apply_legal_hold clock object_id hold_id actor_id reason =
     abind (active_record object_id) (\<lambda>current.
     let normalized_hold = strip hold_id in
     abind (acheck (normalized_hold \<noteq> []) (VaultPolicyError ''hold_id must not be blank'')) (\<lambda>_.
     if normalized_hold \<in> set (vt_legal_holds (vr_retention current)) then get_receipt object_id
     else
       abind (alift (VaultRetention (vt_mode (vr_retention current)) (vt_retain_until_utc (vr_retention current))
         (vt_legal_holds (vr_retention current) @ [normalized_hold]))) (\<lambda>retention.
       abind (alift (next_record current (Some retention) None)) (\<lambda>updated.
       abind (backend_apply_legal_hold object_id retention) (\<lambda>_.
       abind (update_record updated) (\<lambda>_.
       abind (alift (vault_normalize_utc clock ''Vault clock'')) (\<lambda>now.
       abind (append_journal ''legal_hold_applied'' updated actor_id reason None now) (\<lambda>head.
       alift (Inr (receipt updated head))))))))))"

definition release_legal_hold ::
  "vault_policy \<Rightarrow> datetime \<Rightarrow> string \<Rightarrow> string \<Rightarrow> vault_authorization \<Rightarrow> (vault_state, vault_receipt) action" where
  "release_legal_hold policy clock object_id hold_id authorization =
     abind (active_record object_id) (\<lambda>current.
     let normalized_hold = strip hold_id in
     abind (acheck (normalized_hold \<in> set (vt_legal_holds (vr_retention current)))
       (VaultPolicyError ''requested legal hold is not active'')) (\<lambda>_.
     abind (alift (if vpo_require_dual_control_for_hold_release policy then require_dual_control authorization else Inr ())) (\<lambda>_.
     abind (alift (VaultRetention (vt_mode (vr_retention current)) (vt_retain_until_utc (vr_retention current))
         (filter (\<lambda>hold. hold \<noteq> normalized_hold) (vt_legal_holds (vr_retention current))))) (\<lambda>retention.
     abind (alift (next_record current (Some retention) None)) (\<lambda>updated.
     abind (backend_release_legal_hold object_id retention) (\<lambda>_.
     abind (update_record updated) (\<lambda>_.
     abind (alift (vault_normalize_utc clock ''Vault clock'')) (\<lambda>now.
     abind (append_journal ''legal_hold_released'' updated (va_primary_actor_id authorization) (va_reason authorization)
       (Some (va_secondary_actor_id authorization)) now) (\<lambda>head.
     alift (Inr (receipt updated head)))))))))))"

definition purge :: "vault_policy \<Rightarrow> datetime \<Rightarrow> string \<Rightarrow> vault_authorization \<Rightarrow> (vault_state, vault_receipt) action" where
  "purge policy clock object_id authorization =
     abind (active_record object_id) (\<lambda>current.
     abind (alift (vault_normalize_utc clock ''Vault clock'')) (\<lambda>now.
     abind (acheck (vt_retain_until_utc (vr_retention current) \<le> now)
       (VaultPolicyError ''object is still inside its retention period'')) (\<lambda>_.
     abind (acheck (vt_legal_holds (vr_retention current) = [])
       (VaultPolicyError ''object cannot be purged while a legal hold is active'')) (\<lambda>_.
     abind (alift (if vpo_require_dual_control_for_purge policy then require_dual_control authorization else Inr ())) (\<lambda>_.
     abind (backend_delete object_id) (\<lambda>_.
     abind (alift (next_record current None (Some now))) (\<lambda>updated.
     abind (update_record updated) (\<lambda>_.
     abind (append_journal ''purged'' updated (va_primary_actor_id authorization) (va_reason authorization)
       (Some (va_secondary_actor_id authorization)) now) (\<lambda>head.
     alift (Inr (receipt updated head)))))))))))"

fun verify_journal_entries :: "int \<Rightarrow> int \<Rightarrow> string \<Rightarrow> vault_journal_entry list \<Rightarrow> vault_journal_verification" where
  "verify_journal_entries entry_count expected_sequence previous [] =
     \<lparr> vy_valid = True, vy_reason = ''Vault administration journal hash chain is valid'', vy_entry_count = entry_count, vy_head_hash = previous \<rparr>"
| "verify_journal_entries entry_count expected_sequence previous (entry # entries) =
     (let failure = (\<lambda>what. \<lparr> vy_valid = False, vy_reason = ''journal '' @ what @ '' mismatch at entry '' @ show_int expected_sequence,
            vy_entry_count = entry_count, vy_head_hash = previous \<rparr>) in
      if vj_sequence entry \<noteq> expected_sequence then failure ''sequence''
      else if vj_previous_entry_hash entry \<noteq> previous then failure ''previous hash''
      else if vj_entry_hash entry \<noteq> canon_sha256 (journal_payload entry) then failure ''entry hash''
      else verify_journal_entries entry_count (expected_sequence + 1) (vj_entry_hash entry) entries)"

definition verify_journal :: "vault_state \<Rightarrow> vault_journal_verification" where
  "verify_journal s = verify_journal_entries (int (length (st_journal s))) 1 zero_hash (st_journal s)"

section \<open>Effects of the operations\<close>

text \<open>The journal grows by at most one entry, linked to the one before it.\<close>

definition entry_follows :: "vault_journal_entry list \<Rightarrow> vault_journal_entry \<Rightarrow> bool" where
  "entry_follows entries e \<longleftrightarrow> vj_sequence e = int (length entries) + 1 \<and>
     vj_previous_entry_hash e = journal_head_hash entries \<and> vj_entry_hash e = canon_sha256 (journal_payload e)"

definition journal_ext :: "vault_journal_entry list \<Rightarrow> vault_journal_entry list \<Rightarrow> bool" where
  "journal_ext old new \<longleftrightarrow> new = old \<or> (\<exists>e. new = old @ [e] \<and> entry_follows old e)"

lemma journal_ext_refl [simp]: "journal_ext j j"
  by (simp add: journal_ext_def)

lemma append_journal_effect:
  obtains j where "snd (append_journal operation r actor reason sec t s) = s \<lparr> st_journal := j \<rparr>" "journal_ext (st_journal s) j"
    "\<And>h. fst (append_journal operation r actor reason sec t s) = Inr h \<Longrightarrow> j \<noteq> st_journal s \<and> h = journal_head_hash j"
proof -
  let ?draft = "\<lparr> vj_schema_version = ''ets.vault_journal.v1'', vj_sequence = int (length (st_journal s)) + 1,
    vj_operation = operation, vj_object_id = vr_object_id r, vj_record_generation = vr_generation r,
    vj_actor_id = actor, vj_secondary_actor_id = sec, vj_reason = reason, vj_occurred_at_utc = t,
    vj_previous_entry_hash = journal_head_hash (st_journal s), vj_entry_hash = [] \<rparr>"
  let ?e = "?draft \<lparr> vj_entry_hash := canon_sha256 (journal_payload ?draft) \<rparr>"
  have pay: "journal_payload ?e = journal_payload ?draft" by (simp add: journal_payload_def)
  show thesis
  proof (cases "vault_journal_entry_ok ?e")
    case True
    have "append_journal operation r actor reason sec t s = (Inr (vj_entry_hash ?e), s \<lparr> st_journal := st_journal s @ [?e] \<rparr>)"
      using True unfolding append_journal_def Let_def by (simp add: action_simps catalog_append_journal_def abind_def)
    moreover have "entry_follows (st_journal s) ?e" unfolding entry_follows_def pay by simp
    ultimately show thesis
      using that [of "st_journal s @ [?e]"] by (simp add: journal_ext_def journal_head_hash_def)
  next
    case False
    then have "append_journal operation r actor reason sec t s = (Inl (ValidationError ''VaultJournalEntry''), s)"
      unfolding append_journal_def Let_def by (simp add: action_simps)
    then show thesis using that [of "st_journal s"] by simp
  qed
qed

text \<open>A new record for given bytes.\<close>

definition preserved_record :: "string \<Rightarrow> byte list \<Rightarrow> vault_record \<Rightarrow> bool" where
  "preserved_record i p r \<longleftrightarrow> vr_object_id r = i \<and> vault_record_ok r \<and> vr_content_hash r = sha256_hex p \<and>
     vr_byte_size r = int (length p) \<and> vr_purged_at_utc r = None \<and> vr_received_at_utc r < vt_retain_until_utc (vr_retention r)"

text \<open>A later generation of a record under a retention at least as strong.\<close>

definition retained_record :: "vault_record \<Rightarrow> vault_record \<Rightarrow> bool" where
  "retained_record r r' \<longleftrightarrow> vault_record_ok r' \<and>
     r' = r \<lparr> vr_retention := vr_retention r', vr_generation := vr_generation r + 1, vr_purged_at_utc := None \<rparr> \<and>
     vt_retain_until_utc (vr_retention r) \<le> vt_retain_until_utc (vr_retention r') \<and>
     \<not> (vt_mode (vr_retention r) = ''compliance'' \<and> vt_mode (vr_retention r') \<noteq> ''compliance'')"

text \<open>What an operation other than a purge may do to the state, whether or not it raises in the end.\<close>

inductive vault_effect :: "vault_state \<Rightarrow> vault_state \<Rightarrow> bool" where
  unchanged: "vault_effect s s"
| orphaned: "\<lbrakk>st_objects s i = None; st_records s i = Some r\<rbrakk> \<Longrightarrow>
    vault_effect s (s \<lparr> st_objects := (st_objects s)(i \<mapsto> p), st_retention := (st_retention s)(i \<mapsto> rt) \<rparr>)"
| preserved: "\<lbrakk>st_objects s i = None; st_records s i = None; preserved_record i p r; journal_ext (st_journal s) j\<rbrakk> \<Longrightarrow>
    vault_effect s (s \<lparr> st_objects := (st_objects s)(i \<mapsto> p), st_retention := (st_retention s)(i \<mapsto> vr_retention r),
      st_records := (st_records s)(i \<mapsto> r), st_journal := j \<rparr>)"
| retained: "\<lbrakk>st_records s i = Some r; vr_purged_at_utc r = None; retained_record r r'; journal_ext (st_journal s) j\<rbrakk> \<Longrightarrow>
    vault_effect s (s \<lparr> st_retention := (st_retention s)(i \<mapsto> vr_retention r'), st_records := (st_records s)(i \<mapsto> r'), st_journal := j \<rparr>)"

inductive purge_effect :: "vault_policy \<Rightarrow> datetime \<Rightarrow> string \<Rightarrow> vault_authorization \<Rightarrow> vault_state \<Rightarrow> vault_state \<Rightarrow> bool" where
  not_purged: "purge_effect policy clock i a s s"
| purged: "\<lbrakk>st_records s i = Some r; vr_purged_at_utc r = None; vault_normalize_utc clock ''Vault clock'' = Inr now;
    vt_retain_until_utc (vr_retention r) \<le> now;
    vt_legal_holds (vr_retention r) = [];
    vpo_require_dual_control_for_purge policy \<longrightarrow> va_primary_actor_id a \<noteq> va_secondary_actor_id a;
    r' = r \<lparr> vr_generation := vr_generation r + 1, vr_purged_at_utc := Some now \<rparr>; vault_record_ok r'; journal_ext (st_journal s) j\<rbrakk> \<Longrightarrow>
    purge_effect policy clock i a s (s \<lparr> st_objects := (st_objects s)(i := None), st_retention := (st_retention s)(i := None),
      st_records := (st_records s)(i \<mapsto> r'), st_journal := j \<rparr>)"

text \<open>The state an operation leaves behind is that of its last step.\<close>

lemma snd_append_then:
  "snd (abind (append_journal operation r actor reason sec t) (\<lambda>h. alift (Inr (f h))) s) = snd (append_journal operation r actor reason sec t s)"
  by (simp add: abind_def alift_def split: prod.splits sum.splits)

lemma VaultRecord_eq_Inr: "VaultRecord r = Inr r' \<longleftrightarrow> vault_record_ok r \<and> r' = r"
  by (auto simp: VaultRecord_def)

lemma VaultRetention_fields:
  "VaultRetention m t hs = Inr rt \<Longrightarrow> vt_mode rt = m \<and> vt_retain_until_utc rt = t"
  by (auto simp: VaultRetention_def)

lemma vault_normalize_utc_Inr: "vault_normalize_utc d f = Inr t \<longleftrightarrow> (\<exists>x off. d = Aware x off \<and> t = x - off)"
  by (simp add: vault_normalize_utc_def utc_or_raise_eq_Inr)

lemma update_record_eq:
  assumes "st_records s (vr_object_id r) = Some cur" "vr_generation r = vr_generation cur + 1"
  shows "update_record r s = (Inr (), s \<lparr> st_records := (st_records s)(vr_object_id r \<mapsto> r) \<rparr>)"
  using assms by (simp add: update_record_def get_record_def action_simps)

definition journal_now :: "string \<Rightarrow> vault_record \<Rightarrow> string \<Rightarrow> string \<Rightarrow> string option \<Rightarrow> utc result \<Rightarrow> (vault_state, vault_receipt) action" where
  "journal_now operation r actor reason sec time =
     abind (alift time) (\<lambda>now. abind (append_journal operation r actor reason sec now) (\<lambda>head. alift (Inr (receipt r head))))"

lemma journal_now_effect:
  "\<exists>j. snd (journal_now operation r actor reason sec time s) = s \<lparr> st_journal := j \<rparr> \<and> journal_ext (st_journal s) j"
proof (cases time)
  case (Inl e)
  then show ?thesis by (auto simp: journal_now_def action_simps intro!: exI [of _ "st_journal s"])
next
  case (Inr t)
  obtain j where "snd (append_journal operation r actor reason sec t s) = s \<lparr> st_journal := j \<rparr>" "journal_ext (st_journal s) j"
    using append_journal_effect by blast
  with Inr show ?thesis
    by (auto simp: journal_now_def abind_alift snd_append_then)
qed

text \<open>The backend either stores the new retention or raises and leaves everything as it was.\<close>

definition retention_op :: "(vault_state, unit) action \<Rightarrow> string \<Rightarrow> vault_retention \<Rightarrow> bool" where
  "retention_op b i rt \<longleftrightarrow> (\<forall>s. (\<exists>e. b s = (Inl e, s)) \<or> b s = (Inr (), s \<lparr> st_retention := (st_retention s)(i \<mapsto> rt) \<rparr>))"

lemma retention_ops:
  "retention_op (backend_extend_retention i rt) i rt" "retention_op (backend_apply_legal_hold i rt) i rt"
  "retention_op (backend_release_legal_hold i rt) i rt"
  by (auto simp: retention_op_def backend_extend_retention_def backend_apply_legal_hold_def backend_release_legal_hold_def
      require_retention_def set_retention_def action_simps rget_def split: option.splits)

lemma commit_effect:
  assumes "retention_op b i (vr_retention r')" "st_records s i = Some r" "vr_object_id r = i" "vr_purged_at_utc r = None" "retained_record r r'"
  shows "vault_effect s (snd (abind b (\<lambda>_. abind (update_record r') (\<lambda>_. journal_now operation r' actor reason sec time)) s))"
proof (cases "b s = (Inr (), s \<lparr> st_retention := (st_retention s)(i \<mapsto> vr_retention r') \<rparr>)")
  case True
  let ?s = "s \<lparr> st_retention := (st_retention s)(i \<mapsto> vr_retention r') \<rparr>"
  have r': "vr_object_id r' = i" "vr_generation r' = vr_generation r + 1"
    using assms(3,5) by (auto simp: retained_record_def dest: arg_cong [of _ _ vr_object_id] arg_cong [of _ _ vr_generation])
  have upd: "update_record r' ?s = (Inr (), ?s \<lparr> st_records := (st_records s)(i \<mapsto> r') \<rparr>)"
    using update_record_eq [of ?s r' r] assms(2) r' by simp
  obtain j where "snd (journal_now operation r' actor reason sec time (?s \<lparr> st_records := (st_records s)(i \<mapsto> r') \<rparr>)) =
      ?s \<lparr> st_records := (st_records s)(i \<mapsto> r'), st_journal := j \<rparr>" "journal_ext (st_journal s) j"
    using journal_now_effect [of operation r' actor reason sec time "?s \<lparr> st_records := (st_records s)(i \<mapsto> r') \<rparr>"] by auto
  with vault_effect.retained [OF assms(2,4,5), of j] show ?thesis
    by (simp add: True upd)
next
  case False
  then obtain e where "b s = (Inl e, s)" using assms(1) by (auto simp: retention_op_def)
  then show ?thesis by (simp add: vault_effect.unchanged)
qed

definition vault_inv :: "vault_state \<Rightarrow> bool" where
  "vault_inv s \<longleftrightarrow>
     (\<forall>i r. st_records s i = Some r \<longrightarrow> vr_object_id r = i \<and> vault_record_ok r \<and>
        vr_received_at_utc r < vt_retain_until_utc (vr_retention r) \<and>
        (vr_purged_at_utc r = None \<longrightarrow> st_retention s i = Some (vr_retention r) \<and>
          (\<exists>p. st_objects s i = Some p \<and> sha256_hex p = vr_content_hash r \<and> int (length p) = vr_byte_size r))) \<and>
     (\<forall>i. st_records s i = None \<longrightarrow> st_objects s i = None) \<and>
     linked (\<lambda>_. True) vj_sequence vj_previous_entry_hash vj_entry_hash journal_payload 1 zero_hash (st_journal s)"

lemma next_record_retained:
  assumes "next_record r (Some rt) None = Inr r'" "vt_retain_until_utc (vr_retention r) \<le> vt_retain_until_utc rt"
    "\<not> (vt_mode (vr_retention r) = ''compliance'' \<and> vt_mode rt \<noteq> ''compliance'')"
  shows "retained_record r r' \<and> vr_retention r' = rt"
  using assms by (auto simp: next_record_def VaultRecord_eq_Inr retained_record_def)

lemma vault_invD: "vault_inv s \<Longrightarrow> st_records s i = Some r \<Longrightarrow> vr_object_id r = i"
  by (simp add: vault_inv_def)

lemma snd_bind_active:
  "R s \<Longrightarrow> (\<And>r. st_records s i = Some r \<Longrightarrow> vr_purged_at_utc r = None \<Longrightarrow> R (snd (f r s))) \<Longrightarrow> R (snd (abind (active_record i) f s))"
  by (cases "st_records s i") (simp_all add: active_record_def get_record_def abind_def action_simps rcheck_def)

lemmas read_steps = snd_bind_alift snd_bind_acheck snd_bind_active
lemmas vault_reads = read_steps [where R = "vault_effect s" and s = s for s, OF vault_effect.unchanged]

text \<open>The common tail of the three operations that replace the retention of an active record.\<close>

lemma replace_retention_effect:
  assumes "vault_inv s" "st_records s i = Some r" "vr_purged_at_utc r = None" "VaultRetention m t hs = Inr rt"
    "next_record r (Some rt) None = Inr r'" "vt_retain_until_utc (vr_retention r) \<le> t"
    "\<not> (vt_mode (vr_retention r) = ''compliance'' \<and> m \<noteq> ''compliance'')" "retention_op b i rt"
  shows "vault_effect s (snd (abind b (\<lambda>_. abind (update_record r') (\<lambda>_. journal_now operation r' actor reason sec time)) s))"
proof -
  have "vt_mode rt = m" "vt_retain_until_utc rt = t" using VaultRetention_fields [OF assms(4)] by auto
  then have ret: "retained_record r r'" "vr_retention r' = rt"
    using next_record_retained [OF assms(5)] assms(6,7) by auto
  show ?thesis
    by (rule commit_effect [where i = i and r = r]) (use assms ret vault_invD [OF assms(1,2)] in auto)
qed

lemma extend_retention_effect:
  assumes "vault_inv s"
  shows "vault_effect s (snd (extend_retention clock i until actor mode reason s))"
  unfolding extend_retention_def Let_def journal_now_def [symmetric]
  by (intro vault_reads) (rule replace_retention_effect [OF assms], (assumption | rule retention_ops)+)

lemma release_legal_hold_effect:
  assumes "vault_inv s"
  shows "vault_effect s (snd (release_legal_hold policy clock i hold auth s))"
  unfolding release_legal_hold_def Let_def journal_now_def [symmetric]
  by (intro vault_reads) (rule replace_retention_effect [OF assms], (assumption | rule retention_ops order.refl | simp)+)

lemma snd_get_receipt [simp]: "snd (get_receipt i s) = s"
  by (cases "st_records s i") (simp_all add: get_receipt_def get_record_def action_simps)

lemma apply_legal_hold_effect:
  assumes "vault_inv s"
  shows "vault_effect s (snd (apply_legal_hold clock i hold actor reason s))"
  unfolding apply_legal_hold_def Let_def journal_now_def [symmetric]
  apply (intro vault_reads)
  subgoal for r
    apply (cases "strip hold \<in> set (vt_legal_holds (vr_retention r))")
     apply (simp add: vault_effect.unchanged)
    apply (simp only: if_False)
    by (intro vault_reads) (rule replace_retention_effect [OF assms], (assumption | rule retention_ops order.refl | simp)+)
  done

lemma append_journal_journal:
  "\<exists>j. snd (append_journal operation r actor reason sec t s) = s \<lparr> st_journal := j \<rparr> \<and> journal_ext (st_journal s) j"
  using append_journal_effect [of operation r actor reason sec t s] by blast

lemma preserve_effect:
  "vault_effect s (snd (preserve policy clock nonce payload tenant workspace media until actor mode source holds expected s))"
  unfolding preserve_def Let_def
proof (intro vault_reads)
  fix now t i rt r
  assume t: "vault_normalize_utc clock ''Vault clock'' = Inr now" "now < t" and rt: "VaultRetention mode t holds = Inr rt"
    and r: "VaultRecord \<lparr> vr_object_id = i, vr_content_hash = sha256_hex payload, vr_byte_size = int (length payload),
        vr_media_type = media, vr_tenant_id = tenant, vr_workspace_id = workspace, vr_source_event_id = source,
        vr_received_at_utc = now, vr_retention = rt, vr_generation = 1, vr_purged_at_utc = None \<rparr> = Inr r"
  let ?s = "s \<lparr> st_objects := (st_objects s)(i \<mapsto> payload), st_retention := (st_retention s)(i \<mapsto> rt) \<rparr>"
  let ?rest = "\<lambda>_. abind (append_journal ''preserve'' r actor ''object preserved under Vault retention policy'' None now)
      (\<lambda>head. alift (Inr (receipt r head)))"
  have r': "preserved_record i payload r" "vr_retention r = rt"
    using r t(2) VaultRetention_fields [OF rt] by (auto simp: VaultRecord_eq_Inr preserved_record_def)
  then have i: "vr_object_id r = i" by (simp add: preserved_record_def)
  show "vault_effect s (snd (abind (put_once i payload rt) (\<lambda>_. abind (create_record r) ?rest) s))"
  proof (cases "st_objects s i")
    case (Some p)
    then show ?thesis by (simp add: put_once_def abind_def action_simps rcheck_def vault_effect.unchanged)
  next
    case None
    then have put: "put_once i payload rt s = (Inr (), ?s)" by (simp add: put_once_def action_simps)
    show ?thesis
    proof (cases "st_records s i")
      case (Some r0)
      with None i vault_effect.orphaned [OF None Some] show ?thesis
        by (simp add: put create_record_def abind_def [of "abind _ _"] abind_aread rcheck_def)
    next
      case no: None
      have "create_record r ?s = (Inr (), ?s \<lparr> st_records := (st_records s)(i \<mapsto> r) \<rparr>)"
        using no i by (simp add: create_record_def action_simps)
      moreover obtain j where "snd (append_journal ''preserve'' r actor ''object preserved under Vault retention policy'' None now
          (?s \<lparr> st_records := (st_records s)(i \<mapsto> r) \<rparr>)) = ?s \<lparr> st_records := (st_records s)(i \<mapsto> r), st_journal := j \<rparr>"
        "journal_ext (st_journal s) j"
        using append_journal_journal [where s = "?s \<lparr> st_records := (st_records s)(i \<mapsto> r) \<rparr>"] by fastforce
      ultimately show ?thesis
        using vault_effect.preserved [OF None no r'(1), of j] r'(2) by (simp add: put snd_append_then)
    qed
  qed
qed


lemmas purge_reads = read_steps [where R = "purge_effect policy clock i a s" and s = s for policy clock i a s, OF purge_effect.not_purged]

lemma purge_has_effect:
  assumes inv: "vault_inv s"
  shows "purge_effect policy clock i a s (snd (purge policy clock i a s))"
  unfolding purge_def Let_def
proof (intro purge_reads)
  fix r now and u :: unit
  assume r: "st_records s i = Some r" "vr_purged_at_utc r = None" and now: "vault_normalize_utc clock ''Vault clock'' = Inr now"
    and ok: "vt_retain_until_utc (vr_retention r) \<le> now" "vt_legal_holds (vr_retention r) = []"
    and dual: "(if vpo_require_dual_control_for_purge policy then require_dual_control a else Inr ()) = Inr u"
  let ?r = "r \<lparr> vr_generation := vr_generation r + 1, vr_purged_at_utc := Some now \<rparr>"
  let ?s = "s \<lparr> st_objects := (st_objects s)(i := None), st_retention := (st_retention s)(i := None) \<rparr>"
  have i: "vr_object_id r = i" "vault_record_ok r" "vr_received_at_utc r < vt_retain_until_utc (vr_retention r)"
    "st_retention s i = Some (vr_retention r)" "st_objects s i \<noteq> None" using inv r by (auto simp: vault_inv_def)
  then have del: "backend_delete i s = (Inr (), ?s)" by (simp add: backend_delete_def require_retention_def action_simps)
  have rok: "vault_record_ok ?r" using i(2,3) ok(1) by (auto simp: vault_record_ok_def)
  then have nxt: "next_record r None (Some now) = Inr ?r" by (simp add: next_record_def VaultRecord_eq_Inr)
  have upd: "update_record ?r ?s = (Inr (), ?s \<lparr> st_records := (st_records s)(i \<mapsto> ?r) \<rparr>)"
    using update_record_eq [of ?s ?r r] r i by simp
  obtain j where "snd (append_journal ''purged'' ?r (va_primary_actor_id a) (va_reason a) (Some (va_secondary_actor_id a)) now
      (?s \<lparr> st_records := (st_records s)(i \<mapsto> ?r) \<rparr>)) = ?s \<lparr> st_records := (st_records s)(i \<mapsto> ?r), st_journal := j \<rparr>"
    "journal_ext (st_journal s) j"
    using append_journal_journal [where s = "?s \<lparr> st_records := (st_records s)(i \<mapsto> ?r) \<rparr>"] by fastforce
  moreover have "vpo_require_dual_control_for_purge policy \<longrightarrow> va_primary_actor_id a \<noteq> va_secondary_actor_id a"
    using dual by (auto simp: require_dual_control_def split: if_splits)
  ultimately show "purge_effect policy clock i a s (snd (abind (backend_delete i) (\<lambda>_.
       abind (alift (next_record r None (Some now))) (\<lambda>updated.
       abind (update_record updated) (\<lambda>_.
       abind (append_journal ''purged'' updated (va_primary_actor_id a) (va_reason a) (Some (va_secondary_actor_id a)) now)
         (\<lambda>head. alift (Inr (receipt updated head)))))) s))"
    using purge_effect.purged [OF r now ok _ refl rok, where policy = policy and a = a and j = j] by (simp add: del abind_alift nxt upd snd_append_then)
qed

section \<open>Commands and reachable states\<close>

datatype vault_command =
    Preserve datetime string "byte list" string string string datetime string string "string option" "string list" "string option"
  | Extend_Retention datetime string datetime string "string option" string
  | Apply_Legal_Hold datetime string string string string
  | Release_Legal_Hold datetime string string vault_authorization
  | Purge datetime string vault_authorization

fun vault_do :: "vault_policy \<Rightarrow> vault_command \<Rightarrow> (vault_state, vault_receipt) action" where
  "vault_do policy (Preserve clock nonce payload tenant workspace media until actor mode source holds expected) =
     preserve policy clock nonce payload tenant workspace media until actor mode source holds expected"
| "vault_do policy (Extend_Retention clock i until actor mode reason) = extend_retention clock i until actor mode reason"
| "vault_do policy (Apply_Legal_Hold clock i hold actor reason) = apply_legal_hold clock i hold actor reason"
| "vault_do policy (Release_Legal_Hold clock i hold auth) = release_legal_hold policy clock i hold auth"
| "vault_do policy (Purge clock i auth) = purge policy clock i auth"

definition vault_run :: "vault_policy \<Rightarrow> vault_command \<Rightarrow> vault_state \<Rightarrow> vault_state" where
  "vault_run policy cmd s = snd (vault_do policy cmd s)"

inductive vault_reachable :: "vault_policy \<Rightarrow> vault_state \<Rightarrow> bool" for policy where
  init: "vault_reachable policy vault_init"
| run: "vault_reachable policy s \<Longrightarrow> vault_reachable policy (vault_run policy cmd s)"

lemma vault_run_effect:
  assumes "vault_inv s"
  shows "vault_effect s (vault_run policy cmd s) \<or>
    (\<exists>clock i a. cmd = Purge clock i a \<and> purge_effect policy clock i a s (vault_run policy cmd s))"
  using preserve_effect extend_retention_effect [OF assms] apply_legal_hold_effect [OF assms]
    release_legal_hold_effect [OF assms] purge_has_effect [OF assms]
  by (cases cmd) (simp_all add: vault_run_def)

abbreviation journal_linked :: "vault_journal_entry list \<Rightarrow> bool" where
  "journal_linked \<equiv> linked (\<lambda>_. True) vj_sequence vj_previous_entry_hash vj_entry_hash journal_payload 1 zero_hash"

lemma journal_head_hash_last: "journal_head_hash js = last_digest vj_entry_hash zero_hash js"
  by (simp add: journal_head_hash_def last_digest_def)

lemma journal_ext_linked: "journal_ext old new \<Longrightarrow> journal_linked old \<Longrightarrow> journal_linked new"
  by (auto simp: journal_ext_def entry_follows_def linked_append journal_head_hash_last)

lemma retained_record_fields:
  "retained_record r r' \<Longrightarrow> vr_object_id r' = vr_object_id r \<and> vr_content_hash r' = vr_content_hash r \<and>
     vr_byte_size r' = vr_byte_size r \<and> vr_received_at_utc r' = vr_received_at_utc r \<and> vr_purged_at_utc r' = None \<and>
     vr_generation r' = vr_generation r + 1 \<and> vr_tenant_id r' = vr_tenant_id r \<and> vr_workspace_id r' = vr_workspace_id r \<and> vault_record_ok r' \<and>
     vt_retain_until_utc (vr_retention r) \<le> vt_retain_until_utc (vr_retention r')"
  unfolding retained_record_def by (cases r; cases r') simp

lemma vault_effect_inv:
  assumes "vault_effect s s'" "vault_inv s"
  shows "vault_inv s'"
  using assms
proof cases
  case (orphaned i r rt p)
  then have "vr_purged_at_utc r \<noteq> None" using assms(2) by (fastforce simp: vault_inv_def)
  with orphaned show ?thesis using assms(2) by (auto simp: vault_inv_def)
next
  case (preserved i p r j)
  then show ?thesis using assms(2) by (auto simp: vault_inv_def preserved_record_def journal_ext_linked)
next
  case (retained i r r' j)
  have old: "vr_object_id r = i" "vr_received_at_utc r < vt_retain_until_utc (vr_retention r)"
    "\<exists>p. st_objects s i = Some p \<and> sha256_hex p = vr_content_hash r \<and> int (length p) = vr_byte_size r"
    using assms(2) retained(2,3) by (auto simp: vault_inv_def)
  with retained(1) show ?thesis
    using assms(2) retained_record_fields [OF retained(4)] journal_ext_linked [OF retained(5)]
    by (auto simp: vault_inv_def)
qed simp

lemma purge_effect_inv:
  assumes "purge_effect policy clock i a s s'" "vault_inv s"
  shows "vault_inv s'"
  using assms by cases (auto simp: vault_inv_def journal_ext_linked)

lemma vault_reachable_inv [ets_inv]: "vault_reachable policy s \<Longrightarrow> vault_inv s"
proof (induction rule: vault_reachable.induct)
  case init
  show ?case by (simp add: vault_inv_def vault_init_def)
next
  case (run s cmd)
  then show ?case using vault_run_effect vault_effect_inv purge_effect_inv by blast
qed

lemma verify_journal_entries_linked:
  assumes "linked (\<lambda>_. True) vj_sequence vj_previous_entry_hash vj_entry_hash journal_payload n h js"
  shows "verify_journal_entries k n h js =
    \<lparr> vy_valid = True, vy_reason = ''Vault administration journal hash chain is valid'', vy_entry_count = k,
      vy_head_hash = last_digest vj_entry_hash h js \<rparr>"
  using assms by (induction js arbitrary: n h) (auto simp: last_digest_def Let_def)

lemma verify_journal_entries_valid:
  "vy_valid (verify_journal_entries k n h js) \<Longrightarrow>
   linked (\<lambda>_. True) vj_sequence vj_previous_entry_hash vj_entry_hash journal_payload n h js"
  by (induction js arbitrary: n h) (auto simp: Let_def split: if_split_asm)

section \<open>Journal binding\<close>

definition journal_content :: "vault_journal_entry \<Rightarrow> int \<times> string \<times> (string \<times> string \<times> int \<times> string \<times> string option \<times> string \<times> string \<times> string)" where
  "journal_content e = (vj_sequence e, vj_previous_entry_hash e, vj_schema_version e, vj_operation e, vj_record_generation e,
     vj_object_id e, vj_secondary_actor_id e, vj_actor_id e, vj_reason e, isoformat_z (vj_occurred_at_utc e))"

lemma journal_payload_ok [simp]: "json_ok (journal_payload e)"
  by (simp add: journal_payload_def JOpt_def split: option.split)

lemma journal_payload_content:
  assumes "jnorm (journal_payload a) = jnorm (journal_payload b)"
  shows "journal_content a = journal_content b"
proof -
  have "map (jnorm \<circ> snd) (case journal_payload a of JObj kvs \<Rightarrow> kvs) = map (jnorm \<circ> snd) (case journal_payload b of JObj kvs \<Rightarrow> kvs)"
    using assms unfolding journal_payload_def by (simp only: json.case) (rule jnorm_JObj_values, simp_all)
  then show ?thesis
    by (auto simp: journal_payload_def journal_content_def JOpt_def split: option.split_asm)
qed

interpretation journal: hash_linked "\<lambda>_. True" vj_sequence vj_previous_entry_hash vj_entry_hash journal_payload journal_content
  by unfold_locales (auto dest: journal_payload_content simp: journal_content_def)

section \<open>Properties\<close>

lemma append_journal_receipt:
  assumes "fst (abind (append_journal operation r actor reason sec t) (\<lambda>head. alift (Inr (receipt r head))) s) = Inr rc"
  obtains j where "snd (append_journal operation r actor reason sec t s) = s \<lparr> st_journal := j \<rparr>" "journal_ext (st_journal s) j"
    "j \<noteq> st_journal s" "rc = receipt r (journal_head_hash j)"
proof -
  obtain h where "fst (append_journal operation r actor reason sec t s) = Inr h" "rc = receipt r h"
    using assms by (auto simp: abind_def alift_def split: prod.splits sum.splits)
  then show thesis using append_journal_effect [of operation r actor reason sec t s] that by blast
qed

definition preserve_done :: "byte list \<Rightarrow> vault_state \<Rightarrow> vault_receipt \<Rightarrow> vault_state \<Rightarrow> bool" where
  "preserve_done p s rc s' \<longleftrightarrow> (\<exists>r j. preserved_record (vr_object_id r) p r \<and> journal_ext (st_journal s) j \<and> j \<noteq> st_journal s \<and>
     rc = receipt r (journal_head_hash j) \<and>
     s' = s \<lparr> st_objects := (st_objects s)(vr_object_id r \<mapsto> p), st_retention := (st_retention s)(vr_object_id r \<mapsto> vr_retention r),
       st_records := (st_records s)(vr_object_id r \<mapsto> r), st_journal := j \<rparr>)"

lemma preserve_returns:
  "returns (preserve_done payload s) (preserve policy clock nonce payload tenant workspace media until actor mode source holds expected s)"
  unfolding preserve_def Let_def
proof (intro returns_reads)
  fix now t i rt r
  assume "now < t" and rt: "VaultRetention mode t holds = Inr rt"
    and r: "VaultRecord \<lparr> vr_object_id = i, vr_content_hash = sha256_hex payload, vr_byte_size = int (length payload),
        vr_media_type = media, vr_tenant_id = tenant, vr_workspace_id = workspace, vr_source_event_id = source,
        vr_received_at_utc = now, vr_retention = rt, vr_generation = 1, vr_purged_at_utc = None \<rparr> = Inr r"
  let ?s = "s \<lparr> st_objects := (st_objects s)(i \<mapsto> payload), st_retention := (st_retention s)(i \<mapsto> rt), st_records := (st_records s)(i \<mapsto> r) \<rparr>"
  let ?journal = "append_journal ''preserve'' r actor ''object preserved under Vault retention policy'' None now"
  have r': "preserved_record i payload r" "vr_retention r = rt" "vr_object_id r = i"
    using r \<open>now < t\<close> VaultRetention_fields [OF rt] by (auto simp: VaultRecord_eq_Inr preserved_record_def)
  have "preserve_done payload s rc (snd (?journal ?s))"
    if ret: "fst (abind ?journal (\<lambda>head. alift (Inr (receipt r head))) ?s) = Inr rc" for rc
  proof -
    obtain j where j: "snd (?journal ?s) = ?s \<lparr> st_journal := j \<rparr>" "journal_ext (st_journal s) j" "j \<noteq> st_journal s"
      "rc = receipt r (journal_head_hash j)" using append_journal_receipt [OF ret] by auto
    show ?thesis
      unfolding preserve_done_def by (rule exI [of _ r], rule exI [of _ j]) (use j r' in simp)
  qed
  then have "returns (preserve_done payload s) (abind ?journal (\<lambda>head. alift (Inr (receipt r head))) ?s)"
    by (simp add: returns_def snd_append_then)
  then show "returns (preserve_done payload s) (abind (put_once i payload rt) (\<lambda>_. abind (create_record r) (\<lambda>_.
      abind ?journal (\<lambda>head. alift (Inr (receipt r head))))) s)"
    by (cases "st_objects s i"; cases "st_records s i")
      (auto simp: put_once_def create_record_def abind_def [of "abind _ _"] abind_aread awrite_def rcheck_def r'(3) returns_def)
qed

text \<open>A first preservation from the empty vault, for any bytes and actor; the journal takes the entry only if
  the actor's identifier has an admissible length.\<close>

definition sample_policy :: vault_policy where
  "sample_policy = \<lparr> vpo_require_production_backend = False, vpo_max_object_bytes = 67108864,
     vpo_require_dual_control_for_hold_release = True, vpo_require_dual_control_for_purge = True \<rparr>"

definition sample_preserve :: "byte list \<Rightarrow> string \<Rightarrow> vault_command" where
  "sample_preserve payload actor = Preserve (Aware 0 0) ''n'' payload ''t'' ''w'' ''text/plain'' (Aware 10 0) actor ''compliance'' None [] None"

definition sample_id :: "byte list \<Rightarrow> string" where
  "sample_id payload = ''vault:'' @ canon_sha256 (JObj [(''tenant_id'', JStr ''t''), (''workspace_id'', JStr ''w''),
     (''content_hash'', JStr (sha256_hex payload)), (''nonce'', JStr ''n'')])"

definition sample_record :: "byte list \<Rightarrow> vault_record" where
  "sample_record payload = \<lparr> vr_object_id = sample_id payload, vr_content_hash = sha256_hex payload,
     vr_byte_size = int (length payload), vr_media_type = ''text/plain'', vr_tenant_id = ''t'', vr_workspace_id = ''w'',
     vr_source_event_id = None, vr_received_at_utc = 0,
     vr_retention = \<lparr> vt_mode = ''compliance'', vt_retain_until_utc = 10, vt_legal_holds = [] \<rparr>,
     vr_generation = 1, vr_purged_at_utc = None \<rparr>"

definition sample_state :: "byte list \<Rightarrow> vault_state" where
  "sample_state payload = vault_init \<lparr> st_objects := [sample_id payload \<mapsto> payload],
     st_retention := [sample_id payload \<mapsto> vr_retention (sample_record payload)],
     st_records := [sample_id payload \<mapsto> sample_record payload] \<rparr>"

lemma fromhex_opt_canon_sha256 [simp]: "fromhex_opt (canon_sha256 j) = Some (sha256 (canon j))"
  using fromhex_canon_sha256 [of j] by (simp add: fromhex_def)

lemma sample_id_form: "length (sample_id p) = 70 \<and> take 6 (sample_id p) = ''vault:'' \<and> fromhex_opt (drop 6 (sample_id p)) \<noteq> None"
  by (simp add: sample_id_def)

lemma sample_record_ok [simp]: "vault_record_ok (sample_record p)"
  using sample_id_form [of p] by (simp add: vault_record_ok_def sample_record_def field_length_def)

lemma sample_preserve_do:
  assumes "length p \<le> 67108864"
  shows "vault_do sample_policy (sample_preserve p actor) vault_init =
    abind (append_journal ''preserve'' (sample_record p) actor ''object preserved under Vault retention policy'' None 0)
      (\<lambda>head. alift (Inr (receipt (sample_record p) head))) (sample_state p)"
proof -
  have id: "new_object_id ''n'' ''t'' ''w'' (sha256_hex p) = Inr (sample_id p)" by (simp add: new_object_id_def sample_id_def)
  have rt: "VaultRetention ''compliance'' 10 [] = Inr (vr_retention (sample_record p))"
    by (simp add: VaultRetention_def normalize_legal_holds_def sample_record_def)
  have r: "VaultRecord \<lparr> vr_object_id = sample_id p, vr_content_hash = sha256_hex p, vr_byte_size = int (length p),
        vr_media_type = ''text/plain'', vr_tenant_id = ''t'', vr_workspace_id = ''w'', vr_source_event_id = None,
        vr_received_at_utc = 0, vr_retention = vr_retention (sample_record p), vr_generation = 1, vr_purged_at_utc = None \<rparr> =
      Inr (sample_record p)"
    using sample_record_ok [of p] by (simp add: VaultRecord_def sample_record_def)
  have put: "put_once (sample_id p) p (vr_retention (sample_record p)) vault_init =
      (Inr (), vault_init \<lparr> st_objects := [sample_id p \<mapsto> p], st_retention := [sample_id p \<mapsto> vr_retention (sample_record p)] \<rparr>)"
    by (simp add: put_once_def action_simps vault_init_def)
  have new: "create_record (sample_record p)
      (vault_init \<lparr> st_objects := [sample_id p \<mapsto> p], st_retention := [sample_id p \<mapsto> vr_retention (sample_record p)] \<rparr>) =
      (Inr (), sample_state p)"
    by (simp add: create_record_def action_simps vault_init_def sample_state_def sample_record_def)
  show ?thesis
    unfolding sample_preserve_def vault_do.simps preserve_def Let_def
    using assms by (simp add: abind_alift abind_acheck vault_normalize_utc_def utc_or_raise_def sample_policy_def id rt r put new)
qed

lemma sample_id_state [simp]: "st_records (sample_state p) (sample_id p) = Some (sample_record p)"
  "st_objects (sample_state p) (sample_id p) = Some p" "st_journal (sample_state p) = []"
  by (simp_all add: sample_state_def vault_init_def)

lemma zero_hash_hex [simp]: "length zero_hash = 64" "fromhex_opt zero_hash \<noteq> None"
proof -
  have hx: "hexlify (replicate n 0) = replicate (2 * n) (CHR ''0'')" for n
    by (induction n) (simp_all add: hexlify_Cons hex_digit_def char_of_def bit_Suc_0_iff)
  have z: "zero_hash = hexlify (replicate 32 0)" unfolding hx zero_hash_def by simp
  show "fromhex_opt zero_hash \<noteq> None" unfolding z by (simp only: fromhex_opt_hexlify) simp
qed (simp add: zero_hash_def)

lemma sample_journal:
  "\<exists>e. append_journal ''preserve'' (sample_record p) actor ''object preserved under Vault retention policy'' None 0 (sample_state p) =
     (if field_length 1 128 actor then (Inr (journal_head_hash [e]), sample_state p \<lparr> st_journal := [e] \<rparr>)
      else (Inl (ValidationError ''VaultJournalEntry''), sample_state p))"
proof -
  let ?draft = "\<lparr> vj_schema_version = ''ets.vault_journal.v1'', vj_sequence = 1, vj_operation = ''preserve'',
    vj_object_id = sample_id p, vj_record_generation = 1, vj_actor_id = actor, vj_secondary_actor_id = None,
    vj_reason = ''object preserved under Vault retention policy'', vj_occurred_at_utc = 0,
    vj_previous_entry_hash = zero_hash, vj_entry_hash = [] \<rparr>"
  let ?e = "?draft \<lparr> vj_entry_hash := canon_sha256 (journal_payload ?draft) \<rparr>"
  have "vault_journal_entry_ok ?e \<longleftrightarrow> field_length 1 128 actor"
    using sample_id_form [of p] by (auto simp: vault_journal_entry_ok_def vault_operations_def field_length_def)
  then show ?thesis
    by (intro exI [of _ ?e])
      (simp add: append_journal_def Let_def action_simps catalog_append_journal_def abind_def rcheck_def journal_head_hash_def sample_record_def)
qed

lemma sample_run:
  assumes "length p \<le> 67108864"
  obtains e where "vault_do sample_policy (sample_preserve p actor) vault_init =
    (if field_length 1 128 actor then (Inr (receipt (sample_record p) (journal_head_hash [e])), sample_state p \<lparr> st_journal := [e] \<rparr>)
     else (Inl (ValidationError ''VaultJournalEntry''), sample_state p))"
  using sample_journal [of p actor] sample_preserve_do [OF assms, of actor] by (auto simp: abind_def alift_def split: if_splits)

text \<open>
  C15. Retention is never weakened. In every reachable vault, whatever command runs next and whether it returns or
  raises, every record stays in the catalog with the same identity, content hash and size; its retention date does
  not move back, a compliance lock is not downgraded, its generation advances by at most one, and a record that was
  purged does not change at all.
\<close>

theorem vault_retention_never_weakened:
  assumes "vault_reachable policy s" "st_records s i = Some r"
  shows "\<exists>r'. st_records (vault_run policy cmd s) i = Some r' \<and> vr_object_id r' = i \<and>
    vr_content_hash r' = vr_content_hash r \<and> vr_byte_size r' = vr_byte_size r \<and> vr_tenant_id r' = vr_tenant_id r \<and>
    vt_retain_until_utc (vr_retention r) \<le> vt_retain_until_utc (vr_retention r') \<and>
    (vt_mode (vr_retention r) = ''compliance'' \<longrightarrow> vt_mode (vr_retention r') = ''compliance'') \<and>
    vr_generation r \<le> vr_generation r' \<and> vr_generation r' \<le> vr_generation r + 1 \<and>
    (vr_purged_at_utc r \<noteq> None \<longrightarrow> r' = r)"
proof -
  have inv: "vault_inv s" using assms(1) by (rule vault_reachable_inv)
  have i: "vr_object_id r = i" using vault_invD [OF inv assms(2)] .
  from vault_run_effect [OF inv, of policy cmd] show ?thesis
  proof (elim disjE exE conjE)
    assume "vault_effect s (vault_run policy cmd s)"
    then show ?thesis
    proof cases
      case (retained k q q' j)
      then show ?thesis
        using assms(2) i retained_record_fields [OF retained(4)]
        by (cases "k = i") (auto simp: retained_record_def)
    qed (use assms(2) i in auto)
  next
    fix clock k a
    assume "purge_effect policy clock k a s (vault_run policy cmd s)"
    then show ?thesis
      using assms(2) i by cases auto
  qed
qed

theorem vault_retention_never_weakened_witness:
  "\<exists>r'. st_records (vault_run sample_policy (Purge (Aware 5 0) (sample_id []) \<lparr> va_primary_actor_id = ''a'', va_secondary_actor_id = ''b'', va_reason = ''r'' \<rparr>)
      (vault_run sample_policy (sample_preserve [] ''a'') vault_init)) (sample_id []) = Some r' \<and> 10 \<le> vt_retain_until_utc (vr_retention r')"
proof -
  obtain e where e: "vault_do sample_policy (sample_preserve [] ''a'') vault_init =
      (Inr (receipt (sample_record []) (journal_head_hash [e])), sample_state [] \<lparr> st_journal := [e] \<rparr>)"
    by (rule sample_run [of "[]" "''a''"]) (simp_all add: field_length_def)
  then have "st_records (vault_run sample_policy (sample_preserve [] ''a'') vault_init) (sample_id []) = Some (sample_record [])"
    by (simp add: vault_run_def)
  from vault_retention_never_weakened [OF vault_reachable.run [OF vault_reachable.init] this] show ?thesis
    by (auto simp: sample_record_def)
qed

text \<open>
  C16. Preserved bytes are lost only by a lawful purge. In every reachable vault, an object whose record is not
  purged can be read, and its bytes have the recorded SHA-256 and size. After any command it can still be read and
  yields the same bytes, unless the command is a purge of this very object, made after its retention date, with no
  legal hold on it, and by two distinct actors where the policy asks for dual control.
\<close>

theorem vault_bytes_survive_until_purge:
  assumes "vault_reachable policy s" "st_records s i = Some r" "vr_purged_at_utc r = None"
  shows "\<exists>p. fst (vault_read i s) = Inr p \<and> sha256_hex p = vr_content_hash r \<and> int (length p) = vr_byte_size r \<and>
    (fst (vault_read i (vault_run policy cmd s)) = Inr p \<or>
     (\<exists>t off a. cmd = Purge (Aware t off) i a \<and> vt_retain_until_utc (vr_retention r) \<le> t - off \<and>
        vt_legal_holds (vr_retention r) = [] \<and>
        (vpo_require_dual_control_for_purge policy \<longrightarrow> va_primary_actor_id a \<noteq> va_secondary_actor_id a)))"
proof -
  have read: "fst (vault_read i v) = Inr p" if "st_records v i = Some q" "vr_purged_at_utc q = None" "st_objects v i = Some p" for v p q
    using that by (simp add: vault_read_def get_record_def backend_get_def action_simps abind_def)
  have inv: "vault_inv s" using assms(1) by (rule vault_reachable_inv)
  obtain p where p: "st_objects s i = Some p" "sha256_hex p = vr_content_hash r" "int (length p) = vr_byte_size r"
    using inv assms(2,3) by (auto simp: vault_inv_def)
  from vault_run_effect [OF inv, of policy cmd]
  have "fst (vault_read i (vault_run policy cmd s)) = Inr p \<or> (\<exists>t off a. cmd = Purge (Aware t off) i a \<and>
      vt_retain_until_utc (vr_retention r) \<le> t - off \<and> vt_legal_holds (vr_retention r) = [] \<and>
      (vpo_require_dual_control_for_purge policy \<longrightarrow> va_primary_actor_id a \<noteq> va_secondary_actor_id a))"
  proof (elim disjE exE conjE)
    assume "vault_effect s (vault_run policy cmd s)"
    then show ?thesis
    proof cases
      case (retained k q q' j)
      then show ?thesis
        using assms(2,3) p retained_record_fields [OF retained(4)] by (cases "k = i") (auto intro!: read)
    qed (use assms p in \<open>auto intro!: read\<close>)
  next
    fix clock k a
    assume "cmd = Purge clock k a" "purge_effect policy clock k a s (vault_run policy cmd s)"
    from this(2,1) show ?thesis
      using assms(2,3) p by cases (auto simp: vault_normalize_utc_Inr intro!: read)
  qed
  with p read [OF assms(2,3) p(1)] show ?thesis by blast
qed

lemma sample_returns:
  obtains e where "vault_do sample_policy (sample_preserve [] ''a'') vault_init =
    (Inr (receipt (sample_record []) (journal_head_hash [e])), sample_state [] \<lparr> st_journal := [e] \<rparr>)"
  by (rule sample_run [of "[]" "''a''"]) (simp_all add: field_length_def)

lemma sample_reachable: "vault_reachable sample_policy (vault_run sample_policy (sample_preserve [] ''a'') vault_init)"
  by (rule vault_reachable.run [OF vault_reachable.init])

lemma sample_run_record:
  "st_records (vault_run sample_policy (sample_preserve [] ''a'') vault_init) (sample_id []) = Some (sample_record [])"
  by (rule sample_returns) (simp add: vault_run_def)

theorem vault_bytes_survive_until_purge_witness:
  "\<exists>p. fst (vault_read (sample_id []) (vault_run sample_policy (sample_preserve [] ''a'') vault_init)) = Inr p \<and>
     fst (vault_read (sample_id []) (vault_run sample_policy
       (Purge (Aware 5 0) (sample_id []) \<lparr> va_primary_actor_id = ''a'', va_secondary_actor_id = ''b'', va_reason = ''r'' \<rparr>)
       (vault_run sample_policy (sample_preserve [] ''a'') vault_init))) = Inr p"
  using vault_bytes_survive_until_purge [OF sample_reachable sample_run_record,
      of "Purge (Aware 5 0) (sample_id []) \<lparr> va_primary_actor_id = ''a'', va_secondary_actor_id = ''b'', va_reason = ''r'' \<rparr>"]
  by (auto simp: sample_record_def)

text \<open>
  Preserve, then read. When \<^verbatim>\<open>preserve\<close> returns a receipt, the vault reads back exactly the bytes given, the
  integrity check of the object succeeds, the receipt carries the hash of the journal's head, and the journal has
  grown by one entry linked to its previous head; an object that existed before keeps its bytes.
\<close>

theorem preserve_then_read:
  assumes "fst (preserve policy clock nonce payload tenant workspace media until actor mode source holds expected s) = Inr rc"
  defines "s' \<equiv> snd (preserve policy clock nonce payload tenant workspace media until actor mode source holds expected s)"
    and "i \<equiv> vr_object_id (vx_record rc)"
  shows "fst (vault_read i s') = Inr payload \<and> map_sum id vi_valid (fst (verify_integrity i s')) = Inr True \<and>
    vx_journal_head_hash rc = journal_head_hash (st_journal s') \<and>
    (\<exists>e. st_journal s' = st_journal s @ [e] \<and> vj_previous_entry_hash e = journal_head_hash (st_journal s)) \<and>
    (\<forall>k. k \<noteq> i \<longrightarrow> fst (vault_read k s') = fst (vault_read k s))"
proof -
  have "preserve_done payload s rc s'" unfolding s'_def by (rule returnsD [OF preserve_returns assms(1)])
  then obtain r j where r: "preserved_record (vr_object_id r) payload r" "journal_ext (st_journal s) j" "j \<noteq> st_journal s"
    "rc = receipt r (journal_head_hash j)" and s': "s' = s \<lparr> st_objects := (st_objects s)(vr_object_id r \<mapsto> payload),
      st_retention := (st_retention s)(vr_object_id r \<mapsto> vr_retention r), st_records := (st_records s)(vr_object_id r \<mapsto> r), st_journal := j \<rparr>"
    unfolding preserve_done_def by blast
  have i: "i = vr_object_id r" by (simp add: i_def r(4) receipt_def)
  have rec: "st_records s' i = Some r" "st_objects s' i = Some payload" by (simp_all add: s' i)
  have fields: "vr_purged_at_utc r = None" "vr_content_hash r = sha256_hex payload" "vr_byte_size r = int (length payload)"
    using r(1) by (simp_all add: preserved_record_def)
  have "fst (vault_read i s') = Inr payload"
    using rec fields by (simp add: vault_read_def get_record_def backend_get_def action_simps abind_def)
  moreover have "map_sum id vi_valid (fst (verify_integrity i s')) = Inr True"
    using rec fields by (simp add: verify_integrity_def get_record_def action_simps Let_def)
  moreover have "fst (vault_read k s') = fst (vault_read k s)" if "k \<noteq> i" for k
    using that by (cases "st_records s k") (simp_all add: vault_read_def get_record_def backend_get_def action_simps abind_def s' i rcheck_def)
  moreover have "\<exists>e. st_journal s' = st_journal s @ [e] \<and> vj_previous_entry_hash e = journal_head_hash (st_journal s)"
    using r(2,3) by (auto simp: journal_ext_def entry_follows_def s')
  ultimately show ?thesis by (simp add: r(4) receipt_def s')
qed

theorem preserve_then_read_witness:
  "fst (vault_read (sample_id []) (vault_run sample_policy (sample_preserve [] ''a'') vault_init)) = Inr []"
proof -
  obtain e where "vault_do sample_policy (sample_preserve [] ''a'') vault_init =
    (Inr (receipt (sample_record []) (journal_head_hash [e])), sample_state [] \<lparr> st_journal := [e] \<rparr>)" by (rule sample_returns)
  then have "fst (preserve sample_policy (Aware 0 0) ''n'' [] ''t'' ''w'' ''text/plain'' (Aware 10 0) ''a'' ''compliance'' None [] None vault_init) =
      Inr (receipt (sample_record []) (journal_head_hash [e]))"
    by (simp add: sample_preserve_def)
  from preserve_then_read [OF this] show ?thesis
    by (simp add: vault_run_def sample_preserve_def receipt_def sample_record_def)
qed

text \<open>
  The administration journal of every reachable vault verifies, also after commands that raised: numbers,
  links and hashes are in order, the result counts every entry and names the head's hash.
\<close>

theorem vault_journal_always_verifies:
  assumes "vault_reachable policy s"
  shows "verify_journal s = \<lparr> vy_valid = True, vy_reason = ''Vault administration journal hash chain is valid'',
    vy_entry_count = int (length (st_journal s)), vy_head_hash = journal_head_hash (st_journal s) \<rparr>"
proof -
  have "journal_linked (st_journal s)" using vault_reachable_inv [OF assms] by (simp add: vault_inv_def)
  then show ?thesis by (simp add: verify_journal_def verify_journal_entries_linked journal_head_hash_last)
qed

theorem vault_journal_always_verifies_witness:
  "vy_valid (verify_journal (vault_run sample_policy (sample_preserve [] ''a'') vault_init))"
  using vault_journal_always_verifies [OF sample_reachable] by simp

text \<open>
  The head hash of the journal commits to the whole administrative history. Two journals that verify and end in
  the same hash record the same operations with the same actors, reasons and times, in the same order, or their
  entries exhibit a SHA-256 collision.
\<close>

theorem vault_journal_head_binds_history:
  assumes "vy_valid (verify_journal s)" "vy_valid (verify_journal t)" "st_journal s \<noteq> []" "st_journal t \<noteq> []"
    "vy_head_hash (verify_journal s) = vy_head_hash (verify_journal t)"
  shows "map journal_content (st_journal s) = map journal_content (st_journal t) \<or>
    collides (payload_inputs journal_payload (st_journal s)) (payload_inputs journal_payload (st_journal t))"
proof -
  have linked: "journal_linked (st_journal s)" "journal_linked (st_journal t)"
    using assms(1,2) by (auto simp: verify_journal_def dest: verify_journal_entries_valid)
  then have "vj_entry_hash (last (st_journal s)) = vj_entry_hash (last (st_journal t))"
    using assms(3-5) by (simp add: verify_journal_def verify_journal_entries_linked last_digest_def)
  with linked assms(3,4) show ?thesis by (rule journal.chain_binding)
qed

theorem vault_journal_head_binds_history_witness:
  "let s = vault_run sample_policy (sample_preserve [] ''a'') vault_init in
   map journal_content (st_journal s) = map journal_content (st_journal s) \<or>
   collides (payload_inputs journal_payload (st_journal s)) (payload_inputs journal_payload (st_journal s))"
proof -
  let ?s = "vault_run sample_policy (sample_preserve [] ''a'') vault_init"
  have "st_journal ?s \<noteq> []" by (rule sample_returns) (simp add: vault_run_def)
  moreover have "journal_linked (st_journal ?s)"
    using vault_reachable_inv [OF sample_reachable] by (simp add: vault_inv_def)
  then have "vy_valid (verify_journal ?s)" by (simp add: verify_journal_def verify_journal_entries_linked)
  ultimately show ?thesis using vault_journal_head_binds_history [of ?s ?s] by simp
qed

text \<open>
  A command may change the vault and leave no journal entry. Preserving with an empty actor identifier raises
  the validation error of the journal entry only after bytes, retention and record have been stored: the object
  is in the vault and readable, and the journal is still empty.
\<close>

theorem preserve_may_go_unjournaled:
  assumes "length p \<le> 67108864"
  shows "fst (vault_do sample_policy (sample_preserve p []) vault_init) = Inl (ValidationError ''VaultJournalEntry'') \<and>
    fst (vault_read (sample_id p) (vault_run sample_policy (sample_preserve p []) vault_init)) = Inr p \<and>
    st_journal (vault_run sample_policy (sample_preserve p []) vault_init) = []"
proof -
  obtain e where "vault_do sample_policy (sample_preserve p []) vault_init = (Inl (ValidationError ''VaultJournalEntry''), sample_state p)"
    by (rule sample_run [OF assms, of "[]"]) (simp add: field_length_def)
  moreover have "fst (vault_read (sample_id p) (sample_state p)) = Inr p"
    by (simp add: vault_read_def get_record_def backend_get_def action_simps abind_def sample_record_def)
  ultimately show ?thesis by (simp add: vault_run_def)
qed

theorem preserve_may_go_unjournaled_witness:
  "st_journal (vault_run sample_policy (sample_preserve [7] []) vault_init) = []"
  using preserve_may_go_unjournaled [of "[7]"] by simp

end
