(* ===== verification/Ets_Fleet.thy ===== *)
theory Ets_Fleet
  imports Ets_Linked Ets_Text "HOL-Library.AList"
begin

text \<open>
  Fleet enrollment (\<^verbatim>\<open>ets/fleet/models.py\<close>, \<^verbatim>\<open>ets/fleet/store.py\<close>, \<^verbatim>\<open>ets/fleet/service.py\<close>): the
  enrollment record and its validators, the in-memory store, and the service's lifecycle, rotation and
  authorization operations. Operations are actions on the store, since the in-memory store does not roll
  back; the external identity validator and the clock are arguments.
\<close>

section \<open>Models\<close>

datatype product_type = Edge | Gateway | Verify | Vault | Black_Box | AI_Witness | Exchange_Gateway
datatype device_profile = Virtual_Demo | Physical_Pilot | Production
datatype auth_method = X509 | TPM_Attestation
datatype attestation_class = Att_TPM2 | Att_Secure_Element | Att_HSM | Att_Software_Demo | Att_None
datatype key_custody = Cust_TPM2 | Cust_Secure_Element | Cust_HSM | Cust_Software_Demo
datatype registration_state = Pending | Enrolled | Quarantined | Revoked | Decommissioned
datatype provisioning_backend = Azure_IoT_DPS_V1 | Offline_Manual_V1
datatype authorization_reason = Authorized | Unknown_Device | Credential_Mismatch | Scope_Mismatch | Is_Pending
  | Is_Quarantined | Is_Revoked | Is_Decommissioned | Credential_Expired | Superseded_Credential

record scope_binding =
  sb_tenant_id :: string
  sb_workspace_id :: string

definition scope_binding_ok :: "scope_binding \<Rightarrow> bool" where
  "scope_binding_ok b \<longleftrightarrow> 1 \<le> length (sb_tenant_id b) \<and> length (sb_tenant_id b) \<le> 128 \<and>
     1 \<le> length (sb_workspace_id b) \<and> length (sb_workspace_id b) \<le> 128"

record device_enrollment_record =
  de_enrollment_id :: string
  de_device_id :: string
  de_product_type :: product_type
  de_profile :: device_profile
  de_auth_method :: auth_method
  de_public_key_fingerprint_sha256 :: string
  de_certificate_thumbprint_sha256 :: "string option"
  de_attestation_class :: attestation_class
  de_key_custody :: key_custody
  de_hardware_attested :: bool
  de_registration_state :: registration_state
  de_scope_binding :: scope_binding
  de_provisioning_backend :: "provisioning_backend option"
  de_certificate_not_after_utc :: "utc option"
  de_supersedes_enrollment_id :: "string option"
  de_created_at_utc :: utc
  de_updated_at_utc :: "utc option"
  de_metadata :: "(string \<times> json) list"

record rotation_window =
  rw_device_id :: string
  rw_old_enrollment_id :: string
  rw_new_enrollment_id :: string
  rw_overlap_expires_at_utc :: utc

record authorization_decision =
  ad_allowed :: bool
  ad_reason :: authorization_reason
  ad_device_id :: string
  ad_enrollment_id :: "string option"
  ad_registration_state :: "registration_state option"

section \<open>Validators\<close>

definition enrollment_id_char :: "char \<Rightarrow> bool" where
  "enrollment_id_char c \<longleftrightarrow> is_digit c \<or> ascii_lower c \<or> ascii_upper c \<or> c \<in> set ''._-''"

definition validate_enrollment_id :: "string \<Rightarrow> bool" where
  "validate_enrollment_id s \<longleftrightarrow> starts_with ''enr_'' s \<and> drop 4 s \<noteq> [] \<and> list_all enrollment_id_char (drop 4 s)"

definition device_products :: "string list" where
  "device_products = [''edge'', ''gateway'', ''verify'', ''vault'', ''black-box'', ''ai-witness'', ''exchange'']"

definition device_name_ok :: "string \<Rightarrow> bool" where
  "device_name_ok s \<longleftrightarrow> (case s of [] \<Rightarrow> False
     | c # cs \<Rightarrow> (ascii_lower c \<or> is_digit c) \<and> cs \<noteq> [] \<and> list_all (\<lambda>c. ascii_lower c \<or> is_digit c \<or> c \<in> set ''._:-'') cs)"

definition validate_device_id :: "string \<Rightarrow> bool" where
  "validate_device_id s \<longleftrightarrow> list_ex (\<lambda>p. let prefix = ''ets-'' @ p @ '':'' in
     starts_with prefix s \<and> device_name_ok (drop (length prefix) s)) device_products"

definition validate_sha256 :: "string \<Rightarrow> string result" where
  "validate_sha256 s = (if sha256_text s then Inr s else Inl (ValueError ''fingerprint must be lowercase canonical SHA-256''))"

definition normalize_time :: "datetime \<Rightarrow> utc result" where
  "normalize_time value = utc_or_raise (ValueError ''Fleet timestamps must be timezone-aware'') value"

fun product_device_prefix :: "product_type \<Rightarrow> string" where
  "product_device_prefix Edge = ''ets-edge''"
| "product_device_prefix Gateway = ''ets-gateway''"
| "product_device_prefix Verify = ''ets-verify''"
| "product_device_prefix Vault = ''ets-vault''"
| "product_device_prefix Black_Box = ''ets-black-box''"
| "product_device_prefix AI_Witness = ''ets-ai-witness''"
| "product_device_prefix Exchange_Gateway = ''ets-exchange''"

definition derive_device_id :: "product_type \<Rightarrow> string \<Rightarrow> string result" where
  "derive_device_id product_type fingerprint =
     rbind (validate_sha256 fingerprint) (\<lambda>f. Inr (product_device_prefix product_type @ '':'' @ take 24 f))"

definition secret_key_tokens :: "string list" where
  "secret_key_tokens = [''password'', ''passwd'', ''secret'', ''token'', ''apikey'', ''privatekey'', ''connectionstring'', ''sas'', ''bearer'']"

text \<open>The four searches for secret-shaped values, in the order of the source.\<close>

definition private_key_at :: "char option \<Rightarrow> string \<Rightarrow> bool" where
  "private_key_at prev s \<longleftrightarrow> starts_with ''-----BEGIN '' s \<and>
     (let rest = drop 11 s; run = takeWhile (\<lambda>c. ascii_upper c \<or> c = CHR '' '') rest
      in starts_with (rev ''PRIVATE KEY'') (rev run) \<and> starts_with ''-----'' (drop (length run) rest))"

definition bearer_at :: "char option \<Rightarrow> string \<Rightarrow> bool" where
  "bearer_at prev s \<longleftrightarrow> boundary prev \<and> starts_with ''bearer'' (lower s) \<and>
     (let rest = drop 6 s; after = dropWhile py_space rest
      in after \<noteq> rest \<and> (case after of [] \<Rightarrow> False
         | c # _ \<Rightarrow> is_digit c \<or> ascii_lower c \<or> ascii_upper c \<or> c \<in> set ''._~+/-''))"

definition shared_access_at :: "char option \<Rightarrow> string \<Rightarrow> bool" where
  "shared_access_at prev s \<longleftrightarrow> boundary prev \<and> starts_with ''sharedaccesssignature'' (lower s) \<and> boundary (head_of (drop 21 s))"

definition assignment_at :: "char option \<Rightarrow> string \<Rightarrow> bool" where
  "assignment_at prev s \<longleftrightarrow> boundary prev \<and>
     list_ex (\<lambda>key. starts_with key (lower s) \<and> head_of (dropWhile py_space (drop (length key) s)) = Some (CHR ''=''))
       [''accountkey'', ''clientsecret'', ''password'']"

definition secret_value :: "string \<Rightarrow> bool" where
  "secret_value s \<longleftrightarrow> search private_key_at s \<or> search bearer_at s \<or> search shared_access_at s \<or> search assignment_at s"

definition secret_key :: "string \<Rightarrow> bool" where
  "secret_key key \<longleftrightarrow> (let normalized = filter py_alnum (lower key) in list_ex (\<lambda>token. contains token normalized) secret_key_tokens)"

definition reject_secret_shaped_metadata :: "(string \<times> json) list \<Rightarrow> bool" where
  "reject_secret_shaped_metadata value \<longleftrightarrow>
     list_all (\<lambda>(key, item). \<not> secret_key key \<and> (case item of JStr s \<Rightarrow> \<not> secret_value s | _ \<Rightarrow> True)) value"

definition scalar :: "json \<Rightarrow> bool" where
  "scalar j \<longleftrightarrow> (case j of JList _ \<Rightarrow> False | JObj _ \<Rightarrow> False | _ \<Rightarrow> True)"

definition validate_identity_profile :: "device_enrollment_record \<Rightarrow> bool" where
  "validate_identity_profile r \<longleftrightarrow>
     starts_with (product_device_prefix (de_product_type r) @ '':'') (de_device_id r) \<and>
     de_supersedes_enrollment_id r \<noteq> Some (de_enrollment_id r) \<and>
     \<not> (de_auth_method r = X509 \<and> de_certificate_thumbprint_sha256 r = None) \<and>
     (de_auth_method r = TPM_Attestation \<longrightarrow>
        de_attestation_class r = Att_TPM2 \<and> de_key_custody r = Cust_TPM2 \<and> de_hardware_attested r) \<and>
     (if de_profile r = Virtual_Demo then de_key_custody r = Cust_Software_Demo \<and> \<not> de_hardware_attested r
      else de_key_custody r \<noteq> Cust_Software_Demo)"

definition optional_ok :: "('a \<Rightarrow> bool) \<Rightarrow> 'a option \<Rightarrow> bool" where
  "optional_ok ok x \<longleftrightarrow> (case x of None \<Rightarrow> True | Some v \<Rightarrow> ok v)"

definition enrollment_record_ok :: "device_enrollment_record \<Rightarrow> bool" where
  "enrollment_record_ok r \<longleftrightarrow>
     8 \<le> length (de_enrollment_id r) \<and> length (de_enrollment_id r) \<le> 128 \<and> validate_enrollment_id (de_enrollment_id r) \<and>
     12 \<le> length (de_device_id r) \<and> length (de_device_id r) \<le> 160 \<and> validate_device_id (de_device_id r) \<and>
     sha256_text (de_public_key_fingerprint_sha256 r) \<and> optional_ok sha256_text (de_certificate_thumbprint_sha256 r) \<and>
     scope_binding_ok (de_scope_binding r) \<and>
     optional_ok (\<lambda>s. 8 \<le> length s \<and> length s \<le> 128 \<and> validate_enrollment_id s) (de_supersedes_enrollment_id r) \<and>
     length (de_metadata r) \<le> 32 \<and> list_all (scalar \<circ> snd) (de_metadata r) \<and> distinct (map fst (de_metadata r)) \<and>
     reject_secret_shaped_metadata (de_metadata r) \<and> validate_identity_profile r"

definition DeviceEnrollmentRecord :: "device_enrollment_record \<Rightarrow> device_enrollment_record result" where
  "DeviceEnrollmentRecord r = (if enrollment_record_ok r then Inr r else Inl (ValidationError ''DeviceEnrollmentRecord''))"

fun state_denial_reason :: "registration_state \<Rightarrow> authorization_reason option" where
  "state_denial_reason Pending = Some Is_Pending"
| "state_denial_reason Quarantined = Some Is_Quarantined"
| "state_denial_reason Revoked = Some Is_Revoked"
| "state_denial_reason Decommissioned = Some Is_Decommissioned"
| "state_denial_reason Enrolled = None"

fun state_text :: "registration_state \<Rightarrow> string" where
  "state_text Pending = ''pending''"
| "state_text Enrolled = ''enrolled''"
| "state_text Quarantined = ''quarantined''"
| "state_text Revoked = ''revoked''"
| "state_text Decommissioned = ''decommissioned''"

section \<open>Store\<close>

record fleet_state =
  fs_enrollments :: "string \<rightharpoonup> device_enrollment_record"
  fs_current :: "(string \<times> string) list"
  fs_identity_owner :: "string \<rightharpoonup> string"
  fs_rotations :: "string \<rightharpoonup> rotation_window"

definition fleet_init :: fleet_state where
  "fleet_init = \<lparr> fs_enrollments = Map.empty, fs_current = [], fs_identity_owner = Map.empty, fs_rotations = Map.empty \<rparr>"

definition put_enrollment :: "device_enrollment_record \<Rightarrow> (fleet_state, unit) action" where
  "put_enrollment r = awrite (\<lambda>s. s \<lparr> fs_enrollments := (fs_enrollments s)(de_enrollment_id r \<mapsto> r) \<rparr>)"

definition set_current_enrollment_id :: "string \<Rightarrow> string \<Rightarrow> (fleet_state, unit) action" where
  "set_current_enrollment_id device_id enrollment_id =
     awrite (\<lambda>s. s \<lparr> fs_current := AList.update device_id enrollment_id (fs_current s) \<rparr>)"

definition list_current_enrollments :: "fleet_state \<Rightarrow> device_enrollment_record list" where
  "list_current_enrollments s =
     sort_key de_device_id (List.map_filter (\<lambda>(_, enrollment_id). fs_enrollments s enrollment_id) (fs_current s))"

definition set_public_identity_owner :: "string \<Rightarrow> string \<Rightarrow> (fleet_state, unit) action" where
  "set_public_identity_owner fingerprint device_id =
     awrite (\<lambda>s. s \<lparr> fs_identity_owner := (fs_identity_owner s)(fingerprint \<mapsto> device_id) \<rparr>)"

definition set_rotation :: "rotation_window \<Rightarrow> (fleet_state, unit) action" where
  "set_rotation w = awrite (\<lambda>s. s \<lparr> fs_rotations := (fs_rotations s)(rw_device_id w \<mapsto> w) \<rparr>)"

definition clear_rotation :: "string \<Rightarrow> (fleet_state, unit) action" where
  "clear_rotation device_id = awrite (\<lambda>s. s \<lparr> fs_rotations := (fs_rotations s)(device_id := None) \<rparr>)"

section \<open>Service\<close>

record fleet_service =
  fv_validate :: "device_enrollment_record \<Rightarrow> utc \<Rightarrow> unit result"
  fv_max_rotation_overlap :: int

definition DeviceEnrollmentService :: "fleet_service \<Rightarrow> fleet_service result" where
  "DeviceEnrollmentService sv =
     rbind (rcheck (0 \<le> fv_max_rotation_overlap sv) (ValueError ''rotation overlap cannot be negative'')) (\<lambda>_. Inr sv)"

fun allowed_transitions :: "registration_state \<Rightarrow> registration_state list" where
  "allowed_transitions Pending = [Enrolled]"
| "allowed_transitions Enrolled = [Quarantined, Revoked]"
| "allowed_transitions Quarantined = [Enrolled, Revoked]"
| "allowed_transitions Revoked = [Decommissioned]"
| "allowed_transitions Decommissioned = []"

definition current_record :: "string \<Rightarrow> fleet_state \<Rightarrow> device_enrollment_record option" where
  "current_record device_id s =
     (case map_of (fs_current s) device_id of None \<Rightarrow> None | Some enrollment_id \<Rightarrow> fs_enrollments s enrollment_id)"

definition require_record :: "string \<Rightarrow> (fleet_state, device_enrollment_record) action" where
  "require_record enrollment_id = aread (\<lambda>s. rget
     (EnrollmentValidationError ''enrollment_not_found'' (''unknown enrollment: '' @ enrollment_id)) (fs_enrollments s enrollment_id))"

definition with_state :: "device_enrollment_record \<Rightarrow> registration_state \<Rightarrow> utc \<Rightarrow> device_enrollment_record" where
  "with_state r state now = r \<lparr> de_registration_state := state, de_updated_at_utc := Some now \<rparr>"

definition same_boundary :: "device_enrollment_record \<Rightarrow> device_enrollment_record \<Rightarrow> bool" where
  "same_boundary replacement current \<longleftrightarrow>
     de_device_id replacement = de_device_id current \<and> de_product_type replacement = de_product_type current \<and>
     de_profile replacement = de_profile current \<and> de_auth_method replacement = de_auth_method current \<and>
     de_scope_binding replacement = de_scope_binding current \<and> de_key_custody replacement = de_key_custody current \<and>
     de_hardware_attested replacement = de_hardware_attested current \<and>
     de_attestation_class replacement = de_attestation_class current"

definition validate_replacement :: "device_enrollment_record \<Rightarrow> device_enrollment_record \<Rightarrow> unit result" where
  "validate_replacement replacement current =
     (if \<not> same_boundary replacement current
      then Inl (EnrollmentValidationError ''rotation_replacement_invalid''
             ''rotation cannot change device identity, scope, profile, or trust class'')
      else if de_supersedes_enrollment_id replacement \<noteq> Some (de_enrollment_id current)
      then Inl (EnrollmentValidationError ''device_identity_conflict'' ''existing device requires an explicit superseding enrollment'')
      else if de_public_key_fingerprint_sha256 replacement = de_public_key_fingerprint_sha256 current
      then Inl (EnrollmentValidationError ''rotation_replacement_invalid'' ''rotation requires a new public identity'')
      else Inr ())"

definition validate_external_identity :: "fleet_service \<Rightarrow> device_enrollment_record \<Rightarrow> utc \<Rightarrow> unit result" where
  "validate_external_identity sv r now =
     (case fv_validate sv r now of
        Inr _ \<Rightarrow> Inr ()
      | Inl (EnrollmentValidationError c m) \<Rightarrow> Inl (EnrollmentValidationError c m)
      | Inl _ \<Rightarrow> Inl (EnrollmentValidationError ''identity_validation_failed'' ''external enrollment identity validation failed''))"

definition require_pending_and_usable :: "device_enrollment_record \<Rightarrow> utc \<Rightarrow> unit result" where
  "require_pending_and_usable r now =
     (if de_registration_state r \<noteq> Pending
      then Inl (EnrollmentValidationError ''invalid_lifecycle_transition'' ''enrollment must be pending before activation'')
      else if de_auth_method r = X509 then
        (case de_certificate_not_after_utc r of
           None \<Rightarrow> Inl (EnrollmentValidationError ''certificate_expiry_required'' ''x509 activation requires certificate_not_after_utc'')
         | Some not_after \<Rightarrow>
             rcheck (now < not_after) (EnrollmentValidationError ''certificate_expired'' ''x509 certificate is expired''))
      else Inr ())"

definition submit ::
  "fleet_service \<Rightarrow> device_enrollment_record \<Rightarrow> scope_binding \<Rightarrow> datetime \<Rightarrow> (fleet_state, device_enrollment_record) action" where
  "submit sv r authoritative_scope now =
     abind (alift (normalize_time now)) (\<lambda>current_time.
     abind (aread (\<lambda>s. case fs_enrollments s (de_enrollment_id r) of None \<Rightarrow> Inr ()
        | Some existing \<Rightarrow> Inl (EnrollmentValidationError
            (if existing = r then ''replayed_enrollment_id'' else ''enrollment_id_conflict'')
            ''enrollment identifier is already retained''))) (\<lambda>_.
     abind (acheck (de_scope_binding r = authoritative_scope)
       (EnrollmentValidationError ''server_scope_mismatch'' ''caller scope is not authoritative'')) (\<lambda>_.
     abind (aread (\<lambda>s. case fs_identity_owner s (de_public_key_fingerprint_sha256 r) of None \<Rightarrow> Inr ()
        | Some owner \<Rightarrow> rcheck (owner = de_device_id r)
            (EnrollmentValidationError ''public_identity_conflict'' ''public identity is already bound to another device''))) (\<lambda>_.
     abind (aread (\<lambda>s. Inr (current_record (de_device_id r) s))) (\<lambda>current.
     abind (aread (\<lambda>s. case current of None \<Rightarrow> Inr ()
        | Some c \<Rightarrow> rbind (rcheck (fs_rotations s (de_device_id r) = None)
            (EnrollmentValidationError ''rotation_in_progress'' ''rotation is already in progress'')) (\<lambda>_.
            validate_replacement r c))) (\<lambda>_.
     abind (alift (validate_external_identity sv r current_time)) (\<lambda>_.
     abind (put_enrollment r) (\<lambda>_.
     abind (set_public_identity_owner (de_public_key_fingerprint_sha256 r) (de_device_id r)) (\<lambda>_.
     abind (if current = None then set_current_enrollment_id (de_device_id r) (de_enrollment_id r) else alift (Inr ())) (\<lambda>_.
     alift (Inr r)))))))))))"

definition activate :: "string \<Rightarrow> datetime \<Rightarrow> (fleet_state, device_enrollment_record) action" where
  "activate enrollment_id now =
     abind (alift (normalize_time now)) (\<lambda>current_time.
     abind (require_record enrollment_id) (\<lambda>r.
     abind (alift (require_pending_and_usable r current_time)) (\<lambda>_.
     let activated = with_state r Enrolled current_time in
     abind (put_enrollment activated) (\<lambda>_.
     abind (if de_supersedes_enrollment_id r = None then set_current_enrollment_id (de_device_id r) (de_enrollment_id r)
            else alift (Inr ())) (\<lambda>_.
     alift (Inr activated))))))"

definition transition :: "string \<Rightarrow> registration_state \<Rightarrow> datetime \<Rightarrow> (fleet_state, device_enrollment_record) action" where
  "transition enrollment_id target now =
     abind (alift (normalize_time now)) (\<lambda>current_time.
     abind (require_record enrollment_id) (\<lambda>r.
     abind (acheck (target \<in> set (allowed_transitions (de_registration_state r)))
       (EnrollmentValidationError ''invalid_lifecycle_transition''
         (''cannot transition '' @ state_text (de_registration_state r) @ '' to '' @ state_text target))) (\<lambda>_.
     let updated = with_state r target current_time in
     abind (put_enrollment updated) (\<lambda>_. alift (Inr updated)))))"

definition begin_rotation :: "fleet_service \<Rightarrow> string \<Rightarrow> datetime \<Rightarrow> datetime \<Rightarrow> (fleet_state, rotation_window) action" where
  "begin_rotation sv replacement_enrollment_id overlap_expires_at_utc now =
     abind (alift (normalize_time now)) (\<lambda>current_time.
     abind (alift (normalize_time overlap_expires_at_utc)) (\<lambda>overlap_end.
     let overlap = overlap_end - current_time in
     abind (acheck (\<not> (overlap < 0 \<or> fv_max_rotation_overlap sv < overlap))
       (EnrollmentValidationError ''rotation_overlap_invalid'' ''rotation overlap exceeds policy'')) (\<lambda>_.
     abind (require_record replacement_enrollment_id) (\<lambda>replacement.
     abind (aread (\<lambda>s. rget (EnrollmentValidationError ''enrollment_not_found'' ''device has no current enrollment'')
        (current_record (de_device_id replacement) s))) (\<lambda>current.
     abind (acheck (de_registration_state current = Enrolled)
       (EnrollmentValidationError ''invalid_lifecycle_transition'' ''only an enrolled device may rotate credentials'')) (\<lambda>_.
     abind (aread (\<lambda>s. rcheck (fs_rotations s (de_device_id replacement) = None)
       (EnrollmentValidationError ''rotation_in_progress'' ''rotation is already in progress''))) (\<lambda>_.
     abind (alift (validate_replacement replacement current)) (\<lambda>_.
     abind (activate (de_enrollment_id replacement) (Aware current_time 0)) (\<lambda>_.
     let window = \<lparr> rw_device_id = de_device_id replacement, rw_old_enrollment_id = de_enrollment_id current,
           rw_new_enrollment_id = de_enrollment_id replacement, rw_overlap_expires_at_utc = overlap_end \<rparr> in
     abind (set_current_enrollment_id (de_device_id replacement) (de_enrollment_id replacement)) (\<lambda>_.
     abind (set_rotation window) (\<lambda>_. alift (Inr window))))))))))))"

definition complete_rotation :: "string \<Rightarrow> datetime \<Rightarrow> (fleet_state, device_enrollment_record) action" where
  "complete_rotation device_id now =
     abind (alift (normalize_time now)) (\<lambda>current_time.
     abind (aread (\<lambda>s. rget (EnrollmentValidationError ''rotation_not_found'' ''no rotation is in progress'')
        (fs_rotations s device_id))) (\<lambda>rotation.
     abind (require_record (rw_old_enrollment_id rotation)) (\<lambda>old.
     let revoked = (if de_registration_state old \<noteq> Revoked then with_state old Revoked current_time else old) in
     abind (if de_registration_state old \<noteq> Revoked then put_enrollment revoked else alift (Inr ())) (\<lambda>_.
     abind (clear_rotation device_id) (\<lambda>_. alift (Inr revoked))))))"

definition deny :: "string \<Rightarrow> authorization_reason \<Rightarrow> authorization_decision" where
  "deny device_id reason = \<lparr> ad_allowed = False, ad_reason = reason, ad_device_id = device_id,
     ad_enrollment_id = None, ad_registration_state = None \<rparr>"

definition deny_record :: "device_enrollment_record \<Rightarrow> authorization_reason \<Rightarrow> authorization_decision" where
  "deny_record r reason = \<lparr> ad_allowed = False, ad_reason = reason, ad_device_id = de_device_id r,
     ad_enrollment_id = Some (de_enrollment_id r), ad_registration_state = Some (de_registration_state r) \<rparr>"

definition authorize_record :: "device_enrollment_record \<Rightarrow> utc \<Rightarrow> authorization_decision" where
  "authorize_record r now =
     (case state_denial_reason (de_registration_state r) of
        Some reason \<Rightarrow> deny_record r reason
      | None \<Rightarrow>
          if de_auth_method r = X509 \<and> (case de_certificate_not_after_utc r of None \<Rightarrow> False | Some not_after \<Rightarrow> not_after \<le> now)
          then deny_record r Credential_Expired
          else \<lparr> ad_allowed = True, ad_reason = Authorized, ad_device_id = de_device_id r,
                 ad_enrollment_id = Some (de_enrollment_id r), ad_registration_state = Some (de_registration_state r) \<rparr>)"

definition authorize ::
  "string \<Rightarrow> string \<Rightarrow> string \<Rightarrow> string \<Rightarrow> datetime \<Rightarrow> (fleet_state, authorization_decision) action" where
  "authorize device_id public_key_fingerprint_sha256 tenant_id workspace_id now =
     abind (alift (normalize_time now)) (\<lambda>current_time.
     abind (alift (validate_sha256 public_key_fingerprint_sha256)) (\<lambda>fingerprint.
     aread (\<lambda>s. case current_record device_id s of
         None \<Rightarrow> Inr (deny device_id Unknown_Device)
       | Some current \<Rightarrow>
           let requested_scope = \<lparr> sb_tenant_id = tenant_id, sb_workspace_id = workspace_id \<rparr> in
           if \<not> scope_binding_ok requested_scope then Inl (ValidationError ''ScopeBinding'')
           else if requested_scope \<noteq> de_scope_binding current then Inr (deny_record current Scope_Mismatch)
           else if fingerprint = de_public_key_fingerprint_sha256 current then Inr (authorize_record current current_time)
           else (case fs_rotations s device_id of
              None \<Rightarrow> Inr (deny_record current Credential_Mismatch)
            | Some rotation \<Rightarrow> (case fs_enrollments s (rw_old_enrollment_id rotation) of
                None \<Rightarrow> Inl (EnrollmentValidationError ''enrollment_not_found'' (''unknown enrollment: '' @ rw_old_enrollment_id rotation))
              | Some old \<Rightarrow>
                  if fingerprint \<noteq> de_public_key_fingerprint_sha256 old then Inr (deny_record current Credential_Mismatch)
                  else if rw_overlap_expires_at_utc rotation < current_time then Inr (deny_record old Superseded_Credential)
                  else Inr (authorize_record old current_time))))))"

section \<open>Commands and reachable states\<close>

datatype fleet_command =
    Submit device_enrollment_record scope_binding datetime
  | Activate string datetime
  | Transition string registration_state datetime
  | Begin_Rotation string datetime datetime
  | Complete_Rotation string datetime

definition discard :: "('s, 'a) action \<Rightarrow> ('s, unit) action" where
  "discard m = abind m (\<lambda>_. alift (Inr ()))"

fun fleet_do :: "fleet_service \<Rightarrow> fleet_command \<Rightarrow> (fleet_state, unit) action" where
  "fleet_do sv (Submit r scope now) = abind (alift (DeviceEnrollmentRecord r)) (\<lambda>r. discard (submit sv r scope now))"
| "fleet_do sv (Activate i now) = discard (activate i now)"
| "fleet_do sv (Transition i target now) = discard (transition i target now)"
| "fleet_do sv (Begin_Rotation i until now) = discard (begin_rotation sv i until now)"
| "fleet_do sv (Complete_Rotation d now) = discard (complete_rotation d now)"

definition fleet_run :: "fleet_service \<Rightarrow> fleet_command \<Rightarrow> fleet_state \<Rightarrow> fleet_state" where
  "fleet_run sv cmd s = snd (fleet_do sv cmd s)"

inductive fleet_reachable :: "fleet_service \<Rightarrow> fleet_state \<Rightarrow> bool" for sv where
  init: "fleet_reachable sv fleet_init"
| run: "fleet_reachable sv s \<Longrightarrow> fleet_reachable sv (fleet_run sv cmd s)"

section \<open>What each operation does\<close>

text \<open>The effects of the operations, as steps on the store.\<close>

inductive fleet_step :: "fleet_service \<Rightarrow> fleet_state \<Rightarrow> fleet_state \<Rightarrow> bool" for sv where
  submitted: "\<lbrakk>enrollment_record_ok r; fs_enrollments s (de_enrollment_id r) = None;
    fs_identity_owner s (de_public_key_fingerprint_sha256 r) \<in> {None, Some (de_device_id r)};
    s' = s \<lparr> fs_enrollments := (fs_enrollments s)(de_enrollment_id r \<mapsto> r),
      fs_identity_owner := (fs_identity_owner s)(de_public_key_fingerprint_sha256 r \<mapsto> de_device_id r),
      fs_current := (if current_record (de_device_id r) s = None
        then AList.update (de_device_id r) (de_enrollment_id r) (fs_current s) else fs_current s) \<rparr>\<rbrakk> \<Longrightarrow> fleet_step sv s s'"
| activated: "\<lbrakk>fs_enrollments s i = Some r; require_pending_and_usable r now = Inr ();
    s' = s \<lparr> fs_enrollments := (fs_enrollments s)(de_enrollment_id r \<mapsto> with_state r Enrolled now),
      fs_current := (if de_supersedes_enrollment_id r = None
        then AList.update (de_device_id r) (de_enrollment_id r) (fs_current s) else fs_current s) \<rparr>\<rbrakk> \<Longrightarrow> fleet_step sv s s'"
| moved: "\<lbrakk>fs_enrollments s i = Some r; target \<in> set (allowed_transitions (de_registration_state r));
    s' = s \<lparr> fs_enrollments := (fs_enrollments s)(de_enrollment_id r \<mapsto> with_state r target now) \<rparr>\<rbrakk> \<Longrightarrow> fleet_step sv s s'"
| rotated: "\<lbrakk>fs_enrollments s i = Some r; current_record (de_device_id r) s = Some c; de_registration_state c = Enrolled;
    fs_rotations s (de_device_id r) = None; validate_replacement r c = Inr (); require_pending_and_usable r now = Inr ();
    now \<le> until; until \<le> now + fv_max_rotation_overlap sv;
    s' = s \<lparr> fs_enrollments := (fs_enrollments s)(de_enrollment_id r \<mapsto> with_state r Enrolled now),
      fs_current := AList.update (de_device_id r) (de_enrollment_id r) (fs_current s),
      fs_rotations := (fs_rotations s)(de_device_id r \<mapsto> \<lparr> rw_device_id = de_device_id r,
        rw_old_enrollment_id = de_enrollment_id c, rw_new_enrollment_id = de_enrollment_id r,
        rw_overlap_expires_at_utc = until \<rparr>) \<rparr>\<rbrakk> \<Longrightarrow> fleet_step sv s s'"
| completed: "\<lbrakk>fs_rotations s d = Some w; fs_enrollments s (rw_old_enrollment_id w) = Some r;
    s' = s \<lparr> fs_enrollments := (if de_registration_state r \<noteq> Revoked
        then (fs_enrollments s)(de_enrollment_id r \<mapsto> with_state r Revoked now) else fs_enrollments s),
      fs_rotations := (fs_rotations s)(d := None) \<rparr>\<rbrakk> \<Longrightarrow> fleet_step sv s s'"

lemma same_field [simp]: "fs_current t = c \<Longrightarrow> t \<lparr> fs_current := c \<rparr> = t"
  "fs_enrollments t = e \<Longrightarrow> t \<lparr> fs_enrollments := e \<rparr> = t"
  by (cases t; simp)+

lemma submit_effect:
  assumes "enrollment_record_ok r"
  shows "atomically s (\<lambda>_. fleet_step sv s) (submit sv r scope now s)"
  unfolding submit_def put_enrollment_def set_public_identity_owner_def set_current_enrollment_id_def
proof (intro atomically_reads)
  fix current and u v w :: unit
  assume free: "(case fs_enrollments s (de_enrollment_id r) of None \<Rightarrow> Inr () | Some existing \<Rightarrow>
      Inl (EnrollmentValidationError (if existing = r then ''replayed_enrollment_id'' else ''enrollment_id_conflict'')
        ''enrollment identifier is already retained'')) = Inr u"
    and owner: "(case fs_identity_owner s (de_public_key_fingerprint_sha256 r) of None \<Rightarrow> Inr ()
      | Some owner \<Rightarrow> rcheck (owner = de_device_id r)
        (EnrollmentValidationError ''public_identity_conflict'' ''public identity is already bound to another device'')) = Inr v"
    and current: "Inr (current_record (de_device_id r) s) = (Inr current :: _ result)"
  have "fs_enrollments s (de_enrollment_id r) = None" using free by (cases "fs_enrollments s (de_enrollment_id r)") auto
  moreover have "fs_identity_owner s (de_public_key_fingerprint_sha256 r) \<in> {None, Some (de_device_id r)}"
    using owner by (cases "fs_identity_owner s (de_public_key_fingerprint_sha256 r)") auto
  ultimately show "atomically s (\<lambda>_. fleet_step sv s)
      (abind (awrite (\<lambda>s. s \<lparr> fs_enrollments := (fs_enrollments s)(de_enrollment_id r \<mapsto> r) \<rparr>)) (\<lambda>_.
       abind (awrite (\<lambda>s. s \<lparr> fs_identity_owner := (fs_identity_owner s)(de_public_key_fingerprint_sha256 r \<mapsto> de_device_id r) \<rparr>)) (\<lambda>_.
       abind (if current = None then awrite (\<lambda>s. s \<lparr> fs_current := AList.update (de_device_id r) (de_enrollment_id r) (fs_current s) \<rparr>)
              else alift (Inr ())) (\<lambda>_. alift (Inr r)))) s)"
    using fleet_step.submitted [OF assms _ _ refl, of s sv] current
    by (cases current) (auto simp: action_simps atomically_def)
qed

lemma require_record_atomically:
  "(\<And>r. fs_enrollments s i = Some r \<Longrightarrow> atomically s Q (f r s)) \<Longrightarrow> atomically s Q (abind (require_record i) f s)"
  unfolding require_record_def by (rule atomically_aread) simp

lemmas fleet_reads = atomically_reads require_record_atomically

lemma activate_effect:
  "atomically s (\<lambda>a s'. \<exists>r t. fs_enrollments s i = Some r \<and> normalize_time now = Inr t \<and> require_pending_and_usable r t = Inr () \<and>
     a = with_state r Enrolled t \<and>
     s' = s \<lparr> fs_enrollments := (fs_enrollments s)(de_enrollment_id r \<mapsto> with_state r Enrolled t),
      fs_current := (if de_supersedes_enrollment_id r = None
        then AList.update (de_device_id r) (de_enrollment_id r) (fs_current s) else fs_current s) \<rparr>) (activate i now s)"
  unfolding activate_def put_enrollment_def set_current_enrollment_id_def Let_def
  by (intro fleet_reads) (auto simp: action_simps atomically_def with_state_def)

lemma transition_effect: "atomically s (\<lambda>_. fleet_step sv s) (transition i target now s)"
  unfolding transition_def put_enrollment_def Let_def
  by (intro fleet_reads) (auto simp: action_simps atomically_def with_state_def intro!: fleet_step.moved)

lemma complete_rotation_effect: "atomically s (\<lambda>_. fleet_step sv s) (complete_rotation d now s)"
  unfolding complete_rotation_def put_enrollment_def clear_rotation_def Let_def
proof (intro fleet_reads)
  fix t w r
  assume "rget (EnrollmentValidationError ''rotation_not_found'' ''no rotation is in progress'') (fs_rotations s d) = Inr w"
    and r: "fs_enrollments s (rw_old_enrollment_id w) = Some r"
  then have w: "fs_rotations s d = Some w" by simp
  let ?rest = "abind (awrite (\<lambda>s. s \<lparr> fs_rotations := (fs_rotations s)(d := None) \<rparr>))
      (\<lambda>_. alift (Inr (if de_registration_state r \<noteq> Revoked then with_state r Revoked t else r)))"
  show "atomically s (\<lambda>_. fleet_step sv s)
      (abind (if de_registration_state r \<noteq> Revoked
              then awrite (\<lambda>s. s \<lparr> fs_enrollments := (fs_enrollments s)
                (de_enrollment_id (if de_registration_state r \<noteq> Revoked then with_state r Revoked t else r) \<mapsto>
                 (if de_registration_state r \<noteq> Revoked then with_state r Revoked t else r)) \<rparr>)
              else alift (Inr ())) (\<lambda>_. ?rest) s)"
    using fleet_step.completed [OF w r refl, of sv t]
    by (cases "de_registration_state r = Revoked") (simp_all add: action_simps atomically_def with_state_def)
qed

text \<open>Enrollments are kept under their own identifier.\<close>

definition keyed :: "fleet_state \<Rightarrow> bool" where
  "keyed s \<longleftrightarrow> (\<forall>i r. fs_enrollments s i = Some r \<longrightarrow> de_enrollment_id r = i)"

lemma begin_rotation_effect:
  assumes "keyed s"
  shows "atomically s (\<lambda>_. fleet_step sv s) (begin_rotation sv i until now s)"
  unfolding begin_rotation_def Let_def
proof (intro fleet_reads)
  fix t until' r c and u u' :: unit
  assume ok: "\<not> (until' - t < 0 \<or> fv_max_rotation_overlap sv < until' - t)" and r: "fs_enrollments s i = Some r"
    and "rget (EnrollmentValidationError ''enrollment_not_found'' ''device has no current enrollment'')
      (current_record (de_device_id r) s) = Inr c"
    and c: "de_registration_state c = Enrolled"
    and "rcheck (fs_rotations s (de_device_id r) = None)
      (EnrollmentValidationError ''rotation_in_progress'' ''rotation is already in progress'') = Inr u"
    and rep: "validate_replacement r c = Inr u'"
  then have pre: "current_record (de_device_id r) s = Some c" "fs_rotations s (de_device_id r) = None" by simp_all
  let ?w = "\<lparr> rw_device_id = de_device_id r, rw_old_enrollment_id = de_enrollment_id c,
    rw_new_enrollment_id = de_enrollment_id r, rw_overlap_expires_at_utc = until' \<rparr>"
  have rep': "validate_replacement r c = Inr ()" using rep by simp
  have sup: "de_supersedes_enrollment_id r = Some (de_enrollment_id c)"
    using rep by (simp add: validate_replacement_def split: if_splits)
  show "atomically s (\<lambda>_. fleet_step sv s) (abind (activate (de_enrollment_id r) (Aware t 0)) (\<lambda>_.
      abind (set_current_enrollment_id (de_device_id r) (de_enrollment_id r)) (\<lambda>_.
      abind (set_rotation ?w) (\<lambda>_. alift (Inr ?w)))) s)"
  proof (rule atomicallyE [OF activate_effect [of s "de_enrollment_id r" "Aware t 0"]])
    fix e
    assume "activate (de_enrollment_id r) (Aware t 0) s = (Inl e, s)"
    then show ?thesis by (simp add: atomically_def)
  next
    fix a s1
    assume act: "activate (de_enrollment_id r) (Aware t 0) s = (Inr a, s1)"
      and "\<exists>q u. fs_enrollments s (de_enrollment_id r) = Some q \<and> normalize_time (Aware t 0) = Inr u \<and>
        require_pending_and_usable q u = Inr () \<and> a = with_state q Enrolled u \<and>
        s1 = s \<lparr> fs_enrollments := (fs_enrollments s)(de_enrollment_id q \<mapsto> with_state q Enrolled u),
          fs_current := (if de_supersedes_enrollment_id q = None
            then AList.update (de_device_id q) (de_enrollment_id q) (fs_current s) else fs_current s) \<rparr>"
    then have usable: "require_pending_and_usable r t = Inr ()"
      and s1: "s1 = s \<lparr> fs_enrollments := (fs_enrollments s)(de_enrollment_id r \<mapsto> with_state r Enrolled t) \<rparr>"
      using assms r sup by (auto simp: keyed_def normalize_time_def)
    have "fleet_step sv s (s \<lparr> fs_enrollments := (fs_enrollments s)(de_enrollment_id r \<mapsto> with_state r Enrolled t),
        fs_current := AList.update (de_device_id r) (de_enrollment_id r) (fs_current s),
        fs_rotations := (fs_rotations s)(de_device_id r \<mapsto> ?w) \<rparr>)"
      using ok by (intro fleet_step.rotated [OF r pre(1) c pre(2) rep' usable _ _ refl]) auto
    then show ?thesis
      by (simp add: abind_Inr [of "activate (de_enrollment_id r) (Aware t 0)" s a s1, OF act] set_current_enrollment_id_def set_rotation_def action_simps atomically_def s1)
  qed
qed


lemma atomically_discard: "atomically s (\<lambda>_. P) (m s) \<Longrightarrow> atomically s (\<lambda>_. P) (discard m s)"
  by (cases "m s"; cases "fst (m s)") (auto simp: discard_def atomically_def alift_def)

lemma activate_step: "atomically s (\<lambda>_. fleet_step sv s) (activate i now s)"
  by (rule atomicallyE [OF activate_effect [of s i now]]) (auto simp: atomically_def intro!: fleet_step.activated)

lemma fleet_do_effect:
  assumes "keyed s"
  shows "atomically s (\<lambda>_. fleet_step sv s) (fleet_do sv cmd s)"
proof (cases cmd)
  case (Submit r scope now)
  then show ?thesis
    by (auto simp: DeviceEnrollmentRecord_def atomically_def [of _ _ "(Inl _, _)"] abind_alift intro!: atomically_discard submit_effect)
qed (auto intro!: atomically_discard activate_step transition_effect begin_rotation_effect complete_rotation_effect assms)

lemma fleet_run_step: "keyed s \<Longrightarrow> fleet_run sv cmd s = s \<or> fleet_step sv s (fleet_run sv cmd s)"
  by (rule atomicallyE [OF fleet_do_effect [of s sv cmd]]) (auto simp: fleet_run_def)

section \<open>Invariant\<close>

definition fleet_inv :: "fleet_state \<Rightarrow> bool" where
  "fleet_inv s \<longleftrightarrow> keyed s \<and>
     (\<forall>d i. map_of (fs_current s) d = Some i \<longrightarrow> (\<exists>r. fs_enrollments s i = Some r \<and> de_device_id r = d)) \<and>
     (\<forall>i r. fs_enrollments s i = Some r \<longrightarrow> fs_identity_owner s (de_public_key_fingerprint_sha256 r) = Some (de_device_id r)) \<and>
     (\<forall>d w. fs_rotations s d = Some w \<longrightarrow> (\<exists>r. fs_enrollments s (rw_old_enrollment_id w) = Some r \<and> de_device_id r = d))"

lemma with_state_fields [simp]:
  "de_enrollment_id (with_state r st t) = de_enrollment_id r" "de_device_id (with_state r st t) = de_device_id r"
  "de_public_key_fingerprint_sha256 (with_state r st t) = de_public_key_fingerprint_sha256 r"
  "de_registration_state (with_state r st t) = st" "de_scope_binding (with_state r st t) = de_scope_binding r"
  by (simp_all add: with_state_def)

lemma fleet_invD:
  assumes "fleet_inv s"
  shows "fs_enrollments s i = Some r \<Longrightarrow> de_enrollment_id r = i"
    "fs_enrollments s i = Some r \<Longrightarrow> fs_identity_owner s (de_public_key_fingerprint_sha256 r) = Some (de_device_id r)"
    "map_of (fs_current s) d = Some i \<Longrightarrow> \<exists>r. fs_enrollments s i = Some r \<and> de_device_id r = d"
    "fs_rotations s d = Some w \<Longrightarrow> \<exists>r. fs_enrollments s (rw_old_enrollment_id w) = Some r \<and> de_device_id r = d"
  using assms by (auto simp: fleet_inv_def keyed_def)

lemma current_record_device:
  assumes "fleet_inv s" "current_record d s = Some r"
  shows "de_device_id r = d" "fs_enrollments s (de_enrollment_id r) = Some r"
proof -
  obtain i where "map_of (fs_current s) d = Some i" "fs_enrollments s i = Some r"
    using assms(2) by (auto simp: current_record_def split: option.splits)
  then show "de_device_id r = d" "fs_enrollments s (de_enrollment_id r) = Some r"
    using fleet_invD(1,3) [OF assms(1)] by fastforce+
qed

lemma inv_put [ets_inv]:
  assumes "fleet_inv s" "fs_enrollments s i = Some r"
  shows "fleet_inv (s \<lparr> fs_enrollments := (fs_enrollments s)(de_enrollment_id r \<mapsto> with_state r st t) \<rparr>)"
proof -
  note d = fleet_invD [OF assms(1)]
  define E where "E = (fs_enrollments s)(de_enrollment_id r \<mapsto> with_state r st t)"
  have fwd: "\<exists>q. fs_enrollments s k = Some q \<and> de_device_id q = de_device_id q' \<and>
      de_public_key_fingerprint_sha256 q = de_public_key_fingerprint_sha256 q' \<and> de_enrollment_id q' = k" if "E k = Some q'" for k q'
    using that d(1) assms(2) by (auto simp: E_def split: if_split_asm)
  have bwd: "\<exists>q'. E k = Some q' \<and> de_device_id q' = dv" if "\<exists>q. fs_enrollments s k = Some q \<and> de_device_id q = dv" for k dv
    using that d(1) [OF assms(2)] assms(2) by (cases "k = de_enrollment_id r") (auto simp: E_def)
  show ?thesis
    unfolding fleet_inv_def keyed_def E_def [symmetric]
  proof (intro conjI allI impI)
    fix k q
    assume "fs_enrollments (s \<lparr> fs_enrollments := E \<rparr>) k = Some q"
    then have "E k = Some q" by simp
    from fwd [OF this] show "de_enrollment_id q = k"
      "fs_identity_owner (s \<lparr> fs_enrollments := E \<rparr>) (de_public_key_fingerprint_sha256 q) = Some (de_device_id q)"
      using d(2) by fastforce+
  next
    fix dv k
    assume "map_of (fs_current (s \<lparr> fs_enrollments := E \<rparr>)) dv = Some k"
    then show "\<exists>r. fs_enrollments (s \<lparr> fs_enrollments := E \<rparr>) k = Some r \<and> de_device_id r = dv" using bwd d(3) by simp
  next
    fix dv w
    assume "fs_rotations (s \<lparr> fs_enrollments := E \<rparr>) dv = Some w"
    then show "\<exists>r. fs_enrollments (s \<lparr> fs_enrollments := E \<rparr>) (rw_old_enrollment_id w) = Some r \<and> de_device_id r = dv"
      using bwd d(4) by simp
  qed
qed

lemma inv_current [ets_inv]:
  assumes "fleet_inv s" "fs_enrollments s (de_enrollment_id r) = Some q" "de_device_id q = de_device_id r"
  shows "fleet_inv (s \<lparr> fs_current := AList.update (de_device_id r) (de_enrollment_id r) (fs_current s) \<rparr>)"
  using assms by (simp add: fleet_inv_def keyed_def AList.update_conv')

lemma inv_rotation [ets_inv]:
  assumes "fleet_inv s" "fs_enrollments s (rw_old_enrollment_id w) = Some r" "de_device_id r = d"
  shows "fleet_inv (s \<lparr> fs_rotations := (fs_rotations s)(d \<mapsto> w) \<rparr>)"
  using assms by (simp add: fleet_inv_def keyed_def)

lemma inv_clear [ets_inv]: "fleet_inv s \<Longrightarrow> fleet_inv (s \<lparr> fs_rotations := (fs_rotations s)(d := None) \<rparr>)"
  by (simp add: fleet_inv_def keyed_def)

lemma inv_submit [ets_inv]:
  assumes "fleet_inv s" "fs_enrollments s (de_enrollment_id r) = None"
    "fs_identity_owner s (de_public_key_fingerprint_sha256 r) \<in> {None, Some (de_device_id r)}"
  shows "fleet_inv (s \<lparr> fs_enrollments := (fs_enrollments s)(de_enrollment_id r \<mapsto> r),
    fs_identity_owner := (fs_identity_owner s)(de_public_key_fingerprint_sha256 r \<mapsto> de_device_id r) \<rparr>)"
proof -
  let ?f = "de_public_key_fingerprint_sha256 r"
  note d = fleet_invD [OF assms(1)]
  have fresh: "i \<noteq> de_enrollment_id r" if "fs_enrollments s i = Some q" for i q using that assms(2) by auto
  have owner: "((fs_identity_owner s)(?f \<mapsto> de_device_id r)) (de_public_key_fingerprint_sha256 q) = Some (de_device_id q)"
    if "fs_enrollments s i = Some q" for i q
    using d(2) [OF that] assms(3) by auto
  show ?thesis
    unfolding fleet_inv_def keyed_def
  proof (intro conjI allI impI)
    fix dv i
    assume "map_of (fs_current (s \<lparr> fs_enrollments := (fs_enrollments s)(de_enrollment_id r \<mapsto> r),
      fs_identity_owner := (fs_identity_owner s)(?f \<mapsto> de_device_id r) \<rparr>)) dv = Some i"
    then obtain q where "fs_enrollments s i = Some q" "de_device_id q = dv" using d(3) by auto
    with fresh show "\<exists>ra. fs_enrollments (s \<lparr> fs_enrollments := (fs_enrollments s)(de_enrollment_id r \<mapsto> r),
      fs_identity_owner := (fs_identity_owner s)(?f \<mapsto> de_device_id r) \<rparr>) i = Some ra \<and> de_device_id ra = dv" by auto
  next
    fix dv w
    assume "fs_rotations (s \<lparr> fs_enrollments := (fs_enrollments s)(de_enrollment_id r \<mapsto> r),
      fs_identity_owner := (fs_identity_owner s)(?f \<mapsto> de_device_id r) \<rparr>) dv = Some w"
    then obtain q where "fs_enrollments s (rw_old_enrollment_id w) = Some q" "de_device_id q = dv" using d(4) by auto
    with fresh show "\<exists>ra. fs_enrollments (s \<lparr> fs_enrollments := (fs_enrollments s)(de_enrollment_id r \<mapsto> r),
      fs_identity_owner := (fs_identity_owner s)(?f \<mapsto> de_device_id r) \<rparr>) (rw_old_enrollment_id w) = Some ra \<and> de_device_id ra = dv" by auto
  next
    fix k q
    assume "fs_enrollments (s \<lparr> fs_enrollments := (fs_enrollments s)(de_enrollment_id r \<mapsto> r),
      fs_identity_owner := (fs_identity_owner s)(?f \<mapsto> de_device_id r) \<rparr>) k = Some q"
    then have "k = de_enrollment_id r \<and> q = r \<or> fs_enrollments s k = Some q" by (auto split: if_split_asm)
    then show "de_enrollment_id q = k" "fs_identity_owner (s \<lparr> fs_enrollments := (fs_enrollments s)(de_enrollment_id r \<mapsto> r),
      fs_identity_owner := (fs_identity_owner s)(?f \<mapsto> de_device_id r) \<rparr>) (de_public_key_fingerprint_sha256 q) = Some (de_device_id q)"
      using d(1) [of k q] owner [of k q] by auto
  qed
qed

lemma fleet_step_inv:
  assumes "fleet_step sv s s'" "fleet_inv s"
  shows "fleet_inv s'"
  using assms(1)
proof cases
  case (submitted r)
  let ?s = "s \<lparr> fs_enrollments := (fs_enrollments s)(de_enrollment_id r \<mapsto> r),
    fs_identity_owner := (fs_identity_owner s)(de_public_key_fingerprint_sha256 r \<mapsto> de_device_id r) \<rparr>"
  have "fleet_inv ?s" by (rule inv_submit [OF assms(2) submitted(2,3)])
  then show ?thesis using inv_current [of ?s r r] by (simp add: submitted(4))
next
  case (activated i r now)
  let ?s = "s \<lparr> fs_enrollments := (fs_enrollments s)(de_enrollment_id r \<mapsto> with_state r Enrolled now) \<rparr>"
  have "fleet_inv ?s" by (rule inv_put [OF assms(2) activated(1)])
  then show ?thesis using inv_current [of ?s r "with_state r Enrolled now"] by (simp add: activated(3))
next
  case (moved i r target now)
  then show ?thesis using inv_put [OF assms(2) moved(1)] by simp
next
  case (rotated i r c now until)
  let ?s = "s \<lparr> fs_enrollments := (fs_enrollments s)(de_enrollment_id r \<mapsto> with_state r Enrolled now) \<rparr>"
  let ?t = "?s \<lparr> fs_current := AList.update (de_device_id r) (de_enrollment_id r) (fs_current s) \<rparr>"
  let ?w = "\<lparr> rw_device_id = de_device_id r, rw_old_enrollment_id = de_enrollment_id c,
    rw_new_enrollment_id = de_enrollment_id r, rw_overlap_expires_at_utc = until \<rparr>"
  have c: "fs_enrollments s (de_enrollment_id c) = Some c" "de_device_id c = de_device_id r"
    using current_record_device [OF assms(2) rotated(2)] by auto
  have "fleet_inv ?s" by (rule inv_put [OF assms(2) rotated(1)])
  then have t: "fleet_inv ?t" using inv_current [of ?s r "with_state r Enrolled now"] by simp
  obtain q where q: "fs_enrollments ?t (rw_old_enrollment_id ?w) = Some q" "de_device_id q = de_device_id r"
    using c by (cases "de_enrollment_id c = de_enrollment_id r") auto
  show ?thesis using inv_rotation [OF t q] by (simp add: rotated(9))
next
  case (completed d w r now)
  let ?s = "s \<lparr> fs_enrollments := (fs_enrollments s)(de_enrollment_id r \<mapsto> with_state r Revoked now) \<rparr>"
  have "fleet_inv ?s" by (rule inv_put [OF assms(2) completed(2)])
  then show ?thesis using inv_clear [of ?s d] inv_clear [OF assms(2), of d] by (simp add: completed(3))
qed

lemma fleet_reachable_inv [ets_inv]: "fleet_reachable sv s \<Longrightarrow> fleet_inv s"
proof (induction rule: fleet_reachable.induct)
  case init
  show ?case by (simp add: fleet_inv_def keyed_def fleet_init_def)
next
  case (run s cmd)
  then show ?case using fleet_run_step [of s sv cmd] fleet_step_inv by (auto simp: fleet_inv_def)
qed

section \<open>Properties\<close>

lemma authorize_record_allowed:
  "ad_allowed (authorize_record r t) \<Longrightarrow> de_registration_state r = Enrolled \<and>
     ad_enrollment_id (authorize_record r t) = Some (de_enrollment_id r) \<and> ad_device_id (authorize_record r t) = de_device_id r \<and>
     (de_auth_method r = X509 \<longrightarrow> (case de_certificate_not_after_utc r of None \<Rightarrow> True | Some na \<Rightarrow> t < na))"
  by (cases "de_registration_state r")
    (auto simp: authorize_record_def deny_record_def split: option.splits if_split_asm)

definition authorized_by :: "fleet_state \<Rightarrow> string \<Rightarrow> string \<Rightarrow> string \<Rightarrow> string \<Rightarrow> utc \<Rightarrow> device_enrollment_record \<Rightarrow> bool" where
  "authorized_by s d fp tenant workspace t r \<longleftrightarrow>
     fs_enrollments s (de_enrollment_id r) = Some r \<and> de_device_id r = d \<and> de_public_key_fingerprint_sha256 r = fp \<and>
     de_registration_state r = Enrolled \<and>
     (de_auth_method r = X509 \<longrightarrow> (case de_certificate_not_after_utc r of None \<Rightarrow> True | Some na \<Rightarrow> t < na)) \<and>
     (\<exists>c. current_record d s = Some c \<and> de_scope_binding c = \<lparr> sb_tenant_id = tenant, sb_workspace_id = workspace \<rparr> \<and>
        (r = c \<or> (\<exists>w. fs_rotations s d = Some w \<and> rw_old_enrollment_id w = de_enrollment_id r \<and> t \<le> rw_overlap_expires_at_utc w)))"

lemma authorize_allowed:
  assumes "fleet_inv s" "fst (authorize d fp tenant workspace (Aware x off) s) = Inr dec" "ad_allowed dec"
  shows "\<exists>r. authorized_by s d fp tenant workspace (x - off) r \<and> ad_device_id dec = d \<and> ad_enrollment_id dec = Some (de_enrollment_id r)"
proof -
  obtain c where c: "current_record d s = Some c"
    using assms(2,3) by (cases "current_record d s") (auto simp: authorize_def normalize_time_def validate_sha256_def action_simps deny_def split: if_split_asm)
  note cur = current_record_device [OF assms(1) c]
  show ?thesis
  proof (cases "fp = de_public_key_fingerprint_sha256 c")
    case True
    with assms(2,3) c have "dec = authorize_record c (x - off)" "de_scope_binding c = \<lparr> sb_tenant_id = tenant, sb_workspace_id = workspace \<rparr>"
      by (auto simp: authorize_def normalize_time_def validate_sha256_def action_simps deny_record_def Let_def split: if_split_asm)
    with authorize_record_allowed [of c "x - off"] assms(3) cur True c show ?thesis by (auto simp: authorized_by_def)
  next
    case False
    with assms(2,3) c obtain w r where w: "fs_rotations s d = Some w" "fs_enrollments s (rw_old_enrollment_id w) = Some r"
        "fp = de_public_key_fingerprint_sha256 r" "x - off \<le> rw_overlap_expires_at_utc w" "dec = authorize_record r (x - off)"
        "de_scope_binding c = \<lparr> sb_tenant_id = tenant, sb_workspace_id = workspace \<rparr>"
      by (auto simp: authorize_def normalize_time_def validate_sha256_def action_simps deny_record_def Let_def split: if_split_asm option.split_asm)
    have "de_device_id r = d" "de_enrollment_id r = rw_old_enrollment_id w"
      using fleet_invD(4) [OF assms(1) w(1)] fleet_invD(1) [OF assms(1) w(2)] w(2) by auto
    with authorize_record_allowed [of r "x - off"] assms(3) w c
    show ?thesis by (intro exI [of _ r]) (auto simp: authorized_by_def)
  qed
qed

text \<open>
  C17. An allowed authorization is backed by an enrollment. In every reachable store, when \<^verbatim>\<open>authorize\<close> allows a
  device, the store holds an enrollment of this very device with the presented public-key fingerprint, in state
  enrolled, whose X.509 certificate (if it records an expiry) has not expired; the requested tenant and workspace are
  those of the device's current enrollment; and the enrollment is either the current one or the superseded one of a
  rotation whose overlap has not ended.
\<close>

theorem fleet_authorization_sound:
  assumes "fleet_reachable sv s" "fst (authorize d fp tenant workspace (Aware x off) s) = Inr dec" "ad_allowed dec"
  shows "\<exists>r. authorized_by s d fp tenant workspace (x - off) r \<and> ad_device_id dec = d \<and> ad_enrollment_id dec = Some (de_enrollment_id r)"
  by (rule authorize_allowed [OF fleet_reachable_inv [OF assms(1)] assms(2,3)])

definition terminal :: "registration_state \<Rightarrow> bool" where
  "terminal st \<longleftrightarrow> st = Revoked \<or> st = Decommissioned"

lemma fleet_step_persists:
  assumes "fleet_step sv s s'" "fleet_inv s" "fs_enrollments s i = Some r"
  shows "\<exists>r'. fs_enrollments s' i = Some r' \<and> de_device_id r' = de_device_id r \<and>
    de_public_key_fingerprint_sha256 r' = de_public_key_fingerprint_sha256 r \<and> (terminal (de_registration_state r) \<longrightarrow> terminal (de_registration_state r'))"
  using assms(1)
proof cases
  case (submitted q)
  with assms(3) show ?thesis by auto
next
  case (activated k q now)
  then have "de_registration_state q = Pending" "de_enrollment_id q = k"
    using fleet_invD(1) [OF assms(2)] by (auto simp: require_pending_and_usable_def split: if_split_asm)
  with activated assms(3) show ?thesis by (cases "k = i") (auto simp: terminal_def)
next
  case (moved k q target now)
  then have "de_enrollment_id q = k" using fleet_invD(1) [OF assms(2)] by auto
  with moved assms(3) show ?thesis by (cases "k = i"; cases "de_registration_state q") (auto simp: terminal_def)
next
  case (rotated k q c now until)
  then have "de_registration_state q = Pending" "de_enrollment_id q = k"
    using fleet_invD(1) [OF assms(2)] by (auto simp: require_pending_and_usable_def split: if_split_asm)
  with rotated assms(3) show ?thesis by (cases "k = i") (auto simp: terminal_def)
next
  case (completed d w q now)
  then have "de_enrollment_id q = rw_old_enrollment_id w" using fleet_invD(1) [OF assms(2)] by auto
  with completed assms(3) show ?thesis by (cases "rw_old_enrollment_id w = i") (auto simp: terminal_def)
qed

definition fleet_runs :: "fleet_service \<Rightarrow> fleet_command list \<Rightarrow> fleet_state \<Rightarrow> fleet_state" where
  "fleet_runs sv cmds s = fold (fleet_run sv) cmds s"

lemma fleet_runs_reachable: "fleet_reachable sv s \<Longrightarrow> fleet_reachable sv (fleet_runs sv cmds s)"
  by (induction cmds arbitrary: s) (simp_all add: fleet_runs_def fleet_reachable.run)

lemma fleet_runs_persists:
  assumes "fleet_reachable sv s" "fs_enrollments s i = Some r" "terminal (de_registration_state r)"
  shows "fleet_reachable sv (fleet_runs sv cmds s) \<and> (\<exists>r'. fs_enrollments (fleet_runs sv cmds s) i = Some r' \<and>
    de_public_key_fingerprint_sha256 r' = de_public_key_fingerprint_sha256 r \<and> terminal (de_registration_state r'))"
  using assms
proof (induction cmds arbitrary: s r)
  case (Cons cmd cmds)
  have inv: "fleet_inv s" using Cons.prems(1) by (rule fleet_reachable_inv)
  have "fleet_reachable sv (fleet_run sv cmd s)" by (rule fleet_reachable.run [OF Cons.prems(1)])
  moreover obtain r' where "fs_enrollments (fleet_run sv cmd s) i = Some r'" "terminal (de_registration_state r')"
      "de_public_key_fingerprint_sha256 r' = de_public_key_fingerprint_sha256 r"
  proof -
    have "keyed s" using inv by (simp add: fleet_inv_def)
    from fleet_run_step [OF this, of sv cmd]
    have "\<exists>r'. fs_enrollments (fleet_run sv cmd s) i = Some r' \<and> terminal (de_registration_state r') \<and>
        de_public_key_fingerprint_sha256 r' = de_public_key_fingerprint_sha256 r"
    proof
      assume "fleet_run sv cmd s = s"
      then show ?thesis using Cons.prems(2,3) by simp
    next
      assume "fleet_step sv s (fleet_run sv cmd s)"
      from fleet_step_persists [OF this inv Cons.prems(2)] Cons.prems(3) show ?thesis by blast
    qed
    then show thesis using that by blast
  qed
  ultimately show ?case using Cons.IH [of "fleet_run sv cmd s" r'] by (simp add: fleet_runs_def)
qed (simp add: fleet_runs_def)

text \<open>
  C18. Revocation is final. Once an enrollment of a reachable store is revoked or decommissioned, it stays in the
  store with its fingerprint, revoked or decommissioned, whatever commands follow, and no later authorization
  is ever allowed by it.
\<close>

theorem fleet_revocation_final:
  assumes "fleet_reachable sv s" "fs_enrollments s i = Some r" "terminal (de_registration_state r)"
  shows "(\<exists>r'. fs_enrollments (fleet_runs sv cmds s) i = Some r' \<and> terminal (de_registration_state r') \<and>
      de_public_key_fingerprint_sha256 r' = de_public_key_fingerprint_sha256 r) \<and>
    (\<forall>d fp tenant workspace x off dec. fst (authorize d fp tenant workspace (Aware x off) (fleet_runs sv cmds s)) = Inr dec \<longrightarrow>
      ad_allowed dec \<longrightarrow> ad_enrollment_id dec \<noteq> Some i)"
proof -
  from fleet_runs_persists [OF assms, of cmds] obtain r' where reach: "fleet_reachable sv (fleet_runs sv cmds s)"
    and r': "fs_enrollments (fleet_runs sv cmds s) i = Some r'" "terminal (de_registration_state r')"
      "de_public_key_fingerprint_sha256 r' = de_public_key_fingerprint_sha256 r" by blast
  show ?thesis
  proof (intro conjI allI impI notI)
    fix d fp tenant workspace x off dec
    assume "fst (authorize d fp tenant workspace (Aware x off) (fleet_runs sv cmds s)) = Inr dec" "ad_allowed dec" "ad_enrollment_id dec = Some i"
    from authorize_allowed [OF fleet_reachable_inv [OF reach] this(1,2)] this(3)
    obtain q where "authorized_by (fleet_runs sv cmds s) d fp tenant workspace (x - off) q" "de_enrollment_id q = i" by auto
    then show False using r'(1,2) by (simp add: authorized_by_def terminal_def)
  qed (use r' in blast)
qed

text \<open>
  A public identity belongs to one device. In every reachable store any two enrollments with the same public-key
  fingerprint, in whatever state, are of the same device.
\<close>

theorem fleet_public_identity_unique:
  assumes "fleet_reachable sv s" "fs_enrollments s i = Some q" "fs_enrollments s j = Some r"
    "de_public_key_fingerprint_sha256 q = de_public_key_fingerprint_sha256 r"
  shows "de_device_id q = de_device_id r"
  using fleet_invD(2) [OF fleet_reachable_inv [OF assms(1)] assms(2)] fleet_invD(2) [OF fleet_reachable_inv [OF assms(1)] assms(3)] assms(4)
  by simp

text \<open>
  A command that raises changes nothing: although the in-memory store cannot roll back, every operation raises
  only before its first write.
\<close>

theorem fleet_errors_change_nothing:
  assumes "fleet_reachable sv s" "fst (fleet_do sv cmd s) = Inl e"
  shows "snd (fleet_do sv cmd s) = s"
  using fleet_do_effect [of s sv cmd] fleet_reachable_inv [OF assms(1)] assms(2) by (simp add: atomically_def fleet_inv_def)

section \<open>A device through its lifecycle\<close>

definition accept_all :: fleet_service where
  "accept_all = \<lparr> fv_validate = (\<lambda>_ _. Inr ()), fv_max_rotation_overlap = 86400000000 \<rparr>"

definition sample_scope :: scope_binding where
  "sample_scope = \<lparr> sb_tenant_id = ''t'', sb_workspace_id = ''w'' \<rparr>"

definition sample_enrollment :: "string \<Rightarrow> char \<Rightarrow> string option \<Rightarrow> utc option \<Rightarrow> registration_state \<Rightarrow> device_enrollment_record" where
  "sample_enrollment i c supersedes not_after st = \<lparr> de_enrollment_id = i, de_device_id = ''ets-edge:dev-1'', de_product_type = Edge,
     de_profile = Physical_Pilot, de_auth_method = X509, de_public_key_fingerprint_sha256 = replicate 64 c,
     de_certificate_thumbprint_sha256 = Some (replicate 64 c), de_attestation_class = Att_None, de_key_custody = Cust_HSM,
     de_hardware_attested = False, de_registration_state = st, de_scope_binding = sample_scope, de_provisioning_backend = None,
     de_certificate_not_after_utc = not_after, de_supersedes_enrollment_id = supersedes, de_created_at_utc = 0,
     de_updated_at_utc = None, de_metadata = [] \<rparr>"

definition sample_lifecycle :: "fleet_command list" where
  "sample_lifecycle = [
     Submit (sample_enrollment ''enr_0001'' (CHR ''a'') None (Some 1000) Pending) sample_scope (Aware 0 0), Activate ''enr_0001'' (Aware 1 0),
     Submit (sample_enrollment ''enr_0002'' (CHR ''b'') (Some ''enr_0001'') (Some 1000) Pending) sample_scope (Aware 2 0),
     Begin_Rotation ''enr_0002'' (Aware 10 0) (Aware 3 0),
     Transition ''enr_0001'' Revoked (Aware 4 0), Transition ''enr_0001'' Decommissioned (Aware 5 0)]"

text \<open>
  Decommissioning is not terminal, although the table of transitions allows no way out of it. After a rotation has
  begun, the superseded enrollment may be revoked and decommissioned; completing the rotation then moves it back to revoked.
\<close>

theorem complete_rotation_revives_decommissioned:
  "map_option de_registration_state (fs_enrollments (fleet_runs accept_all sample_lifecycle fleet_init) ''enr_0001'') = Some Decommissioned \<and>
   map_option de_registration_state (fs_enrollments (fleet_run accept_all (Complete_Rotation ''ets-edge:dev-1'' (Aware 6 0))
     (fleet_runs accept_all sample_lifecycle fleet_init)) ''enr_0001'') = Some Revoked"
  by code_simp

text \<open>
  Submission skips activation. A record submitted in state enrolled is accepted and authorized at once, although
  it was never activated and its X.509 certificate records no expiry, which activation would refuse.
\<close>

theorem submitted_enrolled_is_authorized:
  "map_sum id ad_allowed (fst (authorize ''ets-edge:dev-1'' (replicate 64 (CHR ''a'')) ''t'' ''w'' (Aware 1 0)
     (fleet_run accept_all (Submit (sample_enrollment ''enr_0001'' (CHR ''a'') None None Enrolled) sample_scope (Aware 0 0)) fleet_init))) = Inr True \<and>
   (\<exists>m. require_pending_and_usable (sample_enrollment ''enr_0001'' (CHR ''a'') None None Pending) 1 =
      Inl (EnrollmentValidationError ''certificate_expiry_required'' m))"
proof -
  have "map_sum id ad_allowed (fst (authorize ''ets-edge:dev-1'' (replicate 64 (CHR ''a'')) ''t'' ''w'' (Aware 1 0)
     (fleet_run accept_all (Submit (sample_enrollment ''enr_0001'' (CHR ''a'') None None Enrolled) sample_scope (Aware 0 0)) fleet_init))) = Inr True"
    by code_simp
  then show ?thesis by (simp add: require_pending_and_usable_def sample_enrollment_def)
qed

section \<open>Witnesses\<close>

lemma sample_allowed:
  "map_sum id ad_allowed (fst (authorize ''ets-edge:dev-1'' (replicate 64 (CHR ''a'')) ''t'' ''w'' (Aware 1 0)
     (fleet_runs accept_all (take 2 sample_lifecycle) fleet_init))) = Inr True"
  by code_simp

theorem fleet_authorization_sound_witness:
  "\<exists>r. authorized_by (fleet_runs accept_all (take 2 sample_lifecycle) fleet_init) ''ets-edge:dev-1'' (replicate 64 (CHR ''a'')) ''t'' ''w'' 1 r"
proof -
  let ?s = "fleet_runs accept_all (take 2 sample_lifecycle) fleet_init"
  have reach: "fleet_reachable accept_all ?s" by (rule fleet_runs_reachable [OF fleet_reachable.init])
  obtain dec where "fst (authorize ''ets-edge:dev-1'' (replicate 64 (CHR ''a'')) ''t'' ''w'' (Aware 1 0) ?s) = Inr dec" "ad_allowed dec"
    using sample_allowed by (cases "fst (authorize ''ets-edge:dev-1'' (replicate 64 (CHR ''a'')) ''t'' ''w'' (Aware 1 0) ?s)") auto
  from fleet_authorization_sound [OF reach this] show ?thesis by auto
qed

lemma sample_revoked:
  "map_option de_registration_state (fs_enrollments (fleet_runs accept_all (take 5 sample_lifecycle) fleet_init) ''enr_0001'') = Some Revoked"
  by code_simp

lemma sample_reach: "fleet_reachable accept_all (fleet_runs accept_all cmds fleet_init)"
  by (rule fleet_runs_reachable [OF fleet_reachable.init])

theorem fleet_revocation_final_witness:
  "\<exists>r'. fs_enrollments (fleet_runs accept_all [Transition ''enr_0001'' Enrolled (Aware 9 0)]
      (fleet_runs accept_all (take 5 sample_lifecycle) fleet_init)) ''enr_0001'' = Some r' \<and> terminal (de_registration_state r')"
proof -
  obtain r where r: "fs_enrollments (fleet_runs accept_all (take 5 sample_lifecycle) fleet_init) ''enr_0001'' = Some r"
    "de_registration_state r = Revoked" using sample_revoked by auto
  have "terminal (de_registration_state r)" by (simp add: r(2) terminal_def)
  from fleet_revocation_final [OF sample_reach r(1) this, of "[Transition ''enr_0001'' Enrolled (Aware 9 0)]"] show ?thesis by blast
qed

theorem fleet_public_identity_unique_witness:
  "\<exists>q. fs_enrollments (fleet_runs accept_all (take 5 sample_lifecycle) fleet_init) ''enr_0001'' = Some q \<and> de_device_id q = de_device_id q"
proof -
  obtain r where r: "fs_enrollments (fleet_runs accept_all (take 5 sample_lifecycle) fleet_init) ''enr_0001'' = Some r"
    using sample_revoked by auto
  from fleet_public_identity_unique [OF sample_reach r r refl] r show ?thesis by blast
qed

theorem fleet_errors_change_nothing_witness:
  "snd (fleet_do accept_all (Activate ''enr_0001'' (Aware 0 0)) fleet_init) = fleet_init"
proof -
  have "fst (fleet_do accept_all (Activate ''enr_0001'' (Aware 0 0)) fleet_init) =
      Inl (EnrollmentValidationError ''enrollment_not_found'' (''unknown enrollment: '' @ ''enr_0001''))"
    by (simp add: discard_def activate_def normalize_time_def require_record_def fleet_init_def abind_def [of "abind _ _"] action_simps)
  from fleet_errors_change_nothing [OF fleet_reachable.init this] show ?thesis .
qed

end
