(* ===== verification/Ets_Election.thy ===== *)
theory Ets_Election
  imports Ets_Proofs Ets_Linked
begin

text \<open>
  Election evidence (\<^verbatim>\<open>ets/election/models.py\<close>, \<^verbatim>\<open>ets/election/ledger.py\<close>,
  \<^verbatim>\<open>ets/election/proofs.py\<close>): packets and their hash, the append-only ledger, the replay of a chain, milestone
  root manifests, inclusion bundles and their verification. \<open>dt\<close> is the text \<^verbatim>\<open>model_dump(mode="json")\<close> gives a
  timestamp. A packet names the hash of its predecessor, not its own position, so the interpretation at the end is of
  \<open>genesis_linked\<close>.
\<close>

section \<open>Packets\<close>

definition election_event_types :: "string list" where
  "election_event_types = [''election_config_registered'', ''logic_accuracy_test_registered'', ''ballot_batch_scanned'',
     ''custody_transfer'', ''observer_note_registered'', ''cvr_export_registered'', ''audit_started'', ''audit_completed'',
     ''certification_snapshot'']"

definition privacy_classes :: "string list" where
  "privacy_classes = [''public'', ''restricted'', ''sealed'']"

record packet_signature =
  ps_algorithm :: string
  ps_key_id :: string
  ps_value :: string

record election_packet =
  ep_schema_version :: string
  ep_event_id :: string
  ep_election_id :: string
  ep_jurisdiction :: string
  ep_event_type :: string
  ep_actor_id :: string
  ep_device_id :: string
  ep_timestamp_utc :: utc
  ep_payload_hash :: string
  ep_previous_event_hash :: "string option"
  ep_signature :: packet_signature
  ep_privacy_class :: string
  ep_artifact_ref :: "string option"
  ep_metadata :: "(string \<times> json) list"

definition packet_signature_ok :: "packet_signature \<Rightarrow> bool" where
  "packet_signature_ok s \<longleftrightarrow> field_length 1 64 (ps_algorithm s) \<and> field_length 1 128 (ps_key_id s) \<and> field_length 1 512 (ps_value s)"

definition election_packet_ok :: "election_packet \<Rightarrow> bool" where
  "election_packet_ok p \<longleftrightarrow> ep_schema_version p = ''ets.election.packet.v1'' \<and>
     list_all (field_length 1 128) [ep_event_id p, ep_election_id p, ep_jurisdiction p, ep_actor_id p, ep_device_id p] \<and>
     ep_event_type p \<in> set election_event_types \<and> hash_field (ep_payload_hash p) \<and>
     (case ep_previous_event_hash p of None \<Rightarrow> True | Some h \<Rightarrow> hash_field h) \<and> packet_signature_ok (ep_signature p) \<and>
     ep_privacy_class p \<in> set privacy_classes \<and> (case ep_artifact_ref p of None \<Rightarrow> True | Some s \<Rightarrow> length s \<le> 256) \<and>
     json_ok (JObj (ep_metadata p)) \<and> length (canon (JObj (ep_metadata p))) \<le> 64 * 1024"

definition ElectionEvidencePacket :: "election_packet \<Rightarrow> election_packet result" where
  "ElectionEvidencePacket p = (if election_packet_ok p then Inr p else Inl (ValidationError ''ElectionEvidencePacket''))"

definition election_payload :: "(utc \<Rightarrow> string) \<Rightarrow> election_packet \<Rightarrow> json" where
  "election_payload dt p = JObj
     [(''schema_version'', JStr (ep_schema_version p)), (''event_id'', JStr (ep_event_id p)),
      (''election_id'', JStr (ep_election_id p)), (''jurisdiction'', JStr (ep_jurisdiction p)),
      (''event_type'', JStr (ep_event_type p)), (''actor_id'', JStr (ep_actor_id p)), (''device_id'', JStr (ep_device_id p)),
      (''timestamp_utc'', JStr (dt (ep_timestamp_utc p))), (''payload_hash'', JStr (ep_payload_hash p)),
      (''previous_event_hash'', JOpt (ep_previous_event_hash p)), (''privacy_class'', JStr (ep_privacy_class p)),
      (''artifact_ref'', JOpt (ep_artifact_ref p)), (''metadata'', JObj (ep_metadata p))]"

definition hash_election_packet :: "(utc \<Rightarrow> string) \<Rightarrow> election_packet \<Rightarrow> string" where
  "hash_election_packet dt p = canon_sha256 (election_payload dt p)"

section \<open>Ledger\<close>

record election_entry =
  el_sequence :: int
  el_packet :: election_packet
  el_event_hash :: string

record election_ledger =
  ld_entries :: "election_entry list"
  ld_by_event_id :: "string \<rightharpoonup> election_entry"

definition ledger_init :: election_ledger where
  "ledger_init = \<lparr> ld_entries = [], ld_by_event_id = Map.empty \<rparr>"

definition ledger_tip_hash :: "election_ledger \<Rightarrow> string option" where
  "ledger_tip_hash l = (if ld_entries l = [] then None else Some (el_event_hash (last (ld_entries l))))"

definition ledger_append :: "(utc \<Rightarrow> string) \<Rightarrow> election_packet \<Rightarrow> election_ledger \<Rightarrow> (election_entry \<times> election_ledger) result" where
  "ledger_append dt packet l =
     (if ld_by_event_id l (ep_event_id packet) \<noteq> None
      then Inl (DuplicatePacketError (''duplicate election event_id: '' @ ep_event_id packet))
      else if ep_previous_event_hash packet \<noteq> ledger_tip_hash l
      then Inl (ChainContinuityError ''previous_event_hash does not match current election ledger tip'')
      else let entry = \<lparr> el_sequence = int (length (ld_entries l)), el_packet = packet,
                 el_event_hash = hash_election_packet dt packet \<rparr>
        in Inr (entry, \<lparr> ld_entries = ld_entries l @ [entry], ld_by_event_id = (ld_by_event_id l)(ep_event_id packet \<mapsto> entry) \<rparr>))"

definition ledger_get_by_event_id :: "string \<Rightarrow> election_ledger \<Rightarrow> election_entry result" where
  "ledger_get_by_event_id event_id l =
     rget (PacketNotFoundError (''election event_id not found: '' @ event_id)) (ld_by_event_id l event_id)"

definition ledger_list_entries :: "election_ledger \<Rightarrow> election_entry list" where
  "ledger_list_entries l = ld_entries l"

record chain_issue =
  ci_sequence :: int
  ci_event_id :: string
  ci_code :: string
  ci_message :: string

record election_chain_result =
  ec_valid :: bool
  ec_entry_count :: int
  ec_tip_hash :: "string option"
  ec_issues :: "chain_issue list"

definition issue :: "election_entry \<Rightarrow> string \<Rightarrow> string \<Rightarrow> chain_issue" where
  "issue entry label message = \<lparr> ci_sequence = el_sequence entry, ci_event_id = ep_event_id (el_packet entry),
     ci_code = label, ci_message = message \<rparr>"

definition entry_issues :: "int \<Rightarrow> string option \<Rightarrow> string list \<Rightarrow> string \<Rightarrow> election_entry \<Rightarrow> chain_issue list" where
  "entry_issues expected_sequence previous_hash seen_event_ids recomputed_hash entry =
     (if el_sequence entry \<noteq> expected_sequence
      then [issue entry ''ETS_ELECTION_SEQUENCE_GAP'' ''ledger entry sequence does not match append order''] else []) @
     (if ep_event_id (el_packet entry) \<in> set seen_event_ids
      then [issue entry ''ETS_ELECTION_DUPLICATE_EVENT'' ''duplicate election event_id in replay''] else []) @
     (if el_event_hash entry \<noteq> recomputed_hash
      then [issue entry ''ETS_ELECTION_EVENT_HASH_MISMATCH'' ''stored event hash does not match canonical packet hash''] else []) @
     (if ep_previous_event_hash (el_packet entry) \<noteq> previous_hash
      then [issue entry ''ETS_ELECTION_PREVIOUS_HASH_MISMATCH'' ''packet previous_event_hash does not match replay tip''] else [])"

fun replay :: "(utc \<Rightarrow> string) \<Rightarrow> int \<Rightarrow> string option \<Rightarrow> string list \<Rightarrow> election_entry list \<Rightarrow> chain_issue list \<times> string option" where
  "replay dt expected_sequence previous_hash seen_event_ids [] = ([], previous_hash)"
| "replay dt expected_sequence previous_hash seen_event_ids (entry # entries) =
     (let recomputed_hash = hash_election_packet dt (el_packet entry);
          (issues, tip) = replay dt (expected_sequence + 1) (Some recomputed_hash) (ep_event_id (el_packet entry) # seen_event_ids) entries
      in (entry_issues expected_sequence previous_hash seen_event_ids recomputed_hash entry @ issues, tip))"

definition verify_election_chain :: "(utc \<Rightarrow> string) \<Rightarrow> election_entry list \<Rightarrow> election_chain_result" where
  "verify_election_chain dt entries =
     (let (issues, tip) = replay dt 0 None [] entries
      in \<lparr> ec_valid = (issues = []), ec_entry_count = int (length entries), ec_tip_hash = tip, ec_issues = issues \<rparr>)"

definition export_election_audit_log :: "(utc \<Rightarrow> string) \<Rightarrow> election_entry list \<Rightarrow> json list" where
  "export_election_audit_log dt entries = map (\<lambda>entry. let p = el_packet entry in JObj
     [(''sequence'', JInt (el_sequence entry)), (''event_id'', JStr (ep_event_id p)), (''election_id'', JStr (ep_election_id p)),
      (''jurisdiction'', JStr (ep_jurisdiction p)), (''event_type'', JStr (ep_event_type p)),
      (''timestamp_utc'', JStr (dt (ep_timestamp_utc p))), (''privacy_class'', JStr (ep_privacy_class p)),
      (''payload_hash'', JStr (ep_payload_hash p)), (''previous_event_hash'', JOpt (ep_previous_event_hash p)),
      (''event_hash'', JStr (el_event_hash entry))]) entries"

section \<open>Root manifests and inclusion bundles\<close>

record election_root_manifest =
  rm_schema_version :: string
  rm_election_id :: string
  rm_jurisdiction :: string
  rm_milestone :: string
  rm_tree_size :: int
  rm_merkle_root :: string
  rm_event_ids :: "string list"
  rm_generated_at_utc :: utc
  rm_hash_alg :: string

definition root_manifest_ok :: "election_root_manifest \<Rightarrow> bool" where
  "root_manifest_ok m \<longleftrightarrow> list_all (field_length 1 128) [rm_election_id m, rm_jurisdiction m, rm_milestone m] \<and>
     1 \<le> rm_tree_size m \<and> hash_field (rm_merkle_root m) \<and> int (length (rm_event_ids m)) = rm_tree_size m"

record election_bundle =
  eb_schema_version :: string
  eb_event_id :: string
  eb_election_id :: string
  eb_jurisdiction :: string
  eb_event_type :: string
  eb_privacy_class :: string
  eb_payload_hash :: string
  eb_event_hash :: string
  eb_leaf_hash :: string
  eb_root_manifest :: election_root_manifest
  eb_inclusion_proof :: inclusion_proof

definition election_bundle_ok :: "election_bundle \<Rightarrow> bool" where
  "election_bundle_ok b \<longleftrightarrow> list_all (field_length 1 128) [eb_event_id b, eb_election_id b, eb_jurisdiction b, eb_event_type b] \<and>
     field_length 1 32 (eb_privacy_class b) \<and> hash_field (eb_payload_hash b) \<and> hash_field (eb_event_hash b) \<and>
     hash_field (eb_leaf_hash b) \<and> root_manifest_ok (eb_root_manifest b) \<and> inclusion_proof_ok (eb_inclusion_proof b)"

record election_batch =
  bb_schema_version :: string
  bb_root_manifest :: election_root_manifest
  bb_proofs :: "election_bundle list"

definition leaf_hashes :: "election_entry list \<Rightarrow> string list result" where
  "leaf_hashes entries = rmap (\<lambda>entry. leaf_hash_for_event_hash (el_event_hash entry)) entries"

definition get_entry :: "election_entry list \<Rightarrow> string \<Rightarrow> election_entry result" where
  "get_entry entries event_id =
     rget (PacketNotFoundError (''election event_id not found: '' @ event_id))
       (find (\<lambda>entry. ep_event_id (el_packet entry) = event_id) entries)"

definition create_election_root_manifest ::
  "utc \<Rightarrow> election_entry list \<Rightarrow> string \<Rightarrow> datetime option \<Rightarrow> election_root_manifest result" where
  "create_election_root_manifest now entries milestone generated_at_utc =
     (case entries of [] \<Rightarrow> Inl (ValueError ''cannot publish an election root manifest for an empty ledger'')
      | first_entry # _ \<Rightarrow>
        let first = el_packet first_entry in
        if list_ex (\<lambda>entry. ep_election_id (el_packet entry) \<noteq> ep_election_id first) entries
        then Inl (ValueError ''all entries must belong to the same election_id'')
        else if list_ex (\<lambda>entry. ep_jurisdiction (el_packet entry) \<noteq> ep_jurisdiction first) entries
        then Inl (ValueError ''all entries must belong to the same jurisdiction'')
        else rbind (leaf_hashes entries) (\<lambda>leaves.
          rbind (merkle_root leaves) (\<lambda>root_hash.
          rbind (generated_at ''ElectionRootManifest'' now generated_at_utc) (\<lambda>at.
          let m = \<lparr> rm_schema_version = ''ets.election.root_manifest.v1'', rm_election_id = ep_election_id first,
                rm_jurisdiction = ep_jurisdiction first, rm_milestone = milestone, rm_tree_size = int (length entries),
                rm_merkle_root = root_hash, rm_event_ids = map (ep_event_id \<circ> el_packet) entries,
                rm_generated_at_utc = at, rm_hash_alg = ''sha256'' \<rparr>
          in if root_manifest_ok m then Inr m else Inl (ValidationError ''ElectionRootManifest'')))))"

definition create_election_inclusion_proof ::
  "utc \<Rightarrow> election_entry list \<Rightarrow> string \<Rightarrow> string \<Rightarrow> datetime option \<Rightarrow> election_bundle result" where
  "create_election_inclusion_proof now entries event_id milestone generated_at_utc =
     rbind (get_entry entries event_id) (\<lambda>entry.
     rbind (create_election_root_manifest now entries milestone generated_at_utc) (\<lambda>manifest.
     rbind (leaf_hashes entries) (\<lambda>leaves.
     rbind (inclusion_proof_for now leaves (el_sequence entry) generated_at_utc) (\<lambda>proof.
     let p = el_packet entry;
         b = \<lparr> eb_schema_version = ''ets.election.inclusion_bundle.v1'', eb_event_id = ep_event_id p,
               eb_election_id = ep_election_id p, eb_jurisdiction = ep_jurisdiction p, eb_event_type = ep_event_type p,
               eb_privacy_class = ep_privacy_class p, eb_payload_hash = ep_payload_hash p, eb_event_hash = el_event_hash entry,
               eb_leaf_hash = leaves ! nat (el_sequence entry), eb_root_manifest = manifest, eb_inclusion_proof = proof \<rparr>
     in if election_bundle_ok b then Inr b else Inl (ValidationError ''ElectionInclusionProofBundle'')))))"

definition create_election_batch_proof ::
  "utc \<Rightarrow> election_entry list \<Rightarrow> string list \<Rightarrow> string \<Rightarrow> datetime option \<Rightarrow> election_batch result" where
  "create_election_batch_proof now entries event_ids milestone generated_at_utc =
     rbind (create_election_root_manifest now entries milestone generated_at_utc) (\<lambda>manifest.
     rbind (rmap (\<lambda>event_id. create_election_inclusion_proof now entries event_id milestone generated_at_utc) event_ids) (\<lambda>proofs.
     Inr \<lparr> bb_schema_version = ''ets.election.batch_inclusion_bundle.v1'', bb_root_manifest = manifest, bb_proofs = proofs \<rparr>))"

definition invalid_bundle :: "election_bundle \<Rightarrow> utc \<Rightarrow> string \<Rightarrow> verification_result" where
  "invalid_bundle b verified_at reason =
     \<lparr> vr_valid = False, vr_reason = reason, vr_root_hash = Some (rm_merkle_root (eb_root_manifest b)),
       vr_leaf_hash = Some (eb_leaf_hash b), vr_tree_size = Some (rm_tree_size (eb_root_manifest b)),
       vr_verified_at_utc = verified_at \<rparr>"

text \<open>The leaf index of a proof is at least 0, so indexing raises only past the end of the list.\<close>

definition verify_election_inclusion_bundle :: "utc \<Rightarrow> election_bundle \<Rightarrow> verification_result result" where
  "verify_election_inclusion_bundle verified_at b =
     (let m = eb_root_manifest b; proof = eb_inclusion_proof b in
      if rm_hash_alg m \<noteq> ''sha256'' then Inr (invalid_bundle b verified_at ''unsupported hash algorithm'')
      else if rm_merkle_root m \<noteq> ip_root_hash proof then Inr (invalid_bundle b verified_at ''manifest root does not match proof root'')
      else if rm_tree_size m \<noteq> ip_tree_size proof then Inr (invalid_bundle b verified_at ''manifest tree size does not match proof tree size'')
      else if eb_event_id b \<notin> set (rm_event_ids m) then Inr (invalid_bundle b verified_at ''event_id is absent from root manifest'')
      else if int (length (rm_event_ids m)) \<le> ip_leaf_index proof then Inl (IndexError ''list index out of range'')
      else if rm_event_ids m ! nat (ip_leaf_index proof) \<noteq> eb_event_id b
      then Inr (invalid_bundle b verified_at ''event_id does not match proof leaf index'')
      else rbind (leaf_hash_for_event_hash (eb_event_hash b)) (\<lambda>leaf_hash.
        if leaf_hash \<noteq> eb_leaf_hash b then Inr (invalid_bundle b verified_at ''leaf hash does not match event hash'')
        else if ip_leaf_hash proof \<noteq> eb_leaf_hash b then Inr (invalid_bundle b verified_at ''proof leaf hash does not match bundle leaf hash'')
        else rbind (verify_inclusion_proof verified_at proof) (\<lambda>r.
          if \<not> vr_valid r then Inr r
          else Inr \<lparr> vr_valid = True, vr_reason = ''ok'', vr_root_hash = Some (rm_merkle_root m),
                 vr_leaf_hash = Some (eb_leaf_hash b), vr_tree_size = Some (rm_tree_size m), vr_verified_at_utc = verified_at \<rparr>)))"

definition verify_election_batch_bundle :: "utc \<Rightarrow> election_batch \<Rightarrow> verification_result list result" where
  "verify_election_batch_bundle now batch = rmap (verify_election_inclusion_bundle now) (bb_proofs batch)"

definition export_election_proof_report :: "utc \<Rightarrow> election_bundle \<Rightarrow> json result" where
  "export_election_proof_report now b =
     rbind (verify_election_inclusion_bundle now b) (\<lambda>r. Inr (JObj
       [(''event_id'', JStr (eb_event_id b)), (''election_id'', JStr (eb_election_id b)),
        (''milestone'', JStr (rm_milestone (eb_root_manifest b))), (''privacy_class'', JStr (eb_privacy_class b)),
        (''merkle_root'', JStr (rm_merkle_root (eb_root_manifest b))), (''leaf_hash'', JStr (eb_leaf_hash b)),
        (''tree_size'', JInt (rm_tree_size (eb_root_manifest b))), (''valid'', JBool (vr_valid r)), (''reason'', JStr (vr_reason r))]))"

definition dump_root_manifest :: "(utc \<Rightarrow> string) \<Rightarrow> election_root_manifest \<Rightarrow> json" where
  "dump_root_manifest dt m = JObj
     [(''schema_version'', JStr (rm_schema_version m)), (''election_id'', JStr (rm_election_id m)),
      (''jurisdiction'', JStr (rm_jurisdiction m)), (''milestone'', JStr (rm_milestone m)), (''tree_size'', JInt (rm_tree_size m)),
      (''merkle_root'', JStr (rm_merkle_root m)), (''event_ids'', JList (map JStr (rm_event_ids m))),
      (''generated_at_utc'', JStr (dt (rm_generated_at_utc m))), (''hash_alg'', JStr (rm_hash_alg m))]"

definition export_root_manifest_audit_summary ::
  "(utc \<Rightarrow> string) \<Rightarrow> utc \<Rightarrow> election_entry list \<Rightarrow> string \<Rightarrow> datetime option \<Rightarrow> json result" where
  "export_root_manifest_audit_summary dt now entries milestone generated_at_utc =
     rbind (create_election_root_manifest now entries milestone generated_at_utc) (\<lambda>m. Inr (JObj
       [(''root_manifest'', dump_root_manifest dt m), (''audit_log'', JList (export_election_audit_log dt entries))]))"

section \<open>The ledger\<close>

abbreviation entry_id :: "election_entry \<Rightarrow> string" where
  "entry_id e \<equiv> ep_event_id (el_packet e)"

abbreviation election_linked :: "(utc \<Rightarrow> string) \<Rightarrow> (election_entry \<Rightarrow> bool) \<Rightarrow> string option \<Rightarrow> election_entry list \<Rightarrow> bool" where
  "election_linked dt okb \<equiv> glinked okb (ep_previous_event_hash \<circ> el_packet) el_event_hash (election_payload dt \<circ> el_packet)"

lemma entry_issues_Nil:
  "entry_issues n h seen r e = [] \<longleftrightarrow> el_sequence e = n \<and> entry_id e \<notin> set seen \<and> el_event_hash e = r \<and> ep_previous_event_hash (el_packet e) = h"
  by (auto simp: entry_issues_def)

lemma replay_Nil_iff:
  "fst (replay dt n h seen es) = [] \<longleftrightarrow> map el_sequence es = map (\<lambda>i. n + int i) [0..<length es] \<and>
     distinct (map entry_id es) \<and> set (map entry_id es) \<inter> set seen = {} \<and> election_linked dt (\<lambda>_. True) h es"
proof (induction es arbitrary: n h seen)
  case (Cons e es)
  have upt: "map (\<lambda>i. n + int i) [0..<length (e # es)] = n # map (\<lambda>i. (n + 1) + int i) [0..<length es]"
    by (simp add: upt_conv_Cons map_Suc_upt [symmetric] comp_def algebra_simps del: upt_Suc)
  show ?case
    unfolding upt using Cons [of "n + 1" "Some (hash_election_packet dt (el_packet e))" "entry_id e # seen"]
    by (auto simp: Let_def entry_issues_Nil hash_election_packet_def split: prod.splits)
qed simp

lemma replay_tip: "snd (replay dt n h seen es) = (if es = [] then h else Some (hash_election_packet dt (el_packet (last es))))"
  by (induction es arbitrary: n h seen) (simp_all add: Let_def case_prod_beta)

definition ledger_submit :: "(utc \<Rightarrow> string) \<Rightarrow> election_ledger \<Rightarrow> election_packet \<Rightarrow> election_ledger" where
  "ledger_submit dt l p = (case ledger_append dt p l of Inl _ \<Rightarrow> l | Inr (_, l') \<Rightarrow> l')"

definition ledger_of :: "(utc \<Rightarrow> string) \<Rightarrow> election_packet list \<Rightarrow> election_ledger" where
  "ledger_of dt ps = foldl (ledger_submit dt) ledger_init ps"

definition ledger_inv :: "(utc \<Rightarrow> string) \<Rightarrow> election_ledger \<Rightarrow> bool" where
  "ledger_inv dt l \<longleftrightarrow> map el_sequence (ld_entries l) = map int [0..<length (ld_entries l)] \<and>
     distinct (map entry_id (ld_entries l)) \<and> election_linked dt (\<lambda>_. True) None (ld_entries l) \<and>
     ld_by_event_id l = map_of (map (\<lambda>e. (entry_id e, e)) (ld_entries l))"

lemma ledger_append_inv:
  assumes "ledger_inv dt l" "ledger_append dt p l = Inr (e, l')"
  shows "ledger_inv dt l' \<and> ld_entries l' = ld_entries l @ [e] \<and> el_packet e = p"
proof -
  from assms have fresh: "ep_event_id p \<notin> set (map entry_id (ld_entries l))"
    by (force simp: ledger_append_def ledger_inv_def map_of_eq_None_iff image_iff split: if_split_asm)
  from assms(2) have l': "e = \<lparr> el_sequence = int (length (ld_entries l)), el_packet = p, el_event_hash = hash_election_packet dt p \<rparr>"
    "l' = \<lparr> ld_entries = ld_entries l @ [e], ld_by_event_id = (ld_by_event_id l)(ep_event_id p \<mapsto> e) \<rparr>"
    "ep_previous_event_hash p = ledger_tip_hash l"
    by (auto simp: ledger_append_def Let_def split: if_split_asm)
  have map: "map_of (map (\<lambda>e. (entry_id e, e)) (ld_entries l @ [e])) = (map_of (map (\<lambda>e. (entry_id e, e)) (ld_entries l)))(ep_event_id p \<mapsto> e)"
  proof -
    have "dom (map_of (map (\<lambda>e. (entry_id e, e)) (ld_entries l))) \<inter> dom [ep_event_id p \<mapsto> e] = {}"
      using fresh by (auto dest!: map_of_SomeD)
    then have "[ep_event_id p \<mapsto> e] ++ map_of (map (\<lambda>e. (entry_id e, e)) (ld_entries l)) =
        map_of (map (\<lambda>e. (entry_id e, e)) (ld_entries l)) ++ [ep_event_id p \<mapsto> e]"
      by (intro map_add_comm) blast
    moreover have "el_packet e = p" by (simp add: l'(1))
    ultimately show ?thesis by simp
  qed
  have e: "el_packet e = p" "el_sequence e = int (length (ld_entries l))" "el_event_hash e = canon_sha256 (election_payload dt p)"
    by (simp_all add: l'(1) hash_election_packet_def)
  have ent: "ld_entries l' = ld_entries l @ [e]" "ld_by_event_id l' = (ld_by_event_id l)(ep_event_id p \<mapsto> e)" by (simp_all add: l'(2))
  have "election_linked dt (\<lambda>_. True) None (ld_entries l @ [e])"
    using assms(1) l'(3) by (simp add: ledger_inv_def glinked_append e tip_digest_def ledger_tip_hash_def)
  moreover have "distinct (map entry_id (ld_entries l @ [e]))" using assms(1) fresh by (simp add: ledger_inv_def e(1))
  moreover have "map el_sequence (ld_entries l @ [e]) = map int [0..<length (ld_entries l @ [e])]"
    using assms(1) by (simp add: ledger_inv_def e(2))
  moreover have "ld_by_event_id l' = map_of (map (\<lambda>e. (entry_id e, e)) (ld_entries l'))"
    unfolding ent(1) map using assms(1) by (simp add: ent(2) ledger_inv_def)
  ultimately show ?thesis by (simp add: ledger_inv_def ent(1) e(1))
qed

lemma ledger_submit_inv: "ledger_inv dt l \<Longrightarrow> ledger_inv dt (ledger_submit dt l p) \<and> (\<exists>more. ld_entries (ledger_submit dt l p) = ld_entries l @ more)"
  using ledger_append_inv by (auto simp: ledger_submit_def split: sum.splits)

lemma foldl_ledger: "ledger_inv dt l \<Longrightarrow> ledger_inv dt (foldl (ledger_submit dt) l ps) \<and> (\<exists>more. ld_entries (foldl (ledger_submit dt) l ps) = ld_entries l @ more)"
proof (induction ps arbitrary: l)
  case (Cons p ps)
  then show ?case using ledger_submit_inv [OF Cons.prems, of p] Cons.IH [of "ledger_submit dt l p"] by (metis append.assoc foldl_Cons)
qed simp

lemma ledger_of_inv [ets_inv]: "ledger_inv dt (ledger_of dt ps)"
  unfolding ledger_of_def using foldl_ledger [of dt ledger_init ps] by (simp add: ledger_inv_def ledger_init_def)

lemma ledger_verifies:
  assumes "ledger_inv dt l"
  shows "verify_election_chain dt (ld_entries l) =
    \<lparr> ec_valid = True, ec_entry_count = int (length (ld_entries l)), ec_tip_hash = ledger_tip_hash l, ec_issues = [] \<rparr>"
proof -
  have "fst (replay dt 0 None [] (ld_entries l)) = []"
    using assms by (simp add: replay_Nil_iff ledger_inv_def)
  moreover have "snd (replay dt 0 None [] (ld_entries l)) = ledger_tip_hash l"
  proof (cases "ld_entries l" rule: rev_cases)
    case (snoc es e)
    then have "el_event_hash e = hash_election_packet dt (el_packet e)"
      using assms by (simp add: ledger_inv_def glinked_append hash_election_packet_def)
    with snoc show ?thesis by (simp add: replay_tip ledger_tip_hash_def)
  qed (simp add: replay_tip ledger_tip_hash_def)
  ultimately show ?thesis by (simp add: verify_election_chain_def case_prod_beta)
qed

text \<open>
  C19. The election ledger is append-only and always replays cleanly. Whatever packets are submitted, accepted or
  not, the ledger's chain verifies without issue, with its own tip; every entry is found under its event
  identifier; and later submissions only extend the list of entries.
\<close>

theorem election_ledger_append_only:
  "verify_election_chain dt (ld_entries (ledger_of dt ps)) =
     \<lparr> ec_valid = True, ec_entry_count = int (length (ld_entries (ledger_of dt ps))), ec_tip_hash = ledger_tip_hash (ledger_of dt ps), ec_issues = [] \<rparr> \<and>
   map (\<lambda>e. ledger_get_by_event_id (entry_id e) (ledger_of dt ps)) (ld_entries (ledger_of dt ps)) = map Inr (ld_entries (ledger_of dt ps)) \<and>
   (\<exists>more. ld_entries (ledger_of dt (ps @ qs)) = ld_entries (ledger_of dt ps) @ more)"
proof (intro conjI)
  let ?l = "ledger_of dt ps"
  have inv: "ledger_inv dt ?l" by (rule ledger_of_inv)
  show "verify_election_chain dt (ld_entries ?l) =
     \<lparr> ec_valid = True, ec_entry_count = int (length (ld_entries ?l)), ec_tip_hash = ledger_tip_hash ?l, ec_issues = [] \<rparr>"
    by (rule ledger_verifies [OF inv])
  have "ld_by_event_id ?l (entry_id e) = Some e" if "e \<in> set (ld_entries ?l)" for e
    using inv that by (auto simp: ledger_inv_def comp_def intro!: map_of_is_SomeI)
  then show "map (\<lambda>e. ledger_get_by_event_id (entry_id e) ?l) (ld_entries ?l) = map Inr (ld_entries ?l)"
    by (simp add: ledger_get_by_event_id_def)
  show "\<exists>more. ld_entries (ledger_of dt (ps @ qs)) = ld_entries ?l @ more"
    using foldl_ledger [OF inv, of qs] by (simp add: ledger_of_def)
qed

section \<open>What a tip hash commits to\<close>

definition election_content :: "(utc \<Rightarrow> string) \<Rightarrow> election_entry \<Rightarrow> string option \<times> string option \<times> string list \<times> json" where
  "election_content dt e = (let p = el_packet e in
     (ep_previous_event_hash p, ep_artifact_ref p,
      [ep_schema_version p, ep_event_id p, ep_election_id p, ep_jurisdiction p, ep_event_type p, ep_actor_id p, ep_device_id p,
       dt (ep_timestamp_utc p), ep_payload_hash p, ep_privacy_class p], jnorm (JObj (ep_metadata p))))"

definition entry_packet_ok :: "election_entry \<Rightarrow> bool" where
  "entry_packet_ok e \<longleftrightarrow> election_packet_ok (el_packet e)"

lemma election_payload_json_ok: "election_packet_ok p \<Longrightarrow> json_ok (election_payload dt p)"
  by (simp add: election_payload_def election_packet_ok_def JOpt_def split: option.split)

lemma election_payload_content:
  fixes a b :: election_entry
  assumes "jnorm (election_payload dt (el_packet a)) = jnorm (election_payload dt (el_packet b))"
  shows "election_content dt a = election_content dt b"
proof -
  have "map (jnorm \<circ> snd) (case election_payload dt (el_packet a) of JObj kvs \<Rightarrow> kvs) =
      map (jnorm \<circ> snd) (case election_payload dt (el_packet b) of JObj kvs \<Rightarrow> kvs)"
    using assms unfolding election_payload_def by (simp only: json.case) (rule jnorm_JObj_values, simp_all)
  then show ?thesis
    by (simp add: election_payload_def election_content_def Let_def del: jnorm.simps(2))
qed

interpretation election: genesis_linked entry_packet_ok "ep_previous_event_hash \<circ> el_packet" el_event_hash
  "election_payload dt \<circ> el_packet" "election_content dt" for dt
proof unfold_locales
  fix a b :: election_entry
  assume "jnorm ((election_payload dt \<circ> el_packet) a) = jnorm ((election_payload dt \<circ> el_packet) b)"
  then show "election_content dt a = election_content dt b"
    unfolding comp_def by (rule election_payload_content)
qed (auto simp: entry_packet_ok_def election_payload_json_ok election_content_def Let_def simp del: jnorm.simps)

lemma glinked_mono: "glinked (\<lambda>_. True) pr dg py h bs \<Longrightarrow> list_all okb bs \<Longrightarrow> glinked okb pr dg py h bs"
  by (induction bs arbitrary: h) auto

lemma verified_chain_linked:
  "ec_valid (verify_election_chain dt es) \<Longrightarrow> election_linked dt (\<lambda>_. True) None es \<and>
     ec_tip_hash (verify_election_chain dt es) = (if es = [] then None else Some (el_event_hash (last es)))"
proof -
  assume "ec_valid (verify_election_chain dt es)"
  then have "fst (replay dt 0 None [] es) = []" by (simp add: verify_election_chain_def case_prod_beta)
  then have l: "election_linked dt (\<lambda>_. True) None es" by (simp add: replay_Nil_iff)
  moreover have "ec_tip_hash (verify_election_chain dt es) = (if es = [] then None else Some (hash_election_packet dt (el_packet (last es))))"
    by (simp add: verify_election_chain_def case_prod_beta replay_tip)
  ultimately show ?thesis
    by (cases es rule: rev_cases) (auto simp: glinked_append hash_election_packet_def)
qed

text \<open>
  The tip hash of an election chain commits to the whole history. Two chains of valid packets that verify and have
  the same tip record the same packets in the same order (up to signatures, which are not hashed, and the order of
  metadata keys), or their packets' canonical encodings exhibit a SHA-256 collision.
\<close>

theorem election_tip_binds_history:
  assumes "ec_valid (verify_election_chain dt es)" "ec_valid (verify_election_chain dt fs)" "es \<noteq> []" "fs \<noteq> []"
    "list_all entry_packet_ok es" "list_all entry_packet_ok fs"
    "ec_tip_hash (verify_election_chain dt es) = ec_tip_hash (verify_election_chain dt fs)"
  shows "map (election_content dt) es = map (election_content dt) fs \<or>
    collides (payload_inputs (election_payload dt \<circ> el_packet) es) (payload_inputs (election_payload dt \<circ> el_packet) fs)"
proof (rule election.chain_binding [OF _ _ assms(3,4)])
  show "el_event_hash (last es) = el_event_hash (last fs)"
    using verified_chain_linked [OF assms(1)] verified_chain_linked [OF assms(2)] assms(3,4,7) by simp
qed (use verified_chain_linked [OF assms(1)] verified_chain_linked [OF assms(2)] assms(5,6) glinked_mono in auto)

section \<open>Inclusion bundles\<close>

lemma leaf_hash_for_hash: "leaf_hash_for_event_hash (canon_sha256 j) = Inr (hexlify (leaf_digest (sha256 (canon j))))"
  by (simp add: leaf_hash_for_event_hash_def leaf_digest_def sha256_hex_def)

lemma leaf_hash_Inr: "hash_field h \<Longrightarrow> leaf_hash_for_event_hash h = Inr (hexlify (leaf_digest (unhex h)))"
  by (simp add: leaf_hash_for_event_hash_def leaf_digest_def sha256_hex_def hash_field_hex64 fromhex_hex64)

lemma ledger_packets: "set (map el_packet (ld_entries (ledger_of dt ps))) \<subseteq> set ps"
proof -
  have "set (map el_packet (ld_entries (foldl (ledger_submit dt) l ps))) \<subseteq> set (map el_packet (ld_entries l)) \<union> set ps" for l
  proof (induction ps arbitrary: l)
    case (Cons p ps)
    have "set (map el_packet (ld_entries (ledger_submit dt l p))) \<subseteq> insert p (set (map el_packet (ld_entries l)))"
      by (auto simp: ledger_submit_def ledger_append_def Let_def split: if_splits sum.splits)
    with Cons [of "ledger_submit dt l p"] show ?case by auto
  qed simp
  from this [of ledger_init] show ?thesis by (simp add: ledger_of_def ledger_init_def)
qed

lemma find_unique: "distinct (map f xs) \<Longrightarrow> x \<in> set xs \<Longrightarrow> find (\<lambda>y. f y = f x) xs = Some x"
  by (induction xs) auto

lemma event_type_length: "t \<in> set election_event_types \<Longrightarrow> field_length 1 128 t"
  by (auto simp: election_event_types_def field_length_def)

lemma privacy_class_length: "c \<in> set privacy_classes \<Longrightarrow> field_length 1 32 c"
  by (auto simp: privacy_classes_def field_length_def)

definition entry_leaf :: "(utc \<Rightarrow> string) \<Rightarrow> election_entry \<Rightarrow> byte list" where
  "entry_leaf dt e = leaf_digest (sha256 (canon (election_payload dt (el_packet e))))"

lemma ledger_leaf_hashes:
  assumes "ledger_inv dt l"
  shows "leaf_hashes (ld_entries l) = Inr (map (\<lambda>e. hexlify (entry_leaf dt e)) (ld_entries l))"
  unfolding leaf_hashes_def
proof (rule rmap_all_Inr)
  fix e
  assume e: "e \<in> set (ld_entries l)"
  have "glinked (\<lambda>_. True) pr dg py h es \<Longrightarrow> x \<in> set es \<Longrightarrow> dg x = canon_sha256 (py x)" for pr dg py h es x
    by (induction es arbitrary: h) auto
  from this [of "ep_previous_event_hash \<circ> el_packet" el_event_hash "election_payload dt \<circ> el_packet" None "ld_entries l" e] assms e
  show "leaf_hash_for_event_hash (el_event_hash e) = Inr (hexlify (entry_leaf dt e))"
    by (simp add: ledger_inv_def entry_leaf_def leaf_hash_for_hash)
qed

lemma ledger_event_hash:
  assumes "ledger_inv dt l" "e \<in> set (ld_entries l)"
  shows "el_event_hash e = canon_sha256 (election_payload dt (el_packet e))"
proof -
  have "glinked (\<lambda>_. True) pr dg py h es \<Longrightarrow> x \<in> set es \<Longrightarrow> dg x = canon_sha256 (py x)" for pr dg py h es x
    by (induction es arbitrary: h) auto
  from this [of "ep_previous_event_hash \<circ> el_packet" el_event_hash "election_payload dt \<circ> el_packet" None "ld_entries l" e] assms
  show ?thesis by (simp add: ledger_inv_def)
qed

lemma hex64_entry_leaf [simp]: "hex64 (hexlify (entry_leaf dt e))"
  unfolding entry_leaf_def leaf_digest_def by (metis hex64_sha256_hex(1) sha256_hex_def)

definition one_election :: "string \<Rightarrow> string \<Rightarrow> election_packet \<Rightarrow> bool" where
  "one_election eid jur p \<longleftrightarrow> election_packet_ok p \<and> ep_election_id p = eid \<and> ep_jurisdiction p = jur"

lemma manifest_created:
  assumes "ledger_inv dt l" "ld_entries l \<noteq> []" "list_all (one_election eid jur \<circ> el_packet) (ld_entries l)" "field_length 1 128 milestone"
  shows "\<exists>m. create_election_root_manifest now (ld_entries l) milestone None = Inr m \<and> root_manifest_ok m \<and> rm_hash_alg m = ''sha256'' \<and>
    rm_tree_size m = int (length (ld_entries l)) \<and> rm_event_ids m = map entry_id (ld_entries l) \<and>
    merkle_root (map (\<lambda>e. hexlify (entry_leaf dt e)) (ld_entries l)) = Inr (rm_merkle_root m)"
proof -
  obtain f fs where es: "ld_entries l = f # fs" using assms(2) by (cases "ld_entries l") auto
  have same: "list_ex (\<lambda>e. ep_election_id (el_packet e) \<noteq> ep_election_id (el_packet f)) (f # fs) = False"
    "list_ex (\<lambda>e. ep_jurisdiction (el_packet e) \<noteq> ep_jurisdiction (el_packet f)) (f # fs) = False"
    using assms(3) unfolding es by (auto simp: one_election_def list_ex_iff list_all_iff)
  obtain root where root: "merkle_root (map (\<lambda>e. hexlify (entry_leaf dt e)) (f # fs)) = Inr root" "hex64 root"
    using merkle_root_mth [of "map (\<lambda>e. hexlify (entry_leaf dt e)) (f # fs)"] by auto
  have leaves: "leaf_hashes (f # fs) = Inr (map (\<lambda>e. hexlify (entry_leaf dt e)) (f # fs))"
    using ledger_leaf_hashes [OF assms(1)] unfolding es .
  have lens: "field_length 1 128 (ep_election_id (el_packet f))" "field_length 1 128 (ep_jurisdiction (el_packet f))"
    using assms(3) unfolding es by (auto simp: one_election_def election_packet_ok_def)
  show ?thesis
    unfolding es create_election_root_manifest_def list.case Let_def same leaves
    using assms(4) root lens by (simp add: generated_at_def root_manifest_ok_def hash_field_hex64)
qed

lemma election_bundle_created:
  assumes "list_all (one_election eid jur) ps" "field_length 1 128 milestone" "e \<in> set (ld_entries (ledger_of dt ps))"
  shows "\<exists>b r. create_election_inclusion_proof now (ld_entries (ledger_of dt ps)) (entry_id e) milestone None = Inr b \<and>
    eb_event_hash b = el_event_hash e \<and> verify_election_inclusion_bundle later b = Inr r \<and> vr_valid r \<and> election_bundle_ok b \<and>
    rm_tree_size (eb_root_manifest b) = int (length (ld_entries (ledger_of dt ps))) \<and>
    merkle_root (map (\<lambda>e. hexlify (entry_leaf dt e)) (ld_entries (ledger_of dt ps))) = Inr (rm_merkle_root (eb_root_manifest b))"
proof -
  define l where "l = ledger_of dt ps"
  have inv: "ledger_inv dt l" unfolding l_def by (rule ledger_of_inv)
  have pk: "list_all (one_election eid jur \<circ> el_packet) (ld_entries l)"
    using ledger_packets [of dt ps] assms(1) unfolding l_def by (force simp: list_all_iff)
  have e: "e \<in> set (ld_entries l)" using assms(3) by (simp add: l_def)
  let ?leaf = "\<lambda>e. hexlify (entry_leaf dt e)"
  from e obtain n where n: "n < length (ld_entries l)" "ld_entries l ! n = e" by (auto simp: in_set_conv_nth)
  have "map el_sequence (ld_entries l) ! n = int n" using inv n(1) by (simp add: ledger_inv_def)
  then have sq: "el_sequence e = int n" using n by simp
  have get: "get_entry (ld_entries l) (entry_id e) = Inr e"
    using find_unique [of entry_id "ld_entries l" e] inv e by (simp add: get_entry_def ledger_inv_def)
  obtain m where m: "create_election_root_manifest now (ld_entries l) milestone None = Inr m" "root_manifest_ok m" "rm_hash_alg m = ''sha256''"
    "rm_tree_size m = int (length (ld_entries l))" "rm_event_ids m = map entry_id (ld_entries l)"
    "merkle_root (map ?leaf (ld_entries l)) = Inr (rm_merkle_root m)"
    using manifest_created [OF inv _ pk assms(2), of now] e by (cases "ld_entries l") auto
  have "\<forall>h \<in> set (map ?leaf (ld_entries l)). hex64 h" "n < length (map ?leaf (ld_entries l))" "generated_at ''InclusionProof'' now None = Inr now"
    using n(1) by (auto simp: generated_at_def)
  from inclusion_proof_for_leaves [OF this, of later] n m(6) obtain p r where
    p: "inclusion_proof_for now (map ?leaf (ld_entries l)) (int n) None = Inr p" "inclusion_proof_ok p" "ip_root_hash p = rm_merkle_root m"
      "ip_leaf_hash p = ?leaf e" "ip_leaf_index p = int n" "ip_tree_size p = int (length (ld_entries l))"
      "verify_inclusion_proof later p = Inr r" "vr_valid r" by auto
  have ok: "election_packet_ok (el_packet e)" using pk e by (auto simp: list_all_iff one_election_def)
  have hash: "el_event_hash e = canon_sha256 (election_payload dt (el_packet e))" by (rule ledger_event_hash [OF inv e])
  define b where "b = \<lparr> eb_schema_version = ''ets.election.inclusion_bundle.v1'', eb_event_id = entry_id e,
      eb_election_id = ep_election_id (el_packet e), eb_jurisdiction = ep_jurisdiction (el_packet e), eb_event_type = ep_event_type (el_packet e),
      eb_privacy_class = ep_privacy_class (el_packet e), eb_payload_hash = ep_payload_hash (el_packet e), eb_event_hash = el_event_hash e,
      eb_leaf_hash = ?leaf e, eb_root_manifest = m, eb_inclusion_proof = p \<rparr>"
  have bok: "election_bundle_ok b"
    using ok m(2) p(2) event_type_length privacy_class_length
    by (simp add: election_bundle_ok_def b_def election_packet_ok_def hash_field_hex64 hash)
  then have created: "create_election_inclusion_proof now (ld_entries l) (entry_id e) milestone None = Inr b"
    using n by (simp add: create_election_inclusion_proof_def get m(1) ledger_leaf_hashes [OF inv] sq p(1) b_def Let_def)
  have verified: "\<exists>r. verify_election_inclusion_bundle later b = Inr r \<and> vr_valid r"
    using m(3-5) p n e by (simp add: verify_election_inclusion_bundle_def b_def Let_def hash leaf_hash_for_hash entry_leaf_def)
  have root: "rm_tree_size (eb_root_manifest b) = int (length (ld_entries l))"
    "merkle_root (map ?leaf (ld_entries l)) = Inr (rm_merkle_root (eb_root_manifest b))" "eb_event_hash b = el_event_hash e"
    using m(4,6) by (simp_all add: b_def)
  show ?thesis using created verified bok root unfolding l_def by blast
qed

text \<open>
  Every entry of an election ledger has an inclusion bundle, and it verifies: in a ledger built from valid packets
  of one election and jurisdiction, \<^verbatim>\<open>create_election_inclusion_proof\<close> returns a bundle for each entry's event
  identifier, with that entry's event hash, and \<^verbatim>\<open>verify_election_inclusion_bundle\<close> accepts it.
\<close>

theorem election_proof_round_trip:
  assumes "list_all (one_election eid jur) ps" "field_length 1 128 milestone" "e \<in> set (ld_entries (ledger_of dt ps))"
  shows "\<exists>b r. create_election_inclusion_proof now (ld_entries (ledger_of dt ps)) (entry_id e) milestone None = Inr b \<and>
    eb_event_hash b = el_event_hash e \<and> verify_election_inclusion_bundle later b = Inr r \<and> vr_valid r"
  using election_bundle_created [OF assms, of now later] by blast

text \<open>
  An accepted bundle names an entry of the ledger. If a well-formed bundle verifies and its manifest carries the
  Merkle root and size of a ledger's entries, the entry at the proof's index has an event hash with the same bytes
  as the bundle's, or a message hashed on the way collides with one hashed for the ledger.
\<close>

theorem election_bundle_sound:
  assumes "election_bundle_ok b" "verify_election_inclusion_bundle now b = Inr r" "vr_valid r"
    and "leaf_hashes es = Inr ls" "merkle_root ls = Inr (rm_merkle_root (eb_root_manifest b))"
    and "rm_tree_size (eb_root_manifest b) = int (length es)" "list_all (hash_field \<circ> el_event_hash) es"
  shows "let i = nat (ip_leaf_index (eb_inclusion_proof b)); ds = map (unhex \<circ> el_event_hash) es in
    (i < length es \<and> unhex (eb_event_hash b) = unhex (el_event_hash (es ! i))) \<or>
    collides (leaf_inputs [unhex (eb_event_hash b)]) (leaf_inputs ds) \<or>
    collides (path_inputs (unhex (eb_leaf_hash b)) (proof_steps (eb_inclusion_proof b))) (node_inputs (map leaf_digest ds))"
proof -
  let ?p = "eb_inclusion_proof b" and ?ds = "map (unhex \<circ> el_event_hash) es"
  have lsq: "ls = map (\<lambda>d. hexlify (leaf_digest d)) ?ds"
  proof -
    have "leaf_hashes es = Inr (map (\<lambda>e. hexlify (leaf_digest (unhex (el_event_hash e)))) es)"
      unfolding leaf_hashes_def using assms(7) by (intro rmap_all_Inr leaf_hash_Inr) (auto simp: list_all_iff)
    with assms(4) show ?thesis by (simp add: comp_def)
  qed
  have hex: "\<forall>h \<in> set ls. hex64 h" unfolding lsq by (auto simp: leaf_digest_def)
  have b: "hash_field (eb_event_hash b)" "inclusion_proof_ok ?p" using assms(1) by (auto simp: election_bundle_ok_def)
  have v: "\<exists>r. verify_inclusion_proof now ?p = Inr r \<and> vr_valid r" "rm_merkle_root (eb_root_manifest b) = ip_root_hash ?p"
    "rm_tree_size (eb_root_manifest b) = ip_tree_size ?p" "eb_leaf_hash b = hexlify (leaf_digest (unhex (eb_event_hash b)))"
    "ip_leaf_hash ?p = eb_leaf_hash b"
    using assms(2,3) b(1) by (auto simp: verify_election_inclusion_bundle_def Let_def invalid_bundle_def leaf_hash_Inr split: if_split_asm)
  have "unhex (ip_root_hash ?p) = mth (map leaf_digest ?ds)"
    using merkle_root_mth [OF hex] assms(5) v(2) by (auto simp: lsq comp_def)
  with v(1) inclusion_binding_digests [OF b(2), of now _ ?ds] v(3) assms(6)
  have "(unhex (ip_leaf_hash ?p) = leaf_digest (?ds ! nat (ip_leaf_index ?p)) \<and> nat (ip_leaf_index ?p) < length ?ds) \<or>
      collides (path_inputs (unhex (ip_leaf_hash ?p)) (proof_steps ?p)) (node_inputs (map leaf_digest ?ds))" by auto
  moreover have "unhex (eb_event_hash b) = d \<or> collides (leaf_inputs [unhex (eb_event_hash b)]) (leaf_inputs ?ds)"
    if "leaf_digest (unhex (eb_event_hash b)) = leaf_digest d" "d \<in> set ?ds" for d
    using that by (auto simp: leaf_digest_def leaf_inputs_def collides_def sha256_collision_def)
  ultimately show ?thesis
    unfolding Let_def using v(4,5) by (auto simp del: map_map)
qed

text \<open>
  Verification of a bundle does not look at what the bundle says of the packet: replacing its payload hash, event
  type, privacy class, election and jurisdiction by anything leaves the result as it was.
\<close>

theorem bundle_description_unbound:
  "verify_election_inclusion_bundle now (b \<lparr> eb_payload_hash := h, eb_event_type := t, eb_privacy_class := c,
     eb_election_id := e, eb_jurisdiction := j \<rparr>) = verify_election_inclusion_bundle now b"
  unfolding verify_election_inclusion_bundle_def invalid_bundle_def by (simp add: Let_def cong: if_cong)

section \<open>Witnesses\<close>

definition sample_packet :: election_packet where
  "sample_packet = \<lparr> ep_schema_version = ''ets.election.packet.v1'', ep_event_id = ''e1'', ep_election_id = ''el'', ep_jurisdiction = ''j'',
     ep_event_type = ''custody_transfer'', ep_actor_id = ''a'', ep_device_id = ''d'', ep_timestamp_utc = 0, ep_payload_hash = sha256_hex [],
     ep_previous_event_hash = None, ep_signature = \<lparr> ps_algorithm = ''x'', ps_key_id = ''k'', ps_value = ''v'' \<rparr>, ep_privacy_class = ''public'',
     ep_artifact_ref = None, ep_metadata = [] \<rparr>"

definition sample_entry :: election_entry where
  "sample_entry = \<lparr> el_sequence = 0, el_packet = sample_packet, el_event_hash = hash_election_packet isoformat_z sample_packet \<rparr>"

lemma sample_packet_ok: "one_election ''el'' ''j'' sample_packet"
  by (simp add: one_election_def election_packet_ok_def sample_packet_def field_length_def election_event_types_def
      hash_field_hex64 packet_signature_ok_def privacy_classes_def canon_def utf8_def utf8_char_def)

lemma sample_ledger: "ld_entries (ledger_of isoformat_z [sample_packet]) = [sample_entry]"
  by (simp add: ledger_of_def ledger_submit_def ledger_append_def ledger_init_def ledger_tip_hash_def Let_def sample_entry_def sample_packet_def)

lemma sample_chain: "ec_valid (verify_election_chain isoformat_z [sample_entry])"
  using ledger_verifies [OF ledger_of_inv, of isoformat_z "[sample_packet]"] by (simp add: sample_ledger)

theorem election_tip_binds_history_witness:
  "map (election_content isoformat_z) [sample_entry] = map (election_content isoformat_z) [sample_entry] \<or>
   collides (payload_inputs (election_payload isoformat_z \<circ> el_packet) [sample_entry]) (payload_inputs (election_payload isoformat_z \<circ> el_packet) [sample_entry])"
proof (rule election_tip_binds_history [OF sample_chain sample_chain])
  show "list_all entry_packet_ok [sample_entry]" "list_all entry_packet_ok [sample_entry]"
    using sample_packet_ok by (simp_all add: entry_packet_ok_def sample_entry_def one_election_def)
qed simp_all

lemma sample_milestone: "field_length 1 128 ''m''" "sample_entry \<in> set (ld_entries (ledger_of isoformat_z [sample_packet]))"
  "list_all (one_election ''el'' ''j'') [sample_packet]"
  using sample_packet_ok by (simp_all add: field_length_def sample_ledger)

theorem election_proof_round_trip_witness:
  "\<exists>b r. create_election_inclusion_proof 0 [sample_entry] (entry_id sample_entry) ''m'' None = Inr b \<and>
     verify_election_inclusion_bundle 1 b = Inr r \<and> vr_valid r"
  using election_proof_round_trip [OF sample_milestone(3,1,2), of 0 1] unfolding sample_ledger by blast

theorem election_bundle_sound_witness:
  "\<exists>b :: election_bundle. let i = nat (ip_leaf_index (eb_inclusion_proof b)); ds = map (unhex \<circ> el_event_hash) [sample_entry] in
    (i < length [sample_entry] \<and> unhex (eb_event_hash b) = unhex (el_event_hash ([sample_entry] ! i))) \<or>
    collides (leaf_inputs [unhex (eb_event_hash b)]) (leaf_inputs ds) \<or>
    collides (path_inputs (unhex (eb_leaf_hash b)) (proof_steps (eb_inclusion_proof b))) (node_inputs (map leaf_digest ds))"
proof -
  obtain b r where b: "verify_election_inclusion_bundle 1 b = Inr r" "vr_valid r" "election_bundle_ok b"
    "rm_tree_size (eb_root_manifest b) = int (length [sample_entry])"
    "merkle_root (map (\<lambda>e. hexlify (entry_leaf isoformat_z e)) [sample_entry]) = Inr (rm_merkle_root (eb_root_manifest b))"
    using election_bundle_created [OF sample_milestone(3,1,2), of 0 1] unfolding sample_ledger by blast
  have leaves: "leaf_hashes [sample_entry] = Inr (map (\<lambda>e. hexlify (entry_leaf isoformat_z e)) [sample_entry])"
    using ledger_leaf_hashes [OF ledger_of_inv, of isoformat_z "[sample_packet]"] unfolding sample_ledger .
  have "list_all (hash_field \<circ> el_event_hash) [sample_entry]"
    by (simp add: sample_entry_def hash_election_packet_def hash_field_hex64)
  from election_bundle_sound [OF b(3,1,2) leaves b(5,4) this] show ?thesis by (rule exI)
qed

end
