(* ===== verification/Ets_Json_Parse.thy ===== *)
theory Ets_Json_Parse
  imports Ets_Json
begin

text \<open>
  \<^verbatim>\<open>json.loads\<close>, as the components that keep JSON text in a database use it.

  The parser follows the scanner of the standard library: white space around values and separators,
  strings with escapes and without control characters, integers and floats by its number pattern, the three literals,
  \<^verbatim>\<open>NaN\<close> and the infinities, and dictionaries in which the last of several equal keys wins. A
  \<^verbatim>\<open>JSONDecodeError\<close> is a \<open>ValueError\<close>. Two things stay outside: \<open>fl\<close>, the value of a float literal, is a parameter
  (floats are their \<^verbatim>\<open>repr\<close> text throughout the development), and an escape \<^verbatim>\<open>\uXXXX\<close> above the code points of \<open>string\<close> is
  reported as \<open>UnicodeError\<close>. A recursive call is made only on a shorter rest of the text, which
  the guards in \<open>parse_elements\<close> and \<open>parse_members\<close> state.

  \<open>loads_dumps\<close> shows that reading back what \<open>dumps\<close> printed gives the value, its keys sorted.
\<close>

section \<open>Scanner\<close>

definition json_space :: "char \<Rightarrow> bool" where
  "json_space c \<longleftrightarrow> c \<in> {CHR '' '', CHR 0x09, CHR 0x0A, CHR 0x0D}"

definition skip :: "string \<Rightarrow> string" where
  "skip s = dropWhile json_space s"

definition simple_escape :: "char \<Rightarrow> char option" where
  "simple_escape c = map_of [(CHR 0x22, CHR 0x22), (CHR 0x5C, CHR 0x5C), (CHR ''/'', CHR ''/''), (CHR ''b'', CHR 0x08),
     (CHR ''f'', CHR 0x0C), (CHR ''n'', CHR 0x0A), (CHR ''r'', CHR 0x0D), (CHR ''t'', CHR 0x09)] c"

definition hex_escape :: "char \<Rightarrow> char \<Rightarrow> char \<Rightarrow> char \<Rightarrow> char result" where
  "hex_escape a b c d =
     (case (hex_val a, hex_val b, hex_val c, hex_val d) of
        (Some i, Some j, Some k, Some l) \<Rightarrow>
          if i = 0 \<and> j = 0 then Inr (char_of (16 * k + l)) else Inl (UnicodeError ''code point above U+00FF'')
      | _ \<Rightarrow> Inl (ValueError ''Invalid escape''))"

fun scan_string :: "string \<Rightarrow> (string \<times> string) result" where
  "scan_string [] = Inl (ValueError ''Unterminated string starting at'')"
| "scan_string (c # s) =
     (if c = CHR 0x22 then Inr ([], s)
      else if c = CHR 0x5C then
        (case s of
           [] \<Rightarrow> Inl (ValueError ''Unterminated string starting at'')
         | d # t \<Rightarrow>
             if d = CHR ''u'' then
               (case t of
                  h1 # h2 # h3 # h4 # r \<Rightarrow> rbind (hex_escape h1 h2 h3 h4) (\<lambda>x. rbind (scan_string r) (\<lambda>(xs, r'). Inr (x # xs, r')))
                | _ \<Rightarrow> Inl (ValueError ''Invalid escape''))
             else (case simple_escape d of
                  None \<Rightarrow> Inl (ValueError ''Invalid escape'')
                | Some x \<Rightarrow> rbind (scan_string t) (\<lambda>(xs, r). Inr (x # xs, r))))
      else if code c < 32 then Inl (ValueError ''Invalid control character at'')
      else rbind (scan_string s) (\<lambda>(xs, r). Inr (c # xs, r)))"

text \<open>The number pattern: an optional sign, an integer part without leading zeros, a fraction, an exponent.\<close>

definition scan_sign :: "string \<Rightarrow> string \<Rightarrow> string \<times> string" where
  "scan_sign signs s = (case s of [] \<Rightarrow> ([], []) | c # t \<Rightarrow> if c \<in> set signs then ([c], t) else ([], s))"

definition scan_digits :: "string \<Rightarrow> string \<times> string" where
  "scan_digits s = (takeWhile is_digit s, dropWhile is_digit s)"

definition scan_integer :: "string \<Rightarrow> string \<times> string" where
  "scan_integer s = (case s of [] \<Rightarrow> ([], []) | c # t \<Rightarrow> if c = CHR ''0'' then (''0'', t) else scan_digits s)"

definition scan_fraction :: "string \<Rightarrow> string \<times> string" where
  "scan_fraction s =
     (case s of [] \<Rightarrow> ([], [])
      | c # t \<Rightarrow> let (ds, r) = scan_digits t in if c = CHR ''.'' \<and> ds \<noteq> [] then (c # ds, r) else ([], s))"

definition scan_exponent :: "string \<Rightarrow> string \<times> string" where
  "scan_exponent s =
     (case s of [] \<Rightarrow> ([], [])
      | c # t \<Rightarrow> let (sg, u) = scan_sign ''+-'' t; (ds, r) = scan_digits u
          in if c \<in> set ''eE'' \<and> ds \<noteq> [] then (c # sg @ ds, r) else ([], s))"

definition int_of_text :: "string \<Rightarrow> int" where
  "int_of_text s = (case s of c # t \<Rightarrow> if c = CHR ''-'' then - int (nat_of_digits t) else int (nat_of_digits s) | [] \<Rightarrow> 0)"

definition scan_number :: "(string \<Rightarrow> pyfloat) \<Rightarrow> string \<Rightarrow> (pyval \<times> string) option" where
  "scan_number fl s =
     (let (sg, s1) = scan_sign ''-'' s; (ip, s2) = scan_integer s1; (fr, s3) = scan_fraction s2; (ex, s4) = scan_exponent s3
      in if ip = [] then None
         else if fr = [] \<and> ex = [] then Some (PyInt (int_of_text (sg @ ip)), s4)
         else Some (PyFloat (fl (sg @ ip @ fr @ ex)), s4))"

definition json_literals :: "(string \<times> pyval) list" where
  "json_literals = [(''null'', PyNone), (''true'', PyBool True), (''false'', PyBool False), (''NaN'', PyFloat NaN),
     (''Infinity'', PyFloat PosInf), (''-Infinity'', PyFloat NegInf)]"

fun scan_literal :: "(string \<times> pyval) list \<Rightarrow> string \<Rightarrow> (pyval \<times> string) option" where
  "scan_literal [] s = None"
| "scan_literal ((l, v) # ls) s = (if take (length l) s = l then Some (v, drop (length l) s) else scan_literal ls s)"

definition scan_scalar :: "(string \<Rightarrow> pyfloat) \<Rightarrow> string \<Rightarrow> (pyval \<times> string) result" where
  "scan_scalar fl s =
     (case scan_literal (take 3 json_literals) s of Some x \<Rightarrow> Inr x
      | None \<Rightarrow> (case scan_number fl s of Some x \<Rightarrow> Inr x
      | None \<Rightarrow> rget (ValueError ''Expecting value'') (scan_literal (drop 3 json_literals) s)))"

text \<open>\<^verbatim>\<open>dict(pairs)\<close>: a later pair replaces the value of an equal key, at the place of the first.\<close>

fun dict_put :: "string \<Rightarrow> pyval \<Rightarrow> (string \<times> pyval) list \<Rightarrow> (string \<times> pyval) list" where
  "dict_put k v [] = [(k, v)]"
| "dict_put k v ((k', v') # d) = (if k = k' then (k, v) # d else (k', v') # dict_put k v d)"

definition dict_of_pairs :: "(string \<times> pyval) list \<Rightarrow> (string \<times> pyval) list" where
  "dict_of_pairs ps = foldl (\<lambda>d (k, v). dict_put k v d) [] ps"

definition py_dict :: "(string \<times> pyval) list \<Rightarrow> pyval" where
  "py_dict ps = PyDict (map (\<lambda>(k, v). (PyStr k, v)) (dict_of_pairs ps))"

section \<open>Parser\<close>

function (sequential) parse_value :: "(string \<Rightarrow> pyfloat) \<Rightarrow> string \<Rightarrow> (pyval \<times> string) result"
  and parse_elements :: "(string \<Rightarrow> pyfloat) \<Rightarrow> string \<Rightarrow> (pyval list \<times> string) result"
  and parse_members :: "(string \<Rightarrow> pyfloat) \<Rightarrow> string \<Rightarrow> ((string \<times> pyval) list \<times> string) result"
where
  "parse_value fl [] = Inl (ValueError ''Expecting value'')"
| "parse_value fl (c # s) =
     (if c = CHR 0x22 then rbind (scan_string s) (\<lambda>(x, r). Inr (PyStr x, r))
      else if c = CHR ''['' then
        (case skip s of
           [] \<Rightarrow> Inl (ValueError ''Expecting value'')
         | d # t \<Rightarrow> if d = CHR '']'' then Inr (PyList [], t)
             else if length (d # t) \<le> length s then rbind (parse_elements fl (d # t)) (\<lambda>(xs, r). Inr (PyList xs, r))
             else Inl (RuntimeError ''unreachable''))
      else if c = CHR ''{'' then
        (case skip s of
           [] \<Rightarrow> Inl (ValueError ''Expecting property name enclosed in double quotes'')
         | d # t \<Rightarrow> if d = CHR ''}'' then Inr (py_dict [], t)
             else if length (d # t) \<le> length s then rbind (parse_members fl (d # t)) (\<lambda>(ps, r). Inr (py_dict ps, r))
             else Inl (RuntimeError ''unreachable''))
      else scan_scalar fl (c # s))"
| "parse_elements fl s =
     rbind (parse_value fl s) (\<lambda>(v, r).
     case skip r of
       [] \<Rightarrow> Inl (ValueError ''Expecting ',' delimiter'')
     | d # t \<Rightarrow>
         if d = CHR '']'' then Inr ([v], t)
         else if d \<noteq> CHR '','' then Inl (ValueError ''Expecting ',' delimiter'')
         else if length (skip t) < length s then rbind (parse_elements fl (skip t)) (\<lambda>(vs, r'). Inr (v # vs, r'))
         else Inl (RuntimeError ''unreachable''))"
| "parse_members fl s =
     (case s of
        [] \<Rightarrow> Inl (ValueError ''Expecting property name enclosed in double quotes'')
      | q # s1 \<Rightarrow>
          if q \<noteq> CHR 0x22 then Inl (ValueError ''Expecting property name enclosed in double quotes'')
          else rbind (scan_string s1) (\<lambda>(k, r).
            case skip r of
              [] \<Rightarrow> Inl (ValueError ''Expecting ':' delimiter'')
            | d # t \<Rightarrow>
                if d \<noteq> CHR '':'' then Inl (ValueError ''Expecting ':' delimiter'')
                else if length (skip t) < length s then
                  rbind (parse_value fl (skip t)) (\<lambda>(v, r1).
                  case skip r1 of
                    [] \<Rightarrow> Inl (ValueError ''Expecting ',' delimiter'')
                  | e # u \<Rightarrow>
                      if e = CHR ''}'' then Inr ([(k, v)], u)
                      else if e \<noteq> CHR '','' then Inl (ValueError ''Expecting ',' delimiter'')
                      else if length (skip u) < length s then rbind (parse_members fl (skip u)) (\<lambda>(ps, r'). Inr ((k, v) # ps, r'))
                      else Inl (RuntimeError ''unreachable''))
                else Inl (RuntimeError ''unreachable'')))"
  by pat_completeness auto
termination
  by (relation "measure (\<lambda>x. case x of Inl (fl, s) \<Rightarrow> 2 * length s | Inr (Inl (fl, s)) \<Rightarrow> 2 * length s + 1 | Inr (Inr (fl, s)) \<Rightarrow> 2 * length s + 1)") auto

definition loads :: "(string \<Rightarrow> pyfloat) \<Rightarrow> string \<Rightarrow> pyval result" where
  "loads fl s = rbind (parse_value fl (skip s)) (\<lambda>(v, r). if skip r = [] then Inr v else Inl (ValueError ''Extra data''))"


section \<open>The guards hold: every scan shortens the text\<close>

lemma scan_string_shorter: "scan_string s = Inr (x, r) \<Longrightarrow> length r < length s"
  by (induction s arbitrary: x r rule: scan_string.induct) (fastforce split: if_split_asm list.split_asm option.split_asm)+

lemma skip_shorter: "length (skip s) \<le> length s"
  by (simp add: skip_def length_dropWhile_le)

lemma scan_literal_shorter: "list_all (\<lambda>(l, v). l \<noteq> []) ls \<Longrightarrow> scan_literal ls s = Some (v, r) \<Longrightarrow> length r < length s"
proof (induction ls s rule: scan_literal.induct)
  case (2 l w ls s)
  show ?case
  proof (cases "take (length l) s = l")
    case True
    then have "length l \<le> length s" by (metis length_take min.cobounded1 min.commute)
    with True 2(2,3) show ?thesis by (cases l) auto
  qed (use 2 in auto)
qed simp

lemma scan_parts_shorter:
  "length (snd (scan_sign signs s)) \<le> length s" "length (snd (scan_digits s)) \<le> length s"
  "length (snd (scan_fraction s)) \<le> length s" "length (snd (scan_exponent s)) \<le> length s"
  by (auto simp: scan_sign_def scan_digits_def scan_fraction_def scan_exponent_def Let_def split: list.splits prod.splits
      intro: le_SucI order_trans [OF length_dropWhile_le])

lemma scan_integer_shorter: "fst (scan_integer s) \<noteq> [] \<Longrightarrow> length (snd (scan_integer s)) < length s"
  by (cases s) (auto simp: scan_integer_def scan_digits_def le_imp_less_Suc length_dropWhile_le split: if_split_asm)

lemma scan_number_shorter:
  assumes "scan_number fl s = Some (v, r)"
  shows "length r < length s"
proof -
  obtain sg s1 ip s2 fr s3 ex s4 where parts: "scan_sign ''-'' s = (sg, s1)" "scan_integer s1 = (ip, s2)"
    "scan_fraction s2 = (fr, s3)" "scan_exponent s3 = (ex, s4)" by (meson surj_pair)
  then have "ip \<noteq> []" "r = s4" using assms by (auto simp: scan_number_def split: if_split_asm)
  then show ?thesis
    using scan_parts_shorter(1) [of "''-''" s] scan_integer_shorter [of s1] scan_parts_shorter(3) [of s2] scan_parts_shorter(4) [of s3] parts by auto
qed

lemma scan_scalar_shorter: "scan_scalar fl s = Inr (v, r) \<Longrightarrow> length r < length s"
  using scan_literal_shorter [of "take 3 json_literals" s] scan_literal_shorter [of "drop 3 json_literals" s] scan_number_shorter [of fl s]
  by (auto simp: scan_scalar_def json_literals_def split: option.split_asm)

lemma scan_scalar_error: "scan_scalar fl s = Inl e \<Longrightarrow> e = ValueError ''Expecting value''"
  by (auto simp: scan_scalar_def rget_def split: option.split_asm)

lemma skip_Cons_length: "skip s = d # t \<Longrightarrow> length t < length s"
  using skip_shorter [of s] by simp

definition shortens :: "(string \<Rightarrow> ('a \<times> string) result) \<Rightarrow> string \<Rightarrow> bool" where
  "shortens p s \<longleftrightarrow> (\<forall>x r. p s = Inr (x, r) \<longrightarrow> length r < length s)"

lemma shortensI: "(\<And>x r. p s = Inr (x, r) \<Longrightarrow> length r < length s) \<Longrightarrow> shortens p s"
  by (simp add: shortens_def)

lemma shortensD: "shortens p s \<Longrightarrow> p s = Inr (x, r) \<Longrightarrow> length r < length s"
  by (simp add: shortens_def)

declare parse_value.simps [simp del] parse_elements.simps [simp del] parse_members.simps [simp del]

lemma value_shortens:
  assumes "\<And>t. length t < length s \<Longrightarrow> shortens (parse_elements fl) t \<and> shortens (parse_members fl) t"
  shows "shortens (parse_value fl) s"
proof (rule shortensI)
  fix x r
  assume p: "parse_value fl s = Inr (x, r)"
  then obtain c s' where s: "s = c # s'" by (cases s) (auto simp: parse_value.simps)
  have le: "length r < length (c # s')" if "length r < Suc (length t)" "skip s' = d # t" for d t
    using that skip_Cons_length [OF that(2)] by simp
  have sub: "shortens (parse_elements fl) (d # t) \<and> shortens (parse_members fl) (d # t)" if "skip s' = d # t" for d t
    using assms [of "d # t"] skip_Cons_length [OF that] s by simp
  show "length r < length s"
  proof (cases "c = CHR 0x22 \<or> c \<noteq> CHR ''['' \<and> c \<noteq> CHR ''{''")
    case True
    with p s show ?thesis
      by (auto simp: parse_value.simps less_SucI split: if_split_asm dest: scan_string_shorter scan_scalar_shorter)
  next
    case False
    with p s obtain d t where d: "skip s' = d # t" by (auto simp: parse_value.simps split: if_split_asm list.split_asm)
    with p s False have "r = t \<or> (\<exists>xs. parse_elements fl (d # t) = Inr (xs, r)) \<or> (\<exists>ps. parse_members fl (d # t) = Inr (ps, r))"
      by (auto simp: parse_value.simps split: if_split_asm)
    then have "length r < Suc (length t)" using shortensD [OF conjunct1 [OF sub [OF d]]] shortensD [OF conjunct2 [OF sub [OF d]]] by fastforce
    with le d s show ?thesis by blast
  qed
qed

lemma elements_shortens:
  assumes "shortens (parse_value fl) s" "\<And>t. length t < length s \<Longrightarrow> shortens (parse_elements fl) t"
  shows "shortens (parse_elements fl) s"
proof (rule shortensI)
  fix x r
  assume p: "parse_elements fl s = Inr (x, r)"
  then obtain v r1 where v1: "parse_value fl s = Inr (v, r1)" by (auto simp: parse_elements.simps [of fl s])
  with p obtain d t where "skip r1 = d # t" by (cases "skip r1") (auto simp: parse_elements.simps [of fl s])
  note v = v1 this
  have t: "length t < length s" using shortensD [OF assms(1) v(1)] skip_Cons_length [OF v(2)] by simp
  have "r = t \<or> (length (skip t) < length s \<and> (\<exists>vs. parse_elements fl (skip t) = Inr (vs, r)))"
    using p v by (auto simp: parse_elements.simps [of fl s] split: if_split_asm)
  then show "length r < length s" using t shortensD [OF assms(2), of "skip t"] by fastforce
qed

lemma members_shortens:
  assumes "\<And>t. length t < length s \<Longrightarrow> shortens (parse_value fl) t \<and> shortens (parse_members fl) t"
  shows "shortens (parse_members fl) s"
proof (rule shortensI)
  fix x r
  assume p: "parse_members fl s = Inr (x, r)"
  then obtain s1 where s: "s = CHR 0x22 # s1" by (auto simp: parse_members.simps [of fl s] split: list.split_asm if_split_asm)
  note p = p [unfolded s, unfolded parse_members.simps [of fl "CHR 0x22 # s1"]]
  from p obtain k r0 where k: "scan_string s1 = Inr (k, r0)" by auto
  with p obtain d t where d: "skip r0 = d # t" by (cases "skip r0") auto
  with p k obtain v r1 where v1: "length (skip t) < length s" "parse_value fl (skip t) = Inr (v, r1)" by (auto simp: s split: if_split_asm)
  with p k d obtain e u where "skip r1 = e # u" by (cases "skip r1") (auto split: if_split_asm)
  note v = v1 this
  with p k d have rest: "r = u \<or> (length (skip u) < length s \<and> (\<exists>ps. parse_members fl (skip u) = Inr (ps, r)))"
    by (auto simp: s split: if_split_asm)
  have "length u < length s"
    using shortensD [OF conjunct1 [OF assms [OF v(1)]] v(2)] v(1) skip_Cons_length [OF v(3)] by simp
  then show "length r < length s" using rest shortensD [OF conjunct2 [OF assms], of "skip u"] by fastforce
qed

lemma parse_shortens: "shortens (parse_value fl) s \<and> shortens (parse_elements fl) s \<and> shortens (parse_members fl) s"
proof (induction s rule: length_induct)
  case (1 s)
  then have "shortens (parse_value fl) s" by (intro value_shortens) auto
  with 1 show ?case by (auto intro: elements_shortens members_shortens)
qed

lemmas parse_value_shorter = shortensD [OF conjunct1 [OF parse_shortens]]

section \<open>What parsing raises\<close>

definition decode_error :: "exn \<Rightarrow> bool" where
  "decode_error e \<longleftrightarrow> (case e of ValueError _ \<Rightarrow> True | UnicodeError _ \<Rightarrow> True | _ \<Rightarrow> False)"

definition fails_decoding :: "'a result \<Rightarrow> bool" where
  "fails_decoding r \<longleftrightarrow> (case r of Inl e \<Rightarrow> decode_error e | Inr _ \<Rightarrow> True)"

lemma fails_decoding_simps [simp]: "fails_decoding (Inr x)" "fails_decoding (Inl (ValueError m))" "fails_decoding (Inl (UnicodeError m))"
  by (simp_all add: fails_decoding_def decode_error_def)

lemma fails_decoding_bind: "fails_decoding m \<Longrightarrow> (\<And>x. m = Inr x \<Longrightarrow> fails_decoding (f x)) \<Longrightarrow> fails_decoding (rbind m f)"
  by (cases m) (auto simp: fails_decoding_def)

lemma fails_decoding_escape: "fails_decoding (hex_escape a b c d)"
  by (auto simp: hex_escape_def split: option.split)

declare scan_string.simps [simp del]

lemma fails_decoding_string: "fails_decoding (scan_string s)"
proof (induction s rule: length_induct)
  case (1 s)
  have sub: "fails_decoding (rbind (scan_string t) (\<lambda>(xs, r). Inr (f xs, r)))" if "length t < length s" for t and f :: "string \<Rightarrow> string"
    using 1 that by (auto intro!: fails_decoding_bind)
  show ?case
  proof (cases s)
    case (Cons c s')
    show ?thesis
    proof (cases "c = CHR 0x5C")
      case True
      show ?thesis
      proof (cases s')
        case Nil
        then show ?thesis by (simp add: Cons True scan_string.simps)
      next
        case s': (Cons d t)
        show ?thesis
        proof (cases "d = CHR ''u''")
          case False
          then show ?thesis using sub [of t] by (simp add: Cons s' True scan_string.simps split: option.split)
        next
          case u: True
          have long: "fails_decoding (rbind (hex_escape h1 h2 h3 h4) (\<lambda>x. rbind (scan_string r) (\<lambda>(xs, r'). Inr (x # xs, r'))))"
            if "t = h1 # h2 # h3 # h4 # r" for h1 h2 h3 h4 r
            by (rule fails_decoding_bind [OF fails_decoding_escape], rule sub) (use that in \<open>simp add: Cons s'\<close>)
          then show ?thesis by (simp add: Cons s' True u scan_string.simps split: list.split)
        qed
      qed
    next
      case False
      then show ?thesis using sub [of s'] by (simp add: Cons scan_string.simps)
    qed
  qed (simp add: scan_string.simps)
qed

lemma fails_decoding_scalar: "fails_decoding (scan_scalar fl s)"
proof (cases "scan_scalar fl s")
  case (Inl e)
  then show ?thesis using scan_scalar_error [OF Inl] by simp
qed simp

lemma parse_fails_decoding:
  "fails_decoding (parse_value fl s) \<and> fails_decoding (parse_elements fl s) \<and> fails_decoding (parse_members fl s)"
proof (induction s rule: length_induct)
  case (1 s)
  have le: "length (d # t) \<le> length r" if "skip r = d # t" for d t r
    using skip_shorter [of r] that by simp
  have v: "fails_decoding (parse_value fl s)"
  proof (cases s)
    case (Cons c s')
    have "fails_decoding (parse_elements fl (d # t)) \<and> fails_decoding (parse_members fl (d # t))" if "skip s' = d # t" for d t
      using 1 le [OF that] Cons by simp
    then show ?thesis using le Cons
      by (auto simp: parse_value.simps intro!: fails_decoding_bind fails_decoding_string fails_decoding_scalar split: list.split)
  qed (simp add: parse_value.simps)
  have "fails_decoding (parse_elements fl s)"
    unfolding parse_elements.simps [of fl s]
  proof (rule fails_decoding_bind [OF v], clarify)
    fix x r
    assume "parse_value fl s = Inr (x, r)"
    from parse_value_shorter [OF this] 
    have "length (skip t) < length s" if "skip r = d # t" for d t using le [OF that] skip_shorter [of t] by simp
    then show "fails_decoding (case skip r of [] \<Rightarrow> Inl (ValueError ''Expecting ',' delimiter'')
        | d # t \<Rightarrow> if d = CHR '']'' then Inr ([x], t) else if d \<noteq> CHR '','' then Inl (ValueError ''Expecting ',' delimiter'')
            else if length (skip t) < length s then rbind (parse_elements fl (skip t)) (\<lambda>(vs, r'). Inr (x # vs, r'))
            else Inl (RuntimeError ''unreachable''))"
      using 1 by (auto intro!: fails_decoding_bind split: list.split)
  qed
  moreover have "fails_decoding (parse_members fl s)"
  proof (cases s)
    case (Cons q s1)
    have scanned: "length (skip t) < length s" if "scan_string s1 = Inr (k, r)" "skip r = d # t" for k r d t
      using scan_string_shorter [OF that(1)] le [OF that(2)] skip_shorter [of t] Cons by simp
    have parsed: "length (skip u) < length s" if "length t < length s" "parse_value fl t = Inr (x, r1)" "skip r1 = e # u" for t x r1 e u
      using parse_value_shorter [OF that(2)] le [OF that(3)] skip_shorter [of u] that(1) by simp
    define tail where "tail k x r1 = (case skip r1 of [] \<Rightarrow> Inl (ValueError ''Expecting ',' delimiter'')
        | e # u \<Rightarrow> if e = CHR ''}'' then Inr ([(k, x)], u) else if e \<noteq> CHR '','' then Inl (ValueError ''Expecting ',' delimiter'')
            else if length (skip u) < length s then rbind (parse_members fl (skip u)) (\<lambda>(ps, r'). Inr ((k, x) # ps, r'))
            else Inl (RuntimeError ''unreachable''))" for k :: string and x r1
    have tail: "fails_decoding (tail k x r1)" if "length t < length s" "parse_value fl t = Inr (x, r1)" for k x r1 t
      unfolding tail_def using 1 parsed [OF that] by (auto intro!: fails_decoding_bind split: list.split)
    have rest: "fails_decoding (rbind (parse_value fl (skip t)) (\<lambda>(x, r1). tail k x r1))" if "length (skip t) < length s" for t k
      using 1 that tail [OF that] by (auto intro!: fails_decoding_bind)
    have "parse_members fl s = (if q \<noteq> CHR 0x22 then Inl (ValueError ''Expecting property name enclosed in double quotes'')
        else rbind (scan_string s1) (\<lambda>(k, r). case skip r of [] \<Rightarrow> Inl (ValueError ''Expecting ':' delimiter'')
          | d # t \<Rightarrow> if d \<noteq> CHR '':'' then Inl (ValueError ''Expecting ':' delimiter'')
              else if length (skip t) < length s then rbind (parse_value fl (skip t)) (\<lambda>(x, r1). tail k x r1)
              else Inl (RuntimeError ''unreachable'')))"
      unfolding tail_def Cons by (subst parse_members.simps) (simp only: list.case)
    also have "fails_decoding \<dots>"
    proof (cases "q = CHR 0x22")
      case True
      have "fails_decoding (case skip r of [] \<Rightarrow> Inl (ValueError ''Expecting ':' delimiter'')
          | d # t \<Rightarrow> if d \<noteq> CHR '':'' then Inl (ValueError ''Expecting ':' delimiter'')
              else if length (skip t) < length s then rbind (parse_value fl (skip t)) (\<lambda>(x, r1). tail k x r1)
              else Inl (RuntimeError ''unreachable''))" if "scan_string s1 = Inr (k, r)" for k r
        using scanned [OF that] rest by (simp split: list.split)
      then show ?thesis using True by (auto intro!: fails_decoding_bind fails_decoding_string)
    qed simp
    finally show ?thesis .
  qed (simp add: parse_members.simps)
  ultimately show ?case using v by simp
qed

lemma loads_fails_decoding: "fails_decoding (loads fl s)"
  using parse_fails_decoding unfolding loads_def by (auto intro!: fails_decoding_bind)

section \<open>Reading back what was printed\<close>

lemma scan_string_esc: "scan_string (esc_char c @ u) = rbind (scan_string u) (\<lambda>(xs, r). Inr (c # xs, r))"
proof (cases "c \<in> {CHR 0x22, CHR 0x5C, CHR 0x0A, CHR 0x0D, CHR 0x09, CHR 0x0C, CHR 0x08}")
  case True
  then show ?thesis
    by (elim insertE emptyE) (simp_all add: esc_char_def scan_string.simps(2) [of "CHR 0x5C"] simple_escape_def)
next
  case False
  then have esc: "esc_char c = (if code c < 32 then [CHR 0x5C, CHR ''u'', CHR ''0'', CHR ''0'',
      hex_digit (code c div 16), hex_digit (code c mod 16)] else [c])"
    by (simp add: esc_char_def)
  show ?thesis
  proof (cases "code c < 32")
    case True
    then have "code c div 16 < 16" "code c mod 16 < 16"
      by (auto simp: less_mult_imp_div_less)
    moreover have "16 * (code c div 16) + code c mod 16 = code c"
      by (simp add: mult.commute)
    moreover have "hex_val (CHR ''0'') = Some 0" by (simp add: hex_val_def)
    ultimately show ?thesis
      using True by (simp add: esc scan_string.simps(2) [of "CHR 0x5C"] hex_escape_def)
  next
    case lo: False
    with False show ?thesis by (simp add: esc scan_string.simps(2) [of c])
  qed
qed

lemma scan_string_printed: "scan_string (concat (map esc_char s) @ CHR 0x22 # r) = Inr (s, r)"
  by (induction s) (simp_all add: scan_string_esc scan_string.simps(2) [of "CHR 0x22"])

definition num_end :: "string \<Rightarrow> bool" where
  "num_end r \<longleftrightarrow> (case r of [] \<Rightarrow> True | c # _ \<Rightarrow> \<not> is_digit c \<and> c \<notin> set ''.eE+-'')"

lemma delim_num_end: "delim r \<Longrightarrow> num_end r"
  by (cases r) (auto simp: delim_def num_end_def is_digit_def)

lemma scan_digits_append: "num_end r \<Longrightarrow> scan_digits (s @ r) = (fst (scan_digits s), snd (scan_digits s) @ r)"
  by (cases r) (auto simp: scan_digits_def num_end_def takeWhile_append dropWhile_append takeWhile_eq_all_conv [THEN iffD2])

lemma scan_nil [simp]: "scan_sign signs [] = ([], [])" "scan_digits [] = ([], [])" "scan_integer [] = ([], [])" "scan_fraction [] = ([], [])" "scan_exponent [] = ([], [])"
  by (simp_all add: scan_sign_def scan_digits_def scan_integer_def scan_fraction_def scan_exponent_def)

lemma scan_num_end [simp]:
  assumes "num_end r"
  shows "scan_digits r = ([], r)" "scan_fraction r = ([], r)" "scan_exponent r = ([], r)" "scan_sign ''-'' r = ([], r)" "scan_sign ''+-'' r = ([], r)"
  using assms by (cases r; auto simp: num_end_def scan_digits_def scan_fraction_def scan_exponent_def scan_sign_def Let_def)+

lemma scan_integer_append:
  assumes "num_end r"
  shows "scan_integer (s @ r) = (fst (scan_integer s), snd (scan_integer s) @ r)"
proof (cases s)
  case Nil
  have "is_digit (CHR ''0'')" by (simp add: is_digit_def)
  then show ?thesis using assms scan_num_end(1) [OF assms] Nil by (cases r) (auto simp: scan_integer_def num_end_def)
next
  case (Cons c t)
  then show ?thesis using scan_digits_append [OF assms, of s] by (simp add: scan_integer_def)
qed

lemma scan_sign_append:
  assumes "num_end r" "signs \<in> {''-'', ''+-''}"
  shows "scan_sign signs (s @ r) = (fst (scan_sign signs s), snd (scan_sign signs s) @ r)"
  using assms by (cases s) (auto simp: scan_sign_def [of _ "_ # _"])

lemma scan_fraction_append:
  assumes "num_end r"
  shows "scan_fraction (s @ r) = (fst (scan_fraction s), snd (scan_fraction s) @ r)"
proof (cases s)
  case (Cons c t)
  then show ?thesis using scan_digits_append [OF assms, of t] by (simp add: scan_fraction_def [of "_ # _"] case_prod_beta)
qed (use assms in simp)

lemma scan_exponent_append:
  assumes "num_end r"
  shows "scan_exponent (s @ r) = (fst (scan_exponent s), snd (scan_exponent s) @ r)"
proof (cases s)
  case (Cons c t)
  have "scan_sign ''+-'' (t @ r) = (fst (scan_sign ''+-'' t), snd (scan_sign ''+-'' t) @ r)"
    using scan_sign_append [OF assms] by simp
  moreover have "scan_digits (snd (scan_sign ''+-'' t) @ r) =
      (fst (scan_digits (snd (scan_sign ''+-'' t))), snd (scan_digits (snd (scan_sign ''+-'' t))) @ r)"
    using scan_digits_append [OF assms] by simp
  ultimately show ?thesis by (simp add: Cons scan_exponent_def [of "_ # _"] case_prod_beta Let_def)
qed (use assms in simp)

lemma scan_number_append:
  assumes "num_end r" "scan_number fl s = Some (v, [])"
  shows "scan_number fl (s @ r) = Some (v, r)"
proof -
  have "scan_sign ''-'' (s @ r) = (fst (scan_sign ''-'' s), snd (scan_sign ''-'' s) @ r)"
    using scan_sign_append [OF assms(1)] by simp
  with assms(2) show ?thesis
    by (auto simp: scan_number_def case_prod_beta Let_def scan_integer_append [OF assms(1)] scan_fraction_append [OF assms(1)]
        scan_exponent_append [OF assms(1)] split: if_split_asm)
qed

lemma show_nat_leading_zero: "n \<noteq> 0 \<Longrightarrow> hd (show_nat n) \<noteq> CHR ''0''"
proof (induction n rule: show_nat.induct)
  case (1 n)
  show ?case
  proof (cases "n < 10")
    case True
    then have "code (char_of (48 + n)) \<noteq> code (CHR ''0'')" using "1.prems" by simp
    with True show ?thesis by (subst show_nat.simps) (metis list.sel(1))
  next
    case False
    then have "n div 10 \<noteq> 0" by auto
    with False "1.IH" show ?thesis by (subst show_nat.simps) simp
  qed
qed

lemma scan_integer_show_nat: "scan_integer (show_nat n) = (show_nat n, [])"
proof (cases "n = 0")
  case True
  have "show_nat 0 = ''0''" by (subst show_nat.simps) (simp add: char_of_def bit_Suc_0_iff)
  with True show ?thesis by (simp add: scan_integer_def)
next
  case False
  obtain c t where ct: "show_nat n = c # t" by (cases "show_nat n") auto
  have "scan_digits (show_nat n) = (show_nat n, [])"
    using show_nat_digits by (auto simp: scan_digits_def takeWhile_eq_all_conv dropWhile_eq_Nil_conv)
  with show_nat_leading_zero [OF False] ct show ?thesis by (simp add: scan_integer_def)
qed

lemma scan_number_show_int: "scan_number fl (show_int i) = Some (PyInt i, [])"
proof -
  have no: "hd (show_nat n) \<noteq> CHR ''-''" for n
    using show_nat_digits [of "hd (show_nat n)" n] minus_not_digit by auto
  have sign: "scan_sign ''-'' (show_nat n) = ([], show_nat n)" for n
    using no [of n] by (cases "show_nat n") (auto simp: scan_sign_def)
  have val: "int_of_text (show_nat n) = int n" for n
    using no [of n] nat_of_show_nat [of n] by (cases "show_nat n") (auto simp: int_of_text_def)
  show ?thesis
  proof (cases "i < 0")
    case True
    then show ?thesis
      by (simp add: scan_number_def show_int_def scan_sign_def [of _ "_ # _"] scan_integer_show_nat) (simp add: int_of_text_def)
  next
    case False
    then show ?thesis by (simp add: scan_number_def show_int_def sign scan_integer_show_nat val)
  qed
qed

text \<open>The floats of a value are texts that \<^verbatim>\<open>float\<close> reads back as themselves, which \<^verbatim>\<open>repr\<close> guarantees of its own output.\<close>

definition repr_ok :: "(string \<Rightarrow> pyfloat) \<Rightarrow> string \<Rightarrow> bool" where
  "repr_ok fl r \<longleftrightarrow> scan_number fl r = Some (PyFloat (Finite r), [])"

fun floats_ok :: "(string \<Rightarrow> pyfloat) \<Rightarrow> json \<Rightarrow> bool" where
  "floats_ok fl (JFloat r) = repr_ok fl r"
| "floats_ok fl (JList xs) = list_all (floats_ok fl) xs"
| "floats_ok fl (JObj kvs) = list_all (\<lambda>(k, v). floats_ok fl v) kvs"
| "floats_ok fl j = True"

lemma dict_put_new: "k \<notin> fst ` set d \<Longrightarrow> dict_put k v d = d @ [(k, v)]"
  by (induction d) auto

lemma dict_of_pairs_distinct: "distinct (map fst ps) \<Longrightarrow> dict_of_pairs ps = ps"
proof (induction ps rule: rev_induct)
  case (snoc p ps)
  then show ?case by (cases p) (simp add: dict_of_pairs_def dict_put_new)
qed (simp add: dict_of_pairs_def)

lemma skip_printed:
  assumes "json_ok j"
  shows "skip (dump_raw j @ r) = dump_raw j @ r"
proof -
  have "kind_of_char (hd (dump_raw j)) \<noteq> 7" "dump_raw j \<noteq> []"
    using dump_raw_kind [OF assms] jkind_less [of j] by auto
  then show ?thesis by (cases "dump_raw j") (auto simp: skip_def json_space_def kind_of_char_def is_digit_def)
qed

lemma skip_simps [simp]: "skip [] = []" "skip (CHR '','' # s) = CHR '','' # s" "skip (CHR '']'' # s) = CHR '']'' # s"
  "skip (CHR ''}'' # s) = CHR ''}'' # s" "skip (CHR '':'' # s) = CHR '':'' # s" "skip (CHR 0x22 # s) = CHR 0x22 # s"
  by (simp_all add: skip_def json_space_def)

lemma parse_number:
  assumes "s \<noteq> []" "is_digit (hd s) \<or> hd s = CHR ''-''" "scan_number fl s = Some (v, [])" "delim r"
  shows "parse_value fl (s @ r) = Inr (v, r)"
proof -
  obtain c t where s: "s = c # t" using assms(1) by (cases s) auto
  have c: "c \<notin> set ''ntf[{'' \<and> c \<noteq> CHR 0x22" using assms(2) s by (auto simp: is_digit_def)
  have "scan_literal (take 3 json_literals) (c # u) = None" for u
    using c by (simp add: json_literals_def)
  then have "scan_scalar fl (s @ r) = Inr (v, r)"
    using scan_number_append [OF delim_num_end [OF assms(4)] assms(3)] by (simp add: s scan_scalar_def)
  then show ?thesis using c by (simp add: s parse_value.simps)
qed

lemma parse_elements_printed:
  assumes "xs \<noteq> []" "\<And>x t. x \<in> set xs \<Longrightarrow> delim t \<Longrightarrow> parse_value fl (dump_raw x @ t) = Inr (py_of_json x, t)" "list_all json_ok xs"
  shows "parse_elements fl (join_comma (map dump_raw xs) @ CHR '']'' # r) = Inr (map py_of_json xs, r)"
  using assms
proof (induction xs)
  case (Cons x xs)
  show ?case
  proof (cases xs)
    case Nil
    then show ?thesis using Cons.prems(2) [of x "CHR '']'' # r"] by (simp add: parse_elements.simps [of fl "dump_raw x @ _"])
  next
    case xs: (Cons y ys)
    let ?rest = "join_comma (map dump_raw xs) @ CHR '']'' # r"
    have IH: "parse_elements fl ?rest = Inr (map py_of_json xs, r)" using Cons.IH Cons.prems xs by simp
    have sk: "skip ?rest = ?rest" using Cons.prems(3) xs skip_printed [of y] by (cases ys) simp_all
    have "parse_value fl (dump_raw x @ CHR '','' # ?rest) = Inr (py_of_json x, CHR '','' # ?rest)" by (rule Cons.prems(2)) simp_all
    moreover have "length ?rest < length (dump_raw x @ CHR '','' # ?rest)" by simp
    ultimately have "parse_elements fl (dump_raw x @ CHR '','' # ?rest) = Inr (py_of_json x # map py_of_json xs, r)"
      using IH by (simp add: parse_elements.simps [of fl "dump_raw x @ _"] sk del: map_append)
    then show ?thesis by (simp add: xs)
  qed
qed simp

abbreviation print_member :: "string \<times> json \<Rightarrow> string" where
  "print_member \<equiv> \<lambda>(k, v). json_item (k, dump_raw v)"

lemma parse_member_printed:
  assumes "parse_value fl (dump_raw v @ e # u) = Inr (py_of_json v, e # u)" "json_ok v" "e = CHR ''}'' \<or> e = CHR '',''"
  shows "parse_members fl (json_item (k, dump_raw v) @ e # u) =
    (if e = CHR ''}'' then Inr ([(k, py_of_json v)], u)
     else if length (skip u) < length (json_item (k, dump_raw v) @ e # u)
          then rbind (parse_members fl (skip u)) (\<lambda>(ps, r'). Inr ((k, py_of_json v) # ps, r')) else Inl (RuntimeError ''unreachable''))"
proof -
  let ?w = "dump_raw v @ e # u"
  have shape: "json_item (k, dump_raw v) @ e # u = CHR 0x22 # concat (map esc_char k) @ CHR 0x22 # CHR '':'' # ?w"
    by (simp add: json_item_def json_str_def)
  have e: "skip (e # u) = e # u" using assms(3) by auto
  show ?thesis
    unfolding shape using scan_string_printed [of k "CHR '':'' # ?w"] assms(1,3) skip_printed [OF assms(2), of "e # u"] e
    by (subst parse_members.simps) auto
qed

lemma parse_members_printed:
  assumes "kvs \<noteq> []" "\<And>k v t. (k, v) \<in> set kvs \<Longrightarrow> delim t \<Longrightarrow> parse_value fl (dump_raw v @ t) = Inr (py_of_json v, t)"
    "list_all (\<lambda>(k, v). json_ok v) kvs"
  shows "parse_members fl (join_comma (map print_member kvs) @ CHR ''}'' # r) = Inr (map (\<lambda>(k, v). (k, py_of_json v)) kvs, r)"
  using assms
proof (induction kvs)
  case (Cons kv kvs)
  obtain k v where kv: "kv = (k, v)" by (cases kv)
  have ok: "json_ok v" using Cons.prems(3) kv by simp
  have v: "parse_value fl (dump_raw v @ t) = Inr (py_of_json v, t)" if "delim t" for t
    by (rule Cons.prems(2) [of k]) (use kv that in simp_all)
  show ?case
  proof (cases kvs)
    case Nil
    then show ?thesis using parse_member_printed [OF v ok, of "CHR ''}''" r k] by (simp add: kv)
  next
    case kvs: (Cons kv' ys)
    let ?rest = "join_comma (map print_member kvs) @ CHR ''}'' # r"
    have IH: "parse_members fl ?rest = Inr (map (\<lambda>(k, v). (k, py_of_json v)) kvs, r)"
      by (rule Cons.IH) (use Cons.prems(3) kvs in \<open>auto intro: Cons.prems(2)\<close>)
    have "\<exists>t. ?rest = CHR 0x22 # t" using kvs by (cases kv'; cases ys) (auto simp: json_item_def json_str_def)
    then have sk: "skip ?rest = ?rest" by auto
    have "length ?rest < length (json_item (k, dump_raw v) @ CHR '','' # ?rest)" by simp
    with parse_member_printed [OF v ok, of "CHR '',''" ?rest k] IH sk
    have "parse_members fl (json_item (k, dump_raw v) @ CHR '','' # ?rest) = Inr ((k, py_of_json v) # map (\<lambda>(k, v). (k, py_of_json v)) kvs, r)"
      by simp
    then show ?thesis by (simp add: kvs kv)
  qed
qed simp

lemma parse_value_printed:
  assumes "json_ok j" "floats_ok fl j" "delim r"
  shows "parse_value fl (dump_raw j @ r) = Inr (py_of_json j, r)"
  using assms
proof (induction j arbitrary: r rule: json_induct)
  case (JInt i)
  then show ?case using parse_number [OF _ _ scan_number_show_int, of i r fl] show_int_hd [of i] by simp
next
  case (JFloat s)
  then show ?case using parse_number [of s fl "PyFloat (Finite s)" r] by (simp add: float_text_def repr_ok_def)
next
  case (JStr s)
  then show ?case by (simp add: json_str_def parse_value.simps scan_string_printed)
next
  case (JList xs)
  show ?case
  proof (cases "xs = []")
    case True
    then show ?thesis by (simp add: parse_value.simps)
  next
    case False
    let ?t = "join_comma (map dump_raw xs) @ CHR '']'' # r"
    have el: "parse_elements fl ?t = Inr (map py_of_json xs, r)"
      using JList by (intro parse_elements_printed [OF False]) (auto simp: list_all_iff)
    obtain y ys where xs: "xs = y # ys" using False by (cases xs) auto
    have ok: "json_ok y" using JList.prems(1) xs by simp
    obtain c t where t: "?t = c # t" "c \<noteq> CHR '']''" "skip ?t = ?t"
      using dump_raw_kind [OF ok] dump_raw_hd_not_delim [OF ok] skip_printed [OF ok] xs
      by (cases ys; cases "dump_raw y") auto
    then show ?thesis using el by (simp add: parse_value.simps)
  qed
next
  case (JObj kvs)
  show ?case
  proof (cases "kvs = []")
    case True
    then show ?thesis by (simp add: parse_value.simps py_dict_def dict_of_pairs_def)
  next
    case False
    let ?t = "join_comma (map print_member kvs) @ CHR ''}'' # r"
    have me: "parse_members fl ?t = Inr (map (\<lambda>(k, v). (k, py_of_json v)) kvs, r)"
      using JObj by (intro parse_members_printed [OF False]) (fastforce simp: list_all_iff)+
    obtain t where t: "?t = CHR 0x22 # t"
      using False by (cases kvs; cases "tl kvs") (auto simp: json_item_def json_str_def case_prod_beta)
    have "distinct (map fst (map (\<lambda>(k, v). (k, py_of_json v)) kvs))" using JObj.prems(1) by (simp add: comp_def case_prod_unfold)
    then have "py_dict (map (\<lambda>(k, v). (k, py_of_json v)) kvs) = py_of_json (JObj kvs)"
      by (simp add: py_dict_def dict_of_pairs_distinct comp_def case_prod_unfold)
    then show ?thesis using me t by (simp add: parse_value.simps)
  qed
qed (simp_all add: parse_value.simps scan_scalar_def json_literals_def)

lemma floats_ok_jnorm: "floats_ok fl j \<Longrightarrow> floats_ok fl (jnorm j)"
  by (induction j rule: json_induct) (auto simp: list_all_iff)

lemma loads_dumps:
  assumes "json_ok j" "floats_ok fl j"
  shows "loads fl (dumps j) = Inr (py_of_json (jnorm j))"
  using parse_value_printed [OF jnorm_ok floats_ok_jnorm, OF assms, of "[]"] skip_printed [OF jnorm_ok [OF assms(1)], of "[]"]
  by (simp add: loads_def dumps_dump_raw)

end
