(* ===== verification/Ets_Sync_Queue.thy ===== *)
theory Ets_Sync_Queue
  imports Ets_Json_Parse Ets_Linked
begin

text \<open>
  The durable synchronization queue (\<^verbatim>\<open>ets/runtime/sync_queue.py\<close>) and its per-source status
  (\<^verbatim>\<open>ets/runtime/sync_queue_scope.py\<close>).

  The database is the content of its two tables. \<^verbatim>\<open>with self._connect() as connection\<close> commits what the block
  wrote when it is left normally and rolls it back on an exception; since the module never writes before its
  last check in a block, an operation that raises in the block writes nothing. The clock is read once by each
  operation and is its argument \<open>now\<close>. Payloads are JSON objects; \<open>fl\<close> is the value of float literals, as in \<open>loads\<close>.
  \<^verbatim>\<open>datetime.fromisoformat\<close> is the parameter \<open>fromiso\<close>, and ages are in microseconds.

  A connection opens its transaction at the first write, not at the \<^verbatim>\<open>SELECT\<close> before it, so \<^verbatim>\<open>enqueue\<close> and
  \<^verbatim>\<open>claim_batch\<close> are each composed of a reading and a writing part, between which another process may run.
\<close>

section \<open>Records\<close>

datatype sync_state = Sync_Pending | Sync_In_Flight | Sync_Synchronized | Sync_Retryable | Sync_Terminal

record sync_row =
  sr_id :: int
  sr_idempotency_key :: string
  sr_event_id :: string
  sr_event_hash :: string
  sr_tenant_id :: string
  sr_workspace_id :: string
  sr_payload_json :: string
  sr_payload_bytes :: int
  sr_state :: sync_state
  sr_attempts :: int
  sr_created_at_utc :: string
  sr_updated_at_utc :: string
  sr_last_error :: "string option"
  sr_acknowledgement_hash :: "string option"
  sr_synchronized_at_utc :: "string option"

record sync_record =
  sy_idempotency_key :: string
  sy_event_id :: string
  sy_event_hash :: string
  sy_tenant_id :: string
  sy_workspace_id :: string
  sy_payload :: pyval
  sy_payload_bytes :: int
  sy_state :: sync_state
  sy_attempts :: int
  sy_created_at_utc :: string
  sy_updated_at_utc :: string
  sy_last_error :: "string option"
  sy_acknowledgement_hash :: "string option"
  sy_synchronized_at_utc :: "string option"

record sync_db =
  sq_rows :: "sync_row list"
  sq_seq :: int
  sq_meta :: "string \<rightharpoonup> string"

record sync_queue =
  qc_max_items :: int
  qc_max_bytes :: int

record sync_queue_status =
  qs_queue_depth :: int
  qs_queue_bytes :: int
  qs_pending :: int
  qs_in_flight :: int
  qs_retryable_failure :: int
  qs_terminal_failure :: int
  qs_synchronized :: int
  qs_max_items :: int
  qs_max_bytes :: int
  qs_oldest_pending_age :: "int option"
  qs_last_successful_sync :: "string option"
  qs_last_failure :: "string option"
  qs_upstream_status :: string

section \<open>Table access\<close>

definition sync_empty :: sync_db where
  "sync_empty = \<lparr> sq_rows = [], sq_seq = 0, sq_meta = Map.empty \<rparr>"

definition find_row :: "string \<Rightarrow> sync_db \<Rightarrow> sync_row option" where
  "find_row key db = find (\<lambda>r. sr_idempotency_key r = key) (sq_rows db)"

definition require_row :: "string \<Rightarrow> sync_db \<Rightarrow> sync_row result" where
  "require_row key db = rget (KeyError key) (find_row key db)"

definition update_rows :: "(sync_row \<Rightarrow> bool) \<Rightarrow> (sync_row \<Rightarrow> sync_row) \<Rightarrow> sync_db \<Rightarrow> sync_db" where
  "update_rows p f db = db \<lparr> sq_rows := map (\<lambda>r. if p r then f r else r) (sq_rows db) \<rparr>"

definition set_meta :: "string \<Rightarrow> string \<Rightarrow> sync_db \<Rightarrow> sync_db" where
  "set_meta key v db = db \<lparr> sq_meta := (sq_meta db)(key \<mapsto> v) \<rparr>"

definition get_meta :: "string \<Rightarrow> sync_db \<Rightarrow> string option" where
  "get_meta key db = sq_meta db key"

definition capacity_usage :: "sync_db \<Rightarrow> int \<times> int" where
  "capacity_usage db = (let rows = filter (\<lambda>r. sr_state r \<noteq> Sync_Synchronized) (sq_rows db)
     in (int (length rows), sum_list (map sr_payload_bytes rows)))"

definition count_state :: "sync_state \<Rightarrow> sync_db \<Rightarrow> int" where
  "count_state st db = int (length (filter (\<lambda>r. sr_state r = st) (sq_rows db)))"

definition row_to_record :: "(string \<Rightarrow> pyfloat) \<Rightarrow> sync_row \<Rightarrow> sync_record result" where
  "row_to_record fl row =
     rbind (loads fl (sr_payload_json row)) (\<lambda>payload.
     case payload of
       PyDict _ \<Rightarrow> Inr \<lparr> sy_idempotency_key = sr_idempotency_key row, sy_event_id = sr_event_id row, sy_event_hash = sr_event_hash row,
         sy_tenant_id = sr_tenant_id row, sy_workspace_id = sr_workspace_id row, sy_payload = payload,
         sy_payload_bytes = sr_payload_bytes row, sy_state = sr_state row, sy_attempts = sr_attempts row,
         sy_created_at_utc = sr_created_at_utc row, sy_updated_at_utc = sr_updated_at_utc row, sy_last_error = sr_last_error row,
         sy_acknowledgement_hash = sr_acknowledgement_hash row, sy_synchronized_at_utc = sr_synchronized_at_utc row \<rparr>
     | _ \<Rightarrow> Inl (ValueError ''stored sync payload is not an object''))"

section \<open>Operations\<close>

definition required_field :: "(string \<times> json) list \<Rightarrow> string \<Rightarrow> string result" where
  "required_field payload name =
     (case map_of payload name of
        Some (JStr v) \<Rightarrow> if v = [] then Inl (ValueError (''sync payload requires non-empty string field: '' @ name)) else Inr v
      | _ \<Rightarrow> Inl (ValueError (''sync payload requires non-empty string field: '' @ name)))"

definition required_names :: "string list" where
  "required_names = [''idempotency_key'', ''event_id'', ''event_hash'', ''tenant_id'', ''workspace_id'']"

definition required_payload_fields :: "(string \<times> json) list \<Rightarrow> string list result" where
  "required_payload_fields payload = rmap (required_field payload) required_names"

definition SyncQueue :: "sync_queue \<Rightarrow> sync_queue result" where
  "SyncQueue q =
     (if qc_max_items q < 1 then Inl (ValueError ''max_items must be positive'')
      else if qc_max_bytes q < 1 then Inl (ValueError ''max_bytes must be positive'')
      else Inr q)"

definition recover_in_flight :: "utc \<Rightarrow> sync_db \<Rightarrow> sync_db" where
  "recover_in_flight now db =
     (let changed = count_state Sync_In_Flight db; stamp = isoformat_z now;
          db' = update_rows (\<lambda>r. sr_state r = Sync_In_Flight)
            (\<lambda>r. r \<lparr> sr_state := Sync_Retryable, sr_updated_at_utc := stamp,
                     sr_last_error := Some ''recovered in-flight record after process restart'' \<rparr>) db
      in if changed \<noteq> 0 then set_meta ''last_failure'' (stamp @ '' recovered '' @ show_int changed @ '' in-flight record(s)'') db' else db')"

definition ensure_capacity :: "sync_queue \<Rightarrow> int \<Rightarrow> sync_db \<Rightarrow> unit result" where
  "ensure_capacity q reserve_bytes db =
     rbind (rcheck (0 \<le> reserve_bytes) (ValueError ''reserve_bytes must not be negative'')) (\<lambda>_.
     let (count, used_bytes) = capacity_usage db in
     rbind (rcheck (count < qc_max_items q) (QueueCapacityError ''sync queue item capacity reached'')) (\<lambda>_.
     rcheck (used_bytes + reserve_bytes \<le> qc_max_bytes q) (QueueCapacityError ''sync queue byte capacity reached'')))"

text \<open>
  \<^verbatim>\<open>enqueue\<close> up to the \<^verbatim>\<open>INSERT\<close>: the existing record to return, or nothing when the queue has room.
\<close>

definition enqueue_select :: "sync_queue \<Rightarrow> string \<Rightarrow> string \<Rightarrow> string \<Rightarrow> sync_db \<Rightarrow> sync_row option result" where
  "enqueue_select q key event_hash normalized db =
     (case find_row key db of
        Some existing \<Rightarrow>
          if sr_event_hash existing \<noteq> event_hash \<or> sr_payload_json existing \<noteq> normalized
          then Inl (SyncConflictError ''idempotency key already exists with different immutable content'')
          else Inr (Some existing)
      | None \<Rightarrow>
          let (count, used_bytes) = capacity_usage db in
          if qc_max_items q \<le> count then Inl (QueueCapacityError ''sync queue item capacity reached'')
          else if qc_max_bytes q < used_bytes + int (length (utf8 normalized)) then Inl (QueueCapacityError ''sync queue byte capacity reached'')
          else Inr None)"

definition insert_row :: "sync_row \<Rightarrow> sync_db \<Rightarrow> sync_db option" where
  "insert_row row db =
     (if find_row (sr_idempotency_key row) db \<noteq> None then None
      else Some (db \<lparr> sq_rows := sq_rows db @ [row \<lparr> sr_id := sq_seq db + 1 \<rparr>], sq_seq := sq_seq db + 1 \<rparr>))"

definition new_row :: "string list \<Rightarrow> string \<Rightarrow> utc \<Rightarrow> sync_row" where
  "new_row required normalized now =
     \<lparr> sr_id = 0, sr_idempotency_key = required ! 0, sr_event_id = required ! 1, sr_event_hash = required ! 2,
       sr_tenant_id = required ! 3, sr_workspace_id = required ! 4, sr_payload_json = normalized,
       sr_payload_bytes = int (length (utf8 normalized)), sr_state = Sync_Pending, sr_attempts = 0,
       sr_created_at_utc = isoformat_z now, sr_updated_at_utc = isoformat_z now, sr_last_error = None,
       sr_acknowledgement_hash = None, sr_synchronized_at_utc = None \<rparr>"

text \<open>The \<^verbatim>\<open>INSERT\<close> and what follows; \<^verbatim>\<open>IntegrityError\<close> means that another process took the key since.\<close>

definition enqueue_insert :: "sync_row \<Rightarrow> (sync_db, sync_row) action" where
  "enqueue_insert row db =
     (let key = sr_idempotency_key row in
      case insert_row row db of
        Some db' \<Rightarrow> (rget (RuntimeError ''failed to load enqueued sync record'') (find_row key db'), db')
      | None \<Rightarrow> (case find_row key db of
            None \<Rightarrow> (Inl (RuntimeError ''UNIQUE constraint failed''), db)
          | Some winner \<Rightarrow>
              if sr_event_hash winner \<noteq> sr_event_hash row \<or> sr_payload_json winner \<noteq> sr_payload_json row
              then (Inl (SyncConflictError ''idempotency key concurrently claimed with different immutable content''), db)
              else (Inr winner, db)))"

definition enqueue :: "(string \<Rightarrow> pyfloat) \<Rightarrow> sync_queue \<Rightarrow> (string \<times> json) list \<Rightarrow> utc \<Rightarrow> (sync_db, sync_record) action" where
  "enqueue fl q payload now =
     (let normalized = dumps (JObj payload) in
      abind (alift (required_payload_fields payload)) (\<lambda>required.
      abind (aread (enqueue_select q (required ! 0) (required ! 2) normalized)) (\<lambda>existing.
      case existing of
        Some row \<Rightarrow> alift (row_to_record fl row)
      | None \<Rightarrow> abind (enqueue_insert (new_row required normalized now)) (\<lambda>row. alift (row_to_record fl row)))))"

definition claimable :: "sync_row \<Rightarrow> bool" where
  "claimable r \<longleftrightarrow> sr_state r = Sync_Pending \<or> sr_state r = Sync_Retryable"

definition claim_select :: "int \<Rightarrow> sync_db \<Rightarrow> string list" where
  "claim_select limit db = map sr_idempotency_key (take (nat limit) (sort_key sr_id (filter claimable (sq_rows db))))"

definition claim_row :: "utc \<Rightarrow> sync_row \<Rightarrow> sync_row" where
  "claim_row now r = r \<lparr> sr_state := Sync_In_Flight, sr_attempts := sr_attempts r + 1, sr_updated_at_utc := isoformat_z now, sr_last_error := None \<rparr>"

definition claim_update :: "utc \<Rightarrow> string list \<Rightarrow> sync_db \<Rightarrow> sync_row list \<times> sync_db" where
  "claim_update now keys db =
     (let db' = fold (\<lambda>key. update_rows (\<lambda>r. sr_idempotency_key r = key) (claim_row now)) keys db
      in (List.map_filter (\<lambda>key. find_row key db') keys, db'))"

definition claim_batch :: "(string \<Rightarrow> pyfloat) \<Rightarrow> int \<Rightarrow> utc \<Rightarrow> (sync_db, sync_record list) action" where
  "claim_batch fl limit now db =
     (if limit < 1 then (Inl (ValueError ''limit must be positive''), db)
      else let (claimed, db') = claim_update now (claim_select limit db) db
        in (rmap (row_to_record fl) claimed, db'))"

definition mark_failure :: "(string \<Rightarrow> pyfloat) \<Rightarrow> string \<Rightarrow> string \<Rightarrow> sync_state \<Rightarrow> utc \<Rightarrow> (sync_db, sync_record) action" where
  "mark_failure fl key error state now =
     (let bounded_error = take 2048 error; stamp = isoformat_z now in
      abind (aread (require_row key)) (\<lambda>_.
      abind (awrite (update_rows (\<lambda>r. sr_idempotency_key r = key)
        (\<lambda>r. r \<lparr> sr_state := state, sr_updated_at_utc := stamp, sr_last_error := Some bounded_error \<rparr>))) (\<lambda>_.
      abind (awrite (set_meta ''last_failure'' (stamp @ '' '' @ bounded_error))) (\<lambda>_.
      abind (aread (require_row key)) (\<lambda>row. alift (row_to_record fl row))))))"

definition mark_retryable :: "(string \<Rightarrow> pyfloat) \<Rightarrow> string \<Rightarrow> string \<Rightarrow> utc \<Rightarrow> (sync_db, sync_record) action" where
  "mark_retryable fl key error now = mark_failure fl key error Sync_Retryable now"

definition mark_terminal :: "(string \<Rightarrow> pyfloat) \<Rightarrow> string \<Rightarrow> string \<Rightarrow> utc \<Rightarrow> (sync_db, sync_record) action" where
  "mark_terminal fl key error now = mark_failure fl key error Sync_Terminal now"

definition sync_row_done :: "string \<Rightarrow> utc \<Rightarrow> sync_row \<Rightarrow> sync_row" where
  "sync_row_done ack_hash now r = r \<lparr> sr_state := Sync_Synchronized, sr_acknowledgement_hash := Some ack_hash,
     sr_synchronized_at_utc := Some (isoformat_z now), sr_updated_at_utc := isoformat_z now, sr_last_error := None \<rparr>"

definition mark_synchronized :: "(string \<Rightarrow> pyfloat) \<Rightarrow> string \<Rightarrow> (string \<times> json) list \<Rightarrow> utc \<Rightarrow> (sync_db, sync_record) action" where
  "mark_synchronized fl key acknowledgement now =
     (let ack_hash = sha256_hex (utf8 (dumps (JObj acknowledgement))) in
      abind (aread (require_row key)) (\<lambda>row.
      if sr_state row = Sync_Synchronized
      then (if sr_acknowledgement_hash row \<noteq> Some ack_hash
            then alift (Inl (SyncConflictError ''synchronized record received a conflicting acknowledgement''))
            else alift (row_to_record fl row))
      else
        abind (awrite (update_rows (\<lambda>r. sr_idempotency_key r = key) (sync_row_done ack_hash now))) (\<lambda>_.
        abind (awrite (set_meta ''last_successful_sync'' (isoformat_z now))) (\<lambda>_.
        abind (aread (require_row key)) (\<lambda>updated. alift (row_to_record fl updated))))))"

definition sync_get :: "(string \<Rightarrow> pyfloat) \<Rightarrow> string \<Rightarrow> sync_db \<Rightarrow> sync_record result" where
  "sync_get fl key db = rbind (require_row key db) (row_to_record fl)"

definition set_upstream_status :: "string \<Rightarrow> sync_db \<Rightarrow> sync_db" where
  "set_upstream_status status db = set_meta ''upstream_status'' status db"

definition get_upstream_status :: "sync_db \<Rightarrow> string" where
  "get_upstream_status db = (case get_meta ''upstream_status'' db of None \<Rightarrow> ''unknown'' | Some v \<Rightarrow> if v = [] then ''unknown'' else v)"

definition parse_utc :: "(string \<Rightarrow> datetime result) \<Rightarrow> string \<Rightarrow> datetime result" where
  "parse_utc fromiso v = fromiso (concat (map (\<lambda>c. if c = CHR ''Z'' then ''+00:00'' else [c]) v))"

text \<open>\<^verbatim>\<open>SELECT MIN(created_at_utc)\<close> compares texts; subtracting a naive from an aware datetime is a \<open>TypeError\<close>.\<close>

definition sync_status :: "(string \<Rightarrow> datetime result) \<Rightarrow> sync_queue \<Rightarrow> string \<Rightarrow> utc \<Rightarrow> sync_db \<Rightarrow> sync_queue_status result" where
  "sync_status fromiso q upstream_status now db =
     (let texts = map sr_created_at_utc (filter (\<lambda>r. sr_state r \<noteq> Sync_Synchronized) (sq_rows db)) in
      rbind (if texts = [] then Inr None
             else rbind (parse_utc fromiso (Min (set texts))) (\<lambda>d.
               rbind (utc_or_raise (TypeError ''can't subtract offset-naive and offset-aware datetimes'') d) (\<lambda>oldest.
               Inr (Some (max 0 (now - oldest)))))) (\<lambda>age.
      Inr \<lparr> qs_queue_depth = fst (capacity_usage db), qs_queue_bytes = snd (capacity_usage db),
        qs_pending = count_state Sync_Pending db, qs_in_flight = count_state Sync_In_Flight db,
        qs_retryable_failure = count_state Sync_Retryable db, qs_terminal_failure = count_state Sync_Terminal db,
        qs_synchronized = count_state Sync_Synchronized db, qs_max_items = qc_max_items q, qs_max_bytes = qc_max_bytes q,
        qs_oldest_pending_age = age, qs_last_successful_sync = get_meta ''last_successful_sync'' db,
        qs_last_failure = get_meta ''last_failure'' db, qs_upstream_status = upstream_status \<rparr>))"

section \<open>Status of one source\<close>

definition gateway_sync_schema :: string where
  "gateway_sync_schema = ''ets.gateway.sync.v1''"

record scoped_row =
  sw_state :: sync_state
  sw_payload_bytes :: int
  sw_created_at_utc :: utc
  sw_updated_at_utc :: utc
  sw_last_error :: "string option"
  sw_synchronized_at_utc :: "utc option"

record scoped_status =
  sc_tenant_id :: string
  sc_workspace_id :: string
  sc_source_id :: string
  sc_queue_depth :: int
  sc_queue_bytes :: int
  sc_pending :: int
  sc_in_flight :: int
  sc_retryable_failure :: int
  sc_terminal_failure :: int
  sc_synchronized :: int
  sc_shared_max_items :: int
  sc_shared_max_bytes :: int
  sc_oldest_unsynchronized_age :: "int option"
  sc_last_successful_sync :: "string option"
  sc_latest_active_failure :: "string option"
  sc_upstream_status :: string

definition bounded_identity :: "string \<Rightarrow> string \<Rightarrow> int \<Rightarrow> unit result" where
  "bounded_identity name v maximum =
     rcheck (1 \<le> int (length v) \<and> int (length v) \<le> maximum) (ValueError (name @ '' must be 1-'' @ show_int maximum @ '' characters''))"

definition aware_utc :: "datetime \<Rightarrow> utc result" where
  "aware_utc d = utc_or_raise (ValueError ''scoped queue posture timestamp must be timezone-aware'') d"

definition scoped_parse_utc :: "(string \<Rightarrow> datetime result) \<Rightarrow> string \<Rightarrow> utc result" where
  "scoped_parse_utc fromiso v = rbind (parse_utc fromiso v) aware_utc"

text \<open>\<^verbatim>\<open>except (TypeError, ValueError)\<close>, and \<^verbatim>\<open>UnicodeError\<close> is a \<^verbatim>\<open>ValueError\<close>.\<close>

definition classify_error :: "string \<Rightarrow> 'a result \<Rightarrow> 'a result" where
  "classify_error msg r = (case r of
     Inl (ValueError _) \<Rightarrow> Inl (ScopedSyncQueueStatusError msg)
   | Inl (TypeError _) \<Rightarrow> Inl (ScopedSyncQueueStatusError msg)
   | Inl (UnicodeError _) \<Rightarrow> Inl (ScopedSyncQueueStatusError msg)
   | _ \<Rightarrow> r)"

definition py_get :: "(pyval \<times> pyval) list \<Rightarrow> string \<Rightarrow> pyval" where
  "py_get d k = (case map_of d (PyStr k) of None \<Rightarrow> PyNone | Some v \<Rightarrow> v)"

definition stored_source :: "(string \<Rightarrow> pyfloat) \<Rightarrow> sync_row \<Rightarrow> string option result" where
  "stored_source fl row =
     rbind (classify_error ''stored synchronization payload is invalid JSON'' (loads fl (sr_payload_json row))) (\<lambda>decoded.
     case decoded of
       PyDict d \<Rightarrow>
         if py_get d ''sync_schema'' \<noteq> PyStr gateway_sync_schema then Inr None
         else (case py_get d ''capture'' of
           PyDict c \<Rightarrow> (case py_get c ''source_id'' of
               PyStr s \<Rightarrow> if 1 \<le> length s \<and> length s \<le> 200 then Inr (Some s)
                 else Inl (ScopedSyncQueueStatusError ''Gateway synchronization payload has invalid source identity'')
             | _ \<Rightarrow> Inl (ScopedSyncQueueStatusError ''Gateway synchronization payload has invalid source identity''))
         | _ \<Rightarrow> Inl (ScopedSyncQueueStatusError ''Gateway synchronization payload has no capture object''))
     | _ \<Rightarrow> Inl (ScopedSyncQueueStatusError ''stored synchronization payload is not an object''))"

definition classify_source_row ::
  "(string \<Rightarrow> pyfloat) \<Rightarrow> (string \<Rightarrow> datetime result) \<Rightarrow> string \<Rightarrow> sync_row \<Rightarrow> scoped_row option result" where
  "classify_source_row fl fromiso source_id row =
     rbind (stored_source fl row) (\<lambda>source.
     if source \<noteq> Some source_id then Inr None
     else
       rbind (classify_error ''stored synchronization state is invalid''
         (rbind (scoped_parse_utc fromiso (sr_created_at_utc row)) (\<lambda>created.
          rbind (scoped_parse_utc fromiso (sr_updated_at_utc row)) (\<lambda>updated.
          rbind (case sr_synchronized_at_utc row of None \<Rightarrow> Inr None
                 | Some t \<Rightarrow> rbind (scoped_parse_utc fromiso t) (\<lambda>u. Inr (Some u))) (\<lambda>synchronized.
          Inr (created, updated, synchronized)))))) (\<lambda>(created, updated, synchronized).
       rbind (rcheck (0 \<le> sr_payload_bytes row) (ScopedSyncQueueStatusError ''stored synchronization payload size is invalid'')) (\<lambda>_.
       Inr (Some \<lparr> sw_state = sr_state row, sw_payload_bytes = sr_payload_bytes row, sw_created_at_utc = created,
         sw_updated_at_utc = updated, sw_last_error = sr_last_error row, sw_synchronized_at_utc = synchronized \<rparr>))))"

definition keep_oldest :: "scoped_row \<Rightarrow> utc option \<Rightarrow> utc option" where
  "keep_oldest r oldest =
     (if sw_state r = Sync_Synchronized then oldest
      else case oldest of None \<Rightarrow> Some (sw_created_at_utc r)
        | Some t \<Rightarrow> if sw_created_at_utc r < t then Some (sw_created_at_utc r) else oldest)"

definition keep_latest_success :: "scoped_row \<Rightarrow> utc option \<Rightarrow> utc option" where
  "keep_latest_success r latest =
     (case sw_synchronized_at_utc r of None \<Rightarrow> latest
      | Some t \<Rightarrow> (case latest of None \<Rightarrow> Some t | Some u \<Rightarrow> if u < t then Some t else latest))"

definition keep_active_failure :: "scoped_row \<Rightarrow> (utc \<times> string) option \<Rightarrow> (utc \<times> string) option" where
  "keep_active_failure r active =
     (case sw_last_error r of None \<Rightarrow> active
      | Some e \<Rightarrow> (case active of None \<Rightarrow> Some (sw_updated_at_utc r, e)
          | Some (t, _) \<Rightarrow> if t < sw_updated_at_utc r then Some (sw_updated_at_utc r, e) else active))"

definition summarize :: "sync_queue \<Rightarrow> string \<Rightarrow> string \<Rightarrow> string \<Rightarrow> string \<Rightarrow> utc \<Rightarrow> scoped_row list \<Rightarrow> scoped_status" where
  "summarize q tenant_id workspace_id source_id upstream_status instant records =
     (let count = (\<lambda>st. int (length (filter (\<lambda>r. sw_state r = st) records)));
          waiting = filter (\<lambda>r. sw_state r \<noteq> Sync_Synchronized) records
      in \<lparr> sc_tenant_id = tenant_id, sc_workspace_id = workspace_id, sc_source_id = source_id,
        sc_queue_depth = int (length waiting), sc_queue_bytes = sum_list (map sw_payload_bytes waiting),
        sc_pending = count Sync_Pending, sc_in_flight = count Sync_In_Flight, sc_retryable_failure = count Sync_Retryable,
        sc_terminal_failure = count Sync_Terminal, sc_synchronized = count Sync_Synchronized,
        sc_shared_max_items = qc_max_items q, sc_shared_max_bytes = qc_max_bytes q,
        sc_oldest_unsynchronized_age = map_option (\<lambda>t. max 0 (instant - t)) (fold keep_oldest records None),
        sc_last_successful_sync = map_option isoformat_z (fold keep_latest_success records None),
        sc_latest_active_failure = map_option (\<lambda>(t, e). isoformat_z t @ '' '' @ e) (fold keep_active_failure records None),
        sc_upstream_status = upstream_status \<rparr>)"

definition source_scoped_sync_queue_status ::
  "(string \<Rightarrow> pyfloat) \<Rightarrow> (string \<Rightarrow> datetime result) \<Rightarrow> sync_queue \<Rightarrow> string \<Rightarrow> string \<Rightarrow> string \<Rightarrow> string \<Rightarrow>
   datetime \<Rightarrow> sync_db \<Rightarrow> scoped_status result" where
  "source_scoped_sync_queue_status fl fromiso q tenant_id workspace_id source_id upstream_status now db =
     rbind (bounded_identity ''tenant_id'' tenant_id 128) (\<lambda>_.
     rbind (bounded_identity ''workspace_id'' workspace_id 128) (\<lambda>_.
     rbind (bounded_identity ''source_id'' source_id 200) (\<lambda>_.
     rbind (rcheck (1 \<le> length upstream_status \<and> length upstream_status \<le> 200) (ValueError ''upstream_status must be 1-200 characters'')) (\<lambda>_.
     rbind (aware_utc now) (\<lambda>instant.
     let rows = sort_key sr_id (filter (\<lambda>r. sr_tenant_id r = tenant_id \<and> sr_workspace_id r = workspace_id) (sq_rows db)) in
     rbind (rmap (classify_source_row fl fromiso source_id) rows) (\<lambda>scoped.
     Inr (summarize q tenant_id workspace_id source_id upstream_status instant (List.map_filter id scoped))))))))"

section \<open>Commands\<close>

datatype sync_command =
    Enqueue "(string \<times> json) list" utc
  | Claim int utc
  | Mark_Retryable string string utc
  | Mark_Terminal string string utc
  | Mark_Synchronized string "(string \<times> json) list" utc
  | Restart utc
  | Set_Upstream string

definition payload_ok :: "(string \<Rightarrow> pyfloat) \<Rightarrow> (string \<times> json) list \<Rightarrow> bool" where
  "payload_ok fl p \<longleftrightarrow> json_ok (JObj p) \<and> floats_ok fl (JObj p)"

fun command_ok :: "(string \<Rightarrow> pyfloat) \<Rightarrow> sync_command \<Rightarrow> bool" where
  "command_ok fl (Enqueue p now) = payload_ok fl p"
| "command_ok fl _ = True"

fun sync_run :: "(string \<Rightarrow> pyfloat) \<Rightarrow> sync_queue \<Rightarrow> sync_command \<Rightarrow> sync_db \<Rightarrow> sync_db" where
  "sync_run fl q (Enqueue p now) db = snd (enqueue fl q p now db)"
| "sync_run fl q (Claim limit now) db = snd (claim_batch fl limit now db)"
| "sync_run fl q (Mark_Retryable key error now) db = snd (mark_retryable fl key error now db)"
| "sync_run fl q (Mark_Terminal key error now) db = snd (mark_terminal fl key error now db)"
| "sync_run fl q (Mark_Synchronized key ack now) db = snd (mark_synchronized fl key ack now db)"
| "sync_run fl q (Restart now) db = recover_in_flight now db"
| "sync_run fl q (Set_Upstream status) db = set_upstream_status status db"

definition sync_runs :: "(string \<Rightarrow> pyfloat) \<Rightarrow> sync_queue \<Rightarrow> sync_command list \<Rightarrow> sync_db \<Rightarrow> sync_db" where
  "sync_runs fl q cmds db = fold (sync_run fl q) cmds db"

section \<open>What an operation does to the table\<close>

declare dumps.simps(7) [simp del]

text \<open>The columns no operation writes again.\<close>

definition identity :: "sync_row \<Rightarrow> int \<times> string list \<times> int" where
  "identity r = (sr_id r, [sr_idempotency_key r, sr_event_id r, sr_event_hash r, sr_tenant_id r, sr_workspace_id r,
     sr_payload_json r, sr_created_at_utc r], sr_payload_bytes r)"

lemma identity_key: "identity r = identity r' \<Longrightarrow> sr_idempotency_key r = sr_idempotency_key r' \<and> sr_id r = sr_id r' \<and> sr_payload_bytes r = sr_payload_bytes r'"
  by (simp add: identity_def)

lemma sq_rows_update [simp]: "sq_rows (update_rows p f db) = map (\<lambda>r. if p r then f r else r) (sq_rows db)"
  "sq_seq (update_rows p f db) = sq_seq db" "sq_rows (set_meta k v db) = sq_rows db" "sq_seq (set_meta k v db) = sq_seq db"
  by (simp_all add: update_rows_def set_meta_def)

lemma find_row_key: "find_row key db = Some r \<Longrightarrow> sr_idempotency_key r = key"
  by (auto simp: find_row_def find_Some_iff)

lemma find_row_append:
  "find_row key (db \<lparr> sq_rows := sq_rows db @ [row], sq_seq := n \<rparr>) =
     (case find_row key db of Some r \<Rightarrow> Some r | None \<Rightarrow> if sr_idempotency_key row = key then Some row else None)"
proof -
  have "find P (xs @ [x]) = (case find P xs of Some r \<Rightarrow> Some r | None \<Rightarrow> if P x then Some x else None)" for P and xs :: "sync_row list" and x
    by (induction xs) auto
  then show ?thesis by (simp add: find_row_def)
qed

lemma find_row_meta [simp]: "find_row key (set_meta k v db) = find_row key db"
  by (simp add: find_row_def)

text \<open>A row changed by an update: the columns of \<open>identity\<close> stay, attempts do not decrease, and a synchronized row has an acknowledgement.\<close>

definition row_change :: "sync_row \<Rightarrow> sync_row \<Rightarrow> bool" where
  "row_change r r' \<longleftrightarrow> identity r' = identity r \<and> sr_attempts r \<le> sr_attempts r' \<and>
     (sr_state r' = Sync_Synchronized \<longrightarrow> (\<exists>h. sr_acknowledgement_hash r' = Some h) \<or> r' = r)"

lemma row_change_refl [simp]: "row_change r r"
  by (simp add: row_change_def)

lemma row_change_trans: "row_change a b \<Longrightarrow> row_change b c \<Longrightarrow> row_change a c"
  by (auto simp: row_change_def)

lemma row_changes [simp]:
  "row_change r (claim_row now r)" "row_change r (sync_row_done h now r)"
  "st \<noteq> Sync_Synchronized \<Longrightarrow> row_change r (r \<lparr> sr_state := st, sr_updated_at_utc := t, sr_last_error := e \<rparr>)"
  by (simp_all add: row_change_def claim_row_def sync_row_done_def identity_def)

definition table_change :: "sync_db \<Rightarrow> sync_db \<Rightarrow> bool" where
  "table_change db db' \<longleftrightarrow> sq_seq db' = sq_seq db \<and> list_all2 row_change (sq_rows db) (sq_rows db')"

lemma table_change_refl [simp]: "table_change db db"
  by (simp add: table_change_def list_all2_refl)

lemma table_change_trans: "table_change a b \<Longrightarrow> table_change b c \<Longrightarrow> table_change a c"
  by (auto simp: table_change_def intro: list_all2_trans [OF row_change_trans])

lemma table_change_update: "(\<And>r. p r \<Longrightarrow> row_change r (f r)) \<Longrightarrow> table_change db (update_rows p f db)"
  by (auto simp: table_change_def list_all2_map2 intro: list_all2_refl list.rel_refl_strong)

lemma table_change_meta [simp]: "table_change db (set_meta k v db)"
  by (simp add: table_change_def list_all2_refl)

lemma table_change_fold: "(\<And>x db. table_change db (f x db)) \<Longrightarrow> table_change db (fold f xs db)"
  by (induction xs arbitrary: db) (auto intro: table_change_trans)

lemma claim_change: "table_change db (snd (claim_batch fl limit now db))"
  by (auto simp: claim_batch_def claim_update_def Let_def intro!: table_change_fold table_change_update)

lemma mark_failure_change: "st \<noteq> Sync_Synchronized \<Longrightarrow> table_change db (snd (mark_failure fl key error st now db))"
  by (auto simp: mark_failure_def Let_def action_simps split: sum.split
      intro: table_change_update table_change_trans [OF table_change_update table_change_meta])

lemma mark_synchronized_change: "table_change db (snd (mark_synchronized fl key ack now db))"
  by (auto simp: mark_synchronized_def Let_def action_simps split: sum.split
      intro: table_change_update table_change_trans [OF table_change_update table_change_meta])

lemma recover_change: "table_change db (recover_in_flight now db)"
  by (auto simp: recover_in_flight_def Let_def intro: table_change_update table_change_trans [OF table_change_update table_change_meta])

text \<open>\<open>enqueue\<close> leaves the table or appends one pending row.\<close>

lemma enqueue_cases:
  obtains e where "enqueue fl q p now db = (Inl e, db)"
  | row where "enqueue fl q p now db = (row_to_record fl row, db)" "find_row (sr_idempotency_key row) db = Some row"
      "sr_payload_json row = dumps (JObj p)" "\<exists>required. required_payload_fields p = Inr required \<and> sr_idempotency_key row = required ! 0 \<and> sr_event_hash row = required ! 2"
  | required row where "required_payload_fields p = Inr required" "row = (new_row required (dumps (JObj p)) now) \<lparr> sr_id := sq_seq db + 1 \<rparr>"
      "enqueue fl q p now db = (row_to_record fl row, db \<lparr> sq_rows := sq_rows db @ [row], sq_seq := sq_seq db + 1 \<rparr>)"
      "find_row (required ! 0) db = None" "fst (capacity_usage db) < qc_max_items q"
      "snd (capacity_usage db) + int (length (utf8 (dumps (JObj p)))) \<le> qc_max_bytes q"
proof (cases "required_payload_fields p")
  case (Inl e)
  then show thesis by (intro that(1) [of e]) (simp add: enqueue_def Let_def action_simps)
next
  case (Inr required)
  let ?json = "dumps (JObj p)"
  let ?sel = "enqueue_select q (required ! 0) (required ! 2) ?json db"
  show thesis
  proof (cases ?sel)
    case sel: (Inl e)
    show thesis by (rule that(1) [of e]) (simp add: enqueue_def Let_def action_simps Inr sel)
  next
    case sel: (Inr existing)
    show thesis
    proof (cases existing)
      case (Some row)
      then have row: "find_row (required ! 0) db = Some row" "sr_event_hash row = required ! 2" "sr_payload_json row = ?json"
        using sel by (auto simp: enqueue_select_def Let_def split: option.split_asm if_split_asm prod.split_asm)
      then have "sr_idempotency_key row = required ! 0" by (simp add: find_row_key)
      with row Inr show thesis by (intro that(2) [of row]) (simp_all add: enqueue_def Let_def action_simps sel Some)
    next
      case None
      then have new: "find_row (required ! 0) db = None" "fst (capacity_usage db) < qc_max_items q"
        "snd (capacity_usage db) + int (length (utf8 ?json)) \<le> qc_max_bytes q"
        using sel by (auto simp: enqueue_select_def Let_def case_prod_beta split: option.split_asm if_split_asm)
      let ?row = "(new_row required ?json now) \<lparr> sr_id := sq_seq db + 1 \<rparr>"
      have key: "sr_idempotency_key (new_row required ?json now) = required ! 0" by (simp add: new_row_def)
      have "find_row (required ! 0) (db \<lparr> sq_rows := sq_rows db @ [?row], sq_seq := sq_seq db + 1 \<rparr>) = Some ?row"
        using new(1) key by (simp add: find_row_append)
      then have "enqueue_insert (new_row required ?json now) db = (Inr ?row, db \<lparr> sq_rows := sq_rows db @ [?row], sq_seq := sq_seq db + 1 \<rparr>)"
        using new(1) key by (simp add: enqueue_insert_def insert_row_def)
      then show thesis using new Inr
        by (intro that(3) [of required ?row]) (simp_all add: enqueue_def Let_def action_simps sel None)
    qed
  qed
qed

section \<open>Invariant\<close>

definition row_ok :: "(string \<Rightarrow> pyfloat) \<Rightarrow> sync_row \<Rightarrow> bool" where
  "row_ok fl r \<longleftrightarrow>
     (\<exists>p. payload_ok fl p \<and> sr_payload_json r = dumps (JObj p) \<and> required_payload_fields p =
        Inr [sr_idempotency_key r, sr_event_id r, sr_event_hash r, sr_tenant_id r, sr_workspace_id r]) \<and>
     sr_payload_bytes r = int (length (utf8 (sr_payload_json r))) \<and> 0 \<le> sr_attempts r \<and>
     (sr_state r = Sync_Synchronized \<longrightarrow> sr_acknowledgement_hash r \<noteq> None)"

definition sync_inv :: "(string \<Rightarrow> pyfloat) \<Rightarrow> sync_db \<Rightarrow> bool" where
  "sync_inv fl db \<longleftrightarrow> 0 \<le> sq_seq db \<and> map sr_id (sq_rows db) = [1..sq_seq db] \<and>
     distinct (map sr_idempotency_key (sq_rows db)) \<and> list_all (row_ok fl) (sq_rows db)"

inductive sync_reachable :: "(string \<Rightarrow> pyfloat) \<Rightarrow> sync_queue \<Rightarrow> sync_db \<Rightarrow> bool" for fl q where
  init: "sync_reachable fl q sync_empty"
| run: "sync_reachable fl q db \<Longrightarrow> command_ok fl cmd \<Longrightarrow> sync_reachable fl q (sync_run fl q cmd db)"

lemma row_ok_change: "row_ok fl r \<Longrightarrow> row_change r r' \<Longrightarrow> row_ok fl r'"
  unfolding row_ok_def row_change_def identity_def by auto

lemma table_change_identity:
  assumes "table_change db db'"
  shows "map identity (sq_rows db') = map identity (sq_rows db)"
proof -
  have "list_all2 (\<lambda>r r'. identity r = identity r') (sq_rows db) (sq_rows db')"
    using assms unfolding table_change_def by (auto elim: list_all2_mono simp: row_change_def)
  then show ?thesis by (induction rule: list_all2_induct) auto
qed

lemma identity_map: "map identity xs = map identity ys \<Longrightarrow> map sr_id xs = map sr_id ys \<and> map sr_idempotency_key xs = map sr_idempotency_key ys"
proof -
  assume "map identity xs = map identity ys"
  then have "map (f \<circ> identity) xs = map (f \<circ> identity) ys" for f :: "int \<times> string list \<times> int \<Rightarrow> 'b" by (metis map_map)
  from this [of fst] this [of "\<lambda>x. hd (fst (snd x))"] show ?thesis by (simp add: identity_def comp_def)
qed

lemma table_change_inv:
  assumes "table_change db db'" "sync_inv fl db"
  shows "sync_inv fl db'"
proof -
  have "list_all (row_ok fl) (sq_rows db')"
    using assms unfolding table_change_def sync_inv_def
    by (auto simp: list_all2_conv_all_nth list_all_length intro: row_ok_change)
  with assms identity_map [OF table_change_identity [OF assms(1)]] show ?thesis
    by (simp add: sync_inv_def table_change_def)
qed

lemma required_length: "required_payload_fields p = Inr required \<Longrightarrow> required = [required ! 0, required ! 1, required ! 2, required ! 3, required ! 4]"
  by (auto simp: required_payload_fields_def required_names_def)

lemma new_row_ok: "payload_ok fl p \<Longrightarrow> required_payload_fields p = Inr required \<Longrightarrow> row_ok fl ((new_row required (dumps (JObj p)) now) \<lparr> sr_id := i \<rparr>)"
  using required_length [of p required] by (auto simp: row_ok_def new_row_def)

lemma append_inv:
  assumes "sync_inv fl db" "row_ok fl row" "sr_id row = sq_seq db + 1" "find_row (sr_idempotency_key row) db = None"
  shows "sync_inv fl (db \<lparr> sq_rows := sq_rows db @ [row], sq_seq := sq_seq db + 1 \<rparr>)"
proof -
  have "[1..sq_seq db + 1] = [1..sq_seq db] @ [sq_seq db + 1]"
    using assms(1) by (simp add: sync_inv_def upto_rec2)
  with assms show ?thesis by (auto simp: sync_inv_def find_row_def find_None_iff)
qed

text \<open>Every command changes rows in place or appends one.\<close>

lemma sync_run_cases:
  assumes "command_ok fl cmd"
  obtains "table_change db (sync_run fl q cmd db)"
  | row where "sync_run fl q cmd db = db \<lparr> sq_rows := sq_rows db @ [row], sq_seq := sq_seq db + 1 \<rparr>" "row_ok fl row"
      "sr_id row = sq_seq db + 1" "find_row (sr_idempotency_key row) db = None" "sr_state row = Sync_Pending"
      "fst (capacity_usage db) < qc_max_items q" "snd (capacity_usage db) + sr_payload_bytes row \<le> qc_max_bytes q"
proof (cases cmd)
  case (Enqueue p now)
  show thesis
  proof (cases rule: enqueue_cases [of fl q p now db])
    case (3 required row)
    have "row_ok fl row" using new_row_ok [OF _ 3(1)] assms Enqueue 3(2) by simp
    with 3 show thesis by (intro that(2) [of row]) (simp_all add: Enqueue new_row_def)
  qed (use that(1) Enqueue in simp_all)
qed (use that(1) claim_change mark_failure_change mark_synchronized_change recover_change
      in \<open>auto simp: mark_retryable_def mark_terminal_def set_upstream_status_def\<close>)

lemma sync_run_inv: "sync_inv fl db \<Longrightarrow> command_ok fl cmd \<Longrightarrow> sync_inv fl (sync_run fl q cmd db)"
  by (erule sync_run_cases [of fl cmd db q]) (auto intro: table_change_inv append_inv)

lemma sync_empty_inv [simp]: "sync_inv fl sync_empty"
  by (simp add: sync_inv_def sync_empty_def)

lemma sync_reachable_inv: "sync_reachable fl q db \<Longrightarrow> sync_inv fl db"
  by (induction rule: sync_reachable.induct) (simp_all add: sync_run_inv)

section \<open>Records are permanent\<close>

lemma row_to_record_Inr:
  assumes "row_ok fl r"
  shows "\<exists>rec p. row_to_record fl r = Inr rec \<and> payload_ok fl p \<and> sr_payload_json r = dumps (JObj p) \<and>
    sy_payload rec = py_of_json (jnorm (JObj p)) \<and> sy_idempotency_key rec = sr_idempotency_key r \<and> sy_state rec = sr_state r \<and>
    sy_event_hash rec = sr_event_hash r \<and> sy_attempts rec = sr_attempts r"
proof -
  obtain p where p: "payload_ok fl p" "sr_payload_json r = dumps (JObj p)" using assms by (auto simp: row_ok_def)
  then have "loads fl (sr_payload_json r) = Inr (py_of_json (jnorm (JObj p)))" by (simp add: loads_dumps payload_ok_def)
  with p show ?thesis by (auto simp: row_to_record_def)
qed

lemma dumps_payload:
  assumes "payload_ok fl p" "payload_ok fl p'" "dumps (JObj p) = dumps (JObj p')"
  shows "jnorm (JObj p) = jnorm (JObj p')"
  using assms dumps_eq_iff by (auto simp: payload_ok_def)

lemma find_row_iff:
  assumes "sync_inv fl db"
  shows "find_row key db = Some r \<longleftrightarrow> r \<in> set (sq_rows db) \<and> sr_idempotency_key r = key"
proof -
  have d: "distinct (map sr_idempotency_key (sq_rows db))" using assms by (simp add: sync_inv_def)
  have "find (\<lambda>r. sr_idempotency_key r = key) xs = Some r \<longleftrightarrow> r \<in> set xs \<and> sr_idempotency_key r = key"
    if "distinct (map sr_idempotency_key xs)" for xs
    using that by (induction xs) force+
  from this [OF d] show ?thesis by (simp add: find_row_def)
qed

lemma list_all2_member: "list_all2 R xs ys \<Longrightarrow> x \<in> set xs \<Longrightarrow> \<exists>y \<in> set ys. R x y"
  by (induction rule: list_all2_induct) auto

lemma sync_run_keeps:
  assumes "sync_inv fl db" "command_ok fl cmd" "find_row key db = Some r"
  shows "\<exists>r'. find_row key (sync_run fl q cmd db) = Some r' \<and> row_change r r'"
  using assms(2)
proof (cases rule: sync_run_cases [where db = db and q = q])
  case 1
  note inv = table_change_inv [OF 1 assms(1)]
  have "r \<in> set (sq_rows db)" "sr_idempotency_key r = key" using assms find_row_iff [OF assms(1)] by auto
  with 1 obtain r' where "r' \<in> set (sq_rows (sync_run fl q cmd db))" "row_change r r'"
    unfolding table_change_def using list_all2_member by metis
  with \<open>sr_idempotency_key r = key\<close> show ?thesis
    using find_row_iff [OF inv, of key r'] identity_key [of r' r] by (auto simp: row_change_def)
next
  case (2 row)
  with assms(3) show ?thesis by (auto simp: find_row_append)
qed

lemma sync_runs_keep:
  assumes "sync_reachable fl q db" "list_all (command_ok fl) cmds" "find_row key db = Some r"
  shows "sync_reachable fl q (sync_runs fl q cmds db) \<and> (\<exists>r'. find_row key (sync_runs fl q cmds db) = Some r' \<and> row_change r r')"
  using assms
proof (induction cmds arbitrary: db r)
  case (Cons cmd cmds)
  obtain r1 where r1: "find_row key (sync_run fl q cmd db) = Some r1" "row_change r r1"
    using sync_run_keeps [OF sync_reachable_inv [OF Cons.prems(1)] _ Cons.prems(3), of cmd q] Cons.prems(2) by auto
  have "sync_reachable fl q (sync_run fl q cmd db)" using Cons.prems by (auto intro: sync_reachable.run)
  from Cons.IH [OF this _ r1(1)] Cons.prems(2) r1(2) show ?case
    by (auto simp: sync_runs_def intro: row_change_trans)
qed (auto simp: sync_runs_def)

text \<open>
  C21. Nothing enqueued is lost or altered. Once \<^verbatim>\<open>enqueue\<close> has returned a record for a payload, then after any
  further commands, restarts included, \<^verbatim>\<open>get\<close> returns a record under its idempotency key with the same event
  hash and the very payload that was enqueued (its keys sorted), and with no fewer attempts.
\<close>

theorem sync_enqueued_is_permanent:
  assumes "sync_reachable fl q db" "payload_ok fl p" "enqueue fl q p now db = (Inr rec, db')" "list_all (command_ok fl) cmds"
  shows "\<exists>rec'. sync_get fl (sy_idempotency_key rec) (sync_runs fl q cmds db') = Inr rec' \<and>
    sy_payload rec = py_of_json (jnorm (JObj p)) \<and> sy_payload rec' = sy_payload rec \<and>
    sy_event_hash rec' = sy_event_hash rec \<and> sy_attempts rec \<le> sy_attempts rec'"
proof -
  have reach: "sync_reachable fl q db'"
    using sync_reachable.run [OF assms(1), of "Enqueue p now"] assms(2,3) by simp
  note inv' = sync_reachable_inv [OF reach]
  obtain r where r: "find_row (sr_idempotency_key r) db' = Some r" "row_to_record fl r = Inr rec" "sr_payload_json r = dumps (JObj p)"
  proof (cases rule: enqueue_cases [of fl q p now db])
    case (2 row)
    with assms(3) that show thesis by auto
  next
    case (3 required row)
    with assms(3) show thesis by (intro that [of row]) (auto simp: find_row_append new_row_def)
  qed (use assms(3) in auto)
  have ok: "row_ok fl r" using inv' find_row_iff [OF inv'] r(1) by (auto simp: sync_inv_def list_all_iff)
  have key: "sy_idempotency_key rec = sr_idempotency_key r" "sy_payload rec = py_of_json (jnorm (JObj p))"
    using row_to_record_Inr [OF ok] r(2,3) dumps_payload [OF _ assms(2)] by auto
  obtain r' where r': "sync_reachable fl q (sync_runs fl q cmds db')" "find_row (sr_idempotency_key r) (sync_runs fl q cmds db') = Some r'" "row_change r r'"
    using sync_runs_keep [OF reach assms(4) r(1)] by auto
  have ok': "row_ok fl r'" by (rule row_ok_change [OF ok r'(3)])
  have "sr_payload_json r' = dumps (JObj p)" "sr_event_hash r' = sr_event_hash r" "sr_attempts r \<le> sr_attempts r'"
    using r'(3) r(3) by (auto simp: row_change_def identity_def)
  moreover obtain rec' where "row_to_record fl r' = Inr rec'" "sy_event_hash rec' = sr_event_hash r'" "sy_attempts rec' = sr_attempts r'"
     "sr_payload_json r' = dumps (JObj p) \<longrightarrow> sy_payload rec' = py_of_json (jnorm (JObj p))"
    using row_to_record_Inr [OF ok'] dumps_payload [OF _ assms(2)] by metis
  moreover have "sy_event_hash rec = sr_event_hash r" "sy_attempts rec = sr_attempts r"
    using row_to_record_Inr [OF ok] r(2) by auto
  ultimately show ?thesis using r'(2) key by (simp add: sync_get_def require_row_def)
qed

text \<open>
  Enqueueing is idempotent and never overwrites. When the queue already holds a record under the idempotency key
  of a payload, enqueueing changes nothing: it returns the record stored if event hash and payload are the same, and
  raises a conflict otherwise. The queue may be full: a repeated record is returned all the same.
\<close>

theorem sync_enqueue_idempotent:
  assumes "sync_reachable fl q db" "payload_ok fl p" "required_payload_fields p = Inr required" "find_row (required ! 0) db = Some r"
  shows "\<exists>rec. row_to_record fl r = Inr rec \<and> enqueue fl q p now db =
    (if sr_event_hash r = required ! 2 \<and> sr_payload_json r = dumps (JObj p) then Inr rec
     else Inl (SyncConflictError ''idempotency key already exists with different immutable content''), db)"
proof -
  have "row_ok fl r" using sync_reachable_inv [OF assms(1)] find_row_iff [OF sync_reachable_inv [OF assms(1)]] assms(4)
    by (auto simp: sync_inv_def list_all_iff)
  with row_to_record_Inr obtain rec where "row_to_record fl r = Inr rec" by blast
  with assms(3,4) show ?thesis by (simp add: enqueue_def Let_def action_simps enqueue_select_def)
qed

section \<open>Capacity\<close>

definition within_capacity :: "sync_queue \<Rightarrow> sync_db \<Rightarrow> bool" where
  "within_capacity q db \<longleftrightarrow> fst (capacity_usage db) \<le> qc_max_items q \<and> snd (capacity_usage db) \<le> qc_max_bytes q"

text \<open>Rows that count against the limits do not become more when no synchronized row leaves its state.\<close>

definition frees :: "sync_row \<Rightarrow> sync_row \<Rightarrow> bool" where
  "frees r r' \<longleftrightarrow> sr_payload_bytes r' = sr_payload_bytes r \<and> 0 \<le> sr_payload_bytes r \<and> (sr_state r = Sync_Synchronized \<longrightarrow> sr_state r' = Sync_Synchronized)"

lemma usage_frees:
  assumes "list_all2 frees (sq_rows db) (sq_rows db')"
  shows "fst (capacity_usage db') \<le> fst (capacity_usage db) \<and> snd (capacity_usage db') \<le> snd (capacity_usage db)"
  using assms unfolding capacity_usage_def Let_def
  by (induction rule: list_all2_induct) (auto simp: frees_def)

lemma usage_append:
  "capacity_usage (db \<lparr> sq_rows := sq_rows db @ [row], sq_seq := n \<rparr>) =
     (if sr_state row = Sync_Synchronized then capacity_usage db
      else (fst (capacity_usage db) + 1, snd (capacity_usage db) + sr_payload_bytes row))"
  by (simp add: capacity_usage_def Let_def)

lemma claim_row_key [simp]: "sr_idempotency_key (claim_row now r) = sr_idempotency_key r"
  by (simp add: claim_row_def)

lemma fold_claim:
  "distinct keys \<Longrightarrow> sq_rows (fold (\<lambda>key. update_rows (\<lambda>r. sr_idempotency_key r = key) (claim_row now)) keys db) =
     map (\<lambda>r. if sr_idempotency_key r \<in> set keys then claim_row now r else r) (sq_rows db)"
  by (induction keys arbitrary: db) auto

lemma key_inject:
  assumes "sync_inv fl db" "r \<in> set (sq_rows db)" "r' \<in> set (sq_rows db)" "sr_idempotency_key r = sr_idempotency_key r'"
  shows "r = r'"
  using assms unfolding sync_inv_def by (metis distinct_map inj_on_eq_iff)

abbreviation batch :: "int \<Rightarrow> sync_db \<Rightarrow> sync_row list" where
  "batch limit db \<equiv> take (nat limit) (filter claimable (sq_rows db))"

lemma claim_select_batch:
  assumes "sync_inv fl db"
  shows "claim_select limit db = map sr_idempotency_key (batch limit db)" "distinct (claim_select limit db)"
proof -
  have "sorted (map sr_id (sq_rows db))" using assms by (simp add: sync_inv_def)
  then have "sorted (map sr_id (filter claimable (sq_rows db)))" by (rule sorted_filter)
  then show eq: "claim_select limit db = map sr_idempotency_key (batch limit db)"
    by (simp add: claim_select_def sort_key_id_if_sorted)
  have "distinct (map sr_idempotency_key (filter claimable (sq_rows db)))"
    using assms by (auto simp: sync_inv_def intro: distinct_map_filter)
  then show "distinct (claim_select limit db)" unfolding eq by (metis distinct_take take_map)
qed

lemma batch_subset: "r \<in> set (batch limit db) \<Longrightarrow> r \<in> set (sq_rows db) \<and> claimable r"
  using set_take_subset [of "nat limit" "filter claimable (sq_rows db)"] by auto

lemma batch_rows:
  assumes "sync_inv fl db" "r \<in> set (sq_rows db)"
  shows "sr_idempotency_key r \<in> set (claim_select limit db) \<longleftrightarrow> r \<in> set (batch limit db)"
proof
  assume "sr_idempotency_key r \<in> set (claim_select limit db)"
  then obtain r' where r': "r' \<in> set (batch limit db)" "sr_idempotency_key r = sr_idempotency_key r'"
    unfolding claim_select_batch [OF assms(1)] by auto
  with key_inject [OF assms(1,2) _ r'(2)] batch_subset [OF r'(1)] show "r \<in> set (batch limit db)" by simp
qed (auto simp: claim_select_batch [OF assms(1)])

lemma claim_batch_effect:
  assumes "sync_inv fl db" "1 \<le> limit"
  shows "sq_rows (snd (claim_batch fl limit now db)) = map (\<lambda>r. if r \<in> set (batch limit db) then claim_row now r else r) (sq_rows db)"
    "fst (claim_batch fl limit now db) = rmap (row_to_record fl) (map (claim_row now) (batch limit db))"
proof -
  let ?db = "snd (claim_batch fl limit now db)"
  have db: "?db = fold (\<lambda>key. update_rows (\<lambda>r. sr_idempotency_key r = key) (claim_row now)) (claim_select limit db) db"
    using assms(2) by (simp add: claim_batch_def claim_update_def Let_def)
  show rows: "sq_rows ?db = map (\<lambda>r. if r \<in> set (batch limit db) then claim_row now r else r) (sq_rows db)"
    unfolding db fold_claim [OF claim_select_batch(2) [OF assms(1)]] using batch_rows [OF assms(1)] by simp
  have "find_row (sr_idempotency_key r) ?db = Some (claim_row now r)" if "r \<in> set (batch limit db)" for r
  proof -
    have "r \<in> set (sq_rows db)" using batch_subset [OF that] by simp
    then have "claim_row now r \<in> set (sq_rows ?db)" unfolding rows set_map by (rule image_eqI [rotated]) (use that in simp)
    then show ?thesis using find_row_iff [OF table_change_inv [OF claim_change assms(1)]] by simp
  qed
  then have "List.map_filter (\<lambda>key. find_row key ?db) (map sr_idempotency_key (batch limit db)) = map (claim_row now) (batch limit db)"
    by (simp add: map_filter_def comp_def)
  then show "fst (claim_batch fl limit now db) = rmap (row_to_record fl) (map (claim_row now) (batch limit db))"
    using assms(2) claim_select_batch(1) [OF assms(1)] db by (simp add: claim_batch_def claim_update_def Let_def)
qed

fun spares_settled :: "sync_db \<Rightarrow> sync_command \<Rightarrow> bool" where
  "spares_settled db (Mark_Retryable key error now) = (map_option sr_state (find_row key db) \<noteq> Some Sync_Synchronized)"
| "spares_settled db (Mark_Terminal key error now) = (map_option sr_state (find_row key db) \<noteq> Some Sync_Synchronized)"
| "spares_settled db _ = True"

inductive sync_disciplined :: "(string \<Rightarrow> pyfloat) \<Rightarrow> sync_queue \<Rightarrow> sync_db \<Rightarrow> bool" for fl q where
  init: "sync_disciplined fl q sync_empty"
| run: "sync_disciplined fl q db \<Longrightarrow> command_ok fl cmd \<Longrightarrow> spares_settled db cmd \<Longrightarrow> sync_disciplined fl q (sync_run fl q cmd db)"

lemma disciplined_reachable: "sync_disciplined fl q db \<Longrightarrow> sync_reachable fl q db"
  by (induction rule: sync_disciplined.induct) (auto intro: sync_reachable.intros)

lemma frees_map:
  assumes "sync_inv fl db" "\<And>r. r \<in> set (sq_rows db) \<Longrightarrow> sr_payload_bytes (f r) = sr_payload_bytes r \<and> (sr_state r = Sync_Synchronized \<longrightarrow> sr_state (f r) = Sync_Synchronized)"
  shows "list_all2 frees (sq_rows db) (map f (sq_rows db))"
  using assms by (auto simp: list_all2_map2 sync_inv_def list_all_iff row_ok_def frees_def intro!: list.rel_refl_strong)

lemma sync_run_frees:
  assumes "sync_inv fl db" "spares_settled db cmd" "\<forall>p now. cmd \<noteq> Enqueue p now"
  shows "list_all2 frees (sq_rows db) (sq_rows (sync_run fl q cmd db))"
proof -
  note fm = frees_map [OF assms(1)]
  have same: "list_all2 frees (sq_rows db) (sq_rows db)" using fm [of id] by simp
  have failure: "list_all2 frees (sq_rows db) (sq_rows (snd (mark_failure fl key error st now db)))"
    if "map_option sr_state (find_row key db) \<noteq> Some Sync_Synchronized" for key error st now
  proof (cases "find_row key db")
    case None
    then show ?thesis by (simp add: mark_failure_def Let_def action_simps require_row_def same)
  next
    case (Some r)
    then have "r \<in> set (sq_rows db)" "sr_idempotency_key r = key" using find_row_iff [OF assms(1)] by auto
    then have "sr_state r' \<noteq> Sync_Synchronized" if "r' \<in> set (sq_rows db)" "sr_idempotency_key r' = key" for r'
      using key_inject [OF assms(1), of r r'] that \<open>map_option sr_state (find_row key db) \<noteq> Some Sync_Synchronized\<close> Some by auto
    with Some show ?thesis
      by (auto simp: mark_failure_def Let_def action_simps require_row_def split: sum.split intro!: fm)
  qed
  have sync: "list_all2 frees (sq_rows db) (sq_rows (snd (mark_synchronized fl key ack now db)))" for key ack now
    by (auto simp: mark_synchronized_def Let_def action_simps sync_row_done_def same split: sum.split intro!: fm)
  show ?thesis
  proof (cases cmd)
    case (Claim limit now)
    then show ?thesis
    proof (cases "1 \<le> limit")
      case True
      then show ?thesis
        unfolding Claim sync_run.simps claim_batch_effect(1) [OF assms(1) True]
        by (intro fm) (auto simp: claim_row_def claimable_def dest: batch_subset)
    qed (simp add: claim_batch_def same)
  qed (use assms failure sync same in \<open>auto simp: mark_retryable_def mark_terminal_def set_upstream_status_def recover_in_flight_def Let_def intro!: fm\<close>)
qed

lemma sync_run_capacity:
  assumes "sync_inv fl db" "command_ok fl cmd" "spares_settled db cmd" "within_capacity q db"
  shows "within_capacity q (sync_run fl q cmd db)"
proof (cases "\<exists>p now. cmd = Enqueue p now")
  case True
  then obtain p now where cmd: "cmd = Enqueue p now" by blast
  show ?thesis
  proof (cases rule: enqueue_cases [of fl q p now db])
    case (3 required row)
    then show ?thesis using assms(4) by (auto simp: cmd usage_append within_capacity_def new_row_def)
  qed (use cmd assms(4) in simp_all)
next
  case False
  with usage_frees [OF sync_run_frees [OF assms(1,3)], of q] assms(4) show ?thesis
    by (fastforce simp: within_capacity_def)
qed


section \<open>Delivery\<close>

lemma sync_claim_fifo_aux:
  assumes "sync_reachable fl q db" "1 \<le> limit"
  shows "\<exists>recs. fst (claim_batch fl limit now db) = Inr recs \<and>
    list_all2 (\<lambda>r rec. sy_idempotency_key rec = sr_idempotency_key r \<and> sy_state rec = Sync_In_Flight \<and> sy_attempts rec = sr_attempts r + 1)
      (take (nat limit) (filter claimable (sq_rows db))) recs \<and>
    sq_rows (snd (claim_batch fl limit now db)) =
      map (\<lambda>r. if r \<in> set (take (nat limit) (filter claimable (sq_rows db))) then claim_row now r else r) (sq_rows db)"
proof -
  note inv = sync_reachable_inv [OF assms(1)]
  have ok: "row_ok fl (claim_row now r)" if "r \<in> set (batch limit db)" for r
    using inv batch_subset [OF that] row_ok_change [OF _ row_changes(1)] by (auto simp: sync_inv_def list_all_iff)
  define rec where "rec r = (SOME x. row_to_record fl (claim_row now r) = Inr x)" for r
  have rec: "row_to_record fl (claim_row now r) = Inr (rec r) \<and> sy_idempotency_key (rec r) = sr_idempotency_key r \<and>
      sy_state (rec r) = Sync_In_Flight \<and> sy_attempts (rec r) = sr_attempts r + 1" if "r \<in> set (batch limit db)" for r
    using row_to_record_Inr [OF ok [OF that]] unfolding rec_def by (auto simp: claim_row_def)
  have "rmap (row_to_record fl) (map (claim_row now) (batch limit db)) = Inr (map rec (batch limit db))"
    using rec by (auto simp: rmap_eq_Inr list_all2_map1 list_all2_map2 intro: list.rel_refl_strong)
  moreover have "list_all2 (\<lambda>r rec. sy_idempotency_key rec = sr_idempotency_key r \<and> sy_state rec = Sync_In_Flight \<and> sy_attempts rec = sr_attempts r + 1)
      (batch limit db) (map rec (batch limit db))"
    using rec by (auto simp: list_all2_map2 intro!: list.rel_refl_strong)
  ultimately show ?thesis using claim_batch_effect [OF inv assms(2), of now] by auto
qed

text \<open>
  Claiming is first in, first out. \<^verbatim>\<open>claim_batch\<close> returns the oldest records that are pending or failed
  retryably, up to the limit, in the order in which they were enqueued, each in flight with one attempt more, and
  changes no other row.
\<close>

theorem sync_claim_fifo:
  assumes "sync_reachable fl q db" "1 \<le> limit"
  shows "\<exists>recs. fst (claim_batch fl limit now db) = Inr recs \<and>
    list_all2 (\<lambda>r rec. sy_idempotency_key rec = sr_idempotency_key r \<and> sy_state rec = Sync_In_Flight \<and> sy_attempts rec = sr_attempts r + 1)
      (take (nat limit) (filter claimable (sq_rows db))) recs \<and>
    sq_rows (snd (claim_batch fl limit now db)) =
      map (\<lambda>r. if r \<in> set (take (nat limit) (filter claimable (sq_rows db))) then claim_row now r else r) (sq_rows db)"
  by (rule sync_claim_fifo_aux [OF assms])

lemma mark_synchronized_rows:
  assumes "find_row key db = Some r" "sr_state r \<noteq> Sync_Synchronized"
  shows "sq_rows (snd (mark_synchronized fl key ack now db)) =
    map (\<lambda>r. if sr_idempotency_key r = key then sync_row_done (sha256_hex (utf8 (dumps (JObj ack)))) now r else r) (sq_rows db)"
  using assms by (auto simp: mark_synchronized_def Let_def action_simps require_row_def split: sum.split)

abbreviation ack_hash :: "(string \<times> json) list \<Rightarrow> string" where
  "ack_hash ack \<equiv> sha256_hex (utf8 (dumps (JObj ack)))"

lemma sync_row_done_key [simp]: "sr_idempotency_key (sync_row_done h now r) = sr_idempotency_key r"
  by (simp add: sync_row_done_def)

lemma fold_mark_synchronized:
  assumes "sync_inv fl db" "distinct keys" "\<And>k. k \<in> set keys \<Longrightarrow> \<exists>r. find_row k db = Some r \<and> sr_state r \<noteq> Sync_Synchronized"
  shows "sq_rows (fold (\<lambda>k db. snd (mark_synchronized fl k ack now db)) keys db) =
    map (\<lambda>r. if sr_idempotency_key r \<in> set keys then sync_row_done (ack_hash ack) now r else r) (sq_rows db)"
  using assms
proof (induction keys arbitrary: db)
  case (Cons k keys)
  obtain r where r: "find_row k db = Some r" "sr_state r \<noteq> Sync_Synchronized" using Cons.prems(3) [of k] by auto
  let ?db = "snd (mark_synchronized fl k ack now db)"
  note rows = mark_synchronized_rows [OF r, of fl ack now]
  have inv: "sync_inv fl ?db" by (rule table_change_inv [OF mark_synchronized_change Cons.prems(1)])
  have "\<exists>r. find_row k' ?db = Some r \<and> sr_state r \<noteq> Sync_Synchronized" if k': "k' \<in> set keys" for k'
  proof -
    obtain r' where r': "find_row k' db = Some r'" "sr_state r' \<noteq> Sync_Synchronized" using Cons.prems(3) [of k'] k' by auto
    then have "r' \<in> set (sq_rows db)" "sr_idempotency_key r' = k'" using find_row_iff [OF Cons.prems(1)] by auto
    moreover have "k' \<noteq> k" using k' Cons.prems(2) by auto
    ultimately have "r' \<in> set (sq_rows ?db)" unfolding rows set_map by (intro image_eqI [of _ _ r']) auto
    with r' \<open>sr_idempotency_key r' = k'\<close> show ?thesis using find_row_iff [OF inv] by blast
  qed
  from Cons.IH [OF inv _ this] Cons.prems(2)
  have "sq_rows (fold (\<lambda>k db. snd (mark_synchronized fl k ack now db)) (k # keys) db) =
      map (\<lambda>r. if sr_idempotency_key r \<in> set keys then sync_row_done (ack_hash ack) now r else r) (sq_rows ?db)" by simp
  also have "\<dots> = map (\<lambda>r. if sr_idempotency_key r \<in> set (k # keys) then sync_row_done (ack_hash ack) now r else r) (sq_rows db)"
    unfolding rows map_map by (rule map_cong) (use Cons.prems(2) in auto)
  finally show ?case .
qed simp

text \<open>One round of a worker whose upstream acknowledges everything: claim a batch, acknowledge each record.\<close>

definition sync_round :: "(string \<Rightarrow> pyfloat) \<Rightarrow> int \<Rightarrow> (string \<times> json) list \<times> utc \<Rightarrow> sync_db \<Rightarrow> sync_db" where
  "sync_round fl limit x db =
     (case x of (ack, now) \<Rightarrow> (case claim_batch fl limit now db of
        (Inl _, db') \<Rightarrow> db'
      | (Inr recs, db') \<Rightarrow> fold (\<lambda>k db. snd (mark_synchronized fl k ack now db)) (map sy_idempotency_key recs) db'))"

lemma sync_round_rows:
  assumes "sync_reachable fl q db" "1 \<le> limit"
  shows "sq_rows (sync_round fl limit (ack, now) db) =
    map (\<lambda>r. if r \<in> set (batch limit db) then sync_row_done (ack_hash ack) now (claim_row now r) else r) (sq_rows db)"
proof -
  note inv = sync_reachable_inv [OF assms(1)]
  obtain recs where recs: "fst (claim_batch fl limit now db) = Inr recs"
    "list_all2 (\<lambda>r rec. sy_idempotency_key rec = sr_idempotency_key r \<and> sy_state rec = Sync_In_Flight \<and> sy_attempts rec = sr_attempts r + 1)
      (batch limit db) recs"
    "sq_rows (snd (claim_batch fl limit now db)) = map (\<lambda>r. if r \<in> set (batch limit db) then claim_row now r else r) (sq_rows db)"
    using sync_claim_fifo_aux [OF assms, of now] by blast
  let ?db = "snd (claim_batch fl limit now db)" and ?keys = "map sy_idempotency_key recs"
  have keys: "?keys = claim_select limit db"
    unfolding claim_select_batch(1) [OF inv] using recs(2) by (induction rule: list_all2_induct) auto
  have inv': "sync_inv fl ?db" by (rule table_change_inv [OF claim_change inv])
  have found: "\<exists>r. find_row k ?db = Some r \<and> sr_state r \<noteq> Sync_Synchronized" if k: "k \<in> set ?keys" for k
  proof -
    obtain r where r: "r \<in> set (batch limit db)" "k = sr_idempotency_key r" using k unfolding keys claim_select_batch(1) [OF inv] by auto
    then have "claim_row now r \<in> set (sq_rows ?db)"
      unfolding recs(3) set_map using batch_subset [OF r(1)] by (intro image_eqI [of _ _ r]) simp_all
    then have "find_row k ?db = Some (claim_row now r)" using find_row_iff [OF inv'] r(2) by simp
    then show ?thesis by (simp add: claim_row_def)
  qed
  have "sync_round fl limit (ack, now) db = fold (\<lambda>k db. snd (mark_synchronized fl k ack now db)) ?keys ?db"
    by (simp add: sync_round_def case_prod_beta recs(1))
  also have "sq_rows \<dots> = map (\<lambda>r. if sr_idempotency_key r \<in> set ?keys then sync_row_done (ack_hash ack) now r else r) (sq_rows ?db)"
    using claim_select_batch(2) [OF inv] by (intro fold_mark_synchronized [OF inv' _ found]) (simp_all add: keys)
  also have "\<dots> = map (\<lambda>r. if r \<in> set (batch limit db) then sync_row_done (ack_hash ack) now (claim_row now r) else r) (sq_rows db)"
    using batch_rows [OF inv] by (auto simp: recs(3) keys)
  finally show ?thesis .
qed

lemma sync_round_reachable:
  assumes "sync_reachable fl q db"
  shows "sync_reachable fl q (sync_round fl limit (ack, now) db)"
proof -
  have claim: "sync_reachable fl q (snd (claim_batch fl limit now db))"
    using sync_reachable.run [OF assms, of "Claim limit now"] by simp
  have "sync_reachable fl q (fold (\<lambda>k db. snd (mark_synchronized fl k ack now db)) keys db')" if "sync_reachable fl q db'" for keys db'
    using that
  proof (induction keys arbitrary: db')
    case (Cons k keys)
    then show ?case using sync_reachable.run [OF Cons.prems, of "Mark_Synchronized k ack now"] by simp
  qed simp
  with claim show ?thesis by (auto simp: sync_round_def split: prod.split sum.split)
qed

text \<open>A round takes the first records off the list of those waiting.\<close>

lemma sync_round_waiting:
  assumes "sync_reachable fl q db" "1 \<le> limit"
  shows "filter claimable (sq_rows (sync_round fl limit (ack, now) db)) = drop (nat limit) (filter claimable (sq_rows db))"
proof -
  let ?w = "filter claimable (sq_rows db)"
  have "distinct (sq_rows db)" using sync_reachable_inv [OF assms(1)] by (auto simp: sync_inv_def distinct_map)
  then have d: "distinct (take (nat limit) ?w @ drop (nat limit) ?w)" by simp
  have "filter claimable (map (\<lambda>r. if r \<in> A then sync_row_done h now (claim_row now r) else r) xs) = filter (\<lambda>r. r \<notin> A) (filter claimable xs)" for A h xs
    by (induction xs) (auto simp: sync_row_done_def claimable_def)
  then have "filter claimable (sq_rows (sync_round fl limit (ack, now) db)) =
      filter (\<lambda>r. r \<notin> set (take (nat limit) ?w)) (take (nat limit) ?w @ drop (nat limit) ?w)"
    unfolding sync_round_rows [OF assms] by simp
  also have "\<dots> = drop (nat limit) ?w"
    using d unfolding filter_append by (auto simp: filter_id_conv simp del: append_take_drop_id)
  finally show ?thesis .
qed

lemma sync_rounds_drain:
  assumes "sync_reachable fl q db" "1 \<le> limit" "length (filter claimable (sq_rows db)) \<le> length rounds * nat limit"
  shows "map (\<lambda>r. (identity r, sr_state r)) (sq_rows (fold (sync_round fl limit) rounds db)) =
    map (\<lambda>r. (identity r, if claimable r then Sync_Synchronized else sr_state r)) (sq_rows db)"
  using assms(1,3)
proof (induction rounds arbitrary: db)
  case Nil
  then have "\<forall>r \<in> set (sq_rows db). \<not> claimable r" by (simp add: filter_empty_conv)
  then show ?case by simp
next
  case (Cons x rounds)
  obtain ack now where x: "x = (ack, now)" by (cases x)
  let ?db = "sync_round fl limit x db"
  have "length (filter claimable (sq_rows ?db)) \<le> length rounds * nat limit"
    using Cons.prems(2) sync_round_waiting [OF Cons.prems(1) assms(2)] by (simp add: x)
  from Cons.IH [OF _ this] sync_round_reachable [OF Cons.prems(1)]
  have "map (\<lambda>r. (identity r, sr_state r)) (sq_rows (fold (sync_round fl limit) (x # rounds) db)) =
      map (\<lambda>r. (identity r, if claimable r then Sync_Synchronized else sr_state r)) (sq_rows ?db)" by (simp add: x)
  also have "\<dots> = map (\<lambda>r. (identity r, if claimable r then Sync_Synchronized else sr_state r)) (sq_rows db)"
    unfolding x sync_round_rows [OF Cons.prems(1) assms(2)] map_map
    by (rule map_cong) (auto simp: sync_row_done_def claim_row_def identity_def claimable_def dest: batch_subset)
  finally show ?case .
qed

text \<open>
  C22. Everything is delivered. After a restart, a worker whose upstream acknowledges what it is sent and which runs
  as many rounds as batches are waiting has synchronized every record that had not failed terminally, those in flight when
  the process stopped included; records that failed terminally stay as they are, and no record is lost or altered.
\<close>

theorem sync_queue_drains:
  assumes "sync_reachable fl q db" "1 \<le> limit"
    "length (filter (\<lambda>r. sr_state r \<noteq> Sync_Synchronized \<and> sr_state r \<noteq> Sync_Terminal) (sq_rows db)) \<le> length rounds * nat limit"
  shows "map (\<lambda>r. (identity r, sr_state r)) (sq_rows (fold (sync_round fl limit) rounds (recover_in_flight now db))) =
    map (\<lambda>r. (identity r, if sr_state r = Sync_Terminal then Sync_Terminal else Sync_Synchronized)) (sq_rows db)"
proof -
  let ?f = "\<lambda>r. if sr_state r = Sync_In_Flight then r \<lparr> sr_state := Sync_Retryable, sr_updated_at_utc := isoformat_z now,
      sr_last_error := Some ''recovered in-flight record after process restart'' \<rparr> else r"
  have rows: "sq_rows (recover_in_flight now db) = map ?f (sq_rows db)" by (simp add: recover_in_flight_def Let_def)
  have cl: "claimable (?f r) \<longleftrightarrow> sr_state r \<noteq> Sync_Synchronized \<and> sr_state r \<noteq> Sync_Terminal" for r
    by (cases "sr_state r") (simp_all add: claimable_def)
  have "length (filter claimable (sq_rows (recover_in_flight now db))) \<le> length rounds * nat limit"
    using assms(3) by (simp add: rows filter_map comp_def cl)
  from sync_rounds_drain [OF _ assms(2) this, where q = q] sync_reachable.run [OF assms(1), of "Restart now"]
  have "map (\<lambda>r. (identity r, sr_state r)) (sq_rows (fold (sync_round fl limit) rounds (recover_in_flight now db))) =
      map ((\<lambda>r. (identity r, if claimable r then Sync_Synchronized else sr_state r)) \<circ> ?f) (sq_rows db)"
    by (simp add: rows)
  also have "\<dots> = map (\<lambda>r. (identity r, if sr_state r = Sync_Terminal then Sync_Terminal else Sync_Synchronized)) (sq_rows db)"
    by (rule map_cong) (auto simp: cl identity_def)
  finally show ?thesis .
qed

section \<open>Status\<close>

lemma status_counts:
  assumes "sync_status fromiso q up now db = Inr st"
  shows "qs_queue_depth st = qs_pending st + qs_in_flight st + qs_retryable_failure st + qs_terminal_failure st"
proof -
  have "int (length (filter (\<lambda>r. sr_state r \<noteq> Sync_Synchronized) xs)) =
      int (length (filter (\<lambda>r. sr_state r = Sync_Pending) xs)) + int (length (filter (\<lambda>r. sr_state r = Sync_In_Flight) xs)) +
      int (length (filter (\<lambda>r. sr_state r = Sync_Retryable) xs)) + int (length (filter (\<lambda>r. sr_state r = Sync_Terminal) xs))" for xs
  proof (induction xs)
    case (Cons r xs)
    then show ?case by (cases "sr_state r") simp_all
  qed simp
  with assms show ?thesis by (auto simp: sync_status_def capacity_usage_def count_state_def Let_def)
qed

text \<open>A row that belongs to a source: the tenant and workspace columns, and the source named in its payload.\<close>

definition of_source :: "(string \<Rightarrow> pyfloat) \<Rightarrow> string \<Rightarrow> string \<Rightarrow> string \<Rightarrow> sync_row \<Rightarrow> bool" where
  "of_source fl tenant workspace source r \<longleftrightarrow> sr_tenant_id r = tenant \<and> sr_workspace_id r = workspace \<and> stored_source fl r = Inr (Some source)"

lemma classify_other:
  assumes "classify_source_row fl fromiso source r = Inr x" "stored_source fl r \<noteq> Inr (Some source)"
  shows "x = None"
  using assms by (cases "stored_source fl r") (auto simp: classify_source_row_def)

lemma rmap_filter_relevant:
  assumes "rmap f rows = Inr xs" "\<And>r x. r \<in> set rows \<Longrightarrow> \<not> P r \<Longrightarrow> f r = Inr x \<Longrightarrow> x = None"
  shows "\<exists>ys. rmap f (filter P rows) = Inr ys \<and> List.map_filter id ys = List.map_filter id xs"
  using assms
proof (induction rows arbitrary: xs)
  case (Cons r rows)
  then obtain x xs' where x: "f r = Inr x" "rmap f rows = Inr xs'" "xs = x # xs'" by auto
  with Cons obtain ys where "rmap f (filter P rows) = Inr ys" "List.map_filter id ys = List.map_filter id xs'" by fastforce
  with x Cons.prems(2) [of r x] show ?case by (cases "P r") (auto simp: map_filter_simps id_def split: option.split)
qed simp

text \<open>
  The status of a source is its own. Whenever \<^verbatim>\<open>source_scoped_sync_queue_status\<close> returns, it returns the same for the
  queue with every row of another tenant, workspace or source taken out: the failures, the backlog and the
  successes of others do not show.
\<close>

theorem scoped_status_isolated:
  assumes "sync_reachable fl q db" "source_scoped_sync_queue_status fl fromiso q tenant workspace source up now db = Inr st"
  shows "source_scoped_sync_queue_status fl fromiso q tenant workspace source up now
    (db \<lparr> sq_rows := filter (of_source fl tenant workspace source) (sq_rows db) \<rparr>) = Inr st"
proof -
  let ?scope = "\<lambda>r. sr_tenant_id r = tenant \<and> sr_workspace_id r = workspace"
  have sorted: "sorted (map sr_id (filter P (sq_rows db)))" for P
    using sync_reachable_inv [OF assms(1)] by (auto simp: sync_inv_def intro: sorted_filter)
  obtain xs instant where xs: "rmap (classify_source_row fl fromiso source) (filter ?scope (sq_rows db)) = Inr xs" "aware_utc now = Inr instant"
    "st = summarize q tenant workspace source up instant (List.map_filter id xs)"
    using assms(2) by (auto simp: source_scoped_sync_queue_status_def sort_key_id_if_sorted [OF sorted])
  obtain ys where ys: "rmap (classify_source_row fl fromiso source) (filter (of_source fl tenant workspace source) (filter ?scope (sq_rows db))) = Inr ys"
    "List.map_filter id ys = List.map_filter id xs"
    using rmap_filter_relevant [OF xs(1), of "of_source fl tenant workspace source"] classify_other by (fastforce simp: of_source_def)
  have eq: "filter ?scope (filter (of_source fl tenant workspace source) (sq_rows db)) = filter (of_source fl tenant workspace source) (filter ?scope (sq_rows db))"
    by (simp add: conj_commute)
  have "sorted (map sr_id (filter ?scope (filter (of_source fl tenant workspace source) (sq_rows db))))"
    using sorted [of "\<lambda>r. of_source fl tenant workspace source r \<and> ?scope r"] by simp
  from sort_key_id_if_sorted [OF this] ys xs(2,3) eq assms(2) show ?thesis
    by (auto simp: source_scoped_sync_queue_status_def simp del: filter_filter)
qed

section \<open>Processes that interleave, failures that come late\<close>

definition sample_payload :: "string \<Rightarrow> (string \<times> json) list" where
  "sample_payload key = [(''idempotency_key'', JStr key), (''event_id'', JStr ''e''), (''event_hash'', JStr ''h''),
     (''tenant_id'', JStr ''t''), (''workspace_id'', JStr ''w''), (''sync_schema'', JStr gateway_sync_schema),
     (''capture'', JObj [(''source_id'', JStr ''s'')])]"

definition sample_required :: "string \<Rightarrow> string list" where
  "sample_required key = [key, ''e'', ''h'', ''t'', ''w'']"

definition sample_queue :: sync_queue where
  "sample_queue = \<lparr> qc_max_items = 1, qc_max_bytes = 1000 \<rparr>"

abbreviation no_floats :: "string \<Rightarrow> pyfloat" where
  "no_floats \<equiv> \<lambda>_. NaN"

lemma sample_payload_ok [simp]: "payload_ok fl (sample_payload key)"
  by (simp add: payload_ok_def sample_payload_def)

lemma sample_required_fields: "key \<noteq> [] \<Longrightarrow> required_payload_fields (sample_payload key) = Inr (sample_required key)"
  by (simp add: required_payload_fields_def required_names_def required_field_def sample_payload_def sample_required_def)

lemma sample_bytes:
  "length (utf8 (dumps (JObj (sample_payload ''a'')))) \<le> 200" "length (utf8 (dumps (JObj (sample_payload ''b'')))) \<le> 200"
  by code_simp+

text \<open>
  Two processes may both find room for one record more before either inserts its own: the limit of one item is exceeded.
\<close>

theorem sync_capacity_race:
  "enqueue_select sample_queue ''a'' ''h'' (dumps (JObj (sample_payload ''a''))) sync_empty = Inr None \<and>
   enqueue_select sample_queue ''b'' ''h'' (dumps (JObj (sample_payload ''b''))) sync_empty = Inr None \<and>
   fst (capacity_usage (snd (enqueue_insert (new_row (sample_required ''b'') (dumps (JObj (sample_payload ''b''))) now)
     (snd (enqueue_insert (new_row (sample_required ''a'') (dumps (JObj (sample_payload ''a''))) now) sync_empty))))) = 2"
  using sample_bytes
  by (simp add: enqueue_select_def find_row_def sync_empty_def capacity_usage_def sample_queue_def enqueue_insert_def insert_row_def new_row_def
      sample_required_def Let_def)

abbreviation sample_row :: sync_row where
  "sample_row \<equiv> (new_row (sample_required ''a'') (dumps (JObj (sample_payload ''a''))) 0) \<lparr> sr_id := 1 \<rparr>"

definition sample_db :: sync_db where
  "sample_db = \<lparr> sq_rows = [sample_row], sq_seq = 1, sq_meta = Map.empty \<rparr>"

lemma sample_enqueue: "enqueue fl sample_queue (sample_payload ''a'') 0 sync_empty = (row_to_record fl sample_row, sample_db)"
  using sample_bytes(1)
  by (simp add: enqueue_def Let_def action_simps sample_required_fields enqueue_select_def find_row_def sync_empty_def
      capacity_usage_def sample_queue_def enqueue_insert_def insert_row_def new_row_def sample_required_def sample_db_def abind_def [of "enqueue_insert _"])

lemma sample_queue_reachable: "sync_reachable fl sample_queue sample_db"
  using sync_reachable.run [OF sync_reachable.init, of fl "Enqueue (sample_payload ''a'') 0" sample_queue] by (simp add: sample_enqueue)

lemma sample_record: "\<exists>rec. row_to_record fl sample_row = Inr rec \<and> sy_idempotency_key rec = ''a''"
  using row_to_record_Inr [OF new_row_ok [OF sample_payload_ok sample_required_fields, where now = 0 and i = 1], of "''a''" fl]
  by (auto simp: new_row_def sample_required_def)

text \<open>
  Two workers that both read before either writes claim the same record: each is handed it in flight, the second with two attempts.
\<close>

theorem sync_double_claim:
  "claim_select 1 sample_db = [''a''] \<and>
   map sr_attempts (fst (claim_update now [''a''] sample_db)) = [1] \<and>
   map sr_attempts (fst (claim_update now [''a''] (snd (claim_update now [''a''] sample_db)))) = [2]"
  by (simp add: claim_select_def sample_db_def claimable_def new_row_def sample_required_def claim_update_def claim_row_def find_row_def
      update_rows_def map_filter_simps Let_def)

text \<open>
  A failure reported of a record that is synchronized already puts it back among the records to be sent, beyond the capacity checked
  by \<^verbatim>\<open>enqueue\<close>, though it keeps its acknowledgement.
\<close>

theorem sync_late_failure:
  "let db = snd (mark_retryable fl ''a'' error now (snd (mark_synchronized fl ''a'' ack now sample_db))) in
   map claimable (sq_rows db) = [True] \<and> map sr_acknowledgement_hash (sq_rows db) = [Some (ack_hash ack)] \<and>
   fst (capacity_usage (snd (mark_synchronized fl ''a'' ack now sample_db))) = 0 \<and> fst (capacity_usage db) = 1"
proof -
  have 1: "sq_rows (snd (mark_synchronized fl ''a'' ack now sample_db)) = [sync_row_done (ack_hash ack) now sample_row]"
    using mark_synchronized_rows [of "''a''" sample_db sample_row fl ack now]
    by (simp add: find_row_def sample_db_def new_row_def sample_required_def)
  then have 2: "sq_rows (snd (mark_retryable fl ''a'' error now (snd (mark_synchronized fl ''a'' ack now sample_db)))) =
      [(sync_row_done (ack_hash ack) now sample_row) \<lparr> sr_state := Sync_Retryable, sr_updated_at_utc := isoformat_z now, sr_last_error := Some (take 2048 error) \<rparr>]"
    by (auto simp: mark_retryable_def mark_failure_def Let_def action_simps require_row_def find_row_def new_row_def sample_required_def split: sum.split)
  show ?thesis by (simp add: Let_def 1 2 capacity_usage_def claimable_def) (simp add: sync_row_done_def)
qed

section \<open>Witnesses\<close>

theorem sync_enqueued_is_permanent_witness:
  "\<exists>rec'. sync_get no_floats ''a'' (sync_runs no_floats sample_queue [Claim 1 5, Restart 7] sample_db) = Inr rec' \<and>
     sy_payload rec' = py_of_json (jnorm (JObj (sample_payload ''a'')))"
proof -
  obtain rec where rec: "row_to_record no_floats sample_row = Inr rec" "sy_idempotency_key rec = ''a''" using sample_record by blast
  have "enqueue no_floats sample_queue (sample_payload ''a'') 0 sync_empty = (Inr rec, sample_db)" by (simp add: sample_enqueue rec)
  from sync_enqueued_is_permanent [OF sync_reachable.init sample_payload_ok this, of "[Claim 1 5, Restart 7]"] rec(2)
  show ?thesis by auto
qed

theorem sync_enqueue_idempotent_witness:
  "\<exists>rec. enqueue no_floats sample_queue (sample_payload ''a'') 9 sample_db = (Inr rec, sample_db)"
proof -
  have "find_row (sample_required ''a'' ! 0) sample_db = Some sample_row" by (simp add: find_row_def sample_db_def new_row_def sample_required_def)
  from sync_enqueue_idempotent [OF sample_queue_reachable sample_payload_ok sample_required_fields this]
  obtain rec where "enqueue no_floats sample_queue (sample_payload ''a'') 9 sample_db =
    (if sr_event_hash sample_row = sample_required ''a'' ! 2 \<and> sr_payload_json sample_row = dumps (JObj (sample_payload ''a'')) then Inr rec
     else Inl (SyncConflictError ''idempotency key already exists with different immutable content''), sample_db)" by auto
  then show ?thesis by (simp add: new_row_def sample_required_def)
qed


theorem sync_claim_fifo_witness:
  "\<exists>recs. fst (claim_batch no_floats 1 5 sample_db) = Inr recs"
proof -
  from sync_claim_fifo [OF sample_queue_reachable, of 1 no_floats 5] show ?thesis by auto
qed

theorem sync_queue_drains_witness:
  "map sr_state (sq_rows (fold (sync_round no_floats 1) [([], 5)] (recover_in_flight 3 sample_db))) = [Sync_Synchronized]"
proof -
  have "length (filter (\<lambda>r. sr_state r \<noteq> Sync_Synchronized \<and> sr_state r \<noteq> Sync_Terminal) (sq_rows sample_db)) \<le> length [([] :: (string \<times> json) list, 5 :: utc)] * nat 1"
    by (simp add: sample_db_def new_row_def)
  from sync_queue_drains [OF sample_queue_reachable _ this, of no_floats 3]
  have "map snd (map (\<lambda>r. (identity r, sr_state r)) (sq_rows (fold (sync_round no_floats 1) [([], 5)] (recover_in_flight 3 sample_db)))) =
      map snd (map (\<lambda>r. (identity r, if sr_state r = Sync_Terminal then Sync_Terminal else Sync_Synchronized)) (sq_rows sample_db))" by simp
  then show ?thesis by (simp add: comp_def sample_db_def new_row_def)
qed

theorem scoped_status_isolated_witness:
  "\<exists>st. source_scoped_sync_queue_status no_floats (\<lambda>_. Inr (Aware 0 0)) sample_queue ''t'' ''w'' ''s'' ''u'' (Aware 0 0)
     (sample_db \<lparr> sq_rows := filter (of_source no_floats ''t'' ''w'' ''s'') (sq_rows sample_db) \<rparr>) = Inr st"
proof -
  have "loads no_floats (sr_payload_json sample_row) = Inr (py_of_json (jnorm (JObj (sample_payload ''a''))))"
    using loads_dumps [of "JObj (sample_payload ''a'')" no_floats] sample_payload_ok [of no_floats "''a''"] by (simp add: payload_ok_def new_row_def)
  moreover have "jnorm (JObj (sample_payload ''a'')) = JObj [(''capture'', JObj [(''source_id'', JStr ''s'')]), (''event_hash'', JStr ''h''), (''event_id'', JStr ''e''),
      (''idempotency_key'', JStr ''a''), (''sync_schema'', JStr gateway_sync_schema), (''tenant_id'', JStr ''t''), (''workspace_id'', JStr ''w'')]"
    by code_simp
  ultimately have "stored_source no_floats sample_row = Inr (Some ''s'')"
    by (simp add: stored_source_def classify_error_def py_get_def)
  then have "\<exists>x. classify_source_row no_floats (\<lambda>_. Inr (Aware 0 0)) ''s'' sample_row = Inr x"
    by (simp add: classify_source_row_def scoped_parse_utc_def parse_utc_def aware_utc_def classify_error_def new_row_def)
  then obtain st where "source_scoped_sync_queue_status no_floats (\<lambda>_. Inr (Aware 0 0)) sample_queue ''t'' ''w'' ''s'' ''u'' (Aware 0 0) sample_db = Inr st"
    by (auto simp: source_scoped_sync_queue_status_def sample_db_def bounded_identity_def aware_utc_def new_row_def sample_required_def)
  from scoped_status_isolated [OF sample_queue_reachable this] show ?thesis by blast
qed

end
