(* ===== verification/Ets_Black_Box.thy ===== *)
theory Ets_Black_Box
  imports Ets_Proofs Ets_Linked
begin

text \<open>
  The black box incident recorder (\<^verbatim>\<open>ets/black_box/models.py\<close>, \<^verbatim>\<open>ets/black_box/store.py\<close>,
  \<^verbatim>\<open>ets/black_box/service.py\<close>): a rolling window of signed, hash-chained frames, which a trigger freezes and a seal turns
  into a signed segment; recovery after a restart; verification of frames and segments.

  A recorder is its in-memory store together with its copy of the durable state. Ed25519 is the parameter \<open>ed\<close>: signing, the
  public key of a private key, and whether a signature is accepted; \<open>ed25519_ok\<close> is what is relied on. \<open>dt\<close> is the text
  \<^verbatim>\<open>model_dump(mode="json")\<close> gives a datetime, and the clock is an argument of the operations that read it.
\<close>

section \<open>Models\<close>

datatype clock_quality = Clock_Synchronized | Clock_Estimated | Clock_Degraded | Clock_Unknown
datatype trigger_kind = Manual | Fault | Security | Policy_Trigger | Power_Loss | Crash | Watchdog
datatype seal_reason = Post_Window_Complete | Power_Loss_Imminent | Operator | Recovery

fun clock_quality_text :: "clock_quality \<Rightarrow> string" where
  "clock_quality_text Clock_Synchronized = ''synchronized''"
| "clock_quality_text Clock_Estimated = ''estimated''"
| "clock_quality_text Clock_Degraded = ''degraded''"
| "clock_quality_text Clock_Unknown = ''unknown''"

fun trigger_kind_text :: "trigger_kind \<Rightarrow> string" where
  "trigger_kind_text Manual = ''manual''"
| "trigger_kind_text Fault = ''fault''"
| "trigger_kind_text Security = ''security''"
| "trigger_kind_text Policy_Trigger = ''policy''"
| "trigger_kind_text Power_Loss = ''power_loss''"
| "trigger_kind_text Crash = ''crash''"
| "trigger_kind_text Watchdog = ''watchdog''"

fun seal_reason_text :: "seal_reason \<Rightarrow> string" where
  "seal_reason_text Post_Window_Complete = ''post_window_complete''"
| "seal_reason_text Power_Loss_Imminent = ''power_loss_imminent''"
| "seal_reason_text Operator = ''operator''"
| "seal_reason_text Recovery = ''recovery''"

record bb_capabilities =
  cap_atomic_frame_state_commit :: bool
  cap_crash_consistent :: bool
  cap_durable_write :: bool
  cap_write_once_sealed_segments :: bool
  cap_encryption_at_rest :: bool
  cap_power_loss_protection :: bool
  cap_hardware_backed_keys :: bool
  cap_measured_boot :: bool
  cap_tamper_detection :: bool
  cap_enforcement_boundary :: string

definition bb_production_ready :: "bb_capabilities \<Rightarrow> bool" where
  "bb_production_ready c \<longleftrightarrow> cap_atomic_frame_state_commit c \<and> cap_crash_consistent c \<and> cap_durable_write c \<and>
     cap_write_once_sealed_segments c \<and> cap_encryption_at_rest c \<and> cap_power_loss_protection c \<and> cap_hardware_backed_keys c \<and>
     cap_measured_boot c \<and> cap_tamper_detection c \<and> cap_enforcement_boundary c = ''hardware''"

record bb_observation =
  bo_device_id :: string
  bo_boot_id :: string
  bo_observation_id :: string
  bo_source_system :: string
  bo_event_type :: string
  bo_subject_ref :: "string option"
  bo_correlation_id :: "string option"
  bo_observed_at_utc :: utc
  bo_monotonic_ns :: int
  bo_clock_quality :: clock_quality
  bo_clock_error_bound_ms :: "int option"
  bo_content_hash_sha256 :: string
  bo_content_byte_length :: "int option"
  bo_attributes :: "(string \<times> json) list"

text \<open>Text of \<open>2 * n\<close> characters that \<^verbatim>\<open>bytes.fromhex\<close> decodes to \<open>n\<close> bytes.\<close>

definition hex_bytes :: "nat \<Rightarrow> string \<Rightarrow> bool" where
  "hex_bytes n s \<longleftrightarrow> length s = 2 * n \<and> (case fromhex_opt s of None \<Rightarrow> False | Some b \<Rightarrow> length b = n)"

definition bb_device_id_ok :: "string \<Rightarrow> bool" where
  "bb_device_id_ok d \<longleftrightarrow> field_length 16 160 d \<and> starts_with ''ets-black-box:'' d"

definition observation_ok :: "bb_observation \<Rightarrow> bool" where
  "observation_ok ob \<longleftrightarrow> bb_device_id_ok (bo_device_id ob) \<and>
     list_all (field_length 1 128) [bo_boot_id ob, bo_observation_id ob, bo_source_system ob, bo_event_type ob] \<and>
     opt_ok (\<lambda>s. length s \<le> 512) (bo_subject_ref ob) \<and> opt_ok (\<lambda>s. length s \<le> 128) (bo_correlation_id ob) \<and>
     0 \<le> bo_monotonic_ns ob \<and> opt_ok (\<lambda>n. 0 \<le> n \<and> n \<le> 86400000) (bo_clock_error_bound_ms ob) \<and>
     hex_bytes 32 (bo_content_hash_sha256 ob) \<and> opt_ok (\<lambda>n. 0 \<le> n) (bo_content_byte_length ob) \<and>
     json_ok (JObj (bo_attributes ob)) \<and> length (bo_attributes ob) \<le> 64 \<and> length (canon (JObj (bo_attributes ob))) \<le> 16 * 1024"

definition BlackBoxObservation :: "bb_observation \<Rightarrow> bb_observation result" where
  "BlackBoxObservation ob =
     (if observation_ok ob then Inr (ob \<lparr> bo_content_hash_sha256 := lower (bo_content_hash_sha256 ob) \<rparr>)
      else Inl (ValidationError ''BlackBoxObservation''))"

record bb_frame =
  bf_sequence :: int
  bf_boot_counter :: int
  bf_observation :: bb_observation
  bf_previous_frame_hash :: string
  bf_frame_hash :: string
  bf_signing_key_id :: string
  bf_signature_hex :: string

definition SignedBlackBoxFrame :: "bb_frame \<Rightarrow> bb_frame result" where
  "SignedBlackBoxFrame f =
     (if 1 \<le> bf_sequence f \<and> 1 \<le> bf_boot_counter f \<and> hex_bytes 32 (bf_previous_frame_hash f) \<and> hex_bytes 32 (bf_frame_hash f) \<and>
         field_length 1 256 (bf_signing_key_id f) \<and> hex_bytes 64 (bf_signature_hex f)
      then Inr (f \<lparr> bf_previous_frame_hash := lower (bf_previous_frame_hash f), bf_frame_hash := lower (bf_frame_hash f),
             bf_signature_hex := lower (bf_signature_hex f) \<rparr>)
      else Inl (ValidationError ''SignedBlackBoxFrame''))"

record bb_trigger =
  bt_trigger_id :: string
  bt_kind :: trigger_kind
  bt_reason :: string
  bt_triggered_at_utc :: utc
  bt_trigger_sequence :: int
  bt_actor_ref :: "string option"

definition BlackBoxTrigger :: "bb_trigger \<Rightarrow> bb_trigger result" where
  "BlackBoxTrigger t =
     (if field_length 1 128 (bt_trigger_id t) \<and> field_length 1 1024 (bt_reason t) \<and> 1 \<le> bt_trigger_sequence t \<and>
         opt_ok (\<lambda>s. length s \<le> 256) (bt_actor_ref t)
      then Inr t else Inl (ValidationError ''BlackBoxTrigger''))"

record active_capture =
  ac_trigger :: bb_trigger
  ac_first_sequence :: int
  ac_remaining_post_frames :: int

definition ActiveCaptureState :: "active_capture \<Rightarrow> active_capture result" where
  "ActiveCaptureState a =
     (if 1 \<le> ac_first_sequence a \<and> 0 \<le> ac_remaining_post_frames a \<and> ac_first_sequence a \<le> bt_trigger_sequence (ac_trigger a)
      then Inr a else Inl (ValidationError ''ActiveCaptureState''))"

record recorder_state =
  rs_device_id :: string
  rs_signing_key_id :: string
  rs_boot_id :: string
  rs_boot_counter :: int
  rs_last_sequence :: int
  rs_head_hash :: string
  rs_last_monotonic_ns :: "int option"
  rs_active_capture :: "active_capture option"

definition bb_zero_hash :: string where
  "bb_zero_hash = replicate 64 (CHR ''0'')"

definition RecorderState :: "string \<Rightarrow> string \<Rightarrow> string \<Rightarrow> int \<Rightarrow> recorder_state result" where
  "RecorderState device_id signing_key_id boot_id boot_counter =
     (if bb_device_id_ok device_id \<and> field_length 1 256 signing_key_id \<and> field_length 1 128 boot_id \<and> 1 \<le> boot_counter
      then Inr \<lparr> rs_device_id = device_id, rs_signing_key_id = signing_key_id, rs_boot_id = boot_id, rs_boot_counter = boot_counter,
        rs_last_sequence = 0, rs_head_hash = bb_zero_hash, rs_last_monotonic_ns = None, rs_active_capture = None \<rparr>
      else Inl (ValidationError ''RecorderState''))"

record bb_manifest =
  bm_segment_id :: string
  bm_device_id :: string
  bm_trigger :: bb_trigger
  bm_first_sequence :: int
  bm_last_sequence :: int
  bm_frame_count :: int
  bm_first_observed_at_utc :: utc
  bm_last_observed_at_utc :: utc
  bm_sealed_at_utc :: utc
  bm_seal_reason :: seal_reason
  bm_predecessor_frame_hash :: string
  bm_chain_head_hash :: string
  bm_segment_hash :: string
  bm_signing_key_id :: string
  bm_signature_hex :: string

definition segment_id_ok :: "string \<Rightarrow> bool" where
  "segment_id_ok s \<longleftrightarrow> length s = 71 \<and> starts_with ''bbxseg:'' s \<and> hex_bytes 32 (drop 7 s)"

definition manifest_range_ok :: "bb_manifest \<Rightarrow> bool" where
  "manifest_range_ok m \<longleftrightarrow> bm_first_sequence m \<le> bm_last_sequence m \<and>
     bm_frame_count m = bm_last_sequence m - bm_first_sequence m + 1 \<and>
     bm_first_sequence m \<le> bt_trigger_sequence (bm_trigger m) \<and> bt_trigger_sequence (bm_trigger m) \<le> bm_last_sequence m \<and>
     bm_first_observed_at_utc m \<le> bm_last_observed_at_utc m"

definition manifest_ok :: "bb_manifest \<Rightarrow> bool" where
  "manifest_ok m \<longleftrightarrow> segment_id_ok (bm_segment_id m) \<and> field_length 16 160 (bm_device_id m) \<and> 1 \<le> bm_first_sequence m \<and>
     1 \<le> bm_last_sequence m \<and> 1 \<le> bm_frame_count m \<and> hex_bytes 32 (bm_predecessor_frame_hash m) \<and> hex_bytes 32 (bm_chain_head_hash m) \<and>
     hex_bytes 32 (bm_segment_hash m) \<and> field_length 1 256 (bm_signing_key_id m) \<and> hex_bytes 64 (bm_signature_hex m) \<and> manifest_range_ok m"

definition BlackBoxSegmentManifest :: "bb_manifest \<Rightarrow> bb_manifest result" where
  "BlackBoxSegmentManifest m =
     (if manifest_ok m
      then Inr (m \<lparr> bm_segment_id := lower (bm_segment_id m), bm_predecessor_frame_hash := lower (bm_predecessor_frame_hash m),
             bm_chain_head_hash := lower (bm_chain_head_hash m), bm_segment_hash := lower (bm_segment_hash m),
             bm_signature_hex := lower (bm_signature_hex m) \<rparr>)
      else Inl (ValidationError ''BlackBoxSegmentManifest''))"

record bb_segment =
  sg_manifest :: bb_manifest
  sg_frames :: "bb_frame list"

definition segment_ok :: "bb_segment \<Rightarrow> bool" where
  "segment_ok s \<longleftrightarrow> sg_frames s \<noteq> [] \<and> int (length (sg_frames s)) = bm_frame_count (sg_manifest s) \<and>
     bf_sequence (hd (sg_frames s)) = bm_first_sequence (sg_manifest s) \<and> bf_sequence (last (sg_frames s)) = bm_last_sequence (sg_manifest s) \<and>
     list_all (\<lambda>f. bo_device_id (bf_observation f) = bm_device_id (sg_manifest s)) (sg_frames s)"

definition BlackBoxSegment :: "bb_segment \<Rightarrow> bb_segment result" where
  "BlackBoxSegment s = (if segment_ok s then Inr s else Inl (ValidationError ''BlackBoxSegment''))"

record bb_verification =
  bv_valid :: bool
  bv_reason :: string
  bv_frame_count :: int
  bv_segment_hash :: "string option"

record bb_status =
  bs_device_id :: string
  bs_boot_id :: string
  bs_boot_counter :: int
  bs_last_sequence :: int
  bs_head_hash :: string
  bs_live_frame_count :: int
  bs_sealed_segment_count :: int
  bs_capture_active :: bool
  bs_remaining_post_frames :: "int option"

record bb_policy =
  bp_pre_trigger_frames :: int
  bp_post_trigger_frames :: int
  bp_max_observation_bytes :: int
  bp_require_production_backend :: bool

definition bb_policy_ok :: "bb_policy \<Rightarrow> bool" where
  "bb_policy_ok p \<longleftrightarrow> 1 \<le> bp_pre_trigger_frames p \<and> bp_pre_trigger_frames p \<le> 1000000 \<and> 0 \<le> bp_post_trigger_frames p \<and>
     bp_post_trigger_frames p \<le> 1000000 \<and> 1024 \<le> bp_max_observation_bytes p \<and> bp_max_observation_bytes p \<le> 1024 * 1024"

section \<open>Store\<close>

record bb_store =
  bx_state :: "recorder_state option"
  bx_live :: "(int \<times> bb_frame) list"
  bx_segments :: "(string \<times> bb_segment) list"

definition bb_store_init :: bb_store where
  "bb_store_init = \<lparr> bx_state = None, bx_live = [], bx_segments = [] \<rparr>"

definition bb_memory_capabilities :: bb_capabilities where
  "bb_memory_capabilities = \<lparr> cap_atomic_frame_state_commit = True, cap_crash_consistent = False, cap_durable_write = False,
     cap_write_once_sealed_segments = True, cap_encryption_at_rest = False, cap_power_loss_protection = False,
     cap_hardware_backed_keys = False, cap_measured_boot = False, cap_tamper_detection = False, cap_enforcement_boundary = ''test'' \<rparr>"

definition initialize_state :: "recorder_state \<Rightarrow> (bb_store, unit) action" where
  "initialize_state st =
     abind (aread (\<lambda>s. rcheck (bx_state s = None) (BlackBoxStateConflict ''recorder state already initialized''))) (\<lambda>_.
     awrite (\<lambda>s. s \<lparr> bx_state := Some st \<rparr>))"

definition update_state :: "recorder_state \<Rightarrow> (bb_store, unit) action" where
  "update_state st =
     abind (aread (\<lambda>s. rcheck (bx_state s \<noteq> None) (BlackBoxStateConflict ''recorder state is not initialized''))) (\<lambda>_.
     awrite (\<lambda>s. s \<lparr> bx_state := Some st \<rparr>))"

definition commit_frame :: "bb_frame \<Rightarrow> recorder_state \<Rightarrow> (bb_store, unit) action" where
  "commit_frame frame st =
     abind (aread (\<lambda>s. rget (BlackBoxStateConflict ''recorder state is not initialized'') (bx_state s))) (\<lambda>current.
     abind (aread (\<lambda>s. rcheck (bf_sequence frame \<notin> fst ` set (bx_live s)) (BlackBoxStateConflict ''frame sequence already exists''))) (\<lambda>_.
     abind (acheck (rs_last_sequence current = bf_sequence frame - 1) (BlackBoxStateConflict ''frame does not extend persisted sequence'')) (\<lambda>_.
     awrite (\<lambda>s. s \<lparr> bx_live := bx_live s @ [(bf_sequence frame, frame)], bx_state := Some st \<rparr>))))"

definition list_live_frames :: "bb_store \<Rightarrow> bb_frame list" where
  "list_live_frames s = map snd (sort_key fst (bx_live s))"

definition prune_live_before :: "int \<Rightarrow> (bb_store, unit) action" where
  "prune_live_before minimum_sequence = awrite (\<lambda>s. s \<lparr> bx_live := filter (\<lambda>(k, v). minimum_sequence \<le> k) (bx_live s) \<rparr>)"

definition store_seal_segment :: "bb_segment \<Rightarrow> recorder_state \<Rightarrow> (bb_store, unit) action" where
  "store_seal_segment segment st =
     (let segment_id = bm_segment_id (sg_manifest segment) in
      abind (aread (\<lambda>s. rcheck (segment_id \<notin> fst ` set (bx_segments s)) (BlackBoxSegmentAlreadyExists segment_id))) (\<lambda>_.
      abind (awrite (\<lambda>s. s \<lparr> bx_segments := bx_segments s @ [(segment_id, segment)] \<rparr>)) (\<lambda>_.
      update_state st)))"

definition bb_get_segment :: "string \<Rightarrow> bb_store \<Rightarrow> bb_segment result" where
  "bb_get_segment segment_id s = rget (BlackBoxSegmentNotFound segment_id) (map_of (bx_segments s) segment_id)"

definition bb_list_segments :: "bb_store \<Rightarrow> bb_segment list" where
  "bb_list_segments s = map snd (bx_segments s)"

section \<open>Payloads and verification\<close>

definition JOptInt :: "int option \<Rightarrow> json" where
  "JOptInt x = (case x of None \<Rightarrow> JNull | Some i \<Rightarrow> JInt i)"

definition observation_json :: "(utc \<Rightarrow> string) \<Rightarrow> bb_observation \<Rightarrow> json" where
  "observation_json dt ob = JObj
     [(''schema_version'', JStr ''ets.black-box.observation.v1''), (''device_id'', JStr (bo_device_id ob)), (''boot_id'', JStr (bo_boot_id ob)),
      (''observation_id'', JStr (bo_observation_id ob)), (''source_system'', JStr (bo_source_system ob)), (''event_type'', JStr (bo_event_type ob)),
      (''subject_ref'', JOpt (bo_subject_ref ob)), (''correlation_id'', JOpt (bo_correlation_id ob)),
      (''observed_at_utc'', JStr (dt (bo_observed_at_utc ob))), (''monotonic_ns'', JInt (bo_monotonic_ns ob)),
      (''clock_quality'', JStr (clock_quality_text (bo_clock_quality ob))), (''clock_error_bound_ms'', JOptInt (bo_clock_error_bound_ms ob)),
      (''content_hash_sha256'', JStr (bo_content_hash_sha256 ob)), (''content_byte_length'', JOptInt (bo_content_byte_length ob)),
      (''attributes'', JObj (bo_attributes ob)), (''capture_mode'', JStr ''digest_only'')]"

definition trigger_json :: "(utc \<Rightarrow> string) \<Rightarrow> bb_trigger \<Rightarrow> json" where
  "trigger_json dt t = JObj
     [(''schema_version'', JStr ''ets.black-box.trigger.v1''), (''trigger_id'', JStr (bt_trigger_id t)), (''kind'', JStr (trigger_kind_text (bt_kind t))),
      (''reason'', JStr (bt_reason t)), (''triggered_at_utc'', JStr (dt (bt_triggered_at_utc t))), (''trigger_sequence'', JInt (bt_trigger_sequence t)),
      (''actor_ref'', JOpt (bt_actor_ref t))]"

definition frame_payload :: "(utc \<Rightarrow> string) \<Rightarrow> int \<Rightarrow> int \<Rightarrow> bb_observation \<Rightarrow> string \<Rightarrow> string \<Rightarrow> json" where
  "frame_payload dt sequence boot_counter ob previous_frame_hash signing_key_id = JObj
     [(''schema_version'', JStr ''ets.black-box.frame-payload.v1''), (''sequence'', JInt sequence), (''boot_counter'', JInt boot_counter),
      (''observation'', observation_json dt ob), (''previous_frame_hash'', JStr previous_frame_hash), (''signing_key_id'', JStr signing_key_id)]"

definition segment_payload :: "(utc \<Rightarrow> string) \<Rightarrow> bb_manifest \<Rightarrow> string list \<Rightarrow> json" where
  "segment_payload dt m frame_hashes = JObj
     [(''schema_version'', JStr ''ets.black-box.segment-payload.v1''), (''device_id'', JStr (bm_device_id m)), (''trigger'', trigger_json dt (bm_trigger m)),
      (''first_sequence'', JInt (bm_first_sequence m)), (''last_sequence'', JInt (bm_last_sequence m)), (''frame_count'', JInt (int (length frame_hashes))),
      (''first_observed_at_utc'', JStr (isoformat_utc (bm_first_observed_at_utc m))), (''last_observed_at_utc'', JStr (isoformat_utc (bm_last_observed_at_utc m))),
      (''sealed_at_utc'', JStr (isoformat_utc (bm_sealed_at_utc m))), (''seal_reason'', JStr (seal_reason_text (bm_seal_reason m))),
      (''predecessor_frame_hash'', JStr (bm_predecessor_frame_hash m)), (''chain_head_hash'', JStr (bm_chain_head_hash m)),
      (''frame_hashes'', JList (map JStr frame_hashes)), (''signing_key_id'', JStr (bm_signing_key_id m))]"

definition payload_of_frame :: "(utc \<Rightarrow> string) \<Rightarrow> bb_frame \<Rightarrow> json" where
  "payload_of_frame dt f = frame_payload dt (bf_sequence f) (bf_boot_counter f) (bf_observation f) (bf_previous_frame_hash f) (bf_signing_key_id f)"

definition verify_frame :: "ed25519 \<Rightarrow> (utc \<Rightarrow> string) \<Rightarrow> bb_frame \<Rightarrow> string \<Rightarrow> bool" where
  "verify_frame ed dt f public_key_hex \<longleftrightarrow>
     canon_sha256 (payload_of_frame dt f) = bf_frame_hash f \<and> signature_accepted ed public_key_hex (bf_signature_hex f) (payload_of_frame dt f)"

definition bb_failed :: "bb_segment \<Rightarrow> string \<Rightarrow> bb_verification" where
  "bb_failed s reason = \<lparr> bv_valid = False, bv_reason = reason, bv_frame_count = int (length (sg_frames s)),
     bv_segment_hash = Some (bm_segment_hash (sg_manifest s)) \<rparr>"

fun verify_frames :: "ed25519 \<Rightarrow> (utc \<Rightarrow> string) \<Rightarrow> string \<Rightarrow> int \<Rightarrow> string \<Rightarrow> bb_frame list \<Rightarrow> string + string" where
  "verify_frames ed dt public_key_hex expected_sequence previous [] = Inr previous"
| "verify_frames ed dt public_key_hex expected_sequence previous (f # fs) =
     (if bf_sequence f \<noteq> expected_sequence then Inl (''sequence gap at frame '' @ show_int expected_sequence)
      else if bf_previous_frame_hash f \<noteq> previous then Inl (''hash-chain mismatch at frame '' @ show_int (bf_sequence f))
      else if \<not> verify_frame ed dt f public_key_hex then Inl (''invalid frame signature or digest at frame '' @ show_int (bf_sequence f))
      else verify_frames ed dt public_key_hex (expected_sequence + 1) (bf_frame_hash f) fs)"

definition verify_segment :: "ed25519 \<Rightarrow> (utc \<Rightarrow> string) \<Rightarrow> bb_segment \<Rightarrow> string \<Rightarrow> bb_verification" where
  "verify_segment ed dt s public_key_hex =
     (let frames = sg_frames s; m = sg_manifest s in
      if frames = [] then \<lparr> bv_valid = False, bv_reason = ''segment contains no frames'', bv_frame_count = 0, bv_segment_hash = None \<rparr>
      else case verify_frames ed dt public_key_hex (bm_first_sequence m) (bm_predecessor_frame_hash m) frames of
        Inl reason \<Rightarrow> bb_failed s reason
      | Inr previous \<Rightarrow>
          if previous \<noteq> bm_chain_head_hash m then bb_failed s ''manifest chain head does not match final frame''
          else let payload = segment_payload dt m (map bf_frame_hash frames); expected_hash = canon_sha256 payload in
            if bm_segment_hash m \<noteq> expected_hash \<or> bm_segment_id m \<noteq> ''bbxseg:'' @ expected_hash
            then bb_failed s ''segment manifest digest or identifier does not match frames''
            else if \<not> signature_accepted ed public_key_hex (bm_signature_hex m) payload then bb_failed s ''segment manifest signature is invalid''
            else \<lparr> bv_valid = True, bv_reason = ''sealed Black Box segment, frame chain, and signatures are valid'',
                   bv_frame_count = int (length frames), bv_segment_hash = Some (bm_segment_hash m) \<rparr>)"

section \<open>Recorder\<close>

record bb_config =
  bc_device_id :: string
  bc_signing_key_id :: string
  bc_private_key :: "byte list"
  bc_policy :: bb_policy

record bb_recorder =
  br_store :: bb_store
  br_state :: recorder_state

definition on_store :: "(bb_store, 'a) action \<Rightarrow> (bb_recorder, 'a) action" where
  "on_store m r = (case m (br_store r) of (x, s) \<Rightarrow> (x, r \<lparr> br_store := s \<rparr>))"

definition set_recorder_state :: "recorder_state \<Rightarrow> (bb_recorder, unit) action" where
  "set_recorder_state st = awrite (\<lambda>r. r \<lparr> br_state := st \<rparr>)"

definition self :: "(bb_recorder, bb_recorder) action" where
  "self = aread (\<lambda>r. Inr r)"

definition bb_normalize_utc :: "datetime \<Rightarrow> string \<Rightarrow> utc result" where
  "bb_normalize_utc d field = utc_or_raise (BlackBoxValidationError (field @ '' must be timezone-aware'')) d"

definition public_key_hex :: "ed25519 \<Rightarrow> bb_config \<Rightarrow> string" where
  "public_key_hex ed c = hexlify (ed_public ed (bc_private_key c))"

definition prune_rolling_window :: "bb_config \<Rightarrow> (bb_recorder, unit) action" where
  "prune_rolling_window c =
     abind self (\<lambda>r. on_store (prune_live_before (max 1 (rs_last_sequence (br_state r) - bp_pre_trigger_frames (bc_policy c) + 1))))"

definition capture_manifest ::
  "ed25519 \<Rightarrow> (utc \<Rightarrow> string) \<Rightarrow> bb_config \<Rightarrow> active_capture \<Rightarrow> bb_frame list \<Rightarrow> utc \<Rightarrow> seal_reason \<Rightarrow> bb_manifest" where
  "capture_manifest ed dt c active frames sealed_at reason =
     (let m = \<lparr> bm_segment_id = [], bm_device_id = bc_device_id c, bm_trigger = ac_trigger active,
            bm_first_sequence = bf_sequence (hd frames), bm_last_sequence = bf_sequence (last frames), bm_frame_count = int (length frames),
            bm_first_observed_at_utc = bo_observed_at_utc (bf_observation (hd frames)),
            bm_last_observed_at_utc = bo_observed_at_utc (bf_observation (last frames)), bm_sealed_at_utc = sealed_at, bm_seal_reason = reason,
            bm_predecessor_frame_hash = bf_previous_frame_hash (hd frames), bm_chain_head_hash = bf_frame_hash (last frames),
            bm_segment_hash = [], bm_signing_key_id = bc_signing_key_id c, bm_signature_hex = [] \<rparr>;
          payload = segment_payload dt m (map bf_frame_hash frames); segment_hash = canon_sha256 payload
      in m \<lparr> bm_segment_id := ''bbxseg:'' @ segment_hash, bm_segment_hash := segment_hash,
             bm_signature_hex := hexlify (ed_sign ed (bc_private_key c) (canon payload)) \<rparr>)"

definition seal_active ::
  "ed25519 \<Rightarrow> (utc \<Rightarrow> string) \<Rightarrow> bb_config \<Rightarrow> datetime \<Rightarrow> seal_reason \<Rightarrow> (bb_recorder, bb_segment) action" where
  "seal_active ed dt c clock reason =
     abind self (\<lambda>r.
     abind (alift (rget (BlackBoxValidationError ''no incident capture is active'') (rs_active_capture (br_state r)))) (\<lambda>active.
     let last_sequence = rs_last_sequence (br_state r);
         frames = filter (\<lambda>f. ac_first_sequence active \<le> bf_sequence f \<and> bf_sequence f \<le> last_sequence) (list_live_frames (br_store r)) in
     abind (acheck (frames \<noteq> [] \<and> bf_sequence (hd frames) = ac_first_sequence active)
       (BlackBoxValidationError ''frozen pre-trigger frames are missing'')) (\<lambda>_.
     abind (acheck (map bf_sequence frames = [ac_first_sequence active..last_sequence])
       (BlackBoxValidationError ''incident capture contains a sequence gap'')) (\<lambda>_.
     abind (alift (bb_normalize_utc clock ''clock'')) (\<lambda>sealed_at.
     abind (alift (BlackBoxSegmentManifest (capture_manifest ed dt c active frames sealed_at reason))) (\<lambda>manifest.
     abind (alift (BlackBoxSegment \<lparr> sg_manifest = manifest, sg_frames = frames \<rparr>)) (\<lambda>segment.
     let next_state = (br_state r) \<lparr> rs_active_capture := None \<rparr> in
     abind (on_store (store_seal_segment segment next_state)) (\<lambda>_.
     abind (set_recorder_state next_state) (\<lambda>_.
     abind (prune_rolling_window c) (\<lambda>_.
     alift (Inr segment)))))))))))"

definition next_capture :: "active_capture option \<Rightarrow> active_capture option" where
  "next_capture x = map_option (\<lambda>a. if 0 < ac_remaining_post_frames a
     then a \<lparr> ac_remaining_post_frames := ac_remaining_post_frames a - 1 \<rparr> else a) x"

definition new_frame :: "ed25519 \<Rightarrow> (utc \<Rightarrow> string) \<Rightarrow> bb_config \<Rightarrow> recorder_state \<Rightarrow> bb_observation \<Rightarrow> bb_frame" where
  "new_frame ed dt c st ob =
     (let payload = frame_payload dt (rs_last_sequence st + 1) (rs_boot_counter st) ob (rs_head_hash st) (bc_signing_key_id c)
      in \<lparr> bf_sequence = rs_last_sequence st + 1, bf_boot_counter = rs_boot_counter st, bf_observation = ob,
         bf_previous_frame_hash = rs_head_hash st, bf_frame_hash = canon_sha256 payload, bf_signing_key_id = bc_signing_key_id c,
         bf_signature_hex = hexlify (ed_sign ed (bc_private_key c) (canon payload)) \<rparr>)"

definition recorded_state :: "ed25519 \<Rightarrow> (utc \<Rightarrow> string) \<Rightarrow> bb_config \<Rightarrow> recorder_state \<Rightarrow> bb_observation \<Rightarrow> recorder_state" where
  "recorded_state ed dt c st ob = st \<lparr> rs_last_sequence := rs_last_sequence st + 1, rs_head_hash := bf_frame_hash (new_frame ed dt c st ob),
     rs_last_monotonic_ns := Some (bo_monotonic_ns ob), rs_active_capture := next_capture (rs_active_capture st) \<rparr>"

definition bb_record ::
  "ed25519 \<Rightarrow> (utc \<Rightarrow> string) \<Rightarrow> bb_config \<Rightarrow> datetime \<Rightarrow> bb_observation \<Rightarrow> (bb_recorder, bb_frame) action" where
  "bb_record ed dt c clock ob0 =
     abind (alift (BlackBoxObservation ob0)) (\<lambda>ob.
     abind self (\<lambda>r.
     let st = br_state r in
     abind (acheck (int (length (canon (observation_json dt ob))) \<le> bp_max_observation_bytes (bc_policy c))
       (BlackBoxValidationError ''Black Box observation exceeds configured size limit'')) (\<lambda>_.
     abind (acheck (bo_device_id ob = bc_device_id c) (BlackBoxValidationError ''observation device_id does not match this recorder'')) (\<lambda>_.
     abind (acheck (bo_boot_id ob = rs_boot_id st) (BlackBoxValidationError ''observation boot_id does not match the active boot'')) (\<lambda>_.
     abind (acheck (case rs_last_monotonic_ns st of None \<Rightarrow> True | Some n \<Rightarrow> n < bo_monotonic_ns ob)
       (BlackBoxValidationError ''monotonic_ns must strictly increase within a boot'')) (\<lambda>_.
     abind (alift (SignedBlackBoxFrame (new_frame ed dt c st ob))) (\<lambda>frame.
     let next_state = recorded_state ed dt c st ob in
     abind (on_store (commit_frame frame next_state)) (\<lambda>_.
     abind (set_recorder_state next_state) (\<lambda>_.
     abind (case rs_active_capture next_state of
         None \<Rightarrow> prune_rolling_window c
       | Some a \<Rightarrow> if ac_remaining_post_frames a = 0
           then abind (seal_active ed dt c clock Post_Window_Complete) (\<lambda>_. alift (Inr ())) else alift (Inr ())) (\<lambda>_.
     alift (Inr frame)))))))))))"

definition bb_trigger_capture ::
  "ed25519 \<Rightarrow> (utc \<Rightarrow> string) \<Rightarrow> bb_config \<Rightarrow> datetime \<Rightarrow> datetime \<Rightarrow> string \<Rightarrow> trigger_kind \<Rightarrow> string \<Rightarrow> string option \<Rightarrow> datetime option \<Rightarrow>
   (bb_recorder, bb_segment option) action" where
  "bb_trigger_capture ed dt c now clock trigger_id kind reason actor_ref triggered_at_utc =
     abind self (\<lambda>r.
     let st = br_state r in
     abind (acheck (rs_active_capture st = None) (BlackBoxValidationError ''an incident capture is already active'')) (\<lambda>_.
     let live = list_live_frames (br_store r) in
     abind (acheck (live \<noteq> []) (BlackBoxValidationError ''cannot trigger before at least one frame is recorded'')) (\<lambda>_.
     abind (alift (case triggered_at_utc of
         Some t \<Rightarrow> bb_normalize_utc t ''triggered_at_utc''
       | None \<Rightarrow> bb_normalize_utc now ''clock'')) (\<lambda>triggered_at.
     let first_sequence = max (bf_sequence (hd live)) (rs_last_sequence st - bp_pre_trigger_frames (bc_policy c) + 1) in
     abind (alift (BlackBoxTrigger \<lparr> bt_trigger_id = trigger_id, bt_kind = kind, bt_reason = reason, bt_triggered_at_utc = triggered_at,
         bt_trigger_sequence = rs_last_sequence st, bt_actor_ref = actor_ref \<rparr>)) (\<lambda>trigger.
     abind (alift (ActiveCaptureState \<lparr> ac_trigger = trigger, ac_first_sequence = first_sequence,
         ac_remaining_post_frames = bp_post_trigger_frames (bc_policy c) \<rparr>)) (\<lambda>active.
     let next_state = st \<lparr> rs_active_capture := Some active \<rparr> in
     abind (set_recorder_state next_state) (\<lambda>_.
     abind (on_store (update_state next_state)) (\<lambda>_.
     if ac_remaining_post_frames active = 0
     then abind (seal_active ed dt c clock Post_Window_Complete) (\<lambda>s. alift (Inr (Some s)))
     else alift (Inr None)))))))))"

definition force_seal ::
  "ed25519 \<Rightarrow> (utc \<Rightarrow> string) \<Rightarrow> bb_config \<Rightarrow> datetime \<Rightarrow> seal_reason \<Rightarrow> (bb_recorder, bb_segment) action" where
  "force_seal ed dt c clock reason =
     abind (acheck (reason \<noteq> Post_Window_Complete) (BlackBoxValidationError ''force_seal requires a forced-seal reason'')) (\<lambda>_.
     abind self (\<lambda>r.
     abind (acheck (rs_active_capture (br_state r) \<noteq> None) (BlackBoxValidationError ''no incident capture is active'')) (\<lambda>_.
     seal_active ed dt c clock reason)))"

definition recorder_status :: "bb_config \<Rightarrow> bb_recorder \<Rightarrow> bb_status" where
  "recorder_status c r = (let st = br_state r in
     \<lparr> bs_device_id = bc_device_id c, bs_boot_id = rs_boot_id st, bs_boot_counter = rs_boot_counter st, bs_last_sequence = rs_last_sequence st,
       bs_head_hash = rs_head_hash st, bs_live_frame_count = int (length (list_live_frames (br_store r))),
       bs_sealed_segment_count = int (length (bb_list_segments (br_store r))), bs_capture_active = (rs_active_capture st \<noteq> None),
       bs_remaining_post_frames = map_option ac_remaining_post_frames (rs_active_capture st) \<rparr>)"

definition to_evidence_event :: "bb_segment \<Rightarrow> string \<Rightarrow> string \<Rightarrow> evidence_event result" where
  "to_evidence_event segment tenant_id workspace_id =
     (let m = sg_manifest segment; t = bm_trigger m in
      EvidenceEvent \<lparr> arg_event_id = ''bbx:'' @ take 48 (bm_segment_hash m), arg_tenant_id = tenant_id, arg_workspace_id = workspace_id,
        arg_evidence_id = ''bbx:'' @ take 48 (bm_segment_hash m), arg_event_type = ''black_box.segment.sealed'',
        arg_subject_ref = Some (bm_device_id m), arg_content_hash = bm_segment_hash m, arg_content_hash_alg = ''sha256'',
        arg_metadata = [(''black_box'', py_of_json (JObj
          [(''schema_version'', JStr ''ets.black-box.segment-manifest.v1''), (''segment_id'', JStr (bm_segment_id m)), (''device_id'', JStr (bm_device_id m)),
           (''trigger'', JObj [(''trigger_id'', JStr (bt_trigger_id t)), (''kind'', JStr (trigger_kind_text (bt_kind t))),
              (''triggered_at_utc'', JStr (isoformat_utc (bt_triggered_at_utc t))), (''trigger_sequence'', JInt (bt_trigger_sequence t))]),
           (''first_sequence'', JInt (bm_first_sequence m)), (''last_sequence'', JInt (bm_last_sequence m)), (''frame_count'', JInt (bm_frame_count m)),
           (''first_observed_at_utc'', JStr (isoformat_utc (bm_first_observed_at_utc m))), (''last_observed_at_utc'', JStr (isoformat_utc (bm_last_observed_at_utc m))),
           (''sealed_at_utc'', JStr (isoformat_utc (bm_sealed_at_utc m))), (''seal_reason'', JStr (seal_reason_text (bm_seal_reason m))),
           (''predecessor_frame_hash'', JStr (bm_predecessor_frame_hash m)), (''chain_head_hash'', JStr (bm_chain_head_hash m)),
           (''signing_key_id'', JStr (bm_signing_key_id m)), (''signature_hex'', JStr (bm_signature_hex m))]))],
        arg_created_at_utc = Aware (bm_sealed_at_utc m) 0, arg_schema_version = ''ets.event.v1'', arg_source_system = Some ''ets-black-box'',
        arg_actor_id = None, arg_correlation_id = Some (bt_trigger_id t), arg_external_refs = None, arg_redaction_profile = Some ''none'' \<rparr>)"

section \<open>Boot and recovery\<close>

fun verify_live_frames :: "ed25519 \<Rightarrow> (utc \<Rightarrow> string) \<Rightarrow> bb_config \<Rightarrow> int \<Rightarrow> string \<Rightarrow> bb_frame list \<Rightarrow> unit result" where
  "verify_live_frames ed dt c expected_sequence previous [] = Inr ()"
| "verify_live_frames ed dt c expected_sequence previous (f # fs) =
     (if bf_sequence f \<noteq> expected_sequence \<or> bf_previous_frame_hash f \<noteq> previous
      then Inl (BlackBoxValidationError ''persisted live frame chain is inconsistent'')
      else if bf_signing_key_id f \<noteq> bc_signing_key_id c then Inl (BlackBoxValidationError ''persisted frame signing key identifier changed'')
      else if \<not> verify_frame ed dt f (public_key_hex ed c) then Inl (BlackBoxValidationError ''persisted live frame signature is invalid'')
      else verify_live_frames ed dt c (expected_sequence + 1) (bf_frame_hash f) fs)"

definition verify_live_state :: "ed25519 \<Rightarrow> (utc \<Rightarrow> string) \<Rightarrow> bb_config \<Rightarrow> bb_store \<Rightarrow> recorder_state \<Rightarrow> unit result" where
  "verify_live_state ed dt c s st =
     (let frames = list_live_frames s in
      if frames = [] then
        rbind (rcheck (rs_last_sequence st = 0) (BlackBoxValidationError ''persisted state has no live recovery frames'')) (\<lambda>_.
        rcheck (rs_head_hash st = bb_zero_hash) (BlackBoxValidationError ''empty recorder state has a nonzero chain head''))
      else
        rbind (verify_live_frames ed dt c (bf_sequence (hd frames)) (bf_previous_frame_hash (hd frames)) frames) (\<lambda>_.
        rbind (rcheck (bf_sequence (last frames) = rs_last_sequence st)
          (BlackBoxValidationError ''persisted state sequence does not match live frame head'')) (\<lambda>_.
        rbind (rcheck (bf_frame_hash (last frames) = rs_head_hash st)
          (BlackBoxValidationError ''persisted state hash does not match live frame head'')) (\<lambda>_.
        rcheck (case rs_active_capture st of None \<Rightarrow> True | Some a \<Rightarrow> bf_sequence (hd frames) \<le> ac_first_sequence a)
          (BlackBoxValidationError ''active capture lost its frozen pre-trigger window'')))))"

definition validate_persisted_identity :: "bb_config \<Rightarrow> recorder_state \<Rightarrow> unit result" where
  "validate_persisted_identity c st =
     rbind (rcheck (rs_device_id st = bc_device_id c) (BlackBoxValidationError ''persisted recorder belongs to another device'')) (\<lambda>_.
     rcheck (rs_signing_key_id st = bc_signing_key_id c) (BlackBoxValidationError ''persisted recorder signing key identifier changed''))"

definition boot_state :: "bb_config \<Rightarrow> string \<Rightarrow> int \<Rightarrow> (bb_store, recorder_state) action" where
  "boot_state c boot_id boot_counter =
     abind (aread (\<lambda>s. Inr (bx_state s))) (\<lambda>persisted.
     case persisted of
       None \<Rightarrow>
         abind (alift (RecorderState (bc_device_id c) (bc_signing_key_id c) boot_id boot_counter)) (\<lambda>st.
         abind (initialize_state st) (\<lambda>_. alift (Inr st)))
     | Some st \<Rightarrow>
         abind (alift (validate_persisted_identity c st)) (\<lambda>_.
         abind (acheck (rs_boot_counter st \<le> boot_counter) (BlackBoxValidationError ''boot counter rollback detected'')) (\<lambda>_.
         abind (acheck (\<not> (boot_counter = rs_boot_counter st \<and> boot_id \<noteq> rs_boot_id st))
           (BlackBoxValidationError ''boot_id changed without advancing boot_counter'')) (\<lambda>_.
         if rs_boot_counter st < boot_counter
         then let st' = st \<lparr> rs_boot_id := boot_id, rs_boot_counter := boot_counter, rs_last_monotonic_ns := None \<rparr>
           in abind (update_state st') (\<lambda>_. alift (Inr st'))
         else alift (Inr st)))))"

definition BlackBoxRecorder ::
  "ed25519 \<Rightarrow> (utc \<Rightarrow> string) \<Rightarrow> bb_config \<Rightarrow> string \<Rightarrow> int \<Rightarrow> datetime \<Rightarrow> (bb_store, recorder_state) action" where
  "BlackBoxRecorder ed dt c boot_id boot_counter clock =
     abind (acheck (starts_with ''ets-black-box:'' (bc_device_id c) \<and> length (bc_device_id c) \<le> 160)
       (BlackBoxValidationError ''device_id must use the ets-black-box: namespace'')) (\<lambda>_.
     abind (acheck (field_length 1 256 (bc_signing_key_id c)) (BlackBoxValidationError ''signing_key_id must contain 1-256 characters'')) (\<lambda>_.
     abind (acheck (field_length 1 128 boot_id) (BlackBoxValidationError ''boot_id must contain 1-128 characters'')) (\<lambda>_.
     abind (acheck (1 \<le> boot_counter) (BlackBoxValidationError ''boot_counter must be at least one'')) (\<lambda>_.
     abind (acheck (length (bc_private_key c) = 32) (BlackBoxValidationError ''private key must be a 32-byte Ed25519 key'')) (\<lambda>_.
     abind (acheck (\<not> bp_require_production_backend (bc_policy c) \<or> bb_production_ready bb_memory_capabilities)
       (BlackBoxProductionReadinessError ''Black Box backend 'memory' does not satisfy the production floor'')) (\<lambda>_.
     abind (boot_state c boot_id boot_counter) (\<lambda>st.
     abind (aread (\<lambda>s. verify_live_state ed dt c s st)) (\<lambda>_.
     if map_option ac_remaining_post_frames (rs_active_capture st) = Some 0
     then (\<lambda>s. case seal_active ed dt c clock Recovery \<lparr> br_store = s, br_state = st \<rparr> of
             (Inl e, r) \<Rightarrow> (Inl e, br_store r) | (Inr _, r) \<Rightarrow> (Inr (br_state r), br_store r))
     else alift (Inr st)))))))))"

section \<open>Commands\<close>

datatype bb_command =
    Record_Observation bb_observation datetime
  | Trigger_Capture datetime datetime string trigger_kind string "string option" "datetime option"
  | Force_Seal datetime seal_reason

fun bb_run :: "ed25519 \<Rightarrow> (utc \<Rightarrow> string) \<Rightarrow> bb_config \<Rightarrow> bb_command \<Rightarrow> bb_recorder \<Rightarrow> bb_recorder" where
  "bb_run ed dt c (Record_Observation ob clock) r = snd (bb_record ed dt c clock ob r)"
| "bb_run ed dt c (Trigger_Capture now clock i k why actor at_utc) r = snd (bb_trigger_capture ed dt c now clock i k why actor at_utc r)"
| "bb_run ed dt c (Force_Seal clock reason) r = snd (force_seal ed dt c clock reason r)"

text \<open>The store, and the running recorder's state if one was constructed on it.\<close>

inductive bb_reachable :: "ed25519 \<Rightarrow> (utc \<Rightarrow> string) \<Rightarrow> bb_config \<Rightarrow> bb_store \<Rightarrow> recorder_state option \<Rightarrow> bool" for ed dt c where
  new: "bb_reachable ed dt c bb_store_init None"
| boot: "bb_reachable ed dt c s x \<Longrightarrow> BlackBoxRecorder ed dt c boot_id boot_counter clock s = (Inr st, s') \<Longrightarrow> bb_reachable ed dt c s' (Some st)"
| failed_boot: "bb_reachable ed dt c s x \<Longrightarrow> BlackBoxRecorder ed dt c boot_id boot_counter clock s = (Inl e, s') \<Longrightarrow> bb_reachable ed dt c s' None"
| command: "bb_reachable ed dt c s (Some st) \<Longrightarrow> bb_run ed dt c cmd \<lparr> br_store = s, br_state = st \<rparr> = r \<Longrightarrow> bb_reachable ed dt c (br_store r) (Some (br_state r))"

section \<open>Hash texts\<close>

definition hash_text :: "string \<Rightarrow> bool" where
  "hash_text x \<longleftrightarrow> hex_bytes 32 x \<and> lower x = x"

lemma lower_hex_digit: "n < 16 \<Longrightarrow> lower_char (hex_digit n) = hex_digit n"
  by (simp add: lower_char_def ascii_upper_def code_hex_digit)

lemma lower_hexlify [simp]: "lower (hexlify bs) = hexlify bs"
  by (induction bs) (simp_all add: lower_def hexlify_Cons lower_hex_digit)

lemma hex_bytes_hexlify [simp]: "hex_bytes n (hexlify bs) \<longleftrightarrow> length bs = n"
  by (simp add: hex_bytes_def)

lemma hash_text_canon [simp]: "hash_text (canon_sha256 j)"
  by (simp add: hash_text_def canon_sha256_def sha256_hex_def)

lemma hash_text_zero [simp]: "hash_text bb_zero_hash"
proof -
  have z: "bb_zero_hash = hexlify (replicate 32 0)" by code_simp
  show ?thesis unfolding z hash_text_def by simp
qed

section \<open>Invariant\<close>

definition frame_good :: "bb_config \<Rightarrow> bb_frame \<Rightarrow> bool" where
  "frame_good c f \<longleftrightarrow> bo_device_id (bf_observation f) = bc_device_id c \<and> bf_signing_key_id f = bc_signing_key_id c \<and>
     hash_text (bf_previous_frame_hash f) \<and> hash_text (bf_frame_hash f)"

text \<open>The live frames are those numbered from \<open>n\<close> to \<open>m\<close>, chained and signed, and the chain ends in \<open>h\<close>.\<close>

definition live_ok :: "ed25519 \<Rightarrow> (utc \<Rightarrow> string) \<Rightarrow> bb_config \<Rightarrow> int \<Rightarrow> int \<Rightarrow> string \<Rightarrow> (int \<times> bb_frame) list \<Rightarrow> bool" where
  "live_ok ed dt c n m h live \<longleftrightarrow> map fst live = [n..m] \<and> list_all (\<lambda>(k, f). k = bf_sequence f \<and> frame_good c f) live \<and>
     (\<exists>h0. hash_text h0 \<and> verify_frames ed dt (public_key_hex ed c) n h0 (map snd live) = Inr h)"

definition window_start :: "bb_config \<Rightarrow> recorder_state \<Rightarrow> int" where
  "window_start c st = (case rs_active_capture st of
     None \<Rightarrow> max 1 (rs_last_sequence st - bp_pre_trigger_frames (bc_policy c) + 1)
   | Some a \<Rightarrow> ac_first_sequence a)"

definition capture_ok :: "bb_config \<Rightarrow> recorder_state \<Rightarrow> active_capture \<Rightarrow> bool" where
  "capture_ok c st a \<longleftrightarrow> (let t = bt_trigger_sequence (ac_trigger a) in
     1 \<le> t \<and> t \<le> rs_last_sequence st \<and> ac_first_sequence a = max 1 (t - bp_pre_trigger_frames (bc_policy c) + 1) \<and>
     ac_remaining_post_frames a = max 0 (bp_post_trigger_frames (bc_policy c) - (rs_last_sequence st - t)))"

definition segment_good :: "ed25519 \<Rightarrow> (utc \<Rightarrow> string) \<Rightarrow> bb_config \<Rightarrow> bb_segment \<Rightarrow> bool" where
  "segment_good ed dt c s \<longleftrightarrow> (let m = sg_manifest s; t = bt_trigger_sequence (bm_trigger m) in
     bv_valid (verify_segment ed dt s (public_key_hex ed c)) \<and> segment_ok s \<and>
     bm_first_sequence m = max 1 (t - bp_pre_trigger_frames (bc_policy c) + 1) \<and> t \<le> bm_last_sequence m \<and>
     (bm_seal_reason m = Post_Window_Complete \<longrightarrow> t + bp_post_trigger_frames (bc_policy c) \<le> bm_last_sequence m))"

definition state_inv :: "bb_config \<Rightarrow> recorder_state \<Rightarrow> bool" where
  "state_inv c st \<longleftrightarrow> rs_device_id st = bc_device_id c \<and> rs_signing_key_id st = bc_signing_key_id c \<and> 1 \<le> rs_boot_counter st \<and>
     0 \<le> rs_last_sequence st \<and> hash_text (rs_head_hash st) \<and> (rs_last_sequence st = 0 \<longrightarrow> rs_head_hash st = bb_zero_hash) \<and>
     opt_ok (capture_ok c st) (rs_active_capture st)"

definition bb_inv :: "ed25519 \<Rightarrow> (utc \<Rightarrow> string) \<Rightarrow> bb_config \<Rightarrow> bb_store \<Rightarrow> recorder_state \<Rightarrow> bool" where
  "bb_inv ed dt c s st \<longleftrightarrow> bx_state s = Some st \<and> state_inv c st \<and>
     live_ok ed dt c (window_start c st) (rs_last_sequence st) (rs_head_hash st) (bx_live s) \<and>
     list_all (\<lambda>(i, g). segment_good ed dt c g) (bx_segments s)"

definition bb_config_ok :: "ed25519 \<Rightarrow> bb_config \<Rightarrow> bool" where
  "bb_config_ok ed c \<longleftrightarrow> ed25519_ok ed \<and> bb_device_id_ok (bc_device_id c) \<and> field_length 1 256 (bc_signing_key_id c) \<and>
     length (bc_private_key c) = 32 \<and> length (ed_public ed (bc_private_key c)) = 32 \<and> bb_policy_ok (bc_policy c) \<and>
     \<not> bp_require_production_backend (bc_policy c)"

lemma window_start_bounds:
  assumes "bb_policy_ok (bc_policy c)" "state_inv c st"
  shows "1 \<le> window_start c st" "window_start c st \<le> rs_last_sequence st + 1" "rs_last_sequence st \<noteq> 0 \<Longrightarrow> window_start c st \<le> rs_last_sequence st"
  using assms by (auto simp: window_start_def bb_policy_ok_def state_inv_def opt_ok_def capture_ok_def Let_def split: option.splits)

lemma live_frames_sorted: "live_ok ed dt c n m h (bx_live s) \<Longrightarrow> list_live_frames s = map snd (bx_live s)"
  by (simp add: list_live_frames_def live_ok_def sort_key_id_if_sorted)

lemma live_sequences: "live_ok ed dt c n m h live \<Longrightarrow> map bf_sequence (map snd live) = [n..m]"
proof -
  assume l: "live_ok ed dt c n m h live"
  then have "map bf_sequence (map snd live) = map fst live"
    unfolding map_map by (intro map_cong) (auto simp: live_ok_def list_all_iff)
  with l show ?thesis by (simp add: live_ok_def)
qed

lemma verify_frames_append:
  "verify_frames ed dt pk n h (fs @ gs) = (case verify_frames ed dt pk n h fs of Inl e \<Rightarrow> Inl e | Inr h' \<Rightarrow> verify_frames ed dt pk (n + int (length fs)) h' gs)"
  by (induction fs arbitrary: n h) (auto simp: add.assoc add.commute split: sum.split)

lemma verify_frames_last: "verify_frames ed dt pk n h fs = Inr h' \<Longrightarrow> h' = (if fs = [] then h else bf_frame_hash (last fs))"
  by (induction fs arbitrary: n h) (auto split: if_split_asm)

lemma verify_frames_hd: "verify_frames ed dt pk n h (f # fs) = Inr h' \<Longrightarrow> bf_previous_frame_hash f = h \<and> bf_sequence f = n"
  by (auto split: if_split_asm)

section \<open>Sealing\<close>

lemma self_bind [simp]: "abind self f r = f r r"
  by (simp add: self_def action_simps)

lemma on_store_simps:
  "m (br_store r) = (x, s) \<Longrightarrow> on_store m r = (x, r \<lparr> br_store := s \<rparr>)"
  by (simp add: on_store_def)

definition sealed_store :: "bb_config \<Rightarrow> bb_segment \<Rightarrow> recorder_state \<Rightarrow> bb_store \<Rightarrow> bb_store" where
  "sealed_store c g st s = \<lparr> bx_state = Some st,
     bx_live = filter (\<lambda>(k, v). max 1 (rs_last_sequence st - bp_pre_trigger_frames (bc_policy c) + 1) \<le> k) (bx_live s),
     bx_segments = bx_segments s @ [(bm_segment_id (sg_manifest g), g)] \<rparr>"

text \<open>Sealing an active capture raises and changes nothing, or stores the segment of all live frames.\<close>

lemma capture_manifest_fields:
  "bm_device_id (capture_manifest ed dt c a fs t why) = bc_device_id c" "bm_trigger (capture_manifest ed dt c a fs t why) = ac_trigger a"
  "bm_first_sequence (capture_manifest ed dt c a fs t why) = bf_sequence (hd fs)" "bm_last_sequence (capture_manifest ed dt c a fs t why) = bf_sequence (last fs)"
  "bm_frame_count (capture_manifest ed dt c a fs t why) = int (length fs)" "bm_seal_reason (capture_manifest ed dt c a fs t why) = why"
  "bm_predecessor_frame_hash (capture_manifest ed dt c a fs t why) = bf_previous_frame_hash (hd fs)"
  "bm_chain_head_hash (capture_manifest ed dt c a fs t why) = bf_frame_hash (last fs)" "bm_signing_key_id (capture_manifest ed dt c a fs t why) = bc_signing_key_id c"
  "bm_first_observed_at_utc (capture_manifest ed dt c a fs t why) = bo_observed_at_utc (bf_observation (hd fs))"
  "bm_last_observed_at_utc (capture_manifest ed dt c a fs t why) = bo_observed_at_utc (bf_observation (last fs))"
  by (simp_all add: capture_manifest_def Let_def)

lemma capture_manifest_hash:
  fixes ed dt c a fs t why
  defines "m \<equiv> capture_manifest ed dt c a fs t why"
  shows "bm_segment_hash m = canon_sha256 (segment_payload dt m (map bf_frame_hash fs))"
    "bm_segment_id m = ''bbxseg:'' @ canon_sha256 (segment_payload dt m (map bf_frame_hash fs))"
    "bm_signature_hex m = hexlify (ed_sign ed (bc_private_key c) (canon (segment_payload dt m (map bf_frame_hash fs))))"
  unfolding m_def capture_manifest_def Let_def segment_payload_def by simp_all

lemma lower_prefix: "lower (''bbxseg:'' @ canon_sha256 j) = ''bbxseg:'' @ canon_sha256 j"
  using hash_text_canon [of j] by (simp add: hash_text_def lower_def lower_char_def ascii_upper_def)

lemma manifest_constructed:
  fixes ed dt c a fs t why
  assumes "bb_config_ok ed c" "fs \<noteq> []" "list_all (frame_good c) fs"
  defines "m \<equiv> capture_manifest ed dt c a fs t why"
  shows "BlackBoxSegmentManifest m = Inr g \<longleftrightarrow> g = m \<and> 1 \<le> bf_sequence (hd fs) \<and> 1 \<le> bf_sequence (last fs) \<and> manifest_range_ok m"
proof -
  have good: "frame_good c (hd fs)" "frame_good c (last fs)" using assms(2,3) by (auto simp: list_all_iff)
  have sig: "length (ed_sign ed (bc_private_key c) x) = 64" for x using assms(1) by (simp add: bb_config_ok_def ed25519_ok_def)
  have id: "segment_id_ok (bm_segment_id m)" "lower (bm_segment_id m) = bm_segment_id m"
    using hash_text_canon [of "segment_payload dt m (map bf_frame_hash fs)"] lower_prefix
    by (simp_all add: m_def capture_manifest_hash segment_id_ok_def starts_with_def hash_text_def)
  have low: "lower (bm_segment_hash m) = bm_segment_hash m" "hex_bytes 32 (bm_segment_hash m)" "lower (bm_signature_hex m) = bm_signature_hex m" "hex_bytes 64 (bm_signature_hex m)"
    using hash_text_canon [of "segment_payload dt m (map bf_frame_hash fs)"] sig by (simp_all add: m_def capture_manifest_hash hash_text_def)
  have "1 \<le> int (length fs)" using assms(2) by (cases fs) auto
  then have ok: "manifest_ok m \<longleftrightarrow> 1 \<le> bf_sequence (hd fs) \<and> 1 \<le> bf_sequence (last fs) \<and> manifest_range_ok m"
    using assms(1) good id low by (auto simp: manifest_ok_def m_def capture_manifest_fields frame_good_def hash_text_def bb_config_ok_def bb_device_id_ok_def)
  have "m \<lparr> bm_segment_id := lower (bm_segment_id m), bm_predecessor_frame_hash := lower (bm_predecessor_frame_hash m),
     bm_chain_head_hash := lower (bm_chain_head_hash m), bm_segment_hash := lower (bm_segment_hash m), bm_signature_hex := lower (bm_signature_hex m) \<rparr> = m"
    using good id low by (simp add: frame_good_def hash_text_def m_def capture_manifest_fields)
  with ok show ?thesis by (auto simp: BlackBoxSegmentManifest_def)
qed

lemma signature_of_recorder:
  assumes "bb_config_ok ed c"
  shows "signature_accepted ed (public_key_hex ed c) (hexlify (ed_sign ed (bc_private_key c) (canon j))) j"
  using assms by (simp add: signature_accepted_def public_key_hex_def bb_config_ok_def ed25519_ok_def)

lemma captured_verifies:
  assumes "bb_config_ok ed c" "fs \<noteq> []" "verify_frames ed dt (public_key_hex ed c) n h0 fs = Inr h"
  shows "bv_valid (verify_segment ed dt \<lparr> sg_manifest = capture_manifest ed dt c a fs t why, sg_frames = fs \<rparr> (public_key_hex ed c))"
proof -
  obtain f fs' where fs: "fs = f # fs'" using assms(2) by (cases fs) auto
  have "bf_previous_frame_hash (hd fs) = h0" "bf_sequence (hd fs) = n" "bf_frame_hash (last fs) = h"
    using verify_frames_hd [OF assms(3) [unfolded fs]] verify_frames_last [OF assms(3)] by (simp_all add: fs)
  note f = this
  let ?m = "capture_manifest ed dt c a fs t why"
  have 1: "verify_frames ed dt (public_key_hex ed c) (bm_first_sequence ?m) (bm_predecessor_frame_hash ?m) fs = Inr h"
    unfolding capture_manifest_fields f by (rule assms(3))
  have 2: "h = bm_chain_head_hash ?m" unfolding capture_manifest_fields f by simp
  have 3: "signature_accepted ed (public_key_hex ed c) (bm_signature_hex ?m) (segment_payload dt ?m (map bf_frame_hash fs))"
    unfolding capture_manifest_hash by (rule signature_of_recorder [OF assms(1)])
  show ?thesis
    unfolding verify_segment_def Let_def bb_segment.simps using assms(2) 1 2 3 capture_manifest_hash(1,2) [of ed dt c a fs t why]
    by (simp del: verify_frames.simps)
qed

lemma live_bounds:
  assumes "live_ok ed dt c n m h live" "n \<le> m"
  shows "map snd live \<noteq> []" "bf_sequence (hd (map snd live)) = n" "bf_sequence (last (map snd live)) = m" "int (length (map snd live)) = m - n + 1"
    "list_all (frame_good c) (map snd live)"
proof -
  have seqs: "map bf_sequence (map snd live) = [n..m]" by (rule live_sequences [OF assms(1)])
  show ne: "map snd live \<noteq> []" using seqs assms(2) by auto
  have "hd (map bf_sequence (map snd live)) = n" unfolding seqs using assms(2) by (simp add: upto_rec1)
  then show "bf_sequence (hd (map snd live)) = n" by (simp only: hd_map [OF ne])
  have "last (map bf_sequence (map snd live)) = m" unfolding seqs using assms(2) by (simp add: upto_rec2)
  then show "bf_sequence (last (map snd live)) = m" by (simp only: last_map [OF ne])
  show "int (length (map snd live)) = m - n + 1" using assms(2) arg_cong [OF seqs, of length] by simp
  show "list_all (frame_good c) (map snd live)" using assms(1) by (auto simp: live_ok_def list_all_iff)
qed

lemma seal_active_effect:
  assumes cfg: "bb_config_ok ed c" and inv: "bb_inv ed dt c s st" and act: "rs_active_capture st = Some a"
  defines "fs \<equiv> map snd (bx_live s)" and "st' \<equiv> st \<lparr> rs_active_capture := None \<rparr>"
  shows "seal_active ed dt c clock why \<lparr> br_store = s, br_state = st \<rparr> =
    (case clock of
       Naive _ \<Rightarrow> (Inl (BlackBoxValidationError ''clock must be timezone-aware''), \<lparr> br_store = s, br_state = st \<rparr>)
     | Aware x off \<Rightarrow>
        let g = \<lparr> sg_manifest = capture_manifest ed dt c a fs (x - off) why, sg_frames = fs \<rparr> in
        if bo_observed_at_utc (bf_observation (last fs)) < bo_observed_at_utc (bf_observation (hd fs))
        then (Inl (ValidationError ''BlackBoxSegmentManifest''), \<lparr> br_store = s, br_state = st \<rparr>)
        else if bm_segment_id (sg_manifest g) \<in> fst ` set (bx_segments s)
        then (Inl (BlackBoxSegmentAlreadyExists (bm_segment_id (sg_manifest g))), \<lparr> br_store = s, br_state = st \<rparr>)
        else (Inr g, \<lparr> br_store = sealed_store c g st' s, br_state = st' \<rparr>))"
proof -
  have live: "live_ok ed dt c (ac_first_sequence a) (rs_last_sequence st) (rs_head_hash st) (bx_live s)" and st: "state_inv c st" "bx_state s = Some st"
    using inv act by (simp_all add: bb_inv_def window_start_def)
  have cap: "capture_ok c st a" using st act by (simp add: state_inv_def opt_ok_def)
  then have le: "ac_first_sequence a \<le> rs_last_sequence st" "1 \<le> ac_first_sequence a" "ac_first_sequence a \<le> bt_trigger_sequence (ac_trigger a)"
      "bt_trigger_sequence (ac_trigger a) \<le> rs_last_sequence st"
    using cfg by (auto simp: capture_ok_def Let_def bb_config_ok_def bb_policy_ok_def)
  note b = live_bounds [OF live le(1), folded fs_def]
  have sorted: "list_live_frames s = fs" unfolding fs_def by (rule live_frames_sorted [OF live])
  have seqs: "map bf_sequence fs = [ac_first_sequence a..rs_last_sequence st]" unfolding fs_def by (rule live_sequences [OF live])
  then have "set (map bf_sequence fs) = {ac_first_sequence a..rs_last_sequence st}" by simp
  then have "\<forall>f \<in> set fs. ac_first_sequence a \<le> bf_sequence f \<and> bf_sequence f \<le> rs_last_sequence st" by fastforce
  then have all: "filter (\<lambda>f. ac_first_sequence a \<le> bf_sequence f \<and> bf_sequence f \<le> rs_last_sequence st) fs = fs" by (simp add: filter_id_conv)
  let ?m = "\<lambda>t. capture_manifest ed dt c a fs t why"
  have range: "manifest_range_ok (?m t) \<longleftrightarrow> bo_observed_at_utc (bf_observation (hd fs)) \<le> bo_observed_at_utc (bf_observation (last fs))" for t
    using b le by (auto simp: manifest_range_ok_def capture_manifest_fields)
  have man: "BlackBoxSegmentManifest (?m t) = (if bo_observed_at_utc (bf_observation (last fs)) < bo_observed_at_utc (bf_observation (hd fs))
      then Inl (ValidationError ''BlackBoxSegmentManifest'') else Inr (?m t))" for t
  proof (cases "manifest_range_ok (?m t)")
    case True
    then have "BlackBoxSegmentManifest (?m t) = Inr (?m t)" using manifest_constructed [OF cfg b(1) b(5)] b(2,3) le by simp
    with True range show ?thesis by simp
  next
    case False
    then have "\<not> manifest_ok (?m t)" by (simp add: manifest_ok_def)
    with False range show ?thesis by (simp add: BlackBoxSegmentManifest_def)
  qed
  have seg: "BlackBoxSegment \<lparr> sg_manifest = ?m t, sg_frames = fs \<rparr> = Inr \<lparr> sg_manifest = ?m t, sg_frames = fs \<rparr>" for t
    using b by (auto simp: BlackBoxSegment_def segment_ok_def capture_manifest_fields frame_good_def list_all_iff)
  show ?thesis
  proof (cases clock)
    case (Naive x)
    then show ?thesis using act b(1,2) sorted all seqs
      by (simp add: seal_active_def Let_def action_simps bb_normalize_utc_def)
  next
    case (Aware x off)
    have store: "on_store (store_seal_segment g st') \<lparr> br_store = s, br_state = st \<rparr> =
        (if bm_segment_id (sg_manifest g) \<in> fst ` set (bx_segments s) then (Inl (BlackBoxSegmentAlreadyExists (bm_segment_id (sg_manifest g))), \<lparr> br_store = s, br_state = st \<rparr>)
         else (Inr (), \<lparr> br_store = s \<lparr> bx_segments := bx_segments s @ [(bm_segment_id (sg_manifest g), g)], bx_state := Some st' \<rparr>, br_state = st \<rparr>))" for g
      using st(2) by (simp add: on_store_def store_seal_segment_def update_state_def Let_def action_simps rcheck_def)
    show ?thesis
      using act b(1,2) sorted all seqs
      by (simp add: Aware seal_active_def Let_def action_simps bb_normalize_utc_def man seg store [folded st'_def] st'_def [symmetric]
        abind_def [of "on_store _"] set_recorder_state_def prune_rolling_window_def prune_live_before_def on_store_def [of "awrite _"] sealed_store_def)
  qed
qed

section \<open>Preservation\<close>

lemma filter_from: "map fst live = [n..m] \<Longrightarrow> filter (\<lambda>(i, f). k \<le> i) live = drop (nat (k - n)) live"
proof (induction live arbitrary: n)
  case (Cons x live)
  then have n: "n \<le> m" by (cases "n \<le> m") auto
  then have x: "fst x = n" "map fst live = [n + 1..m]" using Cons.prems by (simp_all add: upto_rec1)
  show ?case
  proof (cases "k \<le> n")
    case True
    have "fst y \<in> {n + 1..m}" if "y \<in> set live" for y
      using that x(2) by (metis set_map image_eqI set_upto)
    then have "\<forall>y \<in> set live. n < fst y" by fastforce
    then have "filter (\<lambda>(i, f). k \<le> i) live = live" using True by (intro filter_True) auto
    with True x(1) show ?thesis by (cases x) simp
  next
    case False
    then have "nat (k - n) = Suc (nat (k - (n + 1)))" by simp
    with False x Cons.IH [OF x(2)] show ?thesis by (cases x) simp
  qed
qed simp

lemma live_prune:
  assumes "live_ok ed dt c n m h live" "n \<le> k" "k \<le> m + 1"
  shows "live_ok ed dt c k m h (filter (\<lambda>(i, f). k \<le> i) live)"
proof -
  have fst: "map fst live = [n..m]" and good: "list_all (\<lambda>(k, f). k = bf_sequence f \<and> frame_good c f) live"
    using assms(1) by (simp_all add: live_ok_def)
  obtain h0 where h0: "hash_text h0" "verify_frames ed dt (public_key_hex ed c) n h0 (map snd live) = Inr h" using assms(1) by (auto simp: live_ok_def)
  let ?d = "nat (k - n)"
  have len: "int (length live) = m + 1 - n" using arg_cong [OF fst, of length] assms(2,3) by simp
  have "verify_frames ed dt (public_key_hex ed c) n h0 (map snd (take ?d live) @ map snd (drop ?d live)) = Inr h"
    using h0(2) by (simp flip: map_append)
  then obtain h1 where h1: "verify_frames ed dt (public_key_hex ed c) n h0 (map snd (take ?d live)) = Inr h1"
    "verify_frames ed dt (public_key_hex ed c) (n + int (length (take ?d live))) h1 (map snd (drop ?d live)) = Inr h"
    unfolding verify_frames_append by (auto split: sum.split_asm)
  have "n + int (length (take ?d live)) = k" using len assms(2,3) by auto
  moreover have "hash_text h1"
  proof (cases "take ?d live = []")
    case True
    then have "h1 = h0" using verify_frames_last [OF h1(1)] by simp
    with h0(1) show ?thesis by simp
  next
    case False
    then have "h1 = bf_frame_hash (snd (last (take ?d live)))" "last (take ?d live) \<in> set live"
      using verify_frames_last [OF h1(1)] in_set_takeD [OF last_in_set [OF False]] by (simp_all add: last_map)
    with good show ?thesis by (auto simp: list_all_iff frame_good_def)
  qed
  moreover have "map fst (drop ?d live) = [k..m]"
  proof -
    have "map fst (drop ?d live) = drop ?d [n..m]" using fst by (metis drop_map)
    also have "\<dots> = [k..m]"
      using assms(2,3) by (intro nth_equalityI) (auto simp: nth_upto)
    finally show ?thesis .
  qed
  moreover have "list_all (\<lambda>(k, f). k = bf_sequence f \<and> frame_good c f) (drop ?d live)"
    using good by (auto simp: list_all_iff dest: in_set_dropD)
  ultimately show ?thesis using h1(2) by (auto simp: live_ok_def filter_from [OF fst])
qed

lemma live_extend:
  assumes "live_ok ed dt c n m h live" "n \<le> m + 1" "bf_sequence f = m + 1" "bf_previous_frame_hash f = h" "frame_good c f"
    "verify_frame ed dt f (public_key_hex ed c)"
  shows "live_ok ed dt c n (m + 1) (bf_frame_hash f) (live @ [(m + 1, f)])"
proof -
  have fst: "map fst live = [n..m]" using assms(1) by (simp add: live_ok_def)
  have len: "n + int (length live) = m + 1" using assms(2) arg_cong [OF fst, of length] by simp
  obtain h0 where "hash_text h0" "verify_frames ed dt (public_key_hex ed c) n h0 (map snd live) = Inr h" using assms(1) by (auto simp: live_ok_def)
  then have "verify_frames ed dt (public_key_hex ed c) n h0 (map snd (live @ [(m + 1, f)])) = Inr (bf_frame_hash f)"
    using assms(3,4,6) len by (simp add: verify_frames_append)
  moreover have "map fst (live @ [(m + 1, f)]) = [n..m + 1]" using fst assms(2) by (simp add: upto_rec2)
  ultimately show ?thesis using assms(1,3,5) \<open>hash_text h0\<close> by (auto simp: live_ok_def)
qed

lemma sealed_inv:
  fixes t :: utc
  assumes cfg: "bb_config_ok ed c" and inv: "bb_inv ed dt c s st" and act: "rs_active_capture st = Some a"
    and ordered: "bo_observed_at_utc (bf_observation (hd (map snd (bx_live s)))) \<le> bo_observed_at_utc (bf_observation (last (map snd (bx_live s))))"
    and complete: "why = Post_Window_Complete \<Longrightarrow> ac_remaining_post_frames a = 0"
  defines "g \<equiv> \<lparr> sg_manifest = capture_manifest ed dt c a (map snd (bx_live s)) t why, sg_frames = map snd (bx_live s) \<rparr>"
  shows "bb_inv ed dt c (sealed_store c g (st \<lparr> rs_active_capture := None \<rparr>) s) (st \<lparr> rs_active_capture := None \<rparr>)"
    and "segment_good ed dt c g"
proof -
  have live: "live_ok ed dt c (ac_first_sequence a) (rs_last_sequence st) (rs_head_hash st) (bx_live s)" and st: "state_inv c st" "bx_state s = Some st"
    using inv act by (simp_all add: bb_inv_def window_start_def)
  have cap: "capture_ok c st a" using st act by (simp add: state_inv_def opt_ok_def)
  have pol: "1 \<le> bp_pre_trigger_frames (bc_policy c)" using cfg by (simp add: bb_config_ok_def bb_policy_ok_def)
  then have le: "ac_first_sequence a \<le> rs_last_sequence st" "bt_trigger_sequence (ac_trigger a) \<le> rs_last_sequence st"
    using cap by (auto simp: capture_ok_def Let_def)
  note b = live_bounds [OF live le(1)]
  obtain h0 where h0: "verify_frames ed dt (public_key_hex ed c) (ac_first_sequence a) h0 (map snd (bx_live s)) = Inr (rs_head_hash st)"
    using live by (auto simp: live_ok_def)
  have valid: "bv_valid (verify_segment ed dt g (public_key_hex ed c))" unfolding g_def by (rule captured_verifies [OF cfg b(1) h0])
  have "segment_ok g" using b by (auto simp: g_def segment_ok_def capture_manifest_fields frame_good_def list_all_iff)
  with valid cap complete b le show good: "segment_good ed dt c g"
    by (auto simp: segment_good_def Let_def g_def capture_manifest_fields capture_ok_def)
  let ?st = "st \<lparr> rs_active_capture := None \<rparr>"
  have st': "state_inv c ?st" using st by (simp add: state_inv_def opt_ok_def)
  have "ac_first_sequence a \<le> window_start c ?st" using cap by (auto simp: window_start_def capture_ok_def Let_def)
  moreover have "window_start c ?st \<le> rs_last_sequence st + 1"
    using window_start_bounds(2) [OF _ st'] cfg by (simp add: bb_config_ok_def)
  ultimately have "live_ok ed dt c (window_start c ?st) (rs_last_sequence st) (rs_head_hash st) (filter (\<lambda>(i, f). window_start c ?st \<le> i) (bx_live s))"
    using live_prune [OF live] by blast
  then show "bb_inv ed dt c (sealed_store c g ?st s) ?st"
    using st' good inv by (simp add: bb_inv_def sealed_store_def window_start_def)
qed

abbreviation inv_of :: "ed25519 \<Rightarrow> (utc \<Rightarrow> string) \<Rightarrow> bb_config \<Rightarrow> bb_recorder \<Rightarrow> bool" where
  "inv_of ed dt c r \<equiv> bb_inv ed dt c (br_store r) (br_state r)"

lemma seal_inv:
  assumes cfg: "bb_config_ok ed c" and inv: "bb_inv ed dt c s st" and act: "rs_active_capture st = Some a"
    and complete: "why = Post_Window_Complete \<Longrightarrow> ac_remaining_post_frames a = 0"
  shows "inv_of ed dt c (snd (seal_active ed dt c clock why \<lparr> br_store = s, br_state = st \<rparr>))"
proof (cases clock)
  case (Naive x)
  then show ?thesis unfolding seal_active_effect [OF cfg inv act] using inv by simp
next
  case (Aware x off)
  show ?thesis
    unfolding seal_active_effect [OF cfg inv act] Aware datetime.case Let_def
    using inv sealed_inv(1) [OF cfg inv act _ complete, where t = "x - off"] by simp
qed

definition recorded_store :: "ed25519 \<Rightarrow> (utc \<Rightarrow> string) \<Rightarrow> bb_config \<Rightarrow> recorder_state \<Rightarrow> bb_observation \<Rightarrow> bb_store \<Rightarrow> bb_store" where
  "recorded_store ed dt c st ob s = s \<lparr> bx_live := bx_live s @ [(rs_last_sequence st + 1, new_frame ed dt c st ob)], bx_state := Some (recorded_state ed dt c st ob) \<rparr>"

text \<open>The observations \<^verbatim>\<open>record\<close> accepts in a state.\<close>

definition recordable :: "(utc \<Rightarrow> string) \<Rightarrow> bb_config \<Rightarrow> recorder_state \<Rightarrow> bb_observation \<Rightarrow> bool" where
  "recordable dt c st ob \<longleftrightarrow> int (length (canon (observation_json dt ob))) \<le> bp_max_observation_bytes (bc_policy c) \<and>
     bo_device_id ob = bc_device_id c \<and> bo_boot_id ob = rs_boot_id st \<and>
     (case rs_last_monotonic_ns st of None \<Rightarrow> True | Some n \<Rightarrow> n < bo_monotonic_ns ob)"

lemma new_frame_fields [simp]:
  "bf_sequence (new_frame ed dt c st ob) = rs_last_sequence st + 1" "bf_observation (new_frame ed dt c st ob) = ob"
  "bf_previous_frame_hash (new_frame ed dt c st ob) = rs_head_hash st" "bf_signing_key_id (new_frame ed dt c st ob) = bc_signing_key_id c"
  "bf_boot_counter (new_frame ed dt c st ob) = rs_boot_counter st" "hash_text (bf_frame_hash (new_frame ed dt c st ob))"
  by (simp_all add: new_frame_def Let_def)

lemma new_frame_verifies: "bb_config_ok ed c \<Longrightarrow> verify_frame ed dt (new_frame ed dt c st ob) (public_key_hex ed c)"
  using signature_of_recorder by (simp add: verify_frame_def payload_of_frame_def new_frame_def Let_def)

lemma new_frame_constructed:
  assumes "bb_config_ok ed c" "state_inv c st"
  shows "SignedBlackBoxFrame (new_frame ed dt c st ob) = Inr (new_frame ed dt c st ob)"
proof -
  let ?p = "frame_payload dt (rs_last_sequence st + 1) (rs_boot_counter st) ob (rs_head_hash st) (bc_signing_key_id c)"
  have "length (ed_sign ed (bc_private_key c) (canon ?p)) = 64" using assms(1) by (simp add: bb_config_ok_def ed25519_ok_def)
  moreover have "hash_text (rs_head_hash st)" "hash_text (canon_sha256 ?p)" "field_length 1 256 (bc_signing_key_id c)" "1 \<le> rs_boot_counter st" "0 \<le> rs_last_sequence st"
    using assms by (simp_all add: state_inv_def bb_config_ok_def)
  ultimately show ?thesis by (simp add: SignedBlackBoxFrame_def new_frame_def Let_def hash_text_def)
qed

text \<open>What follows the commit of a frame: sealing a completed capture, or pruning the window when none is active.\<close>

definition after_commit :: "ed25519 \<Rightarrow> (utc \<Rightarrow> string) \<Rightarrow> bb_config \<Rightarrow> datetime \<Rightarrow> bb_frame \<Rightarrow> active_capture option \<Rightarrow> (bb_recorder, bb_frame) action" where
  "after_commit ed dt c clock frame x =
     abind (case x of
         None \<Rightarrow> prune_rolling_window c
       | Some a \<Rightarrow> if ac_remaining_post_frames a = 0
           then abind (seal_active ed dt c clock Post_Window_Complete) (\<lambda>_. alift (Inr ())) else alift (Inr ()))
       (\<lambda>_. alift (Inr frame))"

lemma record_effect:
  assumes cfg: "bb_config_ok ed c" and inv: "bb_inv ed dt c s st" and ob: "BlackBoxObservation ob0 = Inr ob"
  shows "recordable dt c st ob \<Longrightarrow> bb_record ed dt c clock ob0 \<lparr> br_store = s, br_state = st \<rparr> =
      after_commit ed dt c clock (new_frame ed dt c st ob) (rs_active_capture (recorded_state ed dt c st ob))
        \<lparr> br_store = recorded_store ed dt c st ob s, br_state = recorded_state ed dt c st ob \<rparr>"
    and "\<not> recordable dt c st ob \<Longrightarrow> \<exists>e. bb_record ed dt c clock ob0 \<lparr> br_store = s, br_state = st \<rparr> = (Inl e, \<lparr> br_store = s, br_state = st \<rparr>)"
proof -
  assume r: "recordable dt c st ob"
  have st: "state_inv c st" "bx_state s = Some st" and live: "map fst (bx_live s) = [window_start c st..rs_last_sequence st]"
    using inv by (auto simp: bb_inv_def live_ok_def)
  have "fst ` set (bx_live s) = {window_start c st..rs_last_sequence st}" using arg_cong [OF live, of set] by simp
  then have fresh: "rs_last_sequence st + 1 \<notin> fst ` set (bx_live s)" by simp
  have commit: "on_store (commit_frame (new_frame ed dt c st ob) st') \<lparr> br_store = s, br_state = st \<rparr> =
      (Inr (), \<lparr> br_store = s \<lparr> bx_live := bx_live s @ [(rs_last_sequence st + 1, new_frame ed dt c st ob)], bx_state := Some st' \<rparr>, br_state = st \<rparr>)" for st'
    using st(2) fresh by (simp add: on_store_def commit_frame_def action_simps rcheck_def)
  have "SignedBlackBoxFrame (new_frame ed dt c st ob) = Inr (new_frame ed dt c st ob)" by (rule new_frame_constructed [OF cfg st(1)])
  then show "bb_record ed dt c clock ob0 \<lparr> br_store = s, br_state = st \<rparr> =
      after_commit ed dt c clock (new_frame ed dt c st ob) (rs_active_capture (recorded_state ed dt c st ob))
        \<lparr> br_store = recorded_store ed dt c st ob s, br_state = recorded_state ed dt c st ob \<rparr>"
    using r ob
    by (simp add: recordable_def bb_record_def after_commit_def action_simps Let_def commit
      abind_def [of "on_store _"] set_recorder_state_def recorded_store_def)
next
  assume "\<not> recordable dt c st ob"
  then show "\<exists>e. bb_record ed dt c clock ob0 \<lparr> br_store = s, br_state = st \<rparr> = (Inl e, \<lparr> br_store = s, br_state = st \<rparr>)"
    using ob
    by (cases "int (length (canon (observation_json dt ob))) \<le> bp_max_observation_bytes (bc_policy c)";
        cases "bo_device_id ob = bc_device_id c"; cases "bo_boot_id ob = rs_boot_id st";
        simp add: recordable_def bb_record_def action_simps Let_def)
qed

lemma recorded_state_inv:
  assumes "bb_config_ok ed c" "state_inv c st"
  shows "state_inv c (recorded_state ed dt c st ob)"
proof -
  have "capture_ok c (recorded_state ed dt c st ob) a'" if "next_capture (Some a) = Some a'" "capture_ok c st a" for a a'
    using that by (auto simp: next_capture_def capture_ok_def recorded_state_def Let_def split: if_split_asm)
  then have "opt_ok (capture_ok c (recorded_state ed dt c st ob)) (next_capture (rs_active_capture st))"
    using assms(2) by (cases "rs_active_capture st") (auto simp: opt_ok_def state_inv_def next_capture_def)
  with assms(2) show ?thesis by (simp add: state_inv_def recorded_state_def)
qed

lemma recorded_live:
  assumes cfg: "bb_config_ok ed c" and inv: "bb_inv ed dt c s st" and ob: "bo_device_id ob = bc_device_id c"
  shows "live_ok ed dt c (window_start c st) (rs_last_sequence st + 1) (rs_head_hash (recorded_state ed dt c st ob)) (bx_live (recorded_store ed dt c st ob s))"
proof -
  have "frame_good c (new_frame ed dt c st ob)" using ob inv by (simp add: frame_good_def bb_inv_def state_inv_def)
  moreover have "window_start c st \<le> rs_last_sequence st + 1"
    using window_start_bounds(2) inv cfg by (simp add: bb_inv_def bb_config_ok_def)
  ultimately show ?thesis
    using inv live_extend [of ed dt c "window_start c st" "rs_last_sequence st" "rs_head_hash st" "bx_live s" "new_frame ed dt c st ob"] new_frame_verifies [OF cfg]
    by (simp add: bb_inv_def recorded_store_def recorded_state_def)
qed

lemma recorded_inv:
  assumes cfg: "bb_config_ok ed c" and inv: "bb_inv ed dt c s st" and ob: "bo_device_id ob = bc_device_id c" and act: "rs_active_capture st \<noteq> None"
  shows "bb_inv ed dt c (recorded_store ed dt c st ob s) (recorded_state ed dt c st ob)"
proof -
  have "window_start c (recorded_state ed dt c st ob) = window_start c st" "rs_last_sequence (recorded_state ed dt c st ob) = rs_last_sequence st + 1"
    using act by (auto simp: window_start_def recorded_state_def next_capture_def)
  with recorded_live [OF cfg inv ob] recorded_state_inv [OF cfg, of st dt ob] inv show ?thesis
    by (simp add: bb_inv_def recorded_store_def)
qed

lemma pruned_inv:
  assumes cfg: "bb_config_ok ed c" and inv: "bb_inv ed dt c s st" and ob: "bo_device_id ob = bc_device_id c" and idle: "rs_active_capture st = None"
  shows "inv_of ed dt c (snd (prune_rolling_window c \<lparr> br_store = recorded_store ed dt c st ob s, br_state = recorded_state ed dt c st ob \<rparr>))"
proof -
  let ?st = "recorded_state ed dt c st ob"
  have st: "rs_active_capture ?st = None" "rs_last_sequence ?st = rs_last_sequence st + 1"
    using idle by (simp_all add: recorded_state_def next_capture_def)
  have "state_inv c st" using inv by (simp add: bb_inv_def)
  then have st': "state_inv c ?st" by (rule recorded_state_inv [OF cfg])
  have "window_start c st \<le> window_start c ?st" using idle st by (simp add: window_start_def)
  moreover have "window_start c ?st \<le> rs_last_sequence ?st + 1"
    using window_start_bounds(2) [OF _ st'] cfg by (simp add: bb_config_ok_def)
  ultimately have "live_ok ed dt c (window_start c ?st) (rs_last_sequence ?st) (rs_head_hash ?st) (filter (\<lambda>(i, f). window_start c ?st \<le> i) (bx_live (recorded_store ed dt c st ob s)))"
    using live_prune [OF recorded_live [OF cfg inv ob]] st by simp
  then show ?thesis
    using st st' inv by (simp add: bb_inv_def prune_rolling_window_def prune_live_before_def on_store_def action_simps recorded_store_def window_start_def)
qed

lemma after_commit_inv:
  assumes cfg: "bb_config_ok ed c" and inv: "bb_inv ed dt c s st" and dev: "bo_device_id ob = bc_device_id c"
  shows "inv_of ed dt c (snd (after_commit ed dt c clock f (rs_active_capture (recorded_state ed dt c st ob))
    \<lparr> br_store = recorded_store ed dt c st ob s, br_state = recorded_state ed dt c st ob \<rparr>))"
proof -
  have fin: "snd (abind m (\<lambda>_. alift (Inr x)) r) = snd (m r)" for m :: "(bb_recorder, unit) action" and x :: bb_frame and r
    by (auto simp: abind_def alift_def split: prod.split sum.split)
  have fin': "snd (abind m (\<lambda>_. alift (Inr ())) r) = snd (m r)" for m :: "(bb_recorder, bb_segment) action" and r
    by (auto simp: abind_def alift_def split: prod.split sum.split)
  show ?thesis
  proof (cases "rs_active_capture st")
    case None
    then have "rs_active_capture (recorded_state ed dt c st ob) = None" by (simp add: recorded_state_def next_capture_def)
    then show ?thesis using pruned_inv [OF cfg inv dev None] by (simp add: after_commit_def fin)
  next
    case (Some a)
    then obtain a' where a': "rs_active_capture (recorded_state ed dt c st ob) = Some a'" by (simp add: recorded_state_def next_capture_def)
    have inv': "bb_inv ed dt c (recorded_store ed dt c st ob s) (recorded_state ed dt c st ob)"
      using recorded_inv [OF cfg inv dev] Some by simp
    show ?thesis
    proof (cases "ac_remaining_post_frames a' = 0")
      case True
      then show ?thesis using seal_inv [OF cfg inv' a', of Post_Window_Complete clock] by (simp add: after_commit_def a' fin fin')
    next
      case False
      then show ?thesis using inv' by (simp add: after_commit_def a' fin alift_def)
    qed
  qed
qed

lemma record_inv:
  assumes cfg: "bb_config_ok ed c" and inv: "bb_inv ed dt c s st"
  shows "inv_of ed dt c (snd (bb_record ed dt c clock ob0 \<lparr> br_store = s, br_state = st \<rparr>))"
proof (cases "BlackBoxObservation ob0")
  case (Inl e)
  then show ?thesis using inv by (simp add: bb_record_def action_simps)
next
  case (Inr ob)
  note eff = record_effect [OF cfg inv Inr, of clock]
  show ?thesis
  proof (cases "recordable dt c st ob")
    case True
    then have "bo_device_id ob = bc_device_id c" by (simp add: recordable_def)
    from after_commit_inv [OF cfg inv this] show ?thesis unfolding eff(1) [OF True] .
  next
    case False
    then show ?thesis using eff(2) inv by auto
  qed
qed

lemma trigger_cases:
  assumes cfg: "bb_config_ok ed c" and inv: "bb_inv ed dt c s st"
  obtains e where "bb_trigger_capture ed dt c now clock i k why actor at_utc \<lparr> br_store = s, br_state = st \<rparr> = (Inl e, \<lparr> br_store = s, br_state = st \<rparr>)"
  | a where "bb_inv ed dt c (s \<lparr> bx_state := Some (st \<lparr> rs_active_capture := Some a \<rparr>) \<rparr>) (st \<lparr> rs_active_capture := Some a \<rparr>)"
    "bb_trigger_capture ed dt c now clock i k why actor at_utc \<lparr> br_store = s, br_state = st \<rparr> =
      (if ac_remaining_post_frames a = 0
       then abind (seal_active ed dt c clock Post_Window_Complete) (\<lambda>s. alift (Inr (Some s))) else alift (Inr None))
        \<lparr> br_store = s \<lparr> bx_state := Some (st \<lparr> rs_active_capture := Some a \<rparr>) \<rparr>, br_state = st \<lparr> rs_active_capture := Some a \<rparr> \<rparr>"
proof (cases "rs_active_capture st = None \<and> list_live_frames s \<noteq> []")
  case False
  then show thesis
    by (intro that(1) [of "if rs_active_capture st \<noteq> None then BlackBoxValidationError ''an incident capture is already active''
          else BlackBoxValidationError ''cannot trigger before at least one frame is recorded''"])
      (auto simp: bb_trigger_capture_def action_simps Let_def)
next
  case True
  let ?at = "case at_utc of Some t \<Rightarrow> bb_normalize_utc t ''triggered_at_utc'' | None \<Rightarrow> bb_normalize_utc now ''clock''"
  let ?t = "\<lambda>u. \<lparr> bt_trigger_id = i, bt_kind = k, bt_reason = why, bt_triggered_at_utc = u, bt_trigger_sequence = rs_last_sequence st, bt_actor_ref = actor \<rparr>"
  let ?a = "\<lambda>u. \<lparr> ac_trigger = ?t u, ac_first_sequence = max (bf_sequence (hd (list_live_frames s))) (rs_last_sequence st - bp_pre_trigger_frames (bc_policy c) + 1),
      ac_remaining_post_frames = bp_post_trigger_frames (bc_policy c) \<rparr>"
  have live: "live_ok ed dt c (window_start c st) (rs_last_sequence st) (rs_head_hash st) (bx_live s)" and st: "state_inv c st" "bx_state s = Some st"
    using inv by (simp_all add: bb_inv_def)
  have ws: "window_start c st = max 1 (rs_last_sequence st - bp_pre_trigger_frames (bc_policy c) + 1)" using True by (simp add: window_start_def)
  have ne: "map snd (bx_live s) \<noteq> []" using True live_frames_sorted [OF live] by simp
  then have "[window_start c st..rs_last_sequence st] \<noteq> []" using live by (auto simp: live_ok_def)
  then have le: "window_start c st \<le> rs_last_sequence st" by simp
  have first: "bf_sequence (hd (list_live_frames s)) = window_start c st" using live_bounds(2) [OF live le] live_frames_sorted [OF live] by simp
  show thesis
  proof (cases ?at)
    case (Inl e)
    then show thesis using True by (intro that(1) [of e]) (simp add: bb_trigger_capture_def action_simps Let_def)
  next
    case at: (Inr u)
    show thesis
    proof (cases "BlackBoxTrigger (?t u)")
      case (Inl e)
      then show thesis using True at by (intro that(1) [of e]) (simp add: bb_trigger_capture_def action_simps Let_def)
    next
      case (Inr t)
      then have t: "BlackBoxTrigger (?t u) = Inr (?t u)" by (auto simp: BlackBoxTrigger_def split: if_split_asm)
      have post: "0 \<le> bp_post_trigger_frames (bc_policy c)" "1 \<le> bp_pre_trigger_frames (bc_policy c)" using cfg by (auto simp: bb_config_ok_def bb_policy_ok_def)
      have act: "ActiveCaptureState (?a u) = Inr (?a u)" using le ws first post by (simp add: ActiveCaptureState_def)
      let ?st = "st \<lparr> rs_active_capture := Some (?a u) \<rparr>"
      have "capture_ok c ?st (?a u)" using le ws first post by (simp add: capture_ok_def)
      then have "state_inv c ?st" using st(1) by (simp add: state_inv_def opt_ok_def capture_ok_def)
      moreover have "window_start c ?st = window_start c st" using ws first by (simp add: window_start_def)
      ultimately have inv': "bb_inv ed dt c (s \<lparr> bx_state := Some ?st \<rparr>) ?st" using inv by (simp add: bb_inv_def)
      have "on_store (update_state ?st) \<lparr> br_store = s, br_state = ?st \<rparr> = (Inr (), \<lparr> br_store = s \<lparr> bx_state := Some ?st \<rparr>, br_state = ?st \<rparr>)"
        using st(2) by (simp add: on_store_def update_state_def action_simps)
      then show thesis using True at t act inv'
        by (intro that(2) [of "?a u"]) (simp_all add: bb_trigger_capture_def action_simps Let_def set_recorder_state_def abind_def [of "on_store _"])
    qed
  qed
qed

lemma trigger_inv:
  assumes cfg: "bb_config_ok ed c" and inv: "bb_inv ed dt c s st"
  shows "inv_of ed dt c (snd (bb_trigger_capture ed dt c now clock i k why actor at_utc \<lparr> br_store = s, br_state = st \<rparr>))"
proof (cases rule: trigger_cases [OF cfg inv, of now clock i k why actor at_utc])
  case (2 a)
  have fin: "snd (abind m (\<lambda>s. alift (Inr (Some s))) r) = snd (m r)" for m :: "(bb_recorder, bb_segment) action" and r
    by (auto simp: abind_def alift_def split: prod.split sum.split)
  show ?thesis
    using seal_inv [OF cfg 2(1), of a Post_Window_Complete clock] 2(1) by (simp add: 2(2) fin alift_def)
qed (use inv in simp)

lemma force_inv:
  assumes cfg: "bb_config_ok ed c" and inv: "bb_inv ed dt c s st"
  shows "inv_of ed dt c (snd (force_seal ed dt c clock why \<lparr> br_store = s, br_state = st \<rparr>))"
proof (cases "why \<noteq> Post_Window_Complete \<and> rs_active_capture st \<noteq> None")
  case True
  then obtain a where "rs_active_capture st = Some a" by auto
  with True seal_inv [OF cfg inv this, of why clock] show ?thesis by (simp add: force_seal_def action_simps)
next
  case False
  then show ?thesis using inv by (auto simp: force_seal_def action_simps)
qed

lemma run_inv:
  assumes "bb_config_ok ed c" "inv_of ed dt c r"
  shows "inv_of ed dt c (bb_run ed dt c cmd r)"
proof -
  obtain s st where r: "r = \<lparr> br_store = s, br_state = st \<rparr>" by (cases r) simp
  with assms(2) have inv: "bb_inv ed dt c s st" by simp
  show ?thesis
    using record_inv [OF assms(1) inv] trigger_inv [OF assms(1) inv] force_inv [OF assms(1) inv] by (cases cmd) (simp_all add: r)
qed

section \<open>Recovery\<close>

definition store_inv :: "ed25519 \<Rightarrow> (utc \<Rightarrow> string) \<Rightarrow> bb_config \<Rightarrow> bb_store \<Rightarrow> bool" where
  "store_inv ed dt c s \<longleftrightarrow> (case bx_state s of None \<Rightarrow> bx_live s = [] \<and> bx_segments s = [] | Some st \<Rightarrow> bb_inv ed dt c s st)"

lemma bb_inv_store: "bb_inv ed dt c s st \<Longrightarrow> store_inv ed dt c s"
  by (simp add: store_inv_def bb_inv_def)

lemma fresh_inv:
  assumes "bb_config_ok ed c" "bx_live s = []" "bx_segments s = []" "RecorderState (bc_device_id c) (bc_signing_key_id c) b n = Inr st"
  shows "bb_inv ed dt c (s \<lparr> bx_state := Some st \<rparr>) st"
proof -
  have "live_ok ed dt c (window_start c st) (rs_last_sequence st) (rs_head_hash st) []"
    using assms(1,4) by (auto simp: RecorderState_def live_ok_def window_start_def bb_config_ok_def bb_policy_ok_def split: if_split_asm)
  with assms show ?thesis
    by (auto simp: bb_inv_def state_inv_def RecorderState_def opt_ok_def split: if_split_asm)
qed

text \<open>The state a boot adopts.\<close>

definition rebooted :: "string \<Rightarrow> int \<Rightarrow> recorder_state \<Rightarrow> recorder_state" where
  "rebooted b n st = (if rs_boot_counter st < n then st \<lparr> rs_boot_id := b, rs_boot_counter := n, rs_last_monotonic_ns := None \<rparr> else st)"

lemma rebooted_inv: "bb_inv ed dt c s st \<Longrightarrow> bb_inv ed dt c (s \<lparr> bx_state := Some (rebooted b n st) \<rparr>) (rebooted b n st)"
  by (auto simp: bb_inv_def state_inv_def opt_ok_def capture_ok_def rebooted_def window_start_def split: option.splits)

lemma boot_state_persisted:
  assumes "bb_inv ed dt c s st"
  shows "boot_state c b n s =
    (if n < rs_boot_counter st then (Inl (BlackBoxValidationError ''boot counter rollback detected''), s)
     else if n = rs_boot_counter st \<and> b \<noteq> rs_boot_id st then (Inl (BlackBoxValidationError ''boot_id changed without advancing boot_counter''), s)
     else (Inr (rebooted b n st), s \<lparr> bx_state := Some (rebooted b n st) \<rparr>))"
proof -
  have st: "bx_state s = Some st" "rs_device_id st = bc_device_id c" "rs_signing_key_id st = bc_signing_key_id c"
    using assms by (simp_all add: bb_inv_def state_inv_def)
  then have same: "s \<lparr> bx_state := Some st \<rparr> = s" by (cases s) simp
  show ?thesis
    using st same
    by (auto simp: boot_state_def action_simps validate_persisted_identity_def rcheck_def rbind_def update_state_def rebooted_def Let_def)
qed

lemma boot_state_inv:
  assumes cfg: "bb_config_ok ed c" and inv: "store_inv ed dt c s"
  shows "boot_state c b n s = (Inr st, s') \<Longrightarrow> bb_inv ed dt c s' st" "boot_state c b n s = (Inl e, s') \<Longrightarrow> s' = s"
proof -
  have "(\<forall>st s'. boot_state c b n s = (Inr st, s') \<longrightarrow> bb_inv ed dt c s' st) \<and> (\<forall>e s'. boot_state c b n s = (Inl e, s') \<longrightarrow> s' = s)"
  proof (cases "bx_state s")
    case None
    then have "bx_live s = []" "bx_segments s = []" using inv by (simp_all add: store_inv_def)
    note fresh = fresh_inv [OF cfg this]
    show ?thesis
    proof (cases "RecorderState (bc_device_id c) (bc_signing_key_id c) b n")
      case (Inl e)
      with None show ?thesis by (simp add: boot_state_def action_simps)
    next
      case (Inr st)
      with None fresh [OF Inr] show ?thesis by (simp add: boot_state_def action_simps initialize_state_def)
    qed
  next
    case (Some st)
    then have inv': "bb_inv ed dt c s st" using inv by (simp add: store_inv_def)
    show ?thesis unfolding boot_state_persisted [OF inv'] using rebooted_inv [OF inv'] by simp
  qed
  then show "boot_state c b n s = (Inr st, s') \<Longrightarrow> bb_inv ed dt c s' st" "boot_state c b n s = (Inl e, s') \<Longrightarrow> s' = s" by blast+
qed

lemma verify_live_frames_ok:
  "verify_frames ed dt (public_key_hex ed c) n h fs = Inr h' \<Longrightarrow> list_all (frame_good c) fs \<Longrightarrow> verify_live_frames ed dt c n h fs = Inr ()"
  by (induction fs arbitrary: n h) (auto simp: frame_good_def split: if_split_asm)

lemma live_state_verifies:
  assumes cfg: "bb_config_ok ed c" and inv: "bb_inv ed dt c s st"
  shows "verify_live_state ed dt c s st = Inr ()"
proof -
  have live: "live_ok ed dt c (window_start c st) (rs_last_sequence st) (rs_head_hash st) (bx_live s)" and st: "state_inv c st"
    using inv by (simp_all add: bb_inv_def)
  have fs: "list_live_frames s = map snd (bx_live s)" by (rule live_frames_sorted [OF live])
  have pol: "bb_policy_ok (bc_policy c)" using cfg by (simp add: bb_config_ok_def)
  show ?thesis
  proof (cases "rs_last_sequence st = 0")
    case True
    then have "rs_head_hash st = bb_zero_hash" "1 \<le> window_start c st" using st window_start_bounds(1) [OF pol st] by (simp_all add: state_inv_def)
    moreover from this have "bx_live s = []" using live True by (simp add: live_ok_def)
    ultimately show ?thesis using True fs by (simp add: verify_live_state_def rcheck_def)
  next
    case False
    note b = live_bounds [OF live window_start_bounds(3) [OF pol st False]]
    obtain h0 where h0: "verify_frames ed dt (public_key_hex ed c) (window_start c st) h0 (map snd (bx_live s)) = Inr (rs_head_hash st)"
      using live by (auto simp: live_ok_def)
    obtain f gs where f: "map snd (bx_live s) = f # gs" using b(1) by (cases "map snd (bx_live s)") auto
    have "bf_previous_frame_hash (hd (map snd (bx_live s))) = h0" using verify_frames_hd [OF h0 [unfolded f]] by (simp add: f)
    then have "verify_live_frames ed dt c (bf_sequence (hd (map snd (bx_live s)))) (bf_previous_frame_hash (hd (map snd (bx_live s)))) (map snd (bx_live s)) = Inr ()"
      using verify_live_frames_ok [OF h0 b(5)] by (simp only: b(2))
    moreover have "bf_frame_hash (last (map snd (bx_live s))) = rs_head_hash st" using verify_frames_last [OF h0] b(1) by (simp split: if_split_asm)
    moreover have "case rs_active_capture st of None \<Rightarrow> True | Some a \<Rightarrow> bf_sequence (hd (map snd (bx_live s))) \<le> ac_first_sequence a"
      unfolding b(2) by (simp add: window_start_def split: option.split)
    ultimately show ?thesis using b(1,3) by (simp only: verify_live_state_def fs Let_def) (simp add: rcheck_def)
  qed
qed

lemma passed_check: "ok \<Longrightarrow> abind (acheck ok e) f = f ()"
  by (rule ext) (simp add: action_simps)

lemma recorder_checked:
  assumes cfg: "bb_config_ok ed c" and "1 \<le> n" "field_length 1 128 b"
  shows "BlackBoxRecorder ed dt c b n clock s =
    (case boot_state c b n s of
       (Inl e, s') \<Rightarrow> (Inl e, s')
     | (Inr st, s') \<Rightarrow> (case verify_live_state ed dt c s' st of
         Inl e \<Rightarrow> (Inl e, s')
       | Inr _ \<Rightarrow> if map_option ac_remaining_post_frames (rs_active_capture st) = Some 0
           then case seal_active ed dt c clock Recovery \<lparr> br_store = s', br_state = st \<rparr> of
             (Inl e, r) \<Rightarrow> (Inl e, br_store r) | (Inr _, r) \<Rightarrow> (Inr (br_state r), br_store r)
           else (Inr st, s')))"
proof -
  have "starts_with ''ets-black-box:'' (bc_device_id c) \<and> length (bc_device_id c) \<le> 160" "field_length 1 256 (bc_signing_key_id c)"
    "length (bc_private_key c) = 32" "\<not> bp_require_production_backend (bc_policy c) \<or> bb_production_ready bb_memory_capabilities"
    using cfg by (simp_all add: bb_config_ok_def bb_device_id_ok_def field_length_def)
  with assms(2,3) have "BlackBoxRecorder ed dt c b n clock =
     abind (boot_state c b n) (\<lambda>st. abind (aread (\<lambda>s. verify_live_state ed dt c s st)) (\<lambda>_.
     if map_option ac_remaining_post_frames (rs_active_capture st) = Some 0
     then (\<lambda>s. case seal_active ed dt c clock Recovery \<lparr> br_store = s, br_state = st \<rparr> of
             (Inl e, r) \<Rightarrow> (Inl e, br_store r) | (Inr _, r) \<Rightarrow> (Inr (br_state r), br_store r))
     else alift (Inr st)))"
    unfolding BlackBoxRecorder_def by (simp only: passed_check)
  then show ?thesis
    by (cases "boot_state c b n s"; cases "fst (boot_state c b n s)")
      (auto simp: abind_def alift_def aread_def split: sum.split)
qed

lemma recorder_effect:
  assumes cfg: "bb_config_ok ed c" and inv: "store_inv ed dt c s" and boot: "boot_state c b n s = (Inr st, s')" and n: "1 \<le> n" and b: "field_length 1 128 b"
  shows "BlackBoxRecorder ed dt c b n clock s =
    (if map_option ac_remaining_post_frames (rs_active_capture st) = Some 0
     then case seal_active ed dt c clock Recovery \<lparr> br_store = s', br_state = st \<rparr> of
       (Inl e, r) \<Rightarrow> (Inl e, br_store r) | (Inr _, r) \<Rightarrow> (Inr (br_state r), br_store r)
     else (Inr st, s'))"
proof -
  have "verify_live_state ed dt c s' st = Inr ()" using boot_state_inv(1) [OF cfg inv boot] by (rule live_state_verifies [OF cfg])
  then show ?thesis unfolding recorder_checked [OF cfg n b] boot by simp
qed

section \<open>Reachable recorders\<close>

lemma recorder_inv:
  assumes cfg: "bb_config_ok ed c" and inv: "store_inv ed dt c s"
  shows "(\<forall>st s'. BlackBoxRecorder ed dt c b n clock s = (Inr st, s') \<longrightarrow> bb_inv ed dt c s' st) \<and>
    (\<forall>e s'. BlackBoxRecorder ed dt c b n clock s = (Inl e, s') \<longrightarrow> store_inv ed dt c s')"
proof (cases "1 \<le> n \<and> field_length 1 128 b")
  case False
  have "\<exists>e. BlackBoxRecorder ed dt c b n clock s = (Inl e, s)"
    using False
    by (cases "starts_with ''ets-black-box:'' (bc_device_id c) \<and> length (bc_device_id c) \<le> 160"; cases "field_length 1 256 (bc_signing_key_id c)";
        cases "field_length 1 128 b"; simp add: BlackBoxRecorder_def action_simps)
  then show ?thesis using inv by auto
next
  case True
  obtain x s' where boot: "boot_state c b n s = (x, s')" by (cases "boot_state c b n s")
  show ?thesis
  proof (cases x)
    case (Inl e)
    then have "s' = s" using boot_state_inv(2) [OF cfg inv] boot by blast
    moreover have "\<exists>e. BlackBoxRecorder ed dt c b n clock s = (Inl e, s')"
      using boot True Inl by (simp add: recorder_checked [OF cfg])
    ultimately show ?thesis using inv by auto
  next
    case (Inr st)
    then have inv': "bb_inv ed dt c s' st" using boot_state_inv(1) [OF cfg inv] boot by blast
    note eff = recorder_effect [OF cfg inv boot [unfolded Inr]]
    show ?thesis
    proof (cases "map_option ac_remaining_post_frames (rs_active_capture st) = Some 0")
      case False
      then have "BlackBoxRecorder ed dt c b n clock s = (Inr st, s')" using eff True by (simp only: if_False)
      then show ?thesis using inv' by simp
    next
      case pending: True
      then obtain a where a: "rs_active_capture st = Some a" by auto
      obtain y r where y: "seal_active ed dt c clock Recovery \<lparr> br_store = s', br_state = st \<rparr> = (y, r)" by (cases "seal_active ed dt c clock Recovery \<lparr> br_store = s', br_state = st \<rparr>")
      then have "inv_of ed dt c r" using seal_inv [OF cfg inv' a, of Recovery clock] by simp
      with eff True pending y show ?thesis by (cases y) (auto dest: bb_inv_store)
    qed
  qed
qed

lemma reachable_inv:
  assumes cfg: "bb_config_ok ed c" and "bb_reachable ed dt c s x"
  shows "store_inv ed dt c s \<and> opt_ok (bb_inv ed dt c s) x"
  using assms(2)
proof induction
  case new
  then show ?case by (simp add: store_inv_def bb_store_init_def opt_ok_def)
next
  case (boot s x b n clock st s')
  then have "bb_inv ed dt c s' st" using recorder_inv [OF cfg] by blast
  then show ?case by (simp add: opt_ok_def bb_inv_store)
next
  case (failed_boot s x b n clock e s')
  then have "store_inv ed dt c s'" using recorder_inv [OF cfg] by blast
  then show ?case by (simp add: opt_ok_def)
next
  case (command s st cmd r)
  then have "inv_of ed dt c r" using run_inv [OF cfg, of dt "\<lparr> br_store = s, br_state = st \<rparr>" cmd] by (simp add: opt_ok_def)
  then show ?case by (simp add: opt_ok_def bb_inv_store)
qed

lemma reachable_running: "bb_config_ok ed c \<Longrightarrow> bb_reachable ed dt c s (Some st) \<Longrightarrow> bb_inv ed dt c s st"
  using reachable_inv by (fastforce simp: opt_ok_def)

lemma reachable_stored:
  assumes "bb_config_ok ed c" "bb_reachable ed dt c s x"
  shows "bx_state s = Some st \<Longrightarrow> bb_inv ed dt c s st" "g \<in> set (bb_list_segments s) \<Longrightarrow> segment_good ed dt c g"
proof -
  have inv: "store_inv ed dt c s" using reachable_inv [OF assms] by simp
  then show "bx_state s = Some st \<Longrightarrow> bb_inv ed dt c s st" by (simp add: store_inv_def)
  show "g \<in> set (bb_list_segments s) \<Longrightarrow> segment_good ed dt c g"
    using inv by (cases "bx_state s") (auto simp: store_inv_def bb_list_segments_def bb_inv_def list_all_iff)
qed

lemma verify_frames_sequences: "verify_frames ed dt pk n h fs = Inr h' \<Longrightarrow> map bf_sequence fs = [n..n + int (length fs) - 1]"
proof (induction fs arbitrary: n h)
  case (Cons f fs)
  then have "map bf_sequence fs = [n + 1..n + 1 + int (length fs) - 1]" "bf_sequence f = n" by (auto split: if_split_asm)
  then show ?case using upto_rec1 [of n "n + int (length fs)"] by simp
qed simp

lemma valid_segment_frames:
  assumes "bv_valid (verify_segment ed dt g pk)"
  shows "sg_frames g \<noteq> []" "\<exists>h. verify_frames ed dt pk (bm_first_sequence (sg_manifest g)) (bm_predecessor_frame_hash (sg_manifest g)) (sg_frames g) = Inr h"
  using assms by (auto simp: verify_segment_def bb_failed_def Let_def split: if_split_asm sum.split_asm)

lemma segment_good_sequences:
  assumes "segment_good ed dt c g"
  shows "map bf_sequence (sg_frames g) = [bm_first_sequence (sg_manifest g)..bm_last_sequence (sg_manifest g)]"
proof -
  let ?m = "sg_manifest g"
  have valid: "bv_valid (verify_segment ed dt g (public_key_hex ed c))" and ok: "segment_ok g" using assms by (simp_all add: segment_good_def Let_def)
  obtain h where "verify_frames ed dt (public_key_hex ed c) (bm_first_sequence ?m) (bm_predecessor_frame_hash ?m) (sg_frames g) = Inr h"
    using valid_segment_frames(2) [OF valid] by blast
  then have seqs: "map bf_sequence (sg_frames g) = [bm_first_sequence ?m..bm_first_sequence ?m + int (length (sg_frames g)) - 1]" by (rule verify_frames_sequences)
  have ne: "sg_frames g \<noteq> []" using ok by (simp add: segment_ok_def)
  then have "last (map bf_sequence (sg_frames g)) = bm_first_sequence ?m + int (length (sg_frames g)) - 1"
    unfolding seqs by (simp add: upto_rec2 Suc_le_eq)
  then have "bm_last_sequence ?m = bm_first_sequence ?m + int (length (sg_frames g)) - 1" using ok by (simp only: last_map [OF ne]) (simp add: segment_ok_def)
  with seqs show ?thesis by simp
qed

end
