(* ===== verification/Ets_Black_Box_Spec.thy ===== *)
theory Ets_Black_Box_Spec
  imports Ets_Black_Box
begin

text \<open>
  What the black box recorder of \<open>Ets_Black_Box\<close> promises: complete and verifiable incident windows, restart without
  loss, a bounded live window, tamper evidence of segments; and the state in which it can no longer be started.
\<close>

section \<open>A sample recorder\<close>

definition sample_signing :: ed25519 where
  "sample_signing = \<lparr> ed_sign = (\<lambda>k m. sha256 (k @ m) @ sha256 (m @ k)), ed_public = (\<lambda>k. k),
     ed_accepts = (\<lambda>k s m. s = sha256 (k @ m) @ sha256 (m @ k)) \<rparr>"

definition sample_bb_config :: "int \<Rightarrow> bb_config" where
  "sample_bb_config post = \<lparr> bc_device_id = ''ets-black-box:unit-1'', bc_signing_key_id = ''k1'', bc_private_key = replicate 32 7,
     bc_policy = \<lparr> bp_pre_trigger_frames = 2, bp_post_trigger_frames = post, bp_max_observation_bytes = 4096, bp_require_production_backend = False \<rparr> \<rparr>"

definition sample_datetime :: "utc \<Rightarrow> string" where
  "sample_datetime t = ''t''"

definition sample_observation :: "int \<Rightarrow> utc \<Rightarrow> bb_observation" where
  "sample_observation n t = \<lparr> bo_device_id = ''ets-black-box:unit-1'', bo_boot_id = ''b1'', bo_observation_id = ''o'', bo_source_system = ''s'',
     bo_event_type = ''e'', bo_subject_ref = None, bo_correlation_id = None, bo_observed_at_utc = t, bo_monotonic_ns = n, bo_clock_quality = Clock_Unknown,
     bo_clock_error_bound_ms = None, bo_content_hash_sha256 = bb_zero_hash, bo_content_byte_length = None, bo_attributes = [(''a'', JInt 1)] \<rparr>"

definition sample_booted :: recorder_state where
  "sample_booted = \<lparr> rs_device_id = ''ets-black-box:unit-1'', rs_signing_key_id = ''k1'', rs_boot_id = ''b1'', rs_boot_counter = 1,
     rs_last_sequence = 0, rs_head_hash = bb_zero_hash, rs_last_monotonic_ns = None, rs_active_capture = None \<rparr>"

abbreviation sample_recorded :: "int \<Rightarrow> recorder_state \<Rightarrow> bb_observation \<Rightarrow> recorder_state" where
  "sample_recorded post \<equiv> recorded_state sample_signing sample_datetime (sample_bb_config post)"

abbreviation sample_frame :: "int \<Rightarrow> recorder_state \<Rightarrow> bb_observation \<Rightarrow> bb_frame" where
  "sample_frame post \<equiv> new_frame sample_signing sample_datetime (sample_bb_config post)"

definition sample_first :: "int \<Rightarrow> recorder_state" where
  "sample_first post = sample_recorded post sample_booted (sample_observation 1 10)"

definition sample_trigger :: bb_trigger where
  "sample_trigger = \<lparr> bt_trigger_id = ''t1'', bt_kind = Fault, bt_reason = ''r'', bt_triggered_at_utc = 15, bt_trigger_sequence = 1, bt_actor_ref = None \<rparr>"

definition sample_triggered :: "int \<Rightarrow> recorder_state" where
  "sample_triggered post = (sample_first post) \<lparr> rs_active_capture :=
     Some \<lparr> ac_trigger = sample_trigger, ac_first_sequence = 1, ac_remaining_post_frames = post \<rparr> \<rparr>"

definition sample_live :: "int \<Rightarrow> recorder_state \<Rightarrow> bb_store" where
  "sample_live post st = \<lparr> bx_state = Some st, bx_live = [(1, sample_frame post sample_booted (sample_observation 1 10))], bx_segments = [] \<rparr>"

lemma sample_config_ok: "0 \<le> post \<Longrightarrow> post \<le> 10 \<Longrightarrow> bb_config_ok sample_signing (sample_bb_config post)"
  by (simp add: bb_config_ok_def sample_signing_def sample_bb_config_def ed25519_ok_def bb_device_id_ok_def field_length_def starts_with_def bb_policy_ok_def)

lemma sample_observed_valid: "BlackBoxObservation (sample_observation n t) = Inr (sample_observation n t)" if "0 \<le> n"
proof -
  have "hex_bytes 32 bb_zero_hash" "lower bb_zero_hash = bb_zero_hash" using hash_text_zero by (simp_all add: hash_text_def)
  moreover have "length (canon (JObj [(''a'', JInt 1)])) \<le> 16384" by code_simp
  ultimately show ?thesis using that
    by (simp add: BlackBoxObservation_def observation_ok_def sample_observation_def bb_device_id_ok_def field_length_def starts_with_def opt_ok_def)
qed

lemma sample_observed_size:
  "length (canon (observation_json sample_datetime (sample_observation 1 t))) \<le> 4096"
  "length (canon (observation_json sample_datetime (sample_observation 2 t))) \<le> 4096"
  by code_simp+

lemma sample_boot: "BlackBoxRecorder sample_signing sample_datetime (sample_bb_config post) ''b1'' 1 clock bb_store_init =
    (Inr sample_booted, bb_store_init \<lparr> bx_state := Some sample_booted \<rparr>)"
  by (simp add: BlackBoxRecorder_def sample_bb_config_def action_simps field_length_def starts_with_def boot_state_def bb_store_init_def RecorderState_def
    bb_device_id_ok_def initialize_state_def sample_booted_def verify_live_state_def list_live_frames_def rcheck_def rbind_def)

lemma sample_reachable_boot: "bb_reachable sample_signing sample_datetime (sample_bb_config post) (bb_store_init \<lparr> bx_state := Some sample_booted \<rparr>) (Some sample_booted)"
  by (rule bb_reachable.boot [OF bb_reachable.new sample_boot])

lemma prune_effect:
  "prune_rolling_window c r = (Inr (), r \<lparr> br_store := (br_store r) \<lparr> bx_live := filter
     (\<lambda>(k, v). max 1 (rs_last_sequence (br_state r) - bp_pre_trigger_frames (bc_policy c) + 1) \<le> k) (bx_live (br_store r)) \<rparr> \<rparr>)"
  by (simp add: prune_rolling_window_def on_store_def prune_live_before_def action_simps)

lemma sample_fields [simp]:
  "bc_policy (sample_bb_config post) = \<lparr> bp_pre_trigger_frames = 2, bp_post_trigger_frames = post, bp_max_observation_bytes = 4096, bp_require_production_backend = False \<rparr>"
  "rs_last_sequence sample_booted = 0" "rs_active_capture sample_booted = None" "rs_last_sequence (sample_first post) = 1" "rs_active_capture (sample_first post) = None"
  by (simp_all add: sample_bb_config_def sample_booted_def sample_first_def recorded_state_def next_capture_def)

lemma sample_first_reachable:
  assumes "0 \<le> post" "post \<le> 10"
  shows "bb_reachable sample_signing sample_datetime (sample_bb_config post) (sample_live post (sample_first post)) (Some (sample_first post))"
proof -
  note cfg = sample_config_ok [OF assms]
  note inv = reachable_running [OF cfg sample_reachable_boot]
  have "recordable sample_datetime (sample_bb_config post) sample_booted (sample_observation 1 10)"
    using sample_observed_size(1) [of 10] by (simp add: recordable_def sample_bb_config_def sample_booted_def sample_observation_def del: of_nat_add)
  from record_effect(1) [OF cfg inv sample_observed_valid this, of "Aware 20 0"]
  have "bb_run sample_signing sample_datetime (sample_bb_config post) (Record_Observation (sample_observation 1 10) (Aware 20 0))
      \<lparr> br_store = bb_store_init \<lparr> bx_state := Some sample_booted \<rparr>, br_state = sample_booted \<rparr> =
    \<lparr> br_store = sample_live post (sample_first post), br_state = sample_first post \<rparr>"
    using sample_fields(5) [of post]
    by (simp add: after_commit_def abind_def prune_effect alift_def recorded_store_def bb_store_init_def sample_live_def sample_first_def [symmetric])
  from bb_reachable.command [OF sample_reachable_boot this] show ?thesis by simp
qed

lemma sample_first_inv:
  assumes "0 \<le> post" "post \<le> 10"
  shows "bb_inv sample_signing sample_datetime (sample_bb_config post) (sample_live post (sample_first post)) (sample_first post)"
  by (rule reachable_running [OF sample_config_ok sample_first_reachable]) (use assms in auto)

abbreviation sample_command :: bb_command where
  "sample_command \<equiv> Trigger_Capture (Aware 15 0) (Aware 20 0) ''t1'' Fault ''r'' None None"

lemma sample_trigger:
  assumes "0 \<le> post" "post \<le> 10"
  shows "bb_run sample_signing sample_datetime (sample_bb_config post) sample_command \<lparr> br_store = sample_live post (sample_first post), br_state = sample_first post \<rparr> =
    (let r = \<lparr> br_store = sample_live post (sample_triggered post), br_state = sample_triggered post \<rparr> in
     if post = 0 then snd (seal_active sample_signing sample_datetime (sample_bb_config post) (Aware 20 0) Post_Window_Complete r) else r)"
proof -
  have live: "list_live_frames (sample_live post (sample_first post)) = [sample_frame post sample_booted (sample_observation 1 10)]"
    by (simp add: sample_live_def list_live_frames_def)
  have t: "BlackBoxTrigger sample_trigger = Inr sample_trigger" by code_simp
  have "ActiveCaptureState \<lparr> ac_trigger = sample_trigger, ac_first_sequence = 1, ac_remaining_post_frames = post \<rparr> =
      Inr \<lparr> ac_trigger = sample_trigger, ac_first_sequence = 1, ac_remaining_post_frames = post \<rparr>"
    using assms by (simp add: ActiveCaptureState_def sample_trigger_def)
  moreover have "on_store (update_state st') \<lparr> br_store = sample_live post st, br_state = st' \<rparr> = (Inr (), \<lparr> br_store = sample_live post st', br_state = st' \<rparr>)" for st st'
    by (simp add: on_store_def update_state_def sample_live_def action_simps)
  moreover have "snd (abind m (\<lambda>s. alift (Inr (Some s))) r) = snd (m r)" for m :: "(bb_recorder, bb_segment) action" and r
    by (auto simp: abind_def alift_def split: prod.split sum.split)
  ultimately show ?thesis
    using t
    by (simp add: bb_trigger_capture_def Let_def action_simps live bb_normalize_utc_def utc_or_raise_def sample_trigger_def [symmetric] set_recorder_state_def
      abind_def [of "on_store _"] sample_triggered_def)
qed

lemma sample_triggered_reachable:
  assumes "0 < post" "post \<le> 10"
  shows "bb_reachable sample_signing sample_datetime (sample_bb_config post) (sample_live post (sample_triggered post)) (Some (sample_triggered post))"
  using bb_reachable.command [OF sample_first_reachable refl, of post sample_command] sample_trigger [of post] assms by (simp add: Let_def)

lemma sample_triggered_fields:
  "rs_active_capture (sample_triggered post) = Some \<lparr> ac_trigger = sample_trigger, ac_first_sequence = 1, ac_remaining_post_frames = post \<rparr>"
  "(sample_triggered post) \<lparr> rs_active_capture := None \<rparr> = sample_first post"
  using sample_fields(5) [of post] by (auto simp: sample_triggered_def)

definition sample_segment :: bb_segment where
  "sample_segment = (let fs = [sample_frame 0 sample_booted (sample_observation 1 10)] in
     \<lparr> sg_manifest = capture_manifest sample_signing sample_datetime (sample_bb_config 0)
         \<lparr> ac_trigger = sample_trigger, ac_first_sequence = 1, ac_remaining_post_frames = 0 \<rparr> fs 20 Post_Window_Complete, sg_frames = fs \<rparr>)"

definition sample_sealed :: bb_store where
  "sample_sealed = sealed_store (sample_bb_config 0) sample_segment (sample_first 0) (sample_live 0 (sample_triggered 0))"

lemma sample_sealed_reachable:
  "bb_reachable sample_signing sample_datetime (sample_bb_config 0) sample_sealed (Some (sample_first 0))" "bb_list_segments sample_sealed = [sample_segment]"
proof -
  let ?s = "sample_live 0 (sample_triggered 0)"
  have "bb_inv sample_signing sample_datetime (sample_bb_config 0) ?s (sample_triggered 0)"
    using sample_first_inv [of 0]
    by (simp add: bb_inv_def state_inv_def opt_ok_def capture_ok_def sample_triggered_def sample_trigger_def sample_live_def window_start_def)
  from seal_active_effect [OF sample_config_ok this sample_triggered_fields(1), of "Aware 20 0" Post_Window_Complete]
  have "snd (seal_active sample_signing sample_datetime (sample_bb_config 0) (Aware 20 0) Post_Window_Complete \<lparr> br_store = ?s, br_state = sample_triggered 0 \<rparr>) =
      \<lparr> br_store = sample_sealed, br_state = sample_first 0 \<rparr>"
    by (simp add: sample_triggered_fields(2) Let_def sample_sealed_def) (simp add: sample_live_def sample_segment_def Let_def)
  then show "bb_reachable sample_signing sample_datetime (sample_bb_config 0) sample_sealed (Some (sample_first 0))"
    using bb_reachable.command [OF sample_first_reachable refl, of 0 sample_command] sample_trigger [of 0] by (simp add: Let_def)
  show "bb_list_segments sample_sealed = [sample_segment]" by (simp add: bb_list_segments_def sample_sealed_def sealed_store_def sample_live_def)
qed

section \<open>Incident windows\<close>



text \<open>
  The live window of a running recorder is bounded. With no capture active it holds exactly the last configured number of
  frames, or all frames when fewer were recorded; while a capture waits for more frames, what it holds and still waits for
  is at most the two configured windows together.
\<close>

theorem live_window_bounded:
  assumes "bb_config_ok ed c" "bb_reachable ed dt c s (Some st)"
  defines "u \<equiv> recorder_status c \<lparr> br_store = s, br_state = st \<rparr>" and "pre \<equiv> bp_pre_trigger_frames (bc_policy c)"
  shows "case bs_remaining_post_frames u of
      None \<Rightarrow> bs_live_frame_count u = min (bs_last_sequence u) pre
    | Some n \<Rightarrow> n = 0 \<or> bs_live_frame_count u + n \<le> pre + bp_post_trigger_frames (bc_policy c)"
proof -
  have inv: "bb_inv ed dt c s st" by (rule reachable_running [OF assms(1,2)])
  then have live: "live_ok ed dt c (window_start c st) (rs_last_sequence st) (rs_head_hash st) (bx_live s)" and st: "state_inv c st" by (simp_all add: bb_inv_def)
  have pol: "bb_policy_ok (bc_policy c)" using assms(1) by (simp add: bb_config_ok_def)
  have "map fst (bx_live s) = [window_start c st..rs_last_sequence st]" using live by (simp add: live_ok_def)
  from arg_cong [OF this, of length] have "int (length (bx_live s)) = rs_last_sequence st - window_start c st + 1"
    using window_start_bounds(2) [OF pol st] by simp
  then have count: "bs_live_frame_count u = rs_last_sequence st - window_start c st + 1"
    by (simp add: u_def recorder_status_def Let_def live_frames_sorted [OF live])
  show ?thesis
  proof (cases "rs_active_capture st")
    case None
    with count st show ?thesis by (auto simp: u_def recorder_status_def Let_def window_start_def pre_def state_inv_def)
  next
    case (Some a)
    then have "capture_ok c st a" using st by (simp add: state_inv_def opt_ok_def)
    with Some count show ?thesis by (auto simp: u_def recorder_status_def Let_def window_start_def pre_def capture_ok_def)
  qed
qed

theorem live_window_bounded_witness:
  "bs_live_frame_count (recorder_status (sample_bb_config 3) \<lparr> br_store = sample_live 3 (sample_triggered 3), br_state = sample_triggered 3 \<rparr>) + 3 \<le> 2 + 3"
  using live_window_bounded [OF sample_config_ok sample_triggered_reachable [of 3]]
  by (simp add: recorder_status_def Let_def sample_triggered_def)

section \<open>Restarts\<close>



lemma sample_second:
  "\<exists>st. bb_reachable sample_signing sample_datetime (sample_bb_config 1) (recorded_store sample_signing sample_datetime (sample_bb_config 1) (sample_triggered 1) (sample_observation 2 5) (sample_live 1 (sample_triggered 1))) (Some st)"
proof -
  let ?c = "sample_bb_config 1" and ?ob = "sample_observation 2 5" and ?st = "sample_triggered 1"
  let ?s = "sample_live 1 ?st"
  let ?s' = "recorded_store sample_signing sample_datetime ?c ?st ?ob ?s" and ?st' = "sample_recorded 1 ?st ?ob"
  have cfg: "bb_config_ok sample_signing ?c" by (rule sample_config_ok) simp_all
  have reach: "bb_reachable sample_signing sample_datetime ?c ?s (Some ?st)" by (rule sample_triggered_reachable) simp_all
  note inv = reachable_running [OF cfg reach]
  have rec: "recordable sample_datetime ?c ?st ?ob"
    using sample_observed_size(2) [of 5]
    by (simp add: recordable_def sample_triggered_def sample_first_def recorded_state_def sample_booted_def) (simp add: sample_observation_def sample_bb_config_def)
  have a: "rs_active_capture ?st' = Some \<lparr> ac_trigger = sample_trigger, ac_first_sequence = 1, ac_remaining_post_frames = 0 \<rparr>"
    by (simp add: recorded_state_def sample_triggered_fields(1) next_capture_def)
  have "bb_inv sample_signing sample_datetime ?c ?s' ?st'"
    using rec sample_triggered_fields(1) by (intro recorded_inv [OF cfg inv]) (simp_all add: recordable_def)
  from seal_active_effect [OF cfg this a, of "Aware 20 0" Post_Window_Complete]
  have "seal_active sample_signing sample_datetime ?c (Aware 20 0) Post_Window_Complete \<lparr> br_store = ?s', br_state = ?st' \<rparr> =
      (Inl (ValidationError ''BlackBoxSegmentManifest''), \<lparr> br_store = ?s', br_state = ?st' \<rparr>)"
    by (simp add: recorded_store_def sample_live_def sample_observation_def)
  then have "bb_run sample_signing sample_datetime ?c (Record_Observation ?ob (Aware 20 0)) \<lparr> br_store = ?s, br_state = ?st \<rparr> = \<lparr> br_store = ?s', br_state = ?st' \<rparr>"
    using record_effect(1) [OF cfg inv sample_observed_valid rec, of "Aware 20 0"] by (simp add: after_commit_def a)
  from bb_reachable.command [OF reach this] show ?thesis by auto
qed

text \<open>
  C40. The recorder trusts the wall clock of its observations where it should not: \<^verbatim>\<open>record\<close> checks that the field \<^verbatim>\<open>monotonic_ns\<close> increases
  but not \<^verbatim>\<open>observed_at_utc\<close>, while the manifest of a segment requires its first observation time not to follow
  its last. When a completed capture's last observation carries an earlier wall-clock time than its first, no recorder can be
  started on the store again, whatever boot identifier, counter and clock it is given, and every attempt leaves the live
  frames and the capture as they were.
\<close>

theorem backward_clock_blocks_every_restart:
  assumes "bb_config_ok ed c" "bb_reachable ed dt c s x" "bx_state s = Some st" "rs_active_capture st = Some a" "ac_remaining_post_frames a = 0"
    and behind: "bo_observed_at_utc (bf_observation (last (list_live_frames s))) < bo_observed_at_utc (bf_observation (hd (list_live_frames s)))"
  shows "\<exists>e s'. BlackBoxRecorder ed dt c b n clock s = (Inl e, s') \<and> bx_live s' = bx_live s \<and> map_option rs_active_capture (bx_state s') = Some (Some a)"
proof -
  have inv: "bb_inv ed dt c s st" by (rule reachable_stored(1) [OF assms(1,2,3)])
  then have live: "list_live_frames s = map snd (bx_live s)" by (auto simp: bb_inv_def intro: live_frames_sorted)
  show ?thesis
  proof (cases "1 \<le> n \<and> field_length 1 128 b")
    case False
    have "\<exists>e. BlackBoxRecorder ed dt c b n clock s = (Inl e, s)"
      using False
      by (cases "starts_with ''ets-black-box:'' (bc_device_id c) \<and> length (bc_device_id c) \<le> 160"; cases "field_length 1 256 (bc_signing_key_id c)";
          cases "field_length 1 128 b"; simp add: BlackBoxRecorder_def action_simps)
    then show ?thesis using assms(3,4) by auto
  next
    case True
    show ?thesis
    proof (cases "n < rs_boot_counter st \<or> n = rs_boot_counter st \<and> b \<noteq> rs_boot_id st")
      case rollback: True
      then show ?thesis using True assms(3,4) by (auto simp: recorder_checked [OF assms(1)] boot_state_persisted [OF inv])
    next
      case False
      let ?st = "rebooted b n st" and ?s = "s \<lparr> bx_state := Some (rebooted b n st) \<rparr>"
      have boot: "boot_state c b n s = (Inr ?st, ?s)" using False by (auto simp: boot_state_persisted [OF inv])
      have act: "rs_active_capture ?st = Some a" using assms(4) by (simp add: rebooted_def)
      have "\<exists>e. seal_active ed dt c clock Recovery \<lparr> br_store = ?s, br_state = ?st \<rparr> = (Inl e, \<lparr> br_store = ?s, br_state = ?st \<rparr>)"
        unfolding seal_active_effect [OF assms(1) rebooted_inv [OF inv] act] using behind live by (cases clock) (simp_all add: Let_def)
      then show ?thesis using recorder_effect [OF assms(1) bb_inv_store [OF inv] boot] True act assms(5) by auto
    qed
  qed
qed

theorem backward_clock_blocks_every_restart_witness:
  "\<exists>e s'. BlackBoxRecorder sample_signing sample_datetime (sample_bb_config 1) ''b2'' 2 (Aware 100 0)
     (recorded_store sample_signing sample_datetime (sample_bb_config 1) (sample_triggered 1) (sample_observation 2 5) (sample_live 1 (sample_triggered 1))) = (Inl e, s')"
proof -
  let ?s = "recorded_store sample_signing sample_datetime (sample_bb_config 1) (sample_triggered 1) (sample_observation 2 5) (sample_live 1 (sample_triggered 1))"
  have last: "rs_last_sequence (sample_triggered 1) = 1" by (simp add: sample_triggered_def)
  obtain x where reach: "bb_reachable sample_signing sample_datetime (sample_bb_config 1) ?s (Some x)" using sample_second by blast
  have "list_live_frames ?s = [sample_frame 1 sample_booted (sample_observation 1 10), sample_frame 1 (sample_triggered 1) (sample_observation 2 5)]"
    by (simp add: list_live_frames_def recorded_store_def sample_live_def last)
  then have behind: "bo_observed_at_utc (bf_observation (last (list_live_frames ?s))) < bo_observed_at_utc (bf_observation (hd (list_live_frames ?s)))"
    by (simp add: sample_observation_def)
  have state: "bx_state ?s = Some (sample_recorded 1 (sample_triggered 1) (sample_observation 2 5))" by (simp add: recorded_store_def)
  have act: "rs_active_capture (sample_recorded 1 (sample_triggered 1) (sample_observation 2 5)) =
      Some \<lparr> ac_trigger = sample_trigger, ac_first_sequence = 1, ac_remaining_post_frames = 0 \<rparr>"
    by (simp add: recorded_state_def sample_triggered_fields(1) next_capture_def)
  show ?thesis
    using backward_clock_blocks_every_restart [OF sample_config_ok reach state act _ behind, where b = "''b2''" and n = 2 and clock = "Aware 100 0"] by auto
qed

section \<open>Tamper evidence\<close>

lemma verified_frame_hashes:
  "verify_frames ed dt pk n h fs = Inr h' \<Longrightarrow> map bf_frame_hash fs = map (\<lambda>f. canon_sha256 (payload_of_frame dt f)) fs"
  by (induction fs arbitrary: n h) (auto simp: verify_frame_def split: if_split_asm)

lemma valid_segment_hash:
  assumes "bv_valid (verify_segment ed dt g pk)"
  shows "bm_segment_hash (sg_manifest g) = canon_sha256 (segment_payload dt (sg_manifest g) (map bf_frame_hash (sg_frames g)))"
    "map bf_frame_hash (sg_frames g) = map (\<lambda>f. canon_sha256 (payload_of_frame dt f)) (sg_frames g)"
proof -
  show "bm_segment_hash (sg_manifest g) = canon_sha256 (segment_payload dt (sg_manifest g) (map bf_frame_hash (sg_frames g)))"
    using assms by (auto simp: verify_segment_def bb_failed_def Let_def split: if_split_asm sum.split_asm)
  obtain h where "verify_frames ed dt pk (bm_first_sequence (sg_manifest g)) (bm_predecessor_frame_hash (sg_manifest g)) (sg_frames g) = Inr h"
    using valid_segment_frames(2) [OF assms] by blast
  then show "map bf_frame_hash (sg_frames g) = map (\<lambda>f. canon_sha256 (payload_of_frame dt f)) (sg_frames g)" by (rule verified_frame_hashes)
qed

lemma segment_payload_ok: "json_ok (segment_payload dt m hs)"
  by (simp add: segment_payload_def trigger_json_def JOpt_def list_all_iff split: option.split)

lemma frame_payload_ok: "json_ok (JObj (bo_attributes (bf_observation f))) \<Longrightarrow> json_ok (payload_of_frame dt f)"
  by (simp add: payload_of_frame_def frame_payload_def observation_json_def JOpt_def JOptInt_def split: option.split)

lemma segment_payload_hashes:
  assumes "jnorm (segment_payload dt m hs) = jnorm (segment_payload dt m' hs')"
  shows "hs = hs'"
proof -
  have str: "map (jnorm \<circ> JStr) xs = map (jnorm \<circ> JStr) ys \<longleftrightarrow> xs = ys" for xs ys
    by (simp add: comp_def) (metis inj_map_eq_map injI json.inject(4))
  show ?thesis
    using jnorm_JObj_values [OF assms [unfolded segment_payload_def]] by (simp add: str del: jnorm.simps(2)) 
qed

definition segment_inputs :: "(utc \<Rightarrow> string) \<Rightarrow> bb_segment \<Rightarrow> byte list list" where
  "segment_inputs dt g = canon (segment_payload dt (sg_manifest g) (map bf_frame_hash (sg_frames g))) # map (\<lambda>f. canon (payload_of_frame dt f)) (sg_frames g)"

lemma frames_from_hashes:
  assumes "map (\<lambda>f. canon_sha256 (p f)) fs = map (\<lambda>f. canon_sha256 (p f)) gs" "\<forall>f \<in> set fs \<union> set gs. json_ok (p f)"
  shows "map (\<lambda>f. jnorm (p f)) fs = map (\<lambda>f. jnorm (p f)) gs \<or> collides (map (\<lambda>f. canon (p f)) fs) (map (\<lambda>f. canon (p f)) gs)"
  using assms
proof (induction fs arbitrary: gs)
  case (Cons f fs)
  then obtain g gs' where gs: "gs = g # gs'" by (cases gs) auto
  have "jnorm (p f) = jnorm (p g) \<or> sha256_collision (canon (p f), canon (p g))"
    using Cons.prems canon_sha256_eq_iff [of "p f" "p g"] by (simp add: gs)
  moreover have "map (\<lambda>f. jnorm (p f)) fs = map (\<lambda>f. jnorm (p f)) gs' \<or> collides (map (\<lambda>f. canon (p f)) fs) (map (\<lambda>f. canon (p f)) gs')"
    using Cons.prems by (intro Cons.IH) (simp_all add: gs)
  ultimately show ?case by (auto simp: gs collides_def)
qed simp

text \<open>
  The digest of a sealed segment fixes its content: two segments that verify, under whatever keys, and carry the same
  segment hash have the same frames, field by field up to the order of attribute keys, unless two of the hashed byte strings
  are a SHA-256 collision.
\<close>

theorem segment_hash_binds_frames:
  assumes "bv_valid (verify_segment ed dt g pk)" "bv_valid (verify_segment ed' dt g' pk')"
    and "bm_segment_hash (sg_manifest g) = bm_segment_hash (sg_manifest g')"
    and "\<forall>f \<in> set (sg_frames g) \<union> set (sg_frames g'). json_ok (JObj (bo_attributes (bf_observation f)))"
  shows "map (\<lambda>f. jnorm (payload_of_frame dt f)) (sg_frames g) = map (\<lambda>f. jnorm (payload_of_frame dt f)) (sg_frames g') \<or>
    collides (segment_inputs dt g) (segment_inputs dt g')"
proof -
  let ?p = "\<lambda>g. segment_payload dt (sg_manifest g) (map bf_frame_hash (sg_frames g))"
  have "jnorm (?p g) = jnorm (?p g') \<or> sha256_collision (canon (?p g), canon (?p g'))"
    using assms(3) valid_segment_hash(1) [OF assms(1)] valid_segment_hash(1) [OF assms(2)] canon_sha256_eq_iff [OF segment_payload_ok segment_payload_ok] by metis
  then show ?thesis
  proof
    assume "jnorm (?p g) = jnorm (?p g')"
    then have "map bf_frame_hash (sg_frames g) = map bf_frame_hash (sg_frames g')" by (rule segment_payload_hashes)
    then have "map (\<lambda>f. canon_sha256 (payload_of_frame dt f)) (sg_frames g) = map (\<lambda>f. canon_sha256 (payload_of_frame dt f)) (sg_frames g')"
      using valid_segment_hash(2) [OF assms(1)] valid_segment_hash(2) [OF assms(2)] by simp
    from frames_from_hashes [OF this] assms(4) frame_payload_ok show ?thesis by (auto simp: segment_inputs_def collides_def)
  qed (auto simp: segment_inputs_def collides_def)
qed

theorem segment_hash_binds_frames_witness:
  "map (\<lambda>f. jnorm (payload_of_frame sample_datetime f)) (sg_frames sample_segment) = map (\<lambda>f. jnorm (payload_of_frame sample_datetime f)) (sg_frames sample_segment) \<or>
   collides (segment_inputs sample_datetime sample_segment) (segment_inputs sample_datetime sample_segment)"
proof -
  have "segment_good sample_signing sample_datetime (sample_bb_config 0) sample_segment"
    by (rule reachable_stored(2) [OF _ sample_sealed_reachable(1)]) (simp_all add: sample_config_ok sample_sealed_reachable(2))
  then have valid: "bv_valid (verify_segment sample_signing sample_datetime sample_segment (public_key_hex sample_signing (sample_bb_config 0)))"
    by (simp add: segment_good_def Let_def)
  show ?thesis
    by (rule segment_hash_binds_frames [OF valid valid refl]) (simp add: sample_segment_def Let_def sample_observation_def)
qed

end
