(* ===== verification/Ets_Azure_Table.thy ===== *)
theory Ets_Azure_Table
  imports Ets_Sqlite_Store Ets_Linked Ets_Text "HOL-Library.AList"
begin

text \<open>
  The event store on Azure Tables (\<^verbatim>\<open>ets/core/azure_table_store.py\<close>): optimistic concurrency over one partition of a table.

  The table itself is \<^verbatim>\<open>AzureTableBackend\<close>, a record of its four calls on a state of its own; the locale \<open>table_service\<close> states what
  the store relies on (atomic transactions, entity tags that are never used twice), and the backend of the repository's tests,
  \<^verbatim>\<open>tests/unit/test_azure_table_event_store.py\<close>, interprets it. \<^verbatim>\<open>append\<close> makes several calls, between which other processes write:
  \<open>append_step\<close> is the same code cut at its calls, one call per step, and \<open>azure_reach\<close> interleaves any number of writers.
\<close>

section \<open>Tables\<close>

datatype cell = Cell_Str string | Cell_Int int | Cell_Bool bool | Cell_Other

type_synonym entity = "(string \<times> cell) list"

record versioned =
  ve_values :: entity
  ve_etag :: string

datatype table_action = Create entity | Replace entity string

fun action_entity :: "table_action \<Rightarrow> entity" where
  "action_entity (Create e) = e"
| "action_entity (Replace e t) = e"

definition cell_text :: "cell option \<Rightarrow> string" where
  "cell_text c = (case c of Some (Cell_Str s) \<Rightarrow> s | _ \<Rightarrow> [])"

definition entity_key :: "entity \<Rightarrow> string \<times> string" where
  "entity_key e = (cell_text (map_of e ''PartitionKey''), cell_text (map_of e ''RowKey''))"

record 's table_backend =
  tb_get :: "string \<Rightarrow> string \<Rightarrow> 's \<Rightarrow> versioned option"
  tb_create :: "entity \<Rightarrow> ('s, unit) action"
  tb_transact :: "table_action list \<Rightarrow> ('s, unit) action"
  tb_list_entries :: "string \<Rightarrow> 's \<Rightarrow> entity list"

section \<open>The store\<close>

definition azure_schema_version :: int where
  "azure_schema_version = 1"

definition left_pad :: "nat \<Rightarrow> string \<Rightarrow> string" where
  "left_pad k s = replicate (k - length s) (CHR ''0'') @ s"

definition entry_row_text :: "nat \<Rightarrow> string" where
  "entry_row_text n = ''entry-'' @ left_pad 20 (show_nat n)"

definition entry_row_key :: "int \<Rightarrow> string result" where
  "entry_row_key index = (if index < 0 then Inl (ValueError ''log index must be non-negative'') else Inr (entry_row_text (nat index)))"

definition event_row_key :: "string \<Rightarrow> string" where
  "event_row_key event_id = ''event-'' @ sha256_hex (utf8 event_id)"

definition field_invalid :: "string \<Rightarrow> exn" where
  "field_invalid key = StorageValidationError (''Azure Table entity field '' @ key @ '' is invalid'')"

definition required_str :: "entity \<Rightarrow> string \<Rightarrow> string result" where
  "required_str e key = (case map_of e key of Some (Cell_Str v) \<Rightarrow> if v \<noteq> [] then Inr v else Inl (field_invalid key) | _ \<Rightarrow> Inl (field_invalid key))"

definition required_int :: "entity \<Rightarrow> string \<Rightarrow> int result" where
  "required_int e key = (case map_of e key of Some (Cell_Int v) \<Rightarrow> Inr v | _ \<Rightarrow> Inl (field_invalid key))"

record azure_store =
  as_log_id :: string
  as_partition_key :: string
  as_max_append_retries :: int

definition meta_row :: "azure_store \<Rightarrow> int \<Rightarrow> entity" where
  "meta_row self next_index =
     [(''PartitionKey'', Cell_Str (as_partition_key self)), (''RowKey'', Cell_Str ''meta''), (''kind'', Cell_Str ''metadata''),
      (''schema_version'', Cell_Int azure_schema_version), (''log_id'', Cell_Str (as_log_id self)), (''next_index'', Cell_Int next_index)]"

definition validate_metadata :: "azure_store \<Rightarrow> versioned option \<Rightarrow> versioned result" where
  "validate_metadata self m =
     rbind (rget (StorageValidationError ''Azure Table log metadata is missing'') m) (\<lambda>metadata.
     let v = ve_values metadata in
     rbind (rcheck (map_of v ''kind'' = Some (Cell_Str ''metadata'')) (StorageValidationError ''Azure Table metadata row has invalid kind'')) (\<lambda>_.
     rbind (rcheck (map_of v ''log_id'' = Some (Cell_Str (as_log_id self))) (StorageValidationError ''Azure Table metadata log_id mismatch'')) (\<lambda>_.
     rbind (required_int v ''schema_version'') (\<lambda>version.
     rbind (rcheck (version = azure_schema_version) (StorageValidationError ''unsupported Azure Table schema version'')) (\<lambda>_.
     rbind (required_int v ''next_index'') (\<lambda>next_index.
     rbind (rcheck (0 \<le> next_index) (StorageValidationError ''Azure Table metadata next_index is invalid'')) (\<lambda>_.
     rbind (rcheck (ve_etag metadata \<noteq> []) (StorageValidationError ''Azure Table metadata ETag is missing'')) (\<lambda>_.
     Inr metadata))))))))"

definition azure_load_metadata :: "'s table_backend \<Rightarrow> azure_store \<Rightarrow> 's \<Rightarrow> versioned result" where
  "azure_load_metadata b self s = validate_metadata self (tb_get b (as_partition_key self) ''meta'' s)"

definition ensure_metadata :: "'s table_backend \<Rightarrow> azure_store \<Rightarrow> ('s, unit) action" where
  "ensure_metadata b self =
     abind (\<lambda>s. if tb_get b (as_partition_key self) ''meta'' s = None
        then case tb_create b (meta_row self 0) s of
            (Inl (AzureTableConflictError m), s') \<Rightarrow> (Inr (), s')
          | r \<Rightarrow> r
        else (Inr (), s)) (\<lambda>_.
     abind (aread (azure_load_metadata b self)) (\<lambda>_. alift (Inr ())))"

definition AzureTableEventStore :: "'s table_backend \<Rightarrow> string \<Rightarrow> int \<Rightarrow> ('s, azure_store) action" where
  "AzureTableEventStore b log_id max_append_retries =
     (let normalized = strip log_id;
          self = \<lparr> as_log_id = normalized, as_partition_key = ''log-'' @ take 32 (sha256_hex (utf8 normalized)), as_max_append_retries = max_append_retries \<rparr> in
      abind (acheck (normalized \<noteq> [] \<and> length normalized \<le> 256) (ValueError ''log_id must be between 1 and 256 characters'')) (\<lambda>_.
      abind (acheck (1 \<le> max_append_retries \<and> max_append_retries \<le> 64) (ValueError ''max_append_retries must be between 1 and 64'')) (\<lambda>_.
      abind (ensure_metadata b self) (\<lambda>_. alift (Inr self)))))"

definition validate_event_index :: "entity \<Rightarrow> string \<Rightarrow> unit result" where
  "validate_event_index e expected_event_id =
     rbind (rcheck (map_of e ''kind'' = Some (Cell_Str ''event_index'')) (StorageValidationError ''Azure Table event-index row has invalid kind'')) (\<lambda>_.
     rbind (required_str e ''event_id'') (\<lambda>event_id.
     rbind (rcheck (event_id = expected_event_id) (StorageValidationError ''Azure Table event-id index hash collision detected'')) (\<lambda>_.
     rbind (required_int e ''log_index'') (\<lambda>index.
     rcheck (0 \<le> index) (StorageValidationError ''Azure Table event-id index is invalid'')))))"

section \<open>Appends\<close>

text \<open>What \<^verbatim>\<open>append\<close> computes before its loop.\<close>

record append_plan =
  pl_event :: evidence_event
  pl_event_json :: string
  pl_event_hash :: string
  pl_leaf_hash :: string

definition plan_append :: "(utc \<Rightarrow> string) \<Rightarrow> (evidence_event \<Rightarrow> string) \<Rightarrow> evidence_event \<Rightarrow> append_plan result" where
  "plan_append dt to_json event =
     rbind (canonical_sha256 (py_of_json (hashable_payload dt event))) (\<lambda>event_hash.
     rbind (leaf_hash_for_event_hash event_hash) (\<lambda>leaf_hash.
     Inr \<lparr> pl_event = event, pl_event_json = to_json event, pl_event_hash = event_hash, pl_leaf_hash = leaf_hash \<rparr>))"

definition entry_row :: "azure_store \<Rightarrow> append_plan \<Rightarrow> nat \<Rightarrow> entity" where
  "entry_row self p index =
     [(''PartitionKey'', Cell_Str (as_partition_key self)), (''RowKey'', Cell_Str (entry_row_text index)), (''kind'', Cell_Str ''entry''),
      (''log_index'', Cell_Int (int index)), (''event_json'', Cell_Str (pl_event_json p)), (''event_hash'', Cell_Str (pl_event_hash p)),
      (''leaf_hash'', Cell_Str (pl_leaf_hash p))]"

definition event_index_row :: "azure_store \<Rightarrow> string \<Rightarrow> nat \<Rightarrow> entity" where
  "event_index_row self event_id index =
     [(''PartitionKey'', Cell_Str (as_partition_key self)), (''RowKey'', Cell_Str (event_row_key event_id)), (''kind'', Cell_Str ''event_index''),
      (''event_id'', Cell_Str event_id), (''log_index'', Cell_Int (int index))]"

definition append_actions :: "azure_store \<Rightarrow> append_plan \<Rightarrow> nat \<Rightarrow> string \<Rightarrow> table_action list" where
  "append_actions self p index etag =
     [Replace (meta_row self (int index + 1)) etag, Create (entry_row self p index), Create (event_index_row self (ev_event_id (pl_event p)) index)]"

definition plan_entry :: "append_plan \<Rightarrow> nat \<Rightarrow> log_entry" where
  "plan_entry p index = \<lparr> le_log_index = int index, le_event = pl_event p, le_event_hash = pl_event_hash p, le_leaf_hash = pl_leaf_hash p \<rparr>"

text \<open>The look-up of the event before an attempt and after a conflict.\<close>

definition probe_event :: "'s table_backend \<Rightarrow> azure_store \<Rightarrow> append_plan \<Rightarrow> 's \<Rightarrow> unit result" where
  "probe_event b self p s =
     (case tb_get b (as_partition_key self) (event_row_key (ev_event_id (pl_event p))) s of
        None \<Rightarrow> Inr ()
      | Some duplicate \<Rightarrow>
          rbind (validate_event_index (ve_values duplicate) (ev_event_id (pl_event p))) (\<lambda>_.
          Inl (DuplicateEventError (''event_id already exists: '' @ ev_event_id (pl_event p)))))"

definition load_next :: "'s table_backend \<Rightarrow> azure_store \<Rightarrow> 's \<Rightarrow> (nat \<times> string) result" where
  "load_next b self s =
     rbind (azure_load_metadata b self s) (\<lambda>metadata.
     rbind (required_int (ve_values metadata) ''next_index'') (\<lambda>index.
     Inr (nat index, ve_etag metadata)))"

definition retries_exceeded :: exn where
  "retries_exceeded = StorageValidationError ''Azure Table append exceeded bounded concurrency retries''"

fun append_attempts :: "'s table_backend \<Rightarrow> azure_store \<Rightarrow> append_plan \<Rightarrow> nat \<Rightarrow> ('s, log_entry) action" where
  "append_attempts b self p 0 = alift (Inl retries_exceeded)"
| "append_attempts b self p (Suc k) =
     abind (aread (probe_event b self p)) (\<lambda>_.
     abind (aread (load_next b self)) (\<lambda>(index, etag) s.
       case tb_transact b (append_actions self p index etag) s of
         (Inr _, s') \<Rightarrow> (Inr (plan_entry p index), s')
       | (Inl (AzureTableConflictError _), s') \<Rightarrow> abind (aread (probe_event b self p)) (\<lambda>_. append_attempts b self p k) s'
       | (Inl e, s') \<Rightarrow> (Inl e, s')))"

definition azure_append :: "'s table_backend \<Rightarrow> (utc \<Rightarrow> string) \<Rightarrow> (evidence_event \<Rightarrow> string) \<Rightarrow> azure_store \<Rightarrow> evidence_event \<Rightarrow> ('s, log_entry) action" where
  "azure_append b dt to_json self event =
     abind (alift (plan_append dt to_json event)) (\<lambda>p. append_attempts b self p (nat (as_max_append_retries self)))"

section \<open>Reads\<close>

definition entity_to_entry :: "(utc \<Rightarrow> string) \<Rightarrow> (string \<Rightarrow> evidence_event result) \<Rightarrow> entity \<Rightarrow> int \<Rightarrow> log_entry result" where
  "entity_to_entry dt of_json e expected_index =
     rbind (rcheck (map_of e ''kind'' = Some (Cell_Str ''entry'')) (StorageValidationError ''Azure Table event row has invalid kind'')) (\<lambda>_.
     rbind (required_int e ''log_index'') (\<lambda>log_index.
     rbind (rcheck (log_index = expected_index) (StorageValidationError ''Azure Table event row index mismatch'')) (\<lambda>_.
     rbind (required_str e ''event_json'') (\<lambda>event_json.
     rbind (case of_json event_json of
              Inl (ValidationError _) \<Rightarrow> Inl (StorageValidationError ''stored event JSON failed validation'')
            | r \<Rightarrow> r) (\<lambda>event.
     rbind (required_str e ''event_hash'') (\<lambda>stored_event_hash.
     rbind (required_str e ''leaf_hash'') (\<lambda>stored_leaf_hash.
     rbind (canonical_sha256 (py_of_json (hashable_payload dt event))) (\<lambda>event_hash.
     rbind (leaf_hash_for_event_hash event_hash) (\<lambda>leaf_hash.
     rbind (rcheck (\<not> (event_hash \<noteq> stored_event_hash \<or> leaf_hash \<noteq> stored_leaf_hash))
       (StorageValidationError ''stored event hashes do not match event JSON'')) (\<lambda>_.
     Inr \<lparr> le_log_index = expected_index, le_event = event, le_event_hash = stored_event_hash, le_leaf_hash = stored_leaf_hash \<rparr>))))))))))"

definition azure_get_by_index ::
  "'s table_backend \<Rightarrow> (utc \<Rightarrow> string) \<Rightarrow> (string \<Rightarrow> evidence_event result) \<Rightarrow> azure_store \<Rightarrow> int \<Rightarrow> 's \<Rightarrow> log_entry result" where
  "azure_get_by_index b dt of_json self index s =
     (if index < 0 then Inl (EventNotFoundError (''log index not found: '' @ show_int index))
      else rbind (entry_row_key index) (\<lambda>row_key.
        case tb_get b (as_partition_key self) row_key s of
          None \<Rightarrow> Inl (EventNotFoundError (''log index not found: '' @ show_int index))
        | Some e \<Rightarrow> entity_to_entry dt of_json (ve_values e) index))"

definition azure_get_by_event_id ::
  "'s table_backend \<Rightarrow> (utc \<Rightarrow> string) \<Rightarrow> (string \<Rightarrow> evidence_event result) \<Rightarrow> azure_store \<Rightarrow> string \<Rightarrow> 's \<Rightarrow> log_entry result" where
  "azure_get_by_event_id b dt of_json self event_id s =
     (case tb_get b (as_partition_key self) (event_row_key event_id) s of
        None \<Rightarrow> Inl (EventNotFoundError (''event_id not found: '' @ event_id))
      | Some e \<Rightarrow>
          rbind (validate_event_index (ve_values e) event_id) (\<lambda>_.
          rbind (required_int (ve_values e) ''log_index'') (\<lambda>index. azure_get_by_index b dt of_json self index s)))"

text \<open>\<^verbatim>\<open>list_entries\<close> makes two calls: the metadata is read in one state of the table, the rows in a later one.\<close>

definition expected_count :: "'s table_backend \<Rightarrow> azure_store \<Rightarrow> 's \<Rightarrow> int result" where
  "expected_count b self s = rbind (azure_load_metadata b self s) (\<lambda>metadata. required_int (ve_values metadata) ''next_index'')"

definition listed_rows ::
  "'s table_backend \<Rightarrow> (utc \<Rightarrow> string) \<Rightarrow> (string \<Rightarrow> evidence_event result) \<Rightarrow> azure_store \<Rightarrow> int \<Rightarrow> 's \<Rightarrow> log_entry list result" where
  "listed_rows b dt of_json self n s =
     (let entities = tb_list_entries b (as_partition_key self) s in
      rbind (rcheck (int (length entities) = n) (StorageValidationError ''Azure Table log metadata does not match entry count'')) (\<lambda>_.
      rbind (rmap (\<lambda>(index, e). entity_to_entry dt of_json e (int index)) (enumerate 0 entities)) (\<lambda>entries.
      rbind (rcheck (map le_log_index entries = [0..n - 1]) (StorageValidationError ''Azure Table log entries are not contiguous'')) (\<lambda>_.
      Inr entries))))"

definition azure_list_entries ::
  "'s table_backend \<Rightarrow> (utc \<Rightarrow> string) \<Rightarrow> (string \<Rightarrow> evidence_event result) \<Rightarrow> azure_store \<Rightarrow> 's \<Rightarrow> log_entry list result" where
  "azure_list_entries b dt of_json self s = rbind (expected_count b self s) (\<lambda>n. listed_rows b dt of_json self n s)"

definition azure_schema_version_of :: "'s table_backend \<Rightarrow> azure_store \<Rightarrow> 's \<Rightarrow> int result" where
  "azure_schema_version_of b self s = rbind (azure_load_metadata b self s) (\<lambda>metadata. required_int (ve_values metadata) ''schema_version'')"

section \<open>One call per step\<close>

datatype append_phase = Probe nat | Load nat | Commit nat nat string | Reprobe nat | Finished "log_entry result"

fun append_begin :: "nat \<Rightarrow> append_phase" where
  "append_begin 0 = Finished (Inl retries_exceeded)"
| "append_begin (Suc k) = Probe k"

fun append_step :: "'s table_backend \<Rightarrow> azure_store \<Rightarrow> append_plan \<Rightarrow> append_phase \<times> 's \<Rightarrow> append_phase \<times> 's" where
  "append_step b self p (Probe k, s) = (case probe_event b self p s of Inl e \<Rightarrow> Finished (Inl e) | Inr _ \<Rightarrow> Load k, s)"
| "append_step b self p (Load k, s) = (case load_next b self s of Inl e \<Rightarrow> Finished (Inl e) | Inr (index, etag) \<Rightarrow> Commit k index etag, s)"
| "append_step b self p (Commit k index etag, s) =
     (case tb_transact b (append_actions self p index etag) s of
        (Inr _, s') \<Rightarrow> (Finished (Inr (plan_entry p index)), s')
      | (Inl (AzureTableConflictError _), s') \<Rightarrow> (Reprobe k, s')
      | (Inl e, s') \<Rightarrow> (Finished (Inl e), s'))"
| "append_step b self p (Reprobe k, s) = (case probe_event b self p s of Inl e \<Rightarrow> Finished (Inl e) | Inr _ \<Rightarrow> append_begin k, s)"
| "append_step b self p (Finished r, s) = (Finished r, s)"

text \<open>Run without interference, the steps are the code of \<^verbatim>\<open>append\<close>.\<close>

lemma append_steps_alone:
  "\<exists>n. ((append_step b self p) ^^ n) (append_begin k, s) = (Finished (fst (append_attempts b self p k s)), snd (append_attempts b self p k s))"
proof (induction k arbitrary: s)
  case 0
  show ?case by (rule exI [of _ 0]) (simp add: alift_def)
next
  case (Suc k)
  let ?step = "append_step b self p"
  show ?case
  proof (cases "probe_event b self p s")
    case (Inl e)
    then show ?thesis by (intro exI [of _ 1]) (simp add: action_simps)
  next
    case probed: (Inr u)
    show ?thesis
    proof (cases "load_next b self s")
      case (Inl e)
      then show ?thesis using probed by (intro exI [of _ 2]) (simp add: action_simps numeral_2_eq_2)
    next
      case (Inr m)
      obtain index etag where m: "m = (index, etag)" by (cases m)
      obtain r s' where t: "tb_transact b (append_actions self p index etag) s = (r, s')" by (cases "tb_transact b (append_actions self p index etag) s")
      have 3: "(?step ^^ 3) (append_begin (Suc k), s) = ?step (Commit k index etag, s)"
        using probed Inr m by (simp add: numeral_3_eq_3)
      show ?thesis
      proof (cases "\<exists>x. r = Inl (AzureTableConflictError x)")
        case False
        then have "?step (Commit k index etag, s) = (Finished (fst (append_attempts b self p (Suc k) s)), snd (append_attempts b self p (Suc k) s))"
          using probed Inr m t by (auto simp: action_simps split: sum.split exn.split)
        with 3 show ?thesis by (intro exI [of _ 3]) simp
      next
        case True
        then have conflict: "?step (Commit k index etag, s) = (Reprobe k, s')"
          "append_attempts b self p (Suc k) s = abind (aread (probe_event b self p)) (\<lambda>_. append_attempts b self p k) s'"
          using probed Inr m t by (auto simp: action_simps)
        have 4: "(?step ^^ Suc 3) (append_begin (Suc k), s) = ?step (Reprobe k, s')" by (simp only: funpow.simps o_apply 3 conflict(1))
        show ?thesis
        proof (cases "probe_event b self p s'")
          case (Inl e)
          with 4 conflict(2) show ?thesis by (intro exI [of _ "Suc 3"]) (simp add: action_simps)
        next
          case (Inr u')
          obtain n where n: "(?step ^^ n) (append_begin k, s') = (Finished (fst (append_attempts b self p k s')), snd (append_attempts b self p k s'))"
            using Suc.IH by blast
          have "(?step ^^ (n + Suc 3)) (append_begin (Suc k), s) = (?step ^^ n) ((?step ^^ Suc 3) (append_begin (Suc k), s))" by (simp add: funpow_add)
          also have "\<dots> = (?step ^^ n) (append_begin k, s')" using 4 Inr by simp
          finally show ?thesis using n conflict(2) Inr by (intro exI [of _ "n + Suc 3"]) (simp add: action_simps)
        qed
      qed
    qed
  qed
qed

section \<open>The contract of the table service\<close>

definition table_view :: "'s table_backend \<Rightarrow> 's \<Rightarrow> string \<times> string \<Rightarrow> versioned option" where
  "table_view b s k = tb_get b (fst k) (snd k) s"

fun applies :: "(string \<times> string \<Rightarrow> versioned option) \<Rightarrow> table_action \<Rightarrow> bool" where
  "applies v (Create e) \<longleftrightarrow> v (entity_key e) = None"
| "applies v (Replace e t) \<longleftrightarrow> (\<exists>x. v (entity_key e) = Some x \<and> ve_etag x = t)"

abbreviation action_key :: "table_action \<Rightarrow> string \<times> string" where
  "action_key a \<equiv> entity_key (action_entity a)"

text \<open>The rows a transaction writes, with the tags \<open>f\<close> they get.\<close>

definition written :: "table_action list \<Rightarrow> (string \<times> string \<Rightarrow> string) \<Rightarrow> string \<times> string \<Rightarrow> versioned option" where
  "written acts f k = map_option (\<lambda>e. \<lparr> ve_values = e, ve_etag = f k \<rparr>) (map_of (map (\<lambda>a. (action_key a, action_entity a)) acts) k)"

text \<open>
  \<open>issued\<close> is the set of entity tags handed out so far. A transaction on different rows is carried out as a whole when every row
  to create is absent and every row to replace still has the tag given, and otherwise raises and changes nothing.
\<close>

locale table_service =
  fixes b :: "'s table_backend" and valid :: "'s \<Rightarrow> bool" and issued :: "'s \<Rightarrow> string set"
  assumes etag_issued: "valid s \<Longrightarrow> tb_get b p r s = Some v \<Longrightarrow> ve_etag v \<in> issued s \<and> ve_etag v \<noteq> []"
    and create_new: "valid s \<Longrightarrow> table_view b s (entity_key e) = None \<Longrightarrow>
      \<exists>s' t. tb_create b e s = (Inr (), s') \<and> valid s' \<and> issued s \<subseteq> issued s' \<and> table_view b s' = (table_view b s)(entity_key e \<mapsto> \<lparr> ve_values = e, ve_etag = t \<rparr>)"
    and create_exists: "valid s \<Longrightarrow> table_view b s (entity_key e) \<noteq> None \<Longrightarrow>
      \<exists>s' m. tb_create b e s = (Inl (AzureTableConflictError m), s') \<and> valid s' \<and> issued s \<subseteq> issued s' \<and> table_view b s' = table_view b s"
    and transact_all: "valid s \<Longrightarrow> distinct (map action_key acts) \<Longrightarrow> list_all (applies (table_view b s)) acts \<Longrightarrow>
      \<exists>s' f. tb_transact b acts s = (Inr (), s') \<and> valid s' \<and> issued s \<subseteq> issued s' \<and> range f \<inter> issued s = {} \<and> table_view b s' = table_view b s ++ written acts f"
    and transact_conflict: "valid s \<Longrightarrow> distinct (map action_key acts) \<Longrightarrow> \<not> list_all (applies (table_view b s)) acts \<Longrightarrow>
      \<exists>s' m. tb_transact b acts s = (Inl (AzureTableConflictError m), s') \<and> valid s' \<and> issued s \<subseteq> issued s' \<and> table_view b s' = table_view b s"
    and listing: "valid s \<Longrightarrow> \<exists>rs. distinct rs \<and> sorted rs \<and> set rs = {r. starts_with ''entry-'' r \<and> tb_get b p r s \<noteq> None} \<and>
      tb_list_entries b p s = map (\<lambda>r. ve_values (the (tb_get b p r s))) rs"

section \<open>The backend of the tests\<close>

record fake_table =
  ft_version :: nat
  ft_entities :: "((string \<times> string) \<times> versioned) list"

definition fake_etag :: "nat \<Rightarrow> string" where
  "fake_etag n = ''etag-'' @ show_nat n"

definition fake_get :: "string \<Rightarrow> string \<Rightarrow> fake_table \<Rightarrow> versioned option" where
  "fake_get partition_key row_key s = map_of (ft_entities s) (partition_key, row_key)"

definition fake_create :: "entity \<Rightarrow> (fake_table, unit) action" where
  "fake_create e s =
     (if entity_key e \<in> fst ` set (ft_entities s) then (Inl (AzureTableConflictError ''exists''), s)
      else (Inr (), \<lparr> ft_version = ft_version s + 1,
              ft_entities = AList.update (entity_key e) \<lparr> ve_values = e, ve_etag = fake_etag (ft_version s + 1) \<rparr> (ft_entities s) \<rparr>))"

fun fake_stage :: "table_action list \<Rightarrow> nat \<Rightarrow> ((string \<times> string) \<times> versioned) list \<Rightarrow> ((string \<times> string) \<times> versioned) list result \<times> nat" where
  "fake_stage [] n staged = (Inr staged, n)"
| "fake_stage (Create e # acts) n staged =
     (if map_of staged (entity_key e) \<noteq> None then (Inl (AzureTableConflictError ''create conflict''), n)
      else fake_stage acts (n + 1) (AList.update (entity_key e) \<lparr> ve_values = e, ve_etag = fake_etag (n + 1) \<rparr> staged))"
| "fake_stage (Replace e t # acts) n staged =
     (if map_option ve_etag (map_of staged (entity_key e)) \<noteq> Some t then (Inl (AzureTableConflictError ''etag conflict''), n)
      else fake_stage acts (n + 1) (AList.update (entity_key e) \<lparr> ve_values = e, ve_etag = fake_etag (n + 1) \<rparr> staged))"

definition fake_transact :: "table_action list \<Rightarrow> (fake_table, unit) action" where
  "fake_transact acts s =
     (case fake_stage acts (ft_version s) (ft_entities s) of
        (Inl e, n) \<Rightarrow> (Inl e, s \<lparr> ft_version := n \<rparr>)
      | (Inr staged, n) \<Rightarrow> (Inr (), \<lparr> ft_version = n, ft_entities = staged \<rparr>))"

definition fake_list_entries :: "string \<Rightarrow> fake_table \<Rightarrow> entity list" where
  "fake_list_entries partition_key s =
     sort_key (\<lambda>row. cell_text (map_of row ''RowKey''))
       (map (\<lambda>(k, v). ve_values v) (filter (\<lambda>((p, r), v). p = partition_key \<and> starts_with ''entry-'' r) (ft_entities s)))"

definition fake_backend :: "fake_table table_backend" where
  "fake_backend = \<lparr> tb_get = fake_get, tb_create = fake_create, tb_transact = fake_transact, tb_list_entries = fake_list_entries \<rparr>"

definition fake_valid :: "fake_table \<Rightarrow> bool" where
  "fake_valid s \<longleftrightarrow> distinct (map fst (ft_entities s)) \<and>
     list_all (\<lambda>(k, v). entity_key (ve_values v) = k \<and> ve_etag v \<in> fake_etag ` {..ft_version s}) (ft_entities s)"

definition fake_issued :: "fake_table \<Rightarrow> string set" where
  "fake_issued s = fake_etag ` {..ft_version s}"

lemma fake_etag_inject [simp]: "fake_etag m = fake_etag n \<longleftrightarrow> m = n"
  by (simp add: fake_etag_def show_nat_inject)

lemma table_view_fake: "table_view fake_backend s = map_of (ft_entities s)"
  by (rule ext) (simp add: table_view_def fake_backend_def fake_get_def)

text \<open>One staged action, whichever it is.\<close>

lemma fake_stage_Cons:
  "fake_stage (a # acts) n staged =
    (if applies (map_of staged) a then fake_stage acts (n + 1) (AList.update (action_key a) \<lparr> ve_values = action_entity a, ve_etag = fake_etag (n + 1) \<rparr> staged)
     else (Inl (AzureTableConflictError (case a of Create e \<Rightarrow> ''create conflict'' | Replace e t \<Rightarrow> ''etag conflict'')), n))"
  by (cases a) auto

lemma fake_stage_valid:
  assumes "fake_valid \<lparr> ft_version = n, ft_entities = staged \<rparr>"
  shows "fake_valid \<lparr> ft_version = n + 1, ft_entities = AList.update (entity_key e) \<lparr> ve_values = e, ve_etag = fake_etag (n + 1) \<rparr> staged \<rparr>"
proof -
  have "set (AList.update k v xs) \<subseteq> insert (k, v) (set xs)" for k and v :: versioned and xs by (induction xs) auto
  from this [of "entity_key e" "\<lparr> ve_values = e, ve_etag = fake_etag (n + 1) \<rparr>" staged] assms show ?thesis
    by (fastforce simp: fake_valid_def list_all_iff distinct_update)
qed

lemma applies_other: "action_key a \<noteq> k \<Longrightarrow> applies (v(k \<mapsto> x)) a = applies v a"
  by (cases a) auto

lemma fake_valid_later: "fake_valid s \<Longrightarrow> ft_version s \<le> m \<Longrightarrow> fake_valid (s \<lparr> ft_version := m \<rparr>)"
  by (force simp: fake_valid_def list_all_iff)

lemma fake_stage_all:
  assumes "distinct (map action_key acts)" "list_all (applies (map_of staged)) acts" "fake_valid \<lparr> ft_version = n, ft_entities = staged \<rparr>"
  shows "\<exists>staged' f m. fake_stage acts n staged = (Inr staged', m) \<and> n \<le> m \<and> range f \<subseteq> fake_etag ` {n<..} \<and>
    fake_valid \<lparr> ft_version = m, ft_entities = staged' \<rparr> \<and> map_of staged' = map_of staged ++ written acts f"
  using assms
proof (induction acts arbitrary: n staged)
  case Nil
  have "written [] f = Map.empty" for f by (simp add: fun_eq_iff written_def)
  with Nil show ?case by (intro exI [of _ staged] exI [of _ "\<lambda>k. fake_etag (n + 1)"] exI [of _ n]) auto
next
  case (Cons a acts)
  let ?v = "\<lparr> ve_values = action_entity a, ve_etag = fake_etag (n + 1) \<rparr>"
  let ?staged = "AList.update (action_key a) ?v staged"
  have map: "map_of ?staged = (map_of staged)(action_key a \<mapsto> ?v)" by (rule update_conv')
  have "list_all (applies (map_of ?staged)) acts"
    unfolding map list_all_iff using Cons.prems(1,2) by (auto simp: applies_other list_all_iff image_iff)
  moreover have "fake_valid \<lparr> ft_version = n + 1, ft_entities = ?staged \<rparr>" using fake_stage_valid [OF Cons.prems(3)] .
  ultimately obtain staged' f m where rest: "fake_stage acts (n + 1) ?staged = (Inr staged', m)" "n + 1 \<le> m" "range f \<subseteq> fake_etag ` {n + 1<..}"
      "fake_valid \<lparr> ft_version = m, ft_entities = staged' \<rparr>" "map_of staged' = map_of ?staged ++ written acts f"
    using Cons.IH [of ?staged "n + 1"] Cons.prems(1) by auto
  let ?f = "f(action_key a := fake_etag (n + 1))"
  have "action_key a \<notin> fst ` set (map (\<lambda>a. (action_key a, action_entity a)) acts)" using Cons.prems(1) by (auto simp: image_iff)
  then have none: "map_of (map (\<lambda>a. (action_key a, action_entity a)) acts) (action_key a) = None" by (simp add: map_of_eq_None_iff)
  have "map_of staged' = map_of staged ++ written (a # acts) ?f"
    unfolding rest(5) map using none by (auto simp: fun_eq_iff written_def map_add_def split: option.split)
  moreover have "range ?f \<subseteq> fake_etag ` {n<..}" using rest(3) by (fastforce simp: subset_iff)
  ultimately show ?case using rest(1,2,4) Cons.prems(2) unfolding fake_stage_Cons
    by (intro exI [of _ staged'] exI [of _ ?f] exI [of _ m]) (simp add: fun_upd_def)
qed

lemma fake_stage_conflict:
  assumes "distinct (map action_key acts)" "\<not> list_all (applies (map_of staged)) acts"
  shows "\<exists>x m. fake_stage acts n staged = (Inl (AzureTableConflictError x), m) \<and> n \<le> m"
  using assms
proof (induction acts arbitrary: n staged)
  case (Cons a acts)
  show ?case
  proof (cases "applies (map_of staged) a")
    case True
    let ?staged = "AList.update (action_key a) \<lparr> ve_values = action_entity a, ve_etag = fake_etag (n + 1) \<rparr> staged"
    have "applies (map_of ?staged) c = applies (map_of staged) c" if "c \<in> set acts" for c
      unfolding update_conv' using Cons.prems(1) that by (intro applies_other) (auto simp: image_iff)
    then have "\<not> list_all (applies (map_of ?staged)) acts" using True Cons.prems(2) by (auto simp: list_all_iff)
    then obtain x m where "fake_stage acts (n + 1) ?staged = (Inl (AzureTableConflictError x), m)" "n + 1 \<le> m"
      using Cons.IH [of ?staged "n + 1"] Cons.prems(1) by auto
    then show ?thesis unfolding fake_stage_Cons using True by auto
  qed (auto simp: fake_stage_Cons)
qed simp

lemma sorted_rows:
  fixes key :: "entity \<Rightarrow> string"
  assumes key: "\<And>q r v. ((q, r), v) \<in> set xs \<Longrightarrow> key (ve_values v) = r \<and> q = p" and dist: "distinct (map fst xs)"
  shows "distinct (map key (sort_key key (map (\<lambda>(k, v). ve_values v) xs)))"
    "set (map key (sort_key key (map (\<lambda>(k, v). ve_values v) xs))) = (\<lambda>x. snd (fst x)) ` set xs"
    "x \<in> set (sort_key key (map (\<lambda>(k, v). ve_values v) xs)) \<Longrightarrow> \<exists>v. ((p, key x), v) \<in> set xs \<and> x = ve_values v"
proof -
  have keys: "map key (map (\<lambda>(k, v). ve_values v) xs) = map (\<lambda>x. snd (fst x)) xs"
    using key by (auto simp: case_prod_beta)
  have "inj_on (\<lambda>x. snd (fst x)) (set xs)"
  proof (rule inj_onI)
    fix x y assume xy: "x \<in> set xs" "y \<in> set xs" "snd (fst x) = snd (fst y)"
    then have "fst x = fst y" using key by (metis prod.collapse)
    with xy dist show "x = y" by (auto simp: distinct_map inj_on_def)
  qed
  then have "distinct (map key (map (\<lambda>(k, v). ve_values v) xs))"
    unfolding keys using dist by (simp add: distinct_map)
  moreover have "mset (map key (sort_key key (map (\<lambda>(k, v). ve_values v) xs))) = mset (map key (map (\<lambda>(k, v). ve_values v) xs))" by (simp only: mset_map mset_sort)
  ultimately show "distinct (map key (sort_key key (map (\<lambda>(k, v). ve_values v) xs)))"
    using mset_eq_imp_distinct_iff by blast
  show "set (map key (sort_key key (map (\<lambda>(k, v). ve_values v) xs))) = (\<lambda>x. snd (fst x)) ` set xs"
    using arg_cong [OF keys, of set] by (simp only: set_map set_sort image_image)
  show "x \<in> set (sort_key key (map (\<lambda>(k, v). ve_values v) xs)) \<Longrightarrow> \<exists>v. ((p, key x), v) \<in> set xs \<and> x = ve_values v"
    using key by fastforce
qed

lemma fake_listing:
  assumes valid: "fake_valid s"
  shows "\<exists>rs. distinct rs \<and> sorted rs \<and> set rs = {r. starts_with ''entry-'' r \<and> fake_get p r s \<noteq> None} \<and>
    fake_list_entries p s = map (\<lambda>r. ve_values (the (fake_get p r s))) rs"
proof -
  define sel where "sel = filter (\<lambda>((q, r), v). q = p \<and> starts_with ''entry-'' r) (ft_entities s)"
  define key where "key = (\<lambda>row. cell_text (map_of row ''RowKey''))"
  have dist: "distinct (map fst (ft_entities s))" using valid by (simp add: fake_valid_def)
  have mem: "((q, r), v) \<in> set sel \<longleftrightarrow> q = p \<and> starts_with ''entry-'' r \<and> fake_get p r s = Some v" for q r v
    using dist by (auto simp: sel_def fake_get_def)
  have "entity_key (ve_values v) = k" if "(k, v) \<in> set (ft_entities s)" for k v
    using valid that by (auto simp: fake_valid_def list_all_iff)
  then have key: "key (ve_values v) = r \<and> q = p" if "((q, r), v) \<in> set sel" for q r v
    using that by (auto simp: sel_def key_def entity_key_def)
  have "distinct (map fst sel)" using dist by (auto simp: sel_def distinct_map intro: inj_on_subset)
  note rows = sorted_rows [of sel key p, OF key this]
  have list: "fake_list_entries p s = sort_key key (map (\<lambda>(k, v). ve_values v) sel)"
    by (simp add: fake_list_entries_def sel_def key_def)
  have "x = ve_values (the (fake_get p (key x) s))" if x: "x \<in> set (fake_list_entries p s)" for x
  proof -
    obtain v where "((p, key x), v) \<in> set sel" "x = ve_values v" using rows(3) x unfolding list by blast
    with mem [of p "key x" v] show ?thesis by simp
  qed
  then have "fake_list_entries p s = map (\<lambda>x. ve_values (the (fake_get p (key x) s))) (fake_list_entries p s)"
    by (intro map_idI [symmetric]) simp
  moreover have "(\<lambda>x. snd (fst x)) ` set sel = {r. starts_with ''entry-'' r \<and> fake_get p r s \<noteq> None}"
  proof (rule set_eqI)
    fix r
    have "r \<in> (\<lambda>x. snd (fst x)) ` set sel \<longleftrightarrow> (\<exists>q v. ((q, r), v) \<in> set sel)" by force
    then show "r \<in> (\<lambda>x. snd (fst x)) ` set sel \<longleftrightarrow> r \<in> {r. starts_with ''entry-'' r \<and> fake_get p r s \<noteq> None}"
      unfolding mem by auto
  qed
  ultimately show ?thesis
    using rows(1,2) by (intro exI [of _ "map key (fake_list_entries p s)"]) (simp add: list comp_def)
qed

interpretation fake: table_service fake_backend fake_valid fake_issued
proof
  fix s p r v assume "fake_valid s" "tb_get fake_backend p r s = Some v"
  then show "ve_etag v \<in> fake_issued s \<and> ve_etag v \<noteq> []"
    by (auto simp: fake_backend_def fake_get_def fake_valid_def fake_issued_def list_all_iff fake_etag_def dest!: map_of_SomeD)
next
  fix s e assume valid: "fake_valid s"
  then have valid': "fake_valid \<lparr> ft_version = ft_version s, ft_entities = ft_entities s \<rparr>" by (cases s) simp
  {
    assume "table_view fake_backend s (entity_key e) = None"
    then show "\<exists>s' t. tb_create fake_backend e s = (Inr (), s') \<and> fake_valid s' \<and> fake_issued s \<subseteq> fake_issued s' \<and>
        table_view fake_backend s' = (table_view fake_backend s)(entity_key e \<mapsto> \<lparr> ve_values = e, ve_etag = t \<rparr>)"
      using fake_stage_valid [OF valid', of e]
      unfolding table_view_fake by (auto simp: fake_backend_def fake_create_def fake_issued_def map_of_eq_None_iff update_conv' intro!: exI)
  next
    assume "table_view fake_backend s (entity_key e) \<noteq> None"
    then show "\<exists>s' m. tb_create fake_backend e s = (Inl (AzureTableConflictError m), s') \<and> fake_valid s' \<and> fake_issued s \<subseteq> fake_issued s' \<and>
        table_view fake_backend s' = table_view fake_backend s"
      using valid unfolding table_view_fake by (auto simp: fake_backend_def fake_create_def map_of_eq_None_iff)
  }
next
  fix s acts assume valid: "fake_valid s" and distinct: "distinct (map action_key acts)"
  have valid': "fake_valid \<lparr> ft_version = ft_version s, ft_entities = ft_entities s \<rparr>" using valid by (cases s) simp
  {
    assume "list_all (applies (table_view fake_backend s)) acts"
    then obtain staged f m where st: "fake_stage acts (ft_version s) (ft_entities s) = (Inr staged, m)" "ft_version s \<le> m" "range f \<subseteq> fake_etag ` {ft_version s<..}"
        "fake_valid \<lparr> ft_version = m, ft_entities = staged \<rparr>" "map_of staged = map_of (ft_entities s) ++ written acts f"
      using fake_stage_all [OF distinct _ valid'] unfolding table_view_fake by blast
    have "fake_etag ` {ft_version s<..} \<inter> fake_issued s = {}" by (auto simp: fake_issued_def)
    then have "range f \<inter> fake_issued s = {}" using st(3) by blast
    then show "\<exists>s' f. tb_transact fake_backend acts s = (Inr (), s') \<and> fake_valid s' \<and> fake_issued s \<subseteq> fake_issued s' \<and> range f \<inter> fake_issued s = {} \<and>
        table_view fake_backend s' = table_view fake_backend s ++ written acts f"
      using st unfolding table_view_fake by (intro exI [of _ "\<lparr> ft_version = m, ft_entities = staged \<rparr>"] exI [of _ f]) (auto simp: fake_backend_def fake_transact_def fake_issued_def)
  next
    assume "\<not> list_all (applies (table_view fake_backend s)) acts"
    then obtain x m where "fake_stage acts (ft_version s) (ft_entities s) = (Inl (AzureTableConflictError x), m)" "ft_version s \<le> m"
      using fake_stage_conflict [OF distinct] unfolding table_view_fake by blast
    then show "\<exists>s' m. tb_transact fake_backend acts s = (Inl (AzureTableConflictError m), s') \<and> fake_valid s' \<and> fake_issued s \<subseteq> fake_issued s' \<and>
        table_view fake_backend s' = table_view fake_backend s"
      using valid unfolding table_view_fake
      by (intro exI [of _ "s \<lparr> ft_version := m \<rparr>"] exI [of _ x]) (auto simp: fake_backend_def fake_transact_def fake_issued_def fake_valid_later)
  }
next
  fix s p assume "fake_valid s"
  from fake_listing [OF this]
  show "\<exists>rs. distinct rs \<and> sorted rs \<and> set rs = {r. starts_with ''entry-'' r \<and> tb_get fake_backend p r s \<noteq> None} \<and>
      tb_list_entries fake_backend p s = map (\<lambda>r. ve_values (the (tb_get fake_backend p r s))) rs"
    by (simp add: fake_backend_def)
qed

end
