(* ===== verification/Ets_Azure_Concurrency.thy ===== *)
theory Ets_Azure_Concurrency
  imports Ets_Azure_Table
begin

text \<open>
  Concurrent appends to the event store of \<open>Ets_Azure_Table\<close>: any number of writers, one call to the table per step. The
  content of the table is always the log of the appends that succeeded, each writer's answer agrees with it, and a writer
  gives up only when others made progress.
\<close>

section \<open>Row keys\<close>

lemma starts_with_prefix: "starts_with p s \<longleftrightarrow> (\<exists>t. s = p @ t)"
  unfolding starts_with_def by (metis append_eq_conv_conj append_take_drop_id)

lemma entry_row_text_inject [simp]: "entry_row_text m = entry_row_text n \<longleftrightarrow> m = n"
proof
  assume "entry_row_text m = entry_row_text n"
  then have "nat_of_digits (left_pad 20 (show_nat m)) = nat_of_digits (left_pad 20 (show_nat n))" by (simp add: entry_row_text_def)
  then show "m = n" by (simp only: left_pad_def nat_of_padded nat_of_show_nat)
qed simp

lemma row_prefixes [simp]:
  "entry_row_text n \<noteq> ''meta''" "event_row_key i \<noteq> ''meta''" "''meta'' \<noteq> entry_row_text n" "''meta'' \<noteq> event_row_key i" "entry_row_text n \<noteq> event_row_key i" "event_row_key i \<noteq> entry_row_text n"
  "starts_with ''entry-'' (entry_row_text n)" "starts_with ''event-'' (event_row_key i)" "\<not> starts_with ''entry-'' (event_row_key i)"
  "\<not> starts_with ''event-'' (entry_row_text n)" "\<not> starts_with ''entry-'' ''meta''" "\<not> starts_with ''event-'' ''meta''"
  by (simp_all add: entry_row_text_def event_row_key_def starts_with_def)

text \<open>Zero-padded keys of one length are ordered as their numbers.\<close>

fun digits :: "nat \<Rightarrow> nat \<Rightarrow> string" where
  "digits 0 n = []"
| "digits (Suc k) n = digits k (n div 10) @ [char_of (48 + n mod 10)]"

lemma length_digits [simp]: "length (digits k n) = k"
  by (induction k arbitrary: n) simp_all

lemma show_nat_length: "length (show_nat n) \<le> k \<longleftrightarrow> n < 10 ^ k" if "0 < k"
  using that
proof (induction n arbitrary: k rule: show_nat.induct)
  case (1 n)
  show ?case
  proof (cases "n < 10")
    case True
    then have "n < 10 ^ k" using 1(2) by (metis One_nat_def Suc_leI less_le_trans one_le_numeral power_increasing power_one_right)
    with True 1(2) show ?thesis by (subst show_nat.simps) simp
  next
    case False
    show ?thesis
    proof (cases "k = 1")
      case True
      have "length (show_nat (n div 10)) \<noteq> 0" by simp
      with True False show ?thesis by (subst show_nat.simps) (simp del: length_0_conv)
    next
      case k: False
      then obtain j where j: "k = Suc j" "0 < j" using 1(2) by (cases k) auto
      have "length (show_nat n) = Suc (length (show_nat (n div 10)))" using False by (subst show_nat.simps) simp
      with 1(1) [OF False j(2)] show ?thesis by (simp add: j div_less_iff_less_mult mult.commute)
    qed
  qed
qed

lemma digits_zero: "digits k 0 = replicate k (CHR ''0'')"
proof (induction k)
  case (Suc k)
  moreover have "char_of (48 :: nat) = CHR ''0''" by code_simp
  ultimately show ?case by (simp add: replicate_append_same)
qed simp

lemma digits_show_nat: "n < 10 ^ k \<Longrightarrow> 0 < k \<Longrightarrow> digits k n = left_pad k (show_nat n)"
proof (induction k arbitrary: n)
  case (Suc k)
  show ?case
  proof (cases "n < 10")
    case True
    then have "show_nat n = [char_of (48 + n)]" by (subst show_nat.simps) simp
    with True show ?thesis by (simp add: left_pad_def digits_zero)
  next
    case False
    then have k: "0 < k" using Suc.prems(1) by (cases k) auto
    have "n div 10 < 10 ^ k" using Suc.prems(1) by (simp add: div_less_iff_less_mult mult.commute)
    then have "digits k (n div 10) = left_pad k (show_nat (n div 10))" using Suc.IH k by simp
    moreover have "show_nat n = show_nat (n div 10) @ [char_of (48 + n mod 10)]" using False by (subst show_nat.simps) simp
    ultimately show ?thesis by (simp add: left_pad_def)
  qed
qed simp

lemma snoc_less: "length xs = length ys \<Longrightarrow> xs @ [a :: char] < ys @ [b] \<longleftrightarrow> xs < ys \<or> xs = ys \<and> a < b"
  by (induction xs ys rule: list_induct2) auto

lemma digit_less: "m < (10 :: nat) \<Longrightarrow> n < 10 \<Longrightarrow> (char_of (48 + m) :: char) < char_of (48 + n) \<longleftrightarrow> m < n"
  by (simp add: less_char_def)

lemma digits_less: "m < 10 ^ k \<Longrightarrow> n < 10 ^ k \<Longrightarrow> digits k m < digits k n \<longleftrightarrow> m < n"
proof (induction k arbitrary: m n)
  case (Suc k)
  have "m div 10 < 10 ^ k" "n div 10 < 10 ^ k" using Suc.prems by (simp_all add: div_less_iff_less_mult mult.commute)
  note IH = Suc.IH [OF this] Suc.IH [OF this(2,1)]
  have eq: "digits k (m div 10) = digits k (n div 10) \<longleftrightarrow> m div 10 = n div 10" using IH by (metis linorder_neqE_nat less_irrefl)
  have "digits (Suc k) m < digits (Suc k) n \<longleftrightarrow> m div 10 < n div 10 \<or> m div 10 = n div 10 \<and> m mod 10 < n mod 10"
    using IH(1) eq by (simp add: snoc_less digit_less)
  also have "\<dots> \<longleftrightarrow> m < n"
  proof -
    have "m = 10 * (m div 10) + m mod 10" "m mod 10 < 10" "n = 10 * (n div 10) + n mod 10" "n mod 10 < 10" by simp_all
    then show ?thesis by (cases "m div 10" "n div 10" rule: linorder_cases) linarith+
  qed
  finally show ?case .
qed simp

lemma entry_row_text_less:
  assumes "m < 10 ^ 20" "n < 10 ^ 20"
  shows "entry_row_text m < entry_row_text n \<longleftrightarrow> m < n"
proof -
  have "entry_row_text k = ''entry-'' @ digits 20 k" if "k < 10 ^ 20" for k
    using digits_show_nat [OF that] by (simp add: entry_row_text_def)
  then show ?thesis using assms digits_less [of m 20 n] by simp
qed

lemma sorted_entry_rows:
  assumes "n \<le> 10 ^ 20" "distinct rs" "sorted rs" "set rs = entry_row_text ` {..<n}"
  shows "rs = map entry_row_text [0..<n]"
proof -
  have "sorted (map entry_row_text [0..<n])"
    unfolding sorted_iff_nth_mono using assms(1) entry_row_text_less by (auto simp: le_less) 
  moreover have "distinct (map entry_row_text [0..<n])" by (simp add: distinct_map inj_on_def)
  moreover have "set (map entry_row_text [0..<n]) = set rs" using assms(4) by (auto simp: atLeast0LessThan)
  ultimately show ?thesis using assms(2,3) by (metis sorted_distinct_set_unique)
qed

section \<open>The table of a log\<close>

definition plan_of :: "(utc \<Rightarrow> string) \<Rightarrow> (evidence_event \<Rightarrow> string) \<Rightarrow> evidence_event \<Rightarrow> append_plan" where
  "plan_of dt to_json e = \<lparr> pl_event = e, pl_event_json = to_json e, pl_event_hash = event_hash_of dt e, pl_leaf_hash = leaf_hash_of dt e \<rparr>"

lemma plan_append_plan: "plan_append dt to_json e = Inr (plan_of dt to_json e)"
  by (simp add: plan_append_def plan_of_def canonical_sha256_native flip: event_hash_of_def)

lemma plan_of_fields [simp]: "pl_event (plan_of dt to_json e) = e" "plan_entry (plan_of dt to_json e) n = entry_for dt n e"
  by (simp_all add: plan_of_def plan_entry_def entry_for_def)

definition row_key_of :: "evidence_event \<Rightarrow> string" where
  "row_key_of e = event_row_key (ev_event_id e)"

definition entry_rows :: "azure_store \<Rightarrow> (utc \<Rightarrow> string) \<Rightarrow> (evidence_event \<Rightarrow> string) \<Rightarrow> evidence_event list \<Rightarrow> (string \<times> entity) list" where
  "entry_rows self dt to_json h = map (\<lambda>(n, e). (entry_row_text n, entry_row self (plan_of dt to_json e) n)) (enumerate 0 h)"

definition index_rows :: "azure_store \<Rightarrow> evidence_event list \<Rightarrow> (string \<times> entity) list" where
  "index_rows self h = map (\<lambda>(n, e). (row_key_of e, event_index_row self (ev_event_id e) n)) (enumerate 0 h)"

text \<open>The partition holds the log \<open>h\<close>: the metadata, one row per entry, one index row per event, and no other row of these kinds.\<close>

definition holds_log :: "'s table_backend \<Rightarrow> azure_store \<Rightarrow> (utc \<Rightarrow> string) \<Rightarrow> (evidence_event \<Rightarrow> string) \<Rightarrow> 's \<Rightarrow> evidence_event list \<Rightarrow> bool" where
  "holds_log b self dt to_json s h \<longleftrightarrow>
     (\<exists>t. tb_get b (as_partition_key self) ''meta'' s = Some \<lparr> ve_values = meta_row self (int (length h)), ve_etag = t \<rparr>) \<and>
     (\<forall>r. starts_with ''entry-'' r \<longrightarrow> map_option ve_values (tb_get b (as_partition_key self) r s) = map_of (entry_rows self dt to_json h) r) \<and>
     (\<forall>r. starts_with ''event-'' r \<longrightarrow> map_option ve_values (tb_get b (as_partition_key self) r s) = map_of (index_rows self h) r) \<and>
     distinct (map row_key_of h)"

definition storable :: "(evidence_event \<Rightarrow> string) \<Rightarrow> (string \<Rightarrow> evidence_event result) \<Rightarrow> evidence_event \<Rightarrow> bool" where
  "storable to_json of_json e \<longleftrightarrow> ev_event_id e \<noteq> [] \<and> to_json e \<noteq> [] \<and> of_json (to_json e) = Inr e"

lemma entry_rows_snoc: "entry_rows self dt to_json (h @ [e]) = entry_rows self dt to_json h @ [(entry_row_text (length h), entry_row self (plan_of dt to_json e) (length h))]"
  by (simp add: entry_rows_def enumerate_append_eq)

lemma index_rows_snoc: "index_rows self (h @ [e]) = index_rows self h @ [(row_key_of e, event_index_row self (ev_event_id e) (length h))]"
  by (simp add: index_rows_def enumerate_append_eq)

lemma nth_rows:
  "n < length h \<Longrightarrow> entry_rows self dt to_json h ! n = (entry_row_text n, entry_row self (plan_of dt to_json (h ! n)) n)"
  "n < length h \<Longrightarrow> index_rows self h ! n = (row_key_of (h ! n), event_index_row self (ev_event_id (h ! n)) n)"
  by (simp_all add: entry_rows_def index_rows_def nth_enumerate_eq)

lemma length_rows [simp]: "length (entry_rows self dt to_json h) = length h" "length (index_rows self h) = length h"
  by (simp_all add: entry_rows_def index_rows_def)

lemma entry_rows_keys: "map fst (entry_rows self dt to_json h) = map entry_row_text [0..<length h]"
  by (rule nth_equalityI) (simp_all add: nth_rows)

lemma index_rows_keys: "map fst (index_rows self h) = map row_key_of h"
  by (rule nth_equalityI) (simp_all add: nth_rows)

lemma index_rows_none: "map_of (index_rows self h) r = None \<longleftrightarrow> r \<notin> row_key_of ` set h"
  by (metis index_rows_keys map_of_eq_None_iff set_map)

lemma map_of_nth_key: "distinct (map fst xs) \<Longrightarrow> n < length xs \<Longrightarrow> map_of xs (fst (xs ! n)) = Some (snd (xs ! n))"
  by (simp add: map_of_eq_Some_iff)

lemma entry_rows_at:
  assumes "n < length h"
  shows "map_of (entry_rows self dt to_json h) (entry_row_text n) = Some (entry_row self (plan_of dt to_json (h ! n)) n)"
proof -
  have "distinct (map fst (entry_rows self dt to_json h))" unfolding entry_rows_keys by (simp add: distinct_map inj_on_def)
  from map_of_nth_key [OF this, of n] assms show ?thesis by (simp add: nth_rows)
qed

lemma index_rows_at:
  assumes "distinct (map row_key_of h)" "n < length h"
  shows "map_of (index_rows self h) (row_key_of (h ! n)) = Some (event_index_row self (ev_event_id (h ! n)) n)"
  using map_of_nth_key [of "index_rows self h" n] assms by (simp add: index_rows_keys nth_rows)

lemma entry_rows_dom: "map_of (entry_rows self dt to_json h) r \<noteq> None \<longleftrightarrow> r \<in> entry_row_text ` {..<length h}"
  by (metis entry_rows_keys map_of_eq_None_iff set_map set_upt lessThan_atLeast0)

lemma entry_keys [simp]:
  "entity_key (meta_row self k) = (as_partition_key self, ''meta'')" "entity_key (entry_row self p n) = (as_partition_key self, entry_row_text n)"
  "entity_key (event_index_row self i n) = (as_partition_key self, event_row_key i)"
  by (simp_all add: entity_key_def meta_row_def entry_row_def event_index_row_def cell_text_def)

lemma append_actions_keys:
  "map action_key (append_actions self p n t) = [(as_partition_key self, ''meta''), (as_partition_key self, entry_row_text n), (as_partition_key self, event_row_key (ev_event_id (pl_event p)))]"
  "map action_entity (append_actions self p n t) = [meta_row self (int n + 1), entry_row self p n, event_index_row self (ev_event_id (pl_event p)) n]"
  by (simp_all add: append_actions_def)

section \<open>Calls on the table of a log\<close>

definition key_collision :: exn where
  "key_collision = StorageValidationError ''Azure Table event-id index hash collision detected''"

lemma holds_index_row:
  assumes "holds_log b self dt to_json s h" "n < length h"
  shows "map_option ve_values (tb_get b (as_partition_key self) (row_key_of (h ! n)) s) = Some (event_index_row self (ev_event_id (h ! n)) n)"
  using assms index_rows_at [of h n] by (simp add: holds_log_def row_key_of_def)

lemma probe_holds:
  assumes holds: "holds_log b self dt to_json s h" and ids: "\<forall>x \<in> set h. ev_event_id x \<noteq> []"
  shows "probe_event b self (plan_of dt to_json e) s =
    (if row_key_of e \<notin> row_key_of ` set h then Inr ()
     else if ev_event_id e \<in> ev_event_id ` set h then Inl (duplicate_error (ev_event_id e)) else Inl key_collision)"
proof (cases "row_key_of e \<in> row_key_of ` set h")
  case False
  have "map_option ve_values (tb_get b (as_partition_key self) (row_key_of e) s) = map_of (index_rows self h) (row_key_of e)"
    using holds by (simp add: holds_log_def row_key_of_def)
  then have "tb_get b (as_partition_key self) (row_key_of e) s = None" using False index_rows_none [of self h "row_key_of e"] by simp
  with False show ?thesis by (simp add: probe_event_def row_key_of_def)
next
  case True
  then obtain n where n: "n < length h" "row_key_of e = row_key_of (h ! n)" by (auto simp: in_set_conv_nth)
  obtain v where v: "tb_get b (as_partition_key self) (row_key_of e) s = Some v" "ve_values v = event_index_row self (ev_event_id (h ! n)) n"
    using holds_index_row [OF holds n(1)] n(2) by auto
  have "ev_event_id (h ! n) \<noteq> []" using ids n(1) by simp
  then have valid: "validate_event_index (ve_values v) (ev_event_id e) = (if ev_event_id (h ! n) = ev_event_id e then Inr () else Inl key_collision)"
    using v(2) by (simp add: validate_event_index_def event_index_row_def required_str_def required_int_def key_collision_def)
  have "ev_event_id e \<in> ev_event_id ` set h \<longleftrightarrow> ev_event_id (h ! n) = ev_event_id e"
  proof
    assume "ev_event_id e \<in> ev_event_id ` set h"
    then obtain m where m: "m < length h" "ev_event_id (h ! m) = ev_event_id e" by (auto simp: in_set_conv_nth)
    then have "row_key_of (h ! m) = row_key_of (h ! n)" using n(2) by (simp add: row_key_of_def)
    then have "m = n" using holds m(1) n(1) nth_eq_iff_index_eq [of "map row_key_of h" m n] by (simp add: holds_log_def)
    with m show "ev_event_id (h ! n) = ev_event_id e" by simp
  qed (use n(1) in \<open>metis image_eqI nth_mem\<close>)
  with True v(1) valid show ?thesis by (simp add: probe_event_def row_key_of_def duplicate_error_def)
qed

text \<open>The metadata row as a writer sees it.\<close>

definition meta_etag :: "'s table_backend \<Rightarrow> azure_store \<Rightarrow> 's \<Rightarrow> string" where
  "meta_etag b self s = (case tb_get b (as_partition_key self) ''meta'' s of None \<Rightarrow> [] | Some v \<Rightarrow> ve_etag v)"

lemma holds_meta:
  assumes "holds_log b self dt to_json s h"
  shows "tb_get b (as_partition_key self) ''meta'' s = Some \<lparr> ve_values = meta_row self (int (length h)), ve_etag = meta_etag b self s \<rparr>"
  using assms by (auto simp: holds_log_def meta_etag_def)

lemma holds_log_view:
  assumes "table_view b s' = table_view b s"
  shows "holds_log b self dt to_json s' h = holds_log b self dt to_json s h" "meta_etag b self s' = meta_etag b self s"
proof -
  have "tb_get b p r s' = tb_get b p r s" for p r using fun_cong [OF assms, of "(p, r)"] by (simp add: table_view_def)
  then show "holds_log b self dt to_json s' h = holds_log b self dt to_json s h" "meta_etag b self s' = meta_etag b self s"
    by (simp_all add: holds_log_def meta_etag_def)
qed

context table_service
begin

lemma load_holds:
  assumes "valid s" "holds_log b self dt to_json s h"
  shows "azure_load_metadata b self s = Inr \<lparr> ve_values = meta_row self (int (length h)), ve_etag = meta_etag b self s \<rparr>"
    "load_next b self s = Inr (length h, meta_etag b self s)"
proof -
  note m = holds_meta [OF assms(2)]
  have "meta_etag b self s \<noteq> []" using etag_issued [OF assms(1) m] by simp
  then show load: "azure_load_metadata b self s = Inr \<lparr> ve_values = meta_row self (int (length h)), ve_etag = meta_etag b self s \<rparr>"
    by (simp add: azure_load_metadata_def validate_metadata_def m meta_row_def required_int_def azure_schema_version_def)
  show "load_next b self s = Inr (length h, meta_etag b self s)"
    by (simp add: load_next_def load) (simp add: meta_row_def required_int_def)
qed

lemma meta_etag_issued: "valid s \<Longrightarrow> holds_log b self dt to_json s h \<Longrightarrow> meta_etag b self s \<in> issued s"
  using etag_issued holds_meta by fastforce

lemma actions_distinct: "distinct (map action_key (append_actions self p n t))"
  by (simp add: append_actions_keys)

lemma actions_apply:
  assumes holds: "holds_log b self dt to_json s h"
  shows "list_all (applies (table_view b s)) (append_actions self (plan_of dt to_json e) n t) \<longleftrightarrow>
    meta_etag b self s = t \<and> length h \<le> n \<and> row_key_of e \<notin> row_key_of ` set h"
proof -
  have "map_option ve_values (tb_get b (as_partition_key self) (entry_row_text n) s) = map_of (entry_rows self dt to_json h) (entry_row_text n)"
    using holds by (simp add: holds_log_def)
  then have 1: "tb_get b (as_partition_key self) (entry_row_text n) s = None \<longleftrightarrow> length h \<le> n"
    using entry_rows_dom [of self dt to_json h "entry_row_text n"] by (auto simp: not_less)
  have "map_option ve_values (tb_get b (as_partition_key self) (row_key_of e) s) = map_of (index_rows self h) (row_key_of e)"
    using holds by (simp add: holds_log_def row_key_of_def)
  then have 2: "tb_get b (as_partition_key self) (row_key_of e) s = None \<longleftrightarrow> row_key_of e \<notin> row_key_of ` set h"
    using index_rows_none [of self h "row_key_of e"] by auto
  show ?thesis
    using holds_meta [OF holds] 1 2 by (simp add: append_actions_def table_view_def row_key_of_def)
qed

lemma commit_conflict:
  assumes "valid s" "holds_log b self dt to_json s h" "\<not> (meta_etag b self s = t \<and> length h \<le> n \<and> row_key_of e \<notin> row_key_of ` set h)"
  shows "\<exists>s' m. tb_transact b (append_actions self (plan_of dt to_json e) n t) s = (Inl (AzureTableConflictError m), s') \<and>
    valid s' \<and> issued s \<subseteq> issued s' \<and> holds_log b self dt to_json s' h \<and> meta_etag b self s' = meta_etag b self s"
  using transact_conflict [OF assms(1) actions_distinct] actions_apply [OF assms(2)] assms(2,3) holds_log_view by metis

lemma commit_ok:
  assumes valid: "valid s" and holds: "holds_log b self dt to_json s h" and fresh: "row_key_of e \<notin> row_key_of ` set h"
  shows "\<exists>s'. tb_transact b (append_actions self (plan_of dt to_json e) (length h) (meta_etag b self s)) s = (Inr (), s') \<and>
    valid s' \<and> issued s \<subseteq> issued s' \<and> holds_log b self dt to_json s' (h @ [e]) \<and> meta_etag b self s' \<notin> issued s"
proof -
  let ?n = "length h" and ?pk = "as_partition_key self"
  let ?acts = "append_actions self (plan_of dt to_json e) ?n (meta_etag b self s)"
  obtain s' f where s': "tb_transact b ?acts s = (Inr (), s')" "valid s'" "issued s \<subseteq> issued s'" "range f \<inter> issued s = {}"
      "table_view b s' = table_view b s ++ written ?acts f"
    using transact_all [OF valid actions_distinct, of self "plan_of dt to_json e" ?n "meta_etag b self s"]
      actions_apply [OF holds, of e ?n "meta_etag b self s"] fresh by auto
  have get: "tb_get b ?pk r s' = (if r = ''meta'' then Some \<lparr> ve_values = meta_row self (int ?n + 1), ve_etag = f (?pk, r) \<rparr>
      else if r = entry_row_text ?n then Some \<lparr> ve_values = entry_row self (plan_of dt to_json e) ?n, ve_etag = f (?pk, r) \<rparr>
      else if r = row_key_of e then Some \<lparr> ve_values = event_index_row self (ev_event_id e) ?n, ve_etag = f (?pk, r) \<rparr>
      else tb_get b ?pk r s)" for r
    using fun_cong [OF s'(5), of "(?pk, r)"]
    by (simp add: table_view_def written_def append_actions_def map_add_def row_key_of_def)
  have "meta_etag b self s' = f (?pk, ''meta'')" by (simp add: meta_etag_def get)
  then have "meta_etag b self s' \<notin> issued s" using s'(4) by auto
  moreover have "holds_log b self dt to_json s' (h @ [e])"
  proof -
    have "map_of (entry_rows self dt to_json h) (entry_row_text ?n) = None"
      using entry_rows_dom [of self dt to_json h "entry_row_text ?n"] by auto
    then have "map_option ve_values (tb_get b ?pk r s') = map_of (entry_rows self dt to_json (h @ [e])) r" if "starts_with ''entry-'' r" for r
      using that holds by (auto simp: get entry_rows_snoc map_add_def holds_log_def row_key_of_def split: option.split)
    moreover have "map_of (index_rows self h) (row_key_of e) = None" using fresh index_rows_none by blast
    then have "map_option ve_values (tb_get b ?pk r s') = map_of (index_rows self (h @ [e])) r" if "starts_with ''event-'' r" for r
      using that holds by (auto simp: get index_rows_snoc map_add_def holds_log_def row_key_of_def split: option.split)
    moreover have "tb_get b ?pk ''meta'' s' = Some \<lparr> ve_values = meta_row self (int (length (h @ [e]))), ve_etag = f (?pk, ''meta'') \<rparr>"
      by (simp add: get add.commute)
    moreover have "distinct (map row_key_of (h @ [e]))" using holds fresh by (simp add: holds_log_def)
    ultimately show ?thesis unfolding holds_log_def by blast
  qed
  ultimately show ?thesis using s'(1,2,3) by blast
qed

end

section \<open>Interleaved writers\<close>

text \<open>
  A writer: the event it appends, the number of attempts it may make, how many appends had succeeded when it was invoked, and where it is.
\<close>

record writer =
  wr_event :: evidence_event
  wr_limit :: nat
  wr_before :: nat
  wr_phase :: append_phase

definition answer :: "writer \<Rightarrow> log_entry list" where
  "answer w = (case wr_phase w of Finished (Inr en) \<Rightarrow> [en] | _ \<Rightarrow> [])"

definition answers :: "writer list \<Rightarrow> log_entry list" where
  "answers ws = concat (map answer ws)"

inductive azure_reach ::
  "'s table_backend \<Rightarrow> azure_store \<Rightarrow> (utc \<Rightarrow> string) \<Rightarrow> (evidence_event \<Rightarrow> string) \<Rightarrow> 's \<Rightarrow> 's \<Rightarrow> writer list \<Rightarrow> bool" for b self dt to_json s0 where
  start: "azure_reach b self dt to_json s0 s0 []"
| invoke: "azure_reach b self dt to_json s0 s ws \<Longrightarrow>
    azure_reach b self dt to_json s0 s (ws @ [\<lparr> wr_event = e, wr_limit = n, wr_before = length (answers ws), wr_phase = append_begin n \<rparr>])"
| step: "azure_reach b self dt to_json s0 s ws \<Longrightarrow> i < length ws \<Longrightarrow>
    append_step b self (plan_of dt to_json (wr_event (ws ! i))) (wr_phase (ws ! i), s) = (ph, s') \<Longrightarrow>
    azure_reach b self dt to_json s0 s' (ws[i := (ws ! i) \<lparr> wr_phase := ph \<rparr>])"

text \<open>What the phase of a writer says of the log, given the tags issued and the present tag of the metadata.\<close>

definition phase_ok :: "(utc \<Rightarrow> string) \<Rightarrow> string set \<Rightarrow> string \<Rightarrow> evidence_event list \<Rightarrow> writer \<Rightarrow> bool" where
  "phase_ok dt tags meta h w \<longleftrightarrow> (let e = wr_event w; used = wr_limit w + wr_before w in
     case wr_phase w of
       Probe k \<Rightarrow> used \<le> length h + Suc k
     | Load k \<Rightarrow> used \<le> length h + Suc k
     | Commit k n t \<Rightarrow> used \<le> n + Suc k \<and> t \<in> tags \<and> (if meta = t then n = length h else n < length h)
     | Reprobe k \<Rightarrow> used \<le> length h + k \<or> row_key_of e \<in> row_key_of ` set h
     | Finished (Inr en) \<Rightarrow> \<exists>n < length h. h ! n = e \<and> en = entry_for dt n e
     | Finished (Inl x) \<Rightarrow> x = retries_exceeded \<and> used \<le> length h \<or> x = duplicate_error (ev_event_id e) \<and> ev_event_id e \<in> ev_event_id ` set h \<or>
         x = key_collision \<and> row_key_of e \<in> row_key_of ` set h \<and> ev_event_id e \<notin> ev_event_id ` {y \<in> set h. row_key_of y = row_key_of e})"

lemma phase_ok_tags: "phase_ok dt tags meta h w \<Longrightarrow> tags \<subseteq> tags' \<Longrightarrow> phase_ok dt tags' meta h w"
  unfolding phase_ok_def Let_def by (cases "wr_phase w") (auto split: sum.splits)

lemma phase_ok_grows:
  assumes ok: "phase_ok dt tags meta h w" and "tags \<subseteq> tags'" "meta' \<notin> tags" "row_key_of e \<notin> row_key_of ` set h"
  shows "phase_ok dt tags' meta' (h @ [e]) w"
proof (cases "wr_phase w")
  case (Finished r)
  show ?thesis
  proof (cases r)
    case (Inl x)
    have same: "{y \<in> set (h @ [e]). row_key_of y = row_key_of (wr_event w)} = {y \<in> set h. row_key_of y = row_key_of (wr_event w)}"
      if "row_key_of (wr_event w) \<in> row_key_of ` set h"
    proof -
      have "row_key_of e \<noteq> row_key_of (wr_event w)" using assms(4) that by metis
      then show ?thesis by auto
    qed
    from ok Finished Inl consider "x = retries_exceeded" "wr_limit w + wr_before w \<le> length h"
      | "x = duplicate_error (ev_event_id (wr_event w))" "ev_event_id (wr_event w) \<in> ev_event_id ` set h"
      | "x = key_collision" "row_key_of (wr_event w) \<in> row_key_of ` set h" "ev_event_id (wr_event w) \<notin> ev_event_id ` {y \<in> set h. row_key_of y = row_key_of (wr_event w)}"
      unfolding phase_ok_def Let_def by fastforce
    then show ?thesis unfolding phase_ok_def Let_def Finished Inl by cases (simp_all add: same [simplified])
  next
    case (Inr en)
    with ok Finished obtain n where "n < length h" "h ! n = wr_event w" "en = entry_for dt n (wr_event w)" by (auto simp: phase_ok_def Let_def)
    then have "n < length (h @ [e]) \<and> (h @ [e]) ! n = wr_event w \<and> en = entry_for dt n (wr_event w)" by (simp add: nth_append)
    with Finished Inr show ?thesis by (auto simp: phase_ok_def Let_def)
  qed
next
  case (Commit k n t)
  with ok assms(2,3) show ?thesis by (auto simp: phase_ok_def Let_def split: if_split_asm)
qed (use ok in \<open>auto simp: phase_ok_def Let_def\<close>)

lemma answers_update:
  assumes "i < length ws" "answer (ws ! i) = []"
  shows "mset (answers (ws[i := w])) = mset (answers ws) + mset (answer w)"
proof -
  have "ws = take i ws @ ws ! i # drop (Suc i) ws" using assms(1) by (rule id_take_nth_drop)
  then have "answers ws = answers (take i ws) @ answer (ws ! i) @ answers (drop (Suc i) ws)"
    unfolding answers_def by (metis concat.simps(2) concat_append list.simps(9) map_append)
  moreover have "answers (ws[i := w]) = answers (take i ws) @ answer w @ answers (drop (Suc i) ws)"
    using assms(1) by (simp add: upd_conv_take_nth_drop answers_def)
  ultimately show ?thesis using assms(2) by simp
qed

context table_service
begin

definition sys_inv :: "azure_store \<Rightarrow> (utc \<Rightarrow> string) \<Rightarrow> (evidence_event \<Rightarrow> string) \<Rightarrow> 's \<Rightarrow> writer list \<Rightarrow> evidence_event list \<Rightarrow> bool" where
  "sys_inv self dt to_json s ws h \<longleftrightarrow> valid s \<and> holds_log b self dt to_json s h \<and> mset (answers ws) = mset (entries_of dt h) \<and>
     (\<forall>w \<in> set ws. phase_ok dt (issued s) (meta_etag b self s) h w)"

lemma inv_events:
  assumes "sys_inv self dt to_json s ws h"
  shows "set h \<subseteq> wr_event ` set ws"
proof
  fix x assume "x \<in> set h"
  then have "x \<in> le_event ` set (entries_of dt h)" by (metis map_event_entries_of set_map)
  also have "set (entries_of dt h) = set (answers ws)" using assms mset_eq_setD unfolding sys_inv_def by metis
  finally obtain w en where w: "w \<in> set ws" "en \<in> set (answer w)" "x = le_event en" by (auto simp: answers_def)
  then have "wr_phase w = Finished (Inr en)" by (auto simp: answer_def split: append_phase.splits sum.splits)
  moreover have "phase_ok dt (issued s) (meta_etag b self s) h w" using assms w(1) by (simp add: sys_inv_def)
  ultimately have "le_event en = wr_event w" by (auto simp: phase_ok_def Let_def)
  with w show "x \<in> wr_event ` set ws" by auto
qed

lemma inv_length: "sys_inv self dt to_json s ws h \<Longrightarrow> length (answers ws) = length h"
  unfolding sys_inv_def by (metis length_entries_of mset_eq_length)

text \<open>A step of one writer that leaves the log alone, and one that extends it.\<close>

lemma inv_quiet:
  assumes inv: "sys_inv self dt to_json s ws h" and i: "i < length ws" and none: "answer (ws ! i) = []" "answer ((ws ! i) \<lparr> wr_phase := ph \<rparr>) = []"
    and s': "valid s'" "issued s \<subseteq> issued s'" "holds_log b self dt to_json s' h" "meta_etag b self s' = meta_etag b self s"
    and ph: "phase_ok dt (issued s') (meta_etag b self s) h ((ws ! i) \<lparr> wr_phase := ph \<rparr>)"
  shows "sys_inv self dt to_json s' (ws[i := (ws ! i) \<lparr> wr_phase := ph \<rparr>]) h"
proof -
  have "\<forall>w \<in> set ws. phase_ok dt (issued s') (meta_etag b self s') h w"
    using inv s'(2,4) phase_ok_tags unfolding sys_inv_def by metis
  then have "\<forall>w \<in> set (ws[i := (ws ! i) \<lparr> wr_phase := ph \<rparr>]). phase_ok dt (issued s') (meta_etag b self s') h w"
    using ph s'(4) by (auto dest!: set_update_subset_insert [THEN subsetD])
  with inv s' show ?thesis using answers_update [OF i none(1)] none(2) by (simp add: sys_inv_def)
qed

lemma inv_append:
  assumes inv: "sys_inv self dt to_json s ws h" and i: "i < length ws" and none: "answer (ws ! i) = []"
    and e: "wr_event (ws ! i) = e" "row_key_of e \<notin> row_key_of ` set h"
    and s': "valid s'" "issued s \<subseteq> issued s'" "holds_log b self dt to_json s' (h @ [e])" "meta_etag b self s' \<notin> issued s"
  shows "sys_inv self dt to_json s' (ws[i := (ws ! i) \<lparr> wr_phase := Finished (Inr (entry_for dt (length h) e)) \<rparr>]) (h @ [e])"
proof -
  let ?w = "(ws ! i) \<lparr> wr_phase := Finished (Inr (entry_for dt (length h) e)) \<rparr>"
  have "\<forall>w \<in> set ws. phase_ok dt (issued s') (meta_etag b self s') (h @ [e]) w"
    using inv s'(2,4) e(2) phase_ok_grows unfolding sys_inv_def by metis
  moreover have "phase_ok dt (issued s') (meta_etag b self s') (h @ [e]) ?w"
    using e(1) by (auto simp: phase_ok_def Let_def)
  ultimately have "\<forall>w \<in> set (ws[i := ?w]). phase_ok dt (issued s') (meta_etag b self s') (h @ [e]) w"
    by (auto dest!: set_update_subset_insert [THEN subsetD])
  moreover have "answer ?w = [entry_for dt (length h) e]" by (simp add: answer_def)
  ultimately show ?thesis using inv s'(1,3) answers_update [OF i none, of ?w] by (simp add: sys_inv_def entries_of_snoc)
qed

lemma inv_step:
  assumes inv: "sys_inv self dt to_json s ws h" and i: "i < length ws" and ids: "\<forall>w \<in> set ws. ev_event_id (wr_event w) \<noteq> []"
    and step: "append_step b self (plan_of dt to_json (wr_event (ws ! i))) (wr_phase (ws ! i), s) = (ph, s')"
  shows "\<exists>h'. sys_inv self dt to_json s' (ws[i := (ws ! i) \<lparr> wr_phase := ph \<rparr>]) h'"
proof -
  let ?w = "ws ! i" and ?e = "wr_event (ws ! i)"
  have valid: "valid s" and holds: "holds_log b self dt to_json s h" using inv by (simp_all add: sys_inv_def)
  have ok: "phase_ok dt (issued s) (meta_etag b self s) h ?w" using inv i by (simp add: sys_inv_def)
  have hids: "\<forall>x \<in> set h. ev_event_id x \<noteq> []" using inv_events [OF inv] ids by auto
  note probe = probe_holds [OF holds hids, of ?e]
  have failed: "phase_ok dt (issued s) (meta_etag b self s) h (?w \<lparr> wr_phase := Finished (Inl x) \<rparr>)"
    if "probe_event b self (plan_of dt to_json ?e) s = Inl x" for x
    using that unfolding probe by (auto simp: phase_ok_def Let_def split: if_split_asm)
  have quiet: "\<exists>h'. sys_inv self dt to_json s (ws[i := ?w \<lparr> wr_phase := q \<rparr>]) h'"
    if "answer ?w = []" "answer (?w \<lparr> wr_phase := q \<rparr>) = []" "phase_ok dt (issued s) (meta_etag b self s) h (?w \<lparr> wr_phase := q \<rparr>)" for q
    using inv_quiet [OF inv i that(1,2) valid subset_refl holds refl that(3)] by blast
  show ?thesis
  proof (cases "wr_phase ?w")
    case (Probe k)
    with step have s': "s' = s" "ph = (case probe_event b self (plan_of dt to_json ?e) s of Inl x \<Rightarrow> Finished (Inl x) | Inr _ \<Rightarrow> Load k)" by auto
    have "phase_ok dt (issued s) (meta_etag b self s) h (?w \<lparr> wr_phase := ph \<rparr>)"
      using ok Probe failed s'(2) by (cases "probe_event b self (plan_of dt to_json ?e) s") (simp_all add: phase_ok_def Let_def)
    then show ?thesis unfolding s'(1) using Probe s'(2) by (intro quiet) (auto simp: answer_def split: sum.split)
  next
    case (Load k)
    with step have s': "s' = s" "ph = Commit k (length h) (meta_etag b self s)" by (auto simp: load_holds [OF valid holds])
    have "phase_ok dt (issued s) (meta_etag b self s) h (?w \<lparr> wr_phase := ph \<rparr>)"
      using ok Load meta_etag_issued [OF valid holds] by (simp add: phase_ok_def Let_def s'(2))
    then show ?thesis unfolding s'(1) using Load s'(2) by (intro quiet) (auto simp: answer_def)
  next
    case (Reprobe k)
    with step have s': "s' = s" "ph = (case probe_event b self (plan_of dt to_json ?e) s of Inl x \<Rightarrow> Finished (Inl x) | Inr _ \<Rightarrow> append_begin k)" by auto
    have "phase_ok dt (issued s) (meta_etag b self s) h (?w \<lparr> wr_phase := ph \<rparr>)"
    proof (cases "probe_event b self (plan_of dt to_json ?e) s")
      case (Inl x)
      then show ?thesis using failed s'(2) by simp
    next
      case (Inr u)
      then have "row_key_of ?e \<notin> row_key_of ` set h" unfolding probe by (simp split: if_split_asm)
      then have "wr_limit ?w + wr_before ?w \<le> length h + k" using ok Reprobe by (simp add: phase_ok_def Let_def)
      then show ?thesis using s'(2) Inr by (cases k) (simp_all add: phase_ok_def Let_def)
    qed
    moreover have "answer (?w \<lparr> wr_phase := append_begin k \<rparr>) = []" by (cases k) (simp_all add: answer_def)
    ultimately show ?thesis unfolding s'(1) using Reprobe s'(2) by (intro quiet) (auto simp: answer_def split: sum.split)
  next
    case (Finished r)
    with step have "s' = s" "ws[i := ?w \<lparr> wr_phase := ph \<rparr>] = ws" by (auto simp: list_update_same_conv)
    with inv show ?thesis by auto
  next
    case (Commit k n t)
    have none: "answer ?w = []" using Commit by (simp add: answer_def)
    show ?thesis
    proof (cases "meta_etag b self s = t \<and> length h \<le> n \<and> row_key_of ?e \<notin> row_key_of ` set h")
      case True
      then have n: "n = length h" "t = meta_etag b self s" using ok Commit by (auto simp: phase_ok_def Let_def)
      obtain s'' where s'': "tb_transact b (append_actions self (plan_of dt to_json ?e) (length h) (meta_etag b self s)) s = (Inr (), s'')"
          "valid s''" "issued s \<subseteq> issued s''" "holds_log b self dt to_json s'' (h @ [?e])" "meta_etag b self s'' \<notin> issued s"
        using commit_ok [OF valid holds] True by blast
      then have "s' = s''" "ph = Finished (Inr (entry_for dt (length h) ?e))" using step Commit n by auto
      with inv_append [OF inv i none refl _ s''(2-5)] True show ?thesis by blast
    next
      case False
      obtain s'' m where s'': "tb_transact b (append_actions self (plan_of dt to_json ?e) n t) s = (Inl (AzureTableConflictError m), s'')"
          "valid s''" "issued s \<subseteq> issued s''" "holds_log b self dt to_json s'' h" "meta_etag b self s'' = meta_etag b self s"
        using commit_conflict [OF valid holds False] by blast
      then have s': "s' = s''" "ph = Reprobe k" using step Commit by auto
      have "phase_ok dt (issued s'') (meta_etag b self s) h (?w \<lparr> wr_phase := ph \<rparr>)"
        using ok Commit False by (auto simp: phase_ok_def Let_def s'(2) split: if_split_asm)
      with inv_quiet [OF inv i none _ s''(2-5) this] s' show ?thesis by (auto simp: answer_def)
    qed
  qed
qed

lemma reach_inv:
  assumes "azure_reach b self dt to_json s0 s ws" and start: "valid s0" "holds_log b self dt to_json s0 []"
    and "\<forall>w \<in> set ws. ev_event_id (wr_event w) \<noteq> []"
  shows "\<exists>h. sys_inv self dt to_json s ws h"
  using assms(1,4)
proof induction
  case start
  show ?case using assms(2,3) by (intro exI [of _ "[]"]) (simp add: sys_inv_def answers_def)
next
  case (invoke s ws e n)
  then obtain h where h: "sys_inv self dt to_json s ws h" by auto
  let ?w = "\<lparr> wr_event = e, wr_limit = n, wr_before = length (answers ws), wr_phase = append_begin n \<rparr>"
  have "phase_ok dt (issued s) (meta_etag b self s) h ?w" "answer ?w = []"
    using inv_length [OF h] by (cases n; simp add: phase_ok_def Let_def answer_def)+
  with h show ?case by (intro exI [of _ h]) (auto simp: sys_inv_def answers_def)
next
  case (step s ws i ph s')
  let ?ws = "ws[i := (ws ! i) \<lparr> wr_phase := ph \<rparr>]"
  have "map wr_event ?ws = map wr_event ws"
    unfolding map_update using step.hyps(2) by (simp add: list_update_same_conv)
  from arg_cong [OF this, of set] have "wr_event ` set ?ws = wr_event ` set ws" by simp
  then have ids: "\<forall>w \<in> set ws. ev_event_id (wr_event w) \<noteq> []" using step.prems by (metis (no_types, lifting) image_iff)
  then obtain h where "sys_inv self dt to_json s ws h" using step.IH by blast
  from inv_step [OF this step.hyps(2) ids step.hyps(3)] show ?case .
qed

end

section \<open>Reads of the table of a log\<close>

lemma entry_read:
  assumes "storable to_json of_json e"
  shows "entity_to_entry dt of_json (entry_row self (plan_of dt to_json e) n) (int n) = Inr (entry_for dt n e)"
proof -
  have "event_hash_of dt e \<noteq> []" "leaf_hash_of dt e \<noteq> []"
    by (metis hex64_event_hash_of(1) hex64_def list.size(3) zero_neq_numeral) (metis hex64_event_hash_of(2) hex64_def list.size(3) zero_neq_numeral)
  then show ?thesis
    using assms by (simp add: entity_to_entry_def entry_row_def required_int_def required_str_def plan_of_def storable_def canonical_sha256_native entry_for_def
      flip: event_hash_of_def)
qed

lemma holds_entry_row:
  assumes "holds_log b self dt to_json s h"
  shows "map_option ve_values (tb_get b (as_partition_key self) (entry_row_text n) s) = (if n < length h then Some (entry_row self (plan_of dt to_json (h ! n)) n) else None)"
proof -
  have "map_option ve_values (tb_get b (as_partition_key self) (entry_row_text n) s) = map_of (entry_rows self dt to_json h) (entry_row_text n)"
    using assms by (simp add: holds_log_def)
  then show ?thesis using entry_rows_at [of n h] entry_rows_dom [of self dt to_json h "entry_row_text n"] by (cases "n < length h") auto
qed

lemma read_by_index:
  assumes "holds_log b self dt to_json s h" "\<forall>x \<in> set h. storable to_json of_json x"
  shows "azure_get_by_index b dt of_json self (int n) s = (if n < length h then Inr (entry_for dt n (h ! n)) else Inl (index_not_found (int n)))"
  using holds_entry_row [OF assms(1), of n] assms(2) entry_read
  by (auto simp: azure_get_by_index_def entry_row_key_def index_not_found_def split: option.split if_split_asm)

lemma row_key_collision:
  "row_key_of e = row_key_of e' \<Longrightarrow> ev_event_id e = ev_event_id e' \<or> sha256_collision (utf8 (ev_event_id e), utf8 (ev_event_id e'))"
  by (auto simp: row_key_of_def event_row_key_def sha256_hex_eq utf8_inject)

context table_service
begin

lemma count_holds: "valid s \<Longrightarrow> holds_log b self dt to_json s h \<Longrightarrow> expected_count b self s = Inr (int (length h))"
  by (simp add: expected_count_def load_holds(1)) (simp add: meta_row_def required_int_def)

lemma rows_hold:
  assumes valid: "valid s" and holds: "holds_log b self dt to_json s h"
  shows "length (tb_list_entries b (as_partition_key self) s) = length h"
    and "length h \<le> 10 ^ 20 \<Longrightarrow> tb_list_entries b (as_partition_key self) s = map (\<lambda>n. entry_row self (plan_of dt to_json (h ! n)) n) [0..<length h]"
proof -
  obtain rs where rs: "distinct rs" "sorted rs" "set rs = {r. starts_with ''entry-'' r \<and> tb_get b (as_partition_key self) r s \<noteq> None}"
      "tb_list_entries b (as_partition_key self) s = map (\<lambda>r. ve_values (the (tb_get b (as_partition_key self) r s))) rs"
    using listing [OF valid] by blast
  have "tb_get b (as_partition_key self) r s \<noteq> None \<longleftrightarrow> r \<in> entry_row_text ` {..<length h}" if "starts_with ''entry-'' r" for r
  proof -
    have "map_option ve_values (tb_get b (as_partition_key self) r s) = map_of (entry_rows self dt to_json h) r"
      using that holds by (simp add: holds_log_def)
    with entry_rows_dom [of self dt to_json h r] show ?thesis by (cases "tb_get b (as_partition_key self) r s") auto
  qed
  then have dom: "set rs = entry_row_text ` {..<length h}" using rs(3) by auto
  then have "card (set rs) = length h" by (simp add: card_image inj_on_def)
  then show "length (tb_list_entries b (as_partition_key self) s) = length h" using rs(1,4) by (simp add: distinct_card)
  assume "length h \<le> 10 ^ 20"
  from sorted_entry_rows [OF this rs(1,2) dom] have "rs = map entry_row_text [0..<length h]" .
  moreover have "ve_values (the (tb_get b (as_partition_key self) (entry_row_text n) s)) = entry_row self (plan_of dt to_json (h ! n)) n" if "n < length h" for n
    using holds_entry_row [OF holds, of n] that by auto
  ultimately show "tb_list_entries b (as_partition_key self) s = map (\<lambda>n. entry_row self (plan_of dt to_json (h ! n)) n) [0..<length h]"
    unfolding rs(4) by simp
qed

lemma list_holds:
  assumes valid: "valid s" and holds: "holds_log b self dt to_json s h" and len: "length h \<le> 10 ^ 20" and codec: "\<forall>x \<in> set h. storable to_json of_json x"
  shows "azure_list_entries b dt of_json self s = Inr (entries_of dt h)"
proof -
  let ?rows = "map (\<lambda>n. entry_row self (plan_of dt to_json (h ! n)) n) [0..<length h]"
  have "rmap (\<lambda>(index, e). entity_to_entry dt of_json e (int index)) (enumerate 0 ?rows) = Inr (entries_of dt h)"
    unfolding rmap_eq_Inr list_all2_conv_all_nth using codec entry_read by (auto simp: nth_enumerate_eq)
  moreover have "map le_log_index (entries_of dt h) = [0..int (length h) - 1]"
    by (rule nth_equalityI) (auto simp: nth_upto)
  ultimately show ?thesis
    using rows_hold [OF valid holds] len by (simp add: azure_list_entries_def count_holds [OF valid holds] listed_rows_def)
qed

lemma store_opened:
  assumes "valid s00" "AzureTableEventStore b log_id n s00 = (Inr self, s0)" "\<forall>r. tb_get b (as_partition_key self) r s00 = None"
  shows "valid s0 \<and> holds_log b self dt to_json s0 []"
proof -
  have ens: "ensure_metadata b self s00 = (Inr (), s0)"
    using assms(2) by (auto simp: AzureTableEventStore_def Let_def abind_def acheck_def rcheck_def alift_def split: if_split_asm prod.split_asm sum.split_asm)
  have "table_view b s00 (entity_key (meta_row self 0)) = None" using assms(3) by (simp add: table_view_def)
  then obtain s' t where s': "tb_create b (meta_row self 0) s00 = (Inr (), s')" "valid s'"
      "table_view b s' = (table_view b s00)(entity_key (meta_row self 0) \<mapsto> \<lparr> ve_values = meta_row self 0, ve_etag = t \<rparr>)"
    using create_new [OF assms(1)] by blast
  have "s0 = s'" using ens assms(3) s'(1) by (auto simp: ensure_metadata_def abind_def aread_def alift_def split: sum.split_asm)
  moreover have "tb_get b (as_partition_key self) r s' = (if r = ''meta'' then Some \<lparr> ve_values = meta_row self 0, ve_etag = t \<rparr> else None)" for r
    using fun_cong [OF s'(3), of "(as_partition_key self, r)"] assms(3) by (simp add: table_view_def)
  ultimately show ?thesis using s'(2) by (auto simp: holds_log_def entry_rows_def index_rows_def)
qed

lemma store_opens:
  assumes "valid s00" "\<forall>r. tb_get b (''log-'' @ take 32 (sha256_hex (utf8 (strip log_id)))) r s00 = None" "strip log_id \<noteq> []" "length (strip log_id) \<le> 256" "1 \<le> n" "n \<le> 64"
  shows "\<exists>s0. AzureTableEventStore b log_id n s00 =
    (Inr \<lparr> as_log_id = strip log_id, as_partition_key = ''log-'' @ take 32 (sha256_hex (utf8 (strip log_id))), as_max_append_retries = n \<rparr>, s0)"
proof -
  let ?self = "\<lparr> as_log_id = strip log_id, as_partition_key = ''log-'' @ take 32 (sha256_hex (utf8 (strip log_id))), as_max_append_retries = n \<rparr>"
  have none: "tb_get b (as_partition_key ?self) ''meta'' s00 = None" "table_view b s00 (entity_key (meta_row ?self 0)) = None" using assms(2) by (simp_all add: table_view_def)
  obtain s' t where s': "tb_create b (meta_row ?self 0) s00 = (Inr (), s')" "valid s'"
      "table_view b s' = (table_view b s00)(entity_key (meta_row ?self 0) \<mapsto> \<lparr> ve_values = meta_row ?self 0, ve_etag = t \<rparr>)"
    using create_new [OF assms(1) none(2)] by blast
  have "tb_get b (as_partition_key ?self) r s' = (if r = ''meta'' then Some \<lparr> ve_values = meta_row ?self 0, ve_etag = t \<rparr> else None)" for r
    using fun_cong [OF s'(3), of "(as_partition_key ?self, r)"] assms(2) by (simp add: table_view_def)
  then have "holds_log b ?self dt to_json s' []" for dt to_json by (auto simp: holds_log_def entry_rows_def index_rows_def)
  from load_holds(1) [OF s'(2) this] none(1) s'(1) have "ensure_metadata b ?self s00 = (Inr (), s')"
    by (simp add: ensure_metadata_def abind_def aread_def alift_def)
  then show ?thesis using assms(3-6) by (simp add: AzureTableEventStore_def Let_def action_simps abind_def [of "ensure_metadata _ _"])
qed

text \<open>A store opened on a table that holds a log changes nothing.\<close>

lemma store_reopened:
  assumes "valid s" "holds_log b self dt to_json s h"
  shows "ensure_metadata b self s = (Inr (), s)"
  using holds_meta [OF assms(2)] load_holds(1) [OF assms] by (simp add: ensure_metadata_def abind_def aread_def alift_def)

lemma append_effect:
  assumes valid: "valid s" and holds: "holds_log b self dt to_json s h" and ids: "\<forall>x \<in> set h. ev_event_id x \<noteq> []" and n: "1 \<le> as_max_append_retries self"
  shows "if row_key_of e \<notin> row_key_of ` set h
    then \<exists>s'. azure_append b dt to_json self e s = (Inr (entry_for dt (length h) e), s') \<and> valid s' \<and> holds_log b self dt to_json s' (h @ [e])
    else azure_append b dt to_json self e s = (Inl (if ev_event_id e \<in> ev_event_id ` set h then duplicate_error (ev_event_id e) else key_collision), s)"
proof -
  obtain k where k: "nat (as_max_append_retries self) = Suc k" using n by (cases "nat (as_max_append_retries self)") auto
  have app: "azure_append b dt to_json self e s = append_attempts b self (plan_of dt to_json e) (Suc k) s"
    by (simp add: azure_append_def plan_append_plan k action_simps del: append_attempts.simps)
  note probe = probe_holds [OF holds ids, of e]
  show ?thesis
  proof (cases "row_key_of e \<in> row_key_of ` set h")
    case True
    then show ?thesis by (simp add: app action_simps probe)
  next
    case False
    with commit_ok [OF valid holds False] show ?thesis
      by (auto simp: app action_simps probe load_holds(2) [OF valid holds])
  qed
qed

end

lemma reach_steps:
  assumes "azure_reach b self dt to_json s0 s ws" "i < length ws"
    "((append_step b self (plan_of dt to_json (wr_event (ws ! i)))) ^^ n) (wr_phase (ws ! i), s) = (ph, s')"
  shows "azure_reach b self dt to_json s0 s' (ws[i := (ws ! i) \<lparr> wr_phase := ph \<rparr>])"
  using assms(3)
proof (induction n arbitrary: ph s')
  case 0
  then have "(ws ! i) \<lparr> wr_phase := ph \<rparr> = ws ! i" "s' = s" by auto
  then show ?case using assms(1) by simp
next
  case (Suc n)
  obtain q t where q: "((append_step b self (plan_of dt to_json (wr_event (ws ! i)))) ^^ n) (wr_phase (ws ! i), s) = (q, t)"
    by (cases "((append_step b self (plan_of dt to_json (wr_event (ws ! i)))) ^^ n) (wr_phase (ws ! i), s)")
  have "append_step b self (plan_of dt to_json (wr_event (ws ! i))) (q, t) = (ph, s')" using Suc.prems q by simp
  with azure_reach.step [OF Suc.IH [OF q], of i ph s'] assms(2) show ?case by simp
qed

text \<open>A whole \<^verbatim>\<open>append\<close> is one of the interleavings.\<close>

lemma reach_append:
  assumes "azure_reach b self dt to_json s0 s ws" "azure_append b dt to_json self e s = (r, s')"
  shows "azure_reach b self dt to_json s0 s' (ws @ [\<lparr> wr_event = e, wr_limit = nat (as_max_append_retries self), wr_before = length (answers ws), wr_phase = Finished r \<rparr>])"
proof -
  let ?n = "nat (as_max_append_retries self)"
  let ?ws = "ws @ [\<lparr> wr_event = e, wr_limit = ?n, wr_before = length (answers ws), wr_phase = append_begin ?n \<rparr>]"
  have app: "append_attempts b self (plan_of dt to_json e) ?n s = (r, s')" using assms(2) by (simp add: azure_append_def plan_append_plan action_simps)
  obtain k where "((append_step b self (plan_of dt to_json e)) ^^ k) (append_begin ?n, s) = (Finished r, s')"
    using append_steps_alone [of b self "plan_of dt to_json e" ?n s] app by auto
  with reach_steps [OF azure_reach.invoke [OF assms(1), of e ?n], of "length ws" k "Finished r" s'] show ?thesis by (simp add: nth_append)
qed

section \<open>Properties\<close>

lemma reached:
  assumes ts: "table_service b valid issued" and "valid s00" "\<forall>r. tb_get b (as_partition_key self) r s00 = None"
    and "AzureTableEventStore b log_id n s00 = (Inr self, s0)" "azure_reach b self dt to_json s0 s ws"
    and codec: "\<forall>w \<in> set ws. storable to_json of_json (wr_event w)"
  shows "\<exists>h. valid s \<and> holds_log b self dt to_json s h \<and> mset (answers ws) = mset (entries_of dt h) \<and> length (answers ws) = length h \<and>
    (\<forall>x \<in> set h. storable to_json of_json x) \<and> (\<forall>w \<in> set ws. phase_ok dt (issued s) (meta_etag b self s) h w)"
proof -
  have "valid s0 \<and> holds_log b self dt to_json s0 []" by (rule table_service.store_opened [OF ts assms(2,4,3)])
  moreover have "\<forall>w \<in> set ws. ev_event_id (wr_event w) \<noteq> []" using codec by (simp add: storable_def)
  ultimately obtain h where h: "table_service.sys_inv b valid issued self dt to_json s ws h"
    using table_service.reach_inv [OF ts assms(5)] by blast
  moreover have "\<forall>x \<in> set h. storable to_json of_json x" using table_service.inv_events [OF ts h] codec by auto
  ultimately show ?thesis
    using table_service.inv_length [OF ts h] by (auto simp: table_service.sys_inv_def [OF ts])
qed

lemma holds_distinct_ids: "holds_log b self dt to_json s h \<Longrightarrow> distinct (map ev_event_id h)"
  by (auto simp: holds_log_def distinct_map inj_on_def row_key_of_def)

definition fake_empty :: fake_table where
  "fake_empty = \<lparr> ft_version = 0, ft_entities = [] \<rparr>"

text \<open>One run on the table of the tests: the store is opened, a first append of an event succeeds and a second append of it is refused.\<close>

lemma fake_empty_facts: "fake_valid fake_empty" "\<forall>r. tb_get fake_backend p r fake_empty = None"
  by (simp_all add: fake_empty_def fake_valid_def fake_backend_def fake_get_def)

lemma sample_event_id: "ev_event_id sample_event \<noteq> []"
  by (simp add: sample_event_def)

lemma fake_run:
  fixes dt and e :: evidence_event
  assumes "ev_event_id e \<noteq> []"
  shows "\<exists>self s0 s1 w1 w2. AzureTableEventStore fake_backend ''ets'' 4 fake_empty = (Inr self, s0) \<and>
    azure_append fake_backend dt (\<lambda>_. ''j'') self e s0 = (Inr (entry_for dt 0 e), s1) \<and>
    azure_reach fake_backend self dt (\<lambda>_. ''j'') s0 s1 [w1] \<and> answers [w1] = [entry_for dt 0 e] \<and> wr_event w1 = e \<and>
    azure_reach fake_backend self dt (\<lambda>_. ''j'') s0 s1 [w1, w2] \<and> answers [w1, w2] = [entry_for dt 0 e] \<and> wr_event w2 = e \<and>
    wr_phase w2 = Finished (Inl (duplicate_error (ev_event_id e)))"
proof -
  let ?j = "\<lambda>_ :: evidence_event. ''j''"
  have ts: "table_service fake_backend fake_valid fake_issued" by (rule fake.table_service_axioms)
  note empty = fake_empty_facts
  have strip: "strip ''ets'' = ''ets''" by code_simp
  obtain self s0 where opened: "AzureTableEventStore fake_backend ''ets'' 4 fake_empty = (Inr self, s0)" "as_max_append_retries self = 4"
    using table_service.store_opens [OF ts empty(1,2), of "''ets''" 4] by (auto simp: strip)
  have s0: "fake_valid s0 \<and> holds_log fake_backend self dt ?j s0 []"
    using table_service.store_opened [OF ts empty(1) opened(1)] empty(2) by blast
  obtain s1 where s1: "azure_append fake_backend dt ?j self e s0 = (Inr (entry_for dt 0 e), s1)" "fake_valid s1" "holds_log fake_backend self dt ?j s1 [e]"
    using table_service.append_effect [OF ts, of s0 self dt ?j "[]" e] s0 opened(2) by auto
  have s2: "azure_append fake_backend dt ?j self e s1 = (Inl (duplicate_error (ev_event_id e)), s1)"
    using table_service.append_effect [OF ts s1(2,3), of e] opened(2) assms by simp
  note r1 = reach_append [OF azure_reach.start s1(1)]
  note r2 = reach_append [OF r1 s2]
  show ?thesis using opened(1) s1(1) r1 r2 by (intro exI conjI) (auto simp: answers_def answer_def)
qed

text \<open>
  C36. Concurrent appends are linearised: however the calls of any number of writers interleave on a table with atomic
  transactions and fresh entity tags, the table always lists a log of events with distinct identifiers, and the entries
  returned to the writers that have succeeded are exactly the entries of that log, each returned to one writer. No update is
  lost, and no index is given out twice. (Row keys are padded to twenty digits, so the listing is in order up to \<open>10 ^ 20\<close> entries.)
\<close>

theorem concurrent_appends_linearize:
  assumes "table_service b valid issued" "valid s00" "\<forall>r. tb_get b (as_partition_key self) r s00 = None"
    "AzureTableEventStore b log_id n s00 = (Inr self, s0)" "azure_reach b self dt to_json s0 s ws"
    "\<forall>w \<in> set ws. storable to_json of_json (wr_event w)" "length (answers ws) \<le> 10 ^ 20"
  shows "\<exists>h. azure_list_entries b dt of_json self s = Inr (entries_of dt h) \<and> distinct (map ev_event_id h) \<and> mset (answers ws) = mset (entries_of dt h)"
proof -
  obtain h where h: "valid s" "holds_log b self dt to_json s h" "mset (answers ws) = mset (entries_of dt h)" "length (answers ws) = length h"
      "\<forall>x \<in> set h. storable to_json of_json x"
    using reached [OF assms(1-6)] by blast
  then have "azure_list_entries b dt of_json self s = Inr (entries_of dt h)"
    using table_service.list_holds [OF assms(1) h(1,2)] assms(7) by simp
  with h(3) holds_distinct_ids [OF h(2)] show ?thesis by blast
qed

theorem concurrent_appends_linearize_witness:
  "\<exists>self s0 s w h. AzureTableEventStore fake_backend ''ets'' 4 fake_empty = (Inr self, s0) \<and>
    azure_reach fake_backend self (\<lambda>_. ''t'') (\<lambda>_. ''j'') s0 s [w] \<and> length (answers [w]) = 1 \<and>
    azure_list_entries fake_backend (\<lambda>_. ''t'') (\<lambda>_. Inr sample_event) self s = Inr (entries_of (\<lambda>_. ''t'') h) \<and>
    distinct (map ev_event_id h) \<and> mset (answers [w]) = mset (entries_of (\<lambda>_. ''t'') h)"
proof -
  obtain self s0 s w where run: "AzureTableEventStore fake_backend ''ets'' 4 fake_empty = (Inr self, s0)"
      "azure_reach fake_backend self (\<lambda>_. ''t'') (\<lambda>_. ''j'') s0 s [w]" "answers [w] = [entry_for (\<lambda>_. ''t'') 0 sample_event]" "wr_event w = sample_event"
    using fake_run [OF sample_event_id, of "\<lambda>_. ''t''"] by blast
  have "\<forall>w \<in> set [w]. storable (\<lambda>_. ''j'') (\<lambda>_. Inr sample_event) (wr_event w)" by (simp add: run(4) storable_def sample_event_id)
  then show ?thesis
    using concurrent_appends_linearize [OF fake.table_service_axioms fake_empty_facts run(1,2)] run by fastforce
qed

text \<open>
  A concurrent append fails only for a reason: with a duplicate error when the log holds an event of the same identifier;
  when its retries are exceeded, as many appends as it had attempts have succeeded since it was invoked, so some writer always makes
  progress; and otherwise only when its identifier and one in the log are a SHA-256 collision.
\<close>

theorem failed_append_is_justified:
  assumes "table_service b valid issued" "valid s00" "\<forall>r. tb_get b (as_partition_key self) r s00 = None"
    "AzureTableEventStore b log_id n s00 = (Inr self, s0)" "azure_reach b self dt to_json s0 s ws"
    "\<forall>w \<in> set ws. storable to_json of_json (wr_event w)" "w \<in> set ws" "wr_phase w = Finished (Inl x)"
  shows "x = duplicate_error (ev_event_id (wr_event w)) \<and> (\<exists>en \<in> set (answers ws). le_event_id en = ev_event_id (wr_event w)) \<or>
    x = retries_exceeded \<and> wr_before w + wr_limit w \<le> length (answers ws) \<or>
    x = key_collision \<and> (\<exists>en \<in> set (answers ws). sha256_collision (utf8 (ev_event_id (wr_event w)), utf8 (le_event_id en)))"
proof -
  obtain h where h: "mset (answers ws) = mset (entries_of dt h)" "length (answers ws) = length h" "phase_ok dt (issued s) (meta_etag b self s) h w"
    using reached [OF assms(1-6)] assms(7) by blast
  have mem: "\<exists>en \<in> set (answers ws). le_event en = y" if "y \<in> set h" for y
  proof -
    have "y \<in> le_event ` set (entries_of dt h)" using that by (metis map_event_entries_of set_map)
    then show ?thesis using mset_eq_setD [OF h(1)] by auto
  qed
  let ?e = "wr_event w"
  from h(3) assms(8) consider "x = retries_exceeded" "wr_limit w + wr_before w \<le> length h"
    | "x = duplicate_error (ev_event_id ?e)" "ev_event_id ?e \<in> ev_event_id ` set h"
    | "x = key_collision" "row_key_of ?e \<in> row_key_of ` set h" "ev_event_id ?e \<notin> ev_event_id ` {y \<in> set h. row_key_of y = row_key_of ?e}"
    unfolding phase_ok_def Let_def by fastforce
  then show ?thesis
  proof cases
    case 1
    with h(2) show ?thesis by (simp add: add.commute)
  next
    case 2
    then obtain y where "y \<in> set h" "ev_event_id y = ev_event_id ?e" by auto
    with mem [of y] 2(1) show ?thesis by auto
  next
    case 3
    then obtain y where y: "y \<in> set h" "row_key_of ?e = row_key_of y" by blast
    with 3(3) have "ev_event_id ?e \<noteq> ev_event_id y" by (metis (mono_tags, lifting) image_eqI mem_Collect_eq)
    with row_key_collision [OF y(2)] have "sha256_collision (utf8 (ev_event_id ?e), utf8 (ev_event_id y))" by blast
    with mem [OF y(1)] 3(1) show ?thesis by blast
  qed
qed

theorem failed_append_is_justified_witness:
  "\<exists>self s0 s w1 w2. AzureTableEventStore fake_backend ''ets'' 4 fake_empty = (Inr self, s0) \<and>
    azure_reach fake_backend self (\<lambda>_. ''t'') (\<lambda>_. ''j'') s0 s [w1, w2] \<and>
    wr_phase w2 = Finished (Inl (duplicate_error (ev_event_id sample_event))) \<and>
    (\<exists>en \<in> set (answers [w1, w2]). le_event_id en = ev_event_id sample_event)"
proof -
  obtain self s0 s w1 w2 where run: "AzureTableEventStore fake_backend ''ets'' 4 fake_empty = (Inr self, s0)"
      "azure_reach fake_backend self (\<lambda>_. ''t'') (\<lambda>_. ''j'') s0 s [w1, w2]" "wr_event w1 = sample_event" "wr_event w2 = sample_event"
      "wr_phase w2 = Finished (Inl (duplicate_error (ev_event_id sample_event)))"
    using fake_run [OF sample_event_id, of "\<lambda>_. ''t''"] by blast
  have "\<forall>w \<in> set [w1, w2]. storable (\<lambda>_. ''j'') (\<lambda>_. Inr sample_event) (wr_event w)" by (simp add: run(3,4) storable_def sample_event_id)
  then have "\<exists>en \<in> set (answers [w1, w2]). le_event_id en = ev_event_id sample_event"
    using failed_append_is_justified [OF fake.table_service_axioms fake_empty_facts run(1,2), of "\<lambda>_. Inr sample_event" w2] run(4,5)
    by (auto simp: duplicate_error_def retries_exceeded_def key_collision_def)
  with run show ?thesis by blast
qed

text \<open>
  C37. \<^verbatim>\<open>list_entries\<close> is not atomic: it reads the metadata and then the rows. When an append of another writer takes effect between the
  two calls, the listing of a sound log raises a storage validation error that reports a corrupted table.
\<close>

theorem list_entries_races_with_append:
  assumes "table_service b valid issued" "valid s00" "\<forall>r. tb_get b (as_partition_key self) r s00 = None"
    "AzureTableEventStore b log_id n s00 = (Inr self, s0)" "azure_reach b self dt to_json s0 s ws" "azure_reach b self dt to_json s0 s' ws'"
    "\<forall>w \<in> set ws \<union> set ws'. storable to_json of_json (wr_event w)" "length (answers ws) < length (answers ws')"
  shows "rbind (expected_count b self s) (\<lambda>k. listed_rows b dt of_json self k s') =
    Inl (StorageValidationError ''Azure Table log metadata does not match entry count'')"
proof -
  obtain h where h: "valid s" "holds_log b self dt to_json s h" "length (answers ws) = length h"
    using reached [OF assms(1-5)] assms(7) by blast
  obtain h' where h': "valid s'" "holds_log b self dt to_json s' h'" "length (answers ws') = length h'"
    using reached [OF assms(1-4,6)] assms(7) by blast
  then show ?thesis
    using table_service.count_holds [OF assms(1) h(1,2)] table_service.rows_hold(1) [OF assms(1) h'(1,2)] h(3) assms(8) by (simp add: listed_rows_def)
qed

theorem list_entries_races_with_append_witness:
  "\<exists>self s0 s'. AzureTableEventStore fake_backend ''ets'' 4 fake_empty = (Inr self, s0) \<and>
    azure_append fake_backend (\<lambda>_. ''t'') (\<lambda>_. ''j'') self sample_event s0 = (Inr (entry_for (\<lambda>_. ''t'') 0 sample_event), s') \<and>
    rbind (expected_count fake_backend self s0) (\<lambda>k. listed_rows fake_backend (\<lambda>_. ''t'') (\<lambda>_. Inr sample_event) self k s') =
    Inl (StorageValidationError ''Azure Table log metadata does not match entry count'')"
proof -
  obtain self s0 s' w where run: "AzureTableEventStore fake_backend ''ets'' 4 fake_empty = (Inr self, s0)"
      "azure_append fake_backend (\<lambda>_. ''t'') (\<lambda>_. ''j'') self sample_event s0 = (Inr (entry_for (\<lambda>_. ''t'') 0 sample_event), s')"
      "azure_reach fake_backend self (\<lambda>_. ''t'') (\<lambda>_. ''j'') s0 s' [w]" "answers [w] = [entry_for (\<lambda>_. ''t'') 0 sample_event]" "wr_event w = sample_event"
    using fake_run [OF sample_event_id, of "\<lambda>_. ''t''"] by blast
  have "\<forall>w \<in> set [] \<union> set [w]. storable (\<lambda>_. ''j'') (\<lambda>_. Inr sample_event) (wr_event w)" by (simp add: run(5) storable_def sample_event_id)
  then show ?thesis
    using list_entries_races_with_append [OF fake.table_service_axioms fake_empty_facts run(1) azure_reach.start run(3)] run(1,2,4)
    by (force simp: answers_def)
qed

section \<open>Refinement\<close>

definition azure_submit_all :: "'s table_backend \<Rightarrow> (utc \<Rightarrow> string) \<Rightarrow> (evidence_event \<Rightarrow> string) \<Rightarrow> azure_store \<Rightarrow> evidence_event list \<Rightarrow> 's \<Rightarrow> 's" where
  "azure_submit_all b dt to_json self es s = foldl (\<lambda>s e. snd (azure_append b dt to_json self e s)) s es"

definition id_collision :: "evidence_event list \<Rightarrow> bool" where
  "id_collision es \<longleftrightarrow> (\<exists>e \<in> set es. \<exists>e' \<in> set es. sha256_collision (utf8 (ev_event_id e), utf8 (ev_event_id e')))"

lemma submit_all_holds:
  assumes ts: "table_service b valid issued" and n: "1 \<le> as_max_append_retries self"
  shows "valid s \<Longrightarrow> holds_log b self dt to_json s h \<Longrightarrow> \<forall>e \<in> set (h @ es). ev_event_id e \<noteq> [] \<Longrightarrow> \<not> id_collision (h @ es) \<Longrightarrow>
    valid (azure_submit_all b dt to_json self es s) \<and> holds_log b self dt to_json (azure_submit_all b dt to_json self es s) (foldl accept h es)"
proof (induction es arbitrary: s h)
  case (Cons e es)
  have eff: "if row_key_of e \<notin> row_key_of ` set h
    then \<exists>s'. azure_append b dt to_json self e s = (Inr (entry_for dt (length h) e), s') \<and> valid s' \<and> holds_log b self dt to_json s' (h @ [e])
    else azure_append b dt to_json self e s = (Inl (if ev_event_id e \<in> ev_event_id ` set h then duplicate_error (ev_event_id e) else key_collision), s)"
    using Cons.prems(3) by (intro table_service.append_effect [OF ts Cons.prems(1,2) _ n]) simp
  have fresh: "row_key_of e \<in> row_key_of ` set h \<longleftrightarrow> ev_event_id e \<in> ev_event_id ` set h"
  proof
    assume "row_key_of e \<in> row_key_of ` set h"
    then obtain x where x: "x \<in> set h" "row_key_of e = row_key_of x" by auto
    then have "\<not> sha256_collision (utf8 (ev_event_id e), utf8 (ev_event_id x))" using Cons.prems(4) by (simp add: id_collision_def)
    with row_key_collision [OF x(2)] x(1) show "ev_event_id e \<in> ev_event_id ` set h" by auto
  next
    assume "ev_event_id e \<in> ev_event_id ` set h"
    then obtain x where "x \<in> set h" "ev_event_id e = ev_event_id x" by auto
    then show "row_key_of e \<in> row_key_of ` set h" by (metis image_eqI row_key_of_def)
  qed
  let ?s = "snd (azure_append b dt to_json self e s)"
  have "valid ?s \<and> holds_log b self dt to_json ?s (accept h e)"
    using eff fresh Cons.prems(1,2) by (auto simp: accept_def split: if_split_asm)
  moreover have "set (accept h e @ es) \<subseteq> set (h @ e # es)" by (auto simp: accept_def)
  then have "\<forall>x \<in> set (accept h e @ es). ev_event_id x \<noteq> []" "\<not> id_collision (accept h e @ es)"
    using Cons.prems(3,4) unfolding id_collision_def by blast+
  ultimately show ?case using Cons.IH [of ?s "accept h e"] by (simp add: azure_submit_all_def)
qed (simp add: azure_submit_all_def)

text \<open>
  Used by one process, the Azure store is interchangeable with the in-memory log: after the same submissions to an empty
  store of each kind, both list the same entries and return the same answer for every index, errors included, unless the identifiers of two of the
  submitted events are a SHA-256 collision.
\<close>

theorem azure_refines_in_memory:
  fixes b :: "'s table_backend" and dt to_json of_json self es s0
  assumes ts: "table_service b valid issued" "valid s00" "\<forall>r. tb_get b (as_partition_key self) r s00 = None"
    and opened: "AzureTableEventStore b log_id n s00 = (Inr self, s0)"
    and es: "\<forall>e \<in> set es. storable to_json of_json e" "length es \<le> 10 ^ 20" and i: "0 \<le> i"
  defines "s \<equiv> azure_submit_all b dt to_json self es s0" and "mlog \<equiv> submit_all (iml_append dt) iml_init es"
  shows "azure_list_entries b dt of_json self s = Inr (iml_list_entries mlog) \<and> azure_get_by_index b dt of_json self i s = iml_get_by_index mlog i \<or> id_collision es"
proof (cases "id_collision es")
  case False
  have "valid s0 \<and> holds_log b self dt to_json s0 []" by (rule table_service.store_opened [OF ts(1,2) opened ts(3)])
  moreover have "1 \<le> as_max_append_retries self"
    using opened by (auto simp: AzureTableEventStore_def Let_def abind_def acheck_def rcheck_def alift_def split: if_split_asm prod.split_asm sum.split_asm)
  ultimately have s: "valid s" "holds_log b self dt to_json s (accepted es)"
    using submit_all_holds [OF ts(1), of self s0 dt to_json "[]" es] es(1) False by (auto simp: s_def accepted_def storable_def)
  have sub: "set (accepted es) \<subseteq> set es" "length (accepted es) \<le> length es"
  proof -
    have "set (foldl accept h es) \<subseteq> set h \<union> set es \<and> length (foldl accept h es) \<le> length h + length es" for h
    proof (induction es arbitrary: h)
      case (Cons e es)
      have "set (accept h e) \<subseteq> insert e (set h)" "length (accept h e) \<le> Suc (length h)" by (auto simp: accept_def)
      with Cons.IH [of "accept h e"] show ?case by auto
    qed simp
    from this [of "[]"] show "set (accepted es) \<subseteq> set es" "length (accepted es) \<le> length es" by (simp_all add: accepted_def)
  qed
  have m: "iml_inv dt mlog" "iml_history mlog = accepted es" "iml_list_entries mlog = entries_of dt (accepted es)"
    using mem.from_start [of es dt] by (simp_all add: mlog_def)
  have codec: "\<forall>e \<in> set (accepted es). storable to_json of_json e" using es(1) sub(1) by blast
  have "azure_list_entries b dt of_json self s = Inr (iml_list_entries mlog)"
    using table_service.list_holds [OF ts(1) s _ codec] sub(2) es(2) m(3) by simp
  moreover obtain k where k: "i = int k" using i nonneg_int_cases by blast
  have "azure_get_by_index b dt of_json self i s = iml_get_by_index mlog i"
    using read_by_index [OF s(2) codec, of k] mem.by_index_found [of dt mlog k] mem.by_index_missing [of dt mlog k] m by (auto simp: k not_less)
  ultimately show ?thesis by blast
qed simp

theorem azure_refines_in_memory_witness:
  "\<exists>self s0. AzureTableEventStore fake_backend ''ets'' 4 fake_empty = (Inr self, s0) \<and>
    (let s = azure_submit_all fake_backend (\<lambda>_. ''t'') (\<lambda>_. ''j'') self [sample_event, sample_event] s0;
         mlog = submit_all (iml_append (\<lambda>_. ''t'')) iml_init [sample_event, sample_event]
     in azure_list_entries fake_backend (\<lambda>_. ''t'') (\<lambda>_. Inr sample_event) self s = Inr (iml_list_entries mlog))"
proof -
  obtain self s0 where run: "AzureTableEventStore fake_backend ''ets'' 4 fake_empty = (Inr self, s0)"
    using fake_run [OF sample_event_id, of "\<lambda>_. ''t''"] by blast
  have "\<not> id_collision [sample_event, sample_event]" by (simp add: id_collision_def sha256_collision_def)
  moreover have "\<forall>e \<in> set [sample_event, sample_event]. storable (\<lambda>_. ''j'') (\<lambda>_. Inr sample_event) e" by (simp add: storable_def sample_event_id)
  ultimately show ?thesis
    using azure_refines_in_memory [OF fake.table_service_axioms fake_empty_facts run, of "[sample_event, sample_event]" "\<lambda>_. ''j''" "\<lambda>_. Inr sample_event" 0 "\<lambda>_. ''t''"] run
    by (auto simp: Let_def)
qed

end
