(* ===== verification/Ets_Ranger_Publication.thy ===== *)
theory Ets_Ranger_Publication
  imports Ets_Events Ets_Linked Ets_Text
begin

text \<open>
  External publication of retained Ranger receipts (\<^verbatim>\<open>ets/ranger/external_publication.py\<close>): a publisher signs a
  hash-chained sequence of receipts, and a verifier checks a presented chain against a head it learned elsewhere.

  A receipt is linked to its predecessor by the digest of its signed payload; \<open>hash_linked\<close> gives that the head of a chain binds
  every receipt in it. Times are instants: the field validators convert an aware datetime to UTC and raise on a naive one, and no datetime is
  before year 1.
\<close>

section \<open>Receipts\<close>

datatype subject_kind = Administrative_Approval | Key_Authority_Event | Retained_Authority_Head | Authority_Bound_Checkpoint

fun subject_kind_text :: "subject_kind \<Rightarrow> string" where
  "subject_kind_text Administrative_Approval = ''administrative_approval''"
| "subject_kind_text Key_Authority_Event = ''key_authority_event''"
| "subject_kind_text Retained_Authority_Head = ''retained_authority_head''"
| "subject_kind_text Authority_Bound_Checkpoint = ''authority_bound_checkpoint''"

definition supported_subjects :: "subject_kind set" where
  "supported_subjects = {Retained_Authority_Head, Authority_Bound_Checkpoint}"

definition zero_digest :: string where
  "zero_digest = replicate 64 (CHR ''0'')"

record publication_receipt =
  xr_publication_id :: string
  xr_sequence :: int
  xr_previous :: string
  xr_subject_kind :: subject_kind
  xr_subject_digest :: string
  xr_time_digest :: string
  xr_registry_id :: string
  xr_registry_key_id :: string
  xr_published_at :: utc
  xr_publisher_id :: string
  xr_publisher_key_id :: string
  xr_publisher_fingerprint :: string
  xr_digest :: string
  xr_signature :: string

text \<open>\<^verbatim>\<open>^[0-9a-f]{128}$\<close>, the form of a signature.\<close>

definition signature_text :: "string \<Rightarrow> bool" where
  "signature_text s \<longleftrightarrow> length s = 128 \<and> list_all lower_hex s"

definition int64_positive :: "int \<Rightarrow> bool" where
  "int64_positive n \<longleftrightarrow> 1 \<le> n \<and> n \<le> 2 ^ 63 - 1"

definition predecessor_ok :: "int \<Rightarrow> string \<Rightarrow> bool" where
  "predecessor_ok sequence previous \<longleftrightarrow> (if sequence = 1 then previous = zero_digest else previous \<noteq> zero_digest)"

definition receipt_ok :: "publication_receipt \<Rightarrow> bool" where
  "receipt_ok r \<longleftrightarrow> field_length 1 256 (xr_publication_id r) \<and> int64_positive (xr_sequence r) \<and> xr_subject_kind r \<in> supported_subjects \<and>
     list_all sha256_text [xr_previous r, xr_subject_digest r, xr_time_digest r, xr_publisher_fingerprint r, xr_digest r] \<and>
     list_all (field_length 1 160) [xr_registry_id r, xr_publisher_id r] \<and>
     list_all (field_length 1 256) [xr_registry_key_id r, xr_publisher_key_id r] \<and>
     0 \<le> xr_published_at r \<and> signature_text (xr_signature r) \<and> predecessor_ok (xr_sequence r) (xr_previous r)"

definition RangerExternalPublicationReceipt :: "publication_receipt \<Rightarrow> publication_receipt result" where
  "RangerExternalPublicationReceipt r = (if receipt_ok r then Inr r else Inl (ValidationError ''RangerExternalPublicationReceipt''))"

definition publication_payload :: "publication_receipt \<Rightarrow> json" where
  "publication_payload r = JObj
     [(''schema_version'', JStr ''ets.ranger.external-publication-receipt.v1''), (''publication_id'', JStr (xr_publication_id r)),
      (''publication_sequence'', JInt (xr_sequence r)), (''previous_publication_digest_sha256'', JStr (xr_previous r)),
      (''subject_kind'', JStr (subject_kind_text (xr_subject_kind r))), (''subject_digest_sha256'', JStr (xr_subject_digest r)),
      (''time_attestation_digest_sha256'', JStr (xr_time_digest r)), (''registry_id'', JStr (xr_registry_id r)),
      (''registry_signing_key_id'', JStr (xr_registry_key_id r)), (''published_at_utc'', JStr (isoformat_z (xr_published_at r))),
      (''publisher_id'', JStr (xr_publisher_id r)), (''publisher_signing_key_id'', JStr (xr_publisher_key_id r)),
      (''publisher_public_key_fingerprint_sha256'', JStr (xr_publisher_fingerprint r)), (''signing_algorithm'', JStr ''ed25519''),
      (''configured_external_publisher_receipt'', JBool True), (''continued_external_custody_proven'', JBool False),
      (''publisher_organizational_independence_proven'', JBool False), (''publisher_clock_trusted'', JBool False),
      (''globally_current_state_proven'', JBool False), (''complete_capture_proven'', JBool False), (''semantic_truth_proven'', JBool False),
      (''physical_outcome_proven'', JBool False),
      (''claim_boundary'', JStr ''configured_external_publisher_receipt_no_continued_custody_independence_or_truth_claim'')]"

section \<open>Keys\<close>

definition key_bytes :: "string \<Rightarrow> byte list option" where
  "key_bytes v = (case fromhex_opt v of Some b \<Rightarrow> if length b = 32 then Some b else None | None \<Rightarrow> None)"

definition load_private_key :: "exn \<Rightarrow> string \<Rightarrow> byte list result" where
  "load_private_key e v = rget e (key_bytes v)"

definition key_fingerprint :: "byte list \<Rightarrow> string" where
  "key_fingerprint key = sha256_hex key"

definition sign_hex :: "ed25519 \<Rightarrow> byte list \<Rightarrow> json \<Rightarrow> string" where
  "sign_hex ed key payload = hexlify (ed_sign ed key (canon payload))"

section \<open>The publisher\<close>

record publisher =
  pu_publisher_id :: string
  pu_key_id :: string
  pu_private_key :: "byte list"
  pu_registry_id :: string
  pu_registry_key_id :: string

definition RangerExternalPublisher :: "string \<Rightarrow> string \<Rightarrow> string \<Rightarrow> string \<Rightarrow> string \<Rightarrow> publisher result" where
  "RangerExternalPublisher publisher_id key_id private_key_hex registry_id registry_key_id =
     rbind (load_private_key (RangerExternalPublicationError ''publisher private key must be a 32-byte Ed25519 key'') private_key_hex) (\<lambda>key.
     Inr \<lparr> pu_publisher_id = publisher_id, pu_key_id = key_id, pu_private_key = key,
       pu_registry_id = registry_id, pu_registry_key_id = registry_key_id \<rparr>)"

definition publisher_public_key_hex :: "ed25519 \<Rightarrow> publisher \<Rightarrow> string" where
  "publisher_public_key_hex ed p = hexlify (ed_public ed (pu_private_key p))"

definition latest_publication_digest :: "publication_receipt list \<Rightarrow> string option" where
  "latest_publication_digest receipts = (if receipts = [] then None else Some (xr_digest (last receipts)))"

record publication_request =
  pq_publication_id :: string
  pq_subject_kind :: subject_kind
  pq_subject_digest :: string
  pq_time_digest :: string
  pq_registry_id :: string
  pq_registry_key_id :: string
  pq_published_at :: datetime

definition receipt_binding :: "publication_receipt \<Rightarrow> subject_kind \<times> string \<times> string" where
  "receipt_binding r = (xr_subject_kind r, xr_subject_digest r, xr_time_digest r)"

text \<open>The receipt \<^verbatim>\<open>publish\<close> builds: the digest and the signature are over the payload of the other fields.\<close>

definition new_receipt :: "ed25519 \<Rightarrow> publisher \<Rightarrow> publication_receipt list \<Rightarrow> publication_request \<Rightarrow> utc \<Rightarrow> publication_receipt" where
  "new_receipt ed p receipts q published_at =
     (let r = \<lparr> xr_publication_id = pq_publication_id q, xr_sequence = int (length receipts) + 1,
            xr_previous = (case latest_publication_digest receipts of None \<Rightarrow> zero_digest | Some d \<Rightarrow> d),
            xr_subject_kind = pq_subject_kind q, xr_subject_digest = pq_subject_digest q, xr_time_digest = pq_time_digest q,
            xr_registry_id = pq_registry_id q, xr_registry_key_id = pq_registry_key_id q, xr_published_at = published_at,
            xr_publisher_id = pu_publisher_id p, xr_publisher_key_id = pu_key_id p,
            xr_publisher_fingerprint = key_fingerprint (ed_public ed (pu_private_key p)), xr_digest = [], xr_signature = [] \<rparr>
      in r \<lparr> xr_digest := canon_sha256 (publication_payload r), xr_signature := sign_hex ed (pu_private_key p) (publication_payload r) \<rparr>)"

definition publish :: "ed25519 \<Rightarrow> publisher \<Rightarrow> publication_request \<Rightarrow> (publication_receipt list, publication_receipt) action" where
  "publish ed p q =
     abind (acheck (pq_registry_id q = pu_registry_id p \<and> pq_registry_key_id q = pu_registry_key_id p)
       (RangerExternalPublicationError ''publication registry identity does not match publisher configuration'')) (\<lambda>_.
     abind (acheck (pq_subject_kind q \<in> supported_subjects)
       (RangerExternalPublicationError ''external publication subject must be a retained Ranger receipt'')) (\<lambda>_.
     abind (aread (\<lambda>receipts. rcheck (pq_publication_id q \<notin> xr_publication_id ` set receipts)
       (RangerExternalPublicationError ''publication_id has already been used''))) (\<lambda>_.
     abind (aread (\<lambda>receipts. rcheck ((pq_subject_kind q, pq_subject_digest q, pq_time_digest q) \<notin> receipt_binding ` set receipts)
       (RangerExternalPublicationError ''retained receipt binding has already been published''))) (\<lambda>_.
     abind (alift (utc_or_raise (RangerExternalPublicationError ''publisher receipt time must be timezone-aware'') (pq_published_at q))) (\<lambda>published_at.
     abind (aread (\<lambda>receipts. rcheck (receipts = [] \<or> xr_published_at (last receipts) < published_at)
       (RangerExternalPublicationError ''publisher receipt time must advance''))) (\<lambda>_.
     abind (aread (\<lambda>receipts. case RangerExternalPublicationReceipt (new_receipt ed p receipts q published_at) of
         Inl (ValidationError _) \<Rightarrow> Inl (RangerExternalPublicationError ''invalid external publication fields'')
       | r \<Rightarrow> r)) (\<lambda>receipt.
     abind (awrite (\<lambda>receipts. receipts @ [receipt])) (\<lambda>_.
     alift (Inr receipt)))))))))"

section \<open>Verification of a chain\<close>

record chain_verification =
  cv_valid :: bool
  cv_receipt_count :: nat
  cv_latest_sequence :: "int option"
  cv_latest_digest :: "string option"
  cv_latest_subject :: "(subject_kind \<times> string) option"
  cv_matches_expected_head :: bool
  cv_reason :: string

definition publication_chain_failure :: "nat \<Rightarrow> string \<Rightarrow> chain_verification" where
  "publication_chain_failure n reason =
     \<lparr> cv_valid = False, cv_receipt_count = n, cv_latest_sequence = None, cv_latest_digest = None, cv_latest_subject = None,
       cv_matches_expected_head = False, cv_reason = reason \<rparr>"

record publication_expectation =
  px_public_key_hex :: string
  px_publisher_id :: string
  px_publisher_key_id :: string
  px_registry_id :: string
  px_registry_key_id :: string

definition expected_previous :: "('a \<Rightarrow> string) \<Rightarrow> 'a list \<Rightarrow> string" where
  "expected_previous digest seen = (if seen = [] then zero_digest else digest (last seen))"

definition check_receipt :: "ed25519 \<Rightarrow> publication_expectation \<Rightarrow> byte list \<Rightarrow> publication_receipt list \<Rightarrow> publication_receipt \<Rightarrow> string option" where
  "check_receipt ed x key seen r = first_some
     [fail_if (\<not> receipt_ok r) ''external publication schema validation failed'',
      fail_if (xr_sequence r \<noteq> int (length seen) + 1) ''external publication sequence is not contiguous'',
      fail_if (xr_previous r \<noteq> expected_previous xr_digest seen) ''external publication predecessor digest mismatch'',
      fail_if (xr_publisher_id r \<noteq> px_publisher_id x \<or> xr_publisher_key_id r \<noteq> px_publisher_key_id x)
        ''external publisher identity does not match configuration'',
      fail_if (xr_registry_id r \<noteq> px_registry_id x \<or> xr_registry_key_id r \<noteq> px_registry_key_id x)
        ''published registry identity does not match configuration'',
      fail_if (xr_publisher_fingerprint r \<noteq> key_fingerprint key) ''publisher public key fingerprint mismatch'',
      fail_if (xr_publication_id r \<in> xr_publication_id ` set seen) ''duplicate external publication_id'',
      fail_if (receipt_binding r \<in> receipt_binding ` set seen) ''duplicate external publication binding'',
      fail_if (seen \<noteq> [] \<and> xr_published_at r \<le> xr_published_at (last seen)) ''external publication receipt time did not advance'',
      fail_if (canon_sha256 (publication_payload r) \<noteq> xr_digest r) ''external publication digest mismatch'',
      fail_if (\<not> signature_accepted ed (px_public_key_hex x) (xr_signature r) (publication_payload r)) ''external publisher signature invalid'']"

definition verify_external_publication_chain ::
  "ed25519 \<Rightarrow> publication_expectation \<Rightarrow> string \<Rightarrow> publication_receipt list \<Rightarrow> chain_verification" where
  "verify_external_publication_chain ed x expected_latest chain =
     (if chain = [] then publication_chain_failure 0 ''external publication receipt chain is empty''
      else case key_bytes (px_public_key_hex x) of
        None \<Rightarrow> publication_chain_failure (length chain) ''publisher public key is not 32-byte Ed25519''
      | Some key \<Rightarrow>
          (case first_failure (check_receipt ed x key) [] chain of
             Some (n, reason) \<Rightarrow> publication_chain_failure n reason
           | None \<Rightarrow>
               (let latest = last chain in
                if xr_digest latest \<noteq> expected_latest
                then publication_chain_failure (length chain) ''presented publication chain does not match expected head''
                else \<lparr> cv_valid = True, cv_receipt_count = length chain, cv_latest_sequence = Some (xr_sequence latest),
                  cv_latest_digest = Some (xr_digest latest), cv_latest_subject = Some (xr_subject_kind latest, xr_subject_digest latest),
                  cv_matches_expected_head = True,
                  cv_reason = ''configured external-publisher signatures and append-only linkage verify through the expected publication head; continued custody, organizational independence, and global latest-state currentness are not proven'' \<rparr>)))"

section \<open>A chain binds its receipts\<close>

record receipt_core =
  rc_fields :: "string list"
  rc_sequence :: int
  rc_previous :: string
  rc_subject_kind :: subject_kind
  rc_published_at :: utc

definition receipt_content :: "publication_receipt \<Rightarrow> receipt_core" where
  "receipt_content r = \<lparr> rc_fields = [xr_publication_id r, xr_subject_digest r, xr_time_digest r, xr_registry_id r, xr_registry_key_id r,
       xr_publisher_id r, xr_publisher_key_id r, xr_publisher_fingerprint r],
     rc_sequence = xr_sequence r, rc_previous = xr_previous r, rc_subject_kind = xr_subject_kind r, rc_published_at = xr_published_at r \<rparr>"

lemma subject_kind_text_inject [simp]: "subject_kind_text a = subject_kind_text b \<longleftrightarrow> a = b"
  by (cases a; cases b) simp_all

lemma publication_payload_ok: "json_ok (publication_payload r)"
  by (simp add: publication_payload_def)

lemma publication_payload_content:
  assumes "receipt_ok a" "receipt_ok b" "jnorm (publication_payload a) = jnorm (publication_payload b)"
  shows "receipt_content a = receipt_content b"
proof -
  have "0 \<le> xr_published_at a" "0 \<le> xr_published_at b" using assms(1,2) by (simp_all add: receipt_ok_def)
  then show ?thesis
    using jnorm_JObj_values [OF assms(3) [unfolded publication_payload_def]] by (simp add: receipt_content_def isoformat_z_inject)
qed

interpretation publication: hash_linked receipt_ok xr_sequence xr_previous xr_digest publication_payload receipt_content
  by unfold_locales (auto simp: publication_payload_ok receipt_content_def dest: publication_payload_content)

lemma linked_iff:
  "linked okb number previous digest payload 1 zero_digest xs \<longleftrightarrow>
    (\<forall>i < length xs. okb (xs ! i) \<and> number (xs ! i) = int i + 1 \<and> previous (xs ! i) = expected_previous digest (take i xs) \<and>
      digest (xs ! i) = canon_sha256 (payload (xs ! i)))"
proof (induction xs rule: rev_induct)
  case (snoc x xs)
  have "(if xs = [] then zero_digest else digest (last xs)) = expected_previous digest xs" by (simp add: expected_previous_def)
  then show ?case by (auto simp: linked_append snoc.IH last_digest_def All_less_Suc nth_append algebra_simps)
qed simp

lemma valid_chain_checked:
  assumes "cv_valid (verify_external_publication_chain ed x head chain)"
  obtains key where "key_bytes (px_public_key_hex x) = Some key" "first_failure (check_receipt ed x key) [] chain = None"
    "chain \<noteq> []" "xr_digest (last chain) = head"
  using assms that by (auto simp: verify_external_publication_chain_def publication_chain_failure_def Let_def split: if_split_asm option.split_asm)

lemma checked_chain_linked:
  "first_failure (check_receipt ed x key) [] chain = None \<Longrightarrow> linked receipt_ok xr_sequence xr_previous xr_digest publication_payload 1 zero_digest chain"
  by (auto simp: first_failure_None linked_iff check_receipt_def min_absorb2)

section \<open>The publisher's chain\<close>

definition signing_key_ok :: "ed25519 \<Rightarrow> byte list \<Rightarrow> bool" where
  "signing_key_ok ed key \<longleftrightarrow> ed25519_ok ed \<and> length key = 32 \<and> length (ed_public ed key) = 32"

lemma key_bytes_hexlify [simp]: "length k = 32 \<Longrightarrow> key_bytes (hexlify k) = Some k"
  by (simp add: key_bytes_def)

lemma signature_of_key [simp]:
  "signing_key_ok ed key \<Longrightarrow> signature_accepted ed (hexlify (ed_public ed key)) (sign_hex ed key payload) payload"
  by (simp add: signature_accepted_def sign_hex_def signing_key_ok_def ed25519_ok_def)

definition expectation_of :: "ed25519 \<Rightarrow> publisher \<Rightarrow> publication_expectation" where
  "expectation_of ed p = \<lparr> px_public_key_hex = publisher_public_key_hex ed p, px_publisher_id = pu_publisher_id p, px_publisher_key_id = pu_key_id p,
     px_registry_id = pu_registry_id p, px_registry_key_id = pu_registry_key_id p \<rparr>"

inductive published :: "ed25519 \<Rightarrow> publisher \<Rightarrow> publication_receipt list \<Rightarrow> bool" for ed p where
  start: "published ed p []"
| publish: "published ed p rs \<Longrightarrow> publish ed p q rs = (res, rs') \<Longrightarrow> published ed p rs'"

lemma new_receipt_fields:
  fixes ed p rs q t
  defines "r \<equiv> new_receipt ed p rs q t"
  shows "xr_publication_id r = pq_publication_id q" "xr_sequence r = int (length rs) + 1" "xr_previous r = expected_previous xr_digest rs"
    "xr_publisher_id r = pu_publisher_id p" "xr_publisher_key_id r = pu_key_id p" "xr_registry_id r = pq_registry_id q"
    "xr_registry_key_id r = pq_registry_key_id q" "xr_publisher_fingerprint r = key_fingerprint (ed_public ed (pu_private_key p))"
    "receipt_binding r = (pq_subject_kind q, pq_subject_digest q, pq_time_digest q)" "xr_published_at r = t"
    "xr_digest r = canon_sha256 (publication_payload r)" "xr_signature r = sign_hex ed (pu_private_key p) (publication_payload r)"
  by (simp_all add: r_def new_receipt_def Let_def latest_publication_digest_def expected_previous_def receipt_binding_def publication_payload_def)

lemma publish_effect:
  assumes key: "signing_key_ok ed (pu_private_key p)"
  shows "atomically rs (\<lambda>r rs'. rs' = rs @ [r] \<and> check_receipt ed (expectation_of ed p) (ed_public ed (pu_private_key p)) rs r = None) (publish ed p q rs)"
proof -
  have "check_receipt ed (expectation_of ed p) (ed_public ed (pu_private_key p)) rs (new_receipt ed p rs q t) = None"
    if "pq_registry_id q = pu_registry_id p" "pq_registry_key_id q = pu_registry_key_id p" "pq_publication_id q \<notin> xr_publication_id ` set rs"
      "(pq_subject_kind q, pq_subject_digest q, pq_time_digest q) \<notin> receipt_binding ` set rs" "rs = [] \<or> xr_published_at (last rs) < t"
      "receipt_ok (new_receipt ed p rs q t)" for t
    using that key by (auto simp: check_receipt_def new_receipt_fields expectation_of_def publisher_public_key_hex_def)
  then show ?thesis
    unfolding publish_def
    by (intro atomically_reads)
      (auto simp: atomically_def action_simps rcheck_def RangerExternalPublicationReceipt_def split: if_split_asm sum.split_asm exn.split_asm)
qed

lemma published_checked:
  assumes "signing_key_ok ed (pu_private_key p)" "published ed p rs"
  shows "first_failure (check_receipt ed (expectation_of ed p) (ed_public ed (pu_private_key p))) [] rs = None"
  using assms(2)
proof induction
  case (publish rs q res rs')
  then show ?case
    using publish_effect [OF assms(1), of rs q] by (cases res) (auto simp: atomically_def first_failure_append)
qed simp

lemma published_valid:
  assumes "signing_key_ok ed (pu_private_key p)" "published ed p rs" "rs \<noteq> []"
  shows "cv_valid (verify_external_publication_chain ed (expectation_of ed p) (xr_digest (last rs)) rs)"
  using published_checked [OF assms(1,2)] assms(1,3)
  by (simp add: verify_external_publication_chain_def Let_def expectation_of_def publisher_public_key_hex_def signing_key_ok_def)

text \<open>
  The chain of a publisher verifies: whatever requests were accepted or refused, the receipts published so far verify under the
  publisher's own key and identity against the digest of the last one.
\<close>

theorem published_chain_verifies:
  assumes "signing_key_ok ed (pu_private_key p)" "published ed p rs" "rs \<noteq> []"
  shows "cv_valid (verify_external_publication_chain ed (expectation_of ed p) (xr_digest (last rs)) rs)"
  using assms by (rule published_valid)

text \<open>
  The head binds the chain: two chains that verify against the same expected head, under whatever keys and identities, hold the same
  receipts, field by field of what is signed, or exhibit a SHA-256 collision among the payloads.
\<close>

theorem publication_head_binds_chain:
  assumes "cv_valid (verify_external_publication_chain ed x head chain)" "cv_valid (verify_external_publication_chain ed x' head chain')"
  shows "map receipt_content chain = map receipt_content chain' \<or> collides (payload_inputs publication_payload chain) (payload_inputs publication_payload chain')"
proof -
  from assms obtain key key' where "first_failure (check_receipt ed x key) [] chain = None" "first_failure (check_receipt ed x' key') [] chain' = None"
    "chain \<noteq> []" "chain' \<noteq> []" "xr_digest (last chain) = xr_digest (last chain')"
    by (metis valid_chain_checked)
  then show ?thesis by (rule publication.chain_binding [OF checked_chain_linked checked_chain_linked])
qed

section \<open>Stored records\<close>

text \<open>
  pydantic's \<^verbatim>\<open>model_dump_json\<close> and \<^verbatim>\<open>model_validate_json\<close>, a parameter for every model that a table stores; \<open>codec_ok\<close> is that the
  second reads back what the first wrote of the records given.
\<close>

record 'a json_codec =
  jc_dump :: "'a \<Rightarrow> string"
  jc_load :: "string \<Rightarrow> 'a result"

definition codec_ok :: "'a json_codec \<Rightarrow> 'a list \<Rightarrow> bool" where
  "codec_ok c xs \<longleftrightarrow> (\<forall>x \<in> set xs. jc_load c (jc_dump c x) = Inr x)"

definition load_record :: "'a json_codec \<Rightarrow> exn \<Rightarrow> string \<Rightarrow> 'a result" where
  "load_record c invalid text = (case jc_load c text of Inl (ValidationError _) \<Rightarrow> Inl invalid | r \<Rightarrow> r)"

text \<open>Decode every row, then compare the index columns with the record.\<close>

definition stored_records :: "'a json_codec \<Rightarrow> exn \<Rightarrow> exn \<Rightarrow> ('row \<Rightarrow> string) \<Rightarrow> ('row \<Rightarrow> 'a \<Rightarrow> bool) \<Rightarrow> 'row list \<Rightarrow> 'a list result" where
  "stored_records c invalid mismatch text matches rows =
     rbind (rmap (\<lambda>row. load_record c invalid (text row)) rows) (\<lambda>xs.
     rbind (rcheck (list_all2 matches rows xs) mismatch) (\<lambda>_. Inr xs))"

lemma stored_records_of:
  assumes "codec_ok c xs" "\<And>x. text (row_of x) = jc_dump c x" "\<And>x. matches (row_of x) x"
  shows "stored_records c invalid mismatch text matches (map row_of xs) = Inr xs"
proof -
  have "rmap (\<lambda>row. load_record c invalid (text row)) (map row_of xs) = Inr xs"
    using assms(1,2) by (auto simp: rmap_eq_Inr list_all2_conv_all_nth load_record_def codec_ok_def)
  then show ?thesis using assms(3) by (simp add: stored_records_def list_all2_conv_all_nth)
qed

lemma sort_key_increasing:
  assumes "\<forall>i < length xs. f (xs ! i) = int i + 1"
  shows "sort_key f xs = xs"
  using assms by (intro sort_key_id_if_sorted) (auto simp: sorted_iff_nth_mono)

section \<open>A concrete publisher\<close>

lemma lower_hex_digit_char: "n < 16 \<Longrightarrow> lower_hex (hex_digit n)"
  by (auto simp: lower_hex_def is_digit_def code_hex_digit)

lemma lower_hex_hexlify: "list_all lower_hex (hexlify bs)"
proof -
  have "unat b div 16 < 16" for b :: byte using unat_byte_less [of b] by (simp add: div_less_iff_less_mult)
  then show ?thesis by (induction bs) (simp_all add: hexlify_Cons lower_hex_digit_char)
qed

lemma digest_texts [simp]: "sha256_text (sha256_hex m)" "sha256_text (canon_sha256 j)"
  by (simp_all add: sha256_text_def sha256_hex_def canon_sha256_def lower_hex_hexlify)

lemma signature_text_sign_hex [simp]: "signing_key_ok ed key \<Longrightarrow> signature_text (sign_hex ed key j)"
  by (simp add: signature_text_def sign_hex_def signing_key_ok_def ed25519_ok_def lower_hex_hexlify)

text \<open>A scheme in which the key and the message determine the signature.\<close>

definition demo_ed25519 :: ed25519 where
  "demo_ed25519 = \<lparr> ed_sign = (\<lambda>k m. sha256 (k @ m) @ sha256 (k @ m)), ed_public = (\<lambda>k. k),
     ed_accepts = (\<lambda>k sig m. sig = sha256 (k @ m) @ sha256 (k @ m)) \<rparr>"

definition demo_key :: "nat \<Rightarrow> byte list" where
  "demo_key n = replicate 32 (of_nat n)"

lemma demo_key_ok [simp]: "signing_key_ok demo_ed25519 (demo_key n)"
  by (simp add: signing_key_ok_def ed25519_ok_def demo_ed25519_def demo_key_def length_sha256)

definition demo_publisher :: publisher where
  "demo_publisher = \<lparr> pu_publisher_id = ''publisher'', pu_key_id = ''pk-1'', pu_private_key = demo_key 1, pu_registry_id = ''registry'', pu_registry_key_id = ''rk-1'' \<rparr>"

definition demo_request :: publication_request where
  "demo_request = \<lparr> pq_publication_id = ''p-1'', pq_subject_kind = Retained_Authority_Head, pq_subject_digest = zero_digest, pq_time_digest = zero_digest,
     pq_registry_id = ''registry'', pq_registry_key_id = ''rk-1'', pq_published_at = Aware 5 0 \<rparr>"

definition demo_receipt :: publication_receipt where
  "demo_receipt = new_receipt demo_ed25519 demo_publisher [] demo_request 5"

lemma zero_digest_text [simp]: "sha256_text zero_digest"
  by (simp add: sha256_text_def zero_digest_def list_all_iff lower_hex_def is_digit_def)

lemma demo_receipt_ok: "receipt_ok demo_receipt"
  using signature_text_sign_hex [OF demo_key_ok, of 1]
  by (simp add: demo_receipt_def receipt_ok_def new_receipt_def Let_def demo_publisher_def demo_request_def field_length_def int64_positive_def
      supported_subjects_def predecessor_ok_def latest_publication_digest_def key_fingerprint_def)

lemma demo_publish: "publish demo_ed25519 demo_publisher demo_request [] = (Inr demo_receipt, [demo_receipt])"
  using demo_receipt_ok
  by (simp add: publish_def action_simps demo_request_def demo_publisher_def supported_subjects_def RangerExternalPublicationReceipt_def)
    (simp add: demo_receipt_def demo_publisher_def demo_request_def)

lemma demo_published: "published demo_ed25519 demo_publisher [demo_receipt]"
  by (rule published.publish [OF published.start demo_publish])

lemma demo_chain: "cv_valid (verify_external_publication_chain demo_ed25519 (expectation_of demo_ed25519 demo_publisher) (xr_digest demo_receipt) [demo_receipt])"
  using published_valid [OF _ demo_published] by (simp add: demo_publisher_def)

theorem published_chain_verifies_witness:
  "cv_valid (verify_external_publication_chain demo_ed25519 (expectation_of demo_ed25519 demo_publisher) (xr_digest (last [demo_receipt])) [demo_receipt])"
  by (rule published_chain_verifies [OF _ demo_published]) (simp_all add: demo_publisher_def)

theorem publication_head_binds_chain_witness:
  "map receipt_content [demo_receipt] = map receipt_content [demo_receipt] \<or>
    collides (payload_inputs publication_payload [demo_receipt]) (payload_inputs publication_payload [demo_receipt])"
  by (rule publication_head_binds_chain [OF demo_chain demo_chain])

end
