(* ===== verification/Ets_Sha256_Vectors.thy ===== *)
theory Ets_Sha256_Vectors
  imports Ets_Sha256
begin

text \<open>
  The model of SHA-256 evaluated by rewriting: the constants as numerals, the standard's example, and the digests of the keys the
  examples use.
\<close>

text \<open>A word below \<open>2 ^ 32\<close>: additions and shifts of numerals are reduced where they arise.\<close>

definition reduced :: "word32 \<Rightarrow> word32" where
  "reduced x = x"

lemma reduced_numeral: "reduced 0 = 0" "reduced 1 = 1" "reduced (numeral n) = of_nat (numeral n mod 4294967296)"
proof -
  have "(of_nat (x mod 4294967296) :: word32) = of_nat x" for x by (simp add: word_of_nat_eq_iff take_bit_eq_mod)
  from this [of "numeral n"] show "reduced (numeral n) = of_nat (numeral n mod 4294967296)" unfolding reduced_def of_nat_numeral by (rule sym)
qed (simp_all add: reduced_def)

lemma sched_ext_numeral:
  "sched_ext (numeral k) ws = sched_ext (pred_numeral k) (reduced (small_sigma1 (ws ! 1) + ws ! 6 + small_sigma0 (ws ! 14) + ws ! 15) # ws)"
  "sched_ext (Suc 0) ws = reduced (small_sigma1 (ws ! 1) + ws ! 6 + small_sigma0 (ws ! 14) + ws ! 15) # ws"
  by (simp_all add: numeral_eq_Suc reduced_def)

lemma rotr32_reduced: "rotr32 n x = reduced (drop_bit n x OR push_bit (32 - n) x)"
  by (simp add: rotr32_def reduced_def)

lemma sha_round_reduced: "sha_round (a, b, c, d, e, f, g, h) (k, w) =
     (let t1 = reduced (h + big_sigma1 e + sha_ch e f g + k + w);
          t2 = reduced (big_sigma0 a + sha_maj a b c)
      in (reduced (t1 + t2), a, b, c, reduced (d + t1), e, f, g))"
  by (simp add: reduced_def)

lemma sha_add_reduced: "sha_add (a, b, c, d, e, f, g, h) (a', b', c', d', e', f', g', h') =
     (reduced (a + a'), reduced (b + b'), reduced (c + c'), reduced (d + d'), reduced (e + e'), reduced (f + f'), reduced (g + g'), reduced (h + h'))"
  by (simp add: reduced_def)

lemma replicate_num: "replicate (numeral k) x = x # replicate (pred_numeral k) x"
  by (simp add: numeral_eq_Suc)

lemma sha_blocks_one: "length xs = 64 \<Longrightarrow> sha_blocks st xs = sha_compress st xs"
  by (simp add: sha_blocks.simps)

text \<open>The constants: the roots are certified by their powers, the bit-by-bit search is not run.\<close>

lemma root_search:
  fixes r n :: int
  assumes r: "0 \<le> r" "r ^ e \<le> n" "n < (r + 1) ^ e"
  shows "foldl (\<lambda>r i. if (r + 2 ^ i) ^ e \<le> n then r + 2 ^ i else r) (r div 2 ^ k * 2 ^ k) (rev [0..<k]) = r"
proof (induction k)
  case (Suc k)
  let ?q = "r div 2 ^ Suc k * 2 ^ Suc k"
  have q: "r div 2 ^ k = 2 * (r div 2 ^ Suc k) + (r div 2 ^ k) mod 2" by (simp add: zdiv_zmult2_eq mult.commute [of 2 "2 ^ k"])
  have split: "a = 2 * b + c \<Longrightarrow> a * 2 ^ k = b * 2 ^ Suc k + c * 2 ^ k" for a b c :: int by (simp add: algebra_simps)
  have next_prefix: "r div 2 ^ k * 2 ^ k = ?q + (r div 2 ^ k) mod 2 * 2 ^ k" by (rule split [OF q])
  have low: "r = r div 2 ^ k * 2 ^ k + r mod 2 ^ k" "0 \<le> r mod 2 ^ k" "r mod 2 ^ k < 2 ^ k" using div_mult_mod_eq [of r "2 ^ k"] by simp_all
  have "(?q + 2 ^ k) ^ e \<le> n \<longleftrightarrow> (r div 2 ^ k) mod 2 = 1"
  proof
    assume "(r div 2 ^ k) mod 2 = 1"
    then have "r div 2 ^ k * 2 ^ k = ?q + 2 ^ k" using next_prefix by simp
    then have "?q + 2 ^ k \<le> r" using low by linarith
    then have "(?q + 2 ^ k) ^ e \<le> r ^ e" using r(1) by (intro power_mono) (simp_all add: pos_imp_zdiv_nonneg_iff)
    with r(2) show "(?q + 2 ^ k) ^ e \<le> n" by simp
  next
    assume le: "(?q + 2 ^ k) ^ e \<le> n"
    show "(r div 2 ^ k) mod 2 = 1"
    proof (rule ccontr)
      assume "(r div 2 ^ k) mod 2 \<noteq> 1"
      then have "(r div 2 ^ k) mod 2 = 0" by simp
      then have "r div 2 ^ k * 2 ^ k = ?q" using next_prefix by simp
      then have "r + 1 \<le> ?q + 2 ^ k" using low by linarith
      then have "(r + 1) ^ e \<le> (?q + 2 ^ k) ^ e" using r(1) by (intro power_mono) simp_all
      with le r(3) show False by simp
    qed
  qed
  moreover have "(r div 2 ^ k) mod 2 = 0 \<or> (r div 2 ^ k) mod 2 = 1" by presburger
  ultimately have "(if (?q + 2 ^ k) ^ e \<le> n then ?q + 2 ^ k else ?q) = r div 2 ^ k * 2 ^ k" using next_prefix by auto
  then show ?case using Suc.IH by (simp del: power_Suc)
qed simp

definition root_of :: "nat \<Rightarrow> int \<Rightarrow> int \<Rightarrow> bool" where
  "root_of e p r \<longleftrightarrow> 0 \<le> r \<and> r < 2 ^ 37 \<and> r ^ e \<le> p * 2 ^ (32 * e) \<and> p * 2 ^ (32 * e) < (r + 1) ^ e"

lemma frac_bits_root: "root_of e p r \<Longrightarrow> frac_bits e p = of_int r"
  using root_search [of r e "p * 2 ^ (32 * e)" 37] by (simp add: frac_bits_def int_root_def root_of_def)

lemma frac_bits_roots: "list_all2 (root_of e) ps rs \<Longrightarrow> map (frac_bits e) ps = map of_int rs"
  by (induction rule: list_all2_induct) (simp_all add: frac_bits_root)

definition cube_roots :: "int list" where
  "cube_roots = [
     5411319704, 6194414737, 7344290767, 8215976869, 9551921755, 10098905585, 11043570340, 11460697813,
     12214315672, 13195500289, 13492127166, 14311783875, 14809980276, 15046980094, 15499789991, 16133124468,
     16720292289, 16907126662, 17444216262, 17784676812, 17950125167, 18429019306, 18734950876, 19175934170,
     19734090066, 20001703533, 20132865992, 20390182855, 20516441075, 20764397895, 21588763473, 21813078375,
     22141143685, 22248366392, 22769593852, 22871018771, 23170020180, 23461497531, 23651862830, 23931792517,
     24205322401, 24295138891, 24734567280, 24820601251, 24990902297, 25075189284, 25569408389, 26045227120,
     26200031510, 26276752392, 26428864332, 26653801653, 26727943347, 27092625994, 27306805839, 27517677555,
     27725365998, 27793908591, 27997534228, 28131656200, 28198240250, 28526537963, 28973835255, 29099129074]"

lemma small_primes_eq: "small_primes = [
     2, 3, 5, 7, 11, 13, 17, 19, 23, 29, 31, 37, 41, 43, 47, 53,
     59, 61, 67, 71, 73, 79, 83, 89, 97, 101, 103, 107, 109, 113, 127, 131,
     137, 139, 149, 151, 157, 163, 167, 173, 179, 181, 191, 193, 197, 199, 211, 223,
     227, 229, 233, 239, 241, 251, 257, 263, 269, 271, 277, 281, 283, 293, 307, 311]"
  by code_simp

lemma cube_roots_ok: "list_all2 (root_of 3) small_primes cube_roots"
  by (simp add: small_primes_eq cube_roots_def root_of_def)

lemma square_roots_ok: "list_all2 (root_of 2) [2, 3, 5, 7, 11, 13, 17, 19]
    [6074000999, 7439101573, 9603838834, 11363415354, 14244795007, 15485724812, 17708603819, 18721328409]"
  by (simp add: root_of_def)

lemma sha_constants:
  "sha_h0 = (1779033703, 3144134277, 1013904242, 2773480762, 1359893119, 2600822924, 528734635, 1541459225)"
  "sha_k = [
     1116352408, 1899447441, 3049323471, 3921009573, 961987163, 1508970993, 2453635748, 2870763221,
     3624381080, 310598401, 607225278, 1426881987, 1925078388, 2162078206, 2614888103, 3248222580,
     3835390401, 4022224774, 264347078, 604807628, 770255983, 1249150122, 1555081692, 1996064986,
     2554220882, 2821834349, 2952996808, 3210313671, 3336571891, 3584528711, 113926993, 338241895,
     666307205, 773529912, 1294757372, 1396182291, 1695183700, 1986661051, 2177026350, 2456956037,
     2730485921, 2820302411, 3259730800, 3345764771, 3516065817, 3600352804, 4094571909, 275423344,
     430227734, 506948616, 659060556, 883997877, 958139571, 1322822218, 1537002063, 1747873779,
     1955562222, 2024104815, 2227730452, 2361852424, 2428436474, 2756734187, 3204031479, 3329325298]"
proof -
  show "sha_h0 = (1779033703, 3144134277, 1013904242, 2773480762, 1359893119, 2600822924, 528734635, 1541459225)"
    using frac_bits_roots [OF square_roots_ok] by (simp add: sha_h0_def)
  show "sha_k = [
         1116352408, 1899447441, 3049323471, 3921009573, 961987163, 1508970993, 2453635748, 2870763221,
         3624381080, 310598401, 607225278, 1426881987, 1925078388, 2162078206, 2614888103, 3248222580,
         3835390401, 4022224774, 264347078, 604807628, 770255983, 1249150122, 1555081692, 1996064986,
         2554220882, 2821834349, 2952996808, 3210313671, 3336571891, 3584528711, 113926993, 338241895,
         666307205, 773529912, 1294757372, 1396182291, 1695183700, 1986661051, 2177026350, 2456956037,
         2730485921, 2820302411, 3259730800, 3345764771, 3516065817, 3600352804, 4094571909, 275423344,
         430227734, 506948616, 659060556, 883997877, 958139571, 1322822218, 1537002063, 1747873779,
         1955562222, 2024104815, 2227730452, 2361852424, 2428436474, 2756734187, 3204031479, 3329325298]"
    using frac_bits_roots [OF cube_roots_ok] by (simp add: sha_k_def cube_roots_def)
qed

lemmas sha_eval = sha256_def sha_pad_def len_bytes_def sha_blocks_one sha_compress_def word_bytes_def sha_constants reduced_numeral
  rotr32_reduced sha_ch_def sha_maj_def big_sigma0_def big_sigma1_def small_sigma0_def small_sigma1_def sched_ext_numeral sha_schedule_def
  replicate_num sha_round_reduced sha_add_reduced

text \<open>The standard's example, \<^verbatim>\<open>abc\<close>.\<close>

lemma sha256_abc: "sha256 [97, 98, 99] = [186, 120, 22, 191, 143, 1, 207, 234, 65, 65, 64, 222, 93, 174, 34, 35, 176, 3, 97, 163, 150, 23, 122, 156, 180, 16, 255, 97, 242, 0, 21, 173]"
  by (simp add: sha_eval del: sha_round.simps sha_add.simps sched_ext.simps(2))

text \<open>Two keys.\<close>

lemma sha256_ones: "sha256 (replicate 32 1) = [114, 205, 110, 132, 34, 196, 7, 251, 109, 9, 134, 144, 241, 19, 11, 125, 237, 126, 194, 247, 245, 225, 211, 11, 217, 213, 33, 240, 21, 54, 55, 147]"
  by (simp add: sha_eval del: sha_round.simps sha_add.simps sched_ext.simps(2))

lemma sha256_threes: "sha256 (replicate 32 3) = [100, 138, 165, 197, 121, 251, 48, 243, 138, 247, 68, 217, 125, 110, 200, 64, 199, 169, 18, 119, 164, 153, 160, 215, 128, 243, 231, 49, 78, 202, 9, 11]"
  by (simp add: sha_eval del: sha_round.simps sha_add.simps sched_ext.simps(2))

end
