(* ===== verification/Ets_Ranger_Keys.thy ===== *)
theory Ets_Ranger_Keys
  imports Ets_Ranger_Publication Ets_Sha256_Vectors "HOL-Library.Sublist"
begin

text \<open>
  The lifecycle of publication keys (\<^verbatim>\<open>ets/ranger/publication_key_lifecycle.py\<close>): an authority signs an append-only, hash-chained
  history of enrollments, rotations and revocations of one publisher key and one custodian key, each backed by proofs of possession.

  \<open>dt\<close> is the text \<^verbatim>\<open>model_dump(mode="json")\<close> gives a datetime. A ledger is its configuration, the database, and the events it
  holds in memory; several processes may open ledgers on one database.
\<close>

section \<open>Models\<close>

datatype key_role = Publisher_Role | Custodian_Role
datatype key_event_kind = Enroll | Rotate | Revoke
datatype revocation_reason = Compromise_Suspected | Custody_Lost | Administrative | Retired

fun key_role_text :: "key_role \<Rightarrow> string" where
  "key_role_text Publisher_Role = ''publisher''"
| "key_role_text Custodian_Role = ''custodian''"

fun key_event_kind_text :: "key_event_kind \<Rightarrow> string" where
  "key_event_kind_text Enroll = ''enroll''"
| "key_event_kind_text Rotate = ''rotate''"
| "key_event_kind_text Revoke = ''revoke''"

fun revocation_reason_text :: "revocation_reason \<Rightarrow> string" where
  "revocation_reason_text Compromise_Suspected = ''compromise_suspected''"
| "revocation_reason_text Custody_Lost = ''custody_lost''"
| "revocation_reason_text Administrative = ''administrative''"
| "revocation_reason_text Retired = ''retired''"

record key_descriptor =
  kd_key_id :: string
  kd_public_key_hex :: string
  kd_fingerprint :: string

definition descriptor_ok :: "key_descriptor \<Rightarrow> bool" where
  "descriptor_ok d \<longleftrightarrow> field_length 1 256 (kd_key_id d) \<and> sha256_text (kd_public_key_hex d) \<and> sha256_text (kd_fingerprint d) \<and>
     (case key_bytes (kd_public_key_hex d) of None \<Rightarrow> False | Some key \<Rightarrow> key_fingerprint key = kd_fingerprint d)"

definition descriptor_json :: "key_descriptor \<Rightarrow> json" where
  "descriptor_json d = JObj
     [(''signing_key_id'', JStr (kd_key_id d)), (''public_key_hex'', JStr (kd_public_key_hex d)),
      (''public_key_fingerprint_sha256'', JStr (kd_fingerprint d)), (''key_custody'', JStr ''software_demo''), (''hardware_backed_key_proven'', JBool False)]"

record key_intent =
  ki_request_id :: string
  ki_role :: key_role
  ki_kind :: key_event_kind
  ki_scope :: string
  ki_principal :: string
  ki_subject :: key_descriptor
  ki_replacement :: "key_descriptor option"
  ki_reason :: "revocation_reason option"
  ki_recorded_at :: utc

definition transition_fields_ok :: "key_intent \<Rightarrow> bool" where
  "transition_fields_ok i \<longleftrightarrow>
     (case ki_kind i of
        Enroll \<Rightarrow> ki_replacement i = None \<and> ki_reason i = None
      | Rotate \<Rightarrow> ki_replacement i \<noteq> None \<and> ki_replacement i \<noteq> Some (ki_subject i) \<and> ki_reason i = None
      | Revoke \<Rightarrow> ki_replacement i = None \<and> ki_reason i \<noteq> None)"

definition publication_scope_ok :: "string \<Rightarrow> bool" where
  "publication_scope_ok s \<longleftrightarrow> field_length 24 192 s \<and> starts_with ''ets-ranger-publication:'' s"

definition intent_ok :: "key_intent \<Rightarrow> bool" where
  "intent_ok i \<longleftrightarrow> field_length 1 256 (ki_request_id i) \<and> publication_scope_ok (ki_scope i) \<and> field_length 1 160 (ki_principal i) \<and>
     descriptor_ok (ki_subject i) \<and> opt_ok descriptor_ok (ki_replacement i) \<and> transition_fields_ok i"

definition JOptObj :: "('a \<Rightarrow> json) \<Rightarrow> 'a option \<Rightarrow> json" where
  "JOptObj f x = (case x of None \<Rightarrow> JNull | Some v \<Rightarrow> f v)"

definition intent_json :: "(utc \<Rightarrow> string) \<Rightarrow> key_intent \<Rightarrow> json" where
  "intent_json dt i = JObj
     [(''schema_version'', JStr ''ets.ranger.publication-key-binding-intent.v1''), (''request_id'', JStr (ki_request_id i)),
      (''key_role'', JStr (key_role_text (ki_role i))), (''event_kind'', JStr (key_event_kind_text (ki_kind i))),
      (''publication_scope_id'', JStr (ki_scope i)), (''principal_id'', JStr (ki_principal i)), (''subject_key'', descriptor_json (ki_subject i)),
      (''replacement_key'', JOptObj descriptor_json (ki_replacement i)),
      (''revocation_reason'', JOptObj (\<lambda>r. JStr (revocation_reason_text r)) (ki_reason i)), (''recorded_at_utc'', JStr (dt (ki_recorded_at i))),
      (''clock_trusted'', JBool False)]"

record key_request =
  kq_intent :: key_intent
  kq_digest :: string
  kq_subject_proof :: "string option"
  kq_replacement_proof :: "string option"

definition proofs_shape_ok :: "key_request \<Rightarrow> bool" where
  "proofs_shape_ok r \<longleftrightarrow>
     (case ki_kind (kq_intent r) of
        Enroll \<Rightarrow> kq_subject_proof r \<noteq> None \<and> kq_replacement_proof r = None
      | Rotate \<Rightarrow> kq_subject_proof r \<noteq> None \<and> kq_replacement_proof r \<noteq> None
      | Revoke \<Rightarrow> kq_subject_proof r = None \<and> kq_replacement_proof r = None)"

definition request_ok :: "(utc \<Rightarrow> string) \<Rightarrow> key_request \<Rightarrow> bool" where
  "request_ok dt r \<longleftrightarrow> intent_ok (kq_intent r) \<and> sha256_text (kq_digest r) \<and> opt_ok signature_text (kq_subject_proof r) \<and>
     opt_ok signature_text (kq_replacement_proof r) \<and> kq_digest r = canon_sha256 (intent_json dt (kq_intent r)) \<and> proofs_shape_ok r"

definition request_json :: "(utc \<Rightarrow> string) \<Rightarrow> key_request \<Rightarrow> json" where
  "request_json dt r = JObj
     [(''schema_version'', JStr ''ets.ranger.publication-key-binding-request.v1''), (''intent'', intent_json dt (kq_intent r)),
      (''intent_digest_sha256'', JStr (kq_digest r)), (''subject_key_proof_signature_hex'', JOpt (kq_subject_proof r)),
      (''replacement_key_proof_signature_hex'', JOpt (kq_replacement_proof r))]"

definition publication_key_binding_intent_bytes :: "(utc \<Rightarrow> string) \<Rightarrow> key_intent \<Rightarrow> byte list result" where
  "publication_key_binding_intent_bytes dt i =
     rbind (rcheck (intent_ok i) (ValidationError ''RangerPublicationKeyBindingIntent'')) (\<lambda>_. Inr (canon (intent_json dt i)))"

definition build_publication_key_binding_request ::
  "(utc \<Rightarrow> string) \<Rightarrow> key_intent \<Rightarrow> string option \<Rightarrow> string option \<Rightarrow> key_request result" where
  "build_publication_key_binding_request dt i subject_proof replacement_proof =
     rbind (rcheck (intent_ok i) (ValidationError ''RangerPublicationKeyBindingIntent'')) (\<lambda>_.
     let r = \<lparr> kq_intent = i, kq_digest = canon_sha256 (intent_json dt i), kq_subject_proof = subject_proof, kq_replacement_proof = replacement_proof \<rparr> in
     rbind (rcheck (request_ok dt r) (ValidationError ''RangerPublicationKeyBindingRequest'')) (\<lambda>_. Inr r))"

record key_event =
  ke_sequence :: int
  ke_previous :: string
  ke_request :: key_request
  ke_authority_id :: string
  ke_authority_key_id :: string
  ke_authority_fingerprint :: string
  ke_digest :: string
  ke_signature :: string

abbreviation ke_intent :: "key_event \<Rightarrow> key_intent" where
  "ke_intent e \<equiv> kq_intent (ke_request e)"

abbreviation ke_role :: "key_event \<Rightarrow> key_role" where
  "ke_role e \<equiv> ki_role (ke_intent e)"

definition key_event_ok :: "(utc \<Rightarrow> string) \<Rightarrow> key_event \<Rightarrow> bool" where
  "key_event_ok dt e \<longleftrightarrow> int64_positive (ke_sequence e) \<and> list_all sha256_text [ke_previous e, ke_authority_fingerprint e, ke_digest e] \<and>
     request_ok dt (ke_request e) \<and> field_length 1 160 (ke_authority_id e) \<and> field_length 1 256 (ke_authority_key_id e) \<and>
     signature_text (ke_signature e) \<and> predecessor_ok (ke_sequence e) (ke_previous e)"

definition key_event_payload :: "(utc \<Rightarrow> string) \<Rightarrow> key_event \<Rightarrow> json" where
  "key_event_payload dt e = JObj
     [(''schema_version'', JStr ''ets.ranger.publication-key-authority-event.v1''), (''authority_sequence'', JInt (ke_sequence e)),
      (''previous_event_digest_sha256'', JStr (ke_previous e)), (''request'', request_json dt (ke_request e)), (''authority_id'', JStr (ke_authority_id e)),
      (''authority_signing_key_id'', JStr (ke_authority_key_id e)), (''authority_public_key_fingerprint_sha256'', JStr (ke_authority_fingerprint e)),
      (''signing_algorithm'', JStr ''ed25519''), (''storage_profile'', JStr ''sqlite-wal-full-software-reference''),
      (''operational_authorization_proven'', JBool False), (''authority_administrative_independence_proven'', JBool False),
      (''hardware_identity_proven'', JBool False), (''trusted_time_proven'', JBool False), (''globally_current_history_proven'', JBool False),
      (''semantic_truth_proven'', JBool False), (''physical_outcome_proven'', JBool False),
      (''claim_boundary'', JStr ''authority_relative_publication_key_standing_no_global_time_or_operational_claim'')]"

section \<open>Transitions\<close>

definition request_descriptors :: "key_request \<Rightarrow> key_descriptor list" where
  "request_descriptors r =
     (case ki_replacement (kq_intent r) of None \<Rightarrow> [ki_subject (kq_intent r)] | Some replacement \<Rightarrow> [ki_subject (kq_intent r), replacement])"

definition new_descriptor :: "key_intent \<Rightarrow> key_descriptor option" where
  "new_descriptor i = (case ki_kind i of Enroll \<Rightarrow> Some (ki_subject i) | Rotate \<Rightarrow> ki_replacement i | Revoke \<Rightarrow> None)"

definition active_descriptor :: "key_event list \<Rightarrow> key_role \<Rightarrow> key_descriptor option \<times> key_event option" where
  "active_descriptor es role =
     (let role_events = filter (\<lambda>e. ke_role e = role) es in
      if role_events = [] then (None, None)
      else let latest = last role_events; i = ke_intent latest in
        if ki_kind i = Revoke then (None, Some latest)
        else (Some (case ki_replacement i of None \<Rightarrow> ki_subject i | Some k \<Rightarrow> k), Some latest))"

definition descriptor_identity :: "key_descriptor \<Rightarrow> string \<times> string" where
  "descriptor_identity d = (kd_key_id d, kd_fingerprint d)"

definition proof_error :: "ed25519 \<Rightarrow> json \<Rightarrow> key_descriptor \<Rightarrow> string option \<Rightarrow> string \<Rightarrow> string option" where
  "proof_error ed payload d signature_hex label =
     (case signature_hex of
        None \<Rightarrow> Some (label @ '' is missing'')
      | Some sig \<Rightarrow> fail_if (\<not> signature_accepted ed (kd_public_key_hex d) sig payload) (label @ '' is invalid''))"

definition request_proof_error :: "ed25519 \<Rightarrow> (utc \<Rightarrow> string) \<Rightarrow> key_request \<Rightarrow> string option" where
  "request_proof_error ed dt r =
     (let i = kq_intent r; payload = intent_json dt i in
      if ki_kind i = Revoke then None
      else first_some
        (proof_error ed payload (ki_subject i) (kq_subject_proof r) ''subject-key proof'' #
         (case ki_replacement i of None \<Rightarrow> [] | Some k \<Rightarrow> [proof_error ed payload k (kq_replacement_proof r) ''replacement-key proof''])))"

definition request_transition_error :: "key_event list \<Rightarrow> key_request \<Rightarrow> string option" where
  "request_transition_error es r =
     (let i = kq_intent r; role_events = filter (\<lambda>e. ke_role e = ki_role i) es in
      if role_events = [] then fail_if (ki_kind i \<noteq> Enroll) ''each publication-key role history must begin with enrollment''
      else if ki_kind i = Enroll then Some ''publication-key role history can contain only one enrollment''
      else case fst (active_descriptor role_events (ki_role i)) of
        None \<Rightarrow> Some ''revoked publication-key role cannot accept another transition''
      | Some current \<Rightarrow>
          fail_if (ki_subject i \<noteq> current) ''publication-key transition subject does not match the current active key'')"

definition used_descriptors :: "key_event list \<Rightarrow> key_descriptor set" where
  "used_descriptors es = (\<Union>e \<in> set es. set (request_descriptors (ke_request e)))"

definition new_key_reuse_error :: "key_event list \<Rightarrow> key_request \<Rightarrow> string option" where
  "new_key_reuse_error es r =
     (case new_descriptor (kq_intent r) of
        None \<Rightarrow> None
      | Some incoming \<Rightarrow> first_some
          [fail_if (kd_key_id incoming \<in> kd_key_id ` used_descriptors es)
             ''publication-key lifecycle cannot reuse a previously enrolled key identifier'',
           fail_if (kd_fingerprint incoming \<in> kd_fingerprint ` used_descriptors es)
             ''publication-key lifecycle cannot reuse a previously enrolled public key''])"

record key_configuration =
  kc_scope :: string
  kc_publisher_id :: string
  kc_custodian_id :: string
  kc_authority_id :: string
  kc_authority_key_id :: string

fun principal_for_role :: "key_configuration \<Rightarrow> key_role \<Rightarrow> string" where
  "principal_for_role c Publisher_Role = kc_publisher_id c"
| "principal_for_role c Custodian_Role = kc_custodian_id c"

definition configured_history_error :: "key_configuration \<Rightarrow> string \<Rightarrow> key_event list \<Rightarrow> string option" where
  "configured_history_error c authority_fingerprint history = first_some
     [fail_if (card {kc_publisher_id c, kc_custodian_id c, kc_authority_id c} \<noteq> 3)
        ''configured publisher, custodian, and authority identities are not distinct'',
      fail_if (list_ex (\<lambda>e. ki_scope (ke_intent e) \<noteq> kc_scope c \<or> ki_principal (ke_intent e) \<noteq> principal_for_role c (ke_role e) \<or>
          ke_authority_id e \<noteq> kc_authority_id c \<or> ke_authority_key_id e \<noteq> kc_authority_key_id c \<or> ke_authority_fingerprint e \<noteq> authority_fingerprint) history)
        ''publication-key authority history configuration mismatch'']"

section \<open>Verification of a history\<close>

record history_verification =
  hv_valid :: bool
  hv_event_count :: nat
  hv_head :: "string option"
  hv_publisher_active :: bool
  hv_custodian_active :: bool
  hv_reason :: string

definition history_failure :: "nat \<Rightarrow> string \<Rightarrow> history_verification" where
  "history_failure n reason = \<lparr> hv_valid = False, hv_event_count = n, hv_head = None, hv_publisher_active = False, hv_custodian_active = False, hv_reason = reason \<rparr>"

definition event_identity :: "key_event \<Rightarrow> string \<times> string \<times> string" where
  "event_identity e = (ki_scope (ke_intent e), ke_authority_id e, ke_authority_key_id e)"

definition check_key_event ::
  "ed25519 \<Rightarrow> (utc \<Rightarrow> string) \<Rightarrow> string \<Rightarrow> byte list \<Rightarrow> key_event list \<Rightarrow> key_event \<Rightarrow> string option" where
  "check_key_event ed dt authority_hex authority_key verified e =
     (let i = ke_intent e; fp = key_fingerprint authority_key in first_some
       [fail_if (\<not> key_event_ok dt e) ''publication-key authority event schema validation failed'',
        fail_if (ke_sequence e \<noteq> int (length verified) + 1) ''missing, duplicate, or reordered authority sequence'',
        fail_if (ke_previous e \<noteq> expected_previous ke_digest verified) ''previous publication-key authority digest mismatch'',
        fail_if (ki_request_id i \<in> (\<lambda>v. ki_request_id (ke_intent v)) ` set verified) ''duplicate publication-key request identity'',
        fail_if (verified \<noteq> [] \<and> event_identity e \<noteq> event_identity (hd verified)) ''publication-key scope or authority identity changed'',
        (case find (\<lambda>v. ke_role v = ki_role i) verified of
           None \<Rightarrow> None
         | Some prior \<Rightarrow> fail_if (ki_principal (ke_intent prior) \<noteq> ki_principal i) ''publication-key principal changed within one role''),
        fail_if (ke_authority_fingerprint e \<noteq> fp) ''authority public key fingerprint mismatch'',
        fail_if (list_ex (\<lambda>d. kd_fingerprint d = fp) (request_descriptors (ke_request e))) ''source and authority signing keys are not distinct'',
        request_proof_error ed dt (ke_request e),
        request_transition_error verified (ke_request e),
        new_key_reuse_error verified (ke_request e),
        fail_if (canon_sha256 (key_event_payload dt e) \<noteq> ke_digest e) ''publication-key authority event digest mismatch'',
        fail_if (\<not> signature_accepted ed authority_hex (ke_signature e) (key_event_payload dt e)) ''publication-key authority signature invalid''])"

definition verify_history :: "ed25519 \<Rightarrow> (utc \<Rightarrow> string) \<Rightarrow> key_event list \<Rightarrow> string \<Rightarrow> history_verification" where
  "verify_history ed dt events authority_hex =
     (case key_bytes authority_hex of
        None \<Rightarrow> history_failure 0 ''authority public key is not 32-byte Ed25519''
      | Some key \<Rightarrow>
          (case first_failure (check_key_event ed dt authority_hex key) [] events of
             Some (n, reason) \<Rightarrow> history_failure (n + 1) reason
           | None \<Rightarrow>
               if events = [] then history_failure 0 ''publication-key authority history is empty''
               else \<lparr> hv_valid = True, hv_event_count = length events, hv_head = Some (ke_digest (last events)),
                 hv_publisher_active = (fst (active_descriptor events Publisher_Role) \<noteq> None),
                 hv_custodian_active = (fst (active_descriptor events Custodian_Role) \<noteq> None),
                 hv_reason = ''authority signatures, possession proofs, role-scoped transitions, and ordering verify; operational authorization, trusted time, and global currentness are not proven'' \<rparr>))"

section \<open>The database\<close>

record key_row =
  kr_sequence :: int
  kr_request_id :: string
  kr_digest :: string
  kr_role :: string
  kr_scope :: string
  kr_json :: string

record key_store =
  ks_rows :: "key_row list"
  ks_integrity_ok :: bool

definition empty_key_store :: key_store where
  "empty_key_store = \<lparr> ks_rows = [], ks_integrity_ok = True \<rparr>"

definition key_row_of :: "key_event json_codec \<Rightarrow> key_event \<Rightarrow> key_row" where
  "key_row_of c e = \<lparr> kr_sequence = ke_sequence e, kr_request_id = ki_request_id (ke_intent e), kr_digest = ke_digest e,
     kr_role = key_role_text (ke_role e), kr_scope = ki_scope (ke_intent e), kr_json = jc_dump c e \<rparr>"

definition ordered_key_rows :: "key_store \<Rightarrow> key_row list" where
  "ordered_key_rows s = sort_key kr_sequence (ks_rows s)"

definition key_store_append :: "(utc \<Rightarrow> string) \<Rightarrow> key_event json_codec \<Rightarrow> key_event \<Rightarrow> (key_store, unit) action" where
  "key_store_append dt c e =
     abind (acheck (key_event_ok dt e) (ValidationError ''RangerPublicationKeyAuthorityEvent'')) (\<lambda>_.
     abind (aread (\<lambda>s. rcheck (ke_sequence e = (if ordered_key_rows s = [] then 1 else kr_sequence (last (ordered_key_rows s)) + 1))
       (RangerPublicationKeyLifecycleConflict (''authority sequence must be '' @
          show_int (if ordered_key_rows s = [] then 1 else kr_sequence (last (ordered_key_rows s)) + 1))))) (\<lambda>_.
     abind (aread (\<lambda>s. rcheck (ke_previous e = expected_previous kr_digest (ordered_key_rows s))
       (RangerPublicationKeyLifecycleConflict ''event does not extend the retained publication-key authority head''))) (\<lambda>_.
     abind (aread (\<lambda>s. rcheck (ke_sequence e \<notin> kr_sequence ` set (ks_rows s) \<and> ki_request_id (ke_intent e) \<notin> kr_request_id ` set (ks_rows s) \<and>
         ke_digest e \<notin> kr_digest ` set (ks_rows s))
       (RangerPublicationKeyLifecycleConflict ''duplicate authority sequence, request identity, or event digest''))) (\<lambda>_.
     awrite (\<lambda>s. s \<lparr> ks_rows := ks_rows s @ [key_row_of c e] \<rparr>)))))"

definition key_row_matches :: "key_row \<Rightarrow> key_event \<Rightarrow> bool" where
  "key_row_matches row e \<longleftrightarrow> kr_sequence row = ke_sequence e \<and> kr_request_id row = ki_request_id (ke_intent e) \<and> kr_digest row = ke_digest e \<and>
     kr_role row = key_role_text (ke_role e) \<and> kr_scope row = ki_scope (ke_intent e)"

definition list_key_events :: "key_event json_codec \<Rightarrow> key_store \<Rightarrow> key_event list result" where
  "list_key_events c s =
     rbind (rcheck (ks_integrity_ok s) (RangerPublicationKeyLifecycleIntegrityError ''SQLite integrity_check failed'')) (\<lambda>_.
     stored_records c (RangerPublicationKeyLifecycleIntegrityError ''stored publication-key authority event is invalid'')
       (RangerPublicationKeyLifecycleIntegrityError ''stored publication-key index metadata does not match signed event'')
       kr_json key_row_matches (ordered_key_rows s))"

section \<open>The ledger\<close>

record key_ledger =
  kl_configuration :: key_configuration
  kl_private_key :: "byte list"

definition authority_public_key_hex :: "ed25519 \<Rightarrow> key_ledger \<Rightarrow> string" where
  "authority_public_key_hex ed self = hexlify (ed_public ed (kl_private_key self))"

definition authority_fingerprint :: "ed25519 \<Rightarrow> key_ledger \<Rightarrow> string" where
  "authority_fingerprint ed self = key_fingerprint (ed_public ed (kl_private_key self))"

definition lifecycle_error :: "string \<Rightarrow> exn" where
  "lifecycle_error m = RangerPublicationKeyLifecycleError m"

definition lifecycle_conflict :: "string \<Rightarrow> exn" where
  "lifecycle_conflict m = RangerPublicationKeyLifecycleConflict m"

definition lifecycle_corrupt :: "string \<Rightarrow> exn" where
  "lifecycle_corrupt m = RangerPublicationKeyLifecycleIntegrityError m"

definition raise_reason :: "(string \<Rightarrow> exn) \<Rightarrow> string option \<Rightarrow> unit result" where
  "raise_reason e r = (case r of None \<Rightarrow> Inr () | Some m \<Rightarrow> Inl (e m))"

text \<open>What \<^verbatim>\<open>__init__\<close> checks of its arguments.\<close>

definition key_ledger_config :: "key_configuration \<Rightarrow> string \<Rightarrow> key_ledger result" where
  "key_ledger_config c private_key_hex =
     rbind (rcheck (starts_with ''ets-ranger-publication:'' (kc_scope c) \<and> length (kc_scope c) \<le> 192)
       (lifecycle_error ''publication_scope_id must use the ets-ranger-publication: namespace'')) (\<lambda>_.
     rbind (raise_reason lifecycle_error (first_some (map (\<lambda>(name, value, maximum). fail_if (\<not> field_length 1 maximum value)
         (name @ '' must contain 1-'' @ show_nat maximum @ '' characters''))
       [(''publisher_id'', kc_publisher_id c, 160), (''custodian_id'', kc_custodian_id c, 160), (''authority_id'', kc_authority_id c, 160),
        (''authority_signing_key_id'', kc_authority_key_id c, 256)]))) (\<lambda>_.
     rbind (rcheck (card {kc_publisher_id c, kc_custodian_id c, kc_authority_id c} = 3)
       (lifecycle_error ''publisher, custodian, and authority identities must be distinct'')) (\<lambda>_.
     rbind (load_private_key (lifecycle_error ''authority private key must be a 32-byte Ed25519 key'') private_key_hex) (\<lambda>key.
     Inr \<lparr> kl_configuration = c, kl_private_key = key \<rparr>))))"

text \<open>What it checks of the database, and the events it keeps.\<close>

definition open_key_ledger :: "ed25519 \<Rightarrow> (utc \<Rightarrow> string) \<Rightarrow> key_event json_codec \<Rightarrow> key_ledger \<Rightarrow> key_store \<Rightarrow> key_event list result" where
  "open_key_ledger ed dt c self store =
     rbind (list_key_events c store) (\<lambda>retained.
     if retained = [] then Inr retained
     else let v = verify_history ed dt retained (authority_public_key_hex ed self) in
       rbind (rcheck (hv_valid v) (lifecycle_corrupt (''retained publication-key history is invalid: '' @ hv_reason v))) (\<lambda>_.
       rbind (raise_reason lifecycle_corrupt (configured_history_error (kl_configuration self) (authority_fingerprint ed self) retained)) (\<lambda>_.
       Inr retained)))"

definition RangerPublicationKeyAuthorityLedger ::
  "ed25519 \<Rightarrow> (utc \<Rightarrow> string) \<Rightarrow> key_event json_codec \<Rightarrow> key_configuration \<Rightarrow> string \<Rightarrow> key_store \<Rightarrow> (key_ledger \<times> key_event list) result" where
  "RangerPublicationKeyAuthorityLedger ed dt c config private_key_hex store =
     rbind (key_ledger_config config private_key_hex) (\<lambda>self.
     rbind (open_key_ledger ed dt c self store) (\<lambda>events. Inr (self, events)))"

text \<open>The event \<^verbatim>\<open>append\<close> signs.\<close>

definition new_key_event :: "ed25519 \<Rightarrow> (utc \<Rightarrow> string) \<Rightarrow> key_ledger \<Rightarrow> key_event list \<Rightarrow> key_request \<Rightarrow> key_event" where
  "new_key_event ed dt self events request =
     (let e = \<lparr> ke_sequence = int (length events) + 1, ke_previous = expected_previous ke_digest events, ke_request = request,
            ke_authority_id = kc_authority_id (kl_configuration self), ke_authority_key_id = kc_authority_key_id (kl_configuration self),
            ke_authority_fingerprint = authority_fingerprint ed self, ke_digest = [], ke_signature = [] \<rparr>
      in e \<lparr> ke_digest := canon_sha256 (key_event_payload dt e), ke_signature := sign_hex ed (kl_private_key self) (key_event_payload dt e) \<rparr>)"

text \<open>\<^verbatim>\<open>append\<close> up to the call of the store: what it raises, or the event it hands over, given what the store lists and the events in memory.\<close>

definition prepare_key_event ::
  "ed25519 \<Rightarrow> (utc \<Rightarrow> string) \<Rightarrow> key_ledger \<Rightarrow> key_event list \<Rightarrow> key_request \<Rightarrow> key_event list \<Rightarrow> key_event result" where
  "prepare_key_event ed dt self events request retained =
     (let c = kl_configuration self; i = kq_intent request; e = new_key_event ed dt self events request in
      rbind (rcheck (retained = events) (lifecycle_conflict ''retained publication-key history changed; reopen the ledger before appending'')) (\<lambda>_.
      rbind (rcheck (request_ok dt request) (lifecycle_error ''invalid publication-key binding request'')) (\<lambda>_.
      rbind (rcheck (ki_scope i = kc_scope c) (lifecycle_error ''publication-key scope does not match ledger'')) (\<lambda>_.
      rbind (rcheck (ki_principal i = principal_for_role c (ki_role i))
        (lifecycle_error ''publication-key principal does not match the configured role'')) (\<lambda>_.
      rbind (raise_reason lifecycle_error (request_proof_error ed dt request)) (\<lambda>_.
      rbind (raise_reason lifecycle_conflict (request_transition_error events request)) (\<lambda>_.
      rbind (raise_reason lifecycle_conflict (new_key_reuse_error events request)) (\<lambda>_.
      rbind (rcheck (\<not> list_ex (\<lambda>d. kd_fingerprint d = authority_fingerprint ed self) (request_descriptors request))
        (lifecycle_error ''publisher or custodian key must differ from the authority signing key'')) (\<lambda>_.
      rbind (rcheck (key_event_ok dt e) (ValidationError ''RangerPublicationKeyAuthorityEvent'')) (\<lambda>_.
      Inr e))))))))))"

record key_ledger_state =
  ls_store :: key_store
  ls_events :: "key_event list"

definition key_ledger_append ::
  "ed25519 \<Rightarrow> (utc \<Rightarrow> string) \<Rightarrow> key_event json_codec \<Rightarrow> key_ledger \<Rightarrow> key_request \<Rightarrow> (key_ledger_state, key_event) action" where
  "key_ledger_append ed dt c self request =
     abind (aread (\<lambda>s. rbind (list_key_events c (ls_store s)) (prepare_key_event ed dt self (ls_events s) request))) (\<lambda>event.
     abind (\<lambda>s. case key_store_append dt c event (ls_store s) of (r, store) \<Rightarrow> (r, s \<lparr> ls_store := store \<rparr>)) (\<lambda>_.
     abind (awrite (\<lambda>s. s \<lparr> ls_events := ls_events s @ [event] \<rparr>)) (\<lambda>_.
     alift (Inr event))))"

section \<open>Several processes on one database\<close>

text \<open>
  A process holds its configuration, the events in memory, and, between the checks of \<^verbatim>\<open>append\<close> and the transaction of the store, the event it
  is about to append. Processes need not agree on their configuration. \<open>kw_history\<close> lists the events that were retained, in order.
\<close>

record key_process =
  kp_ledger :: key_ledger
  kp_events :: "key_event list"
  kp_event :: "key_event option"

record key_world =
  kw_store :: key_store
  kw_processes :: "key_process list"
  kw_history :: "key_event list"

definition initial_key_world :: key_world where
  "initial_key_world = \<lparr> kw_store = empty_key_store, kw_processes = [], kw_history = [] \<rparr>"

inductive key_runs :: "ed25519 \<Rightarrow> (utc \<Rightarrow> string) \<Rightarrow> key_event json_codec \<Rightarrow> key_world \<Rightarrow> key_world \<Rightarrow> bool" for ed dt c w0 where
  start: "key_runs ed dt c w0 w0"
| opens: "key_runs ed dt c w0 w \<Longrightarrow> RangerPublicationKeyAuthorityLedger ed dt c config key_hex (kw_store w) = Inr (self, es) \<Longrightarrow>
    key_runs ed dt c w0 (w \<lparr> kw_processes := kw_processes w @ [\<lparr> kp_ledger = self, kp_events = es, kp_event = None \<rparr>] \<rparr>)"
| prepares: "key_runs ed dt c w0 w \<Longrightarrow> i < length (kw_processes w) \<Longrightarrow> kw_processes w ! i = p \<Longrightarrow> kp_event p = None \<Longrightarrow>
    rbind (list_key_events c (kw_store w)) (prepare_key_event ed dt (kp_ledger p) (kp_events p) request) = Inr e \<Longrightarrow>
    key_runs ed dt c w0 (w \<lparr> kw_processes := (kw_processes w)[i := p \<lparr> kp_event := Some e \<rparr>] \<rparr>)"
| appends: "key_runs ed dt c w0 w \<Longrightarrow> i < length (kw_processes w) \<Longrightarrow> kw_processes w ! i = p \<Longrightarrow> kp_event p = Some e \<Longrightarrow>
    key_store_append dt c e (kw_store w) = (res, store) \<Longrightarrow>
    key_runs ed dt c w0 (w \<lparr> kw_store := store, kw_processes := (kw_processes w)[i := (case res of
        Inr _ \<Rightarrow> p \<lparr> kp_events := kp_events p @ [e], kp_event := None \<rparr> | Inl _ \<Rightarrow> p \<lparr> kp_event := None \<rparr>)],
      kw_history := kw_history w @ (case res of Inr _ \<Rightarrow> [e] | Inl _ \<Rightarrow> []) \<rparr>)"

text \<open>A whole \<^verbatim>\<open>append\<close> of one process is one of the runs.\<close>

lemma key_ledger_append_runs:
  assumes "key_runs ed dt c w0 w" "i < length (kw_processes w)" "kw_processes w ! i = \<lparr> kp_ledger = self, kp_events = es, kp_event = None \<rparr>"
    "key_ledger_append ed dt c self request \<lparr> ls_store = kw_store w, ls_events = es \<rparr> = (res, st)"
  shows "key_runs ed dt c w0 (w \<lparr> kw_store := ls_store st, kw_processes := (kw_processes w)[i := \<lparr> kp_ledger = self, kp_events = ls_events st, kp_event = None \<rparr>],
    kw_history := kw_history w @ (case res of Inr e \<Rightarrow> [e] | Inl _ \<Rightarrow> []) \<rparr>)"
proof (cases "rbind (list_key_events c (kw_store w)) (prepare_key_event ed dt self es request)")
  case (Inl x)
  then have "st = \<lparr> ls_store = kw_store w, ls_events = es \<rparr>" "res = Inl x" using assms(4) by (auto simp: key_ledger_append_def action_simps)
  then have "w \<lparr> kw_store := ls_store st, kw_processes := (kw_processes w)[i := \<lparr> kp_ledger = self, kp_events = ls_events st, kp_event = None \<rparr>],
      kw_history := kw_history w @ (case res of Inr e \<Rightarrow> [e] | Inl _ \<Rightarrow> []) \<rparr> = w"
    using assms(2,3) by (simp add: list_update_same_conv)
  with assms(1) show ?thesis by simp
next
  case (Inr e)
  obtain r store where ap: "key_store_append dt c e (kw_store w) = (r, store)" by (cases "key_store_append dt c e (kw_store w)")
  note prepared = key_runs.prepares [OF assms(1-3) _ , of request e]
  have "key_runs ed dt c w0 (w \<lparr> kw_processes := (kw_processes w)[i := \<lparr> kp_ledger = self, kp_events = es, kp_event = Some e \<rparr>] \<rparr>)"
    using prepared Inr by simp
  from key_runs.appends [OF this, of i "\<lparr> kp_ledger = self, kp_events = es, kp_event = Some e \<rparr>" e r store]
  show ?thesis using assms(2,4) ap by (cases r) (auto simp: key_ledger_append_def action_simps abind_def Inr)
qed

section \<open>Every history verifies\<close>

definition ed25519_keys_ok :: "ed25519 \<Rightarrow> bool" where
  "ed25519_keys_ok ed \<longleftrightarrow> ed25519_ok ed \<and> (\<forall>k. length k = 32 \<longrightarrow> length (ed_public ed k) = 32)"

definition ledger_ok :: "key_ledger \<Rightarrow> bool" where
  "ledger_ok self \<longleftrightarrow> length (kl_private_key self) = 32 \<and>
     card {kc_publisher_id (kl_configuration self), kc_custodian_id (kl_configuration self), kc_authority_id (kl_configuration self)} = 3"

definition history_good :: "ed25519 \<Rightarrow> (utc \<Rightarrow> string) \<Rightarrow> key_ledger \<Rightarrow> key_event list \<Rightarrow> bool" where
  "history_good ed dt self es \<longleftrightarrow>
     first_failure (check_key_event ed dt (authority_public_key_hex ed self) (ed_public ed (kl_private_key self))) [] es = None \<and>
     (\<forall>e \<in> set es. ki_scope (ke_intent e) = kc_scope (kl_configuration self) \<and> ki_principal (ke_intent e) = principal_for_role (kl_configuration self) (ke_role e) \<and>
       ke_authority_id e = kc_authority_id (kl_configuration self) \<and> ke_authority_key_id e = kc_authority_key_id (kl_configuration self) \<and>
       ke_authority_fingerprint e = authority_fingerprint ed self)"

lemma raise_reason_Inr [simp]: "raise_reason e r = Inr u \<longleftrightarrow> r = None"
  by (simp add: raise_reason_def split: option.split)

lemma signing_keys: "ed25519_keys_ok ed \<Longrightarrow> length k = 32 \<Longrightarrow> signing_key_ok ed k"
  by (simp add: ed25519_keys_ok_def signing_key_ok_def)

lemma ledger_key: "ed25519_keys_ok ed \<Longrightarrow> ledger_ok self \<Longrightarrow> key_bytes (authority_public_key_hex ed self) = Some (ed_public ed (kl_private_key self))"
  by (simp add: authority_public_key_hex_def ledger_ok_def ed25519_keys_ok_def)

lemma configured_iff:
  "ledger_ok self \<Longrightarrow> configured_history_error (kl_configuration self) fp es = None \<longleftrightarrow>
    (\<forall>e \<in> set es. ki_scope (ke_intent e) = kc_scope (kl_configuration self) \<and> ki_principal (ke_intent e) = principal_for_role (kl_configuration self) (ke_role e) \<and>
       ke_authority_id e = kc_authority_id (kl_configuration self) \<and> ke_authority_key_id e = kc_authority_key_id (kl_configuration self) \<and> ke_authority_fingerprint e = fp)"
  by (auto simp: configured_history_error_def ledger_ok_def list_ex_iff)

lemma history_good_iff:
  assumes "ed25519_keys_ok ed" "ledger_ok self" "es \<noteq> []"
  shows "history_good ed dt self es \<longleftrightarrow> hv_valid (verify_history ed dt es (authority_public_key_hex ed self)) \<and>
    configured_history_error (kl_configuration self) (authority_fingerprint ed self) es = None"
  using assms(3) by (simp add: history_good_def verify_history_def ledger_key [OF assms(1,2)] history_failure_def configured_iff [OF assms(2)] split: option.split)

lemma history_good_Nil [simp]: "history_good ed dt self []"
  by (simp add: history_good_def)

lemma new_key_event_fields:
  fixes ed dt self es request
  defines "e \<equiv> new_key_event ed dt self es request"
  shows "ke_sequence e = int (length es) + 1" "ke_previous e = expected_previous ke_digest es" "ke_request e = request"
    "ke_authority_id e = kc_authority_id (kl_configuration self)" "ke_authority_key_id e = kc_authority_key_id (kl_configuration self)"
    "ke_authority_fingerprint e = authority_fingerprint ed self" "ke_digest e = canon_sha256 (key_event_payload dt e)"
    "ke_signature e = sign_hex ed (kl_private_key self) (key_event_payload dt e)"
  by (simp_all add: e_def new_key_event_def Let_def key_event_payload_def)

lemma prepared_extends:
  assumes ed: "ed25519_keys_ok ed" and self: "ledger_ok self" and good: "history_good ed dt self es"
    and prepared: "prepare_key_event ed dt self es request es = Inr e" and fresh: "ki_request_id (ke_intent e) \<notin> (\<lambda>v. ki_request_id (ke_intent v)) ` set es"
  shows "history_good ed dt self (es @ [e])"
proof -
  from prepared have e: "e = new_key_event ed dt self es request" and p: "request_ok dt request" "ki_scope (kq_intent request) = kc_scope (kl_configuration self)"
    "ki_principal (kq_intent request) = principal_for_role (kl_configuration self) (ki_role (kq_intent request))" "request_proof_error ed dt request = None"
    "request_transition_error es request = None" "new_key_reuse_error es request = None"
    "\<not> list_ex (\<lambda>d. kd_fingerprint d = authority_fingerprint ed self) (request_descriptors request)" "key_event_ok dt e"
    by (auto simp: prepare_key_event_def Let_def rbind_eq_Inr rcheck_eq_Inr)
  have sig: "signing_key_ok ed (kl_private_key self)" using signing_keys [OF ed] self by (simp add: ledger_ok_def)
  have identity: "es \<noteq> [] \<Longrightarrow> event_identity e = event_identity (hd es)"
    using good p(2) by (simp add: history_good_def event_identity_def e new_key_event_fields)
  have principal: "find (\<lambda>v. ke_role v = ki_role (ke_intent e)) es = Some v \<Longrightarrow> ki_principal (ke_intent v) = ki_principal (ke_intent e)" for v
    using good p(3) by (auto simp: history_good_def find_Some_iff e new_key_event_fields)
  have "check_key_event ed dt (authority_public_key_hex ed self) (ed_public ed (kl_private_key self)) es e = None"
    using p fresh identity principal sig
    by (auto simp: check_key_event_def Let_def e new_key_event_fields authority_fingerprint_def authority_public_key_hex_def split: option.split)
  moreover have "ki_scope (ke_intent e) = kc_scope (kl_configuration self) \<and> ki_principal (ke_intent e) = principal_for_role (kl_configuration self) (ke_role e) \<and>
       ke_authority_id e = kc_authority_id (kl_configuration self) \<and> ke_authority_key_id e = kc_authority_key_id (kl_configuration self) \<and>
       ke_authority_fingerprint e = authority_fingerprint ed self"
    using p(2,3) by (simp add: e new_key_event_fields)
  ultimately show ?thesis using good by (auto simp: history_good_def first_failure_append)
qed

lemma history_member: "history_good ed dt self es \<Longrightarrow> i < length es \<Longrightarrow> key_event_ok dt (es ! i) \<and> ke_sequence (es ! i) = int i + 1"
  by (auto simp: history_good_def first_failure_None check_key_event_def Let_def min_absorb2)

lemma list_key_events_rows:
  assumes "ks_rows s = map (key_row_of c) es" "history_good ed dt self es"
  shows "ordered_key_rows s = ks_rows s" "ks_integrity_ok s \<Longrightarrow> codec_ok c es \<Longrightarrow> list_key_events c s = Inr es"
proof -
  have "\<forall>i < length (ks_rows s). kr_sequence (ks_rows s ! i) = int i + 1"
    using history_member [OF assms(2)] by (simp add: assms(1) key_row_of_def)
  then show ordered: "ordered_key_rows s = ks_rows s" unfolding ordered_key_rows_def by (rule sort_key_increasing)
  show "list_key_events c s = Inr es" if "ks_integrity_ok s" "codec_ok c es"
    unfolding list_key_events_def ordered assms(1) using that
    by (simp, intro stored_records_of) (auto simp: key_row_of_def key_row_matches_def)
qed

lemma key_store_append_effect:
  assumes "ks_rows s = map (key_row_of c) es" "history_good ed dt self es"
  shows "atomically s (\<lambda>_ s'. s' = s \<lparr> ks_rows := map (key_row_of c) (es @ [e]) \<rparr> \<and> ke_sequence e = int (length es) + 1 \<and>
      ki_request_id (ke_intent e) \<notin> (\<lambda>v. ki_request_id (ke_intent v)) ` set es) (key_store_append dt c e s)"
proof -
  have ordered: "ordered_key_rows s = map (key_row_of c) es" using list_key_events_rows(1) [OF assms] assms(1) by simp
  have next_number: "es \<noteq> [] \<Longrightarrow> kr_sequence (last (map (key_row_of c) es)) = int (length es)"
    using history_member [OF assms(2), of "length es - 1"] by (cases es rule: rev_cases) (simp_all add: key_row_of_def last_conv_nth)
  have ids: "kr_request_id ` key_row_of c ` set es = (\<lambda>v. ki_request_id (ke_intent v)) ` set es" by (simp add: image_image key_row_of_def)
  show ?thesis
    unfolding key_store_append_def
    by (intro atomically_reads)
      (auto simp: atomically_def awrite_def ordered next_number ids assms(1) rcheck_eq_Inr split: if_split_asm)
qed

definition key_process_ok :: "ed25519 \<Rightarrow> (utc \<Rightarrow> string) \<Rightarrow> key_event list \<Rightarrow> key_process \<Rightarrow> bool" where
  "key_process_ok ed dt es p \<longleftrightarrow> ledger_ok (kp_ledger p) \<and> prefix (kp_events p) es \<and> history_good ed dt (kp_ledger p) (kp_events p) \<and>
     (\<forall>e. kp_event p = Some e \<longrightarrow> (\<exists>request. prepare_key_event ed dt (kp_ledger p) (kp_events p) request (kp_events p) = Inr e))"

definition key_inv :: "ed25519 \<Rightarrow> (utc \<Rightarrow> string) \<Rightarrow> key_event json_codec \<Rightarrow> key_world \<Rightarrow> key_event list \<Rightarrow> bool" where
  "key_inv ed dt c w es \<longleftrightarrow> kw_history w = es \<and> ks_rows (kw_store w) = map (key_row_of c) es \<and> ks_integrity_ok (kw_store w) \<and>
     list_all (key_process_ok ed dt es) (kw_processes w) \<and> (es = [] \<or> (\<exists>self \<in> kp_ledger ` set (kw_processes w). history_good ed dt self es))"

lemma key_inv_good: "key_inv ed dt c w es \<Longrightarrow> \<exists>self. history_good ed dt self es"
  by (cases "es = []") (auto simp: key_inv_def)

lemma ledgers_update: "i < length ps \<Longrightarrow> kp_ledger (ps ! i) = kp_ledger q \<Longrightarrow> kp_ledger ` set (ps[i := q]) = kp_ledger ` set ps"
  by (metis list_update_id map_update set_map)

lemma list_all_updated: "list_all P xs \<Longrightarrow> P y \<Longrightarrow> list_all P (xs[i := y])"
  using set_update_subset_insert [of xs i y] by (auto simp: list_all_iff)

lemma opened_process:
  assumes "ed25519_keys_ok ed" "RangerPublicationKeyAuthorityLedger ed dt c config key_hex s = Inr (self, es)" "list_key_events c s = Inr rs"
  shows "es = rs \<and> ledger_ok self \<and> history_good ed dt self es"
proof -
  from assms(2,3) have self: "key_ledger_config config key_hex = Inr self" and es: "es = rs"
    and v: "rs \<noteq> [] \<Longrightarrow> hv_valid (verify_history ed dt rs (authority_public_key_hex ed self)) \<and>
      configured_history_error (kl_configuration self) (authority_fingerprint ed self) rs = None"
    by (auto simp: RangerPublicationKeyAuthorityLedger_def open_key_ledger_def Let_def rbind_eq_Inr rcheck_eq_Inr split: if_split_asm)
  have ok: "ledger_ok self"
    using self by (auto simp: key_ledger_config_def ledger_ok_def rbind_eq_Inr rcheck_eq_Inr load_private_key_def rget_eq_Inr key_bytes_def split: option.split_asm if_split_asm)
  then show ?thesis using es v history_good_iff [OF assms(1) ok] by (cases "rs = []") auto
qed

lemma key_inv_prepares:
  assumes inv: "key_inv ed dt c w es" and i: "i < length (kw_processes w)" "kw_processes w ! i = p"
    and prep: "prepare_key_event ed dt (kp_ledger p) (kp_events p) request rs = Inr e"
  shows "key_inv ed dt c (w \<lparr> kw_processes := (kw_processes w)[i := p \<lparr> kp_event := Some e \<rparr>] \<rparr>) es"
proof -
  have "rs = kp_events p" using prep by (simp add: prepare_key_event_def Let_def rbind_eq_Inr rcheck_eq_Inr)
  moreover have "key_process_ok ed dt es p" using inv i by (auto simp: key_inv_def list_all_length)
  ultimately have "key_process_ok ed dt es (p \<lparr> kp_event := Some e \<rparr>)" using prep by (auto simp: key_process_ok_def)
  then show ?thesis using inv i by (auto simp: key_inv_def ledgers_update list_all_updated)
qed

lemma key_inv_appends:
  assumes ed: "ed25519_keys_ok ed" and inv: "key_inv ed dt c w es" and i: "i < length (kw_processes w)" "kw_processes w ! i = p" and e: "kp_event p = Some e"
    and ap: "key_store_append dt c e (kw_store w) = (res, store)"
  shows "\<exists>es'. key_inv ed dt c (w \<lparr> kw_store := store, kw_processes := (kw_processes w)[i := (case res of
        Inr _ \<Rightarrow> p \<lparr> kp_events := kp_events p @ [e], kp_event := None \<rparr> | Inl _ \<Rightarrow> p \<lparr> kp_event := None \<rparr>)],
      kw_history := kw_history w @ (case res of Inr _ \<Rightarrow> [e] | Inl _ \<Rightarrow> []) \<rparr>) es'"
proof -
  have p: "key_process_ok ed dt es p" using inv i by (auto simp: key_inv_def list_all_length)
  then obtain request where prep: "prepare_key_event ed dt (kp_ledger p) (kp_events p) request (kp_events p) = Inr e" using e by (auto simp: key_process_ok_def)
  have rows: "ks_rows (kw_store w) = map (key_row_of c) es" using inv by (simp add: key_inv_def)
  obtain self where self: "history_good ed dt self es" using key_inv_good [OF inv] by blast
  from key_store_append_effect [OF rows self, where e = e] ap consider
      (raises) x where "res = Inl x" "store = kw_store w"
    | (appends) "res = Inr ()" "store = kw_store w \<lparr> ks_rows := map (key_row_of c) (es @ [e]) \<rparr>" "ke_sequence e = int (length es) + 1"
        "ki_request_id (ke_intent e) \<notin> (\<lambda>v. ki_request_id (ke_intent v)) ` set es"
    by (cases res) (auto simp: atomically_def)
  then show ?thesis
  proof cases
    case raises
    have "key_process_ok ed dt es (p \<lparr> kp_event := None \<rparr>)" using p by (simp add: key_process_ok_def)
    with raises inv i show ?thesis by (auto simp: key_inv_def ledgers_update list_all_updated intro!: exI [of _ es])
  next
    case appends
    have "ke_sequence e = int (length (kp_events p)) + 1"
      using prep by (auto simp: prepare_key_event_def Let_def rbind_eq_Inr new_key_event_fields)
    with appends(3) p have same: "kp_events p = es" by (auto simp: key_process_ok_def prefix_def)
    have good: "history_good ed dt (kp_ledger p) (es @ [e])"
      using prepared_extends [OF ed, of "kp_ledger p" dt es request e] prep p same appends(4) by (simp add: key_process_ok_def)
    let ?q = "p \<lparr> kp_events := kp_events p @ [e], kp_event := None \<rparr>"
    have "key_process_ok ed dt (es @ [e]) ?q" using p good same by (simp add: key_process_ok_def)
    moreover have "list_all (key_process_ok ed dt (es @ [e])) (kw_processes w)"
      using inv by (auto simp: key_inv_def key_process_ok_def list_all_iff intro: prefix_order.trans)
    moreover have "kp_ledger p \<in> kp_ledger ` set (kw_processes w)" using i nth_mem by blast
    ultimately have "key_inv ed dt c (w \<lparr> kw_store := store, kw_processes := (kw_processes w)[i := ?q], kw_history := kw_history w @ [e] \<rparr>) (es @ [e])"
      using inv i appends(2) good by (auto simp: key_inv_def ledgers_update list_all_updated)
    then show ?thesis using appends(1) by auto
  qed
qed

lemma key_inv_lists: "key_inv ed dt c w es \<Longrightarrow> codec_ok c (kw_history w) \<Longrightarrow> list_key_events c (kw_store w) = Inr (kw_history w)"
  using key_inv_good [of ed dt c w es] list_key_events_rows(2) by (auto simp: key_inv_def)

lemma key_runs_inv:
  assumes "key_runs ed dt c w0 w" "key_inv ed dt c w0 es0" "codec_ok c (kw_history w)" "ed25519_keys_ok ed"
  shows "\<exists>es. key_inv ed dt c w es"
  using assms
proof induction
  case (opens w config key_hex self es)
  then obtain rs where inv: "key_inv ed dt c w rs" by auto
  then have "list_key_events c (kw_store w) = Inr rs" using key_inv_lists [OF inv] opens.prems(2) by (simp add: key_inv_def)
  from opened_process [OF opens.prems(3) opens.hyps(2) this]
  have "key_process_ok ed dt rs \<lparr> kp_ledger = self, kp_events = es, kp_event = None \<rparr>" by (auto simp: key_process_ok_def)
  with inv show ?case by (auto simp: key_inv_def)
next
  case (prepares w i p request e)
  then obtain rs where inv: "key_inv ed dt c w rs" by auto
  obtain retained where "prepare_key_event ed dt (kp_ledger p) (kp_events p) request retained = Inr e" using prepares.hyps(5) by (auto simp: rbind_eq_Inr)
  from key_inv_prepares [OF inv prepares.hyps(2,3) this] show ?case by blast
next
  case (appends w i p e res store)
  then have "codec_ok c (kw_history w)" by (auto simp: codec_ok_def split: sum.split_asm)
  with appends obtain rs where "key_inv ed dt c w rs" by blast
  from key_inv_appends [OF appends.prems(3) this appends.hyps(2-5)] show ?case .
qed blast

lemma key_runs_history: "key_runs ed dt c w0 w \<Longrightarrow> prefix (kw_history w0) (kw_history w)"
  by (induction rule: key_runs.induct) (auto intro: prefix_order.trans)

lemma initial_key_inv: "key_inv ed dt c initial_key_world []"
  by (simp add: key_inv_def initial_key_world_def empty_key_store_def)

lemma reached_history:
  assumes "ed25519_keys_ok ed" "key_runs ed dt c initial_key_world w" "codec_ok c (kw_history w)"
  shows "list_key_events c (kw_store w) = Inr (kw_history w)" "list_all (\<lambda>p. prefix (kp_events p) (kw_history w)) (kw_processes w)"
    "kw_history w = [] \<or> (\<exists>self \<in> kp_ledger ` set (kw_processes w). ledger_ok self \<and> history_good ed dt self (kw_history w))"
proof -
  obtain es where inv: "key_inv ed dt c w es" using key_runs_inv [OF assms(2) initial_key_inv assms(3,1)] by blast
  then show "list_key_events c (kw_store w) = Inr (kw_history w)" "list_all (\<lambda>p. prefix (kp_events p) (kw_history w)) (kw_processes w)"
    using key_inv_lists [OF inv assms(3)] by (auto simp: key_inv_def key_process_ok_def list_all_iff)
  show "kw_history w = [] \<or> (\<exists>self \<in> kp_ledger ` set (kw_processes w). ledger_ok self \<and> history_good ed dt self (kw_history w))"
    using inv by (auto simp: key_inv_def key_process_ok_def list_all_iff)
qed

section \<open>The lifecycle of a role\<close>

text \<open>The abstract machine of one role: a key is enrolled once, replaced by rotations, and ended by a revocation.\<close>

datatype role_state = Unenrolled | Active key_descriptor | Revoked

fun role_step :: "role_state \<Rightarrow> key_intent \<Rightarrow> role_state option" where
  "role_step Unenrolled i = (if ki_kind i = Enroll then Some (Active (ki_subject i)) else None)"
| "role_step (Active k) i =
     (if ki_subject i \<noteq> k then None
      else case (ki_kind i, ki_replacement i) of
        (Rotate, Some k') \<Rightarrow> Some (Active k')
      | (Revoke, _) \<Rightarrow> Some Revoked
      | _ \<Rightarrow> None)"
| "role_step Revoked i = None"

primrec role_run :: "role_state \<Rightarrow> key_intent list \<Rightarrow> role_state option" where
  "role_run s [] = Some s"
| "role_run s (i # is) = (case role_step s i of None \<Rightarrow> None | Some s' \<Rightarrow> role_run s' is)"

definition role_intents :: "key_role \<Rightarrow> key_event list \<Rightarrow> key_intent list" where
  "role_intents role es = map ke_intent (filter (\<lambda>e. ke_role e = role) es)"

definition active_key :: "role_state \<Rightarrow> key_descriptor option" where
  "active_key s = (case s of Active k \<Rightarrow> Some k | _ \<Rightarrow> None)"

text \<open>The keys a history brought in, each with the proof of possession given for it.\<close>

definition introduced_keys :: "key_event list \<Rightarrow> key_descriptor list" where
  "introduced_keys es = List.map_filter (\<lambda>e. new_descriptor (ke_intent e)) es"

definition possession_proved :: "ed25519 \<Rightarrow> (utc \<Rightarrow> string) \<Rightarrow> key_event list \<Rightarrow> key_descriptor \<Rightarrow> bool" where
  "possession_proved ed dt es k \<longleftrightarrow> (\<exists>e \<in> set es. \<exists>sig. new_descriptor (ke_intent e) = Some k \<and>
     signature_accepted ed (kd_public_key_hex k) sig (intent_json dt (ke_intent e)))"

lemma role_run_append: "role_run s (is @ js) = (case role_run s is of None \<Rightarrow> None | Some s' \<Rightarrow> role_run s' js)"
  by (induction "is" arbitrary: s) (auto split: option.split)

lemma introduced_append: "introduced_keys (es @ [e]) = introduced_keys es @ (case new_descriptor (ke_intent e) of None \<Rightarrow> [] | Some k \<Rightarrow> [k])"
  by (simp add: introduced_keys_def map_filter_def split: option.split)

lemma introduced_iff: "k \<in> set (introduced_keys es) \<longleftrightarrow> (\<exists>e \<in> set es. new_descriptor (ke_intent e) = Some k)"
  by (induction es rule: rev_induct) (auto simp: introduced_append split: option.split, simp add: introduced_keys_def map_filter_def)

lemma new_in_request: "new_descriptor (kq_intent r) = Some k \<Longrightarrow> k \<in> set (request_descriptors r)"
  by (cases "ki_kind (kq_intent r)") (auto simp: new_descriptor_def request_descriptors_def split: option.split)

lemma introduced_used: "set (introduced_keys es) \<subseteq> used_descriptors es"
  by (auto simp: introduced_iff used_descriptors_def intro!: bexI new_in_request)

lemma active_append_other: "ke_role e \<noteq> role \<Longrightarrow> active_descriptor (es @ [e]) role = active_descriptor es role"
  by (simp add: active_descriptor_def)

lemma active_append_same:
  "active_descriptor (es @ [e]) (ke_role e) = (if ki_kind (ke_intent e) = Revoke then None else Some (case ki_replacement (ke_intent e) of None \<Rightarrow> ki_subject (ke_intent e) | Some k \<Rightarrow> k), Some e)"
  by (simp add: active_descriptor_def Let_def)

lemma active_filtered: "active_descriptor (filter (\<lambda>e. ke_role e = role) es) role = active_descriptor es role"
  by (simp add: active_descriptor_def)

definition lifecycle_ok :: "ed25519 \<Rightarrow> (utc \<Rightarrow> string) \<Rightarrow> string \<Rightarrow> key_event list \<Rightarrow> bool" where
  "lifecycle_ok ed dt authority_fp es \<longleftrightarrow>
     (\<forall>role. \<exists>s. role_run Unenrolled (role_intents role es) = Some s \<and> fst (active_descriptor es role) = active_key s) \<and>
     distinct (map kd_key_id (introduced_keys es)) \<and> distinct (map kd_fingerprint (introduced_keys es)) \<and>
     (\<forall>k \<in> set (introduced_keys es). kd_fingerprint k \<noteq> authority_fp \<and> possession_proved ed dt es k)"

lemma role_intents_append: "role_intents role (es @ [e]) = role_intents role es @ (if ke_role e = role then [ke_intent e] else [])"
  by (simp add: role_intents_def)

lemma role_transition:
  assumes "request_transition_error es (ke_request e) = None" "transition_fields_ok (ke_intent e)"
    and "role_run Unenrolled (role_intents (ke_role e) es) = Some s" "fst (active_descriptor es (ke_role e)) = active_key s"
  shows "\<exists>s'. role_step s (ke_intent e) = Some s' \<and> fst (active_descriptor (es @ [e]) (ke_role e)) = active_key s'"
proof (cases "filter (\<lambda>v. ke_role v = ke_role e) es = []")
  case True
  then have "s = Unenrolled" "ki_kind (ke_intent e) = Enroll"
    using assms(1,3) by (simp_all add: role_intents_def request_transition_error_def)
  then show ?thesis using assms(2) by (simp add: active_append_same active_key_def transition_fields_ok_def)
next
  case False
  then have t: "ki_kind (ke_intent e) \<noteq> Enroll" "fst (active_descriptor es (ke_role e)) = Some (ki_subject (ke_intent e))"
    using assms(1) by (auto simp: request_transition_error_def Let_def active_filtered split: if_split_asm option.split_asm)
  then have "s = Active (ki_subject (ke_intent e))" using assms(4) by (simp add: active_key_def split: role_state.split_asm)
  then show ?thesis
    using t(1) assms(2) by (cases "ki_kind (ke_intent e)") (auto simp: active_append_same active_key_def transition_fields_ok_def)
qed

lemma lifecycle_extends:
  assumes check: "check_key_event ed dt hex key es e = None" and ok: "lifecycle_ok ed dt (key_fingerprint key) es"
  shows "lifecycle_ok ed dt (key_fingerprint key) (es @ [e])"
proof -
  from check have c: "key_event_ok dt e" "\<not> list_ex (\<lambda>d. kd_fingerprint d = key_fingerprint key) (request_descriptors (ke_request e))"
    "request_proof_error ed dt (ke_request e) = None" "request_transition_error es (ke_request e) = None" "new_key_reuse_error es (ke_request e) = None"
    by (simp_all add: check_key_event_def Let_def)
  then have fields: "transition_fields_ok (ke_intent e)" by (simp add: key_event_ok_def request_ok_def intent_ok_def)
  have roles: "\<exists>s. role_run Unenrolled (role_intents role (es @ [e])) = Some s \<and> fst (active_descriptor (es @ [e]) role) = active_key s" for role
  proof (cases "ke_role e = role")
    case True
    obtain s where "role_run Unenrolled (role_intents role es) = Some s" "fst (active_descriptor es role) = active_key s" using ok by (auto simp: lifecycle_ok_def)
    with role_transition [OF c(4) fields, of s] True show ?thesis by (auto simp: role_intents_append role_run_append)
  next
    case False
    then show ?thesis using ok by (simp add: lifecycle_ok_def role_intents_append active_append_other)
  qed
  note used = introduced_used [of es]
  have incoming: "kd_key_id k \<notin> kd_key_id ` used_descriptors es \<and> kd_fingerprint k \<notin> kd_fingerprint ` used_descriptors es \<and> kd_fingerprint k \<noteq> key_fingerprint key \<and>
      possession_proved ed dt (es @ [e]) k" if k: "new_descriptor (ke_intent e) = Some k" for k
  proof -
    have "k \<in> set (request_descriptors (ke_request e))" using k by (rule new_in_request)
    moreover have "\<exists>sig. signature_accepted ed (kd_public_key_hex k) sig (intent_json dt (ke_intent e))"
      using k c(3) fields by (auto simp: new_descriptor_def request_proof_error_def proof_error_def Let_def transition_fields_ok_def split: key_event_kind.split_asm option.split_asm)
    ultimately show ?thesis using k c(2,5) by (auto simp: list_ex_iff new_key_reuse_error_def possession_proved_def)
  qed
  have old: "possession_proved ed dt es k \<Longrightarrow> possession_proved ed dt (es @ [e]) k" for k by (auto simp: possession_proved_def)
  show ?thesis
    unfolding lifecycle_ok_def using roles ok old incoming used
    by (auto simp: introduced_append lifecycle_ok_def split: option.split)
qed

lemma history_lifecycle:
  "first_failure (check_key_event ed dt hex key) [] es = None \<Longrightarrow> lifecycle_ok ed dt (key_fingerprint key) es \<and> (\<forall>e \<in> set es. key_event_ok dt e)"
proof (induction es rule: rev_induct)
  case Nil
  show ?case by (simp add: lifecycle_ok_def introduced_keys_def map_filter_def active_descriptor_def active_key_def role_intents_def)
next
  case (snoc e es)
  then have "check_key_event ed dt hex key es e = None" "first_failure (check_key_event ed dt hex key) [] es = None"
    by (simp_all add: first_failure_append split: option.split_asm)
  moreover from this(1) have "key_event_ok dt e" by (simp add: check_key_event_def Let_def)
  ultimately show ?case using snoc.IH lifecycle_extends [of ed dt hex key es e] by simp
qed

section \<open>The head binds the history\<close>

text \<open>What the digest of an event covers: everything but its digest and signature, with the recorded time as the text \<open>dt\<close> gives.\<close>

definition event_content :: "(utc \<Rightarrow> string) \<Rightarrow> key_event \<Rightarrow> key_event \<times> string" where
  "event_content dt e = (e \<lparr> ke_request := (ke_request e) \<lparr> kq_intent := (ke_intent e) \<lparr> ki_recorded_at := 0 \<rparr> \<rparr>, ke_digest := [], ke_signature := [] \<rparr>,
     dt (ki_recorded_at (ke_intent e)))"

lemma key_role_text_inject [simp]: "key_role_text a = key_role_text b \<longleftrightarrow> a = b"
  by (cases a; cases b; simp)

lemma key_event_kind_text_inject [simp]: "key_event_kind_text a = key_event_kind_text b \<longleftrightarrow> a = b"
  by (cases a; cases b; simp)

lemma revocation_reason_text_inject [simp]: "revocation_reason_text a = revocation_reason_text b \<longleftrightarrow> a = b"
  by (cases a; cases b; simp)

lemma descriptor_json_inject: "jnorm (descriptor_json a) = jnorm (descriptor_json b) \<Longrightarrow> a = b"
  unfolding descriptor_json_def by (drule jnorm_JObj_values) auto

lemma descriptor_not_null: "jnorm (descriptor_json a) \<noteq> JNull"
  by (simp add: descriptor_json_def)

lemma replacement_inject: "jnorm (JOptObj descriptor_json a) = jnorm (JOptObj descriptor_json b) \<Longrightarrow> a = b"
  using descriptor_not_null descriptor_json_inject by (cases a; cases b) (auto simp: JOptObj_def dest: sym)

lemma reason_inject: "jnorm (JOptObj (\<lambda>r. JStr (revocation_reason_text r)) a) = jnorm (JOptObj (\<lambda>r. JStr (revocation_reason_text r)) b) \<Longrightarrow> a = b"
  by (cases a; cases b) (simp_all add: JOptObj_def)

lemma proof_inject: "jnorm (JOpt a) = jnorm (JOpt b) \<Longrightarrow> a = b"
  by (cases a; cases b) (simp_all add: JOpt_def)

lemma intent_json_content:
  "jnorm (intent_json dt a) = jnorm (intent_json dt b) \<Longrightarrow> a \<lparr> ki_recorded_at := 0 \<rparr> = b \<lparr> ki_recorded_at := 0 \<rparr> \<and> dt (ki_recorded_at a) = dt (ki_recorded_at b)"
proof -
  assume "jnorm (intent_json dt a) = jnorm (intent_json dt b)"
  from jnorm_JObj_values [OF this [unfolded intent_json_def]] show ?thesis
    by (auto dest!: descriptor_json_inject replacement_inject reason_inject)
qed

lemma request_json_content:
  assumes "jnorm (request_json dt a) = jnorm (request_json dt b)"
  shows "a \<lparr> kq_intent := (kq_intent a) \<lparr> ki_recorded_at := 0 \<rparr> \<rparr> = b \<lparr> kq_intent := (kq_intent b) \<lparr> ki_recorded_at := 0 \<rparr> \<rparr> \<and>
    dt (ki_recorded_at (kq_intent a)) = dt (ki_recorded_at (kq_intent b))"
  using jnorm_JObj_values [OF assms [unfolded request_json_def]] by (auto dest!: intent_json_content proof_inject)

lemma event_payload_content:
  assumes "jnorm (key_event_payload dt a) = jnorm (key_event_payload dt b)"
  shows "event_content dt a = event_content dt b"
  using jnorm_JObj_values [OF assms [unfolded key_event_payload_def]] by (auto simp: event_content_def dest: request_json_content)

lemma key_event_payload_ok: "json_ok (key_event_payload dt e)"
  by (simp add: key_event_payload_def request_json_def intent_json_def descriptor_json_def JOpt_def JOptObj_def split: option.split)

interpretation key_history: hash_linked "key_event_ok dt" ke_sequence ke_previous ke_digest "key_event_payload dt" "event_content dt" for dt
proof
  show "event_content dt a = event_content dt b \<Longrightarrow> ke_sequence a = ke_sequence b \<and> ke_previous a = ke_previous b" for a b
    by (cases a; cases b) (simp add: event_content_def)
  show "json_ok (key_event_payload dt b)" for b by (rule key_event_payload_ok)
  show "jnorm (key_event_payload dt a) = jnorm (key_event_payload dt b) \<Longrightarrow> event_content dt a = event_content dt b" for a b by (rule event_payload_content)
qed

lemma checked_history_linked:
  "first_failure (check_key_event ed dt hex key) [] es = None \<Longrightarrow> linked (key_event_ok dt) ke_sequence ke_previous ke_digest (key_event_payload dt) 1 zero_digest es"
  by (simp add: first_failure_None linked_iff check_key_event_def Let_def min_absorb2)

lemma valid_history_checked:
  assumes "hv_valid (verify_history ed dt es hex)"
  obtains key where "key_bytes hex = Some key" "first_failure (check_key_event ed dt hex key) [] es = None" "es \<noteq> []"
  using assms that by (auto simp: verify_history_def history_failure_def split: if_split_asm option.split_asm)

section \<open>Properties\<close>

lemma key_runs_trans: "key_runs ed dt c w1 w2 \<Longrightarrow> key_runs ed dt c w0 w1 \<Longrightarrow> key_runs ed dt c w0 w2"
  by (induction rule: key_runs.induct) (auto intro: key_runs.intros)

text \<open>
  C24. The retained history always verifies: however many ledgers, of whatever configurations and authority keys, are opened on one database, and
  however their appends interleave between the checks and the transaction, the database lists the events retained so far, in order,
  every ledger's memory is a beginning of them, none is ever dropped, and the whole verifies under the key and the
  configuration of one of the ledgers.
\<close>

theorem key_history_always_verifies:
  assumes "ed25519_keys_ok ed" "key_runs ed dt c initial_key_world w" "key_runs ed dt c w w'" "codec_ok c (kw_history w')"
  shows "list_key_events c (kw_store w') = Inr (kw_history w') \<and> prefix (kw_history w) (kw_history w') \<and>
    list_all (\<lambda>p. prefix (kp_events p) (kw_history w')) (kw_processes w') \<and>
    (kw_history w' = [] \<or> (\<exists>p \<in> set (kw_processes w').
      hv_valid (verify_history ed dt (kw_history w') (authority_public_key_hex ed (kp_ledger p))) \<and>
      configured_history_error (kl_configuration (kp_ledger p)) (authority_fingerprint ed (kp_ledger p)) (kw_history w') = None))"
proof -
  have "key_runs ed dt c initial_key_world w'" by (rule key_runs_trans [OF assms(3,2)])
  note reached = reached_history [OF assms(1) this assms(4)]
  then show ?thesis using key_runs_history [OF assms(3)] history_good_iff [OF assms(1)] by auto
qed

text \<open>
  C25. A history that verifies is a key lifecycle: in each role it follows the machine that enrolls once, rotates from the active key, and ends
  with a revocation, and the active key the code reads off is the state of the machine; no key identifier and no
  public key is brought in twice, in either role, none is the authority's, and each comes with an accepted proof of possession.
\<close>

theorem verified_history_is_lifecycle:
  assumes "hv_valid (verify_history ed dt es authority_hex)" "key_bytes authority_hex = Some key"
  shows "(\<forall>role. \<exists>s. role_run Unenrolled (role_intents role es) = Some s \<and> fst (active_descriptor es role) = active_key s) \<and>
    distinct (map kd_key_id (introduced_keys es)) \<and> distinct (map kd_fingerprint (introduced_keys es)) \<and>
    (\<forall>k \<in> set (introduced_keys es). kd_fingerprint k \<noteq> key_fingerprint key \<and> possession_proved ed dt es k)"
proof -
  have "first_failure (check_key_event ed dt authority_hex key) [] es = None" using valid_history_checked [OF assms(1)] assms(2) by auto
  from history_lifecycle [OF this] show ?thesis by (simp add: lifecycle_ok_def)
qed

text \<open>
  The head binds the history: two verified histories whose last events have the same digest are the same, event by event, up to the
  authority's signatures and the times \<open>dt\<close> does not tell apart, or exhibit a SHA-256 collision among the payloads.
\<close>

theorem history_head_binds_events:
  assumes "hv_valid (verify_history ed dt es hex)" "hv_valid (verify_history ed dt es' hex')" "ke_digest (last es) = ke_digest (last es')"
  shows "map (event_content dt) es = map (event_content dt) es' \<or> collides (payload_inputs (key_event_payload dt) es) (payload_inputs (key_event_payload dt) es')"
proof -
  obtain key key' where "first_failure (check_key_event ed dt hex key) [] es = None" "first_failure (check_key_event ed dt hex' key') [] es' = None" "es \<noteq> []" "es' \<noteq> []"
    using assms(1,2) by (metis valid_history_checked)
  then show ?thesis using assms(3) by (intro key_history.chain_binding [OF checked_history_linked checked_history_linked])
qed

section \<open>A concrete authority\<close>

text \<open>An authority that enrolls the key of the publisher above.\<close>

definition demo_configuration :: key_configuration where
  "demo_configuration = \<lparr> kc_scope = ''ets-ranger-publication:demo'', kc_publisher_id = ''publisher'', kc_custodian_id = ''custodian'',
     kc_authority_id = ''authority'', kc_authority_key_id = ''ak-1'' \<rparr>"

definition demo_ledger :: key_ledger where
  "demo_ledger = \<lparr> kl_configuration = demo_configuration, kl_private_key = demo_key 3 \<rparr>"

definition demo_descriptor :: key_descriptor where
  "demo_descriptor = \<lparr> kd_key_id = ''pk-1'', kd_public_key_hex = hexlify (demo_key 1), kd_fingerprint = key_fingerprint (demo_key 1) \<rparr>"

definition demo_intent :: key_intent where
  "demo_intent = \<lparr> ki_request_id = ''q-1'', ki_role = Publisher_Role, ki_kind = Enroll, ki_scope = ''ets-ranger-publication:demo'',
     ki_principal = ''publisher'', ki_subject = demo_descriptor, ki_replacement = None, ki_reason = None, ki_recorded_at = 1 \<rparr>"

definition demo_binding :: key_request where
  "demo_binding = \<lparr> kq_intent = demo_intent, kq_digest = canon_sha256 (intent_json isoformat_z demo_intent),
     kq_subject_proof = Some (sign_hex demo_ed25519 (demo_key 1) (intent_json isoformat_z demo_intent)), kq_replacement_proof = None \<rparr>"

definition demo_event :: key_event where
  "demo_event = new_key_event demo_ed25519 isoformat_z demo_ledger [] demo_binding"

lemma demo_keys_ok: "ed25519_keys_ok demo_ed25519"
  by (simp add: ed25519_keys_ok_def ed25519_ok_def demo_ed25519_def length_sha256)

lemma demo_public [simp]: "ed_public demo_ed25519 k = k"
  by (simp add: demo_ed25519_def)

lemma demo_key_length [simp]: "length (demo_key n) = 32"
  by (simp add: demo_key_def)

lemma demo_fingerprints: "key_fingerprint (demo_key 1) \<noteq> key_fingerprint (demo_key 3)"
proof
  assume "key_fingerprint (demo_key 1) = key_fingerprint (demo_key 3)"
  then have "Inr (sha256 (demo_key 1)) = fromhex (key_fingerprint (demo_key 3))" by (metis fromhex_sha256_hex key_fingerprint_def)
  then have "sha256 (demo_key 1) = sha256 (demo_key 3)" by (simp add: key_fingerprint_def)
  then show False by (simp add: demo_key_def sha256_ones sha256_threes)
qed

lemma demo_descriptor_ok: "descriptor_ok demo_descriptor"
  by (simp add: descriptor_ok_def demo_descriptor_def field_length_def sha256_text_def lower_hex_hexlify)
    (simp add: key_fingerprint_def sha256_hex_def lower_hex_hexlify)

lemma demo_binding_ok: "request_ok isoformat_z demo_binding"
proof -
  have "starts_with ''ets-ranger-publication:'' ''ets-ranger-publication:demo''" by code_simp
  then have "intent_ok demo_intent"
    using demo_descriptor_ok by (simp add: intent_ok_def demo_intent_def field_length_def publication_scope_ok_def transition_fields_ok_def opt_ok_def)
  then show ?thesis by (simp add: request_ok_def demo_binding_def opt_ok_def proofs_shape_ok_def) (simp add: demo_intent_def)
qed

lemma demo_binding_proof: "request_proof_error demo_ed25519 isoformat_z demo_binding = None"
  using signature_of_key [OF demo_key_ok, of 1]
  by (simp add: request_proof_error_def demo_binding_def Let_def proof_error_def) (simp add: demo_intent_def demo_descriptor_def)

lemma demo_event_ok: "key_event_ok isoformat_z demo_event"
  using demo_binding_ok
  by (simp add: key_event_ok_def demo_event_def new_key_event_fields int64_positive_def expected_previous_def predecessor_ok_def)
    (simp add: demo_ledger_def demo_configuration_def field_length_def authority_fingerprint_def key_fingerprint_def)

lemma demo_prepared: "prepare_key_event demo_ed25519 isoformat_z demo_ledger [] demo_binding [] = Inr demo_event"
proof -
  have "request_transition_error [] demo_binding = None" "new_key_reuse_error [] demo_binding = None"
    by (simp_all add: request_transition_error_def new_key_reuse_error_def Let_def demo_binding_def demo_intent_def used_descriptors_def new_descriptor_def)
  moreover have "request_descriptors demo_binding = [demo_descriptor]" by (simp add: request_descriptors_def demo_binding_def demo_intent_def)
  moreover have "ki_scope (kq_intent demo_binding) = kc_scope (kl_configuration demo_ledger)"
    "ki_principal (kq_intent demo_binding) = principal_for_role (kl_configuration demo_ledger) (ki_role (kq_intent demo_binding))"
    by (simp_all add: demo_binding_def demo_intent_def demo_ledger_def demo_configuration_def)
  moreover have "kd_fingerprint demo_descriptor \<noteq> authority_fingerprint demo_ed25519 demo_ledger"
    using demo_fingerprints by (simp add: demo_descriptor_def authority_fingerprint_def demo_ledger_def)
  ultimately show ?thesis
    using demo_binding_ok demo_binding_proof demo_event_ok
    by (simp add: prepare_key_event_def Let_def demo_event_def [symmetric])
qed

lemma demo_ledger_ok: "ledger_ok demo_ledger"
  by (simp add: ledger_ok_def demo_ledger_def demo_configuration_def)

definition demo_codec :: "key_event json_codec" where
  "demo_codec = \<lparr> jc_dump = (\<lambda>_. ''e''), jc_load = (\<lambda>_. Inr demo_event) \<rparr>"

definition demo_key_store :: key_store where
  "demo_key_store = empty_key_store \<lparr> ks_rows := [key_row_of demo_codec demo_event] \<rparr>"

definition demo_key_world :: key_world where
  "demo_key_world = \<lparr> kw_store = demo_key_store, kw_processes = [\<lparr> kp_ledger = demo_ledger, kp_events = [demo_event], kp_event = None \<rparr>],
     kw_history = [demo_event] \<rparr>"

lemma demo_store_append: "key_store_append isoformat_z demo_codec demo_event empty_key_store = (Inr (), demo_key_store)"
proof -
  have "ke_sequence demo_event = 1" "ke_previous demo_event = zero_digest" by (simp_all add: demo_event_def new_key_event_fields expected_previous_def)
  then show ?thesis
    using demo_event_ok by (simp add: key_store_append_def action_simps ordered_key_rows_def empty_key_store_def expected_previous_def demo_key_store_def)
qed

lemma demo_ledger_opens:
  "RangerPublicationKeyAuthorityLedger demo_ed25519 isoformat_z demo_codec demo_configuration (hexlify (demo_key 3)) empty_key_store = Inr (demo_ledger, [])"
proof -
  have "starts_with ''ets-ranger-publication:'' ''ets-ranger-publication:demo''" by code_simp
  then have "key_ledger_config demo_configuration (hexlify (demo_key 3)) = Inr demo_ledger"
    by (simp add: key_ledger_config_def demo_configuration_def field_length_def first_some.simps fail_if_def raise_reason_def load_private_key_def demo_ledger_def)
  then show ?thesis
    by (simp add: RangerPublicationKeyAuthorityLedger_def open_key_ledger_def list_key_events_def stored_records_def ordered_key_rows_def empty_key_store_def)
qed

lemma demo_key_runs: "key_runs demo_ed25519 isoformat_z demo_codec initial_key_world demo_key_world"
proof -
  let ?p = "\<lparr> kp_ledger = demo_ledger, kp_events = [], kp_event = None \<rparr>"
  have list: "list_key_events demo_codec empty_key_store = Inr []"
    by (simp add: list_key_events_def stored_records_def ordered_key_rows_def empty_key_store_def)
  have opened: "key_runs demo_ed25519 isoformat_z demo_codec initial_key_world (initial_key_world \<lparr> kw_processes := [?p] \<rparr>)"
    using key_runs.opens [OF key_runs.start, of demo_ed25519 isoformat_z demo_codec demo_configuration "hexlify (demo_key 3)" initial_key_world demo_ledger "[]"]
      demo_ledger_opens by (simp add: initial_key_world_def)
  have prepared: "key_runs demo_ed25519 isoformat_z demo_codec initial_key_world (initial_key_world \<lparr> kw_processes := [?p \<lparr> kp_event := Some demo_event \<rparr>] \<rparr>)"
    using key_runs.prepares [OF opened, of 0 ?p demo_binding demo_event] list demo_prepared by (simp add: initial_key_world_def)
  show ?thesis
    using key_runs.appends [OF prepared, of 0 "?p \<lparr> kp_event := Some demo_event \<rparr>" demo_event "Inr ()" demo_key_store] demo_store_append
    by (simp add: initial_key_world_def demo_key_world_def)
qed

theorem key_history_always_verifies_witness:
  "list_key_events demo_codec (kw_store demo_key_world) = Inr [demo_event] \<and>
    hv_valid (verify_history demo_ed25519 isoformat_z [demo_event] (authority_public_key_hex demo_ed25519 demo_ledger))"
  using key_history_always_verifies [OF demo_keys_ok demo_key_runs key_runs.start]
  by (simp add: demo_key_world_def codec_ok_def demo_codec_def)

lemma demo_history_valid: "hv_valid (verify_history demo_ed25519 isoformat_z [demo_event] (authority_public_key_hex demo_ed25519 demo_ledger))"
  using prepared_extends [OF demo_keys_ok demo_ledger_ok history_good_Nil demo_prepared] history_good_iff [OF demo_keys_ok demo_ledger_ok] by simp

lemma demo_event_request: "ke_request demo_event = demo_binding" "ke_sequence demo_event = 1"
  by (simp_all add: demo_event_def new_key_event_fields)

lemma demo_introduced: "introduced_keys [demo_event] = [demo_descriptor]"
  by (simp add: introduced_keys_def map_filter_def demo_event_request new_descriptor_def demo_binding_def demo_intent_def)

theorem verified_history_is_lifecycle_witness:
  "role_run Unenrolled (role_intents Publisher_Role [demo_event]) \<noteq> None \<and> introduced_keys [demo_event] = [demo_descriptor] \<and>
    possession_proved demo_ed25519 isoformat_z [demo_event] demo_descriptor"
proof -
  have "key_bytes (authority_public_key_hex demo_ed25519 demo_ledger) = Some (demo_key 3)" by (simp add: authority_public_key_hex_def demo_ledger_def)
  from verified_history_is_lifecycle [OF demo_history_valid this] demo_introduced show ?thesis by auto
qed

theorem history_head_binds_events_witness:
  "map (event_content isoformat_z) [demo_event] = map (event_content isoformat_z) [demo_event] \<or>
    collides (payload_inputs (key_event_payload isoformat_z) [demo_event]) (payload_inputs (key_event_payload isoformat_z) [demo_event])"
  by (rule history_head_binds_events [OF demo_history_valid demo_history_valid refl])

end
