(* ===== verification/Ets_Ranger_Archive.thy ===== *)
theory Ets_Ranger_Archive
  imports Ets_Ranger_Publication "HOL-Library.Sublist"
begin

text \<open>
  The publication archive (\<^verbatim>\<open>ets/ranger/publication_archive.py\<close>): a custodian retains the receipts of a publisher in SQLite, only ever
  extending the chain, and signs audits of what a retrieval finds against an expected head.

  The database is the content of its two tables and whether \<^verbatim>\<open>PRAGMA integrity_check\<close> passes; a transaction that raises is rolled
  back. An archive is the database with the receipts it holds in memory; other processes may open archives on the same database.
\<close>

section \<open>Audits\<close>

datatype audit_result = Audit_Match | Head_Mismatch | Archive_Empty

fun audit_result_text :: "audit_result \<Rightarrow> string" where
  "audit_result_text Audit_Match = ''match''"
| "audit_result_text Head_Mismatch = ''head_mismatch''"
| "audit_result_text Archive_Empty = ''archive_empty''"

record retrieval_audit =
  au_audit_id :: string
  au_expected_head :: string
  au_observed_head :: "string option"
  au_receipt_count :: int
  au_result :: audit_result
  au_observed_at :: utc
  au_custodian_id :: string
  au_custodian_key_id :: string
  au_custodian_fingerprint :: string
  au_digest :: string
  au_signature :: string
  au_chain_verified :: bool
  au_fresh :: bool

definition audit_ok :: "retrieval_audit \<Rightarrow> bool" where
  "audit_ok a \<longleftrightarrow> field_length 1 256 (au_audit_id a) \<and> sha256_text (au_expected_head a) \<and> opt_ok sha256_text (au_observed_head a) \<and>
     0 \<le> au_receipt_count a \<and> au_receipt_count a \<le> 2 ^ 63 - 1 \<and> field_length 1 160 (au_custodian_id a) \<and> field_length 1 256 (au_custodian_key_id a) \<and>
     sha256_text (au_custodian_fingerprint a) \<and> sha256_text (au_digest a) \<and> signature_text (au_signature a)"

definition RangerPublicationRetrievalAudit :: "retrieval_audit \<Rightarrow> retrieval_audit result" where
  "RangerPublicationRetrievalAudit a = (if audit_ok a then Inr a else Inl (ValidationError ''RangerPublicationRetrievalAudit''))"

text \<open>The freshness that is signed is recomputed from the result.\<close>

definition audit_payload :: "retrieval_audit \<Rightarrow> json" where
  "audit_payload a = JObj
     [(''schema_version'', JStr ''ets.ranger.publication-retrieval-audit.v1''), (''audit_id'', JStr (au_audit_id a)),
      (''expected_publication_head_digest_sha256'', JStr (au_expected_head a)), (''observed_publication_head_digest_sha256'', JOpt (au_observed_head a)),
      (''archived_receipt_count'', JInt (au_receipt_count a)), (''result'', JStr (audit_result_text (au_result a))),
      (''observed_at_utc'', JStr (isoformat_z (au_observed_at a))), (''custodian_id'', JStr (au_custodian_id a)),
      (''custodian_signing_key_id'', JStr (au_custodian_key_id a)), (''custodian_public_key_fingerprint_sha256'', JStr (au_custodian_fingerprint a)),
      (''signing_algorithm'', JStr ''ed25519''), (''archive_chain_integrity_verified'', JBool (au_chain_verified a)),
      (''freshness_relative_to_expected_head'', JBool (au_result a = Audit_Match)), (''logical_append_only_storage_enforced'', JBool True),
      (''separate_custodian_key_proven'', JBool True), (''physical_worm_storage_proven'', JBool False),
      (''organizational_independence_proven'', JBool False), (''hardware_rollback_resistance_proven'', JBool False),
      (''continued_availability_proven'', JBool False), (''semantic_truth_proven'', JBool False), (''physical_outcome_proven'', JBool False),
      (''claim_boundary'', JStr ''expected_head_relative_archive_audit_no_worm_independence_or_truth_claim'')]"

record audit_verification =
  av_valid :: bool
  av_result :: "audit_result option"
  av_chain_verified :: bool
  av_matches_expected_head :: bool
  av_fresh :: bool
  av_separate_custodian :: bool
  av_reason :: string

definition audit_failure :: "string \<Rightarrow> audit_verification" where
  "audit_failure reason = \<lparr> av_valid = False, av_result = None, av_chain_verified = False, av_matches_expected_head = False, av_fresh = False,
     av_separate_custodian = False, av_reason = reason \<rparr>"

definition audit_error :: "ed25519 \<Rightarrow> string \<Rightarrow> byte list \<Rightarrow> string \<Rightarrow> string \<Rightarrow> string \<Rightarrow> retrieval_audit \<Rightarrow> string option" where
  "audit_error ed public_key_hex key custodian_id custodian_key_id expected_head a = first_some
     [fail_if (\<not> audit_ok a) ''retrieval audit schema validation failed'',
      fail_if (au_custodian_id a \<noteq> custodian_id \<or> au_custodian_key_id a \<noteq> custodian_key_id \<or> au_custodian_fingerprint a \<noteq> key_fingerprint key)
        ''retrieval audit custodian identity or key mismatch'',
      fail_if (au_expected_head a \<noteq> expected_head) ''retrieval audit expected publication head mismatch'',
      fail_if (canon_sha256 (audit_payload a) \<noteq> au_digest a) ''retrieval audit digest mismatch'',
      fail_if (\<not> signature_accepted ed public_key_hex (au_signature a) (audit_payload a)) ''retrieval audit signature is invalid'',
      fail_if ((au_result a = Audit_Match) \<noteq> (au_chain_verified a \<and> au_observed_head a = Some (au_expected_head a) \<and> au_fresh a))
        ''retrieval audit result flags are inconsistent'']"

definition verify_publication_retrieval_audit ::
  "ed25519 \<Rightarrow> string \<Rightarrow> string \<Rightarrow> string \<Rightarrow> string \<Rightarrow> retrieval_audit \<Rightarrow> audit_verification" where
  "verify_publication_retrieval_audit ed public_key_hex custodian_id custodian_key_id expected_head a =
     (case key_bytes public_key_hex of
        None \<Rightarrow> audit_failure ''custodian public key is not 32-byte Ed25519''
      | Some key \<Rightarrow>
          (case audit_error ed public_key_hex key custodian_id custodian_key_id expected_head a of
             Some reason \<Rightarrow> audit_failure reason
           | None \<Rightarrow> (let matched = au_result a = Audit_Match in
               \<lparr> av_valid = True, av_result = Some (au_result a), av_chain_verified = au_chain_verified a, av_matches_expected_head = matched,
                 av_fresh = au_fresh a, av_separate_custodian = True,
                 av_reason = (if matched then ''the configured custodian signed an integrity-checked retrieval matching the expected publication head''
                   else ''the configured custodian signed a bounded retrieval failure observation'') \<rparr>)))"

section \<open>The database\<close>

record receipt_row =
  rr_sequence :: int
  rr_digest :: string
  rr_previous :: string
  rr_publication_id :: string
  rr_json :: string

record audit_row =
  ar_audit_id :: string
  ar_digest :: string
  ar_expected_head :: string
  ar_result :: string
  ar_json :: string

record publication_store =
  ps_receipts :: "receipt_row list"
  ps_audits :: "audit_row list"
  ps_integrity_ok :: bool

definition empty_publication_store :: publication_store where
  "empty_publication_store = \<lparr> ps_receipts = [], ps_audits = [], ps_integrity_ok = True \<rparr>"

definition archive_conflict :: "string \<Rightarrow> exn" where
  "archive_conflict m = RangerPublicationArchiveConflict m"

definition archive_corrupt :: "string \<Rightarrow> exn" where
  "archive_corrupt m = RangerPublicationArchiveIntegrityError m"

definition receipt_row_of :: "publication_receipt json_codec \<Rightarrow> publication_receipt \<Rightarrow> receipt_row" where
  "receipt_row_of c r = \<lparr> rr_sequence = xr_sequence r, rr_digest = xr_digest r, rr_previous = xr_previous r,
     rr_publication_id = xr_publication_id r, rr_json = jc_dump c r \<rparr>"

definition ordered_receipts :: "publication_store \<Rightarrow> receipt_row list" where
  "ordered_receipts s = sort_key rr_sequence (ps_receipts s)"

definition append_receipt :: "publication_receipt json_codec \<Rightarrow> publication_receipt \<Rightarrow> (publication_store, unit) action" where
  "append_receipt c r =
     abind (alift (RangerExternalPublicationReceipt r)) (\<lambda>receipt.
     abind (aread (\<lambda>s. rcheck (xr_sequence receipt = (if ordered_receipts s = [] then 1 else rr_sequence (last (ordered_receipts s)) + 1))
       (archive_conflict (''archive publication sequence must be '' @
          show_int (if ordered_receipts s = [] then 1 else rr_sequence (last (ordered_receipts s)) + 1))))) (\<lambda>_.
     abind (aread (\<lambda>s. rcheck (xr_previous receipt = expected_previous rr_digest (ordered_receipts s))
       (archive_conflict ''publication receipt does not extend the archived head''))) (\<lambda>_.
     abind (aread (\<lambda>s. rcheck (xr_sequence receipt \<notin> rr_sequence ` set (ps_receipts s) \<and> xr_digest receipt \<notin> rr_digest ` set (ps_receipts s) \<and>
         xr_publication_id receipt \<notin> rr_publication_id ` set (ps_receipts s))
       (archive_conflict ''duplicate publication identity or digest''))) (\<lambda>_.
     awrite (\<lambda>s. s \<lparr> ps_receipts := ps_receipts s @ [receipt_row_of c receipt] \<rparr>)))))"

definition require_integrity :: "publication_store \<Rightarrow> unit result" where
  "require_integrity s = rcheck (ps_integrity_ok s) (archive_corrupt ''SQLite integrity_check failed'')"

definition receipt_row_matches :: "receipt_row \<Rightarrow> publication_receipt \<Rightarrow> bool" where
  "receipt_row_matches row r \<longleftrightarrow> rr_sequence row = xr_sequence r \<and> rr_digest row = xr_digest r \<and> rr_previous row = xr_previous r \<and>
     rr_publication_id row = xr_publication_id r"

definition list_receipts :: "publication_receipt json_codec \<Rightarrow> publication_store \<Rightarrow> publication_receipt list result" where
  "list_receipts c s =
     rbind (require_integrity s) (\<lambda>_.
     stored_records c (archive_corrupt ''stored external publication receipt is invalid'')
       (archive_corrupt ''stored publication index metadata does not match signed receipt'') rr_json receipt_row_matches (ordered_receipts s))"

definition audit_row_of :: "retrieval_audit json_codec \<Rightarrow> retrieval_audit \<Rightarrow> audit_row" where
  "audit_row_of c a = \<lparr> ar_audit_id = au_audit_id a, ar_digest = au_digest a, ar_expected_head = au_expected_head a,
     ar_result = audit_result_text (au_result a), ar_json = jc_dump c a \<rparr>"

definition append_audit :: "retrieval_audit json_codec \<Rightarrow> retrieval_audit \<Rightarrow> (publication_store, unit) action" where
  "append_audit c a =
     abind (alift (RangerPublicationRetrievalAudit a)) (\<lambda>audit.
     abind (aread (\<lambda>s. rcheck (au_audit_id audit \<notin> ar_audit_id ` set (ps_audits s) \<and> au_digest audit \<notin> ar_digest ` set (ps_audits s))
       (archive_conflict ''duplicate retrieval audit identity or digest''))) (\<lambda>_.
     awrite (\<lambda>s. s \<lparr> ps_audits := ps_audits s @ [audit_row_of c audit] \<rparr>)))"

definition audit_row_matches :: "audit_row \<Rightarrow> retrieval_audit \<Rightarrow> bool" where
  "audit_row_matches row a \<longleftrightarrow> ar_audit_id row = au_audit_id a \<and> ar_digest row = au_digest a \<and> ar_expected_head row = au_expected_head a \<and>
     ar_result row = audit_result_text (au_result a)"

definition list_audits :: "retrieval_audit json_codec \<Rightarrow> publication_store \<Rightarrow> retrieval_audit list result" where
  "list_audits c s =
     rbind (require_integrity s) (\<lambda>_.
     stored_records c (archive_corrupt ''stored publication retrieval audit is invalid'')
       (archive_corrupt ''stored retrieval-audit index metadata does not match signed audit'') ar_json audit_row_matches (ps_audits s))"

section \<open>The archive\<close>

record archive_codecs =
  xc_receipt :: "publication_receipt json_codec"
  xc_audit :: "retrieval_audit json_codec"

record archive =
  ra_expectation :: publication_expectation
  ra_custodian_id :: string
  ra_custodian_key_id :: string
  ra_private_key :: "byte list"

record archive_state =
  at_store :: publication_store
  at_receipts :: "publication_receipt list"

definition custodian_public_key_hex :: "ed25519 \<Rightarrow> archive \<Rightarrow> string" where
  "custodian_public_key_hex ed self = hexlify (ed_public ed (ra_private_key self))"

definition archive_verify :: "ed25519 \<Rightarrow> archive \<Rightarrow> publication_receipt list \<Rightarrow> string \<Rightarrow> chain_verification" where
  "archive_verify ed self receipts head = verify_external_publication_chain ed (ra_expectation self) head receipts"

definition archive_error :: "string \<Rightarrow> exn" where
  "archive_error m = RangerPublicationArchiveError m"

definition name_lengths_error :: "(string \<times> string \<times> nat) list \<Rightarrow> string option" where
  "name_lengths_error names = first_some (map (\<lambda>(name, value, maximum). fail_if (\<not> field_length 1 maximum value)
     (name @ '' must contain 1-'' @ show_nat maximum @ '' characters'')) names)"

definition raise_some :: "(string \<Rightarrow> exn) \<Rightarrow> string option \<Rightarrow> unit result" where
  "raise_some e r = (case r of None \<Rightarrow> Inr () | Some m \<Rightarrow> Inl (e m))"

text \<open>What \<^verbatim>\<open>__init__\<close> checks of its arguments.\<close>

definition archive_config :: "ed25519 \<Rightarrow> publication_expectation \<Rightarrow> string \<Rightarrow> string \<Rightarrow> string \<Rightarrow> string \<Rightarrow> archive result" where
  "archive_config ed x registry_public_key_hex custodian_id custodian_key_id custodian_private_key_hex =
     rbind (load_private_key (archive_error ''custodian private key must be a 32-byte Ed25519 key'') custodian_private_key_hex) (\<lambda>private_key.
     rbind (rget (archive_error ''publisher public key must be a 32-byte Ed25519 key'') (key_bytes (px_public_key_hex x))) (\<lambda>publisher_key.
     rbind (rget (archive_error ''registry public key must be a 32-byte Ed25519 key'') (key_bytes registry_public_key_hex)) (\<lambda>registry_key.
     rbind (rcheck (publisher_key \<noteq> registry_key) (archive_error ''publisher and registry public keys must be distinct'')) (\<lambda>_.
     rbind (raise_some archive_error (name_lengths_error
       [(''expected_publisher_id'', px_publisher_id x, 160), (''expected_publisher_signing_key_id'', px_publisher_key_id x, 256),
        (''expected_registry_id'', px_registry_id x, 160), (''expected_registry_signing_key_id'', px_registry_key_id x, 256),
        (''custodian_id'', custodian_id, 160), (''custodian_signing_key_id'', custodian_key_id, 256)])) (\<lambda>_.
     rbind (rcheck (custodian_id \<notin> {px_publisher_id x, px_registry_id x} \<and> custodian_key_id \<notin> {px_publisher_key_id x, px_registry_key_id x} \<and>
         ed_public ed private_key \<notin> {publisher_key, registry_key})
       (archive_error ''custodian identity and key must be distinct from publisher and registry'')) (\<lambda>_.
     Inr \<lparr> ra_expectation = x, ra_custodian_id = custodian_id, ra_custodian_key_id = custodian_key_id, ra_private_key = private_key \<rparr>))))))"

text \<open>What it checks of the database, and the receipts it keeps.\<close>

definition open_archive :: "ed25519 \<Rightarrow> archive_codecs \<Rightarrow> archive \<Rightarrow> string option \<Rightarrow> publication_store \<Rightarrow> archive_state result" where
  "open_archive ed c self expected_retained_head store =
     rbind (list_receipts (xc_receipt c) store) (\<lambda>retained.
     rbind (rcheck (retained = [] \<or> cv_valid (archive_verify ed self retained (xr_digest (last retained))))
       (archive_corrupt (''retained publication archive is invalid: '' @ cv_reason (archive_verify ed self retained (xr_digest (last retained)))))) (\<lambda>_.
     rbind (rcheck (expected_retained_head = None \<or> latest_publication_digest retained = expected_retained_head)
       (archive_corrupt ''archive does not match the expected retained publication head'')) (\<lambda>_.
     Inr \<lparr> at_store = store, at_receipts = retained \<rparr>)))"

definition RangerPublicationArchive ::
  "ed25519 \<Rightarrow> archive_codecs \<Rightarrow> publication_expectation \<Rightarrow> string \<Rightarrow> string \<Rightarrow> string \<Rightarrow> string \<Rightarrow> string option \<Rightarrow> publication_store \<Rightarrow>
   (archive \<times> archive_state) result" where
  "RangerPublicationArchive ed c x registry_public_key_hex custodian_id custodian_key_id custodian_private_key_hex expected_retained_head store =
     rbind (archive_config ed x registry_public_key_hex custodian_id custodian_key_id custodian_private_key_hex) (\<lambda>self.
     rbind (open_archive ed c self expected_retained_head store) (\<lambda>st. Inr (self, st)))"

definition on_archive_store :: "(publication_store, 'a) action \<Rightarrow> (archive_state, 'a) action" where
  "on_archive_store m s = (case m (at_store s) of (r, store) \<Rightarrow> (r, s \<lparr> at_store := store \<rparr>))"

fun retain_suffix :: "archive_codecs \<Rightarrow> nat \<Rightarrow> publication_receipt list \<Rightarrow> (archive_state, nat) action" where
  "retain_suffix c appended [] = alift (Inr appended)"
| "retain_suffix c appended (r # rs) =
     abind (on_archive_store (append_receipt (xc_receipt c) r)) (\<lambda>_.
     abind (awrite (\<lambda>s. s \<lparr> at_receipts := at_receipts s @ [r] \<rparr>)) (\<lambda>_.
     retain_suffix c (appended + 1) rs))"

text \<open>The guards of \<^verbatim>\<open>retain\<close>, over the receipts in memory; what follows is one transaction per new receipt.\<close>

definition retain_checks :: "ed25519 \<Rightarrow> archive \<Rightarrow> publication_receipt list \<Rightarrow> publication_receipt list \<Rightarrow> unit result" where
  "retain_checks ed self presented memory =
     rbind (rcheck (presented \<noteq> []) (archive_error ''publication chain is empty'')) (\<lambda>_.
     rbind (rcheck (cv_valid (archive_verify ed self presented (xr_digest (last presented))))
       (archive_error (''external publication chain is invalid: '' @ cv_reason (archive_verify ed self presented (xr_digest (last presented)))))) (\<lambda>_.
     rbind (rcheck (length memory \<le> length presented) (archive_conflict ''presented publication chain is stale'')) (\<lambda>_.
     rcheck (list_all (\<lambda>(r, q). xr_digest r = xr_digest q) (zip memory presented)) (archive_conflict ''presented publication chain forks archive''))))"

definition retain :: "ed25519 \<Rightarrow> archive_codecs \<Rightarrow> archive \<Rightarrow> publication_receipt list \<Rightarrow> (archive_state, nat) action" where
  "retain ed c self presented =
     abind (aread (\<lambda>s. retain_checks ed self presented (at_receipts s))) (\<lambda>_ s.
     retain_suffix c 0 (drop (length (at_receipts s)) presented) s)"

text \<open>The audit \<^verbatim>\<open>audit_retrieval\<close> builds from the receipts it read.\<close>

definition new_audit :: "ed25519 \<Rightarrow> archive \<Rightarrow> string \<Rightarrow> string \<Rightarrow> utc \<Rightarrow> publication_receipt list \<Rightarrow> retrieval_audit" where
  "new_audit ed self audit_id expected_head observed_at receipts =
     (let observed = latest_publication_digest receipts;
          result = (if receipts = [] then Archive_Empty else if observed = Some expected_head then Audit_Match else Head_Mismatch);
          a = \<lparr> au_audit_id = audit_id, au_expected_head = expected_head, au_observed_head = observed, au_receipt_count = int (length receipts),
            au_result = result, au_observed_at = observed_at, au_custodian_id = ra_custodian_id self, au_custodian_key_id = ra_custodian_key_id self,
            au_custodian_fingerprint = key_fingerprint (ed_public ed (ra_private_key self)), au_digest = [], au_signature = [],
            au_chain_verified = (receipts \<noteq> []), au_fresh = (result = Audit_Match) \<rparr>
      in a \<lparr> au_digest := canon_sha256 (audit_payload a), au_signature := sign_hex ed (ra_private_key self) (audit_payload a) \<rparr>)"

definition audit_retrieval ::
  "ed25519 \<Rightarrow> archive_codecs \<Rightarrow> archive \<Rightarrow> string \<Rightarrow> string \<Rightarrow> datetime \<Rightarrow> (archive_state, retrieval_audit) action" where
  "audit_retrieval ed c self audit_id expected_head observed_at_utc =
     abind (alift (utc_or_raise (archive_error ''audit observation time must be timezone-aware'') observed_at_utc)) (\<lambda>observed_at.
     abind (aread (\<lambda>s. list_receipts (xc_receipt c) (at_store s))) (\<lambda>receipts.
     abind (acheck (receipts = [] \<or> cv_valid (archive_verify ed self receipts (xr_digest (last receipts))))
       (archive_corrupt (''retrieved publication archive is invalid: '' @ cv_reason (archive_verify ed self receipts (xr_digest (last receipts)))))) (\<lambda>_.
     abind (alift (case RangerPublicationRetrievalAudit (new_audit ed self audit_id expected_head observed_at receipts) of
         Inl (ValidationError _) \<Rightarrow> Inl (archive_error ''invalid retrieval audit fields'')
       | r \<Rightarrow> r)) (\<lambda>audit.
     abind (on_archive_store (append_audit (xc_audit c) audit)) (\<lambda>_.
     alift (Inr audit))))))"

section \<open>Several processes on one database\<close>

text \<open>
  A process holds the receipts it read or appended, and, inside \<^verbatim>\<open>retain\<close>, those still to append. Between two transactions any
  other process may run. \<open>seen\<close> collects every receipt that was presented.
\<close>

record retainer =
  rp_memory :: "publication_receipt list"
  rp_pending :: "publication_receipt list"

record archive_world =
  aw_store :: publication_store
  aw_processes :: "retainer list"
  aw_seen :: "publication_receipt list"

definition initial_world :: archive_world where
  "initial_world = \<lparr> aw_store = empty_publication_store, aw_processes = [], aw_seen = [] \<rparr>"

inductive archive_runs :: "ed25519 \<Rightarrow> archive_codecs \<Rightarrow> archive \<Rightarrow> archive_world \<Rightarrow> archive_world \<Rightarrow> bool" for ed c self w0 where
  start: "archive_runs ed c self w0 w0"
| opens: "archive_runs ed c self w0 w \<Longrightarrow> open_archive ed c self head (aw_store w) = Inr st \<Longrightarrow>
    archive_runs ed c self w0 (w \<lparr> aw_processes := aw_processes w @ [\<lparr> rp_memory = at_receipts st, rp_pending = [] \<rparr>] \<rparr>)"
| retains: "archive_runs ed c self w0 w \<Longrightarrow> i < length (aw_processes w) \<Longrightarrow> rp_pending (aw_processes w ! i) = [] \<Longrightarrow>
    retain_checks ed self presented (rp_memory (aw_processes w ! i)) = Inr () \<Longrightarrow>
    archive_runs ed c self w0 (w \<lparr> aw_processes := (aw_processes w)[i := (aw_processes w ! i)
        \<lparr> rp_pending := drop (length (rp_memory (aw_processes w ! i))) presented \<rparr>], aw_seen := aw_seen w @ presented \<rparr>)"
| appends: "archive_runs ed c self w0 w \<Longrightarrow> i < length (aw_processes w) \<Longrightarrow> rp_pending (aw_processes w ! i) = r # rs \<Longrightarrow>
    append_receipt (xc_receipt c) r (aw_store w) = (res, store) \<Longrightarrow>
    archive_runs ed c self w0 (w \<lparr> aw_store := store, aw_processes := (aw_processes w)[i := (case res of
        Inr _ \<Rightarrow> \<lparr> rp_memory = rp_memory (aw_processes w ! i) @ [r], rp_pending = rs \<rparr>
      | Inl _ \<Rightarrow> \<lparr> rp_memory = rp_memory (aw_processes w ! i), rp_pending = [] \<rparr>)] \<rparr>)"
| audits: "archive_runs ed c self w0 w \<Longrightarrow> append_audit (xc_audit c) a (aw_store w) = (res, store) \<Longrightarrow>
    archive_runs ed c self w0 (w \<lparr> aw_store := store \<rparr>)"

text \<open>A whole \<^verbatim>\<open>retain\<close> of one process is one of the runs.\<close>

lemma retain_suffix_runs:
  assumes "archive_runs ed c self w0 w" "i < length (aw_processes w)" "aw_processes w ! i = \<lparr> rp_memory = mem, rp_pending = rs \<rparr>"
    "retain_suffix c n rs \<lparr> at_store = aw_store w, at_receipts = mem \<rparr> = (res, st)"
  shows "archive_runs ed c self w0 (w \<lparr> aw_store := at_store st, aw_processes := (aw_processes w)[i := \<lparr> rp_memory = at_receipts st, rp_pending = [] \<rparr>] \<rparr>)"
  using assms
proof (induction rs arbitrary: w mem n)
  case Nil
  then have "w \<lparr> aw_store := at_store st, aw_processes := (aw_processes w)[i := \<lparr> rp_memory = at_receipts st, rp_pending = [] \<rparr>] \<rparr> = w"
    by (auto simp: action_simps list_update_same_conv)
  with Nil.prems(1) show ?case by simp
next
  case (Cons r rs)
  obtain r' store where ap: "append_receipt (xc_receipt c) r (aw_store w) = (r', store)" by (cases "append_receipt (xc_receipt c) r (aw_store w)")
  note step = archive_runs.appends [OF Cons.prems(1,2) _ ap, where rs = rs]
  show ?case
  proof (cases r')
    case (Inl e)
    then have "st = \<lparr> at_store = store, at_receipts = mem \<rparr>" using Cons.prems(4) ap by (auto simp: action_simps on_archive_store_def abind_def)
    with step Inl Cons.prems(3) show ?thesis by simp
  next
    case (Inr u)
    let ?w = "w \<lparr> aw_store := store, aw_processes := (aw_processes w)[i := \<lparr> rp_memory = mem @ [r], rp_pending = rs \<rparr>] \<rparr>"
    have "retain_suffix c (n + 1) rs \<lparr> at_store = aw_store ?w, at_receipts = mem @ [r] \<rparr> = (res, st)"
      using Cons.prems(4) ap Inr by (simp add: action_simps on_archive_store_def abind_def)
    with Cons.IH [of ?w "mem @ [r]" "n + 1"] step Inr Cons.prems(2,3) show ?thesis by simp
  qed
qed

lemma retain_runs:
  assumes "archive_runs ed c self w0 w" "i < length (aw_processes w)" "aw_processes w ! i = \<lparr> rp_memory = mem, rp_pending = [] \<rparr>"
    "retain ed c self presented \<lparr> at_store = aw_store w, at_receipts = mem \<rparr> = (Inr k, st)"
  shows "archive_runs ed c self w0 (w \<lparr> aw_seen := aw_seen w @ presented, aw_store := at_store st,
    aw_processes := (aw_processes w)[i := \<lparr> rp_memory = at_receipts st, rp_pending = [] \<rparr>] \<rparr>)"
proof -
  have checks: "retain_checks ed self presented mem = Inr ()" and suffix: "retain_suffix c 0 (drop (length mem) presented) \<lparr> at_store = aw_store w, at_receipts = mem \<rparr> = (Inr k, st)"
    using assms(4) by (auto simp: retain_def abind_def aread_def split: sum.split_asm)
  note step = archive_runs.retains [OF assms(1,2), of presented]
  show ?thesis using retain_suffix_runs [OF step, of i mem "drop (length mem) presented" 0 "Inr k" st] checks suffix assms(2,3) by simp
qed

section \<open>One chain\<close>

definition chain_ok :: "ed25519 \<Rightarrow> publication_expectation \<Rightarrow> publication_receipt list \<Rightarrow> bool" where
  "chain_ok ed x rs \<longleftrightarrow> rs = [] \<or> cv_valid (verify_external_publication_chain ed x (xr_digest (last rs)) rs)"

lemma chain_ok_iff: "key_bytes (px_public_key_hex x) = Some key \<Longrightarrow> chain_ok ed x rs \<longleftrightarrow> first_failure (check_receipt ed x key) [] rs = None"
  by (auto simp: chain_ok_def verify_external_publication_chain_def publication_chain_failure_def Let_def split: option.split)

lemma chain_ok_key: "chain_ok ed x rs \<Longrightarrow> rs \<noteq> [] \<Longrightarrow> \<exists>key. key_bytes (px_public_key_hex x) = Some key"
  by (auto simp: chain_ok_def elim!: valid_chain_checked)

lemma chain_ok_linked: "chain_ok ed x rs \<Longrightarrow> linked receipt_ok xr_sequence xr_previous xr_digest publication_payload 1 zero_digest rs"
  by (cases "rs = []") (auto simp: chain_ok_def elim!: valid_chain_checked intro: checked_chain_linked)

lemma chain_ok_append: "chain_ok ed x (rs @ [r]) \<longleftrightarrow> chain_ok ed x rs \<and> (\<exists>key. key_bytes (px_public_key_hex x) = Some key \<and> check_receipt ed x key rs r = None)"
proof (cases "key_bytes (px_public_key_hex x)")
  case None
  then have "\<not> chain_ok ed x (rs @ [r])" using chain_ok_key [of ed x "rs @ [r]"] by auto
  with None show ?thesis by simp
next
  case (Some key)
  then show ?thesis by (simp add: chain_ok_iff first_failure_append split: option.split)
qed

lemma receipt_contents_determine:
  assumes "map receipt_content rs = map receipt_content qs" "map xr_digest rs = map xr_digest qs"
  shows "check_receipt ed x key rs r = check_receipt ed x key qs r"
proof -
  have len: "length rs = length qs" using assms(2) by (metis length_map)
  have fields: "xr_publication_id a = xr_publication_id b \<and> receipt_binding a = receipt_binding b \<and> xr_published_at a = xr_published_at b"
    if "receipt_content a = receipt_content b" for a b using that by (simp add: receipt_content_def receipt_binding_def)
  have nth: "receipt_content (rs ! i) = receipt_content (qs ! i)" "xr_digest (rs ! i) = xr_digest (qs ! i)" if "i < length rs" for i
    using arg_cong [OF assms(1), of "\<lambda>xs. xs ! i"] arg_cong [OF assms(2), of "\<lambda>xs. xs ! i"] that len by simp_all
  have "map xr_publication_id rs = map xr_publication_id qs" "map receipt_binding rs = map receipt_binding qs"
    using len fields [OF nth(1)] by (simp_all add: list_eq_iff_nth_eq)
  then have sets: "xr_publication_id ` set rs = xr_publication_id ` set qs" "receipt_binding ` set rs = receipt_binding ` set qs"
    by (metis set_map)+
  show ?thesis
  proof (cases "rs = []")
    case True
    then show ?thesis using len by simp
  next
    case False
    then have ne: "length rs - 1 < length rs" "qs \<noteq> []" using len by (cases rs; cases qs; simp)+
    then have "xr_published_at (last rs) = xr_published_at (last qs)" "xr_digest (last rs) = xr_digest (last qs)"
      using nth(2) [OF ne(1)] fields [OF nth(1) [OF ne(1)]] False len by (simp_all add: last_conv_nth)
    then show ?thesis using len sets False ne(2) by (simp add: check_receipt_def expected_previous_def)
  qed
qed

definition collision_in :: "publication_receipt list \<Rightarrow> bool" where
  "collision_in seen \<longleftrightarrow> collides (payload_inputs publication_payload seen) (payload_inputs publication_payload seen)"

lemma collision_in_mono: "collides (payload_inputs publication_payload rs) (payload_inputs publication_payload qs) \<Longrightarrow>
    set rs \<subseteq> set seen \<Longrightarrow> set qs \<subseteq> set seen \<Longrightarrow> collision_in seen"
  unfolding collision_in_def by (erule collides_mono) (auto simp: payload_inputs_def)

text \<open>Two sound chains of equal digests agree, so what extends one extends the other.\<close>

lemma same_digests_same_checks:
  assumes "chain_ok ed x rs" "chain_ok ed x qs" "map xr_digest rs = map xr_digest qs" "set rs \<subseteq> set seen" "set qs \<subseteq> set seen" "\<not> collision_in seen"
  shows "chain_ok ed x (rs @ [r]) \<longleftrightarrow> chain_ok ed x (qs @ [r])"
proof (cases "rs = []")
  case True
  then show ?thesis using assms(3) by simp
next
  case False
  then have ne: "qs \<noteq> []" using assms(3) by auto
  then have "xr_digest (last rs) = xr_digest (last qs)" using last_map [OF False, of xr_digest] last_map [OF ne, of xr_digest] assms(3) by simp
  with publication.chain_binding [OF chain_ok_linked [OF assms(1)] chain_ok_linked [OF assms(2)] False ne] assms(4-6) collision_in_mono
  have "map receipt_content rs = map receipt_content qs" by blast
  then show ?thesis using receipt_contents_determine [OF _ assms(3)] assms(1,2) by (simp add: chain_ok_append)
qed

definition retainer_ok :: "ed25519 \<Rightarrow> publication_expectation \<Rightarrow> publication_receipt list \<Rightarrow> publication_receipt list \<Rightarrow> retainer \<Rightarrow> bool" where
  "retainer_ok ed x seen rs p \<longleftrightarrow> prefix (rp_memory p) rs \<and>
     (rp_pending p = [] \<or> (\<exists>pre. map xr_digest pre = map xr_digest (rp_memory p) \<and> chain_ok ed x (pre @ rp_pending p) \<and> set (pre @ rp_pending p) \<subseteq> set seen))"

definition world_inv :: "ed25519 \<Rightarrow> archive_codecs \<Rightarrow> archive \<Rightarrow> archive_world \<Rightarrow> publication_receipt list \<Rightarrow> bool" where
  "world_inv ed c self w rs \<longleftrightarrow> ps_receipts (aw_store w) = map (receipt_row_of (xc_receipt c)) rs \<and> ps_integrity_ok (aw_store w) \<and>
     chain_ok ed (ra_expectation self) rs \<and> set rs \<subseteq> set (aw_seen w) \<and>
     list_all (retainer_ok ed (ra_expectation self) (aw_seen w) rs) (aw_processes w)"

lemma chain_ok_member: "chain_ok ed x rs \<Longrightarrow> i < length rs \<Longrightarrow> receipt_ok (rs ! i) \<and> xr_sequence (rs ! i) = int i + 1"
  using chain_ok_linked by (auto simp: linked_iff)

lemma chain_ok_prefix: "chain_ok ed x (rs @ qs) \<Longrightarrow> chain_ok ed x rs"
  by (induction qs rule: rev_induct) (simp_all add: chain_ok_append append_assoc [symmetric] del: append_assoc)

lemma list_receipts_rows:
  assumes "ps_receipts s = map (receipt_row_of c) rs" "ps_integrity_ok s" "chain_ok ed x rs" "codec_ok c rs"
  shows "ordered_receipts s = ps_receipts s" "list_receipts c s = Inr rs"
proof -
  have "\<forall>i < length (ps_receipts s). rr_sequence (ps_receipts s ! i) = int i + 1"
    using chain_ok_member [OF assms(3)] by (simp add: assms(1) receipt_row_of_def)
  then show ordered: "ordered_receipts s = ps_receipts s" unfolding ordered_receipts_def by (rule sort_key_increasing)
  show "list_receipts c s = Inr rs"
    unfolding list_receipts_def ordered assms(1) using assms(2,4)
    by (simp add: require_integrity_def, intro stored_records_of) (auto simp: receipt_row_of_def receipt_row_matches_def)
qed

lemma append_receipt_effect:
  assumes "ps_receipts s = map (receipt_row_of c) rs" "chain_ok ed x rs"
  shows "atomically s (\<lambda>_ s'. s' = s \<lparr> ps_receipts := map (receipt_row_of c) (rs @ [r]) \<rparr> \<and> xr_sequence r = int (length rs) + 1 \<and>
      xr_previous r = expected_previous xr_digest rs \<and> xr_publication_id r \<notin> xr_publication_id ` set rs) (append_receipt c r s)"
proof -
  have "\<forall>i < length (ps_receipts s). rr_sequence (ps_receipts s ! i) = int i + 1"
    using chain_ok_member [OF assms(2)] by (simp add: assms(1) receipt_row_of_def)
  then have ordered: "ordered_receipts s = map (receipt_row_of c) rs" unfolding ordered_receipts_def assms(1) [symmetric] by (rule sort_key_increasing)
  have next_number: "rs \<noteq> [] \<Longrightarrow> rr_sequence (last (map (receipt_row_of c) rs)) = int (length rs)"
    using chain_ok_member [OF assms(2), of "length rs - 1"] by (cases rs rule: rev_cases) (simp_all add: receipt_row_of_def last_conv_nth)
  have previous: "expected_previous rr_digest (map (receipt_row_of c) rs) = expected_previous xr_digest rs"
    by (cases rs rule: rev_cases) (simp_all add: expected_previous_def receipt_row_of_def)
  have ids: "rr_publication_id ` receipt_row_of c ` set rs = xr_publication_id ` set rs" by (simp add: image_image receipt_row_of_def)
  show ?thesis
    unfolding append_receipt_def
    by (intro atomically_reads)
      (auto simp: atomically_def awrite_def ordered next_number previous ids assms(1) RangerExternalPublicationReceipt_def rcheck_eq_Inr split: if_split_asm)
qed

lemma retainer_ok_mono: "retainer_ok ed x seen rs p \<Longrightarrow> set seen \<subseteq> set seen' \<Longrightarrow> retainer_ok ed x seen' (rs @ qs) p"
  unfolding retainer_ok_def by (meson prefix_order.trans prefixI subset_trans)

lemma retainers_mono:
  "list_all (retainer_ok ed x seen rs) ps \<Longrightarrow> set seen \<subseteq> set seen' \<Longrightarrow> list_all (retainer_ok ed x seen' (rs @ qs)) ps"
  by (auto simp: list_all_iff intro: retainer_ok_mono)

lemma list_all_update: "list_all P xs \<Longrightarrow> P y \<Longrightarrow> list_all P (xs[i := y])"
  using set_update_subset_insert [of xs i y] by (auto simp: list_all_iff)

lemma inv_retains:
  assumes inv: "world_inv ed c self w rs" and i: "i < length (aw_processes w)"
    and checks: "retain_checks ed self presented (rp_memory (aw_processes w ! i)) = Inr ()"
  shows "world_inv ed c self (w \<lparr> aw_processes := (aw_processes w)[i := (aw_processes w ! i)
      \<lparr> rp_pending := drop (length (rp_memory (aw_processes w ! i))) presented \<rparr>], aw_seen := aw_seen w @ presented \<rparr>) rs"
proof -
  let ?p = "aw_processes w ! i" let ?mem = "rp_memory ?p"
  from checks have c: "presented \<noteq> []" "cv_valid (archive_verify ed self presented (xr_digest (last presented)))" "length ?mem \<le> length presented"
    "list_all (\<lambda>(r, q). xr_digest r = xr_digest q) (zip ?mem presented)"
    by (simp_all add: retain_checks_def rcheck_eq_Inr rbind_eq_Inr)
  have digests: "map xr_digest (take (length ?mem) presented) = map xr_digest ?mem"
    using c(3,4) by (intro nth_equalityI) (auto simp: list_all_length)
  have "chain_ok ed (ra_expectation self) (take (length ?mem) presented @ drop (length ?mem) presented)"
    using c(1,2) by (simp add: chain_ok_def archive_verify_def)
  moreover have ok: "retainer_ok ed (ra_expectation self) (aw_seen w @ presented) rs ?p"
    using inv i retainer_ok_mono [of ed "ra_expectation self" "aw_seen w" rs ?p "aw_seen w @ presented" "[]"] by (auto simp: world_inv_def list_all_length)
  ultimately have "retainer_ok ed (ra_expectation self) (aw_seen w @ presented) rs (?p \<lparr> rp_pending := drop (length ?mem) presented \<rparr>)"
    using digests by (simp add: retainer_ok_def)
      (intro disjI2 exI [of _ "take (length ?mem) presented"], auto dest: in_set_takeD in_set_dropD)
  moreover have "list_all (retainer_ok ed (ra_expectation self) (aw_seen w @ presented) rs) (aw_processes w)"
    using inv retainers_mono [of ed "ra_expectation self" "aw_seen w" rs "aw_processes w" "aw_seen w @ presented" "[]"] by (auto simp: world_inv_def)
  ultimately show ?thesis using inv by (auto simp: world_inv_def intro!: list_all_update)
qed

lemma inv_appends:
  assumes inv: "world_inv ed c self w rs" and i: "i < length (aw_processes w)" and pending: "rp_pending (aw_processes w ! i) = r # rest"
    and ap: "append_receipt (xc_receipt c) r (aw_store w) = (res, store)" and no: "\<not> collision_in (aw_seen w)"
  shows "\<exists>rs'. world_inv ed c self (w \<lparr> aw_store := store, aw_processes := (aw_processes w)[i := (case res of
        Inr _ \<Rightarrow> \<lparr> rp_memory = rp_memory (aw_processes w ! i) @ [r], rp_pending = rest \<rparr>
      | Inl _ \<Rightarrow> \<lparr> rp_memory = rp_memory (aw_processes w ! i), rp_pending = [] \<rparr>)] \<rparr>) rs'"
proof -
  let ?x = "ra_expectation self" let ?p = "aw_processes w ! i" let ?mem = "rp_memory ?p"
  have rows: "ps_receipts (aw_store w) = map (receipt_row_of (xc_receipt c)) rs" "ps_integrity_ok (aw_store w)" and chain: "chain_ok ed ?x rs"
    and seen: "set rs \<subseteq> set (aw_seen w)" and all: "list_all (retainer_ok ed ?x (aw_seen w) rs) (aw_processes w)"
    using inv by (simp_all add: world_inv_def)
  have p: "retainer_ok ed ?x (aw_seen w) rs ?p" using all i by (simp add: list_all_length)
  then obtain pre where pre: "prefix ?mem rs" "map xr_digest pre = map xr_digest ?mem" "chain_ok ed ?x (pre @ r # rest)" "set (pre @ r # rest) \<subseteq> set (aw_seen w)"
    using pending by (auto simp: retainer_ok_def)
  from append_receipt_effect [OF rows(1) chain, of r] ap consider
      (raises) e where "res = Inl e" "store = aw_store w"
    | (appends) "res = Inr ()" "store = aw_store w \<lparr> ps_receipts := map (receipt_row_of (xc_receipt c)) (rs @ [r]) \<rparr>" "xr_sequence r = int (length rs) + 1"
    by (cases res) (auto simp: atomically_def)
  then show ?thesis
  proof cases
    case raises
    have "retainer_ok ed ?x (aw_seen w) rs \<lparr> rp_memory = ?mem, rp_pending = [] \<rparr>" using pre(1) by (simp add: retainer_ok_def)
    with raises inv show ?thesis by (auto simp: world_inv_def intro!: exI [of _ rs] list_all_update)
  next
    case appends
    have "xr_sequence ((pre @ r # rest) ! length pre) = int (length pre) + 1" using chain_ok_member [OF pre(3), of "length pre"] by simp
    then have "length ?mem = length rs" using appends(3) pre(2) by (metis (no_types) add_right_cancel length_map nth_append_length of_nat_eq_iff)
    with pre(1) have mem: "?mem = rs" by (auto simp: prefix_def)
    have grow: "chain_ok ed ?x (pre @ [r])" using pre(3) chain_ok_prefix [of ed ?x "pre @ [r]" rest] by simp
    then have chain': "chain_ok ed ?x (rs @ [r])"
      using same_digests_same_checks [of ed ?x rs pre "aw_seen w" r] chain chain_ok_prefix [of ed ?x pre "[r]"] pre(2,4) seen no mem by auto
    have "retainer_ok ed ?x (aw_seen w) (rs @ [r]) \<lparr> rp_memory = ?mem @ [r], rp_pending = rest \<rparr>"
      using pre(2-4) mem by (auto simp: retainer_ok_def intro!: exI [of _ "pre @ [r]"])
    moreover have "list_all (retainer_ok ed ?x (aw_seen w) (rs @ [r])) (aw_processes w)" using retainers_mono [OF all] by blast
    ultimately show ?thesis
      using appends rows(2) chain' seen pre(4) by (auto simp: world_inv_def intro!: exI [of _ "rs @ [r]"] list_all_update)
  qed
qed

lemma append_audit_receipts: "append_audit c a s = (res, s') \<Longrightarrow> ps_receipts s' = ps_receipts s \<and> ps_integrity_ok s' = ps_integrity_ok s"
  by (auto simp: append_audit_def abind_def alift_def aread_def awrite_def split: sum.split_asm)

lemma runs_inv:
  assumes "archive_runs ed c self w0 w" "world_inv ed c self w0 rs0" "codec_ok (xc_receipt c) (aw_seen w)"
  shows "collision_in (aw_seen w) \<or> (\<exists>rs. world_inv ed c self w rs)"
  using assms
proof induction
  case (opens w head st)
  from opens.IH [OF opens.prems(1)] opens.prems(2) have "collision_in (aw_seen w) \<or> (\<exists>rs. world_inv ed c self w rs)" by simp
  then show ?case
  proof
    assume "\<exists>rs. world_inv ed c self w rs"
    then obtain rs where inv: "world_inv ed c self w rs" by blast
    then have "codec_ok (xc_receipt c) rs" using opens.prems(2) by (auto simp: world_inv_def codec_ok_def)
    then have "list_receipts (xc_receipt c) (aw_store w) = Inr rs"
      using list_receipts_rows(2) inv by (auto simp: world_inv_def)
    then have "at_receipts st = rs" using opens.hyps(2) by (auto simp: open_archive_def rbind_eq_Inr)
    with inv show ?thesis by (auto simp: world_inv_def retainer_ok_def)
  qed simp
next
  case (retains w i presented)
  from retains.IH [OF retains.prems(1)] retains.prems(2) have "collision_in (aw_seen w) \<or> (\<exists>rs. world_inv ed c self w rs)" by (simp add: codec_ok_def)
  then show ?case
  proof
    assume "collision_in (aw_seen w)"
    then have "collision_in (aw_seen w @ presented)" unfolding collision_in_def by (rule collides_mono) (simp_all add: payload_inputs_def)
    then show ?thesis by simp
  qed (use inv_retains retains.hyps in blast)
next
  case (appends w i r rest res store)
  show ?case
  proof (cases "collision_in (aw_seen w)")
    case False
    then obtain rs where "world_inv ed c self w rs" using appends.IH [OF appends.prems(1)] appends.prems(2) by auto
    from inv_appends [OF this appends.hyps(2-4) False] show ?thesis by blast
  qed simp
next
  case (audits w a res store)
  then show ?case using append_audit_receipts by (fastforce simp: world_inv_def)
qed blast

section \<open>Properties\<close>

lemma initial_inv: "world_inv ed c self initial_world []"
  by (simp add: world_inv_def initial_world_def empty_publication_store_def chain_ok_def)

lemma runs_seen: "archive_runs ed c self w0 w \<Longrightarrow> set (aw_seen w0) \<subseteq> set (aw_seen w)"
  by (induction rule: archive_runs.induct) auto

lemma runs_rows: "archive_runs ed c self w0 w \<Longrightarrow> prefix (ps_receipts (aw_store w0)) (ps_receipts (aw_store w))"
proof (induction rule: archive_runs.induct)
  case (appends w i r rs res store)
  then show ?case
    by (auto simp: append_receipt_def abind_def alift_def aread_def awrite_def split: sum.split_asm intro: prefix_order.trans)
next
  case (audits w a res store)
  then show ?case using append_audit_receipts by fastforce
qed simp_all

text \<open>
  C29. However many processes open archives on one database and interleave, transaction by transaction, the appends of whatever chains they
  are presented with, the archive lists one chain of presented receipts that verifies, no process ever holds anything but a beginning of it,
  and a receipt archived stays where it is; unless two of the presented receipts exhibit a SHA-256 collision.
\<close>

theorem archive_keeps_one_chain:
  assumes "codec_ok (xc_receipt c) (aw_seen w')" "archive_runs ed c self initial_world w" "archive_runs ed c self w w'"
  shows "(\<exists>rs rs'. list_receipts (xc_receipt c) (aw_store w) = Inr rs \<and> list_receipts (xc_receipt c) (aw_store w') = Inr rs' \<and> prefix rs rs' \<and>
      set rs' \<subseteq> set (aw_seen w') \<and> (rs' \<noteq> [] \<longrightarrow> cv_valid (archive_verify ed self rs' (xr_digest (last rs')))) \<and>
      list_all (\<lambda>p. prefix (rp_memory p) rs') (aw_processes w')) \<or> collision_in (aw_seen w) \<or> collision_in (aw_seen w')"
proof (rule ccontr)
  assume no: "\<not> ?thesis"
  have codec: "codec_ok (xc_receipt c) (aw_seen w)" using assms(1) runs_seen [OF assms(3)] by (auto simp: codec_ok_def)
  obtain rs where rs: "world_inv ed c self w rs" using runs_inv [OF assms(2) initial_inv codec] no by blast
  obtain rs' where rs': "world_inv ed c self w' rs'" using runs_inv [OF assms(3) rs assms(1)] no by blast
  have sub: "set rs \<subseteq> set (aw_seen w')" "set rs' \<subseteq> set (aw_seen w')" using rs rs' runs_seen [OF assms(3)] by (auto simp: world_inv_def)
  then have "codec_ok (xc_receipt c) rs" "codec_ok (xc_receipt c) rs'" using assms(1) by (auto simp: codec_ok_def)
  then have list: "list_receipts (xc_receipt c) (aw_store w) = Inr rs" "list_receipts (xc_receipt c) (aw_store w') = Inr rs'"
    using list_receipts_rows(2) rs rs' by (auto simp: world_inv_def)
  have "prefix (map (receipt_row_of (xc_receipt c)) rs) (map (receipt_row_of (xc_receipt c)) rs')"
    using runs_rows [OF assms(3)] rs rs' by (simp add: world_inv_def)
  then have take: "take (length rs) (map (receipt_row_of (xc_receipt c)) rs') = map (receipt_row_of (xc_receipt c)) rs" by (auto simp: prefix_def)
  have "receipt_row_of (xc_receipt c) a = receipt_row_of (xc_receipt c) b \<Longrightarrow> a \<in> set (aw_seen w') \<Longrightarrow> b \<in> set (aw_seen w') \<Longrightarrow> a = b" for a b
    using assms(1) unfolding codec_ok_def receipt_row_of_def by (metis receipt_row.ext_inject sum.inject(2))
  then have "inj_on (receipt_row_of (xc_receipt c)) (set (aw_seen w'))" by (intro inj_onI)
  moreover have "set (take (length rs) rs') \<union> set rs \<subseteq> set (aw_seen w')" using sub set_take_subset [of "length rs" rs'] by auto
  ultimately have "inj_on (receipt_row_of (xc_receipt c)) (set (take (length rs) rs') \<union> set rs)" by (rule inj_on_subset)
  then have "take (length rs) rs' = rs" using take unfolding take_map by (rule map_inj_on [rotated])
  then have "prefix rs rs'" by (metis append_take_drop_id prefixI)
  with list rs' no show False by (auto simp: world_inv_def chain_ok_def archive_verify_def retainer_ok_def list_all_iff)
qed

lemma new_audit_fields:
  fixes ed self i h t rs
  defines "a \<equiv> new_audit ed self i h t rs"
  shows "au_expected_head a = h" "au_observed_head a = latest_publication_digest rs" "au_receipt_count a = int (length rs)"
    "au_result a = Audit_Match \<longleftrightarrow> latest_publication_digest rs = Some h" "au_custodian_id a = ra_custodian_id self" "au_custodian_key_id a = ra_custodian_key_id self"
    "au_custodian_fingerprint a = key_fingerprint (ed_public ed (ra_private_key self))" "au_chain_verified a = (rs \<noteq> [])" "au_fresh a = (au_result a = Audit_Match)"
    "au_digest a = canon_sha256 (audit_payload a)" "au_signature a = sign_hex ed (ra_private_key self) (audit_payload a)"
  by (simp_all add: a_def new_audit_def Let_def audit_payload_def latest_publication_digest_def)

lemma audit_retrieval_returns:
  assumes "audit_retrieval ed c self i h t s = (Inr a, s')"
  obtains rs u where "list_receipts (xc_receipt c) (at_store s) = Inr rs" "a = new_audit ed self i h u rs" "audit_ok a" "chain_ok ed (ra_expectation self) rs"
  using assms that
  by (auto simp: audit_retrieval_def action_simps abind_def [of "on_archive_store _"] RangerPublicationRetrievalAudit_def rcheck_def chain_ok_def archive_verify_def
      split: sum.split_asm exn.split_asm if_split_asm prod.split_asm)

text \<open>
  A retrieval audit says what was retrieved: it verifies under the custodian's key, its count and head are those of the receipts listed, it
  reports a match exactly when the archive ends in the expected head, and then, if the expected head is that of a verified publication
  chain, the archive holds this chain, or exhibits a SHA-256 collision.
\<close>

theorem audit_retrieval_sound:
  assumes "signing_key_ok ed (ra_private_key self)" "audit_retrieval ed c self i h t s = (Inr a, s')"
    and "cv_valid (verify_external_publication_chain ed x h chain)"
  shows "\<exists>rs. list_receipts (xc_receipt c) (at_store s) = Inr rs \<and> au_receipt_count a = int (length rs) \<and> au_observed_head a = latest_publication_digest rs \<and>
      (let v = verify_publication_retrieval_audit ed (custodian_public_key_hex ed self) (ra_custodian_id self) (ra_custodian_key_id self) h a
       in av_valid v \<and> (av_matches_expected_head v \<longleftrightarrow> latest_publication_digest rs = Some h) \<and> av_fresh v = av_matches_expected_head v \<and>
         (av_matches_expected_head v \<longrightarrow> map receipt_content rs = map receipt_content chain \<or>
           collides (payload_inputs publication_payload rs) (payload_inputs publication_payload chain)))"
proof -
  from audit_retrieval_returns [OF assms(2)] obtain rs u where rs: "list_receipts (xc_receipt c) (at_store s) = Inr rs"
    and a: "a = new_audit ed self i h u rs" "audit_ok a" and ok: "chain_ok ed (ra_expectation self) rs" .
  have matched: "latest_publication_digest rs = Some h \<Longrightarrow> rs \<noteq> []" by (auto simp: latest_publication_digest_def)
  have binds: "map receipt_content rs = map receipt_content chain \<or> collides (payload_inputs publication_payload rs) (payload_inputs publication_payload chain)"
    if "latest_publication_digest rs = Some h"
  proof -
    have "rs \<noteq> []" "xr_digest (last rs) = h" using that by (auto simp: latest_publication_digest_def split: if_split_asm)
    moreover obtain key where "first_failure (check_receipt ed x key) [] chain = None" "chain \<noteq> []" "xr_digest (last chain) = h"
      using valid_chain_checked [OF assms(3)] by blast
    ultimately show ?thesis using publication.chain_binding [OF chain_ok_linked [OF ok] checked_chain_linked] by metis
  qed
  have "verify_publication_retrieval_audit ed (custodian_public_key_hex ed self) (ra_custodian_id self) (ra_custodian_key_id self) h a =
    \<lparr> av_valid = True, av_result = Some (au_result a), av_chain_verified = au_chain_verified a, av_matches_expected_head = (au_result a = Audit_Match),
      av_fresh = au_fresh a, av_separate_custodian = True,
      av_reason = (if au_result a = Audit_Match then ''the configured custodian signed an integrity-checked retrieval matching the expected publication head''
        else ''the configured custodian signed a bounded retrieval failure observation'') \<rparr>"
    (is "?v = ?w")
  proof -
    have "key_bytes (custodian_public_key_hex ed self) = Some (ed_public ed (ra_private_key self))"
      using assms(1) by (simp add: custodian_public_key_hex_def signing_key_ok_def)
    moreover have "audit_error ed (custodian_public_key_hex ed self) (ed_public ed (ra_private_key self)) (ra_custodian_id self) (ra_custodian_key_id self) h a = None"
      using a(2) assms(1) matched by (auto simp: audit_error_def a(1) new_audit_fields custodian_public_key_hex_def)
    ultimately show ?thesis by (simp add: verify_publication_retrieval_audit_def Let_def)
  qed
  then show ?thesis using rs binds by (auto simp: a(1) new_audit_fields Let_def)
qed

text \<open>
  C30. The freshness flag of an audit is not signed: in a verified audit whose result is not a match, setting the flag yields an audit that
  still verifies and is reported as fresh relative to the expected head.
\<close>

theorem audit_freshness_is_unsigned:
  assumes "av_valid (verify_publication_retrieval_audit ed key_hex custodian key_id h a)" "au_result a \<noteq> Audit_Match" "au_observed_head a \<noteq> Some h"
  shows "let v = verify_publication_retrieval_audit ed key_hex custodian key_id h (a \<lparr> au_fresh := True \<rparr>)
    in av_valid v \<and> av_fresh v \<and> \<not> av_matches_expected_head v"
proof -
  have payload: "audit_payload (a \<lparr> au_fresh := True \<rparr>) = audit_payload a" "audit_ok (a \<lparr> au_fresh := True \<rparr>) = audit_ok a"
    by (simp_all add: audit_payload_def audit_ok_def)
  show ?thesis
    using assms unfolding verify_publication_retrieval_audit_def Let_def
    by (auto simp: payload audit_error_def audit_failure_def split: option.split_asm option.split)
qed

section \<open>A concrete archive\<close>

definition demo_archive :: archive where
  "demo_archive = \<lparr> ra_expectation = expectation_of demo_ed25519 demo_publisher, ra_custodian_id = ''custodian'', ra_custodian_key_id = ''ck-1'', ra_private_key = demo_key 2 \<rparr>"

definition demo_codecs :: archive_codecs where
  "demo_codecs = \<lparr> xc_receipt = \<lparr> jc_dump = (\<lambda>_. ''r''), jc_load = (\<lambda>_. Inr demo_receipt) \<rparr>, xc_audit = \<lparr> jc_dump = (\<lambda>_. ''a''), jc_load = (\<lambda>_. Inl (ValidationError ''a'')) \<rparr> \<rparr>"

definition demo_store :: publication_store where
  "demo_store = empty_publication_store \<lparr> ps_receipts := [receipt_row_of (xc_receipt demo_codecs) demo_receipt] \<rparr>"

definition demo_world :: archive_world where
  "demo_world = \<lparr> aw_store = demo_store, aw_processes = [\<lparr> rp_memory = [demo_receipt], rp_pending = [] \<rparr>], aw_seen = [demo_receipt] \<rparr>"

lemma demo_fields: "xr_sequence demo_receipt = 1" "xr_previous demo_receipt = zero_digest"
  by (simp_all add: demo_receipt_def new_receipt_fields expected_previous_def)

lemma demo_runs: "archive_runs demo_ed25519 demo_codecs demo_archive initial_world demo_world"
proof -
  let ?p0 = "\<lparr> rp_memory = [], rp_pending = [] \<rparr>" let ?p1 = "\<lparr> rp_memory = [], rp_pending = [demo_receipt] \<rparr>"
  have "open_archive demo_ed25519 demo_codecs demo_archive None (aw_store initial_world) = Inr \<lparr> at_store = aw_store initial_world, at_receipts = [] \<rparr>"
    by (simp add: open_archive_def list_receipts_def require_integrity_def initial_world_def empty_publication_store_def stored_records_def ordered_receipts_def)
  from archive_runs.opens [OF archive_runs.start this]
  have 1: "archive_runs demo_ed25519 demo_codecs demo_archive initial_world (initial_world \<lparr> aw_processes := [?p0] \<rparr>)" by (simp add: initial_world_def)
  have "retain_checks demo_ed25519 demo_archive [demo_receipt] [] = Inr ()"
    using demo_chain by (simp add: retain_checks_def archive_verify_def demo_archive_def)
  from archive_runs.retains [OF 1, of 0 "[demo_receipt]"] this
  have 2: "archive_runs demo_ed25519 demo_codecs demo_archive initial_world (initial_world \<lparr> aw_processes := [?p1], aw_seen := [demo_receipt] \<rparr>)" by (simp add: initial_world_def)
  have "append_receipt (xc_receipt demo_codecs) demo_receipt empty_publication_store = (Inr (), demo_store)"
    using demo_receipt_ok demo_fields
    by (simp add: append_receipt_def action_simps RangerExternalPublicationReceipt_def empty_publication_store_def demo_store_def ordered_receipts_def expected_previous_def)
  from archive_runs.appends [OF 2, of 0 demo_receipt "[]"] this show ?thesis by (simp add: demo_world_def initial_world_def)
qed

theorem archive_keeps_one_chain_witness:
  "(\<exists>rs. list_receipts (xc_receipt demo_codecs) (aw_store demo_world) = Inr rs \<and> set rs \<subseteq> set (aw_seen demo_world) \<and>
      list_all (\<lambda>p. prefix (rp_memory p) rs) (aw_processes demo_world)) \<or> collision_in (aw_seen demo_world)"
proof -
  have "codec_ok (xc_receipt demo_codecs) (aw_seen demo_world)" by (simp add: codec_ok_def demo_codecs_def demo_world_def)
  from archive_keeps_one_chain [OF this demo_runs archive_runs.start] show ?thesis by blast
qed

definition demo_archive_state :: archive_state where
  "demo_archive_state = \<lparr> at_store = demo_store, at_receipts = [demo_receipt] \<rparr>"

definition demo_audit :: retrieval_audit where
  "demo_audit = new_audit demo_ed25519 demo_archive ''a-1'' (xr_digest demo_receipt) 5 [demo_receipt]"

definition demo_mismatch :: retrieval_audit where
  "demo_mismatch = new_audit demo_ed25519 demo_archive ''a-2'' zero_digest 5 []"

lemma demo_audit_ok: "audit_ok demo_audit" "audit_ok demo_mismatch"
  using signature_text_sign_hex [OF demo_key_ok, of 2] demo_receipt_ok
  by (simp_all add: demo_audit_def demo_mismatch_def audit_ok_def new_audit_def Let_def demo_archive_def field_length_def opt_ok_def latest_publication_digest_def
      key_fingerprint_def receipt_ok_def)

lemma demo_audit_retrieval:
  "audit_retrieval demo_ed25519 demo_codecs demo_archive ''a-1'' (xr_digest demo_receipt) (Aware 5 0) demo_archive_state =
    (Inr demo_audit, demo_archive_state \<lparr> at_store := demo_store \<lparr> ps_audits := [audit_row_of (xc_audit demo_codecs) demo_audit] \<rparr> \<rparr>)"
proof -
  have list: "list_receipts (xc_receipt demo_codecs) demo_store = Inr [demo_receipt]"
    using list_receipts_rows(2) [of demo_store "xc_receipt demo_codecs" "[demo_receipt]" demo_ed25519 "expectation_of demo_ed25519 demo_publisher"] demo_chain
    by (simp add: demo_store_def empty_publication_store_def chain_ok_def codec_ok_def demo_codecs_def)
  have fields: "ra_expectation demo_archive = expectation_of demo_ed25519 demo_publisher" "ps_audits demo_store = []"
    by (simp_all add: demo_archive_def demo_store_def empty_publication_store_def)
  show ?thesis
    using demo_audit_ok(1) demo_chain
    by (simp add: audit_retrieval_def action_simps demo_archive_state_def list archive_verify_def RangerPublicationRetrievalAudit_def fields
        demo_audit_def [symmetric] on_archive_store_def abind_def [of "on_archive_store _"] append_audit_def)
qed

theorem audit_retrieval_sound_witness:
  "\<exists>rs. list_receipts (xc_receipt demo_codecs) demo_store = Inr rs \<and> au_receipt_count demo_audit = int (length rs) \<and> au_observed_head demo_audit = latest_publication_digest rs \<and>
      (let v = verify_publication_retrieval_audit demo_ed25519 (custodian_public_key_hex demo_ed25519 demo_archive) ''custodian'' ''ck-1'' (xr_digest demo_receipt) demo_audit
       in av_valid v \<and> (av_matches_expected_head v \<longleftrightarrow> latest_publication_digest rs = Some (xr_digest demo_receipt)) \<and> av_fresh v = av_matches_expected_head v \<and>
         (av_matches_expected_head v \<longrightarrow> map receipt_content rs = map receipt_content [demo_receipt] \<or>
           collides (payload_inputs publication_payload rs) (payload_inputs publication_payload [demo_receipt])))"
  using audit_retrieval_sound [OF _ demo_audit_retrieval demo_chain] by (simp add: demo_archive_def demo_archive_state_def)

lemma demo_mismatch_valid:
  "av_valid (verify_publication_retrieval_audit demo_ed25519 (custodian_public_key_hex demo_ed25519 demo_archive) ''custodian'' ''ck-1'' zero_digest demo_mismatch)"
proof -
  have key: "signing_key_ok demo_ed25519 (ra_private_key demo_archive)" by (simp add: demo_archive_def)
  then have "key_bytes (custodian_public_key_hex demo_ed25519 demo_archive) = Some (ed_public demo_ed25519 (ra_private_key demo_archive))"
    by (simp add: custodian_public_key_hex_def signing_key_ok_def)
  moreover have "audit_error demo_ed25519 (custodian_public_key_hex demo_ed25519 demo_archive) (ed_public demo_ed25519 (ra_private_key demo_archive)) ''custodian'' ''ck-1'' zero_digest
      demo_mismatch = None"
    using demo_audit_ok(2) key by (simp add: audit_error_def demo_mismatch_def new_audit_fields custodian_public_key_hex_def latest_publication_digest_def) (simp add: demo_archive_def)
  ultimately show ?thesis by (simp add: verify_publication_retrieval_audit_def Let_def)
qed

theorem audit_freshness_is_unsigned_witness:
  "let v = verify_publication_retrieval_audit demo_ed25519 (custodian_public_key_hex demo_ed25519 demo_archive) ''custodian'' ''ck-1'' zero_digest (demo_mismatch \<lparr> au_fresh := True \<rparr>)
    in av_valid v \<and> av_fresh v \<and> \<not> av_matches_expected_head v"
  by (rule audit_freshness_is_unsigned [OF demo_mismatch_valid]) (simp_all add: demo_mismatch_def new_audit_fields latest_publication_digest_def)

end
