(* ===== verification/Ets_Ranger_Standing.thy ===== *)
theory Ets_Ranger_Standing
  imports Ets_Ranger_Keys Ets_Ranger_Archive
begin

text \<open>
  Key standing (\<^verbatim>\<open>ets/ranger/publication_key_lifecycle.py\<close>): the authority attests that the key which signed a receipt or an audit was
  active at a prefix of its history, and a verifier checks the attestation, the source and the history together; a chain of
  publications verifies under keys that changed over time.
\<close>

section \<open>Models\<close>

datatype source_kind = External_Publication_Receipt | Publication_Retrieval_Audit

fun source_kind_text :: "source_kind \<Rightarrow> string" where
  "source_kind_text External_Publication_Receipt = ''external_publication_receipt''"
| "source_kind_text Publication_Retrieval_Audit = ''publication_retrieval_audit''"

fun source_role :: "source_kind \<Rightarrow> key_role" where
  "source_role External_Publication_Receipt = Publisher_Role"
| "source_role Publication_Retrieval_Audit = Custodian_Role"

record key_standing =
  ss_standing_id :: string
  ss_source_kind :: source_kind
  ss_source_digest :: string
  ss_role :: key_role
  ss_scope :: string
  ss_principal :: string
  ss_key_id :: string
  ss_fingerprint :: string
  ss_event_count :: int
  ss_history_head :: string
  ss_matched_sequence :: int
  ss_authority_id :: string
  ss_authority_key_id :: string
  ss_authority_fingerprint :: string
  ss_digest :: string
  ss_signature :: string

definition standing_ok :: "key_standing \<Rightarrow> bool" where
  "standing_ok s \<longleftrightarrow> list_all (field_length 1 256) [ss_standing_id s, ss_key_id s, ss_authority_key_id s] \<and>
     list_all sha256_text [ss_source_digest s, ss_fingerprint s, ss_history_head s, ss_authority_fingerprint s, ss_digest s] \<and>
     list_all (field_length 1 160) [ss_principal s, ss_authority_id s] \<and> publication_scope_ok (ss_scope s) \<and>
     int64_positive (ss_event_count s) \<and> int64_positive (ss_matched_sequence s) \<and> signature_text (ss_signature s) \<and>
     source_role (ss_source_kind s) = ss_role s"

definition standing_payload :: "key_standing \<Rightarrow> json" where
  "standing_payload s = JObj
     [(''schema_version'', JStr ''ets.ranger.publication-source-key-standing.v1''), (''standing_id'', JStr (ss_standing_id s)),
      (''source_kind'', JStr (source_kind_text (ss_source_kind s))), (''source_digest_sha256'', JStr (ss_source_digest s)),
      (''key_role'', JStr (key_role_text (ss_role s))), (''publication_scope_id'', JStr (ss_scope s)), (''principal_id'', JStr (ss_principal s)),
      (''signing_key_id'', JStr (ss_key_id s)), (''public_key_fingerprint_sha256'', JStr (ss_fingerprint s)),
      (''authority_event_count'', JInt (ss_event_count s)), (''authority_history_head_digest_sha256'', JStr (ss_history_head s)),
      (''matched_authority_sequence'', JInt (ss_matched_sequence s)), (''authority_id'', JStr (ss_authority_id s)),
      (''authority_signing_key_id'', JStr (ss_authority_key_id s)), (''authority_public_key_fingerprint_sha256'', JStr (ss_authority_fingerprint s)),
      (''signing_algorithm'', JStr ''ed25519''), (''historical_key_standing_at_named_history_prefix'', JBool True),
      (''source_signature_time_proven'', JBool False), (''currently_authorized_proven'', JBool False), (''operational_authorization_proven'', JBool False),
      (''globally_current_history_proven'', JBool False), (''trusted_time_proven'', JBool False), (''semantic_truth_proven'', JBool False),
      (''physical_outcome_proven'', JBool False),
      (''claim_boundary'', JStr ''historical_publication_key_standing_no_source_time_global_currentness_or_truth_claim'')]"

datatype publication_source = Receipt_Source publication_receipt | Audit_Source retrieval_audit

section \<open>Attestation\<close>

record standing_request =
  sq_standing_id :: string
  sq_source_kind :: source_kind
  sq_source_digest :: string
  sq_principal :: string
  sq_key_id :: string
  sq_fingerprint :: string
  sq_event_count :: "int option"

definition new_standing :: "ed25519 \<Rightarrow> key_ledger \<Rightarrow> key_event list \<Rightarrow> key_event \<Rightarrow> standing_request \<Rightarrow> key_standing" where
  "new_standing ed self history_prefix matched q =
     (let c = kl_configuration self;
          s = \<lparr> ss_standing_id = sq_standing_id q, ss_source_kind = sq_source_kind q, ss_source_digest = sq_source_digest q,
            ss_role = source_role (sq_source_kind q), ss_scope = kc_scope c, ss_principal = sq_principal q, ss_key_id = sq_key_id q,
            ss_fingerprint = sq_fingerprint q, ss_event_count = int (length history_prefix), ss_history_head = ke_digest (last history_prefix),
            ss_matched_sequence = ke_sequence matched, ss_authority_id = kc_authority_id c, ss_authority_key_id = kc_authority_key_id c,
            ss_authority_fingerprint = authority_fingerprint ed self, ss_digest = [], ss_signature = [] \<rparr>
      in s \<lparr> ss_digest := canon_sha256 (standing_payload s), ss_signature := sign_hex ed (kl_private_key self) (standing_payload s) \<rparr>)"

definition attest_source_key_standing ::
  "ed25519 \<Rightarrow> (utc \<Rightarrow> string) \<Rightarrow> key_ledger \<Rightarrow> key_event list \<Rightarrow> standing_request \<Rightarrow> key_standing result" where
  "attest_source_key_standing ed dt self events q =
     rbind (rcheck (field_length 1 256 (sq_standing_id q)) (lifecycle_error ''standing_id must contain 1-256 characters'')) (\<lambda>_.
     rbind (rcheck (sha256_text (sq_source_digest q)) (lifecycle_error ''source digest must be lowercase SHA-256'')) (\<lambda>_.
     rbind (rcheck (sha256_text (sq_fingerprint q)) (lifecycle_error ''public-key fingerprint must be lowercase SHA-256'')) (\<lambda>_.
     rbind (rcheck (\<not> list_ex (\<lambda>e. ki_request_id (ke_intent e) = sq_standing_id q) events)
       (lifecycle_error ''standing_id collides with an authority request'')) (\<lambda>_.
     let count = (case sq_event_count q of None \<Rightarrow> int (length events) | Some n \<Rightarrow> n) in
     rbind (rcheck (1 \<le> count \<and> count \<le> int (length events))
       (lifecycle_error ''authority_event_count must name a retained non-empty history prefix'')) (\<lambda>_.
     let history_prefix = take (nat count) events; v = verify_history ed dt history_prefix (authority_public_key_hex ed self);
         role = source_role (sq_source_kind q) in
     rbind (rcheck (hv_valid v) (lifecycle_corrupt (''retained publication-key history is invalid: '' @ hv_reason v))) (\<lambda>_.
     rbind (rcheck (sq_principal q = principal_for_role (kl_configuration self) role)
       (lifecycle_error ''source principal does not match the configured publisher or custodian'')) (\<lambda>_.
     case active_descriptor history_prefix role of
       (Some d, Some e) \<Rightarrow>
         rbind (rcheck (descriptor_identity d = (sq_key_id q, sq_fingerprint q))
           (lifecycle_conflict ''source key does not match the active key at the named history prefix'')) (\<lambda>_.
         let s = new_standing ed self history_prefix e q in
         rbind (rcheck (standing_ok s) (ValidationError ''RangerPublicationSourceKeyStanding'')) (\<lambda>_. Inr s))
     | _ \<Rightarrow> Inl (lifecycle_conflict ''source key has no active authority-relative standing at the named history prefix''))))))))"

section \<open>Verification of a standing\<close>

record standing_verification =
  sv_valid :: bool
  sv_source_kind :: "source_kind option"
  sv_source_digest :: "string option"
  sv_historical :: bool
  sv_source_signature_valid :: bool
  sv_currently_authorized :: bool
  sv_matched_sequence :: "int option"
  sv_history_head :: "string option"
  sv_reason :: string

definition standing_failure :: "string \<Rightarrow> standing_verification" where
  "standing_failure reason = \<lparr> sv_valid = False, sv_source_kind = None, sv_source_digest = None, sv_historical = False, sv_source_signature_valid = False,
     sv_currently_authorized = False, sv_matched_sequence = None, sv_history_head = None, sv_reason = reason \<rparr>"

fun source_binding :: "publication_source \<Rightarrow> source_kind \<times> string \<times> string \<times> string \<times> string" where
  "source_binding (Receipt_Source r) = (External_Publication_Receipt, xr_digest r, xr_publisher_id r, xr_publisher_key_id r, xr_publisher_fingerprint r)"
| "source_binding (Audit_Source a) = (Publication_Retrieval_Audit, au_digest a, au_custodian_id a, au_custodian_key_id a, au_custodian_fingerprint a)"

definition source_binding_error :: "key_standing \<Rightarrow> publication_source \<Rightarrow> string option" where
  "source_binding_error s source =
     (let (kind, digest, principal, key_id, fingerprint) = source_binding source in
      fail_if (ss_source_kind s \<noteq> kind \<or> ss_source_digest s \<noteq> digest \<or> ss_role s \<noteq> source_role kind \<or> ss_principal s \<noteq> principal \<or>
          ss_key_id s \<noteq> key_id \<or> ss_fingerprint s \<noteq> fingerprint)
        ''source record does not match its signed key-standing binding'')"

definition external_publication_receipt_signing_payload :: "publication_receipt \<Rightarrow> json result" where
  "external_publication_receipt_signing_payload r = rbind (RangerExternalPublicationReceipt r) (\<lambda>validated. Inr (publication_payload validated))"

definition publication_retrieval_audit_signing_payload :: "retrieval_audit \<Rightarrow> json result" where
  "publication_retrieval_audit_signing_payload a = rbind (RangerPublicationRetrievalAudit a) (\<lambda>validated. Inr (audit_payload validated))"

text \<open>The signature of a source under the key of a descriptor; a record that is not valid makes it raise.\<close>

fun source_signature_error :: "ed25519 \<Rightarrow> publication_source \<Rightarrow> key_descriptor \<Rightarrow> string option result" where
  "source_signature_error ed (Receipt_Source r) d =
     rbind (external_publication_receipt_signing_payload r) (\<lambda>payload.
     Inr (first_some
       [fail_if (canon_sha256 payload \<noteq> xr_digest r) ''external publication digest mismatch'',
        fail_if (\<not> signature_accepted ed (kd_public_key_hex d) (xr_signature r) payload) ''external publication signature is invalid'']))"
| "source_signature_error ed (Audit_Source a) d =
     (let v = verify_publication_retrieval_audit ed (kd_public_key_hex d) (au_custodian_id a) (au_custodian_key_id a) (au_expected_head a) a in
      if \<not> av_valid v then Inr (Some (''publication retrieval audit is invalid: '' @ av_reason v))
      else rbind (publication_retrieval_audit_signing_payload a) (\<lambda>payload.
        Inr (fail_if (canon_sha256 payload \<noteq> au_digest a) ''publication retrieval audit digest mismatch'')))"

text \<open>The checks of the standing against the history, before the source is looked at.\<close>

definition standing_record_error ::
  "ed25519 \<Rightarrow> (utc \<Rightarrow> string) \<Rightarrow> key_configuration \<Rightarrow> string \<Rightarrow> key_event list \<Rightarrow> key_standing \<Rightarrow> string option" where
  "standing_record_error ed dt x authority_hex history s =
     (let v = verify_history ed dt history authority_hex in
      if \<not> hv_valid v then Some (''publication-key authority history is invalid: '' @ hv_reason v)
      else case key_bytes authority_hex of
        None \<Rightarrow> Some ''authority public key is not 32-byte Ed25519''
      | Some key \<Rightarrow>
          (let fp = key_fingerprint key; history_prefix = take (nat (ss_event_count s)) history in first_some
            [configured_history_error x fp history,
             fail_if (\<not> standing_ok s) ''publication source-key standing schema validation failed'',
             fail_if (ss_scope s \<noteq> kc_scope x \<or> ss_authority_id s \<noteq> kc_authority_id x \<or> ss_authority_key_id s \<noteq> kc_authority_key_id x \<or>
                 ss_authority_fingerprint s \<noteq> fp) ''source-key standing scope or authority identity mismatch'',
             fail_if (ss_event_count s > int (length history)) ''source-key standing names an unavailable authority-history prefix'',
             fail_if (history_prefix = [] \<or> ke_digest (last history_prefix) \<noteq> ss_history_head s) ''source-key standing authority-history head mismatch'',
             fail_if (canon_sha256 (standing_payload s) \<noteq> ss_digest s) ''source-key standing digest mismatch'',
             fail_if (\<not> signature_accepted ed authority_hex (ss_signature s) (standing_payload s)) ''source-key standing authority signature invalid'']))"

definition verify_publication_source_key_standing ::
  "ed25519 \<Rightarrow> (utc \<Rightarrow> string) \<Rightarrow> key_configuration \<Rightarrow> string \<Rightarrow> key_event list \<Rightarrow> key_standing \<Rightarrow> publication_source \<Rightarrow> standing_verification result" where
  "verify_publication_source_key_standing ed dt x authority_hex history s source =
     (case first_some [standing_record_error ed dt x authority_hex history s, source_binding_error s source] of
        Some reason \<Rightarrow> Inr (standing_failure reason)
      | None \<Rightarrow>
          (case active_descriptor (take (nat (ss_event_count s)) history) (ss_role s) of
             (Some d, Some matched) \<Rightarrow>
               if descriptor_identity d \<noteq> (ss_key_id s, ss_fingerprint s)
               then Inr (standing_failure ''source key does not match the named historical authority standing'')
               else if ke_sequence matched \<noteq> ss_matched_sequence s
               then Inr (standing_failure ''source-key standing matched authority sequence mismatch'')
               else rbind (source_signature_error ed source d) (\<lambda>signature_error.
                 case signature_error of
                   Some reason \<Rightarrow> Inr (standing_failure reason)
                 | None \<Rightarrow>
                     (let current = (case fst (active_descriptor history (ss_role s)) of
                          None \<Rightarrow> False | Some d' \<Rightarrow> descriptor_identity d' = (ss_key_id s, ss_fingerprint s)) in
                      Inr \<lparr> sv_valid = True, sv_source_kind = Some (ss_source_kind s), sv_source_digest = Some (ss_source_digest s), sv_historical = True,
                        sv_source_signature_valid = True, sv_currently_authorized = current, sv_matched_sequence = Some (ss_matched_sequence s),
                        sv_history_head = Some (ss_history_head s),
                        sv_reason = (if current
                          then ''the source signature and authority-relative key standing verify at the named history prefix; source-signature time, operational authorization, and global currentness are not proven''
                          else ''the source signature and historical authority-relative key standing verify at the named history prefix, but the key is not currently authorized relative to the full presented history; source-signature time and operational authorization are not proven'') \<rparr>))
           | _ \<Rightarrow> Inr (standing_failure ''source key was not active at the named authority-history prefix'')))"

section \<open>Chains under changing keys\<close>

record lifecycle_chain_verification =
  lv_valid :: bool
  lv_receipt_count :: nat
  lv_latest_digest :: "string option"
  lv_historical_standing :: bool
  lv_all_current :: bool
  lv_matches_expected_head :: bool
  lv_reason :: string

definition lifecycle_chain_failure :: "nat \<Rightarrow> string \<Rightarrow> lifecycle_chain_verification" where
  "lifecycle_chain_failure n reason = \<lparr> lv_valid = False, lv_receipt_count = n, lv_latest_digest = None, lv_historical_standing = False,
     lv_all_current = False, lv_matches_expected_head = False, lv_reason = reason \<rparr>"

definition check_chain_receipt :: "string \<Rightarrow> string \<Rightarrow> string \<Rightarrow> publication_receipt list \<Rightarrow> publication_receipt \<Rightarrow> string option" where
  "check_chain_receipt publisher_id registry_id registry_key_id seen r = first_some
     [fail_if (\<not> receipt_ok r) ''external publication receipt schema validation failed'',
      fail_if (xr_sequence r \<noteq> int (length seen) + 1) ''external publication sequence is not contiguous'',
      fail_if (xr_previous r \<noteq> expected_previous xr_digest seen) ''external publication predecessor digest mismatch'',
      fail_if (xr_publisher_id r \<noteq> publisher_id) ''external publisher identity does not match configuration'',
      fail_if (xr_registry_id r \<noteq> registry_id \<or> xr_registry_key_id r \<noteq> registry_key_id) ''published registry identity does not match configuration'',
      fail_if (xr_publication_id r \<in> xr_publication_id ` set seen) ''duplicate external publication_id'',
      fail_if (receipt_binding r \<in> receipt_binding ` set seen) ''duplicate external publication binding'',
      fail_if (seen \<noteq> [] \<and> xr_published_at r \<le> xr_published_at (last seen)) ''external publication receipt time did not advance'']"

text \<open>The loop over receipts and standings: a failure with the number of receipts before it, or whether every key is still authorized.\<close>

fun lifecycle_chain_loop ::
  "(publication_receipt list \<Rightarrow> publication_receipt \<Rightarrow> string option) \<Rightarrow> (key_standing \<Rightarrow> publication_source \<Rightarrow> standing_verification result) \<Rightarrow>
   publication_receipt list \<Rightarrow> bool \<Rightarrow> (publication_receipt \<times> key_standing) list \<Rightarrow> (nat \<times> string + bool) result" where
  "lifecycle_chain_loop check verify seen all_current [] = Inr (Inr all_current)"
| "lifecycle_chain_loop check verify seen all_current ((r, s) # rest) =
     (case check seen r of
        Some reason \<Rightarrow> Inr (Inl (length seen, reason))
      | None \<Rightarrow> rbind (verify s (Receipt_Source r)) (\<lambda>v.
          if \<not> sv_valid v then Inr (Inl (length seen, ''publication receipt source-key standing is invalid: '' @ sv_reason v))
          else if sv_source_kind v \<noteq> Some External_Publication_Receipt
          then Inr (Inl (length seen, ''publication receipt standing has the wrong source kind''))
          else lifecycle_chain_loop check verify (seen @ [r]) (all_current \<and> sv_currently_authorized v) rest))"

definition verify_publication_lifecycle_chain ::
  "ed25519 \<Rightarrow> (utc \<Rightarrow> string) \<Rightarrow> key_configuration \<Rightarrow> string \<Rightarrow> string \<Rightarrow> string \<Rightarrow> string \<Rightarrow> publication_receipt list \<Rightarrow> key_standing list \<Rightarrow> key_event list \<Rightarrow>
   lifecycle_chain_verification result" where
  "verify_publication_lifecycle_chain ed dt x authority_hex registry_id registry_key_id expected_latest chain standings history =
     (if chain = [] then Inr (lifecycle_chain_failure 0 ''publication receipt chain is empty'')
      else if length chain \<noteq> length standings
      then Inr (lifecycle_chain_failure 0 ''each publication receipt requires exactly one source-key standing'')
      else rbind (lifecycle_chain_loop (check_chain_receipt (kc_publisher_id x) registry_id registry_key_id)
          (verify_publication_source_key_standing ed dt x authority_hex history) [] True (zip chain standings)) (\<lambda>outcome.
        case outcome of
          Inl (n, reason) \<Rightarrow> Inr (lifecycle_chain_failure n reason)
        | Inr all_current \<Rightarrow>
            if xr_digest (last chain) \<noteq> expected_latest
            then Inr (lifecycle_chain_failure (length chain) ''presented publication chain does not match expected head'')
            else Inr \<lparr> lv_valid = True, lv_receipt_count = length chain, lv_latest_digest = Some (xr_digest (last chain)), lv_historical_standing = True,
              lv_all_current = all_current, lv_matches_expected_head = True,
              lv_reason = ''publication signatures, append-only linkage, and authority-relative historical publisher-key standings verify through the expected head; one or more historical keys may no longer be currently authorized, and source-signature time, WORM custody, organizational independence, global currentness, truth, and outcome are not proven'' \<rparr>))"

section \<open>Keys that are active, and keys that were\<close>

lemma history_events_ok: "hv_valid (verify_history ed dt es hex) \<Longrightarrow> \<forall>e \<in> set es. key_event_ok dt e"
  using history_lifecycle by (metis valid_history_checked)

lemma event_fields: "key_event_ok dt e \<Longrightarrow> transition_fields_ok (ke_intent e)"
  by (simp add: key_event_ok_def request_ok_def intent_ok_def)

lemma active_later:
  assumes "\<forall>e \<in> set fs. key_event_ok dt e"
  shows "fst (active_descriptor (es @ fs) role) = Some k \<Longrightarrow> k \<in> set (introduced_keys fs) \<or> fst (active_descriptor es role) = Some k"
  using assms
proof (induction fs arbitrary: k rule: rev_induct)
  case (snoc e fs)
  show ?case
  proof (cases "ke_role e = role")
    case True
    have "key_event_ok dt e" using snoc.prems(2) by simp
    then have "transition_fields_ok (ke_intent e)" by (rule event_fields)
    with snoc.prems(1) active_append_same [of "es @ fs" e] True have "new_descriptor (ke_intent e) = Some k"
      by (cases "ki_kind (ke_intent e)") (auto simp: new_descriptor_def transition_fields_ok_def)
    then show ?thesis by (simp add: introduced_append)
  next
    case False
    then show ?thesis using snoc active_append_other [of e role "es @ fs"] by (auto simp: introduced_append)
  qed
qed simp

lemma active_introduced: "\<forall>e \<in> set es. key_event_ok dt e \<Longrightarrow> fst (active_descriptor es role) = Some k \<Longrightarrow> k \<in> set (introduced_keys es)"
  using active_later [of es dt "[]" role k] by (simp add: active_descriptor_def)

lemma introduced_keys_append: "introduced_keys (es @ fs) = introduced_keys es @ introduced_keys fs"
  by (simp add: introduced_keys_def map_filter_def)

lemma history_prefix_valid:
  assumes "hv_valid (verify_history ed dt (es @ fs) hex)" "es \<noteq> []"
  shows "hv_valid (verify_history ed dt es hex)"
proof -
  obtain key where "key_bytes hex = Some key" "first_failure (check_key_event ed dt hex key) [] (es @ fs) = None" using assms(1) by (rule valid_history_checked)
  then show ?thesis using assms(2) by (simp add: first_failure_append verify_history_def split: option.split_asm)
qed

lemma standing_failure_verdict [simp]: "\<not> sv_valid (standing_failure m)" "\<not> sv_currently_authorized (standing_failure m)"
  by (simp_all add: standing_failure_def)

lemma current_is_valid:
  assumes "verify_publication_source_key_standing ed dt x hex history s src = Inr v" "sv_currently_authorized v"
  shows "sv_valid v"
proof (cases "first_some [standing_record_error ed dt x hex history s, source_binding_error s src]")
  case None
  obtain d e where "active_descriptor (take (nat (ss_event_count s)) history) (ss_role s) = (d, e)" by (cases "active_descriptor (take (nat (ss_event_count s)) history) (ss_role s)")
  note checked = assms(1) [unfolded verify_publication_source_key_standing_def None option.case this prod.case]
  show ?thesis
  proof (cases d; cases e)
    fix k m assume "d = Some k" "e = Some m"
    note step = checked [unfolded this option.case]
    show ?thesis
      using step assms(2) by (cases "source_signature_error ed src k"; simp add: Let_def split: if_split_asm option.split_asm) auto
  qed (use checked assms(2) in auto)
next
  case (Some m)
  then show ?thesis using assms by (auto simp: verify_publication_source_key_standing_def)
qed

lemma standing_checked:
  assumes "verify_publication_source_key_standing ed dt x hex history s src = Inr v" "sv_valid v"
  obtains d e where "standing_record_error ed dt x hex history s = None" "source_binding_error s src = None"
    "active_descriptor (take (nat (ss_event_count s)) history) (ss_role s) = (Some d, Some e)" "descriptor_identity d = (ss_key_id s, ss_fingerprint s)"
    "ke_sequence e = ss_matched_sequence s" "source_signature_error ed src d = Inr None"
    "sv_currently_authorized v \<longleftrightarrow> (\<exists>d'. fst (active_descriptor history (ss_role s)) = Some d' \<and> descriptor_identity d' = descriptor_identity d)"
    "sv_source_kind v = Some (ss_source_kind s)"
proof -
  have errors: "first_some [standing_record_error ed dt x hex history s, source_binding_error s src] = None"
    using assms by (auto simp: verify_publication_source_key_standing_def standing_failure_def split: option.split_asm)
  note assms(1) [unfolded verify_publication_source_key_standing_def errors option.case]
  with assms(2) obtain d e where de: "active_descriptor (take (nat (ss_event_count s)) history) (ss_role s) = (Some d, Some e)"
    by (auto simp: standing_failure_def split: prod.split_asm option.split_asm)
  with assms errors show thesis
    by (intro that [of d e])
      (auto simp: verify_publication_source_key_standing_def standing_failure_def rbind_eq_Inr Let_def split: if_split_asm option.split_asm)
qed

lemma standing_record_checked:
  assumes "standing_record_error ed dt x hex history s = None"
  shows "hv_valid (verify_history ed dt history hex)" "1 \<le> ss_event_count s" "ss_event_count s \<le> int (length history)" "standing_ok s"
    "ke_digest (last (take (nat (ss_event_count s)) history)) = ss_history_head s" "signature_accepted ed hex (ss_signature s) (standing_payload s)"
proof -
  show valid: "hv_valid (verify_history ed dt history hex)" using assms by (auto simp: standing_record_error_def Let_def split: if_split_asm)
  obtain key where key: "key_bytes hex = Some key" using valid valid_history_checked by blast
  show ok: "standing_ok s" using assms valid key by (simp add: standing_record_error_def Let_def)
  then show "1 \<le> ss_event_count s" by (simp add: standing_ok_def int64_positive_def)
  show "ss_event_count s \<le> int (length history)" "ke_digest (last (take (nat (ss_event_count s)) history)) = ss_history_head s"
    "signature_accepted ed hex (ss_signature s) (standing_payload s)"
    using assms valid key by (simp_all add: standing_record_error_def Let_def not_less)
qed

lemma new_standing_fields:
  fixes ed self es e q
  defines "s \<equiv> new_standing ed self es e q"
  shows "ss_standing_id s = sq_standing_id q" "ss_source_kind s = sq_source_kind q" "ss_source_digest s = sq_source_digest q" "ss_role s = source_role (sq_source_kind q)"
    "ss_scope s = kc_scope (kl_configuration self)" "ss_principal s = sq_principal q" "ss_key_id s = sq_key_id q" "ss_fingerprint s = sq_fingerprint q"
    "ss_event_count s = int (length es)" "ss_history_head s = ke_digest (last es)" "ss_matched_sequence s = ke_sequence e"
    "ss_authority_id s = kc_authority_id (kl_configuration self)" "ss_authority_key_id s = kc_authority_key_id (kl_configuration self)"
    "ss_authority_fingerprint s = authority_fingerprint ed self" "ss_digest s = canon_sha256 (standing_payload s)"
    "ss_signature s = sign_hex ed (kl_private_key self) (standing_payload s)"
  by (simp_all add: s_def new_standing_def Let_def standing_payload_def)

lemma attested:
  assumes "attest_source_key_standing ed dt self es q = Inr s"
  obtains n d e where "1 \<le> n" "n \<le> length es" "s = new_standing ed self (take n es) e q" "active_descriptor (take n es) (source_role (sq_source_kind q)) = (Some d, Some e)"
    "descriptor_identity d = (sq_key_id q, sq_fingerprint q)" "standing_ok s"
proof -
  define count where "count = (case sq_event_count q of None \<Rightarrow> int (length es) | Some n \<Rightarrow> n)"
  have c: "1 \<le> count" "count \<le> int (length es)"
    using assms by (auto simp: attest_source_key_standing_def Let_def count_def rbind_eq_Inr rcheck_eq_Inr)
  obtain d e where "active_descriptor (take (nat count) es) (source_role (sq_source_kind q)) = (Some d, Some e)"
    using assms by (auto simp: attest_source_key_standing_def Let_def count_def [symmetric] rbind_eq_Inr split: prod.split_asm option.split_asm)
  moreover from this have "s = new_standing ed self (take (nat count) es) e q" "descriptor_identity d = (sq_key_id q, sq_fingerprint q)" "standing_ok s"
    using assms by (auto simp: attest_source_key_standing_def Let_def count_def [symmetric] rbind_eq_Inr rcheck_eq_Inr)
  ultimately show thesis using c by (intro that [of "nat count"]) auto
qed

section \<open>Accepted standings and chains\<close>

lemma standing_sound:
  assumes "verify_publication_source_key_standing ed dt x authority_hex history s src = Inr v" "sv_valid v"
  shows "\<exists>n k. n \<le> length history \<and> ke_digest (last (take n history)) = ss_history_head s \<and> fst (active_descriptor (take n history) (ss_role s)) = Some k \<and>
    k \<in> set (introduced_keys (take n history)) \<and> possession_proved ed dt history k \<and>
    source_binding src = (ss_source_kind s, ss_source_digest s, ss_principal s, kd_key_id k, kd_fingerprint k) \<and> source_signature_error ed src k = Inr None \<and>
    signature_accepted ed authority_hex (ss_signature s) (standing_payload s) \<and> standing_ok s"
proof -
  from assms obtain k e where c: "standing_record_error ed dt x authority_hex history s = None" "source_binding_error s src = None"
    "active_descriptor (take (nat (ss_event_count s)) history) (ss_role s) = (Some k, Some e)" "descriptor_identity k = (ss_key_id s, ss_fingerprint s)"
    "source_signature_error ed src k = Inr None"
    by (rule standing_checked)
  let ?n = "nat (ss_event_count s)"
  note r = standing_record_checked [OF c(1)]
  have "\<forall>e \<in> set (take ?n history). key_event_ok dt e" using history_events_ok [OF r(1)] by (auto dest: in_set_takeD)
  then have k: "k \<in> set (introduced_keys (take ?n history))" using c(3) by (auto intro: active_introduced [where role = "ss_role s"])
  then have "k \<in> set (introduced_keys history)" using introduced_keys_append [of "take ?n history" "drop ?n history"] by simp
  moreover obtain key where "first_failure (check_key_event ed dt authority_hex key) [] history = None" using r(1) valid_history_checked by blast
  ultimately have "possession_proved ed dt history k" using history_lifecycle by (auto simp: lifecycle_ok_def)
  moreover have "source_binding src = (ss_source_kind s, ss_source_digest s, ss_principal s, kd_key_id k, kd_fingerprint k)"
    using c(2,4) by (auto simp: source_binding_error_def descriptor_identity_def split: prod.split_asm)
  ultimately show ?thesis using r(3-6) c(3,5) k by (intro exI [of _ ?n] exI [of _ k]) simp
qed

lemma chain_loop_accepts:
  assumes "lifecycle_chain_loop check verify seen all_current xs = Inr (Inr current)"
  shows "first_failure check seen (map fst xs) = None \<and>
    (\<forall>(r, s) \<in> set xs. \<exists>v. verify s (Receipt_Source r) = Inr v \<and> sv_valid v \<and> (current \<longrightarrow> sv_currently_authorized v))\<and> (current \<longrightarrow> all_current)"
  using assms
proof (induction xs arbitrary: seen all_current)
  case (Cons x xs)
  obtain r s where x: "x = (r, s)" by (cases x)
  with Cons.prems obtain v where v: "check seen r = None" "verify s (Receipt_Source r) = Inr v" "sv_valid v"
    "lifecycle_chain_loop check verify (seen @ [r]) (all_current \<and> sv_currently_authorized v) xs = Inr (Inr current)"
    by (auto simp: rbind_eq_Inr split: option.split_asm if_split_asm)
  from Cons.IH [OF v(4)] v(1-3) x show ?case by auto
qed simp

lemma lifecycle_chain_checked:
  assumes "verify_publication_lifecycle_chain ed dt x hex registry_id registry_key_id head chain standings history = Inr v" "lv_valid v"
  shows "first_failure (check_chain_receipt (kc_publisher_id x) registry_id registry_key_id) [] chain = None \<and> chain \<noteq> [] \<and> xr_digest (last chain) = head \<and>
    (\<forall>r \<in> set chain. \<exists>s v'. verify_publication_source_key_standing ed dt x hex history s (Receipt_Source r) = Inr v' \<and> sv_valid v' \<and>
      (lv_all_current v \<longrightarrow> sv_currently_authorized v'))"
proof -
  let ?loop = "lifecycle_chain_loop (check_chain_receipt (kc_publisher_id x) registry_id registry_key_id)
    (verify_publication_source_key_standing ed dt x hex history) [] True (zip chain standings)"
  have shape: "chain \<noteq> []" "length chain = length standings" "xr_digest (last chain) = head" "?loop = Inr (Inr (lv_all_current v))"
  proof -
    have a: "chain \<noteq> [] \<and> length chain = length standings"
      using assms by (auto simp: verify_publication_lifecycle_chain_def lifecycle_chain_failure_def simp del: rbind_eq_Inr split: if_split_asm)
    then show "chain \<noteq> []" "length chain = length standings" by simp_all
    with assms(1) obtain outcome where "?loop = Inr outcome" unfolding verify_publication_lifecycle_chain_def by auto
    with assms a show "xr_digest (last chain) = head" "?loop = Inr (Inr (lv_all_current v))"
      by (cases outcome; auto simp: verify_publication_lifecycle_chain_def lifecycle_chain_failure_def split: if_split_asm)+
  qed
  from chain_loop_accepts [OF shape(4)] shape(2)
  have "first_failure (check_chain_receipt (kc_publisher_id x) registry_id registry_key_id) [] chain = None"
    and each: "\<forall>(r, s) \<in> set (zip chain standings). \<exists>v'. verify_publication_source_key_standing ed dt x hex history s (Receipt_Source r) = Inr v' \<and> sv_valid v' \<and>
      (lv_all_current v \<longrightarrow> sv_currently_authorized v')" by simp_all
  moreover have "\<exists>s. (r, s) \<in> set (zip chain standings)" if "r \<in> set chain" for r
    using that shape(2) by (metis in_set_impl_in_set_zip1)
  ultimately show ?thesis using shape(1,3) by fast
qed

lemma receipt_signature_checked:
  "source_signature_error ed (Receipt_Source r) k = Inr None \<Longrightarrow>
    receipt_ok r \<and> xr_digest r = canon_sha256 (publication_payload r) \<and> signature_accepted ed (kd_public_key_hex k) (xr_signature r) (publication_payload r)"
  by (auto simp: external_publication_receipt_signing_payload_def RangerExternalPublicationReceipt_def split: if_split_asm)

lemma lifecycle_receipt_signed:
  assumes "verify_publication_lifecycle_chain ed dt x hex registry_id registry_key_id head chain standings history = Inr v" "lv_valid v" "r \<in> set chain"
  shows "\<exists>n k. fst (active_descriptor (take n history) Publisher_Role) = Some k \<and> k \<in> set (introduced_keys history) \<and> possession_proved ed dt history k \<and>
    xr_publisher_key_id r = kd_key_id k \<and> xr_digest r = canon_sha256 (publication_payload r) \<and>
    signature_accepted ed (kd_public_key_hex k) (xr_signature r) (publication_payload r)"
proof -
  from lifecycle_chain_checked [OF assms(1,2)] assms(3) obtain s v'
    where "verify_publication_source_key_standing ed dt x hex history s (Receipt_Source r) = Inr v'" "sv_valid v'" by blast
  from standing_sound [OF this] obtain n k where k: "fst (active_descriptor (take n history) (ss_role s)) = Some k" "k \<in> set (introduced_keys (take n history))"
    "possession_proved ed dt history k" "source_binding (Receipt_Source r) = (ss_source_kind s, ss_source_digest s, ss_principal s, kd_key_id k, kd_fingerprint k)"
    "source_signature_error ed (Receipt_Source r) k = Inr None" "standing_ok s" by blast
  have "ss_role s = Publisher_Role" using k(4,6) by (auto simp: standing_ok_def)
  moreover have "k \<in> set (introduced_keys history)" using k(2) introduced_keys_append [of "take n history" "drop n history"] by simp
  ultimately show ?thesis using k(1,3,4) receipt_signature_checked [OF k(5)] by (intro exI [of _ n] exI [of _ k]) simp
qed

lemma lifecycle_chain_linked:
  assumes "verify_publication_lifecycle_chain ed dt x hex registry_id registry_key_id head chain standings history = Inr v" "lv_valid v"
  shows "linked receipt_ok xr_sequence xr_previous xr_digest publication_payload 1 zero_digest chain"
proof -
  have "xr_digest r = canon_sha256 (publication_payload r)" if "r \<in> set chain" for r using lifecycle_receipt_signed [OF assms that] by blast
  then show ?thesis
    using lifecycle_chain_checked [OF assms] by (auto simp: first_failure_None linked_iff check_chain_receipt_def min_absorb2)
qed

lemma attested_valid:
  assumes ed: "ed25519_keys_ok ed" and self: "ledger_ok self"
    and valid: "hv_valid (verify_history ed dt (es @ fs) (authority_public_key_hex ed self))"
    and config: "configured_history_error (kl_configuration self) (authority_fingerprint ed self) (es @ fs) = None"
    and attest: "attest_source_key_standing ed dt self es q = Inr s"
    and source: "source_binding src = (sq_source_kind q, sq_source_digest q, sq_principal q, sq_key_id q, sq_fingerprint q)"
    and signed: "\<And>d. descriptor_identity d = (sq_key_id q, sq_fingerprint q) \<Longrightarrow> d \<in> set (introduced_keys es) \<Longrightarrow> source_signature_error ed src d = Inr None"
  shows "\<exists>v. verify_publication_source_key_standing ed dt (kl_configuration self) (authority_public_key_hex ed self) (es @ fs) s src = Inr v \<and> sv_valid v \<and>
    (sv_currently_authorized v \<longleftrightarrow>
      (\<exists>d. fst (active_descriptor (es @ fs) (source_role (sq_source_kind q))) = Some d \<and> descriptor_identity d = (sq_key_id q, sq_fingerprint q)))"
proof -
  from attest obtain n d e where n: "1 \<le> n" "n \<le> length es" and s: "s = new_standing ed self (take n es) e q" "standing_ok s"
    and active: "active_descriptor (take n es) (source_role (sq_source_kind q)) = (Some d, Some e)" and d: "descriptor_identity d = (sq_key_id q, sq_fingerprint q)"
    by (rule attested)
  have count: "nat (ss_event_count s) = n" "take n (es @ fs) = take n es" using n by (simp_all add: s(1) new_standing_fields)
  have sig: "signing_key_ok ed (kl_private_key self)" using signing_keys [OF ed] self by (simp add: ledger_ok_def)
  have checked: "standing_record_error ed dt (kl_configuration self) (authority_public_key_hex ed self) (es @ fs) s = None"
    using valid config n s(2) signature_of_key [OF sig]
    by (auto simp: standing_record_error_def Let_def ledger_key [OF ed self] authority_fingerprint_def [symmetric] count)
      (auto simp: s(1) new_standing_fields authority_public_key_hex_def)
  have binding: "source_binding_error s src = None" using source by (simp add: source_binding_error_def s(1) new_standing_fields)
  have "\<forall>e \<in> set (take n es). key_event_ok dt e" using history_events_ok [OF valid] by (auto dest: in_set_takeD)
  then have "d \<in> set (introduced_keys (take n es))" using active by (auto intro: active_introduced [where role = "source_role (sq_source_kind q)"])
  then have "d \<in> set (introduced_keys es)" using introduced_keys_append [of "take n es" "drop n es"] by simp
  with d have "source_signature_error ed src d = Inr None" by (intro signed)
  then show ?thesis
    using checked binding active d count
    by (auto simp: verify_publication_source_key_standing_def Let_def s(1) new_standing_fields first_some.simps split: option.split)
qed

section \<open>Properties\<close>

text \<open>
  What the authority attests, verifies: when a ledger attests the key of a receipt or an audit at a prefix of its events, and
  the source carries a valid signature of the key that was active there, the standing verifies against every later
  history of the ledger, and it reports the key as currently authorized exactly as long as it is the active key of its role.
\<close>

theorem attested_standing_verifies:
  assumes ed: "ed25519_keys_ok ed" and self: "ledger_ok self"
    and valid: "hv_valid (verify_history ed dt (es @ fs) (authority_public_key_hex ed self))"
    and config: "configured_history_error (kl_configuration self) (authority_fingerprint ed self) (es @ fs) = None"
    and attest: "attest_source_key_standing ed dt self es q = Inr s"
    and source: "source_binding src = (sq_source_kind q, sq_source_digest q, sq_principal q, sq_key_id q, sq_fingerprint q)"
    and signed: "\<And>d. descriptor_identity d = (sq_key_id q, sq_fingerprint q) \<Longrightarrow> d \<in> set (introduced_keys es) \<Longrightarrow> source_signature_error ed src d = Inr None"
  shows "\<exists>v. verify_publication_source_key_standing ed dt (kl_configuration self) (authority_public_key_hex ed self) (es @ fs) s src = Inr v \<and> sv_valid v \<and>
    (sv_currently_authorized v \<longleftrightarrow>
      (\<exists>d. fst (active_descriptor (es @ fs) (source_role (sq_source_kind q))) = Some d \<and> descriptor_identity d = (sq_key_id q, sq_fingerprint q)))"
  using assms by (rule attested_valid)



text \<open>
  C28. A chain accepted under changing keys is signed throughout: each of its receipts carries the digest and a valid signature of its
  content under a key that was the active publisher key at some point of the authority's history, was brought into that history with a proof of
  possession, and is the key the receipt names.
\<close>

theorem lifecycle_chain_signed:
  assumes "verify_publication_lifecycle_chain ed dt x hex registry_id registry_key_id head chain standings history = Inr v" "lv_valid v"
  shows "\<forall>r \<in> set chain. \<exists>n k. fst (active_descriptor (take n history) Publisher_Role) = Some k \<and> k \<in> set (introduced_keys history) \<and>
    possession_proved ed dt history k \<and> xr_publisher_key_id r = kd_key_id k \<and> xr_digest r = canon_sha256 (publication_payload r) \<and>
    signature_accepted ed (kd_public_key_hex k) (xr_signature r) (publication_payload r)"
  using lifecycle_receipt_signed [OF assms] by blast

text \<open>
  The head binds a chain under changing keys: two chains accepted against the same expected head, whatever standings, histories and
  configurations they come with, hold the same receipts, field by field of what is signed, or exhibit a SHA-256 collision among the payloads.
\<close>

theorem lifecycle_head_binds_chain:
  assumes "verify_publication_lifecycle_chain ed dt x hex registry_id registry_key_id head chain standings history = Inr v" "lv_valid v"
    and "verify_publication_lifecycle_chain ed dt x' hex' registry_id' registry_key_id' head chain' standings' history' = Inr v'" "lv_valid v'"
  shows "map receipt_content chain = map receipt_content chain' \<or> collides (payload_inputs publication_payload chain) (payload_inputs publication_payload chain')"
  using lifecycle_chain_checked [OF assms(1,2)] lifecycle_chain_checked [OF assms(3,4)]
  by (intro publication.chain_binding [OF lifecycle_chain_linked [OF assms(1,2)] lifecycle_chain_linked [OF assms(3,4)]]) simp_all

section \<open>A concrete standing\<close>

text \<open>The key of the example publisher, attested after its enrollment.\<close>

definition demo_standing_request :: standing_request where
  "demo_standing_request = \<lparr> sq_standing_id = ''s-1'', sq_source_kind = External_Publication_Receipt, sq_source_digest = xr_digest demo_receipt,
     sq_principal = ''publisher'', sq_key_id = ''pk-1'', sq_fingerprint = key_fingerprint (demo_key 1), sq_event_count = None \<rparr>"

definition demo_standing :: key_standing where
  "demo_standing = new_standing demo_ed25519 demo_ledger [demo_event] demo_event demo_standing_request"

lemma demo_active: "active_descriptor [demo_event] Publisher_Role = (Some demo_descriptor, Some demo_event)"
  by (simp add: active_descriptor_def Let_def demo_event_request demo_binding_def demo_intent_def)

lemma demo_scope: "starts_with ''ets-ranger-publication:'' ''ets-ranger-publication:demo''"
  by code_simp

lemma demo_receipt_digest: "xr_digest demo_receipt = canon_sha256 (publication_payload demo_receipt)"
  by (simp add: demo_receipt_def new_receipt_def Let_def publication_payload_def)

lemma demo_standing_ok: "standing_ok demo_standing"
proof -
  have "sha256_text (ke_digest demo_event)" "sha256_text (xr_digest demo_receipt)"
    by (simp_all add: demo_event_def new_key_event_fields demo_receipt_digest)
  then show ?thesis
    using demo_scope
    by (simp add: standing_ok_def demo_standing_def new_standing_fields demo_event_request int64_positive_def publication_scope_ok_def
        authority_fingerprint_def key_fingerprint_def)
      (simp add: demo_standing_request_def demo_ledger_def demo_configuration_def field_length_def key_fingerprint_def)
qed

lemma demo_attested: "attest_source_key_standing demo_ed25519 isoformat_z demo_ledger [demo_event] demo_standing_request = Inr demo_standing"
proof -
  have "sha256_text (xr_digest demo_receipt)" by (simp add: demo_receipt_digest)
  moreover have "ki_request_id (ke_intent demo_event) = ''q-1''" by (simp add: demo_event_request demo_binding_def demo_intent_def)
  ultimately show ?thesis
    using demo_history_valid demo_standing_ok demo_active
    by (simp add: attest_source_key_standing_def demo_standing_request_def Let_def field_length_def key_fingerprint_def)
      (simp add: demo_ledger_def demo_configuration_def descriptor_identity_def demo_descriptor_def demo_standing_def demo_standing_request_def key_fingerprint_def)
qed

lemma demo_configured: "configured_history_error (kl_configuration demo_ledger) (authority_fingerprint demo_ed25519 demo_ledger) [demo_event] = None"
  using prepared_extends [OF demo_keys_ok demo_ledger_ok history_good_Nil demo_prepared] history_good_iff [OF demo_keys_ok demo_ledger_ok] by simp

lemma demo_source: "source_binding (Receipt_Source demo_receipt) =
    (sq_source_kind demo_standing_request, sq_source_digest demo_standing_request, sq_principal demo_standing_request, sq_key_id demo_standing_request,
     sq_fingerprint demo_standing_request)"
  by (simp add: demo_standing_request_def) (simp add: demo_receipt_def new_receipt_def Let_def demo_publisher_def)

lemma demo_source_signed: "d \<in> set (introduced_keys [demo_event]) \<Longrightarrow> source_signature_error demo_ed25519 (Receipt_Source demo_receipt) d = Inr None"
proof -
  assume "d \<in> set (introduced_keys [demo_event])"
  then have "d = demo_descriptor" by (simp add: demo_introduced)
  moreover have "xr_signature demo_receipt = sign_hex demo_ed25519 (demo_key 1) (publication_payload demo_receipt)"
    by (simp add: demo_receipt_def new_receipt_def Let_def demo_publisher_def publication_payload_def)
  ultimately show ?thesis
    using demo_receipt_ok demo_receipt_digest signature_of_key [OF demo_key_ok, of 1 "publication_payload demo_receipt"]
    by (simp add: external_publication_receipt_signing_payload_def RangerExternalPublicationReceipt_def demo_descriptor_def)
qed

theorem attested_standing_verifies_witness:
  "\<exists>v. verify_publication_source_key_standing demo_ed25519 isoformat_z demo_configuration (authority_public_key_hex demo_ed25519 demo_ledger) [demo_event]
      demo_standing (Receipt_Source demo_receipt) = Inr v \<and> sv_valid v \<and> sv_currently_authorized v"
proof -
  have "descriptor_identity demo_descriptor = (sq_key_id demo_standing_request, sq_fingerprint demo_standing_request)"
    by (simp add: descriptor_identity_def demo_descriptor_def demo_standing_request_def)
  moreover have "source_role (sq_source_kind demo_standing_request) = Publisher_Role" "kl_configuration demo_ledger = demo_configuration"
    by (simp_all add: demo_standing_request_def demo_ledger_def)
  ultimately show ?thesis
    using attested_standing_verifies [OF demo_keys_ok demo_ledger_ok, of isoformat_z "[demo_event]" "[]" demo_standing_request demo_standing "Receipt_Source demo_receipt"]
      demo_history_valid demo_configured demo_attested demo_source demo_source_signed demo_active by simp
qed

lemma demo_standing_valid:
  obtains v where "verify_publication_source_key_standing demo_ed25519 isoformat_z demo_configuration (authority_public_key_hex demo_ed25519 demo_ledger)
    [demo_event] demo_standing (Receipt_Source demo_receipt) = Inr v" "sv_valid v"
proof -
  have "hv_valid (verify_history demo_ed25519 isoformat_z ([demo_event] @ []) (authority_public_key_hex demo_ed25519 demo_ledger))"
    "configured_history_error (kl_configuration demo_ledger) (authority_fingerprint demo_ed25519 demo_ledger) ([demo_event] @ []) = None"
    using demo_history_valid demo_configured by simp_all
  from attested_valid [OF demo_keys_ok demo_ledger_ok this demo_attested demo_source demo_source_signed] show thesis
    using that by (auto simp: demo_ledger_def)
qed



lemma demo_lifecycle_chain:
  obtains v where "verify_publication_lifecycle_chain demo_ed25519 isoformat_z demo_configuration (authority_public_key_hex demo_ed25519 demo_ledger) ''registry'' ''rk-1''
    (xr_digest demo_receipt) [demo_receipt] [demo_standing] [demo_event] = Inr v" "lv_valid v"
proof -
  obtain v where v: "verify_publication_source_key_standing demo_ed25519 isoformat_z demo_configuration (authority_public_key_hex demo_ed25519 demo_ledger)
    [demo_event] demo_standing (Receipt_Source demo_receipt) = Inr v" "sv_valid v" by (rule demo_standing_valid)
  have "ss_source_kind demo_standing = External_Publication_Receipt" by (simp add: demo_standing_def new_standing_fields demo_standing_request_def)
  with standing_checked [OF v] have "sv_source_kind v = Some External_Publication_Receipt" by metis
  moreover have "xr_sequence demo_receipt = 1" "xr_previous demo_receipt = zero_digest" "xr_publisher_id demo_receipt = ''publisher''"
    "xr_registry_id demo_receipt = ''registry''" "xr_registry_key_id demo_receipt = ''rk-1''"
    by (simp_all add: demo_receipt_def new_receipt_def Let_def demo_publisher_def demo_request_def expected_previous_def latest_publication_digest_def)
  then have "check_chain_receipt (kc_publisher_id demo_configuration) ''registry'' ''rk-1'' [] demo_receipt = None"
    using demo_receipt_ok by (simp add: check_chain_receipt_def expected_previous_def demo_configuration_def)
  ultimately show thesis using v that by (simp add: verify_publication_lifecycle_chain_def)
qed

theorem lifecycle_chain_signed_witness:
  "\<exists>n k. fst (active_descriptor (take n [demo_event]) Publisher_Role) = Some k \<and>
    possession_proved demo_ed25519 isoformat_z [demo_event] k \<and> xr_publisher_key_id demo_receipt = kd_key_id k"
proof -
  obtain v where "verify_publication_lifecycle_chain demo_ed25519 isoformat_z demo_configuration (authority_public_key_hex demo_ed25519 demo_ledger) ''registry'' ''rk-1''
    (xr_digest demo_receipt) [demo_receipt] [demo_standing] [demo_event] = Inr v" "lv_valid v" by (rule demo_lifecycle_chain)
  from lifecycle_chain_signed [OF this] show ?thesis by auto
qed

theorem lifecycle_head_binds_chain_witness:
  "map receipt_content [demo_receipt] = map receipt_content [demo_receipt] \<or>
    collides (payload_inputs publication_payload [demo_receipt]) (payload_inputs publication_payload [demo_receipt])"
proof -
  obtain v where v: "verify_publication_lifecycle_chain demo_ed25519 isoformat_z demo_configuration (authority_public_key_hex demo_ed25519 demo_ledger) ''registry'' ''rk-1''
    (xr_digest demo_receipt) [demo_receipt] [demo_standing] [demo_event] = Inr v" "lv_valid v" by (rule demo_lifecycle_chain)
  show ?thesis by (rule lifecycle_head_binds_chain [OF v v])
qed

end
