(* ===== verification/Ets_Artifacts.thy ===== *)
theory Ets_Artifacts
  imports Ets_Log
begin

text \<open>
  Artifact records (\<^verbatim>\<open>ets/core/artifacts.py\<close>) and the registry rebuilt from the event log
  (\<^verbatim>\<open>ets/core/artifact_registry.py\<close>).

  An artifact is registered by an event of type \<^verbatim>\<open>evidence.registered\<close> that carries its hash and describes it in the metadata; the
  raw bytes are not kept. The registry is a dictionary from artifact identifiers to records.
\<close>

section \<open>Artifact records\<close>

record artifact_record =
  af_artifact_id :: string
  af_artifact_hash :: string
  af_reference_uri :: string
  af_content_type :: string
  af_byte_size :: int
  af_metadata :: "(string \<times> json) list"
  af_timestamp :: utc
  af_event_id :: string
  af_log_index :: int

text \<open>
  \<^verbatim>\<open>base64.b64decode(..., validate=True)\<close>, as the strict mode of \<^verbatim>\<open>binascii.a2b_base64\<close> reads the text from left to right: the place in the
  group of four, the bits left over, whether padding has started, and the padding characters since the last data character.
\<close>

definition b64_alphabet :: string where
  "b64_alphabet = ''ABCDEFGHIJKLMNOPQRSTUVWXYZabcdefghijklmnopqrstuvwxyz0123456789+/''"

definition b64_value :: "char \<Rightarrow> nat option" where
  "b64_value c = map_of (zip b64_alphabet [0..<64]) c"

fun a2b_base64 :: "nat \<Rightarrow> nat \<Rightarrow> bool \<Rightarrow> nat \<Rightarrow> string \<Rightarrow> byte list option" where
  "a2b_base64 place left padding pads [] = (if place = 0 then Some [] else None)"
| "a2b_base64 place left padding pads (c # s) =
     (if c = CHR ''='' then
        (if place < 2 then a2b_base64 place left True pads s
         else if 4 \<le> place + (pads + 1) then (if s = [] then Some [] else None)
         else a2b_base64 place left True (pads + 1) s)
      else case b64_value c of
        None \<Rightarrow> None
      | Some v \<Rightarrow>
          if padding then None
          else if place = 0 then a2b_base64 1 v False 0 s
          else if place = 1 then map_option ((#) (of_nat (left * 4 + v div 16))) (a2b_base64 2 (v mod 16) False 0 s)
          else if place = 2 then map_option ((#) (of_nat (left * 16 + v div 4))) (a2b_base64 3 (v mod 4) False 0 s)
          else map_option ((#) (of_nat (left * 64 + v))) (a2b_base64 0 0 False 0 s))"

definition b64decode :: "string \<Rightarrow> byte list option" where
  "b64decode s = (if take 1 s = ''='' then None else a2b_base64 0 0 False 0 s)"

definition decode_artifact_base64 :: "string \<Rightarrow> byte list result" where
  "decode_artifact_base64 artifact_base64 =
     rget (ValueError ''artifact_base64 must be valid base64'')
       (if list_all (\<lambda>c. code c < 128) artifact_base64 then b64decode artifact_base64 else None)"

definition hash_artifact_bytes :: "byte list \<Rightarrow> string" where
  "hash_artifact_bytes content = sha256_hex content"

text \<open>The metadata are returned in the form the later dumps give them.\<close>

definition normalize_artifact_metadata :: "(string \<times> pyval) list \<Rightarrow> (string \<times> json) list result" where
  "normalize_artifact_metadata metadata =
     rbind (canonicalize (PyDict (map (\<lambda>(k, v). (PyStr k, v)) metadata))) (\<lambda>_.
     rmap (\<lambda>(k, v). rbind (normalize_json_value v) (\<lambda>j. Inr (k, j))) metadata)"

definition build_artifact_event_id :: "string \<Rightarrow> string result" where
  "build_artifact_event_id artifact_id =
     rbind (rcheck (artifact_id \<noteq> []) (ValueError ''artifact_id is required'')) (\<lambda>_. Inr (''artifact_registered:'' @ artifact_id))"

definition build_artifact_reference_uri :: "string \<Rightarrow> string result" where
  "build_artifact_reference_uri artifact_id =
     rbind (rcheck (artifact_id \<noteq> []) (ValueError ''artifact_id is required'')) (\<lambda>_. Inr (''ets://artifact/'' @ artifact_id))"

definition create_artifact_record ::
  "string \<Rightarrow> string \<Rightarrow> string \<Rightarrow> string \<Rightarrow> int \<Rightarrow> (string \<times> pyval) list \<Rightarrow> datetime \<Rightarrow> string \<Rightarrow> int \<Rightarrow> artifact_record result" where
  "create_artifact_record artifact_id artifact_hash reference_uri content_type byte_size metadata ingestion_timestamp event_id log_index =
     rbind (rcheck (0 \<le> byte_size) (ValueError ''byte_size must be non-negative'')) (\<lambda>_.
     rbind (utc_or_raise (ValueError ''ingestion_timestamp_utc must be timezone-aware'') ingestion_timestamp) (\<lambda>timestamp.
     rbind (fromhex artifact_hash) (\<lambda>_.
     rbind (rcheck (length artifact_hash = 64) (ValueError ''artifact_hash must be a SHA-256 hex digest'')) (\<lambda>_.
     rbind (normalize_artifact_metadata metadata) (\<lambda>normalized.
     Inr \<lparr> af_artifact_id = artifact_id, af_artifact_hash = artifact_hash, af_reference_uri = reference_uri, af_content_type = content_type,
       af_byte_size = byte_size, af_metadata = normalized, af_timestamp = timestamp, af_event_id = event_id, af_log_index = log_index \<rparr>)))))"

section \<open>The registry of a log\<close>

text \<open>\<^verbatim>\<open>isinstance(value, str)\<close> and its like; a \<^verbatim>\<open>bool\<close> is an \<^verbatim>\<open>int\<close>.\<close>

definition json_as_str :: "json option \<Rightarrow> string option" where
  "json_as_str v = (case v of Some (JStr s) \<Rightarrow> Some s | _ \<Rightarrow> None)"

definition json_as_int :: "json option \<Rightarrow> int option" where
  "json_as_int v = (case v of Some (JInt i) \<Rightarrow> Some i | Some (JBool b) \<Rightarrow> Some (of_bool b) | _ \<Rightarrow> None)"

definition nonempty :: "string option \<Rightarrow> string option" where
  "nonempty s = (case s of Some [] \<Rightarrow> None | _ \<Rightarrow> s)"

text \<open>The reference of an event: its external reference, else its subject, else the local one; empty texts count as missing.\<close>

definition raw_reference :: "evidence_event \<Rightarrow> string option result" where
  "raw_reference event =
     (case ev_external_refs event of None \<Rightarrow> Inr None
      | Some refs \<Rightarrow> (case map_of refs ''reference_uri'' of
          None \<Rightarrow> Inr None | Some JNull \<Rightarrow> Inr None | Some (JStr s) \<Rightarrow> Inr (Some s)
        | _ \<Rightarrow> Inl (ArtifactRegistryError ''artifact registration event has invalid reference_uri'')))"

definition reference_or_default :: "string option \<Rightarrow> string option \<Rightarrow> string \<Rightarrow> string" where
  "reference_or_default reference_uri subject_ref artifact_id =
     (case nonempty reference_uri of Some s \<Rightarrow> s | None \<Rightarrow>
       (case nonempty subject_ref of Some s \<Rightarrow> s | None \<Rightarrow> ''ets://artifact/'' @ artifact_id))"

definition registration_type :: string where
  "registration_type = ''evidence.registered''"

definition describes_artifact :: "evidence_event \<Rightarrow> bool" where
  "describes_artifact event \<longleftrightarrow> ev_event_type event = registration_type \<and>
     \<not> (map_of (ev_metadata event) ''artifact_id'' \<in> {None, Some JNull} \<and> \<not> starts_with ''artifact_registered:'' (ev_event_id event))"

definition artifact_record_from_log_entry :: "log_entry \<Rightarrow> artifact_record option result" where
  "artifact_record_from_log_entry entry =
     (let event = le_event entry; metadata = map_of (ev_metadata event);
          artifact_id = json_as_str (metadata ''artifact_id''); content_type = json_as_str (metadata ''content_type'');
          byte_size = json_as_int (metadata ''byte_size'');
          described = (case metadata ''metadata'' of None \<Rightarrow> Some [] | Some (JObj kvs) \<Rightarrow> Some kvs | _ \<Rightarrow> None) in
      if \<not> describes_artifact event then Inr None
      else rbind (rget (ArtifactRegistryError ''artifact registration event is missing artifact_id'') (nonempty artifact_id)) (\<lambda>i.
      rbind (build_artifact_event_id i) (\<lambda>event_id.
      rbind (rcheck (ev_event_id event = event_id) (ArtifactRegistryError ''artifact registration event_id does not match artifact_id'')) (\<lambda>_.
      rbind (rget (ArtifactRegistryError ''artifact registration event is missing content_type'') (nonempty content_type)) (\<lambda>ct.
      rbind (rget (ArtifactRegistryError ''artifact registration event has invalid byte_size'')
        (case byte_size of Some n \<Rightarrow> if n < 0 then None else Some n | None \<Rightarrow> None)) (\<lambda>n.
      rbind (rget (ArtifactRegistryError ''artifact registration event has invalid metadata'') described) (\<lambda>md.
      rbind (raw_reference event) (\<lambda>reference_uri.
      rbind (create_artifact_record i (ev_content_hash event) (reference_or_default reference_uri (ev_subject_ref event) i) ct n
        (map (\<lambda>(k, v). (k, py_of_json v)) md) (Aware (ev_created_at_utc event) 0) (ev_event_id event) (le_log_index entry)) (\<lambda>record'.
      Inr (Some record'))))))))))"

definition add_record :: "(string \<rightharpoonup> artifact_record) \<Rightarrow> log_entry \<Rightarrow> (string \<rightharpoonup> artifact_record) result" where
  "add_record records entry =
     rbind (artifact_record_from_log_entry entry) (\<lambda>found.
     case found of
       None \<Rightarrow> Inr records
     | Some r \<Rightarrow>
         if records (af_artifact_id r) \<noteq> None
         then Inl (ArtifactRegistryError (''duplicate artifact_id in event log: '' @ af_artifact_id r))
         else Inr (records(af_artifact_id r \<mapsto> r)))"

definition load_artifact_registry :: "log_entry list \<Rightarrow> (string \<rightharpoonup> artifact_record) result" where
  "load_artifact_registry entries = rfold add_record Map.empty entries"

section \<open>Loading\<close>

lemma rfold_append: "rfold f s (xs @ ys) = rbind (rfold f s xs) (\<lambda>s'. rfold f s' ys)"
  by (induction xs arbitrary: s) (auto simp: rbind_def split: sum.split)

lemma load_snoc: "load_artifact_registry (entries @ [e]) = rbind (load_artifact_registry entries) (\<lambda>records. add_record records e)"
  by (simp add: load_artifact_registry_def rfold_append rbind_def split: sum.split)

lemma load_fails:
  assumes "e \<in> set entries" "artifact_record_from_log_entry e = Inl x"
  shows "\<exists>y. load_artifact_registry entries = Inl y"
proof -
  have "\<exists>y. rfold add_record records entries = Inl y" for records
    using assms
  proof (induction entries arbitrary: records)
    case (Cons d entries)
    show ?case
    proof (cases "add_record records d")
      case (Inr records')
      then have "d \<noteq> e" using Cons.prems by (auto simp: add_record_def)
      with Cons Inr show ?thesis by auto
    qed simp
  qed simp
  then show ?thesis by (simp add: load_artifact_registry_def)
qed

text \<open>The records of a history, in the order of the log: what a registry that loads consists of.\<close>

definition records_of :: "log_entry list \<Rightarrow> artifact_record list" where
  "records_of entries = concat (map (\<lambda>e. case artifact_record_from_log_entry e of Inr (Some r) \<Rightarrow> [r] | _ \<Rightarrow> []) entries)"

lemma records_of_snoc: "records_of (entries @ [e]) = records_of entries @ (case artifact_record_from_log_entry e of Inr (Some r) \<Rightarrow> [r] | _ \<Rightarrow> [])"
  by (simp add: records_of_def)

lemma map_of_snoc: "k \<notin> fst ` set xs \<Longrightarrow> map_of (xs @ [(k, v)]) = (map_of xs)(k \<mapsto> v)"
  by (induction xs) (auto simp: fun_upd_twist)

lemma loaded_records:
  "load_artifact_registry entries = Inr records \<Longrightarrow>
    records = map_of (map (\<lambda>r. (af_artifact_id r, r)) (records_of entries)) \<and> distinct (map af_artifact_id (records_of entries))"
proof (induction entries arbitrary: records rule: rev_induct)
  case Nil
  then show ?case by (simp add: load_artifact_registry_def records_of_def)
next
  case (snoc e entries)
  then obtain before where before: "load_artifact_registry entries = Inr before" "add_record before e = Inr records"
    by (auto simp: load_snoc)
  note IH = snoc.IH [OF before(1)]
  show ?case
  proof (cases "artifact_record_from_log_entry e")
    case (Inr found)
    show ?thesis
    proof (cases found)
      case None
      with Inr before(2) IH show ?thesis by (simp add: add_record_def records_of_snoc)
    next
      case (Some r)
      with Inr before(2) have r: "before (af_artifact_id r) = None" "records = before(af_artifact_id r \<mapsto> r)"
        by (auto simp: add_record_def split: if_split_asm)
      then have fresh: "af_artifact_id r \<notin> af_artifact_id ` set (records_of entries)" using IH by (auto simp: map_of_eq_None_iff image_image)
      then have "map_of (map (\<lambda>r. (af_artifact_id r, r)) (records_of entries @ [r])) =
          (map_of (map (\<lambda>r. (af_artifact_id r, r)) (records_of entries)))(af_artifact_id r \<mapsto> r)"
        using map_of_snoc [of "af_artifact_id r" "map (\<lambda>r. (af_artifact_id r, r)) (records_of entries)" r] by (simp add: image_image)
      with r IH fresh Inr Some show ?thesis by (simp add: records_of_snoc)
    qed
  qed (use before(2) in \<open>simp add: add_record_def\<close>)
qed

lemma rebuilt_fields:
  assumes "artifact_record_from_log_entry e = Inr (Some r)"
  shows "af_artifact_id r \<noteq> []" "ev_event_id (le_event e) = ''artifact_registered:'' @ af_artifact_id r" "af_event_id r = ev_event_id (le_event e)"
    "af_artifact_hash r = ev_content_hash (le_event e)" "af_log_index r = le_log_index e" "af_timestamp r = ev_created_at_utc (le_event e)" "0 \<le> af_byte_size r"
  using assms
  by (auto simp: artifact_record_from_log_entry_def Let_def create_artifact_record_def build_artifact_event_id_def rget_def
      split: if_split_asm option.split_asm)

end
