(* ===== verification/Ets_Artifact_Api.thy ===== *)
theory Ets_Artifact_Api
  imports Ets_Artifacts Ets_Linked
begin

text \<open>
  The artifact endpoints of the API (\<^verbatim>\<open>register_artifact\<close>, \<^verbatim>\<open>append_event\<close>, \<^verbatim>\<open>verify_artifact\<close> and the start of \<^verbatim>\<open>create_app\<close> in
  \<^verbatim>\<open>ets/api/app.py\<close>) over any event store.

  A store is a record of its operations; \<open>so_save\<close> does nothing where the provider does not persist artifact records. The scope is
  the one derived from the authenticated request; times are parameters, first of the request, then of the store. The counters
  behind the metrics endpoint and the audit lines are left out: nothing but that endpoint reads them. The
  contract a store must meet is the locale \<open>artifact_store\<close>.
\<close>

section \<open>State\<close>

record 's store_ops =
  so_append :: "utc \<Rightarrow> 's \<Rightarrow> evidence_event \<Rightarrow> (log_entry \<times> 's) result"
  so_by_index :: "'s \<Rightarrow> int \<Rightarrow> log_entry result"
  so_by_id :: "'s \<Rightarrow> string \<Rightarrow> log_entry result"
  so_list :: "'s \<Rightarrow> log_entry list result"
  so_save :: "artifact_record \<Rightarrow> ('s, unit) action"

record 's artifact_app =
  aa_log :: 's
  aa_records :: "string \<rightharpoonup> artifact_record"

record tenant_scope =
  ts_tenant :: "string option"
  ts_workspace :: "string option"

definition create_app :: "'s store_ops \<Rightarrow> 's \<Rightarrow> 's artifact_app result" where
  "create_app ops event_log =
     rbind (so_list ops event_log) (\<lambda>entries.
     rbind (load_artifact_registry entries) (\<lambda>records.
     Inr \<lparr> aa_log = event_log, aa_records = records \<rparr>))"

definition app_append :: "'s store_ops \<Rightarrow> utc \<Rightarrow> evidence_event \<Rightarrow> ('s artifact_app, log_entry) action" where
  "app_append ops now event app =
     (case so_append ops now (aa_log app) event of
        Inl e \<Rightarrow> (Inl e, app)
      | Inr (entry, event_log) \<Rightarrow> (Inr entry, app \<lparr> aa_log := event_log \<rparr>))"

text \<open>\<^verbatim>\<open>DurableArtifactRegistry.__setitem__\<close>: the store first, then the dictionary.\<close>

definition registry_setitem :: "'s store_ops \<Rightarrow> string \<Rightarrow> artifact_record \<Rightarrow> ('s artifact_app, unit) action" where
  "registry_setitem ops artifact_id r app =
     (case so_save ops r (aa_log app) of
        (Inl e, event_log) \<Rightarrow> (Inl e, app \<lparr> aa_log := event_log \<rparr>)
      | (Inr _, event_log) \<Rightarrow> (Inr (), app \<lparr> aa_log := event_log, aa_records := (aa_records app)(artifact_id \<mapsto> r) \<rparr>))"

definition ensure_event_matches_scope :: "evidence_event \<Rightarrow> tenant_scope \<Rightarrow> unit result" where
  "ensure_event_matches_scope event scope =
     rbind (rcheck (ts_tenant scope \<in> {None, Some (ev_tenant_id event)}) (TenantScopeError ''event tenant does not match request scope'')) (\<lambda>_.
     rcheck (ts_workspace scope \<in> {None, Some (ev_workspace_id event)}) (TenantScopeError ''event workspace does not match request scope''))"

definition entry_matches_scope :: "log_entry \<Rightarrow> tenant_scope \<Rightarrow> bool" where
  "entry_matches_scope entry scope \<longleftrightarrow> ts_tenant scope \<in> {None, Some (ev_tenant_id (le_event entry))} \<and>
     ts_workspace scope \<in> {None, Some (ev_workspace_id (le_event entry))}"

section \<open>Registration\<close>

record registration =
  rg_artifact_id :: string
  rg_base64 :: string
  rg_tenant_id :: string
  rg_workspace_id :: string
  rg_content_type :: string
  rg_metadata :: "(string \<times> pyval) list"
  rg_reference_uri :: "string option"
  rg_source_system :: "string option"
  rg_actor_id :: "string option"
  rg_correlation_id :: "string option"

definition registration_ok :: "registration \<Rightarrow> bool" where
  "registration_ok q \<longleftrightarrow> list_all (field_length 1 128) [rg_artifact_id q, rg_tenant_id q, rg_workspace_id q, rg_content_type q] \<and> rg_base64 q \<noteq> []"

definition registration_reference :: "registration \<Rightarrow> string result" where
  "registration_reference q =
     (case nonempty (rg_reference_uri q) of Some s \<Rightarrow> Inr s | None \<Rightarrow> build_artifact_reference_uri (rg_artifact_id q))"

definition registration_event :: "utc \<Rightarrow> registration \<Rightarrow> byte list \<Rightarrow> evidence_event result" where
  "registration_event created_at q content =
     rbind (build_artifact_event_id (rg_artifact_id q)) (\<lambda>event_id.
     rbind (registration_reference q) (\<lambda>subject_ref.
     EvidenceEvent \<lparr> arg_event_id = event_id, arg_tenant_id = rg_tenant_id q, arg_workspace_id = rg_workspace_id q,
       arg_evidence_id = rg_artifact_id q, arg_event_type = registration_type, arg_subject_ref = Some subject_ref,
       arg_content_hash = hash_artifact_bytes content, arg_content_hash_alg = ''sha256'',
       arg_metadata = [(''artifact_id'', PyStr (rg_artifact_id q)), (''content_type'', PyStr (rg_content_type q)),
         (''byte_size'', PyInt (int (length content))), (''metadata'', PyDict (map (\<lambda>(k, v). (PyStr k, v)) (rg_metadata q)))],
       arg_created_at_utc = Aware created_at 0, arg_schema_version = ''ets.event.v1'', arg_source_system = rg_source_system q,
       arg_actor_id = rg_actor_id q, arg_correlation_id = rg_correlation_id q,
       arg_external_refs = map_option (\<lambda>s. [(''reference_uri'', PyStr s)]) (rg_reference_uri q), arg_redaction_profile = None \<rparr>))"

definition registration_record :: "utc \<Rightarrow> registration \<Rightarrow> byte list \<Rightarrow> log_entry \<Rightarrow> artifact_record result" where
  "registration_record created_at q content entry =
     rbind (registration_reference q) (\<lambda>reference_uri.
     create_artifact_record (rg_artifact_id q) (hash_artifact_bytes content) reference_uri (rg_content_type q) (int (length content)) (rg_metadata q)
       (Aware created_at 0) (ev_event_id (le_event entry)) (le_log_index entry))"

record artifact_receipt =
  at_artifact_id :: string
  at_artifact_hash :: string
  at_event_id :: string
  at_block_number :: int
  at_timestamp :: utc
  at_proof_url :: string

definition receipt_of :: "artifact_record \<Rightarrow> artifact_receipt" where
  "receipt_of r = \<lparr> at_artifact_id = af_artifact_id r, at_artifact_hash = af_artifact_hash r, at_event_id = af_event_id r,
     at_block_number = af_log_index r, at_timestamp = af_timestamp r, at_proof_url = ''/evidence/'' @ af_artifact_id r @ ''/proof'' \<rparr>"

definition register_artifact :: "'s store_ops \<Rightarrow> tenant_scope \<Rightarrow> utc \<Rightarrow> utc \<Rightarrow> registration \<Rightarrow> ('s artifact_app, artifact_receipt) action" where
  "register_artifact ops scope created_at now q =
     abind (acheck (registration_ok q) (ValidationError ''ArtifactRegistrationRequest'')) (\<lambda>_.
     abind (aread (\<lambda>app. rcheck (aa_records app (rg_artifact_id q) = None)
       (DuplicateEventError (''artifact_id already exists: '' @ rg_artifact_id q)))) (\<lambda>_.
     abind (alift (decode_artifact_base64 (rg_base64 q))) (\<lambda>content.
     abind (alift (normalize_artifact_metadata (rg_metadata q))) (\<lambda>_.
     abind (alift (registration_event created_at q content)) (\<lambda>event.
     abind (alift (ensure_event_matches_scope event scope)) (\<lambda>_.
     abind (app_append ops now event) (\<lambda>entry.
     abind (alift (registration_record created_at q content entry)) (\<lambda>r.
     abind (registry_setitem ops (rg_artifact_id q) r) (\<lambda>_.
     alift (Inr (receipt_of r)))))))))))"

section \<open>Other endpoints\<close>

definition max_event_body_bytes :: nat where
  "max_event_body_bytes = 256 * 1024"

definition append_event :: "'s store_ops \<Rightarrow> string \<Rightarrow> tenant_scope \<Rightarrow> utc \<Rightarrow> nat \<Rightarrow> evidence_event_args \<Rightarrow> ('s artifact_app, log_entry) action" where
  "append_event ops redaction_profile scope now body_length a =
     abind (acheck (body_length \<le> max_event_body_bytes) (ValueError ''event JSON body exceeds 256 KB'')) (\<lambda>_.
     abind (alift (EvidenceEvent a)) (\<lambda>submitted.
     abind (alift (apply_redaction_profile submitted redaction_profile)) (\<lambda>event.
     abind (alift (ensure_event_matches_scope event scope)) (\<lambda>_.
     app_append ops now event))))"

definition get_artifact_record :: "'s artifact_app \<Rightarrow> string \<Rightarrow> artifact_record result" where
  "get_artifact_record app artifact_id = rget (EventNotFoundError (''artifact_id not found: '' @ artifact_id)) (aa_records app artifact_id)"

definition get_scoped_artifact_record :: "'s store_ops \<Rightarrow> 's artifact_app \<Rightarrow> string \<Rightarrow> tenant_scope \<Rightarrow> artifact_record result" where
  "get_scoped_artifact_record ops app artifact_id scope =
     rbind (get_artifact_record app artifact_id) (\<lambda>r.
     rbind (so_by_id ops (aa_log app) (af_event_id r)) (\<lambda>entry.
     rbind (rcheck (entry_matches_scope entry scope) (TenantScopeError ''event is outside requested tenant/workspace scope'')) (\<lambda>_.
     Inr r)))"

record artifact_verification =
  ay_valid :: bool
  ay_artifact_id :: string
  ay_artifact_hash :: string
  ay_expected_hash :: string
  ay_reason :: string

definition verify_artifact :: "'s store_ops \<Rightarrow> 's artifact_app \<Rightarrow> tenant_scope \<Rightarrow> string \<Rightarrow> string \<Rightarrow> artifact_verification result" where
  "verify_artifact ops app scope artifact_id artifact_base64 =
     rbind (rcheck (field_length 1 128 artifact_id \<and> artifact_base64 \<noteq> []) (ValidationError ''ArtifactVerificationRequest'')) (\<lambda>_.
     rbind (get_scoped_artifact_record ops app artifact_id scope) (\<lambda>r.
     rbind (decode_artifact_base64 artifact_base64) (\<lambda>content.
     let artifact_hash = hash_artifact_bytes content; valid = (artifact_hash = af_artifact_hash r) in
     Inr \<lparr> ay_valid = valid, ay_artifact_id = artifact_id, ay_artifact_hash = artifact_hash, ay_expected_hash = af_artifact_hash r,
       ay_reason = (if valid then ''ok'' else ''artifact hash does not match registered hash'') \<rparr>)))"

section \<open>Requests\<close>

datatype api_request =
    Register tenant_scope utc utc registration
  | Append tenant_scope utc nat evidence_event_args
  | Restart

fun api_step :: "'s store_ops \<Rightarrow> string \<Rightarrow> api_request \<Rightarrow> 's artifact_app \<Rightarrow> 's artifact_app" where
  "api_step ops profile (Register scope created_at now q) app = snd (register_artifact ops scope created_at now q app)"
| "api_step ops profile (Append scope now n a) app = snd (append_event ops profile scope now n a app)"
| "api_step ops profile Restart app = (case create_app ops (aa_log app) of Inl _ \<Rightarrow> app | Inr app' \<Rightarrow> app')"

definition api_run :: "'s store_ops \<Rightarrow> string \<Rightarrow> api_request list \<Rightarrow> 's artifact_app \<Rightarrow> 's artifact_app" where
  "api_run ops profile requests app = foldl (\<lambda>app r. api_step ops profile r app) app requests"

text \<open>The event a request submits, if it comes that far; it does not depend on the state.\<close>

fun submitted_event :: "string \<Rightarrow> api_request \<Rightarrow> evidence_event option" where
  "submitted_event profile (Register scope created_at now q) =
     (case rbind (decode_artifact_base64 (rg_base64 q)) (registration_event created_at q) of Inl _ \<Rightarrow> None | Inr e \<Rightarrow> Some e)"
| "submitted_event profile (Append scope now n a) =
     (case rbind (EvidenceEvent a) (\<lambda>e. apply_redaction_profile e profile) of Inl _ \<Rightarrow> None | Inr e \<Rightarrow> Some e)"
| "submitted_event profile Restart = None"

definition is_append :: "api_request \<Rightarrow> bool" where
  "is_append r = (case r of Append _ _ _ _ \<Rightarrow> True | _ \<Rightarrow> False)"

text \<open>A request to the general endpoint whose event passes for a registration.\<close>

definition impersonates :: "string \<Rightarrow> api_request \<Rightarrow> bool" where
  "impersonates profile r \<longleftrightarrow> is_append r \<and> (case submitted_event profile r of None \<Rightarrow> False | Some e \<Rightarrow> describes_artifact e)"

section \<open>A registration is rebuilt from its event\<close>

lemma normalize_mapping:
  "normalize_json_value (PyDict (map (\<lambda>(k, v). (PyStr k, v)) kvs)) = Inr j \<longleftrightarrow>
    (\<exists>items. rmap (\<lambda>(k, v). rbind (normalize_json_value v) (\<lambda>j. Inr (k, j))) kvs = Inr items \<and> j = JObj items)"
proof -
  have "rmap (\<lambda>(k, v). rbind (json_key k) (\<lambda>s. rbind (normalize_json_value v) (\<lambda>j. Inr (s, j)))) (map (\<lambda>(k, v). (PyStr k, v)) kvs) =
      rmap (\<lambda>(k, v). rbind (normalize_json_value v) (\<lambda>j. Inr (k, j))) kvs"
    by (induction kvs) (auto simp: json_key_def)
  then show ?thesis by auto
qed

lemma normalized_metadata:
  "rmap (\<lambda>(k, v). rbind (normalize_json_value v) (\<lambda>j. Inr (k, j))) kvs = Inr items \<Longrightarrow> normalize_artifact_metadata kvs = Inr items"
  by (simp add: normalize_artifact_metadata_def canonicalize_mapping)

lemma normalized_again: "normalize_artifact_metadata (map (\<lambda>(k, v). (k, py_of_json v)) items) = Inr items"
proof -
  have "rmap (\<lambda>(k, v). rbind (normalize_json_value v) (\<lambda>j. Inr (k, j))) (map (\<lambda>(k, v). (k, py_of_json v)) items) = Inr items"
    by (induction items) (auto simp: normalize_py_of_json)
  then show ?thesis by (rule normalized_metadata)
qed

lemma constructed_fields:
  assumes "EvidenceEvent a = Inr e"
  shows "rmap (\<lambda>(k, v). rbind (normalize_json_value v) (\<lambda>j. Inr (k, j))) (arg_metadata a) = Inr (ev_metadata e)"
    "arg_external_refs a = None \<Longrightarrow> ev_external_refs e = None"
    "arg_external_refs a = Some refs \<Longrightarrow> \<exists>items. rmap (\<lambda>(k, v). rbind (normalize_json_value v) (\<lambda>j. Inr (k, j))) refs = Inr items \<and> ev_external_refs e = Some items"
    "ev_event_id e = arg_event_id a" "ev_event_type e = arg_event_type a" "ev_subject_ref e = arg_subject_ref a"
    "ev_content_hash e = arg_content_hash a" "utc_or_raise event_invalid (arg_created_at_utc a) = Inr (ev_created_at_utc e)"
    "ev_tenant_id e = arg_tenant_id a" "ev_workspace_id e = arg_workspace_id a" "ev_redaction_profile e = arg_redaction_profile a"
  using assms by (auto simp: EvidenceEvent_def require_json_native_mapping_def require_optional_mapping_def)

text \<open>The metadata of a registration event, and of the record it is rebuilt to.\<close>

definition registration_metadata :: "string \<Rightarrow> string \<Rightarrow> nat \<Rightarrow> (string \<times> json) list \<Rightarrow> (string \<times> json) list" where
  "registration_metadata artifact_id content_type n md =
     [(''artifact_id'', JStr artifact_id), (''content_type'', JStr content_type), (''byte_size'', JInt (int n)), (''metadata'', JObj md)]"

lemma registration_event_fields:
  assumes "registration_event created_at q content = Inr e"
  obtains md where "normalize_artifact_metadata (rg_metadata q) = Inr md"
    "registration_reference q = Inr (the (ev_subject_ref e))" "ev_subject_ref e \<noteq> None"
    "ev_event_id e = ''artifact_registered:'' @ rg_artifact_id q" "rg_artifact_id q \<noteq> []" "ev_event_type e = registration_type"
    "ev_content_hash e = hash_artifact_bytes content" "ev_created_at_utc e = created_at"
    "ev_metadata e = registration_metadata (rg_artifact_id q) (rg_content_type q) (length content) md"
    "ev_external_refs e = map_option (\<lambda>s. [(''reference_uri'', JStr s)]) (rg_reference_uri q)" "ev_redaction_profile e = None"
proof -
  from assms obtain event_id subject_ref a where parts:
    "build_artifact_event_id (rg_artifact_id q) = Inr event_id" "registration_reference q = Inr subject_ref" "EvidenceEvent a = Inr e"
    and a: "arg_event_id a = event_id" "arg_event_type a = registration_type" "arg_subject_ref a = Some subject_ref"
    "arg_content_hash a = hash_artifact_bytes content" "arg_created_at_utc a = Aware created_at 0"
    "arg_metadata a = [(''artifact_id'', PyStr (rg_artifact_id q)), (''content_type'', PyStr (rg_content_type q)),
      (''byte_size'', PyInt (int (length content))), (''metadata'', PyDict (map (\<lambda>(k, v). (PyStr k, v)) (rg_metadata q)))]"
    "arg_external_refs a = map_option (\<lambda>s. [(''reference_uri'', PyStr s)]) (rg_reference_uri q)" "arg_redaction_profile a = None"
    unfolding registration_event_def by fastforce
  note e = constructed_fields [OF parts(3)]
  from e(1) obtain items where items: "rmap (\<lambda>(k, v). rbind (normalize_json_value v) (\<lambda>j. Inr (k, j))) (rg_metadata q) = Inr items"
    "ev_metadata e = registration_metadata (rg_artifact_id q) (rg_content_type q) (length content) items"
    by (auto simp: a(6) normalize_mapping registration_metadata_def simp del: normalize_json_value.simps(7))
  have refs: "ev_external_refs e = map_option (\<lambda>s. [(''reference_uri'', JStr s)]) (rg_reference_uri q)"
    using e(2,3) by (cases "rg_reference_uri q") (simp_all add: a(7))
  show thesis
    by (rule that [of items]) (use parts e(4-8,11) a items refs in \<open>auto simp: normalized_metadata build_artifact_event_id_def utc_or_raise_def\<close>)
qed

text \<open>The identifier of the event leaves 108 of the 128 characters the request allows to an artifact.\<close>

lemma long_artifact_id_refused:
  assumes "108 < length (rg_artifact_id q)"
  shows "\<exists>err. register_artifact ops scope created_at now q app = (Inl err, app)"
proof -
  have "\<exists>err. registration_event created_at q content = Inl err" for content
  proof (cases "registration_event created_at q content")
    case (Inr e)
    then have "event_ok e" by (auto simp: registration_event_def intro: EvidenceEvent_ok)
    moreover have "ev_event_id e = ''artifact_registered:'' @ rg_artifact_id q" using registration_event_fields [OF Inr] by blast
    ultimately show ?thesis using assms by (simp add: event_ok_def field_length_def)
  qed simp
  then show ?thesis
    by (auto simp: register_artifact_def action_simps split: sum.split) (metis sum.simps(4))
qed

text \<open>The record a registration keeps is the one its log entry is read back to.\<close>

lemma registration_rebuilt:
  assumes e: "registration_event created_at q content = Inr e" and ok: "registration_ok q"
    and entry: "le_event entry = e" "le_log_index entry = i"
  obtains r where "registration_record created_at q content entry = Inr r" "artifact_record_from_log_entry entry = Inr (Some r)"
    "af_artifact_id r = rg_artifact_id q"
proof -
  from registration_event_fields [OF e] obtain md where f: "normalize_artifact_metadata (rg_metadata q) = Inr md"
    "registration_reference q = Inr (the (ev_subject_ref e))" "ev_subject_ref e \<noteq> None"
    "ev_event_id e = ''artifact_registered:'' @ rg_artifact_id q" "rg_artifact_id q \<noteq> []" "ev_event_type e = registration_type"
    "ev_content_hash e = hash_artifact_bytes content" "ev_created_at_utc e = created_at"
    "ev_metadata e = registration_metadata (rg_artifact_id q) (rg_content_type q) (length content) md"
    "ev_external_refs e = map_option (\<lambda>s. [(''reference_uri'', JStr s)]) (rg_reference_uri q)" by blast
  obtain subject where subject: "ev_subject_ref e = Some subject" using f(3) by blast
  have content_type: "rg_content_type q \<noteq> []" using ok by (auto simp: registration_ok_def field_length_def)
  have hash: "length (hash_artifact_bytes content) = 64" "\<exists>bs. fromhex (hash_artifact_bytes content) = Inr bs"
    by (simp_all add: hash_artifact_bytes_def)
  define r where "r = \<lparr> af_artifact_id = rg_artifact_id q, af_artifact_hash = hash_artifact_bytes content, af_reference_uri = subject,
    af_content_type = rg_content_type q, af_byte_size = int (length content), af_metadata = md, af_timestamp = created_at,
    af_event_id = ''artifact_registered:'' @ rg_artifact_id q, af_log_index = i \<rparr>"
  have made: "registration_record created_at q content entry = Inr r"
    using f subject hash entry by (auto simp: registration_record_def create_artifact_record_def r_def utc_or_raise_def)
  have reference: "raw_reference e = Inr (rg_reference_uri q)"
    by (cases "rg_reference_uri q") (simp_all add: raw_reference_def f(10))
  have default: "reference_or_default (rg_reference_uri q) (Some subject) (rg_artifact_id q) = subject"
    using f(2,5) by (auto simp: registration_reference_def reference_or_default_def subject nonempty_def build_artifact_reference_uri_def
        split: option.splits list.splits)
  have described: "describes_artifact e"
    by (simp add: describes_artifact_def f(6,9) registration_metadata_def)
  have lookups: "map_of (ev_metadata e) ''artifact_id'' = Some (JStr (rg_artifact_id q))"
    "map_of (ev_metadata e) ''content_type'' = Some (JStr (rg_content_type q))"
    "map_of (ev_metadata e) ''byte_size'' = Some (JInt (int (length content)))" "map_of (ev_metadata e) ''metadata'' = Some (JObj md)"
    by (simp_all add: f(9) registration_metadata_def)
  have kept: "nonempty (json_as_str (Some (JStr (rg_artifact_id q)))) = Some (rg_artifact_id q)"
    "nonempty (json_as_str (Some (JStr (rg_content_type q)))) = Some (rg_content_type q)"
    using f(5) content_type by (auto simp: json_as_str_def nonempty_def split: list.splits)
  have remade: "create_artifact_record (rg_artifact_id q) (ev_content_hash e) subject (rg_content_type q) (int (length content))
      (map (\<lambda>(k, v). (k, py_of_json v)) md) (Aware (ev_created_at_utc e) 0) (ev_event_id e) i = Inr r"
    using hash by (auto simp: create_artifact_record_def normalized_again f(4,7,8) r_def utc_or_raise_def)
  have event_id: "build_artifact_event_id (rg_artifact_id q) = Inr (ev_event_id e)"
    using f(4,5) by (simp add: build_artifact_event_id_def)
  have rebuilt: "artifact_record_from_log_entry entry = Inr (Some r)"
    unfolding artifact_record_from_log_entry_def Let_def entry lookups kept json_as_int_def subject
    using described by (simp add: event_id reference default remade)
  show thesis by (rule that [OF made rebuilt]) (simp add: r_def)
qed

text \<open>The answer of a verification against a registered hash.\<close>

definition verification_of :: "string \<Rightarrow> string \<Rightarrow> byte list \<Rightarrow> artifact_verification" where
  "verification_of artifact_id expected content = \<lparr> ay_valid = (hash_artifact_bytes content = expected), ay_artifact_id = artifact_id,
     ay_artifact_hash = hash_artifact_bytes content, ay_expected_hash = expected,
     ay_reason = (if hash_artifact_bytes content = expected then ''ok'' else ''artifact hash does not match registered hash'') \<rparr>"

section \<open>The contract of a store\<close>

text \<open>
  A store that honours the contract of \<^verbatim>\<open>EventStore\<close> and saves the record of a registration unless it has saved one for the
  artifact. \<open>saved\<close> holds of the identifiers it has saved records of.
\<close>

definition savable :: "artifact_record \<Rightarrow> bool" where
  "savable r \<longleftrightarrow> af_event_id r = ''artifact_registered:'' @ af_artifact_id r \<and> 0 \<le> af_byte_size r"

locale artifact_store =
  fixes dt :: "utc \<Rightarrow> string" and ops :: "'s store_ops" and start :: 's and inv :: "'s \<Rightarrow> bool"
    and admissible :: "evidence_event \<Rightarrow> bool" and history :: "'s \<Rightarrow> evidence_event list" and saved :: "'s \<Rightarrow> string set \<Rightarrow> bool"
  assumes store: "event_store dt (so_append ops now) (so_by_index ops) (so_by_id ops) (so_list ops) start inv admissible history"
    and saved_start: "saved start {}"
    and append_saved: "\<lbrakk>so_append ops now s e = Inr (entry, s'); saved s ids\<rbrakk> \<Longrightarrow> saved s' ids"
    and save_fresh: "\<lbrakk>inv s; saved s ids; savable r; af_artifact_id r \<notin> ids\<rbrakk> \<Longrightarrow>
      \<exists>s'. so_save ops r s = (Inr (), s') \<and> inv s' \<and> history s' = history s \<and> saved s' (insert (af_artifact_id r) ids)"
begin

text \<open>The invariant of the application; \<open>rebuilt\<close> holds of it as long as no other event passes for a registration.\<close>

definition app_inv :: "'s artifact_app \<Rightarrow> bool" where
  "app_inv app \<longleftrightarrow> inv (aa_log app) \<and> saved (aa_log app) (dom (aa_records app))"

definition rebuilt :: "'s artifact_app \<Rightarrow> bool" where
  "rebuilt app \<longleftrightarrow> load_artifact_registry (entries_of dt (history (aa_log app))) = Inr (aa_records app)"

text \<open>What an appended event does to the state, and what a registration does.\<close>

definition appends :: "evidence_event \<Rightarrow> 's artifact_app \<Rightarrow> log_entry \<Rightarrow> 's artifact_app \<Rightarrow> bool" where
  "appends e app entry app' \<longleftrightarrow> entry = entry_for dt (length (history (aa_log app))) e \<and> app_inv app' \<and>
     history (aa_log app') = history (aa_log app) @ [e] \<and> aa_records app' = aa_records app \<and>
     ev_event_id e \<notin> ev_event_id ` set (history (aa_log app))"

lemma app_append_effect:
  assumes "app_inv app" "admissible e"
  shows "atomically app (appends e app) (app_append ops now e app)"
proof (cases "ev_event_id e \<in> ev_event_id ` set (history (aa_log app))")
  case True
  then have "so_append ops now (aa_log app) e = Inl (duplicate_error (ev_event_id e))"
    using event_store.append_duplicate [OF store] assms by (auto simp: app_inv_def)
  then show ?thesis by (simp add: app_append_def atomically_def)
next
  case False
  from event_store.append_fresh [OF store _ assms(2) False, of now] assms(1)
  obtain s' where s': "so_append ops now (aa_log app) e = Inr (entry_for dt (length (history (aa_log app))) e, s')" "inv s'"
    "history s' = history (aa_log app) @ [e]" by (auto simp: app_inv_def)
  then show ?thesis
    using assms(1) append_saved [OF s'(1)] False by (simp add: app_append_def atomically_def appends_def app_inv_def)
qed

definition registers :: "registration \<Rightarrow> utc \<Rightarrow> 's artifact_app \<Rightarrow> artifact_receipt \<Rightarrow> 's artifact_app \<Rightarrow> bool" where
  "registers q created_at app receipt app' \<longleftrightarrow> (\<exists>content e r.
     decode_artifact_base64 (rg_base64 q) = Inr content \<and> registration_event created_at q content = Inr e \<and>
     app_inv app' \<and> history (aa_log app') = history (aa_log app) @ [e] \<and>
     artifact_record_from_log_entry (entry_for dt (length (history (aa_log app))) e) = Inr (Some r) \<and>
     af_artifact_id r = rg_artifact_id q \<and> aa_records app (rg_artifact_id q) = None \<and>
     aa_records app' = (aa_records app)(rg_artifact_id q \<mapsto> r) \<and> receipt = receipt_of r)"

lemma register_from_append:
  assumes inv: "app_inv app" and q: "registration_ok q" "aa_records app (rg_artifact_id q) = None"
    and event: "decode_artifact_base64 (rg_base64 q) = Inr content" "registration_event created_at q content = Inr e"
      "ensure_event_matches_scope e scope = Inr ()"
    and appended: "app_append ops now e app = (Inr entry, app1)" "appends e app entry app1"
  obtains receipt app' where "register_artifact ops scope created_at now q app = (Inr receipt, app')" "registers q created_at app receipt app'"
proof -
  have entry: "entry = entry_for dt (length (history (aa_log app))) e" and app1: "app_inv app1"
    "history (aa_log app1) = history (aa_log app) @ [e]" "aa_records app1 = aa_records app" using appended(2) by (auto simp: appends_def)
  from registration_rebuilt [OF event(2) q(1), of entry] entry obtain r where r: "registration_record created_at q content entry = Inr r"
    "artifact_record_from_log_entry entry = Inr (Some r)" "af_artifact_id r = rg_artifact_id q" by auto
  have "savable r" using rebuilt_fields [OF r(2)] by (simp add: savable_def)
  moreover have "rg_artifact_id q \<notin> dom (aa_records app1)" using q(2) app1(3) by auto
  ultimately obtain s' where s': "so_save ops r (aa_log app1) = (Inr (), s')" "inv s'" "history s' = history (aa_log app1)"
    "saved s' (insert (rg_artifact_id q) (dom (aa_records app1)))"
    using save_fresh [of "aa_log app1" "dom (aa_records app1)" r] app1(1) r(3) by (auto simp: app_inv_def)
  let ?app' = "app1 \<lparr> aa_log := s', aa_records := (aa_records app1)(rg_artifact_id q \<mapsto> r) \<rparr>"
  have set: "registry_setitem ops (rg_artifact_id q) r app1 = (Inr (), ?app')"
    by (simp add: registry_setitem_def s'(1))
  obtain md where "normalize_artifact_metadata (rg_metadata q) = Inr md" using registration_event_fields [OF event(2)] by blast
  then have "register_artifact ops scope created_at now q app = (Inr (receipt_of r), ?app')"
    using q event appended(1) r(1) set by (simp add: register_artifact_def action_simps)
  moreover have "registers q created_at app (receipt_of r) ?app'"
    unfolding registers_def using event s' app1 r entry q by (auto simp: app_inv_def)
  ultimately show thesis using that by blast
qed

lemma register_effect:
  assumes inv: "app_inv app"
    and admissible: "\<forall>e. submitted_event profile (Register scope created_at now q) = Some e \<longrightarrow> admissible e"
  shows "atomically app (\<lambda>receipt app'. registers q created_at app receipt app' \<and>
    (\<exists>content e. decode_artifact_base64 (rg_base64 q) = Inr content \<and> registration_event created_at q content = Inr e \<and>
      ensure_event_matches_scope e scope = Inr ())) (register_artifact ops scope created_at now q app)" (is "atomically app ?goal ?register")
proof (cases "registration_ok q \<and> aa_records app (rg_artifact_id q) = None \<and> (\<exists>content e. decode_artifact_base64 (rg_base64 q) = Inr content \<and>
    registration_event created_at q content = Inr e \<and> ensure_event_matches_scope e scope = Inr ())")
  case True
  then obtain content e where q: "registration_ok q" "aa_records app (rg_artifact_id q) = None" and e: "decode_artifact_base64 (rg_base64 q) = Inr content"
    "registration_event created_at q content = Inr e" "ensure_event_matches_scope e scope = Inr ()" by blast
  obtain md where md: "normalize_artifact_metadata (rg_metadata q) = Inr md" using registration_event_fields [OF e(2)] by blast
  have "admissible e" using admissible e by simp
  from app_append_effect [OF inv this, of now] show ?thesis
  proof (cases rule: atomicallyE)
    case (1 err)
    then have "?register = (Inl err, app)" using q e md by (simp add: register_artifact_def action_simps)
    then show ?thesis by (simp add: atomically_def)
  next
    case (2 entry app1)
    obtain receipt app' where "?register = (Inr receipt, app')" "registers q created_at app receipt app'"
      by (rule register_from_append [OF inv q e 2])
    with e show ?thesis by (auto simp: atomically_def)
  qed
next
  case False
  then have "\<exists>err. ?register = (Inl err, app)"
    by (auto simp: register_artifact_def action_simps split: sum.split)
  then show ?thesis by (auto simp: atomically_def)
qed

lemma register_succeeds:
  assumes inv: "app_inv app" and q: "registration_ok q" "aa_records app (rg_artifact_id q) = None"
    and event: "decode_artifact_base64 (rg_base64 q) = Inr content" "registration_event created_at q content = Inr e"
      "ensure_event_matches_scope e scope = Inr ()" "admissible e" "ev_event_id e \<notin> ev_event_id ` set (history (aa_log app))"
  shows "\<exists>receipt app'. register_artifact ops scope created_at now q app = (Inr receipt, app')"
proof -
  from event_store.append_fresh [OF store _ event(4,5), of now] inv obtain entry s' where
    "so_append ops now (aa_log app) e = Inr (entry, s')" by (auto simp: app_inv_def)
  then have appended: "app_append ops now e app = (Inr entry, app \<lparr> aa_log := s' \<rparr>)" by (simp add: app_append_def)
  moreover from app_append_effect [OF inv event(4), of now] have "appends e app entry (app \<lparr> aa_log := s' \<rparr>)"
    unfolding appended by (simp add: atomically_def)
  ultimately show ?thesis using register_from_append [OF inv q event(1-3)] by blast
qed

lemma append_event_effect:
  assumes inv: "app_inv app" and admissible: "\<forall>e. submitted_event profile (Append scope now n a) = Some e \<longrightarrow> admissible e"
  shows "atomically app (\<lambda>entry app'. \<exists>e. submitted_event profile (Append scope now n a) = Some e \<and> appends e app entry app')
    (append_event ops profile scope now n a app)"
  unfolding append_event_def
proof (intro atomically_reads)
  fix u submitted e x
  assume e: "EvidenceEvent a = Inr submitted" "apply_redaction_profile submitted profile = Inr e"
  then have event: "submitted_event profile (Append scope now n a) = Some e" by simp
  from app_append_effect [OF inv mp [OF spec [OF admissible] event], of now]
  show "atomically app (\<lambda>entry app'. \<exists>e. submitted_event profile (Append scope now n a) = Some e \<and> appends e app entry app')
    (app_append ops now e app)"
    using event by (auto simp: atomically_def split: sum.split)
qed

text \<open>
  Requests that do not pass for registrations, and what a run of them keeps: the records are those of the log, and neither
  events nor records are lost.
\<close>

definition grows :: "'s artifact_app \<Rightarrow> 's artifact_app \<Rightarrow> bool" where
  "grows app app' \<longleftrightarrow> (\<exists>es. history (aa_log app') = history (aa_log app) @ es) \<and> aa_records app \<subseteq>\<^sub>m aa_records app'"

lemma grows_refl: "grows app app"
  by (simp add: grows_def)

lemma grows_trans: "grows a b \<Longrightarrow> grows b c \<Longrightarrow> grows a c"
  by (auto simp: grows_def intro: map_le_trans)

lemma rebuilt_snoc:
  assumes "rebuilt app" "history (aa_log app') = history (aa_log app) @ [e]"
  shows "load_artifact_registry (entries_of dt (history (aa_log app'))) = add_record (aa_records app) (entry_for dt (length (history (aa_log app))) e)"
  using assms by (simp add: rebuilt_def entries_of_snoc load_snoc)

lemma create_app_log:
  "inv s \<Longrightarrow> create_app ops s = rbind (load_artifact_registry (entries_of dt (history s))) (\<lambda>records. Inr \<lparr> aa_log = s, aa_records = records \<rparr>)"
  using event_store.listing_history [OF store] by (simp add: create_app_def)

lemma restart_same: "app_inv app \<Longrightarrow> rebuilt app \<Longrightarrow> create_app ops (aa_log app) = Inr app"
  by (simp add: app_inv_def rebuilt_def create_app_log)

lemma step_rebuilt:
  assumes app: "app_inv app" "rebuilt app"
    and admissible: "\<And>e. submitted_event profile request = Some e \<Longrightarrow> admissible e"
    and honest: "\<not> impersonates profile request"
  shows "app_inv (api_step ops profile request app) \<and> rebuilt (api_step ops profile request app) \<and> grows app (api_step ops profile request app)"
proof (cases request)
  case (Register scope created_at now q)
  have "\<forall>e. submitted_event profile (Register scope created_at now q) = Some e \<longrightarrow> admissible e" using admissible Register by blast
  from register_effect [OF app(1) this] show ?thesis
  proof (cases rule: atomicallyE)
    case (1 err)
    with app Register show ?thesis by (simp add: grows_refl)
  next
    case (2 receipt app')
    then obtain e r where e: "app_inv app'" "history (aa_log app') = history (aa_log app) @ [e]"
      "artifact_record_from_log_entry (entry_for dt (length (history (aa_log app))) e) = Inr (Some r)" "af_artifact_id r = rg_artifact_id q"
      "aa_records app (rg_artifact_id q) = None" "aa_records app' = (aa_records app)(rg_artifact_id q \<mapsto> r)"
      by (auto simp: registers_def)
    have "rebuilt app'"
      unfolding rebuilt_def rebuilt_snoc [OF app(2) e(2)] using e(3-6) by (simp add: add_record_def)
    moreover have "grows app app'"
      using e(2,5,6) by (auto simp: grows_def map_le_def)
    ultimately show ?thesis using e(1) 2(1) Register by simp
  qed
next
  case (Append scope now n a)
  have "\<forall>e. submitted_event profile (Append scope now n a) = Some e \<longrightarrow> admissible e" using admissible Append by blast
  from append_event_effect [OF app(1) this] show ?thesis
  proof (cases rule: atomicallyE)
    case (1 err)
    with app Append show ?thesis by (simp add: grows_refl)
  next
    case (2 entry app')
    then obtain e where e: "submitted_event profile request = Some e" "appends e app entry app'" by (auto simp: Append)
    then have "\<not> describes_artifact e" using honest by (simp add: Append is_append_def impersonates_def)
    then have "artifact_record_from_log_entry (entry_for dt (length (history (aa_log app))) e) = Inr None"
      by (simp add: artifact_record_from_log_entry_def)
    then have "rebuilt app'"
      unfolding rebuilt_def using e(2) rebuilt_snoc [OF app(2), of app' e] by (simp add: appends_def add_record_def)
    then show ?thesis using e(2) 2(1) Append by (auto simp: appends_def grows_def)
  qed
next
  case Restart
  with app restart_same [OF app] show ?thesis by (simp add: grows_refl)
qed

definition admits :: "string \<Rightarrow> api_request list \<Rightarrow> bool" where
  "admits profile requests \<longleftrightarrow> list_all (\<lambda>r. opt_ok admissible (submitted_event profile r)) requests"

lemma admits_simps [simp]:
  "admits profile []"
  "admits profile (r # rs) \<longleftrightarrow> opt_ok admissible (submitted_event profile r) \<and> admits profile rs"
  "admits profile (rs @ rs') \<longleftrightarrow> admits profile rs \<and> admits profile rs'"
  by (simp_all add: admits_def)

lemma run_rebuilt:
  assumes "app_inv app" "rebuilt app" "admits profile requests"
    "list_all (\<lambda>r. \<not> impersonates profile r) requests"
  shows "app_inv (api_run ops profile requests app) \<and> rebuilt (api_run ops profile requests app) \<and> grows app (api_run ops profile requests app)"
  using assms
proof (induction requests arbitrary: app)
  case (Cons request requests)
  let ?app = "api_step ops profile request app"
  have step: "app_inv ?app \<and> rebuilt ?app \<and> grows app ?app"
    by (rule step_rebuilt) (use Cons.prems in \<open>auto simp: opt_ok_def\<close>)
  moreover have "app_inv (api_run ops profile requests ?app) \<and> rebuilt (api_run ops profile requests ?app) \<and> grows ?app (api_run ops profile requests ?app)"
    by (rule Cons.IH) (use step Cons.prems in auto)
  ultimately show ?case by (auto simp: api_run_def intro: grows_trans)
qed (simp add: api_run_def grows_refl)

lemma start_rebuilt:
  obtains app where "create_app ops start = Inr app" "app_inv app" "rebuilt app" "history (aa_log app) = []" "aa_records app = Map.empty"
proof -
  have s: "inv start" "history start = []" using event_store.inv_start [OF store] event_store.history_start [OF store] by auto
  let ?app = "\<lparr> aa_log = start, aa_records = Map.empty \<rparr>"
  have "load_artifact_registry [] = Inr Map.empty" by (simp add: load_artifact_registry_def)
  then show ?thesis
    by (intro that [of ?app]) (simp_all add: create_app_log s app_inv_def rebuilt_def saved_start)
qed

text \<open>A record in the registry is that of an event of the log.\<close>

lemma record_logged:
  assumes "rebuilt app" "aa_records app i = Some r"
  obtains n where "n < length (history (aa_log app))"
    "artifact_record_from_log_entry (entry_for dt n (history (aa_log app) ! n)) = Inr (Some r)" "af_artifact_id r = i"
proof -
  from loaded_records [OF assms(1) [unfolded rebuilt_def]] assms(2)
  have "(i, r) \<in> set (map (\<lambda>r. (af_artifact_id r, r)) (records_of (entries_of dt (history (aa_log app)))))"
    by (metis map_of_SomeD)
  then obtain entry where entry: "entry \<in> set (entries_of dt (history (aa_log app)))" "artifact_record_from_log_entry entry = Inr (Some r)" "af_artifact_id r = i"
    by (auto simp: records_of_def split: sum.split_asm option.split_asm)
  then obtain n where "n < length (history (aa_log app))" "entry = entry_for dt n (history (aa_log app) ! n)"
    by (auto simp: in_set_conv_nth)
  with entry that show ?thesis by blast
qed

text \<open>An event that is read neither as a registration nor as something else: the registry cannot be loaded any more.\<close>

definition unreadable :: "evidence_event \<Rightarrow> bool" where
  "unreadable e \<longleftrightarrow> (\<forall>n. \<exists>x. artifact_record_from_log_entry (entry_for dt n e) = Inl x)"

lemma unreadable_blocks:
  assumes "inv s" "e \<in> set (history s)" "unreadable e"
  shows "\<exists>x. create_app ops s = Inl x"
proof -
  from assms(2) obtain n where n: "n < length (history s)" "history s ! n = e" by (auto simp: in_set_conv_nth)
  then have "entries_of dt (history s) ! n \<in> set (entries_of dt (history s))" by (intro nth_mem) simp
  with n have "entry_for dt n e \<in> set (entries_of dt (history s))" by simp
  moreover obtain x where "artifact_record_from_log_entry (entry_for dt n e) = Inl x" using assms(3) by (auto simp: unreadable_def)
  ultimately obtain y where "load_artifact_registry (entries_of dt (history s)) = Inl y" using load_fails by blast
  then show ?thesis by (simp add: create_app_log assms(1))
qed

lemma step_blocked:
  assumes app: "app_inv app" "e \<in> set (history (aa_log app))" "unreadable e"
    and admissible: "\<forall>e. submitted_event profile request = Some e \<longrightarrow> admissible e"
  shows "app_inv (api_step ops profile request app) \<and> e \<in> set (history (aa_log (api_step ops profile request app)))"
proof (cases request)
  case (Register scope created_at now q)
  have "\<forall>e. submitted_event profile (Register scope created_at now q) = Some e \<longrightarrow> admissible e" using admissible Register by blast
  from register_effect [OF app(1) this] show ?thesis
    by (cases rule: atomicallyE) (use app Register in \<open>auto simp: registers_def\<close>)
next
  case (Append scope now n a)
  have "\<forall>e. submitted_event profile (Append scope now n a) = Some e \<longrightarrow> admissible e" using admissible Append by blast
  from append_event_effect [OF app(1) this] show ?thesis
    by (cases rule: atomicallyE) (use app Append in \<open>auto simp: appends_def\<close>)
next
  case Restart
  from unreadable_blocks [OF _ app(2,3)] app(1) obtain x where "create_app ops (aa_log app) = Inl x" by (auto simp: app_inv_def)
  with app Restart show ?thesis by simp
qed

lemma run_blocked:
  assumes "app_inv app" "e \<in> set (history (aa_log app))" "unreadable e" "admits profile requests"
  shows "\<exists>x. create_app ops (aa_log (api_run ops profile requests app)) = Inl x"
  using assms
proof (induction requests arbitrary: app)
  case Nil
  then show ?case using unreadable_blocks [of "aa_log app" e] by (simp add: api_run_def app_inv_def)
next
  case (Cons request requests)
  have "app_inv (api_step ops profile request app) \<and> e \<in> set (history (aa_log (api_step ops profile request app)))"
    by (rule step_blocked) (use Cons.prems in \<open>auto simp: opt_ok_def\<close>)
  then have "\<exists>x. create_app ops (aa_log (api_run ops profile requests (api_step ops profile request app))) = Inl x"
    by (intro Cons.IH) (use Cons.prems in auto)
  then show ?case by (simp add: api_run_def)
qed

text \<open>What a registered artifact is verified against, and by whom.\<close>

lemma scoped_record:
  assumes app: "app_inv app" "rebuilt app" "aa_records app i = Some r"
  obtains n where "n < length (history (aa_log app))" "artifact_record_from_log_entry (entry_for dt n (history (aa_log app) ! n)) = Inr (Some r)"
    "get_scoped_artifact_record ops app i scope = rbind (rcheck (entry_matches_scope (entry_for dt n (history (aa_log app) ! n)) scope)
       (TenantScopeError ''event is outside requested tenant/workspace scope'')) (\<lambda>_. Inr r)"
proof -
  from record_logged [OF app(2,3)] obtain n where n: "n < length (history (aa_log app))"
    "artifact_record_from_log_entry (entry_for dt n (history (aa_log app) ! n)) = Inr (Some r)" by blast
  have "so_by_id ops (aa_log app) (ev_event_id (history (aa_log app) ! n)) = Inr (entry_for dt n (history (aa_log app) ! n))"
    using event_store.by_id_found [OF store _ n(1)] app(1) by (simp add: app_inv_def)
  then have "so_by_id ops (aa_log app) (af_event_id r) = Inr (entry_for dt n (history (aa_log app) ! n))"
    using rebuilt_fields(3) [OF n(2)] by simp
  with n app(3) show thesis by (intro that [of n]) (simp_all add: get_scoped_artifact_record_def get_artifact_record_def)
qed

lemma same_position:
  assumes "inv s" "n < length (history s)" "m < length (history s)" "ev_event_id (history s ! n) = ev_event_id (history s ! m)"
  shows "n = m"
proof -
  have "entry_for dt n (history s ! n) = entry_for dt m (history s ! m)"
    using event_store.by_id_found [OF store assms(1,2)] event_store.by_id_found [OF store assms(1,3)] assms(4) by simp
  then show ?thesis by (simp add: entry_for_def)
qed

lemma kept_artifact:
  assumes app: "app_inv app" "rebuilt app"
    and admissible: "\<forall>e. submitted_event profile (Register scope created_at now q) = Some e \<longrightarrow> admissible e"
    and registered: "register_artifact ops scope created_at now q app = (Inr receipt, app1)"
    and later: "admits profile later" "list_all (\<lambda>r. \<not> impersonates profile r) later"
  obtains content where "decode_artifact_base64 (rg_base64 q) = Inr content" "at_artifact_hash receipt = hash_artifact_bytes content"
    "rg_base64 q \<noteq> []" "\<forall>b. b \<noteq> [] \<longrightarrow> verify_artifact ops (api_run ops profile later app1) scope (rg_artifact_id q) b =
      rbind (decode_artifact_base64 b) (\<lambda>c. Inr (verification_of (rg_artifact_id q) (hash_artifact_bytes content) c))"
proof -
  have q: "registration_ok q" using registered by (cases "registration_ok q") (auto simp: register_artifact_def abind_acheck)
  from register_effect [OF app(1) admissible] registered obtain content e r where
    reg: "decode_artifact_base64 (rg_base64 q) = Inr content" "registration_event created_at q content = Inr e" "app_inv app1"
      "history (aa_log app1) = history (aa_log app) @ [e]" "artifact_record_from_log_entry (entry_for dt (length (history (aa_log app))) e) = Inr (Some r)"
      "af_artifact_id r = rg_artifact_id q" "aa_records app (rg_artifact_id q) = None" "aa_records app1 = (aa_records app)(rg_artifact_id q \<mapsto> r)"
      "receipt = receipt_of r" "ensure_event_matches_scope e scope = Inr ()"
    by (auto simp: atomically_def registers_def)
  have hash: "af_artifact_hash r = hash_artifact_bytes content"
    using rebuilt_fields(4) [OF reg(5)] registration_event_fields [OF reg(2)] by auto
  have "rebuilt app1"
    unfolding rebuilt_def rebuilt_snoc [OF app(2) reg(4)] using reg(5-8) by (simp add: add_record_def)
  define app2 where "app2 = api_run ops profile later app1"
  from run_rebuilt [OF reg(3) \<open>rebuilt app1\<close> later] have app2: "app_inv app2" "rebuilt app2" "grows app1 app2" by (simp_all add: app2_def)
  let ?m = "length (history (aa_log app))"
  from app2(3) obtain es where es: "history (aa_log app2) = history (aa_log app) @ e # es" by (auto simp: grows_def reg(4))
  then have m: "?m < length (history (aa_log app2))" "history (aa_log app2) ! ?m = e" by simp_all
  have record_kept: "aa_records app2 (rg_artifact_id q) = Some r"
    using app2(3) reg(8) by (auto simp: grows_def map_le_def dom_def)
  from scoped_record [OF app2(1,2) record_kept, of scope] obtain n where n: "n < length (history (aa_log app2))"
    "artifact_record_from_log_entry (entry_for dt n (history (aa_log app2) ! n)) = Inr (Some r)"
    "get_scoped_artifact_record ops app2 (rg_artifact_id q) scope = rbind (rcheck (entry_matches_scope (entry_for dt n (history (aa_log app2) ! n)) scope)
       (TenantScopeError ''event is outside requested tenant/workspace scope'')) (\<lambda>_. Inr r)" .
  have "ev_event_id (history (aa_log app2) ! n) = ev_event_id e"
    using rebuilt_fields(2) [OF n(2)] rebuilt_fields(2) [OF reg(5)] by simp
  then have "n = ?m" using same_position [OF _ n(1) m(1)] app2(1) m(2) by (simp add: app_inv_def)
  then have got: "get_scoped_artifact_record ops app2 (rg_artifact_id q) scope = Inr r"
    using n(3) reg(10) m(2) by (auto simp: entry_matches_scope_def ensure_event_matches_scope_def)
  have "field_length 1 128 (rg_artifact_id q)" using q by (simp add: registration_ok_def)
  then have "verify_artifact ops app2 scope (rg_artifact_id q) b =
      rbind (decode_artifact_base64 b) (\<lambda>c. Inr (verification_of (rg_artifact_id q) (hash_artifact_bytes content) c))" if "b \<noteq> []" for b
    using that by (simp add: verify_artifact_def got hash verification_of_def Let_def)
  moreover have "at_artifact_hash receipt = hash_artifact_bytes content" using reg(9) hash by (simp add: receipt_of_def)
  moreover have "rg_base64 q \<noteq> []" using q by (auto simp: registration_ok_def)
  ultimately show thesis using that reg(1) by (simp add: app2_def)
qed

end

section \<open>The in-memory log as a store\<close>

definition memory_ops :: "(utc \<Rightarrow> string) \<Rightarrow> in_memory_log store_ops" where
  "memory_ops dt = \<lparr> so_append = \<lambda>_. iml_append dt, so_by_index = iml_get_by_index, so_by_id = iml_get_by_event_id,
     so_list = \<lambda>s. Inr (iml_list_entries s), so_save = \<lambda>_. alift (Inr ()) \<rparr>"

interpretation memory: artifact_store dt "memory_ops dt" iml_init "iml_inv dt" "\<lambda>_. True" iml_history "\<lambda>_ _. True" for dt
  by (rule artifact_store.intro) (auto simp: memory_ops_def alift_def intro: mem.event_store_axioms)

end
