(* ===== verification/Ets_Json_Ascii.thy ===== *)
theory Ets_Json_Ascii
  imports Ets_Json_Parse
begin

text \<open>
  \<^verbatim>\<open>json.dumps\<close> with its default \<^verbatim>\<open>ensure_ascii\<close>, and \<^verbatim>\<open>json.loads\<close> on such texts. The default escapes the characters beyond the
  printable ASCII ones, which occur only inside of strings; so its text is that of \<open>dumps\<close> with these characters replaced,
  and the parser reads the same value from both.
\<close>

section \<open>Escaping\<close>

definition ascii_char :: "char \<Rightarrow> string" where
  "ascii_char c = (if code c < 127 then [c] else [CHR 0x5C, CHR ''u'', CHR ''0'', CHR ''0'', hex_digit (code c div 16), hex_digit (code c mod 16)])"

definition ascii_text :: "string \<Rightarrow> string" where
  "ascii_text s = concat (map ascii_char s)"

definition dumps_ascii :: "json \<Rightarrow> string" where
  "dumps_ascii j = ascii_text (dumps j)"

lemma ascii_text_simps [simp]: "ascii_text [] = []" "ascii_text (c # s) = ascii_char c @ ascii_text s"
  by (simp_all add: ascii_text_def)

lemma ascii_text_append: "ascii_text (s @ t) = ascii_text s @ ascii_text t"
  by (simp add: ascii_text_def)

lemma ascii_char_plain: "code c < 127 \<Longrightarrow> ascii_char c = [c]"
  by (simp add: ascii_char_def)

lemma ascii_char_cases:
  obtains "code c < 127" "ascii_char c = [c]" | "127 \<le> code c" "\<exists>t. ascii_char c = CHR 0x5C # t"
  by (cases "code c < 127") (auto simp: ascii_char_def)

section \<open>Scanning an escaped text\<close>

lemma digit_ascii: "is_digit c \<Longrightarrow> code c < 127"
  by (auto simp: is_digit_def)

lemma backslash_no_digit: "\<not> is_digit (CHR 0x5C)"
  by (simp add: is_digit_def)

lemma scan_digits_ascii: "scan_digits (ascii_text s) = map_prod id ascii_text (scan_digits s)"
proof (induction s)
  case (Cons c s)
  show ?case
    by (cases c rule: ascii_char_cases) (use Cons digit_ascii [of c] backslash_no_digit in \<open>auto simp: scan_digits_def\<close>)
qed simp

lemma scan_sign_ascii:
  assumes "signs \<in> {''-'', ''+-''}"
  shows "scan_sign signs (ascii_text s) = map_prod id ascii_text (scan_sign signs s)"
proof (cases s)
  case (Cons c t)
  show ?thesis by (cases c rule: ascii_char_cases) (use assms in \<open>auto simp: Cons scan_sign_def\<close>)
qed simp

lemma scan_integer_ascii: "scan_integer (ascii_text s) = map_prod id ascii_text (scan_integer s)"
proof (cases s)
  case (Cons c t)
  then show ?thesis using scan_digits_ascii [of "c # t"]
    by (cases c rule: ascii_char_cases) (auto simp: Cons scan_integer_def)
qed simp

lemma scan_fraction_ascii: "scan_fraction (ascii_text s) = map_prod id ascii_text (scan_fraction s)"
proof (cases s)
  case (Cons c t)
  then show ?thesis using scan_digits_ascii [of t]
    by (cases c rule: ascii_char_cases) (auto simp: Cons scan_fraction_def case_prod_beta Let_def)
qed simp

lemma scan_exponent_ascii: "scan_exponent (ascii_text s) = map_prod id ascii_text (scan_exponent s)"
proof (cases s)
  case (Cons c t)
  then show ?thesis
    by (cases c rule: ascii_char_cases) (auto simp: Cons scan_exponent_def case_prod_beta Let_def scan_sign_ascii scan_digits_ascii)
qed simp

lemma scan_number_ascii: "scan_number fl (ascii_text s) = map_option (map_prod id ascii_text) (scan_number fl s)"
  by (simp add: scan_number_def case_prod_beta Let_def scan_sign_ascii scan_integer_ascii scan_fraction_ascii scan_exponent_ascii)

definition plain_text :: "string \<Rightarrow> bool" where
  "plain_text l \<longleftrightarrow> list_all (\<lambda>c. code c < 127 \<and> c \<noteq> CHR 0x5C) l"

lemma plain_prefix:
  assumes "plain_text l"
  shows "(take (length l) (ascii_text s) = l) = (take (length l) s = l) \<and>
    (take (length l) s = l \<longrightarrow> drop (length l) (ascii_text s) = ascii_text (drop (length l) s))"
  using assms
proof (induction l arbitrary: s)
  case (Cons d l)
  show ?case
  proof (cases s)
    case s: (Cons c t)
    have IH: "(take (length l) (ascii_text t) = l) = (take (length l) t = l) \<and>
        (take (length l) t = l \<longrightarrow> drop (length l) (ascii_text t) = ascii_text (drop (length l) t))"
      by (rule Cons.IH) (use Cons.prems in \<open>simp add: plain_text_def\<close>)
    show ?thesis
    proof (cases c rule: ascii_char_cases)
      case 1
      with IH show ?thesis by (auto simp: s)
    next
      case 2
      then obtain u where "ascii_char c = CHR 0x5C # u" by blast
      moreover have "d \<noteq> CHR 0x5C" "c \<noteq> d" using Cons.prems 2(1) by (auto simp: plain_text_def)
      ultimately show ?thesis by (simp add: s)
    qed
  qed simp
qed simp

lemma scan_literal_ascii:
  "list_all (\<lambda>(l, v). plain_text l) ls \<Longrightarrow> scan_literal ls (ascii_text s) = map_option (map_prod id ascii_text) (scan_literal ls s)"
proof (induction ls)
  case (Cons lv ls)
  obtain l v where "lv = (l, v)" by (cases lv)
  with Cons plain_prefix [of l s] show ?case by auto
qed simp

lemma literals_plain: "list_all (\<lambda>(l, v). plain_text l) (take 3 json_literals)" "list_all (\<lambda>(l, v). plain_text l) (drop 3 json_literals)"
  by (simp_all add: json_literals_def plain_text_def)

lemma scan_scalar_ascii: "scan_scalar fl s = Inr (v, r) \<Longrightarrow> scan_scalar fl (ascii_text s) = Inr (v, ascii_text r)"
  by (auto simp: scan_scalar_def scan_literal_ascii [OF literals_plain(1)] scan_literal_ascii [OF literals_plain(2)] scan_number_ascii
      split: option.split_asm)

lemma skip_ascii: "skip (ascii_text s) = ascii_text (skip s)"
proof (induction s)
  case (Cons c s)
  show ?case
    by (cases c rule: ascii_char_cases) (use Cons in \<open>auto simp: skip_def json_space_def\<close>)
qed simp

lemma hex_val_plain: "hex_val c = Some i \<Longrightarrow> code c < 127"
  by (auto simp: hex_val_def is_digit_def split: if_split_asm)

lemma scan_string_escape:
  assumes "127 \<le> code c"
  shows "scan_string (ascii_char c @ u) = rbind (scan_string u) (\<lambda>(xs, r). Inr (c # xs, r))"
proof -
  have "code c div 16 < 16" "code c mod 16 < 16" "16 * (code c div 16) + code c mod 16 = code c"
    using code_less [of c] by (auto simp: less_mult_imp_div_less)
  moreover have "hex_val (CHR ''0'') = Some 0" by (simp add: hex_val_def)
  ultimately show ?thesis
    using assms by (simp add: ascii_char_def scan_string.simps(2) [of "CHR 0x5C"] hex_escape_def)
qed

lemma scan_string_ascii: "scan_string s = Inr (x, r) \<Longrightarrow> scan_string (ascii_text s) = Inr (x, ascii_text r)"
proof (induction s arbitrary: x r rule: length_induct)
  case (1 s)
  have IH: "scan_string (ascii_text t) = Inr (y, ascii_text u)" if "scan_string t = Inr (y, u)" "length t < length s" for t y u
    using 1 that by blast
  obtain c t where s: "s = c # t" using "1.prems" by (cases s) (simp_all add: scan_string.simps)
  show ?case
  proof (cases "c = CHR 0x5C")
    case True
    obtain d u where t: "t = d # u" using "1.prems" True s by (cases t) (simp_all add: scan_string.simps)
    show ?thesis
    proof (cases "d = CHR ''u''")
      case u: True
      obtain h1 h2 h3 h4 w where w: "u = h1 # h2 # h3 # h4 # w"
        using "1.prems" True s t u by (auto simp: scan_string.simps(2) [of "CHR 0x5C"] split: list.split_asm)
      from "1.prems" obtain e xs where e: "hex_escape h1 h2 h3 h4 = Inr e" "scan_string w = Inr (xs, r)" "x = e # xs"
        by (auto simp: True s t u w scan_string.simps(2) [of "CHR 0x5C"])
      have plain: "code h1 < 127" "code h2 < 127" "code h3 < 127" "code h4 < 127"
        using e(1) by (auto simp: hex_escape_def hex_val_plain split: option.split_asm)
      have "scan_string (ascii_text w) = Inr (xs, ascii_text r)" using IH [OF e(2)] by (simp add: s t w)
      then show ?thesis using e plain
        by (simp add: True s t u w ascii_char_plain scan_string.simps(2) [of "CHR 0x5C"])
    next
      case False
      from "1.prems" False obtain e xs where e: "simple_escape d = Some e" "scan_string u = Inr (xs, r)" "x = e # xs"
        by (auto simp: True s t scan_string.simps(2) [of "CHR 0x5C"] split: option.split_asm)
      have "code d < 127" using e(1) by (auto simp: simple_escape_def split: if_split_asm)
      moreover have "scan_string (ascii_text u) = Inr (xs, ascii_text r)" using IH [OF e(2)] by (simp add: s t)
      ultimately show ?thesis using e False
        by (simp add: True s t ascii_char_plain scan_string.simps(2) [of "CHR 0x5C"])
    qed
  next
    case False
    show ?thesis
    proof (cases "c = CHR 0x22")
      case True
      then show ?thesis using "1.prems" by (simp add: s ascii_char_plain scan_string.simps(2) [of "CHR 0x22"])
    next
      case quote: False
      from "1.prems" obtain xs where xs: "32 \<le> code c" "scan_string t = Inr (xs, r)" "x = c # xs"
        using False quote by (auto simp: s scan_string.simps(2) [of c] split: if_split_asm)
      have rest: "scan_string (ascii_text t) = Inr (xs, ascii_text r)" using IH [OF xs(2)] by (simp add: s)
      show ?thesis
      proof (cases "code c < 127")
        case plain: True
        then show ?thesis using rest xs False quote by (simp add: s ascii_char_plain scan_string.simps(2) [of c])
      next
        case wide: False
        then show ?thesis using rest xs scan_string_escape [of c "ascii_text t"] by (simp add: s)
      qed
    qed
  qed
qed

section \<open>Parsing an escaped text\<close>

lemma ascii_text_char: "code c < 127 \<Longrightarrow> ascii_text (c # s) = c # ascii_text s"
  by (simp add: ascii_char_plain)

lemma length_ascii_text: "length s \<le> length (ascii_text s)"
proof (induction s)
  case (Cons c s)
  then show ?case by (cases c rule: ascii_char_cases) auto
qed simp

definition reads_ascii :: "(string \<Rightarrow> ('a \<times> string) result) \<Rightarrow> string \<Rightarrow> bool" where
  "reads_ascii p s \<longleftrightarrow> (\<forall>x r. p s = Inr (x, r) \<longrightarrow> p (ascii_text s) = Inr (x, ascii_text r))"

lemma reads_asciiI: "(\<And>x r. p s = Inr (x, r) \<Longrightarrow> p (ascii_text s) = Inr (x, ascii_text r)) \<Longrightarrow> reads_ascii p s"
  by (simp add: reads_ascii_def)

lemma reads_asciiD: "reads_ascii p s \<Longrightarrow> p s = Inr (x, r) \<Longrightarrow> p (ascii_text s) = Inr (x, ascii_text r)"
  by (simp add: reads_ascii_def)

lemma skip_Cons_ascii: "skip s = d # t \<Longrightarrow> code d < 127 \<Longrightarrow> skip (ascii_text s) = d # ascii_text t"
  by (simp add: skip_ascii ascii_char_plain)

lemma value_ascii:
  assumes "\<And>t. length t < length s \<Longrightarrow> reads_ascii (parse_elements fl) t \<and> reads_ascii (parse_members fl) t"
  shows "reads_ascii (parse_value fl) s"
proof (rule reads_asciiI)
  fix x r assume parsed: "parse_value fl s = Inr (x, r)"
  obtain c t where s: "s = c # t" using parsed by (cases s) (simp_all add: parse_value.simps)
  have plain: "code (CHR 0x22) < 127" "code (CHR ''['') < 127" "code (CHR ''{'') < 127" "code (CHR '']'') < 127" "code (CHR ''}'') < 127"
    by simp_all
  consider (str) "c = CHR 0x22" | (list) "c = CHR ''[''" | (obj) "c = CHR ''{''" | (scalar) "c \<noteq> CHR 0x22" "c \<noteq> CHR ''[''" "c \<noteq> CHR ''{''" by blast
  then show "parse_value fl (ascii_text s) = Inr (x, ascii_text r)"
  proof cases
    case str
    with parsed show ?thesis by (auto simp: s ascii_char_plain parse_value.simps dest: scan_string_ascii)
  next
    case list
    from parsed obtain d u where du: "skip t = d # u" by (auto simp: s list parse_value.simps split: list.split_asm)
    show ?thesis
    proof (cases "d = CHR '']''")
      case True
      with parsed du show ?thesis by (simp add: s list ascii_char_plain parse_value.simps skip_ascii)
    next
      case False
      from parsed False du obtain xs where xs: "parse_elements fl (d # u) = Inr (xs, r)" "x = PyList xs"
        by (auto simp: s list parse_value.simps split: if_split_asm)
      have "length (d # u) < length s" using skip_shorter [of t] du by (simp add: s)
      then have read: "parse_elements fl (ascii_text (d # u)) = Inr (xs, ascii_text r)"
        by (rule reads_asciiD [OF conjunct1 [OF assms] xs(1)])
      obtain d' u' where du': "ascii_text (d # u) = d' # u'" "d' \<noteq> CHR '']''"
        using False by (cases d rule: ascii_char_cases) auto
      have "skip (ascii_text t) = d' # u'" using du' by (simp add: skip_ascii du)
      moreover have "length (d' # u') \<le> length (ascii_text t)" using skip_shorter [of "ascii_text t"] calculation by simp
      ultimately show ?thesis using read du' xs(2) by (simp add: s list ascii_char_plain parse_value.simps)
    qed
  next
    case obj
    from parsed obtain d u where du: "skip t = d # u" by (auto simp: s obj parse_value.simps split: list.split_asm)
    show ?thesis
    proof (cases "d = CHR ''}''")
      case True
      with parsed du show ?thesis by (simp add: s obj ascii_char_plain parse_value.simps skip_ascii)
    next
      case False
      from parsed False du obtain xs where xs: "parse_members fl (d # u) = Inr (xs, r)" "x = py_dict xs"
        by (auto simp: s obj parse_value.simps split: if_split_asm)
      have "length (d # u) < length s" using skip_shorter [of t] du by (simp add: s)
      then have read: "parse_members fl (ascii_text (d # u)) = Inr (xs, ascii_text r)"
        by (rule reads_asciiD [OF conjunct2 [OF assms] xs(1)])
      obtain d' u' where du': "ascii_text (d # u) = d' # u'" "d' \<noteq> CHR ''}''"
        using False by (cases d rule: ascii_char_cases) auto
      have "skip (ascii_text t) = d' # u'" using du' by (simp add: skip_ascii du)
      moreover have "length (d' # u') \<le> length (ascii_text t)" using skip_shorter [of "ascii_text t"] calculation by simp
      ultimately show ?thesis using read du' xs(2) by (simp add: s obj ascii_char_plain parse_value.simps)
    qed
  next
    case scalar
    then have "scan_scalar fl s = Inr (x, r)" using parsed by (simp add: s parse_value.simps)
    then have "scan_scalar fl (ascii_text s) = Inr (x, ascii_text r)" by (rule scan_scalar_ascii)
    moreover obtain c' t' where "ascii_text s = c' # t'" "c' \<noteq> CHR 0x22" "c' \<noteq> CHR ''[''" "c' \<noteq> CHR ''{''"
      using scalar by (cases c rule: ascii_char_cases) (auto simp: s)
    ultimately show ?thesis by (simp add: parse_value.simps)
  qed
qed

text \<open>The length tests of the parser hold of every text, as what a part leaves over is shorter.\<close>

lemma elements_unfold:
  "parse_elements fl s = rbind (parse_value fl s) (\<lambda>(v, r).
     case skip r of
       [] \<Rightarrow> Inl (ValueError ''Expecting ',' delimiter'')
     | d # t \<Rightarrow>
         if d = CHR '']'' then Inr ([v], t)
         else if d \<noteq> CHR '','' then Inl (ValueError ''Expecting ',' delimiter'')
         else rbind (parse_elements fl (skip t)) (\<lambda>(vs, r'). Inr (v # vs, r')))"
proof (cases "parse_value fl s")
  case (Inr vr)
  obtain v r where vr: "vr = (v, r)" by (cases vr)
  have "length (skip t) < length s" if "skip r = d # t" for d t
    using parse_value_shorter [OF Inr [unfolded vr]] skip_Cons_length [OF that] skip_shorter [of t] by simp
  then show ?thesis by (simp add: parse_elements.simps [of fl s] Inr vr split: list.split)
qed (simp add: parse_elements.simps [of fl s])

lemma members_unfold:
  "parse_members fl (CHR 0x22 # s1) = rbind (scan_string s1) (\<lambda>(k, r).
     case skip r of
       [] \<Rightarrow> Inl (ValueError ''Expecting ':' delimiter'')
     | d # t \<Rightarrow>
         if d \<noteq> CHR '':'' then Inl (ValueError ''Expecting ':' delimiter'')
         else rbind (parse_value fl (skip t)) (\<lambda>(v, r1).
           case skip r1 of
             [] \<Rightarrow> Inl (ValueError ''Expecting ',' delimiter'')
           | e # u \<Rightarrow>
               if e = CHR ''}'' then Inr ([(k, v)], u)
               else if e \<noteq> CHR '','' then Inl (ValueError ''Expecting ',' delimiter'')
               else rbind (parse_members fl (skip u)) (\<lambda>(ps, r'). Inr ((k, v) # ps, r'))))"
proof (cases "scan_string s1")
  case (Inr kr)
  obtain k r where kr: "kr = (k, r)" by (cases kr)
  have t: "length (skip t) < Suc (length s1)" if "skip r = d # t" for d t
    using scan_string_shorter [OF Inr [unfolded kr]] skip_Cons_length [OF that] skip_shorter [of t] by simp
  have u: "length (skip u) < Suc (length s1)" if "skip r = d # t" "parse_value fl (skip t) = Inr (v, r1)" "skip r1 = e # u" for d t v r1 e u
    using parse_value_shorter [OF that(2)] t [OF that(1)] skip_Cons_length [OF that(3)] skip_shorter [of u] by simp
  show ?thesis
  proof (cases "skip r")
    case (Cons d t)
    show ?thesis
    proof (cases "parse_value fl (skip t)")
      case (Inr vr1)
      obtain v r1 where vr1: "vr1 = (v, r1)" by (cases vr1)
      show ?thesis using t [OF Cons] u [OF Cons Inr [unfolded vr1]] \<open>scan_string s1 = Inr kr\<close>
        by (subst parse_members.simps) (simp add: kr Cons Inr vr1 split: list.split)
    qed (subst parse_members.simps, use \<open>scan_string s1 = Inr kr\<close> t [OF Cons] in \<open>simp add: kr Cons\<close>)
  qed (subst parse_members.simps, use Inr in \<open>simp add: kr\<close>)
qed (simp add: parse_members.simps [of fl "CHR 0x22 # s1"])

lemma elements_ascii:
  assumes "reads_ascii (parse_value fl) s" "\<And>t. length t < length s \<Longrightarrow> reads_ascii (parse_elements fl) t"
  shows "reads_ascii (parse_elements fl) s"
proof (rule reads_asciiI)
  fix x r assume p: "parse_elements fl s = Inr (x, r)"
  then obtain v r1 where v: "parse_value fl s = Inr (v, r1)" by (auto simp: elements_unfold [of fl s])
  with p obtain d t where d: "skip r1 = d # t" "d = CHR '']'' \<or> d = CHR '',''"
    by (cases "skip r1") (auto simp: elements_unfold [of fl s] split: if_split_asm)
  note v' = reads_asciiD [OF assms(1) v]
  have d': "skip (ascii_text r1) = d # ascii_text t" using d by (intro skip_Cons_ascii) auto
  have "length (skip t) < length s"
    using parse_value_shorter [OF v] skip_Cons_length [OF d(1)] skip_shorter [of t] by simp
  note rest = reads_asciiD [OF assms(2) [OF this]]
  from d(2) show "parse_elements fl (ascii_text s) = Inr (x, ascii_text r)"
  proof
    assume "d = CHR '']''"
    then show ?thesis using p v v' d d' by (simp add: elements_unfold [of fl s] elements_unfold [of fl "ascii_text s"])
  next
    assume "d = CHR '',''"
    then show ?thesis using p v v' d d' rest
      by (auto simp: elements_unfold [of fl s] elements_unfold [of fl "ascii_text s"] skip_ascii)
  qed
qed

lemma members_ascii:
  assumes "\<And>t. length t < length s \<Longrightarrow> reads_ascii (parse_value fl) t \<and> reads_ascii (parse_members fl) t"
  shows "reads_ascii (parse_members fl) s"
proof (rule reads_asciiI)
  fix x r assume p: "parse_members fl s = Inr (x, r)"
  then obtain s1 where s: "s = CHR 0x22 # s1" by (auto simp: parse_members.simps [of fl s] split: list.split_asm if_split_asm)
  note p = p [unfolded s members_unfold]
  from p obtain k r0 where k: "scan_string s1 = Inr (k, r0)" by auto
  with p obtain t where d: "skip r0 = CHR '':'' # t" by (cases "skip r0") (auto split: if_split_asm)
  with p k obtain v r1 where v: "parse_value fl (skip t) = Inr (v, r1)" by auto
  with p k d obtain e u where e: "skip r1 = e # u" "e = CHR ''}'' \<or> e = CHR '',''" by (cases "skip r1") (auto split: if_split_asm)
  have t: "length (skip t) < length s"
    using scan_string_shorter [OF k] skip_Cons_length [OF d] skip_shorter [of t] by (simp add: s)
  have u: "length (skip u) < length s"
    using parse_value_shorter [OF v] t skip_Cons_length [OF e(1)] skip_shorter [of u] by simp
  note k' = scan_string_ascii [OF k]
  note v' = reads_asciiD [OF conjunct1 [OF assms [OF t]] v]
  have d': "skip (ascii_text r0) = CHR '':'' # ascii_text t" using d by (intro skip_Cons_ascii) auto
  have e': "skip (ascii_text r1) = e # ascii_text u" using e by (intro skip_Cons_ascii) auto
  note rest = reads_asciiD [OF conjunct2 [OF assms [OF u]]]
  have "ascii_text s = CHR 0x22 # ascii_text s1" by (simp add: s ascii_char_plain)
  moreover from e(2) have "parse_members fl (CHR 0x22 # ascii_text s1) = Inr (x, ascii_text r)"
  proof
    assume "e = CHR ''}''"
    then show ?thesis using p k k' d d' v v' e(1) e' by (simp add: members_unfold skip_ascii)
  next
    assume "e = CHR '',''"
    then show ?thesis using p k k' d d' v v' e(1) e' rest by (auto simp: members_unfold skip_ascii)
  qed
  ultimately show "parse_members fl (ascii_text s) = Inr (x, ascii_text r)" by simp
qed

lemma parse_ascii: "reads_ascii (parse_value fl) s \<and> reads_ascii (parse_elements fl) s \<and> reads_ascii (parse_members fl) s"
proof (induction s rule: length_induct)
  case (1 s)
  then have "reads_ascii (parse_value fl) s" by (intro value_ascii) auto
  with 1 show ?case by (auto intro: elements_ascii members_ascii)
qed

lemma loads_ascii: "loads fl s = Inr v \<Longrightarrow> loads fl (ascii_text s) = Inr v"
proof -
  assume "loads fl s = Inr v"
  then obtain r where r: "parse_value fl (skip s) = Inr (v, r)" "skip r = []" by (auto simp: loads_def split: if_split_asm)
  then show ?thesis using reads_asciiD [OF conjunct1 [OF parse_ascii] r(1)] by (simp add: loads_def skip_ascii)
qed

lemma loads_dumps_ascii:
  assumes "json_ok j" "floats_ok fl j"
  shows "loads fl (dumps_ascii j) = Inr (py_of_json (jnorm j))"
  unfolding dumps_ascii_def by (rule loads_ascii [OF loads_dumps [OF assms]])

end
