(* ===== verification/Ets_Sqlite_Artifacts.thy ===== *)
theory Ets_Sqlite_Artifacts
  imports Ets_Artifact_Api Ets_Sqlite_Store Ets_Json_Ascii
begin

text \<open>
  The \<^verbatim>\<open>artifact_records\<close> table of the SQLite provider (\<^verbatim>\<open>ets/core/sqlite_store.py\<close>), and the API over that provider
  (interpretation \<open>sqlite_artifacts\<close>).

  The provider is opened without \<^verbatim>\<open>PRAGMA foreign_keys\<close>, so the foreign key of the table is not enforced. \<open>fromiso\<close> is
  \<^verbatim>\<open>datetime.fromisoformat\<close>.
\<close>

section \<open>Rows\<close>

text \<open>\<^verbatim>\<open>INSERT INTO artifact_records\<close>: the primary key, the unique event and the check on the size.\<close>

definition insert_artifact :: "sqlite_db \<Rightarrow> artifact_row \<Rightarrow> sqlite_db option" where
  "insert_artifact db row =
     (if ax_artifact_id row \<in> ax_artifact_id ` set (db_artifacts db) \<or> ax_event_id row \<in> ax_event_id ` set (db_artifacts db) \<or> ax_byte_size row < 0 then None
      else Some (db \<lparr> db_artifacts := db_artifacts db @ [row] \<rparr>))"

definition artifact_row_of :: "artifact_record \<Rightarrow> artifact_row" where
  "artifact_row_of r = \<lparr> ax_artifact_id = af_artifact_id r, ax_artifact_hash = af_artifact_hash r, ax_reference_uri = af_reference_uri r,
     ax_content_type = af_content_type r, ax_byte_size = af_byte_size r, ax_metadata_json = dumps_ascii (JObj (af_metadata r)),
     ax_timestamp = isoformat_z (af_timestamp r), ax_event_id = af_event_id r, ax_log_index = af_log_index r \<rparr>"

definition save_artifact_record :: "artifact_record \<Rightarrow> (sqlite_db, unit) action" where
  "save_artifact_record r db =
     (case insert_artifact db (artifact_row_of r) of
        None \<Rightarrow> (Inl (DuplicateEventError (''artifact_id already exists: '' @ af_artifact_id r)), db)
      | Some db' \<Rightarrow> (Inr (), db'))"

definition parse_utc_timestamp :: "(string \<Rightarrow> datetime result) \<Rightarrow> string \<Rightarrow> utc result" where
  "parse_utc_timestamp fromiso value =
     rbind (case fromiso (concat (map (\<lambda>c. if c = CHR ''Z'' then ''+00:00'' else [c]) value)) of
              Inl (ValueError _) \<Rightarrow> Inl (StorageValidationError ''stored timestamp failed datetime parsing'')
            | r \<Rightarrow> r) (\<lambda>parsed.
     utc_or_raise (StorageValidationError ''stored timestamp must be timezone-aware'') parsed)"

text \<open>The keys of a parsed object are texts.\<close>

definition dict_items :: "pyval \<Rightarrow> (string \<times> pyval) list option" where
  "dict_items v = (case v of PyDict kvs \<Rightarrow> Some (concat (map (\<lambda>(k, v). case k of PyStr s \<Rightarrow> [(s, v)] | _ \<Rightarrow> []) kvs)) | _ \<Rightarrow> None)"

definition row_to_artifact_record :: "(string \<Rightarrow> pyfloat) \<Rightarrow> (string \<Rightarrow> datetime result) \<Rightarrow> artifact_row \<Rightarrow> artifact_record result" where
  "row_to_artifact_record fl fromiso row =
     rbind (case loads fl (ax_metadata_json row) of
              Inl (ValueError _) \<Rightarrow> Inl (StorageValidationError ''stored artifact metadata failed JSON parsing'')
            | r \<Rightarrow> r) (\<lambda>parsed.
     rbind (rget (StorageValidationError ''stored artifact metadata must be a JSON object'') (dict_items parsed)) (\<lambda>metadata.
     rbind (parse_utc_timestamp fromiso (ax_timestamp row)) (\<lambda>timestamp.
     create_artifact_record (ax_artifact_id row) (ax_artifact_hash row) (ax_reference_uri row) (ax_content_type row) (ax_byte_size row) metadata
       (Aware timestamp 0) (ax_event_id row) (ax_log_index row))))"

definition stored_artifact_record :: "(string \<Rightarrow> pyfloat) \<Rightarrow> (string \<Rightarrow> datetime result) \<Rightarrow> sqlite_db \<Rightarrow> string \<Rightarrow> artifact_record result" where
  "stored_artifact_record fl fromiso db artifact_id =
     (case find (\<lambda>row. ax_artifact_id row = artifact_id) (db_artifacts db) of
        None \<Rightarrow> Inl (EventNotFoundError (''artifact_id not found: '' @ artifact_id))
      | Some row \<Rightarrow> row_to_artifact_record fl fromiso row)"

definition list_artifact_records :: "(string \<Rightarrow> pyfloat) \<Rightarrow> (string \<Rightarrow> datetime result) \<Rightarrow> sqlite_db \<Rightarrow> artifact_record list result" where
  "list_artifact_records fl fromiso db =
     rmap (row_to_artifact_record fl fromiso) (sort_key ax_log_index (sort_key ax_artifact_id (db_artifacts db)))"

section \<open>The provider as a store\<close>

definition sqlite_ops :: "(utc \<Rightarrow> string) \<Rightarrow> (evidence_event \<Rightarrow> string) \<Rightarrow> (string \<Rightarrow> evidence_event result) \<Rightarrow> sqlite_db store_ops" where
  "sqlite_ops dt to_json of_json = \<lparr> so_append = sqlite_append dt to_json, so_by_index = sqlite_get_by_index dt of_json,
     so_by_id = sqlite_get_by_event_id dt of_json, so_list = sqlite_list_entries dt of_json, so_save = save_artifact_record \<rparr>"

definition artifacts_saved :: "sqlite_db \<Rightarrow> string set \<Rightarrow> bool" where
  "artifacts_saved db ids \<longleftrightarrow> ids = ax_artifact_id ` set (db_artifacts db) \<and>
     list_all (\<lambda>row. ax_event_id row = ''artifact_registered:'' @ ax_artifact_id row) (db_artifacts db)"

lemma append_keeps_artifacts: "sqlite_append dt to_json now db e = Inr (entry, db') \<Longrightarrow> db_artifacts db' = db_artifacts db"
  by (auto simp: sqlite_append_def insert_event_def Let_def split: option.split_asm if_split_asm)

lemma events_unchanged:
  "sqlite_history of_json (db \<lparr> db_artifacts := rows \<rparr>) = sqlite_history of_json db"
  "sqlite_inv dt to_json of_json (db \<lparr> db_artifacts := rows \<rparr>) = sqlite_inv dt to_json of_json db"
  by (simp_all add: sqlite_history_def sqlite_inv_def)

lemma save_fresh_row:
  assumes "artifacts_saved db ids" "savable r" "af_artifact_id r \<notin> ids"
  shows "save_artifact_record r db = (Inr (), db \<lparr> db_artifacts := db_artifacts db @ [artifact_row_of r] \<rparr>)"
proof -
  have "af_event_id r \<notin> ax_event_id ` set (db_artifacts db)"
    using assms by (auto simp: artifacts_saved_def savable_def list_all_iff)
  then show ?thesis
    using assms by (auto simp: save_artifact_record_def insert_artifact_def artifact_row_of_def artifacts_saved_def savable_def)
qed

interpretation sqlite_artifacts: artifact_store dt "sqlite_ops dt to_json of_json" "sqlite_initialize empty_db"
  "sqlite_inv dt to_json of_json" "json_codec_ok to_json of_json" "sqlite_history of_json" artifacts_saved for dt to_json of_json
proof (rule artifact_store.intro)
  show "event_store dt (so_append (sqlite_ops dt to_json of_json) now) (so_by_index (sqlite_ops dt to_json of_json))
      (so_by_id (sqlite_ops dt to_json of_json)) (so_list (sqlite_ops dt to_json of_json)) (sqlite_initialize empty_db)
      (sqlite_inv dt to_json of_json) (json_codec_ok to_json of_json) (sqlite_history of_json)" for now
    by (simp add: sqlite_ops_def sql.event_store_axioms)
  show "artifacts_saved (sqlite_initialize empty_db) {}"
    by (simp add: artifacts_saved_def sqlite_initialize_def empty_db_def)
  show "artifacts_saved s' ids" if "so_append (sqlite_ops dt to_json of_json) now s e = Inr (entry, s')" "artifacts_saved s ids" for now s e entry s' ids
    using that append_keeps_artifacts [of dt to_json now s e entry s'] by (simp add: sqlite_ops_def artifacts_saved_def)
  show "\<exists>s'. so_save (sqlite_ops dt to_json of_json) r s = (Inr (), s') \<and> sqlite_inv dt to_json of_json s' \<and>
      sqlite_history of_json s' = sqlite_history of_json s \<and> artifacts_saved s' (insert (af_artifact_id r) ids)"
    if "sqlite_inv dt to_json of_json s" "artifacts_saved s ids" "savable r" "af_artifact_id r \<notin> ids" for s ids r
    using that save_fresh_row [OF that(2-4)]
    by (auto simp: sqlite_ops_def events_unchanged artifacts_saved_def savable_def artifact_row_of_def)
qed

section \<open>Reading rows back\<close>

lemma isoformat_z_prefix:
  obtains p where "isoformat_utc t = p @ ''+00:00''" "isoformat_z t = p @ ''Z''" "CHR ''Z'' \<notin> set p"
proof -
  obtain y m d where date: "date_of_days (t div micros_per_day) = (y, m, d)" by (cases "date_of_days (t div micros_per_day)")
  have digits: "CHR ''Z'' \<notin> set (show_nat k)" for k using show_nat_digits [of "CHR ''Z''" k] by (auto simp: is_digit_def)
  then have pad: "CHR ''Z'' \<notin> set (zero_pad w i)" for w i
    by (auto simp: zero_pad_def Let_def show_int_def)
  have "\<exists>p. isoformat_utc t = p @ ''+00:00'' \<and> CHR ''Z'' \<notin> set p"
    unfolding isoformat_utc_def date Let_def prod.case append_assoc [symmetric]
    by (intro exI conjI, rule refl) (simp add: pad)
  then show thesis using that by (auto simp: isoformat_z_def)
qed

text \<open>\<^verbatim>\<open>fromisoformat\<close> reads what \<^verbatim>\<open>isoformat\<close> printed.\<close>

lemma parse_printed_timestamp:
  assumes "fromiso (isoformat_utc t) = Inr (Aware t 0)"
  shows "parse_utc_timestamp fromiso (isoformat_z t) = Inr t"
proof -
  obtain p where p: "isoformat_utc t = p @ ''+00:00''" "isoformat_z t = p @ ''Z''" "CHR ''Z'' \<notin> set p" by (rule isoformat_z_prefix)
  have "concat (map (\<lambda>c. if c = CHR ''Z'' then ''+00:00'' else [c]) p) = p" using p(3) by (induction p) auto
  then show ?thesis using assms by (simp add: parse_utc_timestamp_def p(1,2))
qed

lemma dict_items_json: "dict_items (py_of_json (JObj kvs)) = Some (map (\<lambda>(k, v). (k, py_of_json v)) kvs)"
  by (simp add: dict_items_def comp_def case_prod_unfold)

definition with_sorted_metadata :: "artifact_record \<Rightarrow> artifact_record" where
  "with_sorted_metadata r = r \<lparr> af_metadata := sort_key fst (map (\<lambda>(k, v). (k, jnorm v)) (af_metadata r)) \<rparr>"

definition artifact_record_ok :: "artifact_record \<Rightarrow> bool" where
  "artifact_record_ok r \<longleftrightarrow> 0 \<le> af_byte_size r \<and> length (af_artifact_hash r) = 64 \<and> fromhex_opt (af_artifact_hash r) \<noteq> None"

lemma row_read_back:
  assumes "artifact_record_ok r" "json_ok (JObj (af_metadata r))" "floats_ok fl (JObj (af_metadata r))"
    "fromiso (isoformat_utc (af_timestamp r)) = Inr (Aware (af_timestamp r) 0)"
  shows "row_to_artifact_record fl fromiso (artifact_row_of r) = Inr (with_sorted_metadata r)"
proof -
  have parsed: "loads fl (dumps_ascii (JObj (af_metadata r))) = Inr (py_of_json (JObj (af_metadata (with_sorted_metadata r))))"
    using loads_dumps_ascii [OF assms(2,3)] by (simp add: with_sorted_metadata_def)
  have ok: "0 \<le> af_byte_size r" "length (af_artifact_hash r) = 64" "\<exists>bs. fromhex (af_artifact_hash r) = Inr bs"
    using assms(1) by (auto simp: artifact_record_ok_def fromhex_def rget_def)
  have "row_to_artifact_record fl fromiso (artifact_row_of r) =
      create_artifact_record (af_artifact_id r) (af_artifact_hash r) (af_reference_uri r) (af_content_type r) (af_byte_size r)
        (map (\<lambda>(k, v). (k, py_of_json v)) (af_metadata (with_sorted_metadata r))) (Aware (af_timestamp r) 0) (af_event_id r) (af_log_index r)"
    by (simp add: row_to_artifact_record_def artifact_row_of_def parsed dict_items_json parse_printed_timestamp [of fromiso "af_timestamp r", OF assms(4)] del: py_of_json.simps)
  also have "\<dots> = Inr (with_sorted_metadata r)"
    using ok by (auto simp: create_artifact_record_def normalized_again with_sorted_metadata_def)
  finally show ?thesis .
qed

text \<open>What has been saved is read back, with the keys of the metadata sorted; and so is what has been changed since.\<close>

lemma find_appended: "k \<notin> f ` set xs \<Longrightarrow> f y = k \<Longrightarrow> find (\<lambda>x. f x = k) (xs @ [y]) = Some y"
  by (induction xs) auto

lemma saved_record_read_back:
  assumes "artifact_record_ok r" "json_ok (JObj (af_metadata r))" "floats_ok fl (JObj (af_metadata r))"
    "fromiso (isoformat_utc (af_timestamp r)) = Inr (Aware (af_timestamp r) 0)" and saved: "save_artifact_record r db = (Inr (), db')"
  shows "stored_artifact_record fl fromiso db' (af_artifact_id r) = Inr (with_sorted_metadata r)"
proof -
  have "af_artifact_id r \<notin> ax_artifact_id ` set (db_artifacts db)" "db_artifacts db' = db_artifacts db @ [artifact_row_of r]"
    using saved by (auto simp: save_artifact_record_def insert_artifact_def artifact_row_of_def split: if_split_asm)
  then have "find (\<lambda>row. ax_artifact_id row = af_artifact_id r) (db_artifacts db') = Some (artifact_row_of r)"
    using find_appended [of "af_artifact_id r" ax_artifact_id "db_artifacts db" "artifact_row_of r"] by (simp add: artifact_row_of_def)
  then show ?thesis using row_read_back [of r fl fromiso, OF assms(1-4)] by (simp add: stored_artifact_record_def)
qed

lemma tampered_row_is_read:
  assumes "artifact_record_ok r" "json_ok (JObj (af_metadata r))" "floats_ok fl (JObj (af_metadata r))"
    "fromiso (isoformat_utc (af_timestamp r)) = Inr (Aware (af_timestamp r) 0)" and digest: "length h = 64" "fromhex_opt h \<noteq> None"
  shows "row_to_artifact_record fl fromiso ((artifact_row_of r) \<lparr> ax_artifact_hash := h \<rparr>) = Inr (with_sorted_metadata (r \<lparr> af_artifact_hash := h \<rparr>))"
proof -
  have "(artifact_row_of r) \<lparr> ax_artifact_hash := h \<rparr> = artifact_row_of (r \<lparr> af_artifact_hash := h \<rparr>)" by (simp add: artifact_row_of_def)
  moreover have "row_to_artifact_record fl fromiso (artifact_row_of (r \<lparr> af_artifact_hash := h \<rparr>)) = Inr (with_sorted_metadata (r \<lparr> af_artifact_hash := h \<rparr>))"
    by (rule row_read_back) (use assms in \<open>simp_all add: artifact_record_ok_def\<close>)
  ultimately show ?thesis by simp
qed

section \<open>Properties\<close>

text \<open>pydantic reads back the event a request submits.\<close>

definition stored_readably :: "(evidence_event \<Rightarrow> string) \<Rightarrow> (string \<Rightarrow> evidence_event result) \<Rightarrow> string \<Rightarrow> api_request \<Rightarrow> bool" where
  "stored_readably to_json of_json profile r \<longleftrightarrow>
     (case submitted_event profile r of None \<Rightarrow> True | Some e \<Rightarrow> of_json (to_json e) = Inr e)"

lemma admits_readable:
  "sqlite_artifacts.admits to_json of_json profile requests \<longleftrightarrow> list_all (stored_readably to_json of_json profile) requests"
proof -
  have "(\<lambda>r. opt_ok (json_codec_ok to_json of_json) (submitted_event profile r)) = stored_readably to_json of_json profile"
    by (intro ext) (simp add: opt_ok_def json_codec_ok_def stored_readably_def split: option.split)
  then show ?thesis by (simp add: sqlite_artifacts.admits_def)
qed

lemma started:
  assumes "create_app (sqlite_ops dt to_json of_json) (sqlite_initialize empty_db) = Inr app"
  shows "sqlite_artifacts.app_inv dt to_json of_json app" "sqlite_artifacts.rebuilt dt of_json app"
  using sqlite_artifacts.start_rebuilt [of dt to_json of_json] assms by (metis sum.inject(2))+



text \<open>
  C33. An event that poses as a registration stops the service for good: the general endpoint accepts an event of the registration
  type whose identifier has the prefix of a registration but whose metadata name no artifact, and from then on, whatever is
  submitted later, the service cannot be started on that database.
\<close>

theorem posing_event_blocks_every_restart:
  fixes dt :: "utc \<Rightarrow> string"
  assumes codec: "list_all (stored_readably to_json of_json profile) (before @ Append scope now n a # later)"
    and honest: "list_all (\<lambda>r. \<not> impersonates profile r) before"
    and poses: "submitted_event profile (Append scope now n a) = Some e" "ev_event_type e = registration_type"
      "starts_with ''artifact_registered:'' (ev_event_id e)" "map_of (ev_metadata e) ''artifact_id'' = None"
  defines "ops \<equiv> sqlite_ops dt to_json of_json"
  assumes start: "create_app ops (sqlite_initialize empty_db) = Inr app0"
    and new: "so_by_id ops (aa_log (api_run ops profile before app0)) (ev_event_id e) = Inl err"
    and accepted: "n \<le> max_event_body_bytes" "ensure_event_matches_scope e scope = Inr ()"
  shows "\<exists>entry app. append_event ops profile scope now n a (api_run ops profile before app0) = (Inr entry, app) \<and>
    (\<exists>x. create_app ops (aa_log (api_run ops profile later app)) = Inl x)"
proof -
  let ?append = "Append scope now n a" and ?app = "api_run ops profile before app0"
  have adm: "sqlite_artifacts.admits to_json of_json profile before" "sqlite_artifacts.admits to_json of_json profile later"
    "json_codec_ok to_json of_json e"
    using codec poses(1) by (simp_all add: admits_readable stored_readably_def [of _ _ _ ?append] json_codec_ok_def del: submitted_event.simps)
  note run = sqlite_artifacts.run_rebuilt [OF started [OF start [unfolded ops_def]] adm(1) honest, folded ops_def]
  have log: "sqlite_inv dt to_json of_json (aa_log ?app)" using run by (simp add: sqlite_artifacts.app_inv_def)
  have fresh: "ev_event_id e \<notin> ev_event_id ` set (sqlite_history of_json (aa_log ?app))"
  proof
    assume "ev_event_id e \<in> ev_event_id ` set (sqlite_history of_json (aa_log ?app))"
    then obtain i where "i < length (sqlite_history of_json (aa_log ?app))" "ev_event_id (sqlite_history of_json (aa_log ?app) ! i) = ev_event_id e"
      by (auto simp: in_set_conv_nth)
    with sql.by_id_found [OF log] new show False by (metis Inl_Inr_False ops_def sqlite_ops_def store_ops.select_convs(3))
  qed
  from poses(1) obtain submitted where e: "EvidenceEvent a = Inr submitted" "apply_redaction_profile submitted profile = Inr e"
    by (auto split: sum.split_asm)
  have step: "append_event ops profile scope now n a ?app = app_append ops now e ?app"
    using e accepted by (simp add: append_event_def action_simps)
  from sql.append_fresh [OF log adm(3) fresh, of now] obtain entry s' where
    "sqlite_append dt to_json now (aa_log ?app) e = Inr (entry, s')" by blast
  then have executed: "app_append ops now e ?app = (Inr entry, ?app \<lparr> aa_log := s' \<rparr>)"
    by (simp add: app_append_def ops_def sqlite_ops_def)
  from sqlite_artifacts.app_append_effect [of dt to_json of_json ?app e now] run adm(3)
  have "atomically ?app (sqlite_artifacts.appends dt to_json of_json e ?app) (app_append ops now e ?app)" by (simp add: ops_def)
  then have after: "sqlite_artifacts.appends dt to_json of_json e ?app entry (?app \<lparr> aa_log := s' \<rparr>)"
    unfolding executed by (simp add: atomically_def)
  have "artifact_record_from_log_entry (entry_for dt k e) = Inl (ArtifactRegistryError ''artifact registration event is missing artifact_id'')" for k
    using poses(2-4) by (simp add: artifact_record_from_log_entry_def Let_def describes_artifact_def json_as_str_def nonempty_def)
  then have "sqlite_artifacts.unreadable dt e" by (simp add: sqlite_artifacts.unreadable_def)
  moreover have "e \<in> set (sqlite_history of_json (aa_log (?app \<lparr> aa_log := s' \<rparr>)))" "sqlite_artifacts.app_inv dt to_json of_json (?app \<lparr> aa_log := s' \<rparr>)"
    using after by (simp_all add: sqlite_artifacts.appends_def)
  ultimately have "\<exists>x. create_app ops (aa_log (api_run ops profile later (?app \<lparr> aa_log := s' \<rparr>))) = Inl x"
    unfolding ops_def by (intro sqlite_artifacts.run_blocked [OF _ _ _ adm(2)]) simp_all
  with step executed show ?thesis by metis
qed

text \<open>
  C34. The redaction profile of the service does not reach registrations: whatever the profile, the metadata of a registered artifact
  are appended to the log as they were submitted, in an event that records no profile.
\<close>

theorem registration_bypasses_redaction:
  fixes dt :: "utc \<Rightarrow> string"
  assumes codec: "list_all (stored_readably to_json of_json profile) (before @ [Register scope created_at now q])"
    and honest: "list_all (\<lambda>r. \<not> impersonates profile r) before"
  defines "ops \<equiv> sqlite_ops dt to_json of_json"
  assumes start: "create_app ops (sqlite_initialize empty_db) = Inr app0"
    and registered: "register_artifact ops scope created_at now q (api_run ops profile before app0) = (Inr receipt, app1)"
  shows "\<exists>entries entry md n. so_list ops (aa_log (api_run ops profile before app0)) = Inr entries \<and>
    so_list ops (aa_log app1) = Inr (entries @ [entry]) \<and> normalize_artifact_metadata (rg_metadata q) = Inr md \<and>
    ev_metadata (le_event entry) = registration_metadata (rg_artifact_id q) (rg_content_type q) n md \<and>
    ev_redaction_profile (le_event entry) = None"
proof -
  let ?register = "Register scope created_at now q" and ?app = "api_run ops profile before app0"
  have adm: "sqlite_artifacts.admits to_json of_json profile before"
    "\<forall>e. submitted_event profile ?register = Some e \<longrightarrow> json_codec_ok to_json of_json e"
    using codec by (auto simp: admits_readable stored_readably_def [of _ _ _ ?register] json_codec_ok_def simp del: submitted_event.simps split: option.split_asm)
  note run = sqlite_artifacts.run_rebuilt [OF started [OF start [unfolded ops_def]] adm(1) honest, folded ops_def]
  from sqlite_artifacts.register_effect [OF conjunct1 [OF run] adm(2)] registered
  obtain content e where e: "registration_event created_at q content = Inr e" "sqlite_artifacts.app_inv dt to_json of_json app1"
    "sqlite_history of_json (aa_log app1) = sqlite_history of_json (aa_log ?app) @ [e]"
    by (auto simp: atomically_def sqlite_artifacts.registers_def ops_def)
  obtain md where md: "normalize_artifact_metadata (rg_metadata q) = Inr md"
    "ev_metadata e = registration_metadata (rg_artifact_id q) (rg_content_type q) (length content) md" "ev_redaction_profile e = None"
    using registration_event_fields [OF e(1)] by blast
  have "so_list ops (aa_log ?app) = Inr (entries_of dt (sqlite_history of_json (aa_log ?app)))"
    "so_list ops (aa_log app1) = Inr (entries_of dt (sqlite_history of_json (aa_log app1)))"
    using run e(2) sql.listing_history [of dt to_json of_json] by (simp_all add: ops_def sqlite_ops_def sqlite_artifacts.app_inv_def)
  with e(3) md show ?thesis by (simp add: entries_of_snoc) blast
qed

section \<open>Instances\<close>

definition demo_registration :: registration where
  "demo_registration = \<lparr> rg_artifact_id = ''a'', rg_base64 = ''TQ=='', rg_tenant_id = ''t'', rg_workspace_id = ''w'', rg_content_type = ''c'',
     rg_metadata = [(''email'', PyStr ''u@x'')], rg_reference_uri = None, rg_source_system = None, rg_actor_id = None, rg_correlation_id = None \<rparr>"

definition anyone :: tenant_scope where
  "anyone = \<lparr> ts_tenant = None, ts_workspace = None \<rparr>"

abbreviation demo_register :: api_request where
  "demo_register \<equiv> Register anyone 7 7 demo_registration"

text \<open>A store whose pydantic reads back the one event it wrote.\<close>

definition demo_ops :: "sqlite_db store_ops" where
  "demo_ops = sqlite_ops isoformat_z (\<lambda>_. []) (\<lambda>_. registration_event 7 demo_registration [0x4D])"

lemma demo_content: "decode_artifact_base64 (rg_base64 demo_registration) = Inr [0x4D]"
  by code_simp

lemma demo_registration_fields: "registration_ok demo_registration" "rg_artifact_id demo_registration = ''a''"
  by code_simp+

lemma demo_event: "\<exists>e. registration_event 7 demo_registration [0x4D] = Inr e"
proof -
  let ?items = "[(''artifact_id'', JStr ''a''), (''content_type'', JStr ''c''), (''byte_size'', JInt 1), (''metadata'', JObj [(''email'', JStr ''u@x'')])]"
  have "length (canon (JObj ?items)) < 200" by code_simp
  moreover have items: "rmap (\<lambda>(k, v). rbind (normalize_json_value v) (\<lambda>j. Inr (k, j))) [(''artifact_id'', PyStr ''a''), (''content_type'', PyStr ''c''),
      (''byte_size'', PyInt 1), (''metadata'', PyDict [(PyStr ''email'', PyStr ''u@x'')])] = Inr ?items"
    by (simp add: json_key_def)
  ultimately have "require_json_native_mapping [(''artifact_id'', PyStr ''a''), (''content_type'', PyStr ''c''), (''byte_size'', PyInt 1),
      (''metadata'', PyDict [(PyStr ''email'', PyStr ''u@x'')])] = Inr (?items, True)"
    unfolding require_json_native_mapping_def items canonicalize_mapping [OF items] by simp
  then show ?thesis
    by (simp add: registration_event_def demo_registration_def build_artifact_event_id_def registration_reference_def nonempty_def
        build_artifact_reference_uri_def EvidenceEvent_def require_optional_mapping_def field_length_def hash_artifact_bytes_def registration_type_def)
qed

lemma demo_readable: "stored_readably (\<lambda>_. []) (\<lambda>_. registration_event 7 demo_registration [0x4D]) profile demo_register"
  using demo_event by (auto simp: stored_readably_def demo_content)

lemma demo_registers:
  obtains app0 receipt app1 where "create_app demo_ops (sqlite_initialize empty_db) = Inr app0"
    "register_artifact demo_ops anyone 7 7 demo_registration app0 = (Inr receipt, app1)"
proof -
  let ?of = "\<lambda>_. registration_event 7 demo_registration [0x4D]"
  obtain app0 where app0: "create_app demo_ops (sqlite_initialize empty_db) = Inr app0" "sqlite_artifacts.app_inv isoformat_z (\<lambda>_. []) ?of app0"
    "sqlite_history ?of (aa_log app0) = []" "aa_records app0 = Map.empty"
    using sqlite_artifacts.start_rebuilt [of isoformat_z "\<lambda>_. []" ?of] unfolding demo_ops_def by blast
  obtain e where e: "registration_event 7 demo_registration [0x4D] = Inr e" using demo_event by blast
  have "\<exists>receipt app1. register_artifact demo_ops anyone 7 7 demo_registration app0 = (Inr receipt, app1)"
    unfolding demo_ops_def
    by (rule sqlite_artifacts.register_succeeds [OF app0(2) demo_registration_fields(1) _ demo_content e])
      (simp_all add: app0(4) app0(3) [unfolded e] e anyone_def ensure_event_matches_scope_def json_codec_ok_def)
  with app0(1) that show thesis by blast
qed



theorem registration_bypasses_redaction_witness:
  "\<exists>app0 receipt app1 entry n. create_app demo_ops (sqlite_initialize empty_db) = Inr app0 \<and>
    register_artifact demo_ops anyone 7 7 demo_registration app0 = (Inr receipt, app1) \<and> so_list demo_ops (aa_log app1) = Inr [entry] \<and>
    ev_metadata (le_event entry) = registration_metadata ''a'' ''c'' n [(''email'', JStr ''u@x'')]"
proof -
  obtain app0 receipt app1 where start: "create_app demo_ops (sqlite_initialize empty_db) = Inr app0"
    and reg: "register_artifact demo_ops anyone 7 7 demo_registration app0 = (Inr receipt, app1)" by (rule demo_registers)
  have readable: "list_all (stored_readably (\<lambda>_. []) (\<lambda>_. registration_event 7 demo_registration [0x4D]) ''strict'') ([] @ [demo_register])"
    using demo_readable [of "''strict''"] by simp
  have run: "api_run demo_ops ''strict'' [] app0 = app0" by (simp add: api_run_def)
  have none: "so_list demo_ops (aa_log app0) = Inr []"
    using start by (auto simp: create_app_def demo_ops_def sqlite_ops_def sqlite_list_entries_def sqlite_initialize_def empty_db_def)
  have md: "normalize_artifact_metadata (rg_metadata demo_registration) = Inr [(''email'', JStr ''u@x'')]"
    by (rule normalized_metadata) (simp add: demo_registration_def)
  have honest: "list_all (\<lambda>r. \<not> impersonates ''strict'' r) []" by simp
  from registration_bypasses_redaction [where dt = isoformat_z, OF readable honest, folded demo_ops_def, OF start, unfolded run, OF reg] none md
  show ?thesis using start reg by (simp add: demo_registration_fields) (metis demo_registration_def registration.select_convs(5))
qed

definition posing_args :: evidence_event_args where
  "posing_args = \<lparr> arg_event_id = ''artifact_registered:x'', arg_tenant_id = ''t'', arg_workspace_id = ''w'', arg_evidence_id = ''x'',
     arg_event_type = registration_type, arg_subject_ref = None, arg_content_hash = sha256_hex [], arg_content_hash_alg = ''sha256'',
     arg_metadata = [], arg_created_at_utc = Aware 0 0, arg_schema_version = ''ets.event.v1'', arg_source_system = None,
     arg_actor_id = None, arg_correlation_id = None, arg_external_refs = None, arg_redaction_profile = Some ''none'' \<rparr>"

definition posing_event :: evidence_event where
  "posing_event = \<lparr> ev_event_id = ''artifact_registered:x'', ev_tenant_id = ''t'', ev_workspace_id = ''w'', ev_evidence_id = ''x'',
     ev_event_type = registration_type, ev_subject_ref = None, ev_content_hash = sha256_hex [], ev_content_hash_alg = ''sha256'',
     ev_metadata = [], ev_created_at_utc = 0, ev_schema_version = ''ets.event.v1'', ev_source_system = None, ev_actor_id = None,
     ev_correlation_id = None, ev_external_refs = None, ev_redaction_profile = Some ''none'' \<rparr>"

lemma posing_submitted: "submitted_event ''none'' (Append anyone 7 200 posing_args) = Some posing_event"
proof -
  have "length (utf8 ''{}'') < 10" by code_simp
  then have "EvidenceEvent posing_args = Inr posing_event"
    by (simp add: EvidenceEvent_def posing_args_def posing_event_def require_json_native_mapping_def require_optional_mapping_def canonicalize_def
        canon_def field_length_def registration_type_def)
  moreover have "apply_redaction_profile posing_event ''none'' = Inr posing_event"
    by (simp add: apply_redaction_profile_def effective_profile_def passthrough_def posing_event_def supported_redaction_profiles_def Let_def)
  ultimately show ?thesis by simp
qed

theorem posing_event_blocks_every_restart_witness:
  "\<exists>app0 entry app x. create_app (sqlite_ops isoformat_z (\<lambda>_. []) (\<lambda>_. Inr posing_event)) (sqlite_initialize empty_db) = Inr app0 \<and>
    append_event (sqlite_ops isoformat_z (\<lambda>_. []) (\<lambda>_. Inr posing_event)) ''none'' anyone 7 200 posing_args app0 = (Inr entry, app) \<and>
    create_app (sqlite_ops isoformat_z (\<lambda>_. []) (\<lambda>_. Inr posing_event)) (aa_log app) = Inl x"
proof -
  let ?ops = "sqlite_ops isoformat_z (\<lambda>_. []) (\<lambda>_. Inr posing_event)"
  obtain app0 where start: "create_app ?ops (sqlite_initialize empty_db) = Inr app0" "aa_log app0 = sqlite_initialize empty_db"
    by (simp add: create_app_def sqlite_ops_def sqlite_list_entries_def sqlite_initialize_def empty_db_def load_artifact_registry_def)
  have run: "api_run ?ops ''none'' [] app = app" for app by (simp add: api_run_def)
  have missing: "so_by_id ?ops (aa_log (api_run ?ops ''none'' [] app0)) (ev_event_id posing_event) = Inl (id_not_found (ev_event_id posing_event))"
    unfolding run start(2) by (simp add: sqlite_ops_def sqlite_get_by_event_id_def sqlite_initialize_def empty_db_def id_not_found_def)
  have "\<exists>entry app. append_event ?ops ''none'' anyone 7 200 posing_args (api_run ?ops ''none'' [] app0) = (Inr entry, app) \<and>
    (\<exists>x. create_app ?ops (aa_log (api_run ?ops ''none'' [] app)) = Inl x)"
  proof (rule posing_event_blocks_every_restart [OF _ _ posing_submitted _ _ _ start(1) missing])
    show "list_all (stored_readably (\<lambda>_. []) (\<lambda>_. Inr posing_event) ''none'') ([] @ [Append anyone 7 200 posing_args])"
      using posing_submitted by (simp add: stored_readably_def del: submitted_event.simps)
    show "200 \<le> max_event_body_bytes" by (simp add: max_event_body_bytes_def)
  qed (simp_all add: posing_event_def starts_with_def ensure_event_matches_scope_def anyone_def)
  then show ?thesis using start unfolding run by blast
qed

end
