(* ===== verification/Spec2Isabelle.thy ===== *)
theory Spec2Isabelle
  imports Ets_Proofs Ets_Hash_Chain Ets_Federation Ets_Sqlite_Store Ets_Verifier Ets_Vault
    Ets_Fleet Ets_Election Ets_Sync_Queue Ets_Black_Box_Spec Ets_Azure_Concurrency
    Ets_Ranger_Standing Ets_Sqlite_Artifacts
begin

text \<open>
  The Evidence Transparency System (ETS): a verification library.

  \<^bold>\<open>The program.\<close> ETS keeps evidence events in an append-only log. An event is hashed over its canonical JSON, the
  hash becomes a leaf of a Merkle tree, and tree heads, inclusion proofs and consistency proofs let an outside
  verifier check that an event was logged and that the log only grew. Around this core stand an offline and an
  online verifier, a vault that preserves bytes under retention, the enrollment of the devices that
  submit evidence, an election ledger, the queue from which a gateway synchronizes its records,
  a black box recorder of signed incident windows, and the publication of receipts under keys that are enrolled, rotated and revoked.

  \<^bold>\<open>The theories\<close>, and the sources under \<^verbatim>\<open>src/ets\<close> they model. Definitions keep the names of the code; a class is a record,
  its validators a predicate with suffix \<open>_ok\<close> or a constructor that may raise, a method an operation on its state.

  \<^item> \<open>Ets_Prelude\<close>: exceptions and results, hexadecimal and UTF-8 text. \<open>Ets_Text\<close>: the string methods and the
    regular-expression searches the sources use. \<open>Ets_Pytime\<close>: datetimes and their ISO text. \<open>Ets_Sha256\<close>: SHA-256, executable;
    \<open>Ets_Sha256_Vectors\<close>: its evaluation by rewriting, on the standard's example and on the keys of the examples below.
  \<^item> \<open>Ets_Json\<close> (\<^verbatim>\<open>core/canonical_json.py\<close>): normalisation, printing and digest of JSON values; printing determines the value up to
    the order of keys. \<open>Ets_Json_Parse\<close>: \<^verbatim>\<open>json.loads\<close>, which reads back what was printed.
  \<^item> \<open>Ets_Merkle\<close> (\<^verbatim>\<open>core/merkle.py\<close>): the tree hash refines the recursive tree hash of RFC 6962; roots bind leaves;
    audit paths recompute the root.
  \<^item> \<open>Ets_Events\<close> (\<^verbatim>\<open>core/models.py\<close>, \<^verbatim>\<open>core/redaction.py\<close>): events, what their hash binds, and redaction.
  \<^item> \<open>Ets_Log\<close> (\<^verbatim>\<open>core/log.py\<close>, \<^verbatim>\<open>core/storage.py\<close>): the contract of an event store as a locale, and the in-memory provider, which
    interprets it. \<open>Ets_Sqlite_Store\<close> (\<^verbatim>\<open>core/sqlite_store.py\<close>): the SQLite provider interprets the same
    locale, hence answers as the in-memory log does, and fails closed on tampered rows.
  \<^item> \<open>Ets_Artifacts\<close> (\<^verbatim>\<open>core/artifacts.py\<close>, \<^verbatim>\<open>core/artifact_registry.py\<close>): artifact records and the registry rebuilt from the log.
    \<open>Ets_Artifact_Api\<close> (\<^verbatim>\<open>api/app.py\<close>): start of the service, registration, appends and verification over any store that honours
    the locale \<open>artifact_store\<close>; \<open>Ets_Sqlite_Artifacts\<close>: the artifact table, which makes the SQLite provider such a store, and what
    follows for restarts. \<open>Ets_Json_Ascii\<close>: \<^verbatim>\<open>json.dumps\<close> with escaped characters, read back by \<^verbatim>\<open>json.loads\<close>.
  \<^item> \<open>Ets_Proofs\<close> (\<^verbatim>\<open>core/proofs.py\<close>): generation and verification of inclusion and consistency proofs, sound and complete.
  \<^item> \<open>Ets_Linked\<close>: sequences linked by digests, with the binding of their history proved once in two locales, and actions
    on a mutable state that may raise. \<open>Ets_Hash_Chain\<close> (\<^verbatim>\<open>core/hash_chain.py\<close>), the journal in \<open>Ets_Vault\<close> and the ledger in
    \<open>Ets_Election\<close> interpret these locales.
  \<^item> \<open>Ets_Tree_Head\<close> (\<^verbatim>\<open>core/tree_head.py\<close>, \<^verbatim>\<open>core/signing.py\<close>, \<^verbatim>\<open>core/anchors.py\<close>): tree heads, what a signature covers, anchors.
    \<open>Ets_Federation\<close> (\<^verbatim>\<open>core/quorum.py\<close>, \<^verbatim>\<open>core/federation.py\<close>): votes and the assessment of several verifiers' views.
  \<^item> \<open>Ets_Verifier\<close> (\<^verbatim>\<open>verifier/service.py\<close>, \<^verbatim>\<open>core/bundle.py\<close>): the offline and online verifier; what acceptance means for the log.
  \<^item> \<open>Ets_Vault\<close> (\<^verbatim>\<open>vault/models.py\<close>, \<^verbatim>\<open>vault/store.py\<close>, \<^verbatim>\<open>vault/service.py\<close>): preservation, retention, legal holds, purge, and the
    journal, as a state machine over commands that may raise half-way.
  \<^item> \<open>Ets_Fleet\<close> (\<^verbatim>\<open>fleet/models.py\<close>, \<^verbatim>\<open>fleet/store.py\<close>, \<^verbatim>\<open>fleet/service.py\<close>): enrollment records and their lifecycle, rotation of
    credentials, authorization, over every reachable store.
  \<^item> \<open>Ets_Election\<close> (\<^verbatim>\<open>election/models.py\<close>, \<^verbatim>\<open>election/ledger.py\<close>, \<^verbatim>\<open>election/proofs.py\<close>): packets, ledger, replay, root manifests and bundles.
  \<^item> \<open>Ets_Sync_Queue\<close> (\<^verbatim>\<open>runtime/sync_queue.py\<close>, \<^verbatim>\<open>runtime/sync_queue_scope.py\<close>): the bounded queue, its bounds, order and delivery.
  \<^item> \<open>Ets_Azure_Table\<close> (\<^verbatim>\<open>core/azure_table_store.py\<close>): the event store on Azure Tables over a locale that states the contract of the table
    service, which the backend of the repository's tests interprets; \<open>Ets_Azure_Concurrency\<close>: any number of writers, interleaved between
    the calls of \<^verbatim>\<open>append\<close>, keep one log, and used alone the store refines the in-memory log.
  \<^item> \<open>Ets_Black_Box\<close> (\<^verbatim>\<open>black_box/models.py\<close>, \<^verbatim>\<open>black_box/store.py\<close>, \<^verbatim>\<open>black_box/service.py\<close>): the recorder over its in-memory store, boot and
    recovery, and the invariant of every reachable store; \<open>Ets_Black_Box_Spec\<close>: what follows for incident windows, restarts and bounds.
  \<^item> \<open>Ets_Ranger_Publication\<close> (\<^verbatim>\<open>ranger/external_publication.py\<close>): signed receipts, the publisher, chain verification. \<open>Ets_Ranger_Archive\<close>
    (\<^verbatim>\<open>ranger/publication_archive.py\<close>): the archive of a custodian and its retrieval audits. \<open>Ets_Ranger_Keys\<close> and \<open>Ets_Ranger_Standing\<close>
    (\<^verbatim>\<open>ranger/publication_key_lifecycle.py\<close>): the ledger of publication keys as a refinement of a lifecycle machine, and the standings
    by which a source is verified under a key that was active. Both databases are shared by any number of processes, interleaved
    between the transactions.

  \<^bold>\<open>Conventions.\<close> A Python string is a \<open>string\<close>, so code points end at 255. Exceptions are values of \<open>exn\<close>. Nothing is
  assumed of SHA-256: a theorem that needs collision resistance concludes with the disjunction of its claim and an
  explicit pair of different messages of equal digest among those that were hashed. Code outside the repository is a
  parameter: Ed25519 and RSA primitives, Azure clients, the HTTP transport, pydantic's text of a
  datetime (\<open>dt\<close>) and its JSON codec, the clock, nonces, the value of a float literal. Named predicates on a parameter
  (\<open>json_codec_ok\<close> and its like) state what its documentation promises and are shown satisfiable where they are used.

  \<^bold>\<open>Termination.\<close> No definition runs on fuel. Loops are structural recursions or recursions with a measure: \<open>split_loop\<close>
  doubles a power of two below the tree size, the parser of \<open>Ets_Json_Parse\<close> recurses on shorter rests of the text, which
  its guards make explicit and its lemmas show always to hold.

  \<^bold>\<open>Not modelled.\<close> Routing and rendering of the HTTP API, the command lines, the connectors, capture adapters and hosted runtimes are I/O around the components
  above. Key parsing in \<^verbatim>\<open>core/signing.py\<close>, the HTTP transport of the verifier, the SQLite store of the black box,
  \<^verbatim>\<open>make_compensating_packet\<close> of the election ledger the adapter of the Azure store to the Azure SDK
  and the composition of publication receipts with time attestations and registries are left out of components modelled otherwise. Concurrency is modelled where
  it shows in the code's own transactions: for \<open>Ets_Sync_Queue\<close>, \<open>Ets_Azure_Table\<close> and the ranger stores the points at which another process may run are explicit;
  elsewhere operations run under a lock of the code.

  \<^bold>\<open>Plan.\<close> Next are the registry of profiles, the framing of syslog capture, and the key authority and checkpoints of the ranger package.
\<close>

end
